(* ===== verification/Prelude.thy ===== *)
theory Prelude
  imports Main "HOL-Library.Word" "HOL-Library.Monad_Syntax"
begin

text \<open>
  Shared vocabulary of the development: the machine types, the collections of rewrite rules the
  component proofs are carried by, and generic lemmas on lists, options and words.
\<close>

unbundle bit_operations_syntax

type_synonym byte = "8 word"
type_synonym uint32 = "32 word"

named_theorems model_defs \<open>definitions that symbolic execution of a component unfolds\<close>
named_theorems fault_intros \<open>facts that a partial read returns a value\<close>

text \<open>The bytes of an ASCII literal of the source.\<close>

definition ascii :: "string \<Rightarrow> byte list" where
  "ascii s = map (\<lambda>c. word_of_nat (of_char c)) s"

lemma ascii_Nil [simp]: "ascii [] = []"
  and ascii_Cons [simp]: "ascii (c # cs) = word_of_nat (of_char c) # ascii cs"
  and length_ascii [simp]: "length (ascii s) = length s"
  by (simp_all add: ascii_def)

lemma bind_eq_Some_iff [simp]:
  "Option.bind m f = Some y \<longleftrightarrow> (\<exists>x. m = Some x \<and> f x = Some y)"
  by (cases m) auto

lemma ball_nth_all: "(\<forall>i < length xs. P (xs ! i)) \<longleftrightarrow> list_all P xs"
  by (auto simp: list_all_length)

lemma list_all_nth: "list_all P xs \<Longrightarrow> i < length xs \<Longrightarrow> P (xs ! i)"
  by (simp add: list_all_length)

section \<open>Partial and total correctness of option computations\<close>

text \<open>
  A computation of type \<open>'a option\<close> that can fault is reasoned about through two predicates:
  \<open>returns_only Q m\<close>, a returned value satisfies \<open>Q\<close>, and \<open>returns Q m\<close>, it does return and
  the value satisfies \<open>Q\<close>. Both distribute over the connectives the models are written with.
\<close>

definition returns_only :: "('a \<Rightarrow> bool) \<Rightarrow> 'a option \<Rightarrow> bool" where
  "returns_only Q m \<longleftrightarrow> (\<forall>x. m = Some x \<longrightarrow> Q x)"

definition returns :: "('a \<Rightarrow> bool) \<Rightarrow> 'a option \<Rightarrow> bool" where
  "returns Q m \<longleftrightarrow> (\<exists>x. m = Some x \<and> Q x)"

lemma returns_only_simps [simp]:
  "returns_only Q None"
  "returns_only Q (Some x) = Q x"
  "returns_only Q (Option.bind m f) = returns_only (\<lambda>w. returns_only Q (f w)) m"
  "returns_only Q (if c then y else z) = ((c \<longrightarrow> returns_only Q y) \<and> (\<not> c \<longrightarrow> returns_only Q z))"
  by (auto simp: returns_only_def)

lemma returns_simps [simp]:
  "\<not> returns Q None"
  "returns Q (Some x) = Q x"
  "returns Q (Option.bind m f) = returns (\<lambda>w. returns Q (f w)) m"
  "returns Q (if c then y else z) = ((c \<longrightarrow> returns Q y) \<and> (\<not> c \<longrightarrow> returns Q z))"
  by (auto simp: returns_def)

lemma returns_onlyI: "(\<And>x. m = Some x \<Longrightarrow> Q x) \<Longrightarrow> returns_only Q m"
  by (simp add: returns_only_def)

lemma returns_onlyD: "returns_only Q m \<Longrightarrow> m = Some x \<Longrightarrow> Q x"
  by (simp add: returns_only_def)

lemma returns_only_mono: "returns_only Q m \<Longrightarrow> (\<And>x. Q x \<Longrightarrow> R x) \<Longrightarrow> returns_only R m"
  by (auto simp: returns_only_def)

lemma returns_mono: "returns Q m \<Longrightarrow> (\<And>x. m = Some x \<Longrightarrow> Q x \<Longrightarrow> R x) \<Longrightarrow> returns R m"
  by (auto simp: returns_def)

lemma returnsE: "returns Q m \<Longrightarrow> (\<And>x. m = Some x \<Longrightarrow> Q x \<Longrightarrow> P) \<Longrightarrow> P"
  by (auto simp: returns_def)

lemma returns_prod: "returns Q m \<longleftrightarrow> (\<exists>x y. m = Some (x, y) \<and> Q (x, y))"
  by (auto simp: returns_def)

end
