(* ===== verification/Xml_Bytes.thy ===== *)
theory Xml_Bytes
  imports Prelude
begin

text \<open>
  Byte classification of the bundled expat (\<^verbatim>\<open>win/libexpat\<close>): the byte types of
  \<^verbatim>\<open>xmltok_impl.h\<close>, the tables of \<^verbatim>\<open>asciitab.h\<close>, \<^verbatim>\<open>iasciitab.h\<close>, \<^verbatim>\<open>utf8tab.h\<close>,
  \<^verbatim>\<open>latin1tab.h\<close> and \<^verbatim>\<open>nametab.h\<close>, the UTF-8 checks and the encoding objects of
  \<^verbatim>\<open>xmltok.c\<close>, and the access macros (\<open>MINBPC\<close>, \<open>BYTE_TYPE\<close>, \<open>BYTE_TO_ASCII\<close>,
  \<open>CHAR_MATCHES\<close>, \<open>IS_NAME_CHAR\<close>, \<open>IS_NMSTRT_CHAR\<close>, \<open>IS_INVALID_CHAR\<close>) that the three
  inclusions of \<^verbatim>\<open>xmltok_impl.c\<close> are parameterised by. The configuration is the one
  \<^verbatim>\<open>winconfig.h\<close> selects: \<open>XML_NS\<close> and \<open>XML_DTD\<close> defined, \<open>XML_MIN_SIZE\<close> not.

  A buffer is the list of the bytes before \<open>end\<close>, a pointer is an offset into it. Every read is
  partial: \<open>None\<close> is a read at or past \<open>end\<close>, or a call through a null function pointer.
\<close>

section \<open>Byte types and tables\<close>

datatype bt = BT_NONXML | BT_MALFORM | BT_LT | BT_AMP | BT_RSQB | BT_LEAD2 | BT_LEAD3 | BT_LEAD4
  | BT_TRAIL | BT_CR | BT_LF | BT_GT | BT_QUOT | BT_APOS | BT_EQUALS | BT_QUEST | BT_EXCL | BT_SOL
  | BT_SEMI | BT_NUM | BT_LSQB | BT_S | BT_NMSTRT | BT_COLON | BT_HEX | BT_DIGIT | BT_NAME
  | BT_MINUS | BT_OTHER | BT_NONASCII | BT_PERCNT | BT_LPAR | BT_RPAR | BT_AST | BT_PLUS
  | BT_COMMA | BT_VERBAR

definition asciitab :: "bt list" where
  "asciitab = [
   BT_NONXML, BT_NONXML, BT_NONXML, BT_NONXML, BT_NONXML, BT_NONXML, BT_NONXML, BT_NONXML,
   BT_NONXML, BT_S, BT_LF, BT_NONXML, BT_NONXML, BT_CR, BT_NONXML, BT_NONXML, BT_NONXML,
   BT_NONXML, BT_NONXML, BT_NONXML, BT_NONXML, BT_NONXML, BT_NONXML, BT_NONXML, BT_NONXML,
   BT_NONXML, BT_NONXML, BT_NONXML, BT_NONXML, BT_NONXML, BT_NONXML, BT_NONXML, BT_S, BT_EXCL,
   BT_QUOT, BT_NUM, BT_OTHER, BT_PERCNT, BT_AMP, BT_APOS, BT_LPAR, BT_RPAR, BT_AST, BT_PLUS,
   BT_COMMA, BT_MINUS, BT_NAME, BT_SOL, BT_DIGIT, BT_DIGIT, BT_DIGIT, BT_DIGIT, BT_DIGIT,
   BT_DIGIT, BT_DIGIT, BT_DIGIT, BT_DIGIT, BT_DIGIT, BT_COLON, BT_SEMI, BT_LT, BT_EQUALS,
   BT_GT, BT_QUEST, BT_OTHER, BT_HEX, BT_HEX, BT_HEX, BT_HEX, BT_HEX, BT_HEX, BT_NMSTRT,
   BT_NMSTRT, BT_NMSTRT, BT_NMSTRT, BT_NMSTRT, BT_NMSTRT, BT_NMSTRT, BT_NMSTRT, BT_NMSTRT,
   BT_NMSTRT, BT_NMSTRT, BT_NMSTRT, BT_NMSTRT, BT_NMSTRT, BT_NMSTRT, BT_NMSTRT, BT_NMSTRT,
   BT_NMSTRT, BT_NMSTRT, BT_NMSTRT, BT_LSQB, BT_OTHER, BT_RSQB, BT_OTHER, BT_NMSTRT, BT_OTHER,
   BT_HEX, BT_HEX, BT_HEX, BT_HEX, BT_HEX, BT_HEX, BT_NMSTRT, BT_NMSTRT, BT_NMSTRT, BT_NMSTRT,
   BT_NMSTRT, BT_NMSTRT, BT_NMSTRT, BT_NMSTRT, BT_NMSTRT, BT_NMSTRT, BT_NMSTRT, BT_NMSTRT,
   BT_NMSTRT, BT_NMSTRT, BT_NMSTRT, BT_NMSTRT, BT_NMSTRT, BT_NMSTRT, BT_NMSTRT, BT_NMSTRT,
   BT_OTHER, BT_VERBAR, BT_OTHER, BT_OTHER, BT_OTHER]"

definition iasciitab :: "bt list" where
  "iasciitab = [
   BT_NONXML, BT_NONXML, BT_NONXML, BT_NONXML, BT_NONXML, BT_NONXML, BT_NONXML, BT_NONXML,
   BT_NONXML, BT_S, BT_LF, BT_NONXML, BT_NONXML, BT_S, BT_NONXML, BT_NONXML, BT_NONXML,
   BT_NONXML, BT_NONXML, BT_NONXML, BT_NONXML, BT_NONXML, BT_NONXML, BT_NONXML, BT_NONXML,
   BT_NONXML, BT_NONXML, BT_NONXML, BT_NONXML, BT_NONXML, BT_NONXML, BT_NONXML, BT_S, BT_EXCL,
   BT_QUOT, BT_NUM, BT_OTHER, BT_PERCNT, BT_AMP, BT_APOS, BT_LPAR, BT_RPAR, BT_AST, BT_PLUS,
   BT_COMMA, BT_MINUS, BT_NAME, BT_SOL, BT_DIGIT, BT_DIGIT, BT_DIGIT, BT_DIGIT, BT_DIGIT,
   BT_DIGIT, BT_DIGIT, BT_DIGIT, BT_DIGIT, BT_DIGIT, BT_COLON, BT_SEMI, BT_LT, BT_EQUALS,
   BT_GT, BT_QUEST, BT_OTHER, BT_HEX, BT_HEX, BT_HEX, BT_HEX, BT_HEX, BT_HEX, BT_NMSTRT,
   BT_NMSTRT, BT_NMSTRT, BT_NMSTRT, BT_NMSTRT, BT_NMSTRT, BT_NMSTRT, BT_NMSTRT, BT_NMSTRT,
   BT_NMSTRT, BT_NMSTRT, BT_NMSTRT, BT_NMSTRT, BT_NMSTRT, BT_NMSTRT, BT_NMSTRT, BT_NMSTRT,
   BT_NMSTRT, BT_NMSTRT, BT_NMSTRT, BT_LSQB, BT_OTHER, BT_RSQB, BT_OTHER, BT_NMSTRT, BT_OTHER,
   BT_HEX, BT_HEX, BT_HEX, BT_HEX, BT_HEX, BT_HEX, BT_NMSTRT, BT_NMSTRT, BT_NMSTRT, BT_NMSTRT,
   BT_NMSTRT, BT_NMSTRT, BT_NMSTRT, BT_NMSTRT, BT_NMSTRT, BT_NMSTRT, BT_NMSTRT, BT_NMSTRT,
   BT_NMSTRT, BT_NMSTRT, BT_NMSTRT, BT_NMSTRT, BT_NMSTRT, BT_NMSTRT, BT_NMSTRT, BT_NMSTRT,
   BT_OTHER, BT_VERBAR, BT_OTHER, BT_OTHER, BT_OTHER]"

definition utf8tab :: "bt list" where
  "utf8tab = [
   BT_TRAIL, BT_TRAIL, BT_TRAIL, BT_TRAIL, BT_TRAIL, BT_TRAIL, BT_TRAIL, BT_TRAIL, BT_TRAIL,
   BT_TRAIL, BT_TRAIL, BT_TRAIL, BT_TRAIL, BT_TRAIL, BT_TRAIL, BT_TRAIL, BT_TRAIL, BT_TRAIL,
   BT_TRAIL, BT_TRAIL, BT_TRAIL, BT_TRAIL, BT_TRAIL, BT_TRAIL, BT_TRAIL, BT_TRAIL, BT_TRAIL,
   BT_TRAIL, BT_TRAIL, BT_TRAIL, BT_TRAIL, BT_TRAIL, BT_TRAIL, BT_TRAIL, BT_TRAIL, BT_TRAIL,
   BT_TRAIL, BT_TRAIL, BT_TRAIL, BT_TRAIL, BT_TRAIL, BT_TRAIL, BT_TRAIL, BT_TRAIL, BT_TRAIL,
   BT_TRAIL, BT_TRAIL, BT_TRAIL, BT_TRAIL, BT_TRAIL, BT_TRAIL, BT_TRAIL, BT_TRAIL, BT_TRAIL,
   BT_TRAIL, BT_TRAIL, BT_TRAIL, BT_TRAIL, BT_TRAIL, BT_TRAIL, BT_TRAIL, BT_TRAIL, BT_TRAIL,
   BT_TRAIL, BT_LEAD2, BT_LEAD2, BT_LEAD2, BT_LEAD2, BT_LEAD2, BT_LEAD2, BT_LEAD2, BT_LEAD2,
   BT_LEAD2, BT_LEAD2, BT_LEAD2, BT_LEAD2, BT_LEAD2, BT_LEAD2, BT_LEAD2, BT_LEAD2, BT_LEAD2,
   BT_LEAD2, BT_LEAD2, BT_LEAD2, BT_LEAD2, BT_LEAD2, BT_LEAD2, BT_LEAD2, BT_LEAD2, BT_LEAD2,
   BT_LEAD2, BT_LEAD2, BT_LEAD2, BT_LEAD2, BT_LEAD2, BT_LEAD2, BT_LEAD3, BT_LEAD3, BT_LEAD3,
   BT_LEAD3, BT_LEAD3, BT_LEAD3, BT_LEAD3, BT_LEAD3, BT_LEAD3, BT_LEAD3, BT_LEAD3, BT_LEAD3,
   BT_LEAD3, BT_LEAD3, BT_LEAD3, BT_LEAD3, BT_LEAD4, BT_LEAD4, BT_LEAD4, BT_LEAD4, BT_LEAD4,
   BT_NONXML, BT_NONXML, BT_NONXML, BT_NONXML, BT_NONXML, BT_NONXML, BT_NONXML, BT_NONXML,
   BT_NONXML, BT_MALFORM, BT_MALFORM]"

definition latin1tab :: "bt list" where
  "latin1tab = [
   BT_OTHER, BT_OTHER, BT_OTHER, BT_OTHER, BT_OTHER, BT_OTHER, BT_OTHER, BT_OTHER, BT_OTHER,
   BT_OTHER, BT_OTHER, BT_OTHER, BT_OTHER, BT_OTHER, BT_OTHER, BT_OTHER, BT_OTHER, BT_OTHER,
   BT_OTHER, BT_OTHER, BT_OTHER, BT_OTHER, BT_OTHER, BT_OTHER, BT_OTHER, BT_OTHER, BT_OTHER,
   BT_OTHER, BT_OTHER, BT_OTHER, BT_OTHER, BT_OTHER, BT_OTHER, BT_OTHER, BT_OTHER, BT_OTHER,
   BT_OTHER, BT_OTHER, BT_OTHER, BT_OTHER, BT_OTHER, BT_OTHER, BT_NMSTRT, BT_OTHER, BT_OTHER,
   BT_OTHER, BT_OTHER, BT_OTHER, BT_OTHER, BT_OTHER, BT_OTHER, BT_OTHER, BT_OTHER, BT_NMSTRT,
   BT_OTHER, BT_NAME, BT_OTHER, BT_OTHER, BT_NMSTRT, BT_OTHER, BT_OTHER, BT_OTHER, BT_OTHER,
   BT_OTHER, BT_NMSTRT, BT_NMSTRT, BT_NMSTRT, BT_NMSTRT, BT_NMSTRT, BT_NMSTRT, BT_NMSTRT,
   BT_NMSTRT, BT_NMSTRT, BT_NMSTRT, BT_NMSTRT, BT_NMSTRT, BT_NMSTRT, BT_NMSTRT, BT_NMSTRT,
   BT_NMSTRT, BT_NMSTRT, BT_NMSTRT, BT_NMSTRT, BT_NMSTRT, BT_NMSTRT, BT_NMSTRT, BT_NMSTRT,
   BT_OTHER, BT_NMSTRT, BT_NMSTRT, BT_NMSTRT, BT_NMSTRT, BT_NMSTRT, BT_NMSTRT, BT_NMSTRT,
   BT_NMSTRT, BT_NMSTRT, BT_NMSTRT, BT_NMSTRT, BT_NMSTRT, BT_NMSTRT, BT_NMSTRT, BT_NMSTRT,
   BT_NMSTRT, BT_NMSTRT, BT_NMSTRT, BT_NMSTRT, BT_NMSTRT, BT_NMSTRT, BT_NMSTRT, BT_NMSTRT,
   BT_NMSTRT, BT_NMSTRT, BT_NMSTRT, BT_NMSTRT, BT_NMSTRT, BT_NMSTRT, BT_NMSTRT, BT_NMSTRT,
   BT_OTHER, BT_NMSTRT, BT_NMSTRT, BT_NMSTRT, BT_NMSTRT, BT_NMSTRT, BT_NMSTRT, BT_NMSTRT,
   BT_NMSTRT]"

definition namingBitmap :: "32 word list" where
  "namingBitmap = [
   0x00000000, 0x00000000, 0x00000000, 0x00000000, 0x00000000, 0x00000000, 0x00000000,
   0x00000000, 0xFFFFFFFF, 0xFFFFFFFF, 0xFFFFFFFF, 0xFFFFFFFF, 0xFFFFFFFF, 0xFFFFFFFF,
   0xFFFFFFFF, 0xFFFFFFFF, 0x00000000, 0x04000000, 0x87FFFFFE, 0x07FFFFFE, 0x00000000,
   0x00000000, 0xFF7FFFFF, 0xFF7FFFFF, 0xFFFFFFFF, 0x7FF3FFFF, 0xFFFFFDFE, 0x7FFFFFFF,
   0xFFFFFFFF, 0xFFFFFFFF, 0xFFFFE00F, 0xFC31FFFF, 0x00FFFFFF, 0x00000000, 0xFFFF0000,
   0xFFFFFFFF, 0xFFFFFFFF, 0xF80001FF, 0x00000003, 0x00000000, 0x00000000, 0x00000000,
   0x00000000, 0x00000000, 0xFFFFD740, 0xFFFFFFFB, 0x547F7FFF, 0x000FFFFD, 0xFFFFDFFE,
   0xFFFFFFFF, 0xDFFEFFFF, 0xFFFFFFFF, 0xFFFF0003, 0xFFFFFFFF, 0xFFFF199F, 0x033FCFFF,
   0x00000000, 0xFFFE0000, 0x027FFFFF, 0xFFFFFFFE, 0x0000007F, 0x00000000, 0xFFFF0000,
   0x000707FF, 0x00000000, 0x07FFFFFE, 0x000007FE, 0xFFFE0000, 0xFFFFFFFF, 0x7CFFFFFF,
   0x002F7FFF, 0x00000060, 0xFFFFFFE0, 0x23FFFFFF, 0xFF000000, 0x00000003, 0xFFF99FE0,
   0x03C5FDFF, 0xB0000000, 0x00030003, 0xFFF987E0, 0x036DFDFF, 0x5E000000, 0x001C0000,
   0xFFFBAFE0, 0x23EDFDFF, 0x00000000, 0x00000001, 0xFFF99FE0, 0x23CDFDFF, 0xB0000000,
   0x00000003, 0xD63DC7E0, 0x03BFC718, 0x00000000, 0x00000000, 0xFFFDDFE0, 0x03EFFDFF,
   0x00000000, 0x00000003, 0xFFFDDFE0, 0x03EFFDFF, 0x40000000, 0x00000003, 0xFFFDDFE0,
   0x03FFFDFF, 0x00000000, 0x00000003, 0x00000000, 0x00000000, 0x00000000, 0x00000000,
   0xFFFFFFFE, 0x000D7FFF, 0x0000003F, 0x00000000, 0xFEF02596, 0x200D6CAE, 0x0000001F,
   0x00000000, 0x00000000, 0x00000000, 0xFFFFFEFF, 0x000003FF, 0x00000000, 0x00000000,
   0x00000000, 0x00000000, 0x00000000, 0x00000000, 0x00000000, 0x00000000, 0x00000000,
   0xFFFFFFFF, 0xFFFF003F, 0x007FFFFF, 0x0007DAED, 0x50000000, 0x82315001, 0x002C62AB,
   0x40000000, 0xF580C900, 0x00000007, 0x02010800, 0xFFFFFFFF, 0xFFFFFFFF, 0xFFFFFFFF,
   0xFFFFFFFF, 0x0FFFFFFF, 0xFFFFFFFF, 0xFFFFFFFF, 0x03FFFFFF, 0x3F3FFFFF, 0xFFFFFFFF,
   0xAAFF3F3F, 0x3FFFFFFF, 0xFFFFFFFF, 0x5FDFFFFF, 0x0FCF1FDC, 0x1FDC1FFF, 0x00000000,
   0x00004C40, 0x00000000, 0x00000000, 0x00000007, 0x00000000, 0x00000000, 0x00000000,
   0x00000080, 0x000003FE, 0xFFFFFFFE, 0xFFFFFFFF, 0x001FFFFF, 0xFFFFFFFE, 0xFFFFFFFF,
   0x07FFFFFF, 0xFFFFFFE0, 0x00001FFF, 0x00000000, 0x00000000, 0x00000000, 0x00000000,
   0x00000000, 0x00000000, 0xFFFFFFFF, 0xFFFFFFFF, 0xFFFFFFFF, 0xFFFFFFFF, 0xFFFFFFFF,
   0x0000003F, 0x00000000, 0x00000000, 0xFFFFFFFF, 0xFFFFFFFF, 0xFFFFFFFF, 0xFFFFFFFF,
   0xFFFFFFFF, 0x0000000F, 0x00000000, 0x00000000, 0x00000000, 0x07FF6000, 0x87FFFFFE,
   0x07FFFFFE, 0x00000000, 0x00800000, 0xFF7FFFFF, 0xFF7FFFFF, 0x00FFFFFF, 0x00000000,
   0xFFFF0000, 0xFFFFFFFF, 0xFFFFFFFF, 0xF80001FF, 0x00030003, 0x00000000, 0xFFFFFFFF,
   0xFFFFFFFF, 0x0000003F, 0x00000003, 0xFFFFD7C0, 0xFFFFFFFB, 0x547F7FFF, 0x000FFFFD,
   0xFFFFDFFE, 0xFFFFFFFF, 0xDFFEFFFF, 0xFFFFFFFF, 0xFFFF007B, 0xFFFFFFFF, 0xFFFF199F,
   0x033FCFFF, 0x00000000, 0xFFFE0000, 0x027FFFFF, 0xFFFFFFFE, 0xFFFE007F, 0xBBFFFFFB,
   0xFFFF0016, 0x000707FF, 0x00000000, 0x07FFFFFE, 0x0007FFFF, 0xFFFF03FF, 0xFFFFFFFF,
   0x7CFFFFFF, 0xFFEF7FFF, 0x03FF3DFF, 0xFFFFFFEE, 0xF3FFFFFF, 0xFF1E3FFF, 0x0000FFCF,
   0xFFF99FEE, 0xD3C5FDFF, 0xB080399F, 0x0003FFCF, 0xFFF987E4, 0xD36DFDFF, 0x5E003987,
   0x001FFFC0, 0xFFFBAFEE, 0xF3EDFDFF, 0x00003BBF, 0x0000FFC1, 0xFFF99FEE, 0xF3CDFDFF,
   0xB0C0398F, 0x0000FFC3, 0xD63DC7EC, 0xC3BFC718, 0x00803DC7, 0x0000FF80, 0xFFFDDFEE,
   0xC3EFFDFF, 0x00603DDF, 0x0000FFC3, 0xFFFDDFEC, 0xC3EFFDFF, 0x40603DDF, 0x0000FFC3,
   0xFFFDDFEC, 0xC3FFFDFF, 0x00803DCF, 0x0000FFC3, 0x00000000, 0x00000000, 0x00000000,
   0x00000000, 0xFFFFFFFE, 0x07FF7FFF, 0x03FF7FFF, 0x00000000, 0xFEF02596, 0x3BFF6CAE,
   0x03FF3F5F, 0x00000000, 0x03000000, 0xC2A003FF, 0xFFFFFEFF, 0xFFFE03FF, 0xFEBF0FDF,
   0x02FE3FFF, 0x00000000, 0x00000000, 0x00000000, 0x00000000, 0x00000000, 0x00000000,
   0x00000000, 0x00000000, 0x1FFF0000, 0x00000002, 0x000000A0, 0x003EFFFE, 0xFFFFFFFE,
   0xFFFFFFFF, 0x661FFFFF, 0xFFFFFFFE, 0xFFFFFFFF, 0x77FFFFFF]"

definition nmstrtPages :: "byte list" where
  "nmstrtPages = [
   0x02, 0x03, 0x04, 0x05, 0x06, 0x07, 0x08, 0x00, 0x00, 0x09, 0x0A, 0x0B, 0x0C, 0x0D, 0x0E,
   0x0F, 0x10, 0x11, 0x00, 0x00, 0x00, 0x00, 0x00, 0x00, 0x00, 0x00, 0x00, 0x00, 0x00, 0x00,
   0x12, 0x13, 0x00, 0x14, 0x00, 0x00, 0x00, 0x00, 0x00, 0x00, 0x00, 0x00, 0x00, 0x00, 0x00,
   0x00, 0x00, 0x00, 0x15, 0x16, 0x00, 0x00, 0x00, 0x00, 0x00, 0x00, 0x00, 0x00, 0x00, 0x00,
   0x00, 0x00, 0x00, 0x00, 0x00, 0x00, 0x00, 0x00, 0x00, 0x00, 0x00, 0x00, 0x00, 0x00, 0x00,
   0x00, 0x00, 0x00, 0x01, 0x01, 0x01, 0x01, 0x01, 0x01, 0x01, 0x01, 0x01, 0x01, 0x01, 0x01,
   0x01, 0x01, 0x01, 0x01, 0x01, 0x01, 0x01, 0x01, 0x01, 0x01, 0x01, 0x01, 0x01, 0x01, 0x01,
   0x01, 0x01, 0x01, 0x01, 0x01, 0x01, 0x01, 0x01, 0x01, 0x01, 0x01, 0x01, 0x01, 0x01, 0x01,
   0x01, 0x01, 0x01, 0x01, 0x01, 0x01, 0x01, 0x01, 0x01, 0x01, 0x01, 0x01, 0x01, 0x01, 0x01,
   0x01, 0x01, 0x01, 0x01, 0x01, 0x01, 0x01, 0x01, 0x01, 0x01, 0x01, 0x01, 0x01, 0x01, 0x01,
   0x01, 0x01, 0x01, 0x01, 0x01, 0x01, 0x01, 0x01, 0x01, 0x17, 0x00, 0x00, 0x00, 0x00, 0x00,
   0x00, 0x00, 0x00, 0x00, 0x00, 0x00, 0x00, 0x01, 0x01, 0x01, 0x01, 0x01, 0x01, 0x01, 0x01,
   0x01, 0x01, 0x01, 0x01, 0x01, 0x01, 0x01, 0x01, 0x01, 0x01, 0x01, 0x01, 0x01, 0x01, 0x01,
   0x01, 0x01, 0x01, 0x01, 0x01, 0x01, 0x01, 0x01, 0x01, 0x01, 0x01, 0x01, 0x01, 0x01, 0x01,
   0x01, 0x01, 0x01, 0x01, 0x01, 0x18, 0x00, 0x00, 0x00, 0x00, 0x00, 0x00, 0x00, 0x00, 0x00,
   0x00, 0x00, 0x00, 0x00, 0x00, 0x00, 0x00, 0x00, 0x00, 0x00, 0x00, 0x00, 0x00, 0x00, 0x00,
   0x00, 0x00, 0x00, 0x00, 0x00, 0x00, 0x00, 0x00, 0x00, 0x00, 0x00, 0x00, 0x00, 0x00, 0x00,
   0x00]"

definition namePages :: "byte list" where
  "namePages = [
   0x19, 0x03, 0x1A, 0x1B, 0x1C, 0x1D, 0x1E, 0x00, 0x00, 0x1F, 0x20, 0x21, 0x22, 0x23, 0x24,
   0x25, 0x10, 0x11, 0x00, 0x00, 0x00, 0x00, 0x00, 0x00, 0x00, 0x00, 0x00, 0x00, 0x00, 0x00,
   0x12, 0x13, 0x26, 0x14, 0x00, 0x00, 0x00, 0x00, 0x00, 0x00, 0x00, 0x00, 0x00, 0x00, 0x00,
   0x00, 0x00, 0x00, 0x27, 0x16, 0x00, 0x00, 0x00, 0x00, 0x00, 0x00, 0x00, 0x00, 0x00, 0x00,
   0x00, 0x00, 0x00, 0x00, 0x00, 0x00, 0x00, 0x00, 0x00, 0x00, 0x00, 0x00, 0x00, 0x00, 0x00,
   0x00, 0x00, 0x00, 0x01, 0x01, 0x01, 0x01, 0x01, 0x01, 0x01, 0x01, 0x01, 0x01, 0x01, 0x01,
   0x01, 0x01, 0x01, 0x01, 0x01, 0x01, 0x01, 0x01, 0x01, 0x01, 0x01, 0x01, 0x01, 0x01, 0x01,
   0x01, 0x01, 0x01, 0x01, 0x01, 0x01, 0x01, 0x01, 0x01, 0x01, 0x01, 0x01, 0x01, 0x01, 0x01,
   0x01, 0x01, 0x01, 0x01, 0x01, 0x01, 0x01, 0x01, 0x01, 0x01, 0x01, 0x01, 0x01, 0x01, 0x01,
   0x01, 0x01, 0x01, 0x01, 0x01, 0x01, 0x01, 0x01, 0x01, 0x01, 0x01, 0x01, 0x01, 0x01, 0x01,
   0x01, 0x01, 0x01, 0x01, 0x01, 0x01, 0x01, 0x01, 0x01, 0x17, 0x00, 0x00, 0x00, 0x00, 0x00,
   0x00, 0x00, 0x00, 0x00, 0x00, 0x00, 0x00, 0x01, 0x01, 0x01, 0x01, 0x01, 0x01, 0x01, 0x01,
   0x01, 0x01, 0x01, 0x01, 0x01, 0x01, 0x01, 0x01, 0x01, 0x01, 0x01, 0x01, 0x01, 0x01, 0x01,
   0x01, 0x01, 0x01, 0x01, 0x01, 0x01, 0x01, 0x01, 0x01, 0x01, 0x01, 0x01, 0x01, 0x01, 0x01,
   0x01, 0x01, 0x01, 0x01, 0x01, 0x18, 0x00, 0x00, 0x00, 0x00, 0x00, 0x00, 0x00, 0x00, 0x00,
   0x00, 0x00, 0x00, 0x00, 0x00, 0x00, 0x00, 0x00, 0x00, 0x00, 0x00, 0x00, 0x00, 0x00, 0x00,
   0x00, 0x00, 0x00, 0x00, 0x00, 0x00, 0x00, 0x00, 0x00, 0x00, 0x00, 0x00, 0x00, 0x00, 0x00,
   0x00]"

section \<open>Name tables and UTF-8 validity (xmltok.c)\<close>

definition UCS2_GET_NAMING :: "byte list \<Rightarrow> byte \<Rightarrow> byte \<Rightarrow> bool" where
  "UCS2_GET_NAMING pages hi lo =
     (namingBitmap ! (push_bit 3 (unat (pages ! unat hi)) + unat (drop_bit 5 lo))
        AND push_bit (unat (lo AND 0x1F)) 1 \<noteq> 0)"

definition UTF8_GET_NAMING2 :: "byte list \<Rightarrow> byte list \<Rightarrow> bool" where
  "UTF8_GET_NAMING2 pages p =
     (namingBitmap ! (push_bit 3 (unat (pages ! unat (drop_bit 2 (p ! 0) AND 7)))
                      + push_bit 1 (unat (p ! 0 AND 3))
                      + unat (drop_bit 5 (p ! 1) AND 1))
        AND push_bit (unat (p ! 1 AND 0x1F)) 1 \<noteq> 0)"

definition UTF8_GET_NAMING3 :: "byte list \<Rightarrow> byte list \<Rightarrow> bool" where
  "UTF8_GET_NAMING3 pages p =
     (namingBitmap ! (push_bit 3 (unat (pages ! (push_bit 4 (unat (p ! 0 AND 0xF))
                                                 + unat (drop_bit 2 (p ! 1) AND 0xF))))
                      + push_bit 1 (unat (p ! 1 AND 3))
                      + unat (drop_bit 5 (p ! 2) AND 1))
        AND push_bit (unat (p ! 2 AND 0x1F)) 1 \<noteq> 0)"

definition UTF8_INVALID2 :: "byte list \<Rightarrow> bool" where
  "UTF8_INVALID2 p \<longleftrightarrow> p ! 0 < 0xC2 \<or> p ! 1 AND 0x80 = 0 \<or> p ! 1 AND 0xC0 = 0xC0"

definition UTF8_INVALID3 :: "byte list \<Rightarrow> bool" where
  "UTF8_INVALID3 p \<longleftrightarrow>
     p ! 2 AND 0x80 = 0
     \<or> (if p ! 0 = 0xEF \<and> p ! 1 = 0xBF then 0xBD < p ! 2 else p ! 2 AND 0xC0 = 0xC0)
     \<or> (if p ! 0 = 0xE0 then p ! 1 < 0xA0 \<or> p ! 1 AND 0xC0 = 0xC0
        else p ! 1 AND 0x80 = 0
             \<or> (if p ! 0 = 0xED then 0x9F < p ! 1 else p ! 1 AND 0xC0 = 0xC0))"

definition UTF8_INVALID4 :: "byte list \<Rightarrow> bool" where
  "UTF8_INVALID4 p \<longleftrightarrow>
     p ! 3 AND 0x80 = 0 \<or> p ! 3 AND 0xC0 = 0xC0
     \<or> p ! 2 AND 0x80 = 0 \<or> p ! 2 AND 0xC0 = 0xC0
     \<or> (if p ! 0 = 0xF0 then p ! 1 < 0x90 \<or> p ! 1 AND 0xC0 = 0xC0
        else p ! 1 AND 0x80 = 0
             \<or> (if p ! 0 = 0xF4 then 0x8F < p ! 1 else p ! 1 AND 0xC0 = 0xC0))"

definition isNever :: "byte list \<Rightarrow> bool" where
  "isNever p = False"

definition utf8_isName2 :: "byte list \<Rightarrow> bool" where
  "utf8_isName2 p = UTF8_GET_NAMING2 namePages p"

definition utf8_isName3 :: "byte list \<Rightarrow> bool" where
  "utf8_isName3 p = UTF8_GET_NAMING3 namePages p"

definition utf8_isNmstrt2 :: "byte list \<Rightarrow> bool" where
  "utf8_isNmstrt2 p = UTF8_GET_NAMING2 nmstrtPages p"

definition utf8_isNmstrt3 :: "byte list \<Rightarrow> bool" where
  "utf8_isNmstrt3 p = UTF8_GET_NAMING3 nmstrtPages p"

definition utf8_isInvalid2 :: "byte list \<Rightarrow> bool" where
  "utf8_isInvalid2 p = UTF8_INVALID2 p"

definition utf8_isInvalid3 :: "byte list \<Rightarrow> bool" where
  "utf8_isInvalid3 p = UTF8_INVALID3 p"

definition utf8_isInvalid4 :: "byte list \<Rightarrow> bool" where
  "utf8_isInvalid4 p = UTF8_INVALID4 p"

section \<open>Encoding objects\<close>

text \<open>
  \<open>prefix\<close> says which inclusion of \<^verbatim>\<open>xmltok_impl.c\<close> the vtable of the object points into
  (\<open>normal_\<close>, \<open>little2_\<close> or \<open>big2_\<close>). The nine character tests \<open>isName2\<close> ...
  \<open>isInvalid4\<close> of \<open>struct normal_encoding\<close> are three functions of the sequence length;
  \<open>None\<close> is a null pointer.
\<close>

datatype prefix = Normal | Little2 | Big2

text \<open>The converter of an encoding the client has described works on tables of that encoding, which the
  constructor carries with it.\<close>

datatype utf8_converter = Utf8_toUtf8 | Latin1_toUtf8 | Ascii_toUtf8 | Little2_toUtf8 | Big2_toUtf8 |
  Unknown_toUtf8 "byte list \<Rightarrow> nat \<Rightarrow> (nat \<times> byte list) option"

record encoding =
  prefix :: prefix
  minBytesPerChar :: nat
  isUtf8 :: bool
  utf8Convert :: utf8_converter
  type_tab :: "bt list"
  isName :: "nat \<Rightarrow> (byte list \<Rightarrow> bool) option"
  isNmstrt :: "nat \<Rightarrow> (byte list \<Rightarrow> bool) option"
  isInvalid :: "nat \<Rightarrow> (byte list \<Rightarrow> bool) option"

text \<open>The encodings without the suffix \<open>_ns\<close> include their ASCII table with \<open>BT_COLON\<close>
  defined as \<open>BT_NMSTRT\<close>; the argument \<open>ns\<close> is the suffix.\<close>

definition colon_tab :: "bool \<Rightarrow> bt list \<Rightarrow> bt list" where
  "colon_tab ns tab = (if ns then tab else map (\<lambda>t. if t = BT_COLON then BT_NMSTRT else t) tab)"

definition utf8_isName_tab :: "nat \<Rightarrow> (byte list \<Rightarrow> bool) option" where
  "utf8_isName_tab n = (if n = 2 then Some utf8_isName2 else if n = 3 then Some utf8_isName3
     else if n = 4 then Some isNever else None)"

definition utf8_isNmstrt_tab :: "nat \<Rightarrow> (byte list \<Rightarrow> bool) option" where
  "utf8_isNmstrt_tab n = (if n = 2 then Some utf8_isNmstrt2 else if n = 3 then Some utf8_isNmstrt3
     else if n = 4 then Some isNever else None)"

definition utf8_isInvalid_tab :: "nat \<Rightarrow> (byte list \<Rightarrow> bool) option" where
  "utf8_isInvalid_tab n = (if n = 2 then Some utf8_isInvalid2 else if n = 3 then Some utf8_isInvalid3
     else if n = 4 then Some utf8_isInvalid4 else None)"

definition utf8_encoding :: "bool \<Rightarrow> encoding" where
  "utf8_encoding ns = \<lparr>prefix = Normal, minBytesPerChar = 1, isUtf8 = True,
     utf8Convert = Utf8_toUtf8, type_tab = colon_tab ns asciitab @ utf8tab,
     isName = utf8_isName_tab, isNmstrt = utf8_isNmstrt_tab, isInvalid = utf8_isInvalid_tab\<rparr>"

definition internal_utf8_encoding :: "bool \<Rightarrow> encoding" where
  "internal_utf8_encoding ns = \<lparr>prefix = Normal, minBytesPerChar = 1, isUtf8 = True,
     utf8Convert = Utf8_toUtf8, type_tab = colon_tab ns iasciitab @ utf8tab,
     isName = utf8_isName_tab, isNmstrt = utf8_isNmstrt_tab, isInvalid = utf8_isInvalid_tab\<rparr>"

definition latin1_encoding :: "bool \<Rightarrow> encoding" where
  "latin1_encoding ns = \<lparr>prefix = Normal, minBytesPerChar = 1, isUtf8 = False,
     utf8Convert = Latin1_toUtf8, type_tab = colon_tab ns asciitab @ latin1tab,
     isName = (\<lambda>_. None), isNmstrt = (\<lambda>_. None), isInvalid = (\<lambda>_. None)\<rparr>"

definition ascii_encoding :: "bool \<Rightarrow> encoding" where
  "ascii_encoding ns = \<lparr>prefix = Normal, minBytesPerChar = 1, isUtf8 = True,
     utf8Convert = Ascii_toUtf8, type_tab = colon_tab ns asciitab @ replicate 128 BT_NONXML,
     isName = (\<lambda>_. None), isNmstrt = (\<lambda>_. None), isInvalid = (\<lambda>_. None)\<rparr>"

definition little2_encoding :: "bool \<Rightarrow> encoding" where
  "little2_encoding ns = \<lparr>prefix = Little2, minBytesPerChar = 2, isUtf8 = False,
     utf8Convert = Little2_toUtf8, type_tab = colon_tab ns asciitab @ latin1tab,
     isName = (\<lambda>_. None), isNmstrt = (\<lambda>_. None), isInvalid = (\<lambda>_. None)\<rparr>"

definition internal_little2_encoding :: "bool \<Rightarrow> encoding" where
  "internal_little2_encoding ns = \<lparr>prefix = Little2, minBytesPerChar = 2, isUtf8 = False,
     utf8Convert = Little2_toUtf8, type_tab = colon_tab ns iasciitab @ latin1tab,
     isName = (\<lambda>_. None), isNmstrt = (\<lambda>_. None), isInvalid = (\<lambda>_. None)\<rparr>"

definition big2_encoding :: "bool \<Rightarrow> encoding" where
  "big2_encoding ns = \<lparr>prefix = Big2, minBytesPerChar = 2, isUtf8 = False,
     utf8Convert = Big2_toUtf8, type_tab = colon_tab ns asciitab @ latin1tab,
     isName = (\<lambda>_. None), isNmstrt = (\<lambda>_. None), isInvalid = (\<lambda>_. None)\<rparr>"

lemmas encoding_defs = utf8_encoding_def internal_utf8_encoding_def latin1_encoding_def
  ascii_encoding_def little2_encoding_def internal_little2_encoding_def big2_encoding_def

section \<open>Access macros\<close>

fun MINBPC_of :: "prefix \<Rightarrow> nat" where
  "MINBPC_of Normal = 1"
| "MINBPC_of Little2 = 2"
| "MINBPC_of Big2 = 2"

definition MINBPC :: "encoding \<Rightarrow> nat" where
  "MINBPC enc = MINBPC_of (prefix enc)"

definition unicode_byte_type :: "byte \<Rightarrow> byte \<Rightarrow> bt" where
  "unicode_byte_type hi lo =
     (if hi = 0xD8 \<or> hi = 0xD9 \<or> hi = 0xDA \<or> hi = 0xDB then BT_LEAD4
      else if hi = 0xDC \<or> hi = 0xDD \<or> hi = 0xDE \<or> hi = 0xDF then BT_TRAIL
      else if hi = 0xFF \<and> (lo = 0xFF \<or> lo = 0xFE) then BT_NONXML
      else BT_NONASCII)"

definition SB_BYTE_TYPE :: "encoding \<Rightarrow> byte \<Rightarrow> bt" where
  "SB_BYTE_TYPE enc c = type_tab enc ! unat c"

definition LITTLE2_BYTE_TYPE :: "encoding \<Rightarrow> byte \<Rightarrow> byte \<Rightarrow> bt" where
  "LITTLE2_BYTE_TYPE enc p0 p1 =
     (if p1 = 0 then type_tab enc ! unat p0 else unicode_byte_type p1 p0)"

definition BIG2_BYTE_TYPE :: "encoding \<Rightarrow> byte \<Rightarrow> byte \<Rightarrow> bt" where
  "BIG2_BYTE_TYPE enc p0 p1 =
     (if p0 = 0 then type_tab enc ! unat p1 else unicode_byte_type p0 p1)"

definition BYTE_TYPE :: "encoding \<Rightarrow> byte list \<Rightarrow> nat \<Rightarrow> bt option" where
  "BYTE_TYPE enc b p =
     (if p + MINBPC enc \<le> length b
      then Some (case prefix enc of
                   Normal \<Rightarrow> SB_BYTE_TYPE enc (b ! p)
                 | Little2 \<Rightarrow> LITTLE2_BYTE_TYPE enc (b ! p) (b ! (p + 1))
                 | Big2 \<Rightarrow> BIG2_BYTE_TYPE enc (b ! p) (b ! (p + 1)))
      else None)"

text \<open>\<open>BYTE_TO_ASCII\<close> yields a (signed) \<open>char\<close> widened to \<open>int\<close>, or \<open>-1\<close>.\<close>

definition BYTE_TO_ASCII :: "encoding \<Rightarrow> byte list \<Rightarrow> nat \<Rightarrow> int option" where
  "BYTE_TO_ASCII enc b p =
     (if p + MINBPC enc \<le> length b
      then Some (case prefix enc of
                   Normal \<Rightarrow> sint (b ! p)
                 | Little2 \<Rightarrow> (if b ! (p + 1) = 0 then sint (b ! p) else -1)
                 | Big2 \<Rightarrow> (if b ! p = 0 then sint (b ! (p + 1)) else -1))
      else None)"

definition CHAR_MATCHES :: "encoding \<Rightarrow> byte list \<Rightarrow> nat \<Rightarrow> byte \<Rightarrow> bool option" where
  "CHAR_MATCHES enc b p c =
     (if p + MINBPC enc \<le> length b
      then Some (case prefix enc of
                   Normal \<Rightarrow> b ! p = c
                 | Little2 \<Rightarrow> b ! (p + 1) = 0 \<and> b ! p = c
                 | Big2 \<Rightarrow> b ! p = 0 \<and> b ! (p + 1) = c)
      else None)"

definition call_test :: "(nat \<Rightarrow> (byte list \<Rightarrow> bool) option) \<Rightarrow> byte list \<Rightarrow> nat \<Rightarrow> nat \<Rightarrow> bool option" where
  "call_test tab b p n =
     (if p + n \<le> length b then map_option (\<lambda>f. f (take n (drop p b))) (tab n) else None)"

definition IS_NAME_CHAR :: "encoding \<Rightarrow> byte list \<Rightarrow> nat \<Rightarrow> nat \<Rightarrow> bool option" where
  "IS_NAME_CHAR enc b p n =
     (if prefix enc = Normal then call_test (isName enc) b p n else Some False)"

definition IS_NMSTRT_CHAR :: "encoding \<Rightarrow> byte list \<Rightarrow> nat \<Rightarrow> nat \<Rightarrow> bool option" where
  "IS_NMSTRT_CHAR enc b p n =
     (if prefix enc = Normal then call_test (isNmstrt enc) b p n else Some False)"

definition IS_INVALID_CHAR :: "encoding \<Rightarrow> byte list \<Rightarrow> nat \<Rightarrow> nat \<Rightarrow> bool option" where
  "IS_INVALID_CHAR enc b p n =
     (if prefix enc = Normal then call_test (isInvalid enc) b p n else Some False)"

definition ucs2_test :: "byte list \<Rightarrow> encoding \<Rightarrow> byte list \<Rightarrow> nat \<Rightarrow> bool option" where
  "ucs2_test pages enc b p =
     (if p + MINBPC enc \<le> length b
      then Some (case prefix enc of
                   Normal \<Rightarrow> False
                 | Little2 \<Rightarrow> UCS2_GET_NAMING pages (b ! (p + 1)) (b ! p)
                 | Big2 \<Rightarrow> UCS2_GET_NAMING pages (b ! p) (b ! (p + 1)))
      else None)"

definition IS_NAME_CHAR_MINBPC :: "encoding \<Rightarrow> byte list \<Rightarrow> nat \<Rightarrow> bool option" where
  "IS_NAME_CHAR_MINBPC enc b p = ucs2_test namePages enc b p"

definition IS_NMSTRT_CHAR_MINBPC :: "encoding \<Rightarrow> byte list \<Rightarrow> nat \<Rightarrow> bool option" where
  "IS_NMSTRT_CHAR_MINBPC enc b p = ucs2_test nmstrtPages enc b p"

section \<open>Well-formed encodings\<close>

text \<open>
  What the scanners rely on: a full type table, character tests present for the multi-byte
  lead types the table uses, and no 2- or 3-byte leads in a two-byte encoding.
\<close>

definition lead_len :: "bt \<Rightarrow> nat" where
  "lead_len t = (if t = BT_LEAD2 then 2 else if t = BT_LEAD3 then 3
                 else if t = BT_LEAD4 then 4 else 0)"

definition wf_enc :: "encoding \<Rightarrow> bool" where
  "wf_enc enc \<longleftrightarrow>
     length (type_tab enc) = 256 \<and>
     (prefix enc = Normal \<longrightarrow>
        list_all (\<lambda>t. lead_len t \<noteq> 0 \<longrightarrow>
          isName enc (lead_len t) \<noteq> None \<and> isNmstrt enc (lead_len t) \<noteq> None \<and>
          isInvalid enc (lead_len t) \<noteq> None) (type_tab enc)) \<and>
     (prefix enc \<noteq> Normal \<longrightarrow> list_all (\<lambda>t. lead_len t = 0) (type_tab enc))"

lemma length_tabs [simp]:
  "length asciitab = 128" "length iasciitab = 128" "length utf8tab = 128" "length latin1tab = 128"
  by (simp_all add: asciitab_def iasciitab_def utf8tab_def latin1tab_def)

lemma length_name_tabs [simp]:
  "length namingBitmap = 320" "length nmstrtPages = 256" "length namePages = 256"
  by (simp_all add: namingBitmap_def nmstrtPages_def namePages_def)

lemma length_colon_tab [simp]: "length (colon_tab ns tab) = length tab"
  by (simp add: colon_tab_def)

lemma ascii_tabs_no_lead:
  "list_all (\<lambda>t. lead_len t = 0) (colon_tab ns asciitab)"
  "list_all (\<lambda>t. lead_len t = 0) (colon_tab ns iasciitab)"
  "list_all (\<lambda>t. lead_len t = 0) latin1tab"
  by (simp_all add: colon_tab_def asciitab_def iasciitab_def latin1tab_def lead_len_def)

lemma list_all_impI: "list_all (\<lambda>t. f t = (0::nat)) xs \<Longrightarrow> list_all (\<lambda>t. f t \<noteq> 0 \<longrightarrow> Q t) xs"
  by (simp add: list_all_iff)

lemma utf8_tests_present:
  "lead_len t \<noteq> 0 \<Longrightarrow> utf8_isName_tab (lead_len t) \<noteq> None \<and>
     utf8_isNmstrt_tab (lead_len t) \<noteq> None \<and> utf8_isInvalid_tab (lead_len t) \<noteq> None"
  by (simp add: lead_len_def utf8_isName_tab_def utf8_isNmstrt_tab_def utf8_isInvalid_tab_def
      split: if_splits)

lemma MINBPC_cases: "MINBPC enc = 1 \<or> MINBPC enc = 2"
  by (cases "prefix enc") (simp_all add: MINBPC_def)

lemma MINBPC_pos [simp]: "0 < MINBPC enc"
  using MINBPC_cases [of enc] by auto

lemma MINBPC_nonzero [simp]: "MINBPC enc \<noteq> 0"
  using MINBPC_pos [of enc] by (simp del: MINBPC_pos)

lemma MINBPC_less: "p + MINBPC enc \<le> q \<Longrightarrow> p < q"
  using MINBPC_pos [of enc] by linarith

lemma byte_less_256: "unat (c :: byte) < 256"
  using unsigned_less [of c, where 'a = nat] by simp

end
