(* ===== verification/Xml_Tok.thy ===== *)
theory Xml_Tok
  imports Xml_Bytes
begin

text \<open>
  The tokenizer of the bundled expat, \<^verbatim>\<open>xmltok_impl.c\<close>: one definition per scanner. A scanner
  takes the buffer up to \<open>end\<close> and the offset \<open>ptr\<close>, and returns the token code together with
  the value stored through \<open>nextTokPtr\<close> (\<open>None\<close> when nothing is stored). A result
  \<open>None\<close> of a scanner as a whole is a fault: a read past \<open>end\<close> or a call through a null pointer.
  Each \<open>while\<close> or \<open>for\<close> loop of a scanner is a recursive function of its own, whose termination
  measure is the number of bytes left.
\<close>

section \<open>Token codes (xmltok.h) and ASCII codes (ascii.h)\<close>

abbreviation (input) XML_TOK_TRAILING_RSQB :: int where "XML_TOK_TRAILING_RSQB \<equiv> -5"
abbreviation (input) XML_TOK_NONE :: int where "XML_TOK_NONE \<equiv> -4"
abbreviation (input) XML_TOK_TRAILING_CR :: int where "XML_TOK_TRAILING_CR \<equiv> -3"
abbreviation (input) XML_TOK_PARTIAL_CHAR :: int where "XML_TOK_PARTIAL_CHAR \<equiv> -2"
abbreviation (input) XML_TOK_PARTIAL :: int where "XML_TOK_PARTIAL \<equiv> -1"
abbreviation (input) XML_TOK_INVALID :: int where "XML_TOK_INVALID \<equiv> 0"
abbreviation (input) XML_TOK_START_TAG_WITH_ATTS :: int where "XML_TOK_START_TAG_WITH_ATTS \<equiv> 1"
abbreviation (input) XML_TOK_START_TAG_NO_ATTS :: int where "XML_TOK_START_TAG_NO_ATTS \<equiv> 2"
abbreviation (input) XML_TOK_EMPTY_ELEMENT_WITH_ATTS :: int where "XML_TOK_EMPTY_ELEMENT_WITH_ATTS \<equiv> 3"
abbreviation (input) XML_TOK_EMPTY_ELEMENT_NO_ATTS :: int where "XML_TOK_EMPTY_ELEMENT_NO_ATTS \<equiv> 4"
abbreviation (input) XML_TOK_END_TAG :: int where "XML_TOK_END_TAG \<equiv> 5"
abbreviation (input) XML_TOK_DATA_CHARS :: int where "XML_TOK_DATA_CHARS \<equiv> 6"
abbreviation (input) XML_TOK_DATA_NEWLINE :: int where "XML_TOK_DATA_NEWLINE \<equiv> 7"
abbreviation (input) XML_TOK_CDATA_SECT_OPEN :: int where "XML_TOK_CDATA_SECT_OPEN \<equiv> 8"
abbreviation (input) XML_TOK_ENTITY_REF :: int where "XML_TOK_ENTITY_REF \<equiv> 9"
abbreviation (input) XML_TOK_CHAR_REF :: int where "XML_TOK_CHAR_REF \<equiv> 10"
abbreviation (input) XML_TOK_PI :: int where "XML_TOK_PI \<equiv> 11"
abbreviation (input) XML_TOK_XML_DECL :: int where "XML_TOK_XML_DECL \<equiv> 12"
abbreviation (input) XML_TOK_COMMENT :: int where "XML_TOK_COMMENT \<equiv> 13"
abbreviation (input) XML_TOK_BOM :: int where "XML_TOK_BOM \<equiv> 14"
abbreviation (input) XML_TOK_PROLOG_S :: int where "XML_TOK_PROLOG_S \<equiv> 15"
abbreviation (input) XML_TOK_DECL_OPEN :: int where "XML_TOK_DECL_OPEN \<equiv> 16"
abbreviation (input) XML_TOK_DECL_CLOSE :: int where "XML_TOK_DECL_CLOSE \<equiv> 17"
abbreviation (input) XML_TOK_NAME :: int where "XML_TOK_NAME \<equiv> 18"
abbreviation (input) XML_TOK_NMTOKEN :: int where "XML_TOK_NMTOKEN \<equiv> 19"
abbreviation (input) XML_TOK_POUND_NAME :: int where "XML_TOK_POUND_NAME \<equiv> 20"
abbreviation (input) XML_TOK_OR :: int where "XML_TOK_OR \<equiv> 21"
abbreviation (input) XML_TOK_PERCENT :: int where "XML_TOK_PERCENT \<equiv> 22"
abbreviation (input) XML_TOK_OPEN_PAREN :: int where "XML_TOK_OPEN_PAREN \<equiv> 23"
abbreviation (input) XML_TOK_CLOSE_PAREN :: int where "XML_TOK_CLOSE_PAREN \<equiv> 24"
abbreviation (input) XML_TOK_OPEN_BRACKET :: int where "XML_TOK_OPEN_BRACKET \<equiv> 25"
abbreviation (input) XML_TOK_CLOSE_BRACKET :: int where "XML_TOK_CLOSE_BRACKET \<equiv> 26"
abbreviation (input) XML_TOK_LITERAL :: int where "XML_TOK_LITERAL \<equiv> 27"
abbreviation (input) XML_TOK_PARAM_ENTITY_REF :: int where "XML_TOK_PARAM_ENTITY_REF \<equiv> 28"
abbreviation (input) XML_TOK_INSTANCE_START :: int where "XML_TOK_INSTANCE_START \<equiv> 29"
abbreviation (input) XML_TOK_NAME_QUESTION :: int where "XML_TOK_NAME_QUESTION \<equiv> 30"
abbreviation (input) XML_TOK_NAME_ASTERISK :: int where "XML_TOK_NAME_ASTERISK \<equiv> 31"
abbreviation (input) XML_TOK_NAME_PLUS :: int where "XML_TOK_NAME_PLUS \<equiv> 32"
abbreviation (input) XML_TOK_COND_SECT_OPEN :: int where "XML_TOK_COND_SECT_OPEN \<equiv> 33"
abbreviation (input) XML_TOK_COND_SECT_CLOSE :: int where "XML_TOK_COND_SECT_CLOSE \<equiv> 34"
abbreviation (input) XML_TOK_CLOSE_PAREN_QUESTION :: int where "XML_TOK_CLOSE_PAREN_QUESTION \<equiv> 35"
abbreviation (input) XML_TOK_CLOSE_PAREN_ASTERISK :: int where "XML_TOK_CLOSE_PAREN_ASTERISK \<equiv> 36"
abbreviation (input) XML_TOK_CLOSE_PAREN_PLUS :: int where "XML_TOK_CLOSE_PAREN_PLUS \<equiv> 37"
abbreviation (input) XML_TOK_COMMA :: int where "XML_TOK_COMMA \<equiv> 38"
abbreviation (input) XML_TOK_ATTRIBUTE_VALUE_S :: int where "XML_TOK_ATTRIBUTE_VALUE_S \<equiv> 39"
abbreviation (input) XML_TOK_CDATA_SECT_CLOSE :: int where "XML_TOK_CDATA_SECT_CLOSE \<equiv> 40"
abbreviation (input) XML_TOK_PREFIXED_NAME :: int where "XML_TOK_PREFIXED_NAME \<equiv> 41"
abbreviation (input) XML_TOK_IGNORE_SECT :: int where "XML_TOK_IGNORE_SECT \<equiv> 42"

abbreviation (input) ASCII_EXCL :: byte where "ASCII_EXCL \<equiv> 0x21"
abbreviation (input) ASCII_MINUS :: byte where "ASCII_MINUS \<equiv> 0x2D"
abbreviation (input) ASCII_SEMI :: byte where "ASCII_SEMI \<equiv> 0x3B"
abbreviation (input) ASCII_GT :: byte where "ASCII_GT \<equiv> 0x3E"
abbreviation (input) ASCII_LSQB :: byte where "ASCII_LSQB \<equiv> 0x5B"
abbreviation (input) ASCII_RSQB :: byte where "ASCII_RSQB \<equiv> 0x5D"
abbreviation (input) ASCII_TAB :: byte where "ASCII_TAB \<equiv> 0x09"
abbreviation (input) ASCII_x :: byte where "ASCII_x \<equiv> 0x78"

section \<open>The switch macros\<close>

text \<open>
  What a group of \<open>case\<close> labels does with the byte type at \<open>ptr\<close>: \<open>Brk\<close> breaks out of the
  switch with a new pointer, \<open>Rtn\<close> returns from the scanner, \<open>NoCase\<close> is no label matching.
\<close>

type_synonym scan = "int \<times> nat option"

datatype 'a sw = Brk 'a | Rtn scan | NoCase

definition INVALID_LEAD_CASE :: "nat \<Rightarrow> encoding \<Rightarrow> byte list \<Rightarrow> nat \<Rightarrow> nat sw option" where
  "INVALID_LEAD_CASE n enc b ptr =
     (if length b - ptr < n then Some (Rtn (XML_TOK_PARTIAL_CHAR, None))
      else do {
        inv \<leftarrow> IS_INVALID_CHAR enc b ptr n;
        Some (if inv then Rtn (XML_TOK_INVALID, Some ptr) else Brk (ptr + n))
      })"

definition INVALID_CASES :: "encoding \<Rightarrow> byte list \<Rightarrow> nat \<Rightarrow> bt \<Rightarrow> nat sw option" where
  "INVALID_CASES enc b ptr t =
     (if t = BT_LEAD2 then INVALID_LEAD_CASE 2 enc b ptr
      else if t = BT_LEAD3 then INVALID_LEAD_CASE 3 enc b ptr
      else if t = BT_LEAD4 then INVALID_LEAD_CASE 4 enc b ptr
      else if t = BT_NONXML \<or> t = BT_MALFORM \<or> t = BT_TRAIL
      then Some (Rtn (XML_TOK_INVALID, Some ptr))
      else Some NoCase)"

definition CHECK_NAME_CASE :: "nat \<Rightarrow> encoding \<Rightarrow> byte list \<Rightarrow> nat \<Rightarrow> nat sw option" where
  "CHECK_NAME_CASE n enc b ptr =
     (if length b - ptr < n then Some (Rtn (XML_TOK_PARTIAL_CHAR, None))
      else do {
        ok \<leftarrow> IS_NAME_CHAR enc b ptr n;
        Some (if \<not> ok then Rtn (XML_TOK_INVALID, Some ptr) else Brk (ptr + n))
      })"

definition CHECK_NAME_CASES :: "encoding \<Rightarrow> byte list \<Rightarrow> nat \<Rightarrow> bt \<Rightarrow> nat sw option" where
  "CHECK_NAME_CASES enc b ptr t =
     (if t = BT_NONASCII then do {
        ok \<leftarrow> IS_NAME_CHAR_MINBPC enc b ptr;
        Some (if \<not> ok then Rtn (XML_TOK_INVALID, Some ptr) else Brk (ptr + MINBPC enc))
      }
      else if t = BT_NMSTRT \<or> t = BT_HEX \<or> t = BT_DIGIT \<or> t = BT_NAME \<or> t = BT_MINUS
      then Some (Brk (ptr + MINBPC enc))
      else if t = BT_LEAD2 then CHECK_NAME_CASE 2 enc b ptr
      else if t = BT_LEAD3 then CHECK_NAME_CASE 3 enc b ptr
      else if t = BT_LEAD4 then CHECK_NAME_CASE 4 enc b ptr
      else Some NoCase)"

definition CHECK_NMSTRT_CASE :: "nat \<Rightarrow> encoding \<Rightarrow> byte list \<Rightarrow> nat \<Rightarrow> nat sw option" where
  "CHECK_NMSTRT_CASE n enc b ptr =
     (if length b - ptr < n then Some (Rtn (XML_TOK_PARTIAL_CHAR, None))
      else do {
        ok \<leftarrow> IS_NMSTRT_CHAR enc b ptr n;
        Some (if \<not> ok then Rtn (XML_TOK_INVALID, Some ptr) else Brk (ptr + n))
      })"

definition CHECK_NMSTRT_CASES :: "encoding \<Rightarrow> byte list \<Rightarrow> nat \<Rightarrow> bt \<Rightarrow> nat sw option" where
  "CHECK_NMSTRT_CASES enc b ptr t =
     (if t = BT_NONASCII then do {
        ok \<leftarrow> IS_NMSTRT_CHAR_MINBPC enc b ptr;
        Some (if \<not> ok then Rtn (XML_TOK_INVALID, Some ptr) else Brk (ptr + MINBPC enc))
      }
      else if t = BT_NMSTRT \<or> t = BT_HEX then Some (Brk (ptr + MINBPC enc))
      else if t = BT_LEAD2 then CHECK_NMSTRT_CASE 2 enc b ptr
      else if t = BT_LEAD3 then CHECK_NMSTRT_CASE 3 enc b ptr
      else if t = BT_LEAD4 then CHECK_NMSTRT_CASE 4 enc b ptr
      else Some NoCase)"

lemmas switch_defs = INVALID_LEAD_CASE_def INVALID_CASES_def CHECK_NAME_CASE_def
  CHECK_NAME_CASES_def CHECK_NMSTRT_CASE_def CHECK_NMSTRT_CASES_def

lemma BYTE_TYPE_SomeD: "BYTE_TYPE enc b p = Some t \<Longrightarrow> p + MINBPC enc \<le> length b"
  by (simp add: BYTE_TYPE_def split: if_splits)

lemma BYTE_TYPE_Some_less: "BYTE_TYPE enc b p = Some t \<Longrightarrow> p < length b"
  using BYTE_TYPE_SomeD [of enc b p t] MINBPC_pos [of enc] by linarith

text \<open>A \<open>Brk\<close> always advances, and never past \<open>end\<close>.\<close>

lemma switch_Brk:
  "INVALID_CASES enc b ptr t = Some (Brk p) \<Longrightarrow> ptr < p"
  "CHECK_NAME_CASES enc b ptr t = Some (Brk p) \<Longrightarrow> ptr < p"
  "CHECK_NMSTRT_CASES enc b ptr t = Some (Brk p) \<Longrightarrow> ptr < p"
  by (auto simp: switch_defs split: if_splits)

lemma measure_left: "p < length b \<Longrightarrow> p < q \<Longrightarrow> length b - q < length b - (p::nat)"
  by simp

section \<open>Scanners\<close>

text \<open>\<open>ptr\<close> points to the character following \<open><!-\<close>.\<close>

function scanComment_loop :: "encoding \<Rightarrow> byte list \<Rightarrow> nat \<Rightarrow> scan option" where
  "scanComment_loop enc b ptr =
     (if ptr = length b then Some (XML_TOK_PARTIAL, None)
      else do {
        t \<leftarrow> BYTE_TYPE enc b ptr;
        s \<leftarrow> INVALID_CASES enc b ptr t;
        case s of
          Rtn r \<Rightarrow> Some r
        | Brk p \<Rightarrow> scanComment_loop enc b p
        | NoCase \<Rightarrow>
            if t = BT_MINUS then
              let ptr = ptr + MINBPC enc in
              if ptr = length b then Some (XML_TOK_PARTIAL, None)
              else do {
                m \<leftarrow> CHAR_MATCHES enc b ptr ASCII_MINUS;
                if m then
                  let ptr = ptr + MINBPC enc in
                  if ptr = length b then Some (XML_TOK_PARTIAL, None)
                  else do {
                    g \<leftarrow> CHAR_MATCHES enc b ptr ASCII_GT;
                    if \<not> g then Some (XML_TOK_INVALID, Some ptr)
                    else Some (XML_TOK_COMMENT, Some (ptr + MINBPC enc))
                  }
                else scanComment_loop enc b ptr
              }
            else scanComment_loop enc b (ptr + MINBPC enc)
      })"
  by pat_completeness auto
termination
  by (relation "measure (\<lambda>(enc, b, ptr). length b - ptr)")
    (auto dest: BYTE_TYPE_Some_less switch_Brk intro!: measure_left)

definition scanComment :: "encoding \<Rightarrow> byte list \<Rightarrow> nat \<Rightarrow> scan option" where
  "scanComment enc b ptr =
     (if ptr \<noteq> length b then do {
        m \<leftarrow> CHAR_MATCHES enc b ptr ASCII_MINUS;
        if \<not> m then Some (XML_TOK_INVALID, Some ptr)
        else scanComment_loop enc b (ptr + MINBPC enc)
      }
      else Some (XML_TOK_PARTIAL, None))"

declare scanComment_loop.simps [simp del]

text \<open>\<open>ptr\<close> points to the character following \<open><!\<close>.\<close>

function scanDecl_loop :: "encoding \<Rightarrow> byte list \<Rightarrow> nat \<Rightarrow> scan option" where
  "scanDecl_loop enc b ptr =
     (if ptr = length b then Some (XML_TOK_PARTIAL, None)
      else do {
        t \<leftarrow> BYTE_TYPE enc b ptr;
        if t = BT_PERCNT then
          if ptr + MINBPC enc = length b then Some (XML_TOK_PARTIAL, None)
          else do {
            u \<leftarrow> BYTE_TYPE enc b (ptr + MINBPC enc);
            if u = BT_S \<or> u = BT_CR \<or> u = BT_LF \<or> u = BT_PERCNT
            then Some (XML_TOK_INVALID, Some ptr)
            else Some (XML_TOK_DECL_OPEN, Some ptr)
          }
        else if t = BT_S \<or> t = BT_CR \<or> t = BT_LF then Some (XML_TOK_DECL_OPEN, Some ptr)
        else if t = BT_NMSTRT \<or> t = BT_HEX then scanDecl_loop enc b (ptr + MINBPC enc)
        else Some (XML_TOK_INVALID, Some ptr)
      })"
  by pat_completeness auto
termination
  by (relation "measure (\<lambda>(enc, b, ptr). length b - ptr)")
    (auto dest: BYTE_TYPE_Some_less intro!: measure_left)

declare scanDecl_loop.simps [simp del]

definition scanDecl :: "encoding \<Rightarrow> byte list \<Rightarrow> nat \<Rightarrow> scan option" where
  "scanDecl enc b ptr =
     (if ptr = length b then Some (XML_TOK_PARTIAL, None)
      else do {
        t \<leftarrow> BYTE_TYPE enc b ptr;
        if t = BT_MINUS then scanComment enc b (ptr + MINBPC enc)
        else if t = BT_LSQB then Some (XML_TOK_COND_SECT_OPEN, Some (ptr + MINBPC enc))
        else if t = BT_NMSTRT \<or> t = BT_HEX then scanDecl_loop enc b (ptr + MINBPC enc)
        else Some (XML_TOK_INVALID, Some ptr)
      })"

text \<open>
  \<open>checkPiTarget\<close> on the target in \<open>[ptr, e)\<close>: the result and the token stored through
  \<open>tokPtr\<close>. The letters compared are \<open>x\<close>/\<open>X\<close>, \<open>m\<close>/\<open>M\<close>, \<open>l\<close>/\<open>L\<close>.
\<close>

definition checkPiTarget :: "encoding \<Rightarrow> byte list \<Rightarrow> nat \<Rightarrow> nat \<Rightarrow> (bool \<times> int) option" where
  "checkPiTarget enc b ptr e =
     (if e - ptr \<noteq> MINBPC enc * 3 then Some (True, XML_TOK_PI)
      else do {
        c1 \<leftarrow> BYTE_TO_ASCII enc b ptr;
        if c1 \<noteq> 0x78 \<and> c1 \<noteq> 0x58 then Some (True, XML_TOK_PI)
        else do {
          c2 \<leftarrow> BYTE_TO_ASCII enc b (ptr + MINBPC enc);
          if c2 \<noteq> 0x6D \<and> c2 \<noteq> 0x4D then Some (True, XML_TOK_PI)
          else do {
            c3 \<leftarrow> BYTE_TO_ASCII enc b (ptr + 2 * MINBPC enc);
            if c3 \<noteq> 0x6C \<and> c3 \<noteq> 0x4C then Some (True, XML_TOK_PI)
            else if c1 = 0x58 \<or> c2 = 0x4D \<or> c3 = 0x4C then Some (False, XML_TOK_PI)
            else Some (True, XML_TOK_XML_DECL)
          }
        }
      })"

text \<open>\<open>ptr\<close> points to the character following \<open><?\<close>; \<open>scanPi_data\<close> is the inner loop after the
  white space that ends the target.\<close>

function scanPi_data :: "encoding \<Rightarrow> byte list \<Rightarrow> int \<Rightarrow> nat \<Rightarrow> scan option" where
  "scanPi_data enc b tok ptr =
     (if ptr = length b then Some (XML_TOK_PARTIAL, None)
      else do {
        t \<leftarrow> BYTE_TYPE enc b ptr;
        s \<leftarrow> INVALID_CASES enc b ptr t;
        case s of
          Rtn r \<Rightarrow> Some r
        | Brk p \<Rightarrow> scanPi_data enc b tok p
        | NoCase \<Rightarrow>
            if t = BT_QUEST then
              let ptr = ptr + MINBPC enc in
              if ptr = length b then Some (XML_TOK_PARTIAL, None)
              else do {
                g \<leftarrow> CHAR_MATCHES enc b ptr ASCII_GT;
                if g then Some (tok, Some (ptr + MINBPC enc))
                else scanPi_data enc b tok ptr
              }
            else scanPi_data enc b tok (ptr + MINBPC enc)
      })"
  by pat_completeness auto
termination
  by (relation "measure (\<lambda>(enc, b, tok, ptr). length b - ptr)")
    (auto dest: BYTE_TYPE_Some_less switch_Brk intro!: measure_left)

declare scanPi_data.simps [simp del]

function scanPi_loop :: "encoding \<Rightarrow> byte list \<Rightarrow> nat \<Rightarrow> nat \<Rightarrow> scan option" where
  "scanPi_loop enc b target ptr =
     (if ptr = length b then Some (XML_TOK_PARTIAL, None)
      else do {
        t \<leftarrow> BYTE_TYPE enc b ptr;
        s \<leftarrow> CHECK_NAME_CASES enc b ptr t;
        case s of
          Rtn r \<Rightarrow> Some r
        | Brk p \<Rightarrow> scanPi_loop enc b target p
        | NoCase \<Rightarrow>
            if t = BT_S \<or> t = BT_CR \<or> t = BT_LF then do {
              (ok, tok) \<leftarrow> checkPiTarget enc b target ptr;
              if \<not> ok then Some (XML_TOK_INVALID, Some ptr)
              else scanPi_data enc b tok (ptr + MINBPC enc)
            }
            else if t = BT_QUEST then do {
              (ok, tok) \<leftarrow> checkPiTarget enc b target ptr;
              if \<not> ok then Some (XML_TOK_INVALID, Some ptr)
              else
                let ptr = ptr + MINBPC enc in
                if ptr = length b then Some (XML_TOK_PARTIAL, None)
                else do {
                  g \<leftarrow> CHAR_MATCHES enc b ptr ASCII_GT;
                  if g then Some (tok, Some (ptr + MINBPC enc))
                  else Some (XML_TOK_INVALID, Some ptr)
                }
            }
            else Some (XML_TOK_INVALID, Some ptr)
      })"
  by pat_completeness auto
termination
  by (relation "measure (\<lambda>(enc, b, target, ptr). length b - ptr)")
    (auto dest: BYTE_TYPE_Some_less switch_Brk intro!: measure_left)

declare scanPi_loop.simps [simp del]

definition scanPi :: "encoding \<Rightarrow> byte list \<Rightarrow> nat \<Rightarrow> scan option" where
  "scanPi enc b ptr =
     (if ptr = length b then Some (XML_TOK_PARTIAL, None)
      else do {
        t \<leftarrow> BYTE_TYPE enc b ptr;
        s \<leftarrow> CHECK_NMSTRT_CASES enc b ptr t;
        case s of
          Rtn r \<Rightarrow> Some r
        | Brk p \<Rightarrow> scanPi_loop enc b ptr p
        | NoCase \<Rightarrow> Some (XML_TOK_INVALID, Some ptr)
      })"

definition CDATA_LSQB :: "byte list" where
  "CDATA_LSQB = ascii ''CDATA[''"

fun scanCdataSection_loop :: "encoding \<Rightarrow> byte list \<Rightarrow> byte list \<Rightarrow> nat \<Rightarrow> scan option" where
  "scanCdataSection_loop enc b [] ptr = Some (XML_TOK_CDATA_SECT_OPEN, Some ptr)"
| "scanCdataSection_loop enc b (c # cs) ptr = do {
     m \<leftarrow> CHAR_MATCHES enc b ptr c;
     if \<not> m then Some (XML_TOK_INVALID, Some ptr)
     else scanCdataSection_loop enc b cs (ptr + MINBPC enc)
   }"

definition scanCdataSection :: "encoding \<Rightarrow> byte list \<Rightarrow> nat \<Rightarrow> scan option" where
  "scanCdataSection enc b ptr =
     (if length b - ptr < 6 * MINBPC enc then Some (XML_TOK_PARTIAL, None)
      else scanCdataSection_loop enc b CDATA_LSQB ptr)"

text \<open>The data-character loop shared in shape by \<open>cdataSectionTok\<close> and \<open>contentTok\<close>: its
  \<open>LEAD_CASE(n)\<close> stops before an incomplete or invalid character.\<close>

definition LEAD_CASE_data :: "nat \<Rightarrow> encoding \<Rightarrow> byte list \<Rightarrow> nat \<Rightarrow> nat sw option" where
  "LEAD_CASE_data n enc b ptr =
     (if length b - ptr < n then Some (Rtn (XML_TOK_DATA_CHARS, Some ptr))
      else do {
        inv \<leftarrow> IS_INVALID_CHAR enc b ptr n;
        Some (if inv then Rtn (XML_TOK_DATA_CHARS, Some ptr) else Brk (ptr + n))
      })"

definition LEAD_CASES_data :: "encoding \<Rightarrow> byte list \<Rightarrow> nat \<Rightarrow> bt \<Rightarrow> nat sw option" where
  "LEAD_CASES_data enc b ptr t =
     (if t = BT_LEAD2 then LEAD_CASE_data 2 enc b ptr
      else if t = BT_LEAD3 then LEAD_CASE_data 3 enc b ptr
      else if t = BT_LEAD4 then LEAD_CASE_data 4 enc b ptr
      else Some NoCase)"

lemma LEAD_CASES_data_Brk: "LEAD_CASES_data enc b ptr t = Some (Brk p) \<Longrightarrow> ptr < p"
  by (auto simp: LEAD_CASES_data_def LEAD_CASE_data_def split: if_splits)

function cdataSectionTok_loop :: "encoding \<Rightarrow> byte list \<Rightarrow> nat \<Rightarrow> scan option" where
  "cdataSectionTok_loop enc b ptr =
     (if ptr = length b then Some (XML_TOK_DATA_CHARS, Some ptr)
      else do {
        t \<leftarrow> BYTE_TYPE enc b ptr;
        s \<leftarrow> LEAD_CASES_data enc b ptr t;
        case s of
          Rtn r \<Rightarrow> Some r
        | Brk p \<Rightarrow> cdataSectionTok_loop enc b p
        | NoCase \<Rightarrow>
            if t = BT_NONXML \<or> t = BT_MALFORM \<or> t = BT_TRAIL \<or> t = BT_CR \<or> t = BT_LF \<or> t = BT_RSQB
            then Some (XML_TOK_DATA_CHARS, Some ptr)
            else cdataSectionTok_loop enc b (ptr + MINBPC enc)
      })"
  by pat_completeness auto
termination
  by (relation "measure (\<lambda>(enc, b, ptr). length b - ptr)")
    (auto dest: BYTE_TYPE_Some_less LEAD_CASES_data_Brk intro!: measure_left)

declare cdataSectionTok_loop.simps [simp del]

text \<open>
  The prologue of the top-level scanners: for a two-byte encoding \<open>end\<close> is moved back to a
  character boundary; \<open>None\<close> is the early return when nothing is left.
\<close>

definition trim_end :: "encoding \<Rightarrow> byte list \<Rightarrow> nat \<Rightarrow> byte list" where
  "trim_end enc b ptr =
     (if MINBPC enc > 1 then
        let n = length b - ptr in
        if n mod MINBPC enc \<noteq> 0 then take (ptr + (n - n mod MINBPC enc)) b else b
      else b)"

text \<open>The switch on the first character, whose result is the return from the scanner (\<open>Inl\<close>) or
  the pointer with which the data loop starts (\<open>Inr\<close>).\<close>

definition cdataSectionTok_switch :: "encoding \<Rightarrow> byte list \<Rightarrow> nat \<Rightarrow> (scan + nat) option" where
  "cdataSectionTok_switch enc b ptr = do {
     t \<leftarrow> BYTE_TYPE enc b ptr;
     if t = BT_RSQB then
       let p = ptr + MINBPC enc in
       if p = length b then Some (Inl (XML_TOK_PARTIAL, None))
       else do {
         m \<leftarrow> CHAR_MATCHES enc b p ASCII_RSQB;
         if \<not> m then Some (Inr p)
         else
           let q = p + MINBPC enc in
           if q = length b then Some (Inl (XML_TOK_PARTIAL, None))
           else do {
             g \<leftarrow> CHAR_MATCHES enc b q ASCII_GT;
             if \<not> g then Some (Inr (q - MINBPC enc))
             else Some (Inl (XML_TOK_CDATA_SECT_CLOSE, Some (q + MINBPC enc)))
           }
       }
     else if t = BT_CR then
       let p = ptr + MINBPC enc in
       if p = length b then Some (Inl (XML_TOK_PARTIAL, None))
       else do {
         u \<leftarrow> BYTE_TYPE enc b p;
         Some (Inl (XML_TOK_DATA_NEWLINE, Some (if u = BT_LF then p + MINBPC enc else p)))
       }
     else if t = BT_LF then Some (Inl (XML_TOK_DATA_NEWLINE, Some (ptr + MINBPC enc)))
     else do {
       s \<leftarrow> INVALID_CASES enc b ptr t;
       case s of
         Rtn r \<Rightarrow> Some (Inl r)
       | Brk p \<Rightarrow> Some (Inr p)
       | NoCase \<Rightarrow> Some (Inr (ptr + MINBPC enc))
     }
   }"

definition cdataSectionTok :: "encoding \<Rightarrow> byte list \<Rightarrow> nat \<Rightarrow> scan option" where
  "cdataSectionTok enc b ptr =
     (if ptr = length b then Some (XML_TOK_NONE, None)
      else
        let b = trim_end enc b ptr in
        if ptr = length b then Some (XML_TOK_PARTIAL, None)
        else do {
          s \<leftarrow> cdataSectionTok_switch enc b ptr;
          case s of
            Inl r \<Rightarrow> Some r
          | Inr p \<Rightarrow> cdataSectionTok_loop enc b p
        })"

text \<open>\<open>ptr\<close> points to the character following \<open></\<close>.\<close>

function scanEndTag_space :: "encoding \<Rightarrow> byte list \<Rightarrow> nat \<Rightarrow> scan option" where
  "scanEndTag_space enc b ptr =
     (if ptr = length b then Some (XML_TOK_PARTIAL, None)
      else do {
        t \<leftarrow> BYTE_TYPE enc b ptr;
        if t = BT_S \<or> t = BT_CR \<or> t = BT_LF then scanEndTag_space enc b (ptr + MINBPC enc)
        else if t = BT_GT then Some (XML_TOK_END_TAG, Some (ptr + MINBPC enc))
        else Some (XML_TOK_INVALID, Some ptr)
      })"
  by pat_completeness auto
termination
  by (relation "measure (\<lambda>(enc, b, ptr). length b - ptr)")
    (auto dest: BYTE_TYPE_Some_less intro!: measure_left)

declare scanEndTag_space.simps [simp del]

function scanEndTag_loop :: "encoding \<Rightarrow> byte list \<Rightarrow> nat \<Rightarrow> scan option" where
  "scanEndTag_loop enc b ptr =
     (if ptr = length b then Some (XML_TOK_PARTIAL, None)
      else do {
        t \<leftarrow> BYTE_TYPE enc b ptr;
        s \<leftarrow> CHECK_NAME_CASES enc b ptr t;
        case s of
          Rtn r \<Rightarrow> Some r
        | Brk p \<Rightarrow> scanEndTag_loop enc b p
        | NoCase \<Rightarrow>
            if t = BT_S \<or> t = BT_CR \<or> t = BT_LF then scanEndTag_space enc b (ptr + MINBPC enc)
            else if t = BT_COLON then scanEndTag_loop enc b (ptr + MINBPC enc)
            else if t = BT_GT then Some (XML_TOK_END_TAG, Some (ptr + MINBPC enc))
            else Some (XML_TOK_INVALID, Some ptr)
      })"
  by pat_completeness auto
termination
  by (relation "measure (\<lambda>(enc, b, ptr). length b - ptr)")
    (auto dest: BYTE_TYPE_Some_less switch_Brk intro!: measure_left)

declare scanEndTag_loop.simps [simp del]

definition scanEndTag :: "encoding \<Rightarrow> byte list \<Rightarrow> nat \<Rightarrow> scan option" where
  "scanEndTag enc b ptr =
     (if ptr = length b then Some (XML_TOK_PARTIAL, None)
      else do {
        t \<leftarrow> BYTE_TYPE enc b ptr;
        s \<leftarrow> CHECK_NMSTRT_CASES enc b ptr t;
        case s of
          Rtn r \<Rightarrow> Some r
        | Brk p \<Rightarrow> scanEndTag_loop enc b p
        | NoCase \<Rightarrow> Some (XML_TOK_INVALID, Some ptr)
      })"

text \<open>\<open>ptr\<close> points to the character following \<open>&#X\<close>.\<close>

function scanHexCharRef_loop :: "encoding \<Rightarrow> byte list \<Rightarrow> nat \<Rightarrow> scan option" where
  "scanHexCharRef_loop enc b ptr =
     (if ptr = length b then Some (XML_TOK_PARTIAL, None)
      else do {
        t \<leftarrow> BYTE_TYPE enc b ptr;
        if t = BT_DIGIT \<or> t = BT_HEX then scanHexCharRef_loop enc b (ptr + MINBPC enc)
        else if t = BT_SEMI then Some (XML_TOK_CHAR_REF, Some (ptr + MINBPC enc))
        else Some (XML_TOK_INVALID, Some ptr)
      })"
  by pat_completeness auto
termination
  by (relation "measure (\<lambda>(enc, b, ptr). length b - ptr)")
    (auto dest: BYTE_TYPE_Some_less intro!: measure_left)

declare scanHexCharRef_loop.simps [simp del]

definition scanHexCharRef :: "encoding \<Rightarrow> byte list \<Rightarrow> nat \<Rightarrow> scan option" where
  "scanHexCharRef enc b ptr =
     (if ptr \<noteq> length b then do {
        t \<leftarrow> BYTE_TYPE enc b ptr;
        if t = BT_DIGIT \<or> t = BT_HEX then scanHexCharRef_loop enc b (ptr + MINBPC enc)
        else Some (XML_TOK_INVALID, Some ptr)
      }
      else Some (XML_TOK_PARTIAL, None))"

text \<open>\<open>ptr\<close> points to the character following \<open>&#\<close>.\<close>

function scanCharRef_loop :: "encoding \<Rightarrow> byte list \<Rightarrow> nat \<Rightarrow> scan option" where
  "scanCharRef_loop enc b ptr =
     (if ptr = length b then Some (XML_TOK_PARTIAL, None)
      else do {
        t \<leftarrow> BYTE_TYPE enc b ptr;
        if t = BT_DIGIT then scanCharRef_loop enc b (ptr + MINBPC enc)
        else if t = BT_SEMI then Some (XML_TOK_CHAR_REF, Some (ptr + MINBPC enc))
        else Some (XML_TOK_INVALID, Some ptr)
      })"
  by pat_completeness auto
termination
  by (relation "measure (\<lambda>(enc, b, ptr). length b - ptr)")
    (auto dest: BYTE_TYPE_Some_less intro!: measure_left)

declare scanCharRef_loop.simps [simp del]

definition scanCharRef :: "encoding \<Rightarrow> byte list \<Rightarrow> nat \<Rightarrow> scan option" where
  "scanCharRef enc b ptr =
     (if ptr \<noteq> length b then do {
        x \<leftarrow> CHAR_MATCHES enc b ptr ASCII_x;
        if x then scanHexCharRef enc b (ptr + MINBPC enc)
        else do {
          t \<leftarrow> BYTE_TYPE enc b ptr;
          if t = BT_DIGIT then scanCharRef_loop enc b (ptr + MINBPC enc)
          else Some (XML_TOK_INVALID, Some ptr)
        }
      }
      else Some (XML_TOK_PARTIAL, None))"

text \<open>\<open>ptr\<close> points to the character following \<open>&\<close>.\<close>

function scanRef_loop :: "encoding \<Rightarrow> byte list \<Rightarrow> nat \<Rightarrow> scan option" where
  "scanRef_loop enc b ptr =
     (if ptr = length b then Some (XML_TOK_PARTIAL, None)
      else do {
        t \<leftarrow> BYTE_TYPE enc b ptr;
        s \<leftarrow> CHECK_NAME_CASES enc b ptr t;
        case s of
          Rtn r \<Rightarrow> Some r
        | Brk p \<Rightarrow> scanRef_loop enc b p
        | NoCase \<Rightarrow>
            if t = BT_SEMI then Some (XML_TOK_ENTITY_REF, Some (ptr + MINBPC enc))
            else Some (XML_TOK_INVALID, Some ptr)
      })"
  by pat_completeness auto
termination
  by (relation "measure (\<lambda>(enc, b, ptr). length b - ptr)")
    (auto dest: BYTE_TYPE_Some_less switch_Brk intro!: measure_left)

declare scanRef_loop.simps [simp del]

definition scanRef :: "encoding \<Rightarrow> byte list \<Rightarrow> nat \<Rightarrow> scan option" where
  "scanRef enc b ptr =
     (if ptr = length b then Some (XML_TOK_PARTIAL, None)
      else do {
        t \<leftarrow> BYTE_TYPE enc b ptr;
        s \<leftarrow> CHECK_NMSTRT_CASES enc b ptr t;
        case s of
          Rtn r \<Rightarrow> Some r
        | Brk p \<Rightarrow> scanRef_loop enc b p
        | NoCase \<Rightarrow>
            if t = BT_NUM then scanCharRef enc b (ptr + MINBPC enc)
            else Some (XML_TOK_INVALID, Some ptr)
      })"

text \<open>A positive token of a reference scanner always comes with an advanced pointer, which is
  what makes the attribute-value loop below end.\<close>

lemma switch_Rtn_tok:
  "INVALID_CASES enc b ptr t = Some (Rtn (tok, nx)) \<Longrightarrow> tok \<le> 0"
  "CHECK_NAME_CASES enc b ptr t = Some (Rtn (tok, nx)) \<Longrightarrow> tok \<le> 0"
  "CHECK_NMSTRT_CASES enc b ptr t = Some (Rtn (tok, nx)) \<Longrightarrow> tok \<le> 0"
  by (auto simp: switch_defs split: if_splits)

definition pos_advances :: "nat \<Rightarrow> scan \<Rightarrow> bool" where
  "pos_advances ptr = (\<lambda>(tok, nx). 0 < tok \<longrightarrow> (\<exists>p. nx = Some p \<and> ptr < p))"

lemma pos_advances_simps [simp]:
  "pos_advances ptr (tok, Some p) \<longleftrightarrow> (0 < tok \<longrightarrow> ptr < p)"
  "pos_advances ptr (tok, None) \<longleftrightarrow> tok \<le> 0"
  by (auto simp: pos_advances_def)

lemma pos_advances_less: "pos_advances p r \<Longrightarrow> ptr \<le> p \<Longrightarrow> pos_advances ptr r"
  by (fastforce simp: pos_advances_def)

lemma switch_Rtn_pos:
  "INVALID_CASES enc b ptr t = Some (Rtn r) \<Longrightarrow> pos_advances q r"
  "CHECK_NAME_CASES enc b ptr t = Some (Rtn r) \<Longrightarrow> pos_advances q r"
  "CHECK_NMSTRT_CASES enc b ptr t = Some (Rtn r) \<Longrightarrow> pos_advances q r"
  by (auto simp: switch_defs split: if_splits)

lemmas reads_only =
  returns_only_def [where m = "BYTE_TYPE enc b p" for enc b p]
  returns_only_def [where m = "CHAR_MATCHES enc b p c" for enc b p c]
  returns_only_def [where m = "INVALID_CASES enc b p t" for enc b p t]
  returns_only_def [where m = "CHECK_NAME_CASES enc b p t" for enc b p t]
  returns_only_def [where m = "CHECK_NMSTRT_CASES enc b p t" for enc b p t]

lemma pos_advances_call:
  "returns_only (pos_advances p) m \<Longrightarrow> ptr \<le> p \<Longrightarrow> returns_only (pos_advances ptr) m"
  by (erule returns_only_mono) (erule pos_advances_less)

lemma scanHexCharRef_loop_pos: "returns_only (pos_advances ptr) (scanHexCharRef_loop enc b ptr)"
proof (induction enc b ptr rule: scanHexCharRef_loop.induct)
  case (1 enc b ptr)
  then show ?case
    by (auto simp: scanHexCharRef_loop.simps [of enc b ptr] reads_only elim!: pos_advances_call)
qed

lemma scanCharRef_loop_pos: "returns_only (pos_advances ptr) (scanCharRef_loop enc b ptr)"
proof (induction enc b ptr rule: scanCharRef_loop.induct)
  case (1 enc b ptr)
  then show ?case
    by (auto simp: scanCharRef_loop.simps [of enc b ptr] reads_only elim!: pos_advances_call)
qed

lemma scanRef_loop_pos: "returns_only (pos_advances ptr) (scanRef_loop enc b ptr)"
proof (induction enc b ptr rule: scanRef_loop.induct)
  case (1 enc b ptr)
  show ?case
    by (auto simp: scanRef_loop.simps [of enc b ptr] reads_only split: sw.split
        intro: pos_advances_call [OF "1.IH"] switch_Rtn_pos switch_Brk(2) [THEN less_imp_le])
qed

lemma scanHexCharRef_pos: "returns_only (pos_advances ptr) (scanHexCharRef enc b ptr)"
  by (auto simp: scanHexCharRef_def reads_only intro: pos_advances_call [OF scanHexCharRef_loop_pos])

lemma scanCharRef_pos: "returns_only (pos_advances ptr) (scanCharRef enc b ptr)"
  by (auto simp: scanCharRef_def reads_only intro: pos_advances_call [OF scanHexCharRef_pos]
      pos_advances_call [OF scanCharRef_loop_pos])

lemma scanRef_pos: "returns_only (pos_advances ptr) (scanRef enc b ptr)"
  by (auto simp: scanRef_def reads_only split: sw.split
      intro: pos_advances_call [OF scanRef_loop_pos] pos_advances_call [OF scanCharRef_pos]
      dest: switch_Rtn_pos switch_Brk(3) [THEN less_imp_le])

lemma scanRef_Some_pos:
  "scanRef enc b (ptr + k) = Some (tok, Some p) \<Longrightarrow> \<not> tok \<le> 0 \<Longrightarrow> ptr < p"
  using scanRef_pos [of "ptr + k" enc b, THEN returns_onlyD, of "(tok, Some p)"] by simp

text \<open>\<open>scanAtts\<close>: \<open>ptr\<close> points to the character following the first character of an attribute name.
  Its inner \<open>for (;;)\<close> loops yield the return from the scanner (\<open>Inl\<close>) or the state in which
  the loop is left (\<open>Inr\<close>): up to \<open>=\<close>, up to the opening quote, up to the closing quote, and
  up to the next attribute name.\<close>

function scanAtts_eq :: "encoding \<Rightarrow> byte list \<Rightarrow> nat \<Rightarrow> (scan + nat) option" where
  "scanAtts_eq enc b ptr =
     (if ptr + MINBPC enc = length b then Some (Inl (XML_TOK_PARTIAL, None))
      else do {
        t \<leftarrow> BYTE_TYPE enc b (ptr + MINBPC enc);
        if t = BT_EQUALS then Some (Inr (ptr + MINBPC enc))
        else if t = BT_S \<or> t = BT_LF \<or> t = BT_CR then scanAtts_eq enc b (ptr + MINBPC enc)
        else Some (Inl (XML_TOK_INVALID, Some (ptr + MINBPC enc)))
      })"
  by pat_completeness auto
termination
  by (relation "measure (\<lambda>(enc, b, ptr). length b - ptr)")
    (auto dest!: BYTE_TYPE_Some_less intro!: measure_left)

declare scanAtts_eq.simps [simp del]

function scanAtts_open :: "encoding \<Rightarrow> byte list \<Rightarrow> nat \<Rightarrow> (scan + bt \<times> nat) option" where
  "scanAtts_open enc b ptr =
     (if ptr + MINBPC enc = length b then Some (Inl (XML_TOK_PARTIAL, None))
      else do {
        t \<leftarrow> BYTE_TYPE enc b (ptr + MINBPC enc);
        if t = BT_QUOT \<or> t = BT_APOS then Some (Inr (t, ptr + MINBPC enc))
        else if t = BT_S \<or> t = BT_LF \<or> t = BT_CR then scanAtts_open enc b (ptr + MINBPC enc)
        else Some (Inl (XML_TOK_INVALID, Some (ptr + MINBPC enc)))
      })"
  by pat_completeness auto
termination
  by (relation "measure (\<lambda>(enc, b, ptr). length b - ptr)")
    (auto dest!: BYTE_TYPE_Some_less intro!: measure_left)

declare scanAtts_open.simps [simp del]

text \<open>The reference scanner is called with \<open>&ptr\<close> as its \<open>nextTokPtr\<close>; a positive token always
  stores the pointer (\<open>scanRef_pos\<close>), so the arm for nothing stored is never taken.\<close>

function scanAtts_value :: "encoding \<Rightarrow> byte list \<Rightarrow> bt \<Rightarrow> nat \<Rightarrow> (scan + nat) option" where
  "scanAtts_value enc b open ptr =
     (if ptr = length b then Some (Inl (XML_TOK_PARTIAL, None))
      else do {
        t \<leftarrow> BYTE_TYPE enc b ptr;
        if t = open then Some (Inr ptr)
        else do {
          s \<leftarrow> INVALID_CASES enc b ptr t;
          case s of
            Rtn r \<Rightarrow> Some (Inl r)
          | Brk p \<Rightarrow> scanAtts_value enc b open p
          | NoCase \<Rightarrow>
              if t = BT_AMP then do {
                (tok, nx) \<leftarrow> scanRef enc b (ptr + MINBPC enc);
                if tok \<le> 0 then Some (Inl (tok, if tok = XML_TOK_INVALID then nx else None))
                else (case nx of None \<Rightarrow> None | Some p \<Rightarrow> scanAtts_value enc b open p)
              }
              else if t = BT_LT then Some (Inl (XML_TOK_INVALID, Some ptr))
              else scanAtts_value enc b open (ptr + MINBPC enc)
        }
      })"
  by pat_completeness auto
termination
  by (relation "measure (\<lambda>(enc, b, open, ptr). length b - ptr)")
    (auto dest: BYTE_TYPE_Some_less switch_Brk scanRef_Some_pos intro!: measure_left)

declare scanAtts_value.simps [simp del]

definition scanAtts_sol :: "encoding \<Rightarrow> byte list \<Rightarrow> nat \<Rightarrow> scan option" where
  "scanAtts_sol enc b ptr =
     (let ptr = ptr + MINBPC enc in
      if ptr = length b then Some (XML_TOK_PARTIAL, None)
      else do {
        g \<leftarrow> CHAR_MATCHES enc b ptr ASCII_GT;
        if \<not> g then Some (XML_TOK_INVALID, Some ptr)
        else Some (XML_TOK_EMPTY_ELEMENT_WITH_ATTS, Some (ptr + MINBPC enc))
      })"

function scanAtts_next :: "encoding \<Rightarrow> byte list \<Rightarrow> nat \<Rightarrow> (scan + nat) option" where
  "scanAtts_next enc b ptr =
     (if ptr + MINBPC enc = length b then Some (Inl (XML_TOK_PARTIAL, None))
      else do {
        t \<leftarrow> BYTE_TYPE enc b (ptr + MINBPC enc);
        s \<leftarrow> CHECK_NMSTRT_CASES enc b (ptr + MINBPC enc) t;
        case s of
          Rtn r \<Rightarrow> Some (Inl r)
        | Brk p \<Rightarrow> Some (Inr p)
        | NoCase \<Rightarrow>
            if t = BT_S \<or> t = BT_CR \<or> t = BT_LF then scanAtts_next enc b (ptr + MINBPC enc)
            else if t = BT_GT
            then Some (Inl (XML_TOK_START_TAG_WITH_ATTS, Some (ptr + MINBPC enc + MINBPC enc)))
            else if t = BT_SOL then map_option Inl (scanAtts_sol enc b (ptr + MINBPC enc))
            else Some (Inl (XML_TOK_INVALID, Some (ptr + MINBPC enc)))
      })"
  by pat_completeness auto
termination
  by (relation "measure (\<lambda>(enc, b, ptr). length b - ptr)")
    (auto dest!: BYTE_TYPE_Some_less intro!: measure_left)

declare scanAtts_next.simps [simp del]

text \<open>The switch after the closing quote, with \<open>ptr\<close> at the quote, and the body of
  \<open>case BT_EQUALS\<close>, with \<open>ptr\<close> at the equals sign.\<close>

definition scanAtts_close :: "encoding \<Rightarrow> byte list \<Rightarrow> nat \<Rightarrow> (scan + nat) option" where
  "scanAtts_close enc b ptr =
     (let ptr = ptr + MINBPC enc in
      if ptr = length b then Some (Inl (XML_TOK_PARTIAL, None))
      else do {
        t \<leftarrow> BYTE_TYPE enc b ptr;
        if t = BT_S \<or> t = BT_CR \<or> t = BT_LF then scanAtts_next enc b ptr
        else if t = BT_SOL then map_option Inl (scanAtts_sol enc b ptr)
        else if t = BT_GT
        then Some (Inl (XML_TOK_START_TAG_WITH_ATTS, Some (ptr + MINBPC enc)))
        else Some (Inl (XML_TOK_INVALID, Some ptr))
      })"

definition scanAtts_attr :: "encoding \<Rightarrow> byte list \<Rightarrow> nat \<Rightarrow> (scan + nat) option" where
  "scanAtts_attr enc b ptr = do {
     o' \<leftarrow> scanAtts_open enc b ptr;
     case o' of
       Inl r \<Rightarrow> Some (Inl r)
     | Inr (open, ptr) \<Rightarrow> do {
         v \<leftarrow> scanAtts_value enc b open (ptr + MINBPC enc);
         case v of
           Inl r \<Rightarrow> Some (Inl r)
         | Inr ptr \<Rightarrow> scanAtts_close enc b ptr
       }
   }"

text \<open>The inner loops only move forward.\<close>

definition moves :: "nat \<Rightarrow> 'a + nat \<Rightarrow> bool" where
  "moves ptr s = (case s of Inl _ \<Rightarrow> True | Inr p \<Rightarrow> ptr < p)"

lemma moves_simps [simp]: "moves ptr (Inl r)" "moves ptr (Inr p) \<longleftrightarrow> ptr < p"
  by (simp_all add: moves_def)

lemma moves_call: "returns_only (moves p) m \<Longrightarrow> ptr \<le> p \<Longrightarrow> returns_only (moves ptr) m"
  by (erule returns_only_mono) (auto simp: moves_def split: sum.splits)

lemma returns_only_map [simp]: "returns_only Q (map_option f m) = returns_only (\<lambda>w. Q (f w)) m"
  by (auto simp: returns_only_def)

lemma returns_only_True [simp]: "returns_only (\<lambda>_. True) m"
  by (simp add: returns_only_def)

lemma scanAtts_eq_moves: "returns_only (moves ptr) (scanAtts_eq enc b ptr)"
proof (induction enc b ptr rule: scanAtts_eq.induct)
  case (1 enc b ptr)
  show ?case
    by (auto simp: scanAtts_eq.simps [of enc b ptr] reads_only intro: moves_call [OF "1.IH"])
qed

lemma scanAtts_open_moves:
  "returns_only (\<lambda>s. \<forall>t p. s = Inr (t, p) \<longrightarrow> ptr < p) (scanAtts_open enc b ptr)"
proof (induction enc b ptr rule: scanAtts_open.induct)
  case (1 enc b ptr)
  show ?case
    by (auto simp: scanAtts_open.simps [of enc b ptr] reads_only
        intro: returns_only_mono [OF "1.IH"])
qed

lemma scanRef_call: "returns_only Q (scanRef enc b (ptr + k)) \<longleftrightarrow>
    (\<forall>tok nx. scanRef enc b (ptr + k) = Some (tok, nx) \<longrightarrow> Q (tok, nx))"
  by (simp add: returns_only_def)

lemma scanAtts_value_moves:
  "returns_only (\<lambda>s. \<forall>p. s = Inr p \<longrightarrow> ptr \<le> p) (scanAtts_value enc b q ptr)"
proof (induction enc b q ptr rule: scanAtts_value.induct)
  case (1 enc b q ptr)
  have le: "ptr \<le> p \<Longrightarrow> returns_only (\<lambda>s. \<forall>p'. s = Inr p' \<longrightarrow> p \<le> p') m \<Longrightarrow>
      returns_only (\<lambda>s. \<forall>p'. s = Inr p' \<longrightarrow> ptr \<le> p') m" for p and m :: "(scan + nat) option"
    by (auto simp: returns_only_def)
  show ?case
    by (auto simp: scanAtts_value.simps [of enc b q ptr] reads_only scanRef_call
        split: sw.split option.split
        intro: le [OF _ "1.IH"(1)] le [OF _ "1.IH"(2)] le [OF _ "1.IH"(3)]
          switch_Brk(1) [THEN less_imp_le] scanRef_Some_pos [THEN less_imp_le])
qed

lemma scanAtts_next_moves: "returns_only (moves ptr) (scanAtts_next enc b ptr)"
proof (induction enc b ptr rule: scanAtts_next.induct)
  case (1 enc b ptr)
  show ?case
    by (auto simp: scanAtts_next.simps [of enc b ptr] reads_only split: sw.split
        intro: moves_call [OF "1.IH"] dest: switch_Brk(3))
qed

lemma scanAtts_attr_moves: "returns_only (moves ptr) (scanAtts_attr enc b ptr)"
  unfolding scanAtts_attr_def scanAtts_close_def
  by (auto simp: reads_only Let_def split: sum.split prod.split
      intro!: returns_only_mono [OF scanAtts_open_moves [of ptr]]
        returns_only_mono [OF scanAtts_value_moves] moves_call [OF scanAtts_next_moves])

function scanAtts :: "encoding \<Rightarrow> byte list \<Rightarrow> bool \<Rightarrow> nat \<Rightarrow> scan option" where
  "scanAtts enc b hadColon ptr =
     (if ptr = length b then Some (XML_TOK_PARTIAL, None)
      else do {
        t \<leftarrow> BYTE_TYPE enc b ptr;
        s \<leftarrow> CHECK_NAME_CASES enc b ptr t;
        case s of
          Rtn r \<Rightarrow> Some r
        | Brk p \<Rightarrow> scanAtts enc b hadColon p
        | NoCase \<Rightarrow>
            if t = BT_COLON then
              if hadColon then Some (XML_TOK_INVALID, Some ptr)
              else if ptr + MINBPC enc = length b then Some (XML_TOK_PARTIAL, None)
              else do {
                u \<leftarrow> BYTE_TYPE enc b (ptr + MINBPC enc);
                c \<leftarrow> CHECK_NMSTRT_CASES enc b (ptr + MINBPC enc) u;
                case c of
                  Rtn r \<Rightarrow> Some r
                | Brk p \<Rightarrow> scanAtts enc b True p
                | NoCase \<Rightarrow> Some (XML_TOK_INVALID, Some (ptr + MINBPC enc))
              }
            else if t = BT_S \<or> t = BT_CR \<or> t = BT_LF then do {
              e \<leftarrow> scanAtts_eq enc b ptr;
              case e of
                Inl r \<Rightarrow> Some r
              | Inr p \<Rightarrow> do {
                  a \<leftarrow> scanAtts_attr enc b p;
                  case a of Inl r \<Rightarrow> Some r | Inr q \<Rightarrow> scanAtts enc b False q
                }
            }
            else if t = BT_EQUALS then do {
              a \<leftarrow> scanAtts_attr enc b ptr;
              case a of Inl r \<Rightarrow> Some r | Inr q \<Rightarrow> scanAtts enc b False q
            }
            else Some (XML_TOK_INVALID, Some ptr)
      })"
  by pat_completeness auto
termination
  by (relation "measure (\<lambda>(enc, b, hadColon, ptr). length b - ptr)")
    (auto dest!: BYTE_TYPE_Some_less switch_Brk scanAtts_eq_moves [THEN returns_onlyD]
      scanAtts_attr_moves [THEN returns_onlyD] intro!: measure_left)

declare scanAtts.simps [simp del]

text \<open>\<open>ptr\<close> points to the character following \<open><\<close>; \<open>scanLt_space\<close> is the inner loop after white
  space, and \<open>scanLt_sol\<close> the code at label \<open>sol\<close>.\<close>

definition scanLt_sol :: "encoding \<Rightarrow> byte list \<Rightarrow> nat \<Rightarrow> scan option" where
  "scanLt_sol enc b ptr =
     (let ptr = ptr + MINBPC enc in
      if ptr = length b then Some (XML_TOK_PARTIAL, None)
      else do {
        g \<leftarrow> CHAR_MATCHES enc b ptr ASCII_GT;
        if \<not> g then Some (XML_TOK_INVALID, Some ptr)
        else Some (XML_TOK_EMPTY_ELEMENT_NO_ATTS, Some (ptr + MINBPC enc))
      })"

function scanLt_space :: "encoding \<Rightarrow> byte list \<Rightarrow> nat \<Rightarrow> scan option" where
  "scanLt_space enc b ptr =
     (if ptr = length b then Some (XML_TOK_PARTIAL, None)
      else do {
        t \<leftarrow> BYTE_TYPE enc b ptr;
        s \<leftarrow> CHECK_NMSTRT_CASES enc b ptr t;
        case s of
          Rtn r \<Rightarrow> Some r
        | Brk p \<Rightarrow> scanAtts enc b False p
        | NoCase \<Rightarrow>
            if t = BT_GT then Some (XML_TOK_START_TAG_NO_ATTS, Some (ptr + MINBPC enc))
            else if t = BT_SOL then scanLt_sol enc b ptr
            else if t = BT_S \<or> t = BT_CR \<or> t = BT_LF then scanLt_space enc b (ptr + MINBPC enc)
            else Some (XML_TOK_INVALID, Some ptr)
      })"
  by pat_completeness auto
termination
  by (relation "measure (\<lambda>(enc, b, ptr). length b - ptr)")
    (auto dest: BYTE_TYPE_Some_less intro!: measure_left)

declare scanLt_space.simps [simp del]

function scanLt_loop :: "encoding \<Rightarrow> byte list \<Rightarrow> bool \<Rightarrow> nat \<Rightarrow> scan option" where
  "scanLt_loop enc b hadColon ptr =
     (if ptr = length b then Some (XML_TOK_PARTIAL, None)
      else do {
        t \<leftarrow> BYTE_TYPE enc b ptr;
        s \<leftarrow> CHECK_NAME_CASES enc b ptr t;
        case s of
          Rtn r \<Rightarrow> Some r
        | Brk p \<Rightarrow> scanLt_loop enc b hadColon p
        | NoCase \<Rightarrow>
            if t = BT_COLON then
              if hadColon then Some (XML_TOK_INVALID, Some ptr)
              else if ptr + MINBPC enc = length b then Some (XML_TOK_PARTIAL, None)
              else do {
                u \<leftarrow> BYTE_TYPE enc b (ptr + MINBPC enc);
                c \<leftarrow> CHECK_NMSTRT_CASES enc b (ptr + MINBPC enc) u;
                case c of
                  Rtn r \<Rightarrow> Some r
                | Brk p \<Rightarrow> scanLt_loop enc b True p
                | NoCase \<Rightarrow> Some (XML_TOK_INVALID, Some (ptr + MINBPC enc))
              }
            else if t = BT_S \<or> t = BT_CR \<or> t = BT_LF then scanLt_space enc b (ptr + MINBPC enc)
            else if t = BT_GT then Some (XML_TOK_START_TAG_NO_ATTS, Some (ptr + MINBPC enc))
            else if t = BT_SOL then scanLt_sol enc b ptr
            else Some (XML_TOK_INVALID, Some ptr)
      })"
  by pat_completeness auto
termination
  by (relation "measure (\<lambda>(enc, b, hadColon, ptr). length b - ptr)")
    (auto dest!: BYTE_TYPE_Some_less switch_Brk intro!: measure_left)

declare scanLt_loop.simps [simp del]

definition scanLt :: "encoding \<Rightarrow> byte list \<Rightarrow> nat \<Rightarrow> scan option" where
  "scanLt enc b ptr =
     (if ptr = length b then Some (XML_TOK_PARTIAL, None)
      else do {
        t \<leftarrow> BYTE_TYPE enc b ptr;
        s \<leftarrow> CHECK_NMSTRT_CASES enc b ptr t;
        case s of
          Rtn r \<Rightarrow> Some r
        | Brk p \<Rightarrow> scanLt_loop enc b False p
        | NoCase \<Rightarrow>
            if t = BT_EXCL then
              let ptr = ptr + MINBPC enc in
              if ptr = length b then Some (XML_TOK_PARTIAL, None)
              else do {
                u \<leftarrow> BYTE_TYPE enc b ptr;
                if u = BT_MINUS then scanComment enc b (ptr + MINBPC enc)
                else if u = BT_LSQB then scanCdataSection enc b (ptr + MINBPC enc)
                else Some (XML_TOK_INVALID, Some ptr)
              }
            else if t = BT_QUEST then scanPi enc b (ptr + MINBPC enc)
            else if t = BT_SOL then scanEndTag enc b (ptr + MINBPC enc)
            else Some (XML_TOK_INVALID, Some ptr)
      })"

text \<open>The first switch of \<open>contentTok\<close> and its data loop.\<close>

definition contentTok_switch :: "encoding \<Rightarrow> byte list \<Rightarrow> nat \<Rightarrow> (scan + nat) option" where
  "contentTok_switch enc b ptr = do {
     t \<leftarrow> BYTE_TYPE enc b ptr;
     if t = BT_LT then map_option Inl (scanLt enc b (ptr + MINBPC enc))
     else if t = BT_AMP then map_option Inl (scanRef enc b (ptr + MINBPC enc))
     else if t = BT_CR then
       let p = ptr + MINBPC enc in
       if p = length b then Some (Inl (XML_TOK_TRAILING_CR, None))
       else do {
         u \<leftarrow> BYTE_TYPE enc b p;
         Some (Inl (XML_TOK_DATA_NEWLINE, Some (if u = BT_LF then p + MINBPC enc else p)))
       }
     else if t = BT_LF then Some (Inl (XML_TOK_DATA_NEWLINE, Some (ptr + MINBPC enc)))
     else if t = BT_RSQB then
       let p = ptr + MINBPC enc in
       if p = length b then Some (Inl (XML_TOK_TRAILING_RSQB, None))
       else do {
         m \<leftarrow> CHAR_MATCHES enc b p ASCII_RSQB;
         if \<not> m then Some (Inr p)
         else
           let q = p + MINBPC enc in
           if q = length b then Some (Inl (XML_TOK_TRAILING_RSQB, None))
           else do {
             g \<leftarrow> CHAR_MATCHES enc b q ASCII_GT;
             if \<not> g then Some (Inr (q - MINBPC enc))
             else Some (Inl (XML_TOK_INVALID, Some q))
           }
       }
     else do {
       s \<leftarrow> INVALID_CASES enc b ptr t;
       case s of
         Rtn r \<Rightarrow> Some (Inl r)
       | Brk p \<Rightarrow> Some (Inr p)
       | NoCase \<Rightarrow> Some (Inr (ptr + MINBPC enc))
     }
   }"

text \<open>\<open>case BT_RSQB\<close> of the data loop: go on past the bracket (\<open>Inr\<close>), or return.\<close>

definition contentTok_rsqb :: "encoding \<Rightarrow> byte list \<Rightarrow> nat \<Rightarrow> (scan + nat) option" where
  "contentTok_rsqb enc b ptr =
     (if ptr + MINBPC enc \<noteq> length b then do {
        m \<leftarrow> CHAR_MATCHES enc b (ptr + MINBPC enc) ASCII_RSQB;
        if \<not> m then Some (Inr (ptr + MINBPC enc))
        else if ptr + 2 * MINBPC enc \<noteq> length b then do {
          g \<leftarrow> CHAR_MATCHES enc b (ptr + 2 * MINBPC enc) ASCII_GT;
          if \<not> g then Some (Inr (ptr + MINBPC enc))
          else Some (Inl (XML_TOK_INVALID, Some (ptr + 2 * MINBPC enc)))
        }
        else Some (Inl (XML_TOK_DATA_CHARS, Some ptr))
      }
      else Some (Inl (XML_TOK_DATA_CHARS, Some ptr)))"

lemma contentTok_rsqb_Inr: "contentTok_rsqb enc b ptr = Some (Inr p) \<Longrightarrow> ptr < p"
  by (auto simp: contentTok_rsqb_def split: if_split_asm)

function contentTok_loop :: "encoding \<Rightarrow> byte list \<Rightarrow> nat \<Rightarrow> scan option" where
  "contentTok_loop enc b ptr =
     (if ptr = length b then Some (XML_TOK_DATA_CHARS, Some ptr)
      else do {
        t \<leftarrow> BYTE_TYPE enc b ptr;
        s \<leftarrow> LEAD_CASES_data enc b ptr t;
        case s of
          Rtn r \<Rightarrow> Some r
        | Brk p \<Rightarrow> contentTok_loop enc b p
        | NoCase \<Rightarrow>
            if t = BT_RSQB then do {
              c \<leftarrow> contentTok_rsqb enc b ptr;
              case c of Inl r \<Rightarrow> Some r | Inr p \<Rightarrow> contentTok_loop enc b p
            }
            else if t = BT_AMP \<or> t = BT_LT \<or> t = BT_NONXML \<or> t = BT_MALFORM \<or> t = BT_TRAIL
                    \<or> t = BT_CR \<or> t = BT_LF
            then Some (XML_TOK_DATA_CHARS, Some ptr)
            else contentTok_loop enc b (ptr + MINBPC enc)
      })"
  by pat_completeness auto
termination
  by (relation "measure (\<lambda>(enc, b, ptr). length b - ptr)")
    (auto dest: BYTE_TYPE_Some_less LEAD_CASES_data_Brk contentTok_rsqb_Inr intro!: measure_left)

declare contentTok_loop.simps [simp del]

definition contentTok :: "encoding \<Rightarrow> byte list \<Rightarrow> nat \<Rightarrow> scan option" where
  "contentTok enc b ptr =
     (if ptr = length b then Some (XML_TOK_NONE, None)
      else
        let b = trim_end enc b ptr in
        if ptr = length b then Some (XML_TOK_PARTIAL, None)
        else do {
          s \<leftarrow> contentTok_switch enc b ptr;
          case s of
            Inl r \<Rightarrow> Some r
          | Inr p \<Rightarrow> contentTok_loop enc b p
        })"

end
