(* ===== verification/Xml_Prolog_Tok.thy ===== *)
theory Xml_Prolog_Tok
  imports Xml_Tok
begin

text \<open>
  The prolog, literal and ignored-section scanners of \<^verbatim>\<open>xmltok_impl.c\<close>, in the same
  representation as the content scanners. A negated token code is what the source returns for a
  token that ends exactly at the end of the buffer.
\<close>

text \<open>\<open>ptr\<close> points to the character following \<open>%\<close>.\<close>

function scanPercent_loop :: "encoding \<Rightarrow> byte list \<Rightarrow> nat \<Rightarrow> scan option" where
  "scanPercent_loop enc b ptr =
     (if ptr = length b then Some (XML_TOK_PARTIAL, None)
      else do {
        t \<leftarrow> BYTE_TYPE enc b ptr;
        s \<leftarrow> CHECK_NAME_CASES enc b ptr t;
        case s of
          Rtn r \<Rightarrow> Some r
        | Brk p \<Rightarrow> scanPercent_loop enc b p
        | NoCase \<Rightarrow>
            if t = BT_SEMI then Some (XML_TOK_PARAM_ENTITY_REF, Some (ptr + MINBPC enc))
            else Some (XML_TOK_INVALID, Some ptr)
      })"
  by pat_completeness auto
termination
  by (relation "measure (\<lambda>(enc, b, ptr). length b - ptr)")
    (auto dest: BYTE_TYPE_Some_less switch_Brk intro!: measure_left)

declare scanPercent_loop.simps [simp del]

definition scanPercent :: "encoding \<Rightarrow> byte list \<Rightarrow> nat \<Rightarrow> scan option" where
  "scanPercent enc b ptr =
     (if ptr = length b then Some (- XML_TOK_PERCENT, None)
      else do {
        t \<leftarrow> BYTE_TYPE enc b ptr;
        s \<leftarrow> CHECK_NMSTRT_CASES enc b ptr t;
        case s of
          Rtn r \<Rightarrow> Some r
        | Brk p \<Rightarrow> scanPercent_loop enc b p
        | NoCase \<Rightarrow>
            if t = BT_S \<or> t = BT_LF \<or> t = BT_CR \<or> t = BT_PERCNT
            then Some (XML_TOK_PERCENT, Some ptr)
            else Some (XML_TOK_INVALID, Some ptr)
      })"

function scanPoundName_loop :: "encoding \<Rightarrow> byte list \<Rightarrow> nat \<Rightarrow> scan option" where
  "scanPoundName_loop enc b ptr =
     (if ptr = length b then Some (- XML_TOK_POUND_NAME, None)
      else do {
        t \<leftarrow> BYTE_TYPE enc b ptr;
        s \<leftarrow> CHECK_NAME_CASES enc b ptr t;
        case s of
          Rtn r \<Rightarrow> Some r
        | Brk p \<Rightarrow> scanPoundName_loop enc b p
        | NoCase \<Rightarrow>
            if t = BT_CR \<or> t = BT_LF \<or> t = BT_S \<or> t = BT_RPAR \<or> t = BT_GT \<or> t = BT_PERCNT
               \<or> t = BT_VERBAR
            then Some (XML_TOK_POUND_NAME, Some ptr)
            else Some (XML_TOK_INVALID, Some ptr)
      })"
  by pat_completeness auto
termination
  by (relation "measure (\<lambda>(enc, b, ptr). length b - ptr)")
    (auto dest: BYTE_TYPE_Some_less switch_Brk intro!: measure_left)

declare scanPoundName_loop.simps [simp del]

definition scanPoundName :: "encoding \<Rightarrow> byte list \<Rightarrow> nat \<Rightarrow> scan option" where
  "scanPoundName enc b ptr =
     (if ptr = length b then Some (XML_TOK_PARTIAL, None)
      else do {
        t \<leftarrow> BYTE_TYPE enc b ptr;
        s \<leftarrow> CHECK_NMSTRT_CASES enc b ptr t;
        case s of
          Rtn r \<Rightarrow> Some r
        | Brk p \<Rightarrow> scanPoundName_loop enc b p
        | NoCase \<Rightarrow> Some (XML_TOK_INVALID, Some ptr)
      })"

function scanLit :: "bt \<Rightarrow> encoding \<Rightarrow> byte list \<Rightarrow> nat \<Rightarrow> scan option" where
  "scanLit open enc b ptr =
     (if ptr = length b then Some (XML_TOK_PARTIAL, None)
      else do {
        t \<leftarrow> BYTE_TYPE enc b ptr;
        s \<leftarrow> INVALID_CASES enc b ptr t;
        case s of
          Rtn r \<Rightarrow> Some r
        | Brk p \<Rightarrow> scanLit open enc b p
        | NoCase \<Rightarrow>
            if t = BT_QUOT \<or> t = BT_APOS then
              if t \<noteq> open then scanLit open enc b (ptr + MINBPC enc)
              else if ptr + MINBPC enc = length b then Some (- XML_TOK_LITERAL, None)
              else do {
                u \<leftarrow> BYTE_TYPE enc b (ptr + MINBPC enc);
                if u = BT_S \<or> u = BT_CR \<or> u = BT_LF \<or> u = BT_GT \<or> u = BT_PERCNT \<or> u = BT_LSQB
                then Some (XML_TOK_LITERAL, Some (ptr + MINBPC enc))
                else Some (XML_TOK_INVALID, Some (ptr + MINBPC enc))
              }
            else scanLit open enc b (ptr + MINBPC enc)
      })"
  by pat_completeness auto
termination
  by (relation "measure (\<lambda>(open, enc, b, ptr). length b - ptr)")
    (auto dest: BYTE_TYPE_Some_less switch_Brk intro!: measure_left)

declare scanLit.simps [simp del]

text \<open>\<open>prologTok\<close>: the white-space loop, the name loop and the first switch.\<close>

function prologTok_space :: "encoding \<Rightarrow> byte list \<Rightarrow> nat \<Rightarrow> scan option" where
  "prologTok_space enc b ptr =
     (if ptr + MINBPC enc = length b then Some (XML_TOK_PROLOG_S, Some (ptr + MINBPC enc))
      else do {
        t \<leftarrow> BYTE_TYPE enc b (ptr + MINBPC enc);
        if t = BT_S \<or> t = BT_LF then prologTok_space enc b (ptr + MINBPC enc)
        else if t = BT_CR \<and> ptr + MINBPC enc + MINBPC enc \<noteq> length b
        then prologTok_space enc b (ptr + MINBPC enc)
        else Some (XML_TOK_PROLOG_S, Some (ptr + MINBPC enc))
      })"
  by pat_completeness auto
termination
  by (relation "measure (\<lambda>(enc, b, ptr). length b - ptr)")
    (auto dest!: BYTE_TYPE_Some_less intro!: measure_left)

declare prologTok_space.simps [simp del]

function prologTok_name :: "encoding \<Rightarrow> byte list \<Rightarrow> int \<Rightarrow> nat \<Rightarrow> scan option" where
  "prologTok_name enc b tok ptr =
     (if ptr = length b then Some (- tok, None)
      else do {
        t \<leftarrow> BYTE_TYPE enc b ptr;
        s \<leftarrow> CHECK_NAME_CASES enc b ptr t;
        case s of
          Rtn r \<Rightarrow> Some r
        | Brk p \<Rightarrow> prologTok_name enc b tok p
        | NoCase \<Rightarrow>
            if t = BT_GT \<or> t = BT_RPAR \<or> t = BT_COMMA \<or> t = BT_VERBAR \<or> t = BT_LSQB
               \<or> t = BT_PERCNT \<or> t = BT_S \<or> t = BT_CR \<or> t = BT_LF
            then Some (tok, Some ptr)
            else if t = BT_COLON then
              if tok = XML_TOK_NAME then
                if ptr + MINBPC enc = length b then Some (XML_TOK_PARTIAL, None)
                else do {
                  u \<leftarrow> BYTE_TYPE enc b (ptr + MINBPC enc);
                  c \<leftarrow> CHECK_NAME_CASES enc b (ptr + MINBPC enc) u;
                  case c of
                    Rtn r \<Rightarrow> Some r
                  | Brk p \<Rightarrow> prologTok_name enc b XML_TOK_PREFIXED_NAME p
                  | NoCase \<Rightarrow> prologTok_name enc b XML_TOK_NMTOKEN (ptr + MINBPC enc)
                }
              else if tok = XML_TOK_PREFIXED_NAME
              then prologTok_name enc b XML_TOK_NMTOKEN (ptr + MINBPC enc)
              else prologTok_name enc b tok (ptr + MINBPC enc)
            else if t = BT_PLUS then
              if tok = XML_TOK_NMTOKEN then Some (XML_TOK_INVALID, Some ptr)
              else Some (XML_TOK_NAME_PLUS, Some (ptr + MINBPC enc))
            else if t = BT_AST then
              if tok = XML_TOK_NMTOKEN then Some (XML_TOK_INVALID, Some ptr)
              else Some (XML_TOK_NAME_ASTERISK, Some (ptr + MINBPC enc))
            else if t = BT_QUEST then
              if tok = XML_TOK_NMTOKEN then Some (XML_TOK_INVALID, Some ptr)
              else Some (XML_TOK_NAME_QUESTION, Some (ptr + MINBPC enc))
            else Some (XML_TOK_INVALID, Some ptr)
      })"
  by pat_completeness auto
termination
  by (relation "measure (\<lambda>(enc, b, tok, ptr). length b - ptr)")
    (auto dest!: BYTE_TYPE_Some_less switch_Brk intro!: measure_left)

declare prologTok_name.simps [simp del]

text \<open>\<open>LEAD_CASE(n)\<close> of the first switch: the token a multi-byte first character starts.\<close>

definition prologTok_lead :: "nat \<Rightarrow> encoding \<Rightarrow> byte list \<Rightarrow> nat \<Rightarrow> scan option" where
  "prologTok_lead n enc b ptr =
     (if length b - ptr < n then Some (XML_TOK_PARTIAL_CHAR, None)
      else do {
        st \<leftarrow> IS_NMSTRT_CHAR enc b ptr n;
        if st then prologTok_name enc b XML_TOK_NAME (ptr + n)
        else do {
          nm \<leftarrow> IS_NAME_CHAR enc b ptr n;
          if nm then prologTok_name enc b XML_TOK_NMTOKEN (ptr + n)
          else Some (XML_TOK_INVALID, Some ptr)
        }
      })"

definition prologTok_lt :: "encoding \<Rightarrow> byte list \<Rightarrow> nat \<Rightarrow> scan option" where
  "prologTok_lt enc b ptr0 =
     (let ptr = ptr0 + MINBPC enc in
      if ptr = length b then Some (XML_TOK_PARTIAL, None)
      else do {
        u \<leftarrow> BYTE_TYPE enc b ptr;
        if u = BT_EXCL then scanDecl enc b (ptr + MINBPC enc)
        else if u = BT_QUEST then scanPi enc b (ptr + MINBPC enc)
        else if u = BT_NMSTRT \<or> u = BT_HEX \<or> u = BT_NONASCII \<or> u = BT_LEAD2 \<or> u = BT_LEAD3
                \<or> u = BT_LEAD4
        then Some (XML_TOK_INSTANCE_START, Some (ptr - MINBPC enc))
        else Some (XML_TOK_INVALID, Some ptr)
      })"

definition prologTok_rsqb :: "encoding \<Rightarrow> byte list \<Rightarrow> nat \<Rightarrow> scan option" where
  "prologTok_rsqb enc b ptr0 =
     (let ptr = ptr0 + MINBPC enc in
      if ptr = length b then Some (- XML_TOK_CLOSE_BRACKET, None)
      else do {
        m \<leftarrow> CHAR_MATCHES enc b ptr ASCII_RSQB;
        if m then
          if ptr + MINBPC enc = length b then Some (XML_TOK_PARTIAL, None)
          else do {
            g \<leftarrow> CHAR_MATCHES enc b (ptr + MINBPC enc) ASCII_GT;
            if g then Some (XML_TOK_COND_SECT_CLOSE, Some (ptr + 2 * MINBPC enc))
            else Some (XML_TOK_CLOSE_BRACKET, Some ptr)
          }
        else Some (XML_TOK_CLOSE_BRACKET, Some ptr)
      })"

definition prologTok_rpar :: "encoding \<Rightarrow> byte list \<Rightarrow> nat \<Rightarrow> scan option" where
  "prologTok_rpar enc b ptr0 =
     (let ptr = ptr0 + MINBPC enc in
      if ptr = length b then Some (- XML_TOK_CLOSE_PAREN, None)
      else do {
        u \<leftarrow> BYTE_TYPE enc b ptr;
        if u = BT_AST then Some (XML_TOK_CLOSE_PAREN_ASTERISK, Some (ptr + MINBPC enc))
        else if u = BT_QUEST then Some (XML_TOK_CLOSE_PAREN_QUESTION, Some (ptr + MINBPC enc))
        else if u = BT_PLUS then Some (XML_TOK_CLOSE_PAREN_PLUS, Some (ptr + MINBPC enc))
        else if u = BT_CR \<or> u = BT_LF \<or> u = BT_S \<or> u = BT_GT \<or> u = BT_COMMA \<or> u = BT_VERBAR
                \<or> u = BT_RPAR
        then Some (XML_TOK_CLOSE_PAREN, Some ptr)
        else Some (XML_TOK_INVALID, Some ptr)
      })"

definition prologTok_nonascii :: "encoding \<Rightarrow> byte list \<Rightarrow> nat \<Rightarrow> scan option" where
  "prologTok_nonascii enc b ptr = do {
     st \<leftarrow> IS_NMSTRT_CHAR_MINBPC enc b ptr;
     if st then prologTok_name enc b XML_TOK_NAME (ptr + MINBPC enc)
     else do {
       nm \<leftarrow> IS_NAME_CHAR_MINBPC enc b ptr;
       if nm then prologTok_name enc b XML_TOK_NMTOKEN (ptr + MINBPC enc)
       else Some (XML_TOK_INVALID, Some ptr)
     }
   }"

definition prologTok_switch :: "encoding \<Rightarrow> byte list \<Rightarrow> nat \<Rightarrow> scan option" where
  "prologTok_switch enc b ptr = do {
     t \<leftarrow> BYTE_TYPE enc b ptr;
     if t = BT_QUOT then scanLit BT_QUOT enc b (ptr + MINBPC enc)
     else if t = BT_APOS then scanLit BT_APOS enc b (ptr + MINBPC enc)
     else if t = BT_LT then prologTok_lt enc b ptr
     else if t = BT_CR \<and> ptr + MINBPC enc = length b then Some (- XML_TOK_PROLOG_S, Some (length b))
     else if t = BT_CR \<or> t = BT_S \<or> t = BT_LF then prologTok_space enc b ptr
     else if t = BT_PERCNT then scanPercent enc b (ptr + MINBPC enc)
     else if t = BT_COMMA then Some (XML_TOK_COMMA, Some (ptr + MINBPC enc))
     else if t = BT_LSQB then Some (XML_TOK_OPEN_BRACKET, Some (ptr + MINBPC enc))
     else if t = BT_RSQB then prologTok_rsqb enc b ptr
     else if t = BT_LPAR then Some (XML_TOK_OPEN_PAREN, Some (ptr + MINBPC enc))
     else if t = BT_RPAR then prologTok_rpar enc b ptr
     else if t = BT_VERBAR then Some (XML_TOK_OR, Some (ptr + MINBPC enc))
     else if t = BT_GT then Some (XML_TOK_DECL_CLOSE, Some (ptr + MINBPC enc))
     else if t = BT_NUM then scanPoundName enc b (ptr + MINBPC enc)
     else if t = BT_LEAD2 then prologTok_lead 2 enc b ptr
     else if t = BT_LEAD3 then prologTok_lead 3 enc b ptr
     else if t = BT_LEAD4 then prologTok_lead 4 enc b ptr
     else if t = BT_NMSTRT \<or> t = BT_HEX
     then prologTok_name enc b XML_TOK_NAME (ptr + MINBPC enc)
     else if t = BT_DIGIT \<or> t = BT_NAME \<or> t = BT_MINUS \<or> t = BT_COLON
     then prologTok_name enc b XML_TOK_NMTOKEN (ptr + MINBPC enc)
     else if t = BT_NONASCII then prologTok_nonascii enc b ptr
     else Some (XML_TOK_INVALID, Some ptr)
   }"

definition prologTok :: "encoding \<Rightarrow> byte list \<Rightarrow> nat \<Rightarrow> scan option" where
  "prologTok enc b ptr =
     (if ptr = length b then Some (XML_TOK_NONE, None)
      else
        let b = trim_end enc b ptr in
        if ptr = length b then Some (XML_TOK_PARTIAL, None)
        else prologTok_switch enc b ptr)"

text \<open>Second-level scanners, over the text of a literal. \<open>LEAD_CASE(n)\<close> of both is unchecked:
  \<open>ptr += n\<close>.\<close>

function attributeValueTok_loop :: "encoding \<Rightarrow> byte list \<Rightarrow> nat \<Rightarrow> nat \<Rightarrow> scan option" where
  "attributeValueTok_loop enc b start ptr =
     (if ptr = length b then Some (XML_TOK_DATA_CHARS, Some ptr)
      else do {
        t \<leftarrow> BYTE_TYPE enc b ptr;
        if t = BT_LEAD2 then attributeValueTok_loop enc b start (ptr + 2)
        else if t = BT_LEAD3 then attributeValueTok_loop enc b start (ptr + 3)
        else if t = BT_LEAD4 then attributeValueTok_loop enc b start (ptr + 4)
        else if t = BT_AMP then
          if ptr = start then scanRef enc b (ptr + MINBPC enc)
          else Some (XML_TOK_DATA_CHARS, Some ptr)
        else if t = BT_LT then Some (XML_TOK_INVALID, Some ptr)
        else if t = BT_LF then
          if ptr = start then Some (XML_TOK_DATA_NEWLINE, Some (ptr + MINBPC enc))
          else Some (XML_TOK_DATA_CHARS, Some ptr)
        else if t = BT_CR then
          if ptr = start then
            if ptr + MINBPC enc = length b then Some (XML_TOK_TRAILING_CR, None)
            else do {
              u \<leftarrow> BYTE_TYPE enc b (ptr + MINBPC enc);
              Some (XML_TOK_DATA_NEWLINE,
                    Some (if u = BT_LF then ptr + MINBPC enc + MINBPC enc else ptr + MINBPC enc))
            }
          else Some (XML_TOK_DATA_CHARS, Some ptr)
        else if t = BT_S then
          if ptr = start then Some (XML_TOK_ATTRIBUTE_VALUE_S, Some (ptr + MINBPC enc))
          else Some (XML_TOK_DATA_CHARS, Some ptr)
        else attributeValueTok_loop enc b start (ptr + MINBPC enc)
      })"
  by pat_completeness auto
termination
  by (relation "measure (\<lambda>(enc, b, start, ptr). length b - ptr)")
    (auto dest!: BYTE_TYPE_Some_less intro!: measure_left)

declare attributeValueTok_loop.simps [simp del]

definition attributeValueTok :: "encoding \<Rightarrow> byte list \<Rightarrow> nat \<Rightarrow> scan option" where
  "attributeValueTok enc b ptr =
     (if ptr = length b then Some (XML_TOK_NONE, None)
      else attributeValueTok_loop enc b ptr ptr)"

function entityValueTok_loop :: "encoding \<Rightarrow> byte list \<Rightarrow> nat \<Rightarrow> nat \<Rightarrow> scan option" where
  "entityValueTok_loop enc b start ptr =
     (if ptr = length b then Some (XML_TOK_DATA_CHARS, Some ptr)
      else do {
        t \<leftarrow> BYTE_TYPE enc b ptr;
        if t = BT_LEAD2 then entityValueTok_loop enc b start (ptr + 2)
        else if t = BT_LEAD3 then entityValueTok_loop enc b start (ptr + 3)
        else if t = BT_LEAD4 then entityValueTok_loop enc b start (ptr + 4)
        else if t = BT_AMP then
          if ptr = start then scanRef enc b (ptr + MINBPC enc)
          else Some (XML_TOK_DATA_CHARS, Some ptr)
        else if t = BT_PERCNT then
          if ptr = start then do {
            (tok, nx) \<leftarrow> scanPercent enc b (ptr + MINBPC enc);
            Some (if tok = XML_TOK_PERCENT then XML_TOK_INVALID else tok, nx)
          }
          else Some (XML_TOK_DATA_CHARS, Some ptr)
        else if t = BT_LF then
          if ptr = start then Some (XML_TOK_DATA_NEWLINE, Some (ptr + MINBPC enc))
          else Some (XML_TOK_DATA_CHARS, Some ptr)
        else if t = BT_CR then
          if ptr = start then
            if ptr + MINBPC enc = length b then Some (XML_TOK_TRAILING_CR, None)
            else do {
              u \<leftarrow> BYTE_TYPE enc b (ptr + MINBPC enc);
              Some (XML_TOK_DATA_NEWLINE,
                    Some (if u = BT_LF then ptr + MINBPC enc + MINBPC enc else ptr + MINBPC enc))
            }
          else Some (XML_TOK_DATA_CHARS, Some ptr)
        else entityValueTok_loop enc b start (ptr + MINBPC enc)
      })"
  by pat_completeness auto
termination
  by (relation "measure (\<lambda>(enc, b, start, ptr). length b - ptr)")
    (auto dest!: BYTE_TYPE_Some_less intro!: measure_left)

declare entityValueTok_loop.simps [simp del]

definition entityValueTok :: "encoding \<Rightarrow> byte list \<Rightarrow> nat \<Rightarrow> scan option" where
  "entityValueTok enc b ptr =
     (if ptr = length b then Some (XML_TOK_NONE, None)
      else entityValueTok_loop enc b ptr ptr)"

function ignoreSectionTok_loop :: "encoding \<Rightarrow> byte list \<Rightarrow> int \<Rightarrow> nat \<Rightarrow> scan option" where
  "ignoreSectionTok_loop enc b level ptr =
     (if ptr = length b then Some (XML_TOK_PARTIAL, None)
      else do {
        t \<leftarrow> BYTE_TYPE enc b ptr;
        s \<leftarrow> INVALID_CASES enc b ptr t;
        case s of
          Rtn r \<Rightarrow> Some r
        | Brk p \<Rightarrow> ignoreSectionTok_loop enc b level p
        | NoCase \<Rightarrow>
            if t = BT_LT then
              if ptr + MINBPC enc = length b then Some (XML_TOK_PARTIAL, None)
              else do {
                x \<leftarrow> CHAR_MATCHES enc b (ptr + MINBPC enc) ASCII_EXCL;
                if x then
                  if ptr + 2 * MINBPC enc = length b then Some (XML_TOK_PARTIAL, None)
                  else do {
                    l \<leftarrow> CHAR_MATCHES enc b (ptr + 2 * MINBPC enc) ASCII_LSQB;
                    if l then ignoreSectionTok_loop enc b (level + 1) (ptr + 3 * MINBPC enc)
                    else ignoreSectionTok_loop enc b level (ptr + 2 * MINBPC enc)
                  }
                else ignoreSectionTok_loop enc b level (ptr + MINBPC enc)
              }
            else if t = BT_RSQB then
              if ptr + MINBPC enc = length b then Some (XML_TOK_PARTIAL, None)
              else do {
                r \<leftarrow> CHAR_MATCHES enc b (ptr + MINBPC enc) ASCII_RSQB;
                if r then
                  if ptr + 2 * MINBPC enc = length b then Some (XML_TOK_PARTIAL, None)
                  else do {
                    g \<leftarrow> CHAR_MATCHES enc b (ptr + 2 * MINBPC enc) ASCII_GT;
                    if g then
                      if level = 0 then Some (XML_TOK_IGNORE_SECT, Some (ptr + 3 * MINBPC enc))
                      else ignoreSectionTok_loop enc b (level - 1) (ptr + 3 * MINBPC enc)
                    else ignoreSectionTok_loop enc b level (ptr + 2 * MINBPC enc)
                  }
                else ignoreSectionTok_loop enc b level (ptr + MINBPC enc)
              }
            else ignoreSectionTok_loop enc b level (ptr + MINBPC enc)
      })"
  by pat_completeness auto
termination
  by (relation "measure (\<lambda>(enc, b, level, ptr). length b - ptr)")
    (auto dest!: BYTE_TYPE_Some_less switch_Brk intro!: measure_left)

declare ignoreSectionTok_loop.simps [simp del]

definition ignoreSectionTok :: "encoding \<Rightarrow> byte list \<Rightarrow> nat \<Rightarrow> scan option" where
  "ignoreSectionTok enc b ptr = ignoreSectionTok_loop enc (trim_end enc b ptr) 0 ptr"

end
