(* ===== verification/Xml_Tok_Safety.thy ===== *)
theory Xml_Tok_Safety
  imports Xml_Prolog_Tok
begin

text \<open>
  Memory safety and totality of the scanners: the locale \<open>scanner_encoding\<close> states what the
  scanners rely on of an encoding object, its context proves of every scanner that it returns on
  every buffer, that no read leaves the buffer and no null test is called, and where the stored
  pointer lies. The locale is interpreted by the encoding objects of \<^verbatim>\<open>xmltok.c\<close>.
\<close>

section \<open>What the scanners require of an encoding\<close>

locale scanner_encoding =
  fixes enc :: encoding
  assumes type_total: "length (type_tab enc) = 256"
    and lead_tests: "prefix enc = Normal \<Longrightarrow> t \<in> set (type_tab enc) \<Longrightarrow> lead_len t \<noteq> 0 \<Longrightarrow>
      isName enc (lead_len t) \<noteq> None \<and> isNmstrt enc (lead_len t) \<noteq> None \<and>
      isInvalid enc (lead_len t) \<noteq> None"
    and wide_no_lead: "prefix enc \<noteq> Normal \<Longrightarrow> t \<in> set (type_tab enc) \<Longrightarrow> lead_len t = 0"

definition aligned :: "encoding \<Rightarrow> byte list \<Rightarrow> nat \<Rightarrow> bool" where
  "aligned enc b p \<longleftrightarrow> p \<le> length b \<and> MINBPC enc dvd (length b - p)"

definition scan_ok :: "encoding \<Rightarrow> byte list \<Rightarrow> nat \<Rightarrow> scan \<Rightarrow> bool" where
  "scan_ok enc b ptr = (\<lambda>(tok, nx). case nx of None \<Rightarrow> tok < 0
     | Some p \<Rightarrow> 0 \<le> tok \<and> ptr \<le> p \<and> aligned enc b p)"

lemma scan_ok_simps [simp]:
  "scan_ok enc b ptr (tok, None) \<longleftrightarrow> tok < 0"
  "scan_ok enc b ptr (tok, Some p) \<longleftrightarrow> 0 \<le> tok \<and> ptr \<le> p \<and> aligned enc b p"
  by (simp_all add: scan_ok_def)

lemma scan_call:
  "returns (scan_ok enc b p) m \<Longrightarrow> ptr \<le> p \<Longrightarrow> returns (scan_ok enc b ptr) m"
  by (erule returns_mono) (auto simp: scan_ok_def split: option.splits)

lemma aligned_end [simp]: "aligned enc b (length b)"
  by (simp add: aligned_def)

lemma aligned_step:
  "aligned enc b ptr \<Longrightarrow> ptr \<noteq> length b \<Longrightarrow> aligned enc b (ptr + MINBPC enc)"
proof -
  assume a: "aligned enc b ptr" and ne: "ptr \<noteq> length b"
  then have "0 < length b - ptr" and d: "MINBPC enc dvd length b - ptr"
    by (auto simp: aligned_def)
  then have le: "MINBPC enc \<le> length b - ptr"
    by (simp add: dvd_imp_le)
  from d have "MINBPC enc dvd (length b - ptr) - MINBPC enc"
    by (rule dvd_diff_nat) simp
  with le a show ?thesis
    by (auto simp: aligned_def)
qed

lemma aligned_steps:
  "aligned enc b ptr \<Longrightarrow> ptr \<noteq> length b \<Longrightarrow> ptr + MINBPC enc \<noteq> length b \<Longrightarrow>
    aligned enc b (ptr + 2 * MINBPC enc)"
  "aligned enc b ptr \<Longrightarrow> ptr \<noteq> length b \<Longrightarrow> ptr + MINBPC enc \<noteq> length b \<Longrightarrow>
    ptr + 2 * MINBPC enc \<noteq> length b \<Longrightarrow> aligned enc b (ptr + 3 * MINBPC enc)"
  using aligned_step [of enc b ptr] aligned_step [of enc b "ptr + MINBPC enc"]
    aligned_step [of enc b "ptr + MINBPC enc + MINBPC enc"]
  by (simp_all add: numeral_eq_Suc add.assoc)

lemma aligned_back:
  "aligned enc b ptr \<Longrightarrow> MINBPC enc \<le> ptr \<Longrightarrow> aligned enc b (ptr - MINBPC enc)"
  by (auto simp: aligned_def) (metis (no_types, lifting) Nat.diff_diff_right dvd_add_triv_right_iff
    le_add_diff_inverse2 Nat.add_diff_assoc2 diff_diff_left add.commute)

text \<open>Inner loops of a scanner: a return from the scanner, or a later aligned pointer.\<close>

definition step_ok :: "encoding \<Rightarrow> byte list \<Rightarrow> nat \<Rightarrow> scan + nat \<Rightarrow> bool" where
  "step_ok enc b ptr s = (case s of Inl r \<Rightarrow> scan_ok enc b ptr r | Inr p \<Rightarrow> ptr < p \<and> aligned enc b p)"

lemma step_ok_simps [simp]:
  "step_ok enc b ptr (Inl r) \<longleftrightarrow> scan_ok enc b ptr r"
  "step_ok enc b ptr (Inr p) \<longleftrightarrow> ptr < p \<and> aligned enc b p"
  by (simp_all add: step_ok_def)

lemma scan_ok_mono: "scan_ok enc b p r \<Longrightarrow> ptr \<le> p \<Longrightarrow> scan_ok enc b ptr r"
  by (auto simp: scan_ok_def split: option.splits)

lemma step_call:
  "returns (step_ok enc b p) m \<Longrightarrow> ptr \<le> p \<Longrightarrow> returns (step_ok enc b ptr) m"
  by (erule returns_mono) (auto simp: step_ok_def intro: scan_ok_mono split: sum.splits)

lemma returns_map [simp]: "returns Q (map_option f m) = returns (\<lambda>w. Q (f w)) m"
  by (auto simp: returns_def)

text \<open>Running an inner loop and going on from where it was left.\<close>

lemma step_then:
  assumes "returns (step_ok enc b p) m"
    and "\<And>r. scan_ok enc b p r \<Longrightarrow> Q (Inl r)"
    and "\<And>q. p < q \<Longrightarrow> aligned enc b q \<Longrightarrow> Q (Inr q)"
  shows "returns Q m"
  using assms(1)
proof (rule returns_mono)
  fix s assume "step_ok enc b p s"
  then show "Q s" using assms(2,3) by (cases s) (auto intro: scan_ok_mono)
qed

definition open_ok :: "encoding \<Rightarrow> byte list \<Rightarrow> nat \<Rightarrow> scan + bt \<times> nat \<Rightarrow> bool" where
  "open_ok enc b ptr s = (case s of Inl r \<Rightarrow> scan_ok enc b ptr r
     | Inr (t, p) \<Rightarrow> ptr < p \<and> aligned enc b p \<and> p \<noteq> length b)"

lemma open_ok_simps [simp]:
  "open_ok enc b ptr (Inl r) \<longleftrightarrow> scan_ok enc b ptr r"
  "open_ok enc b ptr (Inr (t, p)) \<longleftrightarrow> ptr < p \<and> aligned enc b p \<and> p \<noteq> length b"
  by (simp_all add: open_ok_def)

lemma open_call:
  "returns (open_ok enc b p) m \<Longrightarrow> ptr \<le> p \<Longrightarrow> returns (open_ok enc b ptr) m"
  by (erule returns_mono) (auto simp: open_ok_def intro: scan_ok_mono split: sum.splits)

definition value_ok :: "encoding \<Rightarrow> byte list \<Rightarrow> nat \<Rightarrow> scan + nat \<Rightarrow> bool" where
  "value_ok enc b ptr s = (case s of Inl r \<Rightarrow> scan_ok enc b ptr r
     | Inr p \<Rightarrow> ptr \<le> p \<and> aligned enc b p \<and> p \<noteq> length b)"

lemma value_ok_simps [simp]:
  "value_ok enc b ptr (Inl r) \<longleftrightarrow> scan_ok enc b ptr r"
  "value_ok enc b ptr (Inr p) \<longleftrightarrow> ptr \<le> p \<and> aligned enc b p \<and> p \<noteq> length b"
  by (simp_all add: value_ok_def)

lemma value_call:
  "returns (value_ok enc b p) m \<Longrightarrow> ptr \<le> p \<Longrightarrow> returns (value_ok enc b ptr) m"
  by (erule returns_mono) (auto simp: value_ok_def intro: scan_ok_mono split: sum.splits)

text \<open>A token of a nested scanner: its result satisfies what is needed of every safe result.\<close>

lemma value_then:
  assumes "returns (value_ok enc b p) m"
    and "\<And>r. scan_ok enc b p r \<Longrightarrow> Q (Inl r)"
    and "\<And>q. p \<le> q \<Longrightarrow> aligned enc b q \<Longrightarrow> q \<noteq> length b \<Longrightarrow> Q (Inr q)"
  shows "returns Q m"
  using assms(1)
proof (rule returns_mono)
  fix s assume "value_ok enc b p s"
  then show "Q s" using assms(2,3) by (cases s) (auto intro: scan_ok_mono)
qed

lemma open_then:
  assumes "returns (open_ok enc b ptr) m"
    and "\<And>r. scan_ok enc b ptr r \<Longrightarrow> Q (Inl r)"
    and "\<And>t q. ptr < q \<Longrightarrow> aligned enc b q \<Longrightarrow> q \<noteq> length b \<Longrightarrow> Q (Inr (t, q))"
  shows "returns Q m"
  using assms(1)
proof (rule returns_mono)
  fix s assume "open_ok enc b ptr s"
  then show "Q s" using assms(2,3) by (cases s) auto
qed

lemma scan_then:
  assumes "returns (scan_ok enc b p) m"
    and "\<And>tok. tok < 0 \<Longrightarrow> Q (tok, None)"
    and "\<And>tok q. 0 \<le> tok \<Longrightarrow> p \<le> q \<Longrightarrow> aligned enc b q \<Longrightarrow> Q (tok, Some q)"
  shows "returns Q m"
  using assms(1)
proof (rule returns_mono)
  fix r assume "scan_ok enc b p r"
  then show "Q r" using assms(2,3) by (cases r; cases "snd r") auto
qed

text \<open>Progress: a positive token ends after the pointer it was scanned from.\<close>

definition adv_ok :: "encoding \<Rightarrow> byte list \<Rightarrow> nat \<Rightarrow> scan \<Rightarrow> bool" where
  "adv_ok enc b ptr r \<longleftrightarrow> scan_ok enc b ptr r \<and> pos_advances ptr r"

lemma adv_ok_simps [simp]:
  "adv_ok enc b ptr (tok, None) \<longleftrightarrow> tok < 0"
  "adv_ok enc b ptr (tok, Some p) \<longleftrightarrow> 0 \<le> tok \<and> ptr \<le> p \<and> aligned enc b p \<and> (0 < tok \<longrightarrow> ptr < p)"
  by (auto simp: adv_ok_def)

lemma scan_adv: "scan_ok enc b p r \<Longrightarrow> ptr < p \<Longrightarrow> adv_ok enc b ptr r"
  by (auto simp: adv_ok_def scan_ok_def pos_advances_def split: option.splits)

lemma adv_call: "returns (scan_ok enc b p) m \<Longrightarrow> ptr < p \<Longrightarrow> returns (adv_ok enc b ptr) m"
  by (erule returns_mono) (rule scan_adv)

lemma adv_mono: "adv_ok enc b p r \<Longrightarrow> ptr \<le> p \<Longrightarrow> adv_ok enc b ptr r"
  by (auto simp: adv_ok_def intro: scan_ok_mono pos_advances_less)

definition step_adv :: "encoding \<Rightarrow> byte list \<Rightarrow> nat \<Rightarrow> scan + nat \<Rightarrow> bool" where
  "step_adv enc b ptr s = (case s of Inl r \<Rightarrow> adv_ok enc b ptr r | Inr p \<Rightarrow> ptr < p \<and> aligned enc b p)"

lemma step_adv_simps [simp]:
  "step_adv enc b ptr (Inl r) \<longleftrightarrow> adv_ok enc b ptr r"
  "step_adv enc b ptr (Inr p) \<longleftrightarrow> ptr < p \<and> aligned enc b p"
  by (simp_all add: step_adv_def)

lemma step_adv_then:
  assumes "returns (step_adv enc b p) m"
    and "\<And>r. adv_ok enc b p r \<Longrightarrow> Q (Inl r)"
    and "\<And>q. p < q \<Longrightarrow> aligned enc b q \<Longrightarrow> Q (Inr q)"
  shows "returns Q m"
  using assms(1)
proof (rule returns_mono)
  fix s assume "step_adv enc b p s"
  then show "Q s" using assms(2,3) by (cases s) auto
qed

text \<open>The prolog scanner has two more results: the start of the document element, which is not
  consumed, and white space that ends with a carriage return at the end of the buffer, the one
  negative code with a stored pointer.\<close>

definition prolog_ok :: "encoding \<Rightarrow> byte list \<Rightarrow> nat \<Rightarrow> scan \<Rightarrow> bool" where
  "prolog_ok enc b ptr r \<longleftrightarrow> adv_ok enc b ptr r \<or> r = (XML_TOK_INSTANCE_START, Some ptr) \<or>
     r = (- XML_TOK_PROLOG_S, Some (length b))"

lemma prolog_call: "returns (adv_ok enc b ptr) m \<Longrightarrow> returns (prolog_ok enc b ptr) m"
  by (erule returns_mono) (simp add: prolog_ok_def)

text \<open>What the caller of a top-level scanner can rely on: a negative code leaves
  \<open>nextTokPtr\<close> alone; otherwise it is between the pointer and the end, and a positive token is
  not empty.\<close>

definition tok_ok :: "byte list \<Rightarrow> nat \<Rightarrow> scan \<Rightarrow> bool" where
  "tok_ok b ptr = (\<lambda>(tok, nx). case nx of None \<Rightarrow> tok < 0
     | Some p \<Rightarrow> 0 \<le> tok \<and> ptr \<le> p \<and> p \<le> length b \<and> (0 < tok \<longrightarrow> ptr < p))"

lemma tok_ok_simps [simp]:
  "tok_ok b ptr (tok, None) \<longleftrightarrow> tok < 0"
  "tok_ok b ptr (tok, Some p) \<longleftrightarrow> 0 \<le> tok \<and> ptr \<le> p \<and> p \<le> length b \<and> (0 < tok \<longrightarrow> ptr < p)"
  by (simp_all add: tok_ok_def)

lemma length_trim_end: "length (trim_end enc b ptr) \<le> length b"
  by (simp add: trim_end_def Let_def)

lemma tok_scan: "adv_ok enc (trim_end enc b ptr) ptr r \<Longrightarrow> tok_ok b ptr r"
  using length_trim_end [of enc b ptr]
  by (cases r; cases "snd r") (auto simp: aligned_def)

lemma tok_call:
  "returns (scan_ok enc (trim_end enc b ptr) p) m \<Longrightarrow> ptr < p \<Longrightarrow> returns (tok_ok b ptr) m"
  by (erule returns_mono) (auto intro: tok_scan scan_adv)

lemma aligned_trim:
  assumes "ptr \<le> length b"
  shows "aligned enc (trim_end enc b ptr) ptr"
proof -
  define n m where "n = length b - ptr" and "m = MINBPC enc"
  have d: "m dvd n - n mod m" by (rule dvd_minus_mod)
  have "length (trim_end enc b ptr) = ptr + (n - n mod m)"
    using MINBPC_cases [of enc] assms by (auto simp: trim_end_def Let_def n_def m_def)
  then have "ptr \<le> length (trim_end enc b ptr)" and "length (trim_end enc b ptr) - ptr = n - n mod m"
    by (metis le_add1, metis add_diff_cancel_left')
  with d show ?thesis by (simp add: aligned_def m_def)
qed

context scanner_encoding
begin

lemma aligned_le: "aligned enc b p \<Longrightarrow> p \<noteq> length b \<Longrightarrow> p + MINBPC enc \<le> length b"
  using aligned_step [of enc b p] by (simp add: aligned_def)

lemma scan_induct [consumes 1, case_names step]:
  assumes "aligned enc b ptr"
    and "\<And>ptr. aligned enc b ptr \<Longrightarrow> (\<And>p. ptr < p \<Longrightarrow> aligned enc b p \<Longrightarrow> P p) \<Longrightarrow> P ptr"
  shows "P ptr"
  using assms(1)
proof (induction "length b - ptr" arbitrary: ptr rule: less_induct)
  case less
  show ?case
    by (rule assms(2) [OF less.prems]) (auto intro!: less.hyps simp: aligned_def)
qed

lemma returns_BYTE_TYPE:
  "aligned enc b p \<Longrightarrow> p \<noteq> length b \<Longrightarrow> (\<And>t. BYTE_TYPE enc b p = Some t \<Longrightarrow> Q t) \<Longrightarrow>
    returns Q (BYTE_TYPE enc b p)"
  using aligned_le [of b p] by (auto simp: returns_def BYTE_TYPE_def)

lemma returns_CHAR_MATCHES:
  "aligned enc b p \<Longrightarrow> p \<noteq> length b \<Longrightarrow> (\<And>m. Q m) \<Longrightarrow> returns Q (CHAR_MATCHES enc b p c)"
  using aligned_le [of b p] by (auto simp: returns_def CHAR_MATCHES_def)

lemma returns_BYTE_TO_ASCII:
  "aligned enc b p \<Longrightarrow> p \<noteq> length b \<Longrightarrow> (\<And>c. Q c) \<Longrightarrow> returns Q (BYTE_TO_ASCII enc b p)"
  using aligned_le [of b p] by (auto simp: returns_def BYTE_TO_ASCII_def)

lemma returns_MINBPC_tests:
  "aligned enc b p \<Longrightarrow> p \<noteq> length b \<Longrightarrow> (\<And>m. Q m) \<Longrightarrow> returns Q (IS_NAME_CHAR_MINBPC enc b p)"
  "aligned enc b p \<Longrightarrow> p \<noteq> length b \<Longrightarrow> (\<And>m. Q m) \<Longrightarrow> returns Q (IS_NMSTRT_CHAR_MINBPC enc b p)"
  using aligned_le [of b p]
  by (auto simp: returns_def IS_NAME_CHAR_MINBPC_def IS_NMSTRT_CHAR_MINBPC_def ucs2_test_def)

text \<open>A lead byte type stands for a complete test, and its length keeps the alignment.\<close>

lemma lead_present:
  assumes "BYTE_TYPE enc b p = Some t" and "lead_len t = n" and "n \<noteq> 0" and "p + n \<le> length b"
  shows "\<exists>x. IS_NAME_CHAR enc b p n = Some x" and "\<exists>x. IS_NMSTRT_CHAR enc b p n = Some x"
    and "\<exists>x. IS_INVALID_CHAR enc b p n = Some x"
proof -
  have "t \<in> set (type_tab enc)" if "prefix enc = Normal"
    using assms(1) that type_total byte_less_256 [of "b ! p"]
    by (auto simp: BYTE_TYPE_def SB_BYTE_TYPE_def split: if_splits)
  then have "prefix enc = Normal \<Longrightarrow> isName enc n \<noteq> None \<and> isNmstrt enc n \<noteq> None \<and> isInvalid enc n \<noteq> None"
    using lead_tests [of t] assms(2,3) by simp
  then show "\<exists>x. IS_NAME_CHAR enc b p n = Some x" "\<exists>x. IS_NMSTRT_CHAR enc b p n = Some x"
    "\<exists>x. IS_INVALID_CHAR enc b p n = Some x"
    using assms(4)
    by (auto simp: IS_NAME_CHAR_def IS_NMSTRT_CHAR_def IS_INVALID_CHAR_def call_test_def)
qed

lemma lead_aligned:
  assumes "BYTE_TYPE enc b p = Some t" and "lead_len t = n" and "n \<noteq> 0"
    and "aligned enc b p" and "p + n \<le> length b"
  shows "aligned enc b (p + n)"
proof (cases "prefix enc = Normal")
  case True
  then show ?thesis using assms(5) by (simp add: aligned_def MINBPC_def)
next
  case False
  have nt: "type_tab enc ! unat c \<noteq> BT_LEAD2" "type_tab enc ! unat c \<noteq> BT_LEAD3" for c :: byte
    using wide_no_lead [OF False, of "type_tab enc ! unat c"] type_total byte_less_256 [of c]
    by (auto simp: lead_len_def split: if_splits)
  have "t = BT_LEAD4"
    using assms(1-3) nt False
    by (cases "prefix enc")
      (auto simp: BYTE_TYPE_def LITTLE2_BYTE_TYPE_def BIG2_BYTE_TYPE_def unicode_byte_type_def
        lead_len_def split: if_splits)
  then have "n = 4" using assms(2) by (simp add: lead_len_def)
  moreover have "MINBPC enc = 2" using False by (cases "prefix enc") (auto simp: MINBPC_def)
  ultimately show ?thesis using assms(4,5) by (auto simp: aligned_def)
qed


lemma lead_call:
  assumes "BYTE_TYPE enc b p = Some t" and "lead_len t = n" and "n \<noteq> 0" and "aligned enc b p"
    and "\<not> length b - p < n"
  shows "(\<And>x. aligned enc b (p + n) \<Longrightarrow> Q x) \<Longrightarrow> returns Q (IS_NAME_CHAR enc b p n)"
    and "(\<And>x. aligned enc b (p + n) \<Longrightarrow> Q x) \<Longrightarrow> returns Q (IS_NMSTRT_CHAR enc b p n)"
    and "(\<And>x. aligned enc b (p + n) \<Longrightarrow> Q x) \<Longrightarrow> returns Q (IS_INVALID_CHAR enc b p n)"
proof -
  have le: "p + n \<le> length b" using assms(4,5) by (auto simp: aligned_def)
  note al = lead_aligned [OF assms(1-4) le] and ex = lead_present [OF assms(1-3) le]
  show "returns Q (IS_NAME_CHAR enc b p n)" if "\<And>x. aligned enc b (p + n) \<Longrightarrow> Q x"
    using that [OF al] ex(1) by (auto simp: returns_def)
  show "returns Q (IS_NMSTRT_CHAR enc b p n)" if "\<And>x. aligned enc b (p + n) \<Longrightarrow> Q x"
    using that [OF al] ex(2) by (auto simp: returns_def)
  show "returns Q (IS_INVALID_CHAR enc b p n)" if "\<And>x. aligned enc b (p + n) \<Longrightarrow> Q x"
    using that [OF al] ex(3) by (auto simp: returns_def)
qed

lemma BYTE_TYPE_inside:
  "BYTE_TYPE enc b p = Some t \<Longrightarrow> aligned enc b p \<Longrightarrow> aligned enc b (p + MINBPC enc)"
  "BYTE_TYPE enc b p = Some t \<Longrightarrow> p \<noteq> length b"
  using BYTE_TYPE_Some_less [of enc b p t] aligned_step [of enc b p] by auto

text \<open>The switch macros never fault on a byte type that was read, and leave aligned pointers.\<close>

lemma returns_switch:
  assumes t: "BYTE_TYPE enc b p = Some t" and al: "aligned enc b p"
    and brk: "\<And>q. p < q \<Longrightarrow> aligned enc b q \<Longrightarrow> Q (Brk q)"
    and rtn: "\<And>r. scan_ok enc b p r \<Longrightarrow> Q (Rtn r)"
    and no: "Q NoCase"
  shows "returns Q (INVALID_CASES enc b p t)" "returns Q (CHECK_NAME_CASES enc b p t)"
    "returns Q (CHECK_NMSTRT_CASES enc b p t)" "returns Q (LEAD_CASES_data enc b p t)"
proof -
  note call = lead_call [OF t _ _ al]
  note mb = returns_MINBPC_tests [OF al BYTE_TYPE_inside(2) [OF t]]
  note st = BYTE_TYPE_inside(1) [OF t al]
  show "returns Q (INVALID_CASES enc b p t)"
    using al by (auto simp: INVALID_CASES_def INVALID_LEAD_CASE_def lead_len_def
        intro!: call(3) brk rtn no)
  show "returns Q (CHECK_NAME_CASES enc b p t)"
    using al st by (auto simp: CHECK_NAME_CASES_def CHECK_NAME_CASE_def lead_len_def
        intro!: call(1) mb brk rtn no)
  show "returns Q (CHECK_NMSTRT_CASES enc b p t)"
    using al st by (auto simp: CHECK_NMSTRT_CASES_def CHECK_NMSTRT_CASE_def lead_len_def
        intro!: call(2) mb brk rtn no)
  show "returns Q (LEAD_CASES_data enc b p t)"
    using al by (auto simp: LEAD_CASES_data_def LEAD_CASE_data_def lead_len_def
        intro!: call(3) brk rtn no)
qed

lemmas scan_simps = Let_def aligned_step aligned_steps

lemmas scan_intros = returns_BYTE_TYPE returns_CHAR_MATCHES returns_BYTE_TO_ASCII
  returns_MINBPC_tests returns_switch

lemma scanComment_loop_ok:
  assumes "aligned enc b ptr"
  shows "returns (scan_ok enc b ptr) (scanComment_loop enc b ptr)"
  using assms
proof (induction rule: scan_induct)
  case (step ptr)
  note IH = scan_call [OF step.IH less_imp_le]
  show ?case
    using step.hyps by (auto simp: scanComment_loop.simps [of enc b ptr] scan_simps
        intro!: scan_intros IH)
qed

lemma scanComment_ok:
  "aligned enc b ptr \<Longrightarrow> returns (scan_ok enc b ptr) (scanComment enc b ptr)"
  by (auto simp: scanComment_def scan_simps intro!: scan_intros scan_call [OF scanComment_loop_ok])

lemma scanDecl_loop_ok:
  assumes "aligned enc b ptr"
  shows "returns (scan_ok enc b ptr) (scanDecl_loop enc b ptr)"
  using assms
proof (induction rule: scan_induct)
  case (step ptr)
  note IH = scan_call [OF step.IH less_imp_le]
  show ?case
    using step.hyps by (auto simp: scanDecl_loop.simps [of enc b ptr] scan_simps
        intro!: scan_intros IH)
qed

lemma scanDecl_ok:
  "aligned enc b ptr \<Longrightarrow> returns (scan_ok enc b ptr) (scanDecl enc b ptr)"
  by (auto simp: scanDecl_def scan_simps intro!: scan_intros scan_call [OF scanComment_ok] scan_call [OF scanDecl_loop_ok])

lemma returns_BYTE_TO_ASCII_le:
  "p + MINBPC enc \<le> length b \<Longrightarrow> (\<And>c. Q c) \<Longrightarrow> returns Q (BYTE_TO_ASCII enc b p)"
  by (auto simp: returns_def BYTE_TO_ASCII_def)

lemma checkPiTarget_ok:
  assumes "target \<le> e" and "e \<le> length b" and Q: "\<And>ok tok. 0 \<le> tok \<Longrightarrow> Q (ok, tok)"
  shows "returns Q (checkPiTarget enc b target e)"
proof (cases "e - target = MINBPC enc * 3")
  case True
  with assms(1,2) have "target + MINBPC enc \<le> length b" "target + MINBPC enc + MINBPC enc \<le> length b"
    "target + 2 * MINBPC enc + MINBPC enc \<le> length b" by simp_all
  with True show ?thesis
    by (simp add: checkPiTarget_def Q returns_BYTE_TO_ASCII_le)
qed (simp add: checkPiTarget_def Q)

lemma scanPi_data_ok:
  assumes "aligned enc b ptr" and "0 \<le> tok"
  shows "returns (scan_ok enc b ptr) (scanPi_data enc b tok ptr)"
  using assms
proof (induction rule: scan_induct)
  case (step ptr)
  note IH = scan_call [OF step.IH less_imp_le]
  show ?case
    using step.hyps step.prems by (auto simp: scanPi_data.simps [of enc b tok ptr] scan_simps
        intro!: scan_intros IH)
qed

lemma scanPi_loop_ok:
  assumes "aligned enc b ptr" and "target \<le> ptr"
  shows "returns (scan_ok enc b ptr) (scanPi_loop enc b target ptr)"
  using assms
proof (induction rule: scan_induct)
  case (step ptr)
  note IH = scan_call [OF step.IH less_imp_le]
  have "ptr \<le> length b" using step.hyps by (simp add: aligned_def)
  then show ?case
    using step.hyps step.prems by (auto simp: scanPi_loop.simps [of enc b target ptr] scan_simps
        intro!: scan_intros IH checkPiTarget_ok scan_call [OF scanPi_data_ok])
qed

lemma scanPi_ok:
  "aligned enc b ptr \<Longrightarrow> returns (scan_ok enc b ptr) (scanPi enc b ptr)"
  by (auto simp: scanPi_def scan_simps intro!: scan_intros scan_call [OF scanPi_loop_ok])

lemma scanCdataSection_loop_ok:
  assumes "aligned enc b ptr" and "length cs * MINBPC enc \<le> length b - ptr"
  shows "returns (scan_ok enc b ptr) (scanCdataSection_loop enc b cs ptr)"
  using assms
proof (induction cs arbitrary: ptr)
  case (Cons c cs)
  then have ne: "ptr \<noteq> length b" by auto
  then show ?case
    using Cons.prems by (auto simp: scan_simps intro!: scan_intros scan_call [OF Cons.IH])
qed simp

lemma scanCdataSection_ok:
  "aligned enc b ptr \<Longrightarrow> returns (scan_ok enc b ptr) (scanCdataSection enc b ptr)"
  unfolding scanCdataSection_def
  by (simp, intro impI scanCdataSection_loop_ok) (simp_all add: CDATA_LSQB_def)

lemma cdataSectionTok_loop_ok:
  assumes "aligned enc b ptr"
  shows "returns (scan_ok enc b ptr) (cdataSectionTok_loop enc b ptr)"
  using assms
proof (induction rule: scan_induct)
  case (step ptr)
  note IH = scan_call [OF step.IH less_imp_le]
  show ?case
    using step.hyps by (auto simp: cdataSectionTok_loop.simps [of enc b ptr] scan_simps
        intro!: scan_intros IH)
qed

lemma scanEndTag_space_ok:
  assumes "aligned enc b ptr"
  shows "returns (scan_ok enc b ptr) (scanEndTag_space enc b ptr)"
  using assms
proof (induction rule: scan_induct)
  case (step ptr)
  note IH = scan_call [OF step.IH less_imp_le]
  show ?case
    using step.hyps by (auto simp: scanEndTag_space.simps [of enc b ptr] scan_simps
        intro!: scan_intros IH)
qed

lemma scanEndTag_loop_ok:
  assumes "aligned enc b ptr"
  shows "returns (scan_ok enc b ptr) (scanEndTag_loop enc b ptr)"
  using assms
proof (induction rule: scan_induct)
  case (step ptr)
  note IH = scan_call [OF step.IH less_imp_le]
  show ?case
    using step.hyps by (auto simp: scanEndTag_loop.simps [of enc b ptr] scan_simps
        intro!: scan_intros IH scan_call [OF scanEndTag_space_ok])
qed

lemma scanEndTag_ok:
  "aligned enc b ptr \<Longrightarrow> returns (scan_ok enc b ptr) (scanEndTag enc b ptr)"
  by (auto simp: scanEndTag_def scan_simps intro!: scan_intros scan_call [OF scanEndTag_loop_ok])

lemma scanHexCharRef_loop_ok:
  assumes "aligned enc b ptr"
  shows "returns (scan_ok enc b ptr) (scanHexCharRef_loop enc b ptr)"
  using assms
proof (induction rule: scan_induct)
  case (step ptr)
  note IH = scan_call [OF step.IH less_imp_le]
  show ?case
    using step.hyps by (auto simp: scanHexCharRef_loop.simps [of enc b ptr] scan_simps
        intro!: scan_intros IH)
qed

lemma scanHexCharRef_ok:
  "aligned enc b ptr \<Longrightarrow> returns (scan_ok enc b ptr) (scanHexCharRef enc b ptr)"
  by (auto simp: scanHexCharRef_def scan_simps intro!: scan_intros scan_call [OF scanHexCharRef_loop_ok])

lemma scanCharRef_loop_ok:
  assumes "aligned enc b ptr"
  shows "returns (scan_ok enc b ptr) (scanCharRef_loop enc b ptr)"
  using assms
proof (induction rule: scan_induct)
  case (step ptr)
  note IH = scan_call [OF step.IH less_imp_le]
  show ?case
    using step.hyps by (auto simp: scanCharRef_loop.simps [of enc b ptr] scan_simps
        intro!: scan_intros IH)
qed

lemma scanCharRef_ok:
  "aligned enc b ptr \<Longrightarrow> returns (scan_ok enc b ptr) (scanCharRef enc b ptr)"
  by (auto simp: scanCharRef_def scan_simps intro!: scan_intros scan_call [OF scanCharRef_loop_ok] scan_call [OF scanHexCharRef_ok])

lemma scanRef_loop_ok:
  assumes "aligned enc b ptr"
  shows "returns (scan_ok enc b ptr) (scanRef_loop enc b ptr)"
  using assms
proof (induction rule: scan_induct)
  case (step ptr)
  note IH = scan_call [OF step.IH less_imp_le]
  show ?case
    using step.hyps by (auto simp: scanRef_loop.simps [of enc b ptr] scan_simps
        intro!: scan_intros IH)
qed

lemma scanRef_ok:
  "aligned enc b ptr \<Longrightarrow> returns (scan_ok enc b ptr) (scanRef enc b ptr)"
  by (auto simp: scanRef_def scan_simps intro!: scan_intros scan_call [OF scanRef_loop_ok] scan_call [OF scanCharRef_ok])

lemma scanAtts_eq_ok:
  assumes "aligned enc b ptr" and "ptr \<noteq> length b"
  shows "returns (value_ok enc b ptr) (scanAtts_eq enc b ptr)"
  using assms
proof (induction rule: scan_induct)
  case (step ptr)
  note IH = value_call [OF step.IH less_imp_le]
  show ?case
    using step.hyps step.prems by (auto simp: scanAtts_eq.simps [of enc b ptr] scan_simps
        intro!: scan_intros IH)
qed

lemma scanAtts_open_ok:
  assumes "aligned enc b ptr" and "ptr \<noteq> length b"
  shows "returns (open_ok enc b ptr) (scanAtts_open enc b ptr)"
  using assms
proof (induction rule: scan_induct)
  case (step ptr)
  note IH = open_call [OF step.IH less_imp_le]
  show ?case
    using step.hyps step.prems by (auto simp: scanAtts_open.simps [of enc b ptr] scan_simps
        intro!: scan_intros IH)
qed

lemma scanAtts_value_ok:
  assumes "aligned enc b ptr"
  shows "returns (value_ok enc b ptr) (scanAtts_value enc b q ptr)"
  using assms
proof (induction rule: scan_induct)
  case (step ptr)
  note IH = value_call [OF step.IH less_imp_le]
  show ?case
    using step.hyps by (auto simp: scanAtts_value.simps [of enc b q ptr] scan_simps
        intro!: scan_intros IH scan_then [OF scanRef_ok] MINBPC_less)
qed

lemma scanAtts_sol_ok:
  "aligned enc b ptr \<Longrightarrow> ptr \<noteq> length b \<Longrightarrow> returns (scan_ok enc b ptr) (scanAtts_sol enc b ptr)"
  by (auto simp: scanAtts_sol_def scan_simps intro!: scan_intros)

lemma scanAtts_next_ok:
  assumes "aligned enc b ptr" and "ptr \<noteq> length b"
  shows "returns (step_ok enc b ptr) (scanAtts_next enc b ptr)"
  using assms
proof (induction rule: scan_induct)
  case (step ptr)
  note IH = step_call [OF step.IH less_imp_le]
  show ?case
    using step.hyps step.prems by (auto simp: scanAtts_next.simps [of enc b ptr] scan_simps
        intro!: scan_intros IH scan_then [OF scanAtts_sol_ok] elim!: scan_ok_mono)
qed

lemma scanAtts_close_ok:
  "aligned enc b ptr \<Longrightarrow> ptr \<noteq> length b \<Longrightarrow> returns (step_ok enc b ptr) (scanAtts_close enc b ptr)"
  by (auto simp: scanAtts_close_def scan_simps intro!: scan_intros step_call [OF scanAtts_next_ok]
      scan_then [OF scanAtts_sol_ok])

lemma scanAtts_attr_ok:
  "aligned enc b ptr \<Longrightarrow> ptr \<noteq> length b \<Longrightarrow> returns (step_ok enc b ptr) (scanAtts_attr enc b ptr)"
  by (auto simp: scanAtts_attr_def scan_simps intro!: open_then [OF scanAtts_open_ok]
      value_then [OF scanAtts_value_ok] step_call [OF scanAtts_close_ok] elim!: scan_ok_mono)

lemma scanAtts_ok:
  assumes "aligned enc b ptr"
  shows "returns (scan_ok enc b ptr) (scanAtts enc b hadColon ptr)"
  using assms
proof (induction arbitrary: hadColon rule: scan_induct)
  case (step ptr)
  note IH = scan_call [OF step.IH less_imp_le]
  show ?case
    using step.hyps by (auto simp: scanAtts.simps [of enc b hadColon ptr] scan_simps
        intro!: scan_intros IH value_then [OF scanAtts_eq_ok] step_then [OF scanAtts_attr_ok]
          elim!: scan_ok_mono)
qed

lemma scanLt_sol_ok:
  "aligned enc b ptr \<Longrightarrow> ptr \<noteq> length b \<Longrightarrow> returns (scan_ok enc b ptr) (scanLt_sol enc b ptr)"
  by (auto simp: scanLt_sol_def scan_simps intro!: scan_intros )

lemma scanLt_space_ok:
  assumes "aligned enc b ptr"
  shows "returns (scan_ok enc b ptr) (scanLt_space enc b ptr)"
  using assms
proof (induction rule: scan_induct)
  case (step ptr)
  note IH = scan_call [OF step.IH less_imp_le]
  show ?case
    using step.hyps by (auto simp: scanLt_space.simps [of enc b ptr] scan_simps
        intro!: scan_intros IH scan_call [OF scanAtts_ok] scan_call [OF scanLt_sol_ok])
qed

lemma scanLt_loop_ok:
  assumes "aligned enc b ptr"
  shows "returns (scan_ok enc b ptr) (scanLt_loop enc b hadColon ptr)"
  using assms
proof (induction arbitrary: hadColon rule: scan_induct)
  case (step ptr)
  note IH = scan_call [OF step.IH less_imp_le]
  show ?case
    using step.hyps by (auto simp: scanLt_loop.simps [of enc b hadColon ptr] scan_simps
        intro!: scan_intros IH scan_call [OF scanLt_space_ok] scan_call [OF scanLt_sol_ok]
          elim!: scan_ok_mono)
qed

lemma scanLt_ok:
  "aligned enc b ptr \<Longrightarrow> returns (scan_ok enc b ptr) (scanLt enc b ptr)"
  by (auto simp: scanLt_def scan_simps intro!: scan_intros scan_call [OF scanLt_loop_ok] scan_call [OF scanComment_ok] scan_call [OF scanCdataSection_ok] scan_call [OF scanPi_ok] scan_call [OF scanEndTag_ok])

lemma INVALID_CASES_adv:
  assumes "BYTE_TYPE enc b p = Some t" and "aligned enc b p"
    and "\<And>q. p < q \<Longrightarrow> aligned enc b q \<Longrightarrow> Q (Brk q)"
    and "\<And>r. adv_ok enc b p r \<Longrightarrow> Q (Rtn r)"
    and "Q NoCase"
  shows "returns Q (INVALID_CASES enc b p t)"
proof -
  have "returns (\<lambda>s. s = NoCase \<or> (\<exists>q. s = Brk q \<and> p < q \<and> aligned enc b q) \<or>
      (\<exists>r. s = Rtn r \<and> scan_ok enc b p r)) (INVALID_CASES enc b p t)"
    by (rule returns_switch(1) [OF assms(1,2)]) auto
  then show ?thesis
    by (rule returns_mono) (use assms(3-5) switch_Rtn_pos(1) in \<open>auto simp: adv_ok_def\<close>)
qed

lemma cdataSectionTok_switch_ok:
  "aligned enc b ptr \<Longrightarrow> ptr \<noteq> length b \<Longrightarrow>
    returns (step_adv enc b ptr) (cdataSectionTok_switch enc b ptr)"
  by (auto simp: cdataSectionTok_switch_def scan_simps
      intro!: returns_BYTE_TYPE returns_CHAR_MATCHES INVALID_CASES_adv)

lemma contentTok_switch_ok:
  "aligned enc b ptr \<Longrightarrow> ptr \<noteq> length b \<Longrightarrow>
    returns (step_adv enc b ptr) (contentTok_switch enc b ptr)"
  by (auto simp: contentTok_switch_def scan_simps
      intro!: returns_BYTE_TYPE returns_CHAR_MATCHES INVALID_CASES_adv
        adv_call [OF scanLt_ok] adv_call [OF scanRef_ok])

lemma contentTok_rsqb_ok:
  "aligned enc b ptr \<Longrightarrow> ptr \<noteq> length b \<Longrightarrow>
    returns (step_ok enc b ptr) (contentTok_rsqb enc b ptr)"
  by (auto simp: contentTok_rsqb_def scan_simps intro!: scan_intros)

lemma contentTok_loop_ok:
  assumes "aligned enc b ptr"
  shows "returns (scan_ok enc b ptr) (contentTok_loop enc b ptr)"
  using assms
proof (induction rule: scan_induct)
  case (step ptr)
  note IH = scan_call [OF step.IH less_imp_le]
  show ?case
    using step.hyps by (auto simp: contentTok_loop.simps [of enc b ptr] scan_simps
        intro!: scan_intros IH step_then [OF contentTok_rsqb_ok])
qed

lemma scanPercent_loop_ok:
  assumes "aligned enc b ptr"
  shows "returns (scan_ok enc b ptr) (scanPercent_loop enc b ptr)"
  using assms
proof (induction rule: scan_induct)
  case (step ptr)
  note IH = scan_call [OF step.IH less_imp_le]
  show ?case
    using step.hyps by (auto simp: scanPercent_loop.simps [of enc b ptr] scan_simps
        intro!: scan_intros IH)
qed

lemma scanPercent_ok:
  "aligned enc b ptr \<Longrightarrow> returns (scan_ok enc b ptr) (scanPercent enc b ptr)"
  by (auto simp: scanPercent_def scan_simps intro!: scan_intros scan_call [OF scanPercent_loop_ok])

lemma scanPoundName_loop_ok:
  assumes "aligned enc b ptr"
  shows "returns (scan_ok enc b ptr) (scanPoundName_loop enc b ptr)"
  using assms
proof (induction rule: scan_induct)
  case (step ptr)
  note IH = scan_call [OF step.IH less_imp_le]
  show ?case
    using step.hyps by (auto simp: scanPoundName_loop.simps [of enc b ptr] scan_simps
        intro!: scan_intros IH)
qed

lemma scanPoundName_ok:
  "aligned enc b ptr \<Longrightarrow> returns (scan_ok enc b ptr) (scanPoundName enc b ptr)"
  by (auto simp: scanPoundName_def scan_simps intro!: scan_intros scan_call [OF scanPoundName_loop_ok])

lemma scanLit_ok:
  assumes "aligned enc b ptr"
  shows "returns (scan_ok enc b ptr) (scanLit q enc b ptr)"
  using assms
proof (induction arbitrary: q rule: scan_induct)
  case (step ptr)
  note IH = scan_call [OF step.IH less_imp_le]
  show ?case
    using step.hyps by (auto simp: scanLit.simps [of q enc b ptr] scan_simps
        intro!: scan_intros IH)
qed

lemma ignoreSectionTok_loop_ok:
  assumes "aligned enc b ptr"
  shows "returns (adv_ok enc b ptr) (ignoreSectionTok_loop enc b level ptr)"
  using assms
proof (induction arbitrary: level rule: scan_induct)
  case (step ptr)
  have IH: "ptr < p \<Longrightarrow> aligned enc b p \<Longrightarrow>
      returns (adv_ok enc b ptr) (ignoreSectionTok_loop enc b level p)" for p level
    by (rule returns_mono [OF step.IH]) (auto intro: adv_mono)
  show ?case
    using step.hyps by (auto simp: ignoreSectionTok_loop.simps [of enc b level ptr] scan_simps
        intro!: returns_BYTE_TYPE returns_CHAR_MATCHES INVALID_CASES_adv IH)
qed

lemma prologTok_space_ok:
  assumes "aligned enc b ptr" and "ptr \<noteq> length b"
  shows "returns (adv_ok enc b ptr) (prologTok_space enc b ptr)"
  using assms
proof (induction rule: scan_induct)
  case (step ptr)
  have IH: "ptr < p \<Longrightarrow> aligned enc b p \<Longrightarrow> p \<noteq> length b \<Longrightarrow>
      returns (adv_ok enc b ptr) (prologTok_space enc b p)" for p
    by (rule returns_mono [OF step.IH]) (auto intro: adv_mono)
  show ?case
    using step.hyps step.prems by (auto simp: prologTok_space.simps [of enc b ptr] scan_simps
        intro!: scan_intros IH)
qed

lemma prologTok_name_ok:
  assumes "aligned enc b ptr" and "0 < tok"
  shows "returns (scan_ok enc b ptr) (prologTok_name enc b tok ptr)"
  using assms
proof (induction arbitrary: tok rule: scan_induct)
  case (step ptr)
  note IH = scan_call [OF step.IH less_imp_le]
  show ?case
    using step.hyps step.prems by (auto simp: prologTok_name.simps [of enc b tok ptr] scan_simps
        intro!: scan_intros IH elim!: scan_ok_mono)
qed

lemma prologTok_lead_ok:
  assumes "BYTE_TYPE enc b ptr = Some t" and "lead_len t = n" and "n \<noteq> 0" and "aligned enc b ptr"
  shows "returns (adv_ok enc b ptr) (prologTok_lead n enc b ptr)"
  using assms(3,4)
  by (auto simp: prologTok_lead_def
      intro!: lead_call [OF assms] adv_call [OF prologTok_name_ok])

lemma prologTok_lt_ok:
  "aligned enc b ptr \<Longrightarrow> ptr \<noteq> length b \<Longrightarrow> returns (prolog_ok enc b ptr) (prologTok_lt enc b ptr)"
  by (auto simp: prologTok_lt_def scan_simps prolog_ok_def intro!: scan_intros prolog_call adv_call [OF scanDecl_ok] adv_call [OF scanPi_ok])

lemma prologTok_rsqb_ok:
  assumes "aligned enc b ptr" and "ptr \<noteq> length b"
  shows "returns (adv_ok enc b ptr) (prologTok_rsqb enc b ptr)"
proof -
  have "ptr + MINBPC enc \<noteq> length b \<Longrightarrow> ptr + MINBPC enc + MINBPC enc \<noteq> length b \<Longrightarrow>
      aligned enc b (ptr + MINBPC enc + 2 * MINBPC enc)"
    using aligned_steps(1) [of enc b "ptr + MINBPC enc"] aligned_step [OF assms] by simp
  then show ?thesis
    using assms by (auto simp: prologTok_rsqb_def scan_simps intro!: scan_intros)
qed

lemma prologTok_rpar_ok:
  "aligned enc b ptr \<Longrightarrow> ptr \<noteq> length b \<Longrightarrow> returns (adv_ok enc b ptr) (prologTok_rpar enc b ptr)"
  by (auto simp: prologTok_rpar_def scan_simps intro!: scan_intros )

lemma prologTok_nonascii_ok:
  "aligned enc b ptr \<Longrightarrow> ptr \<noteq> length b \<Longrightarrow> returns (adv_ok enc b ptr) (prologTok_nonascii enc b ptr)"
  by (auto simp: prologTok_nonascii_def scan_simps intro!: scan_intros adv_call [OF prologTok_name_ok])

lemma prologTok_switch_ok:
  assumes "aligned enc b ptr" and "ptr \<noteq> length b"
  shows "returns (prolog_ok enc b ptr) (prologTok_switch enc b ptr)"
  using assms
  by (auto simp: prologTok_switch_def scan_simps prolog_ok_def lead_len_def
      intro!: returns_BYTE_TYPE prologTok_lt_ok prolog_call [OF prologTok_lead_ok]
        prolog_call [OF prologTok_space_ok] prolog_call [OF prologTok_rsqb_ok]
        prolog_call [OF prologTok_rpar_ok] prolog_call [OF prologTok_nonascii_ok]
        prolog_call [OF adv_call [OF scanLit_ok]] prolog_call [OF adv_call [OF scanPercent_ok]]
        prolog_call [OF adv_call [OF scanPoundName_ok]]
        prolog_call [OF adv_call [OF prologTok_name_ok]])

text \<open>The top-level scanners: on any buffer and any pointer into it they return.\<close>

lemma contentTok_safe:
  assumes "ptr \<le> length b"
  shows "returns (tok_ok b ptr) (contentTok enc b ptr)"
proof -
  have al: "aligned enc (trim_end enc b ptr) ptr" by (rule aligned_trim [OF assms])
  show ?thesis
    using al by (auto simp: contentTok_def Let_def
        intro!: step_adv_then [OF contentTok_switch_ok] tok_call [OF contentTok_loop_ok] tok_scan)
qed

lemma cdataSectionTok_safe:
  assumes "ptr \<le> length b"
  shows "returns (tok_ok b ptr) (cdataSectionTok enc b ptr)"
proof -
  have al: "aligned enc (trim_end enc b ptr) ptr" by (rule aligned_trim [OF assms])
  show ?thesis
    using al by (auto simp: cdataSectionTok_def Let_def
        intro!: step_adv_then [OF cdataSectionTok_switch_ok] tok_call [OF cdataSectionTok_loop_ok] tok_scan)
qed

lemma ignoreSectionTok_safe:
  assumes "ptr \<le> length b"
  shows "returns (tok_ok b ptr) (ignoreSectionTok enc b ptr)"
  unfolding ignoreSectionTok_def
  by (rule returns_mono [OF ignoreSectionTok_loop_ok [OF aligned_trim [OF assms]]])
    (rule tok_scan)

lemma prologTok_safe:
  assumes "ptr \<le> length b"
  shows "returns (\<lambda>r. tok_ok b ptr r \<or> r = (XML_TOK_INSTANCE_START, Some ptr) \<or>
      r = (- XML_TOK_PROLOG_S, Some (length (trim_end enc b ptr)))) (prologTok enc b ptr)"
proof -
  have al: "aligned enc (trim_end enc b ptr) ptr" by (rule aligned_trim [OF assms])
  show ?thesis
    using al by (auto simp: prologTok_def Let_def prolog_ok_def
        intro!: returns_mono [OF prologTok_switch_ok] tok_scan)
qed

end

section \<open>The encoding objects of xmltok.c\<close>

lemma no_lead_tabs:
  "t \<in> set (colon_tab ns asciitab) \<Longrightarrow> lead_len t = 0"
  "t \<in> set (colon_tab ns iasciitab) \<Longrightarrow> lead_len t = 0"
  "t \<in> set latin1tab \<Longrightarrow> lead_len t = 0"
  "lead_len BT_NONXML = 0"
  using ascii_tabs_no_lead(1) [of ns] ascii_tabs_no_lead(2) [of ns] ascii_tabs_no_lead(3)
  by (auto simp: list_all_iff lead_len_def)

lemmas encoding_laws = encoding_defs no_lead_tabs utf8_tests_present

interpretation utf8: scanner_encoding "utf8_encoding ns" for ns
  by unfold_locales (use utf8_tests_present in \<open>auto simp: encoding_defs\<close>)

interpretation internal_utf8: scanner_encoding "internal_utf8_encoding ns" for ns
  by unfold_locales (use utf8_tests_present in \<open>auto simp: encoding_defs\<close>)

interpretation latin1: scanner_encoding "latin1_encoding ns" for ns
  by unfold_locales (auto simp: encoding_laws)

interpretation ascii: scanner_encoding "ascii_encoding ns" for ns
  by unfold_locales (auto simp: encoding_laws)

interpretation little2: scanner_encoding "little2_encoding ns" for ns
  by unfold_locales (auto simp: encoding_laws)

interpretation internal_little2: scanner_encoding "internal_little2_encoding ns" for ns
  by unfold_locales (auto simp: encoding_laws)

interpretation big2: scanner_encoding "big2_encoding ns" for ns
  by unfold_locales (auto simp: encoding_laws)

definition builtin_encodings :: "bool \<Rightarrow> encoding list" where
  "builtin_encodings ns = [utf8_encoding ns, internal_utf8_encoding ns, latin1_encoding ns,
     ascii_encoding ns, little2_encoding ns, internal_little2_encoding ns, big2_encoding ns]"

lemma builtin_scanner_encoding: "enc \<in> set (builtin_encodings ns) \<Longrightarrow> scanner_encoding enc"
  by (auto simp: builtin_encodings_def intro: utf8.scanner_encoding_axioms
      internal_utf8.scanner_encoding_axioms latin1.scanner_encoding_axioms
      ascii.scanner_encoding_axioms little2.scanner_encoding_axioms
      internal_little2.scanner_encoding_axioms big2.scanner_encoding_axioms)

end
