(* ===== verification/Xml_Scan_Props.thy ===== *)
theory Xml_Scan_Props
  imports Xml_Tok_Safety
begin

text \<open>
  The safety of the four top-level scanners, stated for the encoding objects \<^verbatim>\<open>xmltok.c\<close> defines:
  each is obtained from the interpretation of \<open>scanner_encoding\<close> on that object.
\<close>

text \<open>C11: \<open>contentTok\<close>, called on any buffer at any offset inside it, in any of the built-in
  encodings, returns: no byte at or after \<open>end\<close> is read and no null character test is called. A
  token it recognises ends after where it starts and within the buffer, an invalid byte it reports
  lies in the buffer, and a negative code (nothing, a partial token, a partial character, a trailing
  carriage return or bracket) stores no pointer.\<close>

theorem contentTok_total:
  assumes "enc \<in> set (builtin_encodings ns)" and "ptr \<le> length b"
  shows "\<exists>tok nx. contentTok enc b ptr = Some (tok, nx) \<and> tok_ok b ptr (tok, nx)"
  using scanner_encoding.contentTok_safe [OF builtin_scanner_encoding [OF assms(1)] assms(2)]
  by (simp add: returns_prod)

theorem contentTok_total_witness:
  "\<exists>tok nx. contentTok (utf8_encoding True) (ascii ''<a>x'') 0 = Some (tok, nx) \<and>
     tok_ok (ascii ''<a>x'') 0 (tok, nx)"
  by (rule contentTok_total [of _ True]) (simp_all add: builtin_encodings_def)

text \<open>C26: \<open>prologTok\<close> returns on any buffer at any offset inside it, in any of the built-in
  encodings, without reading at or past \<open>end\<close>. It moves forward, or reports the start of the
  document instance at the offset it was given, or reports white space that reaches the end of the
  whole characters of the buffer.\<close>

theorem prologTok_total:
  assumes "enc \<in> set (builtin_encodings ns)" and "ptr \<le> length b"
  shows "\<exists>r. prologTok enc b ptr = Some r \<and>
    (tok_ok b ptr r \<or> r = (XML_TOK_INSTANCE_START, Some ptr) \<or>
     r = (- XML_TOK_PROLOG_S, Some (length (trim_end enc b ptr))))"
  using scanner_encoding.prologTok_safe [OF builtin_scanner_encoding [OF assms(1)] assms(2)]
  by (simp add: returns_def)

theorem prologTok_total_witness:
  "\<exists>r. prologTok (little2_encoding False) (ascii ''<!D'') 1 = Some r \<and>
    (tok_ok (ascii ''<!D'') 1 r \<or> r = (XML_TOK_INSTANCE_START, Some 1) \<or>
     r = (- XML_TOK_PROLOG_S, Some (length (trim_end (little2_encoding False) (ascii ''<!D'') 1))))"
  by (rule prologTok_total [of _ False]) (simp_all add: builtin_encodings_def)

text \<open>Inside a CDATA section and inside an ignored conditional section the scanners
  \<open>cdataSectionTok\<close> and \<open>ignoreSectionTok\<close> return on any buffer at any offset inside it, in any
  of the built-in encodings, without a read outside the buffer, and a token they recognise ends
  after the offset and within the buffer.\<close>

lemma section_scanners_total:
  assumes "enc \<in> set (builtin_encodings ns)" and "ptr \<le> length b"
  shows "(\<exists>r. cdataSectionTok enc b ptr = Some r \<and> tok_ok b ptr r) \<and>
    (\<exists>r. ignoreSectionTok enc b ptr = Some r \<and> tok_ok b ptr r)"
  using scanner_encoding.cdataSectionTok_safe [OF builtin_scanner_encoding [OF assms(1)] assms(2)]
    scanner_encoding.ignoreSectionTok_safe [OF builtin_scanner_encoding [OF assms(1)] assms(2)]
  by (simp add: returns_def)

end
