(* ===== verification/Xml_Names.thy ===== *)
theory Xml_Names
  imports Xml_Prolog_Tok
begin

text \<open>
  The routines of \<^verbatim>\<open>xmltok_impl.c\<close> that look inside a token: attribute collection, character
  references, predefined entities, name comparison and position tracking, with
  \<open>checkCharRefNumber\<close> of \<^verbatim>\<open>xmltok.c\<close>. Those that have no \<open>end\<close> argument in the source run on
  the rest of the buffer, and fault when they leave it.
\<close>

section \<open>Public identifiers\<close>

text \<open>The loop on \<open>[ptr, e)\<close>: \<open>None\<close> inside is acceptance, \<open>Some p\<close> the value of \<open>badPtr\<close>.\<close>

definition isPublicId_char :: "encoding \<Rightarrow> byte list \<Rightarrow> nat \<Rightarrow> bool option" where
  "isPublicId_char enc b ptr = do {
     t \<leftarrow> BYTE_TYPE enc b ptr;
     c \<leftarrow> BYTE_TO_ASCII enc b ptr;
     if t \<in> {BT_DIGIT, BT_HEX, BT_MINUS, BT_APOS, BT_LPAR, BT_RPAR, BT_PLUS, BT_COMMA, BT_SOL,
             BT_EQUALS, BT_QUEST, BT_CR, BT_LF, BT_SEMI, BT_EXCL, BT_AST, BT_PERCNT, BT_NUM,
             BT_COLON}
     then Some True
     else if t = BT_S then map_option Not (CHAR_MATCHES enc b ptr ASCII_TAB)
     else if (t = BT_NAME \<or> t = BT_NMSTRT) \<and> c AND NOT 0x7F = 0 then Some True
     else Some (c = 0x24 \<or> c = 0x40)
   }"

function isPublicId_loop :: "encoding \<Rightarrow> byte list \<Rightarrow> nat \<Rightarrow> nat \<Rightarrow> nat option option" where
  "isPublicId_loop enc b e ptr =
     (if ptr = e then Some None
      else do {
        ok \<leftarrow> isPublicId_char enc b ptr;
        if ok then isPublicId_loop enc b e (ptr + MINBPC enc) else Some (Some ptr)
      })"
  by pat_completeness auto
termination
  by (relation "measure (\<lambda>(enc, b, e, ptr). length b - ptr)")
    (auto simp: isPublicId_char_def dest!: BYTE_TYPE_Some_less intro!: measure_left)

declare isPublicId_loop.simps [simp del]

text \<open>\<open>isPublicId\<close> on the literal in \<open>[ptr, e)\<close>, quotes included.\<close>

definition isPublicId :: "encoding \<Rightarrow> byte list \<Rightarrow> nat \<Rightarrow> nat \<Rightarrow> nat option option" where
  "isPublicId enc b ptr e = isPublicId_loop enc b (e - MINBPC enc) (ptr + MINBPC enc)"

section \<open>Attributes of a start tag\<close>

record attribute =
  name :: nat
  valuePtr :: nat
  valueEnd :: nat
  normalized :: bool

datatype att_state = other | inName | inValue

text \<open>The locals of \<open>getAtts\<close> with the caller's array. A write past the array is a fault.\<close>

record getAtts_locals =
  ga_state :: att_state
  nAtts :: int
  ga_open :: bt
  atts :: "attribute list"

definition with_att ::
    "int \<Rightarrow> (attribute \<Rightarrow> attribute) \<Rightarrow> getAtts_locals \<Rightarrow> getAtts_locals option" where
  "with_att attsMax f g =
     (if nAtts g < attsMax then
        if nat (nAtts g) < length (atts g)
        then Some (g\<lparr>atts := (atts g)[nat (nAtts g) := f (atts g ! nat (nAtts g))]\<rparr>)
        else None
      else Some g)"

definition START_NAME :: "int \<Rightarrow> nat \<Rightarrow> getAtts_locals \<Rightarrow> getAtts_locals option" where
  "START_NAME attsMax ptr g =
     (if ga_state g = other then do {
        g \<leftarrow> with_att attsMax (\<lambda>a. a\<lparr>name := ptr, normalized := True\<rparr>) g;
        Some (g\<lparr>ga_state := inName\<rparr>)
      }
      else Some g)"

definition getAtts_quote ::
    "encoding \<Rightarrow> int \<Rightarrow> nat \<Rightarrow> bt \<Rightarrow> getAtts_locals \<Rightarrow> getAtts_locals option" where
  "getAtts_quote enc attsMax ptr q g =
     (if ga_state g \<noteq> inValue then do {
        g \<leftarrow> with_att attsMax (\<lambda>a. a\<lparr>valuePtr := ptr + MINBPC enc\<rparr>) g;
        Some (g\<lparr>ga_state := inValue, ga_open := q\<rparr>)
      }
      else if ga_open g = q then do {
        g \<leftarrow> with_att attsMax (\<lambda>a. a\<lparr>valueEnd := ptr\<rparr>) g;
        Some (g\<lparr>ga_state := other, nAtts := nAtts g + 1\<rparr>)
      }
      else Some g)"

text \<open>The condition under which white space at \<open>ptr\<close> of a value is not already normalized.\<close>

definition getAtts_unnormalized ::
    "encoding \<Rightarrow> byte list \<Rightarrow> nat \<Rightarrow> bt \<Rightarrow> attribute \<Rightarrow> bool option" where
  "getAtts_unnormalized enc b ptr q a =
     (if \<not> normalized a then Some False
      else if ptr = valuePtr a then Some True
      else do {
        c \<leftarrow> BYTE_TO_ASCII enc b ptr;
        if c \<noteq> 0x20 then Some True
        else do {
          d \<leftarrow> BYTE_TO_ASCII enc b (ptr + MINBPC enc);
          if d = 0x20 then Some True
          else do {
            t \<leftarrow> BYTE_TYPE enc b (ptr + MINBPC enc);
            Some (t = q)
          }
        }
      })"

definition getAtts_space ::
    "encoding \<Rightarrow> byte list \<Rightarrow> int \<Rightarrow> nat \<Rightarrow> getAtts_locals \<Rightarrow> getAtts_locals option" where
  "getAtts_space enc b attsMax ptr g =
     (if ga_state g = inName then Some (g\<lparr>ga_state := other\<rparr>)
      else if ga_state g = inValue \<and> nAtts g < attsMax then
        if nat (nAtts g) < length (atts g) then do {
          u \<leftarrow> getAtts_unnormalized enc b ptr (ga_open g) (atts g ! nat (nAtts g));
          if u then with_att attsMax (\<lambda>a. a\<lparr>normalized := False\<rparr>) g else Some g
        }
        else None
      else Some g)"

definition getAtts_newline :: "int \<Rightarrow> getAtts_locals \<Rightarrow> getAtts_locals option" where
  "getAtts_newline attsMax g =
     (if ga_state g = inName then Some (g\<lparr>ga_state := other\<rparr>)
      else if ga_state g = inValue then with_att attsMax (\<lambda>a. a\<lparr>normalized := False\<rparr>) g
      else Some g)"

text \<open>One round of the switch on the byte type, without the step of the pointer.\<close>

definition getAtts_switch ::
    "encoding \<Rightarrow> byte list \<Rightarrow> int \<Rightarrow> nat \<Rightarrow> bt \<Rightarrow> getAtts_locals \<Rightarrow> getAtts_locals option" where
  "getAtts_switch enc b attsMax ptr t g =
     (if t \<in> {BT_LEAD2, BT_LEAD3, BT_LEAD4, BT_NONASCII, BT_NMSTRT, BT_HEX}
      then START_NAME attsMax ptr g
      else if t = BT_QUOT \<or> t = BT_APOS then getAtts_quote enc attsMax ptr t g
      else if t = BT_AMP then with_att attsMax (\<lambda>a. a\<lparr>normalized := False\<rparr>) g
      else if t = BT_S then getAtts_space enc b attsMax ptr g
      else if t = BT_CR \<or> t = BT_LF then getAtts_newline attsMax g
      else Some g)"

text \<open>The pointer step of a round: \<open>ptr += n - MINBPC(enc)\<close> of a lead byte and the step of the
  \<open>for\<close>.\<close>

definition char_len :: "encoding \<Rightarrow> bt \<Rightarrow> nat" where
  "char_len enc t = (if lead_len t = 0 then MINBPC enc else lead_len t)"

lemma char_len_pos [simp]: "0 < char_len enc t"
  by (simp add: char_len_def)

function getAtts_loop ::
    "encoding \<Rightarrow> byte list \<Rightarrow> int \<Rightarrow> getAtts_locals \<Rightarrow> nat \<Rightarrow> (int \<times> attribute list) option" where
  "getAtts_loop enc b attsMax g ptr = do {
     t \<leftarrow> BYTE_TYPE enc b ptr;
     if (t = BT_GT \<or> t = BT_SOL) \<and> ga_state g \<noteq> inValue then Some (nAtts g, atts g)
     else do {
       g \<leftarrow> getAtts_switch enc b attsMax ptr t g;
       getAtts_loop enc b attsMax g (ptr + char_len enc t)
     }
   }"
  by pat_completeness auto
termination
  by (relation "measure (\<lambda>(enc, b, attsMax, g, ptr). length b - ptr)")
    (auto dest!: BYTE_TYPE_Some_less intro!: measure_left)

declare getAtts_loop.simps [simp del]

definition getAtts ::
    "encoding \<Rightarrow> byte list \<Rightarrow> nat \<Rightarrow> int \<Rightarrow> attribute list \<Rightarrow> (int \<times> attribute list) option" where
  "getAtts enc b ptr attsMax array =
     getAtts_loop enc b attsMax
       \<lparr>ga_state = inName, nAtts = 0, ga_open = BT_NONXML, atts = array\<rparr> (ptr + MINBPC enc)"

section \<open>Character references and predefined entities\<close>

definition checkCharRefNumber :: "int \<Rightarrow> int" where
  "checkCharRefNumber result =
     (let page = drop_bit 8 result in
      if 0xD8 \<le> page \<and> page \<le> 0xDF then -1
      else if page = 0 \<and> type_tab (latin1_encoding False) ! nat result = BT_NONXML then -1
      else if page = 0xFF \<and> (result = 0xFFFE \<or> result = 0xFFFF) then -1
      else result)"

definition hex_digit :: "int \<Rightarrow> int \<Rightarrow> int" where
  "hex_digit result c =
     (if 0x30 \<le> c \<and> c \<le> 0x39 then push_bit 4 result OR (c - 0x30)
      else if 0x41 \<le> c \<and> c \<le> 0x46 then push_bit 4 result + (10 + (c - 0x41))
      else if 0x61 \<le> c \<and> c \<le> 0x66 then push_bit 4 result + (10 + (c - 0x61))
      else result)"

function charRefNumber_hex :: "encoding \<Rightarrow> byte list \<Rightarrow> int \<Rightarrow> nat \<Rightarrow> int option" where
  "charRefNumber_hex enc b result ptr = do {
     semi \<leftarrow> CHAR_MATCHES enc b ptr ASCII_SEMI;
     if semi then Some (checkCharRefNumber result)
     else do {
       c \<leftarrow> BYTE_TO_ASCII enc b ptr;
       if hex_digit result c \<ge> 0x110000 then Some (-1)
       else charRefNumber_hex enc b (hex_digit result c) (ptr + MINBPC enc)
     }
   }"
  by pat_completeness auto
termination
  by (relation "measure (\<lambda>(enc, b, result, ptr). length b - ptr)")
    (auto simp: BYTE_TO_ASCII_def split: if_split_asm dest: MINBPC_less intro!: measure_left)

declare charRefNumber_hex.simps [simp del]

function charRefNumber_dec :: "encoding \<Rightarrow> byte list \<Rightarrow> int \<Rightarrow> nat \<Rightarrow> int option" where
  "charRefNumber_dec enc b result ptr = do {
     semi \<leftarrow> CHAR_MATCHES enc b ptr ASCII_SEMI;
     if semi then Some (checkCharRefNumber result)
     else do {
       c \<leftarrow> BYTE_TO_ASCII enc b ptr;
       if result * 10 + (c - 0x30) \<ge> 0x110000 then Some (-1)
       else charRefNumber_dec enc b (result * 10 + (c - 0x30)) (ptr + MINBPC enc)
     }
   }"
  by pat_completeness auto
termination
  by (relation "measure (\<lambda>(enc, b, result, ptr). length b - ptr)")
    (auto simp: BYTE_TO_ASCII_def split: if_split_asm dest: MINBPC_less intro!: measure_left)

declare charRefNumber_dec.simps [simp del]

definition charRefNumber :: "encoding \<Rightarrow> byte list \<Rightarrow> nat \<Rightarrow> int option" where
  "charRefNumber enc b ptr = do {
     x \<leftarrow> CHAR_MATCHES enc b (ptr + 2 * MINBPC enc) ASCII_x;
     if x then charRefNumber_hex enc b 0 (ptr + 2 * MINBPC enc + MINBPC enc)
     else charRefNumber_dec enc b 0 (ptr + 2 * MINBPC enc)
   }"

text \<open>A chain of \<open>CHAR_MATCHES\<close> tests at consecutive characters, each taken only when the one
  before it holds.\<close>

fun match_chars :: "encoding \<Rightarrow> byte list \<Rightarrow> nat \<Rightarrow> byte list \<Rightarrow> bool option" where
  "match_chars enc b ptr [] = Some True"
| "match_chars enc b ptr (c # cs) = do {
     m \<leftarrow> CHAR_MATCHES enc b ptr c;
     if m then match_chars enc b (ptr + MINBPC enc) cs else Some False
   }"

definition predefinedEntityName :: "encoding \<Rightarrow> byte list \<Rightarrow> nat \<Rightarrow> nat \<Rightarrow> byte option" where
  "predefinedEntityName enc b ptr e =
     (let n = (e - ptr) div MINBPC enc in
      if n = 2 then do {
        t \<leftarrow> CHAR_MATCHES enc b (ptr + MINBPC enc) 0x74;
        if t then do {
          c \<leftarrow> BYTE_TO_ASCII enc b ptr;
          Some (if c = 0x6C then 0x3C else if c = 0x67 then 0x3E else 0)
        }
        else Some 0
      }
      else if n = 3 then do {
        m \<leftarrow> match_chars enc b ptr (ascii ''amp'');
        Some (if m then 0x26 else 0)
      }
      else if n = 4 then do {
        c \<leftarrow> BYTE_TO_ASCII enc b ptr;
        if c = 0x71 then do {
          m \<leftarrow> match_chars enc b (ptr + MINBPC enc) (ascii ''uot'');
          Some (if m then 0x22 else 0)
        }
        else if c = 0x61 then do {
          m \<leftarrow> match_chars enc b (ptr + MINBPC enc) (ascii ''pos'');
          Some (if m then 0x27 else 0)
        }
        else Some 0
      }
      else Some 0)"

section \<open>Names\<close>

definition name_type :: "bt \<Rightarrow> bool" where
  "name_type t \<longleftrightarrow> t \<in> {BT_NONASCII, BT_NMSTRT, BT_COLON, BT_HEX, BT_DIGIT, BT_NAME, BT_MINUS}"

text \<open>The comparison of \<open>n\<close> bytes, one \<open>*ptr1++ != *ptr2++\<close> after the other.\<close>

definition read_byte :: "byte list \<Rightarrow> nat \<Rightarrow> byte option" where
  "read_byte b p = (if p < length b then Some (b ! p) else None)"

fun same_bytes :: "byte list \<Rightarrow> nat \<Rightarrow> nat \<Rightarrow> nat \<Rightarrow> bool option" where
  "same_bytes b 0 ptr1 ptr2 = Some True"
| "same_bytes b (Suc n) ptr1 ptr2 = do {
     c \<leftarrow> read_byte b ptr1;
     d \<leftarrow> read_byte b ptr2;
     if c \<noteq> d then Some False else same_bytes b n (ptr1 + 1) (ptr2 + 1)
   }"

text \<open>The default arm: the name at \<open>ptr1\<close> has ended.\<close>

definition sameName_end :: "encoding \<Rightarrow> byte list \<Rightarrow> nat \<Rightarrow> nat \<Rightarrow> bool option" where
  "sameName_end enc b ptr1 ptr2 = do {
     same \<leftarrow> (if MINBPC enc = 1 then same_bytes b 1 ptr1 ptr2 else Some False);
     if same then Some True
     else do {
       t \<leftarrow> BYTE_TYPE enc b ptr2;
       Some (\<not> (name_type t \<or> lead_len t \<noteq> 0))
     }
   }"

function sameName :: "encoding \<Rightarrow> byte list \<Rightarrow> nat \<Rightarrow> nat \<Rightarrow> bool option" where
  "sameName enc b ptr1 ptr2 = do {
     t \<leftarrow> BYTE_TYPE enc b ptr1;
     if name_type t \<or> lead_len t \<noteq> 0 then do {
       same \<leftarrow> same_bytes b (char_len enc t) ptr1 ptr2;
       if \<not> same then Some False
       else sameName enc b (ptr1 + char_len enc t) (ptr2 + char_len enc t)
     }
     else sameName_end enc b ptr1 ptr2
   }"
  by pat_completeness auto
termination
  by (relation "measure (\<lambda>(enc, b, ptr1, ptr2). length b - ptr1)")
    (auto dest!: BYTE_TYPE_Some_less intro!: measure_left)

declare sameName.simps [simp del]

text \<open>\<open>nameMatchesAscii\<close> on the text from \<open>ptr1\<close> to the end of \<open>b\<close>, against a C string.\<close>

fun nameMatchesAscii :: "encoding \<Rightarrow> byte list \<Rightarrow> nat \<Rightarrow> byte list \<Rightarrow> bool option" where
  "nameMatchesAscii enc b ptr1 [] = Some (ptr1 = length b)"
| "nameMatchesAscii enc b ptr1 (c # cs) =
     (if ptr1 = length b then Some False
      else do {
        m \<leftarrow> CHAR_MATCHES enc b ptr1 c;
        if \<not> m then Some False else nameMatchesAscii enc b (ptr1 + MINBPC enc) cs
      })"

function nameLength_loop :: "encoding \<Rightarrow> byte list \<Rightarrow> nat \<Rightarrow> nat option" where
  "nameLength_loop enc b ptr = do {
     t \<leftarrow> BYTE_TYPE enc b ptr;
     if name_type t \<or> lead_len t \<noteq> 0 then nameLength_loop enc b (ptr + char_len enc t)
     else Some ptr
   }"
  by pat_completeness auto
termination
  by (relation "measure (\<lambda>(enc, b, ptr). length b - ptr)")
    (auto dest!: BYTE_TYPE_Some_less intro!: measure_left)

declare nameLength_loop.simps [simp del]

definition nameLength :: "encoding \<Rightarrow> byte list \<Rightarrow> nat \<Rightarrow> nat option" where
  "nameLength enc b ptr = map_option (\<lambda>p. p - ptr) (nameLength_loop enc b ptr)"

function skipS :: "encoding \<Rightarrow> byte list \<Rightarrow> nat \<Rightarrow> nat option" where
  "skipS enc b ptr = do {
     t \<leftarrow> BYTE_TYPE enc b ptr;
     if t = BT_LF \<or> t = BT_CR \<or> t = BT_S then skipS enc b (ptr + MINBPC enc) else Some ptr
   }"
  by pat_completeness auto
termination
  by (relation "measure (\<lambda>(enc, b, ptr). length b - ptr)")
    (auto dest!: BYTE_TYPE_Some_less intro!: measure_left)

declare skipS.simps [simp del]

section \<open>Positions\<close>

record POSITION =
  lineNumber :: uint32
  columnNumber :: uint32

function updatePosition :: "encoding \<Rightarrow> byte list \<Rightarrow> POSITION \<Rightarrow> nat \<Rightarrow> POSITION option" where
  "updatePosition enc b pos ptr =
     (if ptr = length b then Some pos
      else do {
        t \<leftarrow> BYTE_TYPE enc b ptr;
        if t = BT_LF
        then updatePosition enc b
               (pos\<lparr>lineNumber := lineNumber pos + 1, columnNumber := -1 + 1\<rparr>) (ptr + MINBPC enc)
        else if t = BT_CR then do {
          lf \<leftarrow> (if ptr + MINBPC enc = length b then Some False
                 else map_option (\<lambda>u. u = BT_LF) (BYTE_TYPE enc b (ptr + MINBPC enc)));
          updatePosition enc b
            (pos\<lparr>lineNumber := lineNumber pos + 1, columnNumber := -1 + 1\<rparr>)
            (if lf then ptr + MINBPC enc + MINBPC enc else ptr + MINBPC enc)
        }
        else updatePosition enc b (pos\<lparr>columnNumber := columnNumber pos + 1\<rparr>) (ptr + char_len enc t)
      })"
  by pat_completeness auto
termination
  by (relation "measure (\<lambda>(enc, b, pos, ptr). length b - ptr)")
    (auto dest!: BYTE_TYPE_Some_less intro!: measure_left)

declare updatePosition.simps [simp del]

section \<open>Encoded ASCII text\<close>

text \<open>The bytes of a string in an encoding, and reading them back.\<close>

definition enc_char :: "encoding \<Rightarrow> byte \<Rightarrow> byte list" where
  "enc_char enc c = (case prefix enc of Normal \<Rightarrow> [c] | Little2 \<Rightarrow> [c, 0] | Big2 \<Rightarrow> [0, c])"

definition enc_text :: "encoding \<Rightarrow> byte list \<Rightarrow> byte list" where
  "enc_text enc cs = concat (map (enc_char enc) cs)"

definition text_at :: "encoding \<Rightarrow> byte list \<Rightarrow> nat \<Rightarrow> byte list \<Rightarrow> bool" where
  "text_at enc b p cs \<longleftrightarrow> take (length (enc_text enc cs)) (drop p b) = enc_text enc cs"

lemma length_enc_char [simp]: "length (enc_char enc c) = MINBPC enc"
  by (cases "prefix enc") (simp_all add: enc_char_def MINBPC_def)

lemma enc_text_simps [simp]:
  "enc_text enc [] = []" "enc_text enc (c # cs) = enc_char enc c @ enc_text enc cs"
  by (simp_all add: enc_text_def)

lemma length_enc_text [simp]: "length (enc_text enc cs) = length cs * MINBPC enc"
  by (induction cs) simp_all

lemma CHAR_MATCHES_drop:
  "p + MINBPC enc \<le> length b \<Longrightarrow>
    CHAR_MATCHES enc b p c = Some (take (MINBPC enc) (drop p b) = enc_char enc c)"
  by (cases "prefix enc")
    (auto simp: CHAR_MATCHES_def MINBPC_def enc_char_def take_Suc_conv_app_nth numeral_2_eq_2 add.commute)

lemma enc_char_inj [simp]: "enc_char enc c = enc_char enc d \<longleftrightarrow> c = d"
  by (cases "prefix enc") (simp_all add: enc_char_def)

lemma text_at_iff: "text_at enc b p cs \<longleftrightarrow> (\<exists>post. drop p b = enc_text enc cs @ post)"
  unfolding text_at_def by (metis append_take_drop_id append_eq_conv_conj)

lemma text_at_Cons:
  assumes "text_at enc b p (c # cs)"
  shows "p + MINBPC enc \<le> length b" and "take (MINBPC enc) (drop p b) = enc_char enc c"
    and "text_at enc b (p + MINBPC enc) cs"
proof -
  obtain post where eq: "drop p b = enc_char enc c @ enc_text enc cs @ post"
    using assms by (auto simp: text_at_iff)
  then have "MINBPC enc \<le> length (drop p b)" by simp
  then show "p + MINBPC enc \<le> length b" using MINBPC_pos [of enc] by (simp del: MINBPC_pos)
  show "take (MINBPC enc) (drop p b) = enc_char enc c" by (simp add: eq)
  have "drop (p + MINBPC enc) b = drop (MINBPC enc) (drop p b)" by (simp add: add.commute)
  also have "\<dots> = enc_text enc cs @ post" by (simp add: eq)
  finally show "text_at enc b (p + MINBPC enc) cs" by (auto simp: text_at_iff)
qed

lemma text_at_reads:
  assumes "text_at enc b p (c # cs)"
  shows "CHAR_MATCHES enc b p d = Some (c = d)"
    and "BYTE_TO_ASCII enc b p = Some (sint c)"
    and "text_at enc b (p + MINBPC enc) cs"
proof -
  note le = text_at_Cons(1) [OF assms] and eq = text_at_Cons(2) [OF assms]
  show "CHAR_MATCHES enc b p d = Some (c = d)"
    by (simp add: CHAR_MATCHES_drop [OF le] eq)
  show "text_at enc b (p + MINBPC enc) cs"
    by (rule text_at_Cons(3) [OF assms])
  show "BYTE_TO_ASCII enc b p = Some (sint c)"
    using le eq by (cases "prefix enc")
      (auto simp: BYTE_TO_ASCII_def MINBPC_def enc_char_def take_Suc_conv_app_nth numeral_2_eq_2
        add.commute)
qed

text \<open>\<open>nameMatchesAscii\<close> decides equality with the keyword.\<close>

lemma nameMatchesAscii_correct:
  assumes "p \<le> length b" and "MINBPC enc dvd length b - p"
  shows "nameMatchesAscii enc b p kw = Some (drop p b = enc_text enc kw)"
  using assms
proof (induction kw arbitrary: p)
  case (Cons c kw)
  show ?case
  proof (cases "p = length b")
    case True
    then show ?thesis using MINBPC_pos [of enc] length_enc_char [of enc c]
      by (auto simp del: MINBPC_pos length_enc_char)
  next
    case False
    with Cons.prems have le: "p + MINBPC enc \<le> length b"
      using dvd_imp_le [of "MINBPC enc" "length b - p"] by linarith
    have dv: "MINBPC enc dvd length b - (p + MINBPC enc)"
      using dvd_diff_nat [OF Cons.prems(2) dvd_refl] by (simp add: diff_diff_left)
    have sp: "drop p b = take (MINBPC enc) (drop p b) @ drop (p + MINBPC enc) b"
      by (metis append_take_drop_id drop_drop add.commute)
    have "drop p b = enc_text enc (c # kw) \<longleftrightarrow>
        take (MINBPC enc) (drop p b) = enc_char enc c \<and> drop (p + MINBPC enc) b = enc_text enc kw"
      by (subst sp) (use le in \<open>simp add: append_eq_append_conv\<close>)
    with False le show ?thesis
      by (auto simp: CHAR_MATCHES_drop Cons.IH [OF le dv])
  qed
qed auto

section \<open>Character references denote XML characters\<close>

definition xml_char :: "int \<Rightarrow> bool" where
  "xml_char v \<longleftrightarrow> v = 0x9 \<or> v = 0xA \<or> v = 0xD \<or> (0x20 \<le> v \<and> v \<le> 0xD7FF) \<or>
     (0xE000 \<le> v \<and> v \<le> 0xFFFD) \<or> (0x10000 \<le> v \<and> v \<le> 0x10FFFF)"

lemma latin1_nonxml_tab:
  "list_all (\<lambda>(n, t). (t = BT_NONXML) = (n < 0x20 \<and> n \<noteq> 0x9 \<and> n \<noteq> 0xA \<and> n \<noteq> 0xD))
     (enumerate 0 (type_tab (latin1_encoding False)))"
  by code_simp

lemma latin1_nonxml:
  assumes "n < 256"
  shows "type_tab (latin1_encoding False) ! n = BT_NONXML \<longleftrightarrow>
    n < 0x20 \<and> n \<noteq> 0x9 \<and> n \<noteq> 0xA \<and> n \<noteq> 0xD"
proof -
  have "length (type_tab (latin1_encoding False)) = 256" by (simp add: latin1_encoding_def)
  with assms have "(n, type_tab (latin1_encoding False) ! n) \<in>
      set (enumerate 0 (type_tab (latin1_encoding False)))"
    by (simp add: in_set_enumerate_eq)
  with latin1_nonxml_tab show ?thesis by (auto simp: list_all_iff)
qed

lemma checkCharRefNumber_eq:
  assumes "0 \<le> v" and "v < 0x110000"
  shows "checkCharRefNumber v = (if xml_char v then v else -1)"
proof -
  have page: "drop_bit 8 v = v div 256" by (simp add: drop_bit_eq_div)
  have zero: "type_tab (latin1_encoding False) ! nat v = BT_NONXML \<longleftrightarrow>
      v < 0x20 \<and> v \<noteq> 0x9 \<and> v \<noteq> 0xA \<and> v \<noteq> 0xD" if "v div 256 = 0"
  proof -
    have "nat v < 256" using that assms(1) by (auto simp: div_eq_0_iff)
    from latin1_nonxml [OF this] assms(1) show ?thesis by auto
  qed
  show ?thesis
  proof (cases "v div 256 = 0")
    case True
    with assms(1) have "v < 256" by (auto simp: div_eq_0_iff)
    with True zero assms show ?thesis
      by (auto simp: checkCharRefNumber_def page xml_char_def)
  next
    case False
    with assms(1) have "256 \<le> v" by (auto simp: div_eq_0_iff)
    moreover have "0xD8 \<le> v div 256 \<longleftrightarrow> 0xD800 \<le> v" "v div 256 \<le> 0xDF \<longleftrightarrow> v \<le> 0xDFFF"
      by linarith+
    moreover have "v = 0xFFFE \<or> v = 0xFFFF \<Longrightarrow> v div 256 = 0xFF" by auto
    ultimately show ?thesis using False assms
      by (auto simp: checkCharRefNumber_def page xml_char_def)
  qed
qed

definition dec_char :: "byte \<Rightarrow> bool" where
  "dec_char c \<longleftrightarrow> 0x30 \<le> c \<and> c \<le> 0x39"

definition hex_char :: "byte \<Rightarrow> bool" where
  "hex_char c \<longleftrightarrow> dec_char c \<or> (0x41 \<le> c \<and> c \<le> 0x46) \<or> (0x61 \<le> c \<and> c \<le> 0x66)"

definition digit_value :: "byte \<Rightarrow> int" where
  "digit_value c = (if dec_char c then uint c - 0x30
     else if 0x41 \<le> c \<and> c \<le> 0x46 then uint c - 0x41 + 10 else uint c - 0x61 + 10)"

definition number :: "int \<Rightarrow> int \<Rightarrow> byte list \<Rightarrow> int" where
  "number base v ds = foldl (\<lambda>v c. v * base + digit_value c) v ds"

definition char_ref_value :: "int \<Rightarrow> int" where
  "char_ref_value v = (if xml_char v then v else -1)"

lemma number_simps [simp]:
  "number base v [] = v" "number base v (c # ds) = number base (v * base + digit_value c) ds"
  by (simp_all add: number_def)

lemma hex_char_bounds: "hex_char c \<Longrightarrow> 0 \<le> digit_value c \<and> digit_value c < 16"
  and dec_char_bounds: "dec_char c \<Longrightarrow> 0 \<le> digit_value c \<and> digit_value c < 10"
  by (auto simp: hex_char_def dec_char_def digit_value_def word_le_def)

lemma sint_ascii: "c \<le> 0x7F \<Longrightarrow> sint (c :: byte) = uint c"
proof -
  assume "c \<le> 0x7F"
  then have "uint c < 2 ^ 7" by (simp add: word_le_def)
  moreover have "- (2 ^ 7) \<le> uint c" by (rule order_trans [OF _ uint_ge_0]) simp
  ultimately have "signed_take_bit 7 (uint c) = uint c"
    by (intro signed_take_bit_int_eq_self)
  then show ?thesis by (simp add: sint_uint)
qed

lemma number_ge: "list_all hex_char ds \<Longrightarrow> 0 \<le> v \<Longrightarrow> 1 \<le> base \<Longrightarrow> v \<le> number base v ds"
proof (induction ds arbitrary: v)
  case (Cons c ds)
  have "v \<le> v * base" using Cons.prems by (simp add: mult_le_cancel_left1)
  moreover have "0 \<le> digit_value c" using Cons.prems hex_char_bounds by simp
  ultimately have "v \<le> v * base + digit_value c" by simp
  also have "\<dots> \<le> number base (v * base + digit_value c) ds"
    using Cons calculation by simp
  finally show ?case by simp
qed simp

lemma push_bit_or_digit: "0 \<le> (d::int) \<Longrightarrow> d < 16 \<Longrightarrow> push_bit 4 r OR d = r * 16 + d"
proof -
  assume "0 \<le> d" "d < 16"
  then have "take_bit 4 d = d" by (simp add: take_bit_int_eq_self)
  then have "push_bit 4 r AND d = push_bit 4 r AND take_bit 4 d" by simp
  also have "\<dots> = 0" by (rule bit_eqI) (simp add: bit_simps)
  finally have "push_bit 4 r + d = push_bit 4 r OR d" by (rule disjunctive_add_eq_or)
  then show ?thesis by (simp add: push_bit_eq_mult)
qed

lemma hex_digit_value: "hex_char c \<Longrightarrow> 0 \<le> r \<Longrightarrow> hex_digit r (sint c) = r * 16 + digit_value c"
proof -
  assume c: "hex_char c" and r: "0 \<le> r"
  then have "c \<le> 0x7F" by (auto simp: hex_char_def dec_char_def word_le_def)
  with c show ?thesis
    by (auto simp: hex_digit_def sint_ascii hex_char_def dec_char_def digit_value_def word_le_def
        push_bit_or_digit) (auto simp: push_bit_eq_mult)
qed

lemma dec_digit_value: "dec_char c \<Longrightarrow> sint c - 0x30 = digit_value c"
  by (subst sint_ascii) (auto simp: dec_char_def digit_value_def word_le_def)

lemma dec_hex_char: "dec_char c \<Longrightarrow> hex_char c"
  by (simp add: hex_char_def)

lemma digit_not_semi: "hex_char c \<Longrightarrow> c \<noteq> 0x3B"
  by (auto simp: hex_char_def dec_char_def)

lemma char_ref_value_ge: "0x110000 \<le> v \<Longrightarrow> char_ref_value v = -1"
  by (simp add: char_ref_value_def xml_char_def)

lemma charRefNumber_dec_value:
  assumes "text_at enc b p (ds @ [0x3B])" and "list_all dec_char ds" and "0 \<le> r" and "r < 0x110000"
  shows "charRefNumber_dec enc b r p = Some (char_ref_value (number 10 r ds))"
  using assms
proof (induction ds arbitrary: p r)
  case Nil
  then show ?case
    by (subst charRefNumber_dec.simps)
      (simp add: text_at_reads [of enc b p "0x3B" "[]"] checkCharRefNumber_eq char_ref_value_def)
next
  case (Cons c ds)
  define v where "v = r * 10 + digit_value c"
  have c: "dec_char c" and ds: "list_all dec_char ds" using Cons.prems by auto
  have at: "text_at enc b p (c # (ds @ [0x3B]))" using Cons.prems by simp
  have v0: "0 \<le> v" using Cons.prems dec_char_bounds [OF c] by (simp add: v_def)
  have "list_all hex_char ds" using ds by (auto simp: list_all_iff dec_hex_char)
  then have ge: "v \<le> number 10 v ds" using v0 by (simp add: number_ge)
  show ?case
    using digit_not_semi [OF dec_hex_char [OF c]] text_at_reads [OF at] dec_digit_value [OF c] ge
      Cons.IH [OF text_at_reads(3) [OF at] ds v0]
    by (subst charRefNumber_dec.simps) (auto simp: v_def char_ref_value_ge)
qed

lemma charRefNumber_hex_value:
  assumes "text_at enc b p (ds @ [0x3B])" and "list_all hex_char ds" and "0 \<le> r" and "r < 0x110000"
  shows "charRefNumber_hex enc b r p = Some (char_ref_value (number 16 r ds))"
  using assms
proof (induction ds arbitrary: p r)
  case Nil
  then show ?case
    by (subst charRefNumber_hex.simps)
      (simp add: text_at_reads [of enc b p "0x3B" "[]"] checkCharRefNumber_eq char_ref_value_def)
next
  case (Cons c ds)
  define v where "v = r * 16 + digit_value c"
  have c: "hex_char c" and ds: "list_all hex_char ds" using Cons.prems by auto
  have at: "text_at enc b p (c # (ds @ [0x3B]))" using Cons.prems by simp
  have v0: "0 \<le> v" using Cons.prems hex_char_bounds [OF c] by (simp add: v_def)
  have ge: "v \<le> number 16 v ds" using v0 ds by (simp add: number_ge)
  show ?case
    using digit_not_semi [OF c] text_at_reads [OF at] hex_digit_value [OF c Cons.prems(3)] ge
      Cons.IH [OF text_at_reads(3) [OF at] ds v0]
    by (subst charRefNumber_hex.simps) (auto simp: v_def char_ref_value_ge)
qed

end
