(* ===== verification/Xml_Names_Correct.thy ===== *)
theory Xml_Names_Correct
  imports Xml_Names
begin

text \<open>
  Correctness of the name, reference and attribute routines: what they decide or compute, on
  every encoding and every buffer.
\<close>

section \<open>Predefined entities\<close>

definition predefined :: "encoding \<Rightarrow> byte list \<Rightarrow> byte" where
  "predefined enc txt =
     (if txt = enc_text enc (ascii ''lt'') then 0x3C
      else if txt = enc_text enc (ascii ''gt'') then 0x3E
      else if txt = enc_text enc (ascii ''amp'') then 0x26
      else if txt = enc_text enc (ascii ''quot'') then 0x22
      else if txt = enc_text enc (ascii ''apos'') then 0x27
      else 0)"

definition char_at :: "encoding \<Rightarrow> byte list \<Rightarrow> nat \<Rightarrow> byte \<Rightarrow> bool" where
  "char_at enc b p c \<longleftrightarrow> take (MINBPC enc) (drop p b) = enc_char enc c"

lemma char_at_unique: "char_at enc b p c \<Longrightarrow> char_at enc b p d \<longleftrightarrow> c = d"
  by (auto simp: char_at_def)

lemma text_at_Cons_iff:
  "text_at enc b p (c # cs) \<longleftrightarrow> char_at enc b p c \<and> text_at enc b (p + MINBPC enc) cs"
proof
  assume "char_at enc b p c \<and> text_at enc b (p + MINBPC enc) cs"
  then obtain post where "take (MINBPC enc) (drop p b) = enc_char enc c"
      and "drop (p + MINBPC enc) b = enc_text enc cs @ post"
    by (auto simp: text_at_iff char_at_def)
  then have "drop p b = enc_text enc (c # cs) @ post"
    by (metis append_take_drop_id drop_drop add.commute enc_text_simps(2) append.assoc)
  then show "text_at enc b p (c # cs)" by (auto simp: text_at_iff)
qed (auto dest: text_at_Cons simp: char_at_def)

lemma text_at_Nil [simp]: "text_at enc b p []"
  by (simp add: text_at_def)

lemma match_chars_iff:
  "p + length cs * MINBPC enc \<le> length b \<Longrightarrow> match_chars enc b p cs = Some (text_at enc b p cs)"
proof (induction cs arbitrary: p)
  case (Cons c cs)
  have le: "p + MINBPC enc \<le> length b"
    and le2: "(p + MINBPC enc) + length cs * MINBPC enc \<le> length b"
    using Cons.prems by (simp_all add: add.assoc)
  show ?case
    by (auto simp: CHAR_MATCHES_drop [OF le] Cons.IH [OF le2] text_at_Cons_iff char_at_def)
qed simp

declare match_chars.simps [simp del]

lemma BYTE_TO_ASCII_char:
  assumes le: "p + MINBPC enc \<le> length b"
  obtains v where "BYTE_TO_ASCII enc b p = Some v"
    and "\<And>c. c \<le> 0x7F \<Longrightarrow> v = uint c \<longleftrightarrow> char_at enc b p c"
proof -
  have eq: "sint d = uint c \<longleftrightarrow> d = c" if "c \<le> 0x7F" for c d :: byte
    using that by (metis sint_ascii word_eq_iff_signed)
  have neg: "-1 \<noteq> uint c" for c :: byte
    by (metis uint_ge_0 neg_0_le_iff_le not_one_le_zero)
  show ?thesis
  proof (cases "prefix enc")
    case Normal
    then show ?thesis using le eq
      by (intro that [of "sint (b ! p)"])
        (auto simp: BYTE_TO_ASCII_def char_at_def MINBPC_def enc_char_def take_Suc_conv_app_nth)
  next
    case Little2
    then show ?thesis using le eq neg
      by (intro that [of "if b ! (p + 1) = 0 then sint (b ! p) else -1"])
        (auto simp: BYTE_TO_ASCII_def char_at_def MINBPC_def enc_char_def take_Suc_conv_app_nth
          numeral_2_eq_2)
  next
    case Big2
    then show ?thesis using le eq neg
      by (intro that [of "if b ! p = 0 then sint (b ! (p + 1)) else -1"])
        (auto simp: BYTE_TO_ASCII_def char_at_def MINBPC_def enc_char_def take_Suc_conv_app_nth
          numeral_2_eq_2)
  qed
qed

lemma CHAR_MATCHES_char_at:
  "p + MINBPC enc \<le> length b \<Longrightarrow> CHAR_MATCHES enc b p c = Some (char_at enc b p c)"
  by (simp add: CHAR_MATCHES_drop char_at_def)

lemma segment_text:
  assumes "p + n * MINBPC enc \<le> length b"
  shows "take (n * MINBPC enc) (drop p b) = enc_text enc cs \<longleftrightarrow> length cs = n \<and> text_at enc b p cs"
proof
  assume eq: "take (n * MINBPC enc) (drop p b) = enc_text enc cs"
  from arg_cong [OF eq, of length] assms have "length cs = n" by simp
  with eq show "length cs = n \<and> text_at enc b p cs" by (simp add: text_at_def)
qed (auto simp: text_at_def)

text \<open>\<open>predefinedEntityName\<close> maps exactly the five predefined names to their characters and
  every other text, of any length, to 0.\<close>

lemma predefinedEntityName_correct:
  assumes "ptr + n * MINBPC enc \<le> length b"
  shows "predefinedEntityName enc b ptr (ptr + n * MINBPC enc) =
    Some (predefined enc (take (n * MINBPC enc) (drop ptr b)))"
proof -
  have lens: "length (ascii ''lt'') = 2" "length (ascii ''gt'') = 2" "length (ascii ''amp'') = 3"
    "length (ascii ''quot'') = 4" "length (ascii ''apos'') = 4" by simp_all
  have pre: "predefined enc (take (n * MINBPC enc) (drop ptr b)) =
      (if n = 2 \<and> text_at enc b ptr (ascii ''lt'') then 0x3C
      else if n = 2 \<and> text_at enc b ptr (ascii ''gt'') then 0x3E
      else if n = 3 \<and> text_at enc b ptr (ascii ''amp'') then 0x26
      else if n = 4 \<and> text_at enc b ptr (ascii ''quot'') then 0x22
      else if n = 4 \<and> text_at enc b ptr (ascii ''apos'') then 0x27
      else 0)"
    unfolding predefined_def segment_text [OF assms] lens eq_commute [of _ n] ..
  have div: "(ptr + n * MINBPC enc - ptr) div MINBPC enc = n" by simp
  consider "n = 2" | "n = 3" | "n = 4" | "n \<noteq> 2" "n \<noteq> 3" "n \<noteq> 4" by blast
  then show ?thesis
  proof cases
    case 1
    with assms have le: "ptr + MINBPC enc \<le> length b" "ptr + MINBPC enc + MINBPC enc \<le> length b"
      by simp_all
    obtain v where v: "BYTE_TO_ASCII enc b ptr = Some v"
        and vc: "\<And>c. c \<le> 0x7F \<Longrightarrow> v = uint c \<longleftrightarrow> char_at enc b ptr c"
      by (rule BYTE_TO_ASCII_char [OF le(1)]) blast
    show ?thesis unfolding pre predefinedEntityName_def
      using 1 v vc [of "0x6C"] vc [of "0x67"]
      by (auto simp: CHAR_MATCHES_char_at [OF le(2)] text_at_Cons_iff)
  next
    case 2
    then show ?thesis unfolding pre predefinedEntityName_def
      using assms by (simp add: match_chars_iff)
  next
    case 3
    with assms have le: "ptr + MINBPC enc \<le> length b"
      and le3: "ptr + MINBPC enc + 3 * MINBPC enc \<le> length b"
      by simp_all
    obtain v where v: "BYTE_TO_ASCII enc b ptr = Some v"
        and vc: "\<And>c. c \<le> 0x7F \<Longrightarrow> v = uint c \<longleftrightarrow> char_at enc b ptr c"
      by (rule BYTE_TO_ASCII_char [OF le]) blast
    show ?thesis unfolding pre predefinedEntityName_def
      using 3 v vc [of "0x71"] vc [of "0x61"] le3
      by (auto simp: match_chars_iff text_at_Cons_iff)
  next
    case 4
    then show ?thesis unfolding pre predefinedEntityName_def by simp
  qed
qed

section \<open>Names\<close>

lemma nameLength_loop_bounds: "nameLength_loop enc b p = Some e \<Longrightarrow> p \<le> e \<and> e + MINBPC enc \<le> length b"
proof (induction enc b p rule: nameLength_loop.induct)
  case (1 enc b p)
  show ?case
    using "1.prems" "1.IH" by (subst (asm) nameLength_loop.simps)
      (auto split: if_split_asm dest: BYTE_TYPE_SomeD add_leD1)
qed

lemma nameLength_loop_step:
  assumes "nameLength_loop enc b p = Some e"
  obtains t where "BYTE_TYPE enc b p = Some t" and "p + MINBPC enc \<le> length b"
    and "\<not> (name_type t \<or> lead_len t \<noteq> 0) \<Longrightarrow> e = p"
    and "name_type t \<or> lead_len t \<noteq> 0 \<Longrightarrow> nameLength_loop enc b (p + char_len enc t) = Some e"
proof -
  from assms obtain t where t: "BYTE_TYPE enc b p = Some t"
    and "(if name_type t \<or> lead_len t \<noteq> 0 then nameLength_loop enc b (p + char_len enc t)
          else Some p) = Some e"
    by (auto simp: nameLength_loop.simps [of enc b p])
  then show thesis
    by (intro that [OF t BYTE_TYPE_SomeD [OF t]]) (simp_all split: if_split_asm)
qed

lemma BYTE_TYPE_cong:
  assumes "p + MINBPC enc \<le> length b" and "q + MINBPC enc \<le> length b"
    and "take (MINBPC enc) (drop p b) = take (MINBPC enc) (drop q b)"
  shows "BYTE_TYPE enc b p = BYTE_TYPE enc b q"
  using assms by (cases "prefix enc")
    (auto simp: BYTE_TYPE_def MINBPC_def take_Suc_conv_app_nth numeral_2_eq_2)

lemma same_bytes_eq:
  assumes "p + n \<le> length b" and "q + n \<le> length b"
  shows "same_bytes b n p q = Some (take n (drop p b) = take n (drop q b))"
  using assms
proof (induction n arbitrary: p q)
  case (Suc n)
  then show ?case
    by (auto simp: read_byte_def take_Suc_conv_app_nth Cons_nth_drop_Suc [symmetric])
qed simp

lemma same_bytes_differ:
  assumes "m \<le> n" and "p + n \<le> length b" and "q + m \<le> length b"
    and "take m (drop p b) \<noteq> take m (drop q b)"
  shows "same_bytes b n p q = Some False"
  using assms
proof (induction n arbitrary: m p q)
  case (Suc n)
  from Suc.prems obtain k where m: "m = Suc k" by (cases m) auto
  with Suc.prems show ?case
    using Suc.IH [of k "Suc p" "Suc q"]
    by (auto simp: read_byte_def Cons_nth_drop_Suc [symmetric])
qed simp

lemma MINBPC_le_char_len: "MINBPC enc \<le> char_len enc t"
  using MINBPC_cases [of enc] by (auto simp: char_len_def lead_len_def split: if_splits)

text \<open>One character of the two names: compared as a whole, or found different within the bytes
  that decide its type.\<close>

lemma same_bytes_char:
  assumes t1: "BYTE_TYPE enc b p1 = Some t1" and n: "name_type t1 \<or> lead_len t1 \<noteq> 0"
    and l1: "nameLength_loop enc b (p1 + char_len enc t1) = Some e1"
    and l2: "nameLength_loop enc b p2 = Some e2"
  defines "n \<equiv> char_len enc t1"
  shows "same_bytes b n p1 p2 = Some (take n (drop p1 b) = take n (drop p2 b))"
    and "take n (drop p1 b) = take n (drop p2 b) \<Longrightarrow> nameLength_loop enc b (p2 + n) = Some e2"
proof -
  obtain t2 where t2: "BYTE_TYPE enc b p2 = Some t2" and le2: "p2 + MINBPC enc \<le> length b"
    and go2: "name_type t2 \<or> lead_len t2 \<noteq> 0 \<Longrightarrow> nameLength_loop enc b (p2 + char_len enc t2) = Some e2"
    using nameLength_loop_step [OF l2] by blast
  have Mn: "MINBPC enc \<le> n" unfolding n_def by (rule MINBPC_le_char_len)
  have le1: "p1 + n \<le> length b" using nameLength_loop_bounds [OF l1] by (simp add: n_def)
  note leM = BYTE_TYPE_SomeD [OF t1]
  show more: "nameLength_loop enc b (p2 + n) = Some e2" if "take n (drop p1 b) = take n (drop p2 b)"
  proof -
    have "take (MINBPC enc) (drop p1 b) = take (MINBPC enc) (drop p2 b)"
      using arg_cong [OF that, of "take (MINBPC enc)"] Mn by (simp add: min_absorb1)
    then have "t1 = t2" using BYTE_TYPE_cong [OF leM le2] t1 t2 by simp
    then show ?thesis using go2 n by (simp add: n_def)
  qed
  show "same_bytes b n p1 p2 = Some (take n (drop p1 b) = take n (drop p2 b))"
  proof (cases "take (MINBPC enc) (drop p1 b) = take (MINBPC enc) (drop p2 b)")
    case True
    then have "t1 = t2" using BYTE_TYPE_cong [OF leM le2] t1 t2 by simp
    then have "nameLength_loop enc b (p2 + n) = Some e2" using go2 n by (simp add: n_def)
    then have "p2 + n \<le> length b" using nameLength_loop_bounds by fastforce
    with le1 show ?thesis by (rule same_bytes_eq)
  next
    case False
    then have "take n (drop p1 b) \<noteq> take n (drop p2 b)"
      using Mn by (metis min_absorb1 take_take)
    with same_bytes_differ [OF Mn le1 le2 False] show ?thesis by simp
  qed
qed

lemma take_drop_split:
  "n \<le> e - p \<Longrightarrow> take (e - p) (drop p b) = take n (drop p b) @ take (e - (p + n)) (drop (p + n) b)"
  by (metis diff_diff_left drop_drop le_add_diff_inverse take_add add.commute)

lemma sameName_eq:
  assumes "nameLength_loop enc b p1 = Some e1" and "nameLength_loop enc b p2 = Some e2"
  shows "sameName enc b p1 p2 =
    Some (take (e1 - p1) (drop p1 b) = take (e2 - p2) (drop p2 b))"
  using assms
proof (induction enc b p1 p2 rule: sameName.induct)
  case (1 enc b p1 p2)
  obtain t1 where t1: "BYTE_TYPE enc b p1 = Some t1" and le1: "p1 + MINBPC enc \<le> length b"
    and end1: "\<not> (name_type t1 \<or> lead_len t1 \<noteq> 0) \<Longrightarrow> e1 = p1"
    and go1: "name_type t1 \<or> lead_len t1 \<noteq> 0 \<Longrightarrow> nameLength_loop enc b (p1 + char_len enc t1) = Some e1"
    using nameLength_loop_step [OF "1.prems"(1)] by blast
  obtain t2 where t2: "BYTE_TYPE enc b p2 = Some t2" and le2: "p2 + MINBPC enc \<le> length b"
    and end2: "\<not> (name_type t2 \<or> lead_len t2 \<noteq> 0) \<Longrightarrow> e2 = p2"
    and go2: "name_type t2 \<or> lead_len t2 \<noteq> 0 \<Longrightarrow> nameLength_loop enc b (p2 + char_len enc t2) = Some e2"
    using nameLength_loop_step [OF "1.prems"(2)] by blast
  note b1 = nameLength_loop_bounds [OF "1.prems"(1)] and b2 = nameLength_loop_bounds [OF "1.prems"(2)]
  define n where "n = char_len enc t1"
  show ?case
  proof (cases "name_type t1 \<or> lead_len t1 \<noteq> 0")
    case True
    note l1 = go1 [OF True]
    note sb = same_bytes_char [OF t1 True l1 "1.prems"(2), folded n_def]
    have n1: "n \<le> e1 - p1" using nameLength_loop_bounds [OF l1] unfolding n_def by linarith
    show ?thesis
    proof (cases "take n (drop p1 b) = take n (drop p2 b)")
      case same: True
      note l2 = sb(2) [OF same]
      have n2: "n \<le> e2 - p2" using nameLength_loop_bounds [OF l2] by linarith
      have "sameName enc b p1 p2 = sameName enc b (p1 + n) (p2 + n)"
        using t1 True sb(1) same by (simp add: sameName.simps [of enc b p1 p2] n_def)
      also have "\<dots> = Some (take (e1 - (p1 + n)) (drop (p1 + n) b) =
          take (e2 - (p2 + n)) (drop (p2 + n) b))"
        using "1.IH" [OF t1 True sb(1) [unfolded n_def]] same l1 l2 by (simp add: n_def)
      finally show ?thesis
        using same by (simp add: take_drop_split [OF n1] take_drop_split [OF n2])
    next
      case False
      have "take (e1 - p1) (drop p1 b) \<noteq> take (e2 - p2) (drop p2 b)"
      proof
        assume eq: "take (e1 - p1) (drop p1 b) = take (e2 - p2) (drop p2 b)"
        have "length (take (e1 - p1) (drop p1 b)) = e1 - p1" "length (take (e2 - p2) (drop p2 b)) = e2 - p2"
          using b1 b2 by auto
        with eq have "e1 - p1 = e2 - p2" by simp
        with arg_cong [OF eq, of "take n"] n1 False show False by (simp add: min_absorb1)
      qed
      then show ?thesis
        using t1 True sb(1) False by (simp add: sameName.simps [of enc b p1 p2] n_def)
    qed
  next
    case False
    then have e1: "e1 = p1" by (rule end1)
    have "sameName_end enc b p1 p2 = Some (\<not> (name_type t2 \<or> lead_len t2 \<noteq> 0))"
    proof (cases "MINBPC enc = 1 \<and> take 1 (drop p1 b) = take 1 (drop p2 b)")
      case True
      then have "t1 = t2" using BYTE_TYPE_cong [of p1 enc b p2] le1 le2 t1 t2 by simp
      then show ?thesis using True False same_bytes_eq [of p1 1 b p2] le1 le2
        by (simp add: sameName_end_def del: same_bytes.simps One_nat_def)
    next
      case False
      then show ?thesis using t2 same_bytes_eq [of p1 1 b p2] le1 le2
        by (auto simp: sameName_end_def simp del: same_bytes.simps One_nat_def)
    qed
    moreover have "take (e2 - p2) (drop p2 b) = [] \<longleftrightarrow> \<not> (name_type t2 \<or> lead_len t2 \<noteq> 0)"
    proof (cases "name_type t2 \<or> lead_len t2 \<noteq> 0")
      case True
      from nameLength_loop_bounds [OF go2 [OF True]] char_len_pos [of enc t2]
      have "p2 < e2" by linarith
      with b2 True show ?thesis by auto
    qed (use end2 in auto)
    ultimately show ?thesis
      using t1 False e1 by (simp add: sameName.simps [of enc b p1 p2])
  qed
qed

section \<open>Attributes\<close>

text \<open>Two runs of \<open>getAtts\<close> over the same tag, one with an array, one that only counts.\<close>

definition ga_rel :: "int \<Rightarrow> getAtts_locals \<Rightarrow> getAtts_locals \<Rightarrow> bool" where
  "ga_rel m g h \<longleftrightarrow> ga_state g = ga_state h \<and> nAtts g = nAtts h \<and> ga_open g = ga_open h \<and>
     0 \<le> nAtts g \<and> m \<le> int (length (atts g))"

definition ga_runs ::
    "int \<Rightarrow> getAtts_locals option \<Rightarrow> getAtts_locals option \<Rightarrow> bool" where
  "ga_runs m x y \<longleftrightarrow> (\<exists>g h. x = Some g \<and> y = Some h \<and> ga_rel m g h)"

lemma ga_runs:
  assumes "ga_rel m g h"
  shows "ga_runs m (with_att m f g) (with_att 0 f' h)"
    and "ga_runs m (START_NAME m ptr g) (START_NAME 0 ptr h)"
    and "ga_runs m (getAtts_quote enc m ptr q g) (getAtts_quote enc 0 ptr q h)"
    and "ga_runs m (getAtts_newline m g) (getAtts_newline 0 h)"
    and "ga_runs m (Some g) (Some h)"
  using assms
  by (auto simp: ga_runs_def ga_rel_def with_att_def START_NAME_def getAtts_quote_def
      getAtts_newline_def)

lemma getAtts_unnormalized_returns:
  assumes "BYTE_TYPE enc b ptr = Some t" and "BYTE_TYPE enc b (ptr + MINBPC enc) = Some u"
  shows "\<exists>v. getAtts_unnormalized enc b ptr q a = Some v"
  using assms [THEN BYTE_TYPE_SomeD] assms(2)
  by (auto simp: getAtts_unnormalized_def BYTE_TO_ASCII_def)

lemma getAtts_space_runs:
  assumes "ga_rel m g h" and "BYTE_TYPE enc b ptr = Some t"
    and "BYTE_TYPE enc b (ptr + MINBPC enc) = Some u"
  shows "ga_runs m (getAtts_space enc b m ptr g) (getAtts_space enc b 0 ptr h)"
proof -
  obtain v where "getAtts_unnormalized enc b ptr (ga_open g) (atts g ! nat (nAtts g)) = Some v"
    using getAtts_unnormalized_returns [OF assms(2,3)] by blast
  with assms(1) show ?thesis
    by (cases v) (auto simp: ga_runs_def ga_rel_def getAtts_space_def with_att_def)
qed

lemma getAtts_space_counting: "0 \<le> nAtts h \<Longrightarrow> \<exists>h'. getAtts_space enc b 0 ptr h = Some h'"
  by (auto simp: getAtts_space_def)

lemma getAtts_switch_runs:
  assumes "ga_rel m g h" and "BYTE_TYPE enc b ptr = Some t"
    and "BYTE_TYPE enc b (ptr + char_len enc t) = Some u"
  shows "ga_runs m (getAtts_switch enc b m ptr t g) (getAtts_switch enc b 0 ptr t h)"
proof (cases "t = BT_S")
  case True
  then have "char_len enc t = MINBPC enc" by (simp add: char_len_def lead_len_def)
  with True getAtts_space_runs [OF assms(1,2)] assms(3) show ?thesis
    by (simp add: getAtts_switch_def)
qed (simp add: getAtts_switch_def ga_runs [OF assms(1)])

lemma getAtts_loop_stuck:
  "BYTE_TYPE enc b (ptr + char_len enc t) = None \<Longrightarrow>
    do { g \<leftarrow> getAtts_switch enc b m ptr t g;
         getAtts_loop enc b m g (ptr + char_len enc t) } = None"
  by (cases "getAtts_switch enc b m ptr t g")
    (simp_all add: getAtts_loop.simps [of enc b _ _ "ptr + char_len enc t"])

lemma getAtts_loop_count:
  "ga_rel m g h \<Longrightarrow>
    map_option fst (getAtts_loop enc b m g ptr) = map_option fst (getAtts_loop enc b 0 h ptr)"
proof (induction enc b m g ptr arbitrary: h rule: getAtts_loop.induct)
  case (1 enc b m g ptr)
  show ?case
  proof (cases "BYTE_TYPE enc b ptr")
    case None
    then show ?thesis by (simp add: getAtts_loop.simps [of enc b _ _ ptr])
  next
    case t: (Some t)
    have st: "ga_state g = ga_state h" "nAtts g = nAtts h" using "1.prems" by (simp_all add: ga_rel_def)
    show ?thesis
    proof (cases "(t = BT_GT \<or> t = BT_SOL) \<and> ga_state g \<noteq> inValue")
      case True
      then show ?thesis using t st by (simp add: getAtts_loop.simps [of enc b _ _ ptr])
    next
      case False
      then have unf: "getAtts_loop enc b m g ptr = do {
            g \<leftarrow> getAtts_switch enc b m ptr t g; getAtts_loop enc b m g (ptr + char_len enc t) }"
        "getAtts_loop enc b 0 h ptr = do {
            h \<leftarrow> getAtts_switch enc b 0 ptr t h; getAtts_loop enc b 0 h (ptr + char_len enc t) }"
        using t st by (auto simp: getAtts_loop.simps [of enc b _ _ ptr])
      show ?thesis
      proof (cases "BYTE_TYPE enc b (ptr + char_len enc t)")
        case None
        then show ?thesis unfolding unf by (simp add: getAtts_loop_stuck)
      next
        case (Some u)
        from getAtts_switch_runs [OF "1.prems" t Some] obtain g' h' where
          "getAtts_switch enc b m ptr t g = Some g'" "getAtts_switch enc b 0 ptr t h = Some h'"
          "ga_rel m g' h'" by (auto simp: ga_runs_def)
        with "1.IH" [OF t False] show ?thesis unfolding unf by simp
      qed
    qed
  qed
qed

section \<open>Properties\<close>

text \<open>On a decimal character reference \<open>&#ddd;\<close> of any encoding, \<open>charRefNumber\<close> returns the
  number the digits denote when that is a character XML allows, and -1 otherwise, however many
  digits there are.\<close>

lemma charRefNumber_decimal:
  assumes "text_at enc b ptr (ascii ''&#'' @ ds @ ascii '';'')" and "list_all dec_char ds"
  shows "charRefNumber enc b ptr =
    Some (if xml_char (number 10 0 ds) then number 10 0 ds else -1)"
proof -
  have at: "text_at enc b (ptr + 2 * MINBPC enc) (ds @ [0x3B])"
    using assms(1) by (simp add: text_at_Cons_iff add.assoc mult_2)
  have "CHAR_MATCHES enc b (ptr + 2 * MINBPC enc) ASCII_x = Some False"
  proof (cases ds)
    case Nil
    with at text_at_reads(1) [of enc b "ptr + 2 * MINBPC enc" "0x3B" "[]"] show ?thesis by simp
  next
    case (Cons c cs)
    then have "c \<noteq> 0x78" using assms(2) by (auto simp: dec_char_def)
    with at Cons text_at_reads(1) [of enc b "ptr + 2 * MINBPC enc" c "cs @ [0x3B]"]
    show ?thesis by simp
  qed
  then show ?thesis
    using charRefNumber_dec_value [OF at assms(2), of 0]
    by (simp add: charRefNumber_def char_ref_value_def)
qed

text \<open>Likewise for a hexadecimal reference \<open>&#xhhh;\<close>, with digits of either case.\<close>

lemma charRefNumber_hexadecimal:
  assumes "text_at enc b ptr (ascii ''&#x'' @ ds @ ascii '';'')" and "list_all hex_char ds"
  shows "charRefNumber enc b ptr =
    Some (if xml_char (number 16 0 ds) then number 16 0 ds else -1)"
proof -
  have "text_at enc b (ptr + 2 * MINBPC enc) (0x78 # ds @ [0x3B])"
    using assms(1) by (simp add: text_at_Cons_iff add.assoc mult_2)
  note at = text_at_reads [OF this]
  show ?thesis
    using at(1) charRefNumber_hex_value [OF at(3) assms(2), of 0]
    by (simp add: charRefNumber_def char_ref_value_def)
qed

text \<open>\<open>sameName\<close> decides whether the two names, as \<open>nameLength\<close> delimits them, are the same
  bytes; it reads past neither name.\<close>

lemma sameName_correct:
  assumes "nameLength enc b p1 = Some n1" and "nameLength enc b p2 = Some n2"
  shows "sameName enc b p1 p2 = Some (take n1 (drop p1 b) = take n2 (drop p2 b))"
  using assms by (auto simp: nameLength_def sameName_eq)

text \<open>C40: the count \<open>getAtts\<close> returns does not depend on the array it is given: a first call that
  only counts and a second call with a large enough array see the same attributes, no call writes
  past the array, and one returns exactly when the other does.\<close>

theorem getAtts_count:
  assumes "attsMax \<le> int (length array)"
  shows "map_option fst (getAtts enc b ptr attsMax array) = map_option fst (getAtts enc b ptr 0 [])"
  unfolding getAtts_def by (rule getAtts_loop_count) (simp add: ga_rel_def assms)

theorem getAtts_count_witness:
  "map_option fst (getAtts (utf8_encoding True) (ascii ''<a b='' @ [0x22, 0x22] @ ascii ''>'') 0 1
     [\<lparr>name = 0, valuePtr = 0, valueEnd = 0, normalized = False\<rparr>]) = Some 1"
  by (subst getAtts_count) (simp, code_simp)

end
