(* ===== verification/Xml_Role.thy ===== *)
theory Xml_Role
  imports Xml_Names
begin

text \<open>
  The prolog state machine of the bundled expat, \<^verbatim>\<open>xmlrole.c\<close> and \<^verbatim>\<open>xmlrole.h\<close>. The handler
  pointer of \<open>PROLOG_STATE\<close> is a value of the datatype \<open>handler\<close>, one constructor per
  \<open>PROLOG_HANDLER\<close> function; each function is a definition of the same name, and \<open>XmlTokenRole\<close>
  calls the one the state points to. A result \<open>None\<close> is a fault of the keyword comparison.
\<close>

section \<open>Roles, handlers and the state\<close>

abbreviation (input) XML_ROLE_ERROR :: int where "XML_ROLE_ERROR \<equiv> -1"
abbreviation (input) XML_ROLE_NONE :: int where "XML_ROLE_NONE \<equiv> 0"
abbreviation (input) XML_ROLE_XML_DECL :: int where "XML_ROLE_XML_DECL \<equiv> 1"
abbreviation (input) XML_ROLE_INSTANCE_START :: int where "XML_ROLE_INSTANCE_START \<equiv> 2"
abbreviation (input) XML_ROLE_DOCTYPE_NONE :: int where "XML_ROLE_DOCTYPE_NONE \<equiv> 3"
abbreviation (input) XML_ROLE_DOCTYPE_NAME :: int where "XML_ROLE_DOCTYPE_NAME \<equiv> 4"
abbreviation (input) XML_ROLE_DOCTYPE_SYSTEM_ID :: int where "XML_ROLE_DOCTYPE_SYSTEM_ID \<equiv> 5"
abbreviation (input) XML_ROLE_DOCTYPE_PUBLIC_ID :: int where "XML_ROLE_DOCTYPE_PUBLIC_ID \<equiv> 6"
abbreviation (input) XML_ROLE_DOCTYPE_INTERNAL_SUBSET :: int where "XML_ROLE_DOCTYPE_INTERNAL_SUBSET \<equiv> 7"
abbreviation (input) XML_ROLE_DOCTYPE_CLOSE :: int where "XML_ROLE_DOCTYPE_CLOSE \<equiv> 8"
abbreviation (input) XML_ROLE_GENERAL_ENTITY_NAME :: int where "XML_ROLE_GENERAL_ENTITY_NAME \<equiv> 9"
abbreviation (input) XML_ROLE_PARAM_ENTITY_NAME :: int where "XML_ROLE_PARAM_ENTITY_NAME \<equiv> 10"
abbreviation (input) XML_ROLE_ENTITY_NONE :: int where "XML_ROLE_ENTITY_NONE \<equiv> 11"
abbreviation (input) XML_ROLE_ENTITY_VALUE :: int where "XML_ROLE_ENTITY_VALUE \<equiv> 12"
abbreviation (input) XML_ROLE_ENTITY_SYSTEM_ID :: int where "XML_ROLE_ENTITY_SYSTEM_ID \<equiv> 13"
abbreviation (input) XML_ROLE_ENTITY_PUBLIC_ID :: int where "XML_ROLE_ENTITY_PUBLIC_ID \<equiv> 14"
abbreviation (input) XML_ROLE_ENTITY_COMPLETE :: int where "XML_ROLE_ENTITY_COMPLETE \<equiv> 15"
abbreviation (input) XML_ROLE_ENTITY_NOTATION_NAME :: int where "XML_ROLE_ENTITY_NOTATION_NAME \<equiv> 16"
abbreviation (input) XML_ROLE_NOTATION_NONE :: int where "XML_ROLE_NOTATION_NONE \<equiv> 17"
abbreviation (input) XML_ROLE_NOTATION_NAME :: int where "XML_ROLE_NOTATION_NAME \<equiv> 18"
abbreviation (input) XML_ROLE_NOTATION_SYSTEM_ID :: int where "XML_ROLE_NOTATION_SYSTEM_ID \<equiv> 19"
abbreviation (input) XML_ROLE_NOTATION_NO_SYSTEM_ID :: int where "XML_ROLE_NOTATION_NO_SYSTEM_ID \<equiv> 20"
abbreviation (input) XML_ROLE_NOTATION_PUBLIC_ID :: int where "XML_ROLE_NOTATION_PUBLIC_ID \<equiv> 21"
abbreviation (input) XML_ROLE_ATTRIBUTE_NAME :: int where "XML_ROLE_ATTRIBUTE_NAME \<equiv> 22"
abbreviation (input) XML_ROLE_ATTRIBUTE_TYPE_CDATA :: int where "XML_ROLE_ATTRIBUTE_TYPE_CDATA \<equiv> 23"
abbreviation (input) XML_ROLE_ATTRIBUTE_TYPE_ID :: int where "XML_ROLE_ATTRIBUTE_TYPE_ID \<equiv> 24"
abbreviation (input) XML_ROLE_ATTRIBUTE_TYPE_IDREF :: int where "XML_ROLE_ATTRIBUTE_TYPE_IDREF \<equiv> 25"
abbreviation (input) XML_ROLE_ATTRIBUTE_TYPE_IDREFS :: int where "XML_ROLE_ATTRIBUTE_TYPE_IDREFS \<equiv> 26"
abbreviation (input) XML_ROLE_ATTRIBUTE_TYPE_ENTITY :: int where "XML_ROLE_ATTRIBUTE_TYPE_ENTITY \<equiv> 27"
abbreviation (input) XML_ROLE_ATTRIBUTE_TYPE_ENTITIES :: int where "XML_ROLE_ATTRIBUTE_TYPE_ENTITIES \<equiv> 28"
abbreviation (input) XML_ROLE_ATTRIBUTE_TYPE_NMTOKEN :: int where "XML_ROLE_ATTRIBUTE_TYPE_NMTOKEN \<equiv> 29"
abbreviation (input) XML_ROLE_ATTRIBUTE_TYPE_NMTOKENS :: int where "XML_ROLE_ATTRIBUTE_TYPE_NMTOKENS \<equiv> 30"
abbreviation (input) XML_ROLE_ATTRIBUTE_ENUM_VALUE :: int where "XML_ROLE_ATTRIBUTE_ENUM_VALUE \<equiv> 31"
abbreviation (input) XML_ROLE_ATTRIBUTE_NOTATION_VALUE :: int where "XML_ROLE_ATTRIBUTE_NOTATION_VALUE \<equiv> 32"
abbreviation (input) XML_ROLE_ATTLIST_NONE :: int where "XML_ROLE_ATTLIST_NONE \<equiv> 33"
abbreviation (input) XML_ROLE_ATTLIST_ELEMENT_NAME :: int where "XML_ROLE_ATTLIST_ELEMENT_NAME \<equiv> 34"
abbreviation (input) XML_ROLE_IMPLIED_ATTRIBUTE_VALUE :: int where "XML_ROLE_IMPLIED_ATTRIBUTE_VALUE \<equiv> 35"
abbreviation (input) XML_ROLE_REQUIRED_ATTRIBUTE_VALUE :: int where "XML_ROLE_REQUIRED_ATTRIBUTE_VALUE \<equiv> 36"
abbreviation (input) XML_ROLE_DEFAULT_ATTRIBUTE_VALUE :: int where "XML_ROLE_DEFAULT_ATTRIBUTE_VALUE \<equiv> 37"
abbreviation (input) XML_ROLE_FIXED_ATTRIBUTE_VALUE :: int where "XML_ROLE_FIXED_ATTRIBUTE_VALUE \<equiv> 38"
abbreviation (input) XML_ROLE_ELEMENT_NONE :: int where "XML_ROLE_ELEMENT_NONE \<equiv> 39"
abbreviation (input) XML_ROLE_ELEMENT_NAME :: int where "XML_ROLE_ELEMENT_NAME \<equiv> 40"
abbreviation (input) XML_ROLE_CONTENT_ANY :: int where "XML_ROLE_CONTENT_ANY \<equiv> 41"
abbreviation (input) XML_ROLE_CONTENT_EMPTY :: int where "XML_ROLE_CONTENT_EMPTY \<equiv> 42"
abbreviation (input) XML_ROLE_CONTENT_PCDATA :: int where "XML_ROLE_CONTENT_PCDATA \<equiv> 43"
abbreviation (input) XML_ROLE_GROUP_OPEN :: int where "XML_ROLE_GROUP_OPEN \<equiv> 44"
abbreviation (input) XML_ROLE_GROUP_CLOSE :: int where "XML_ROLE_GROUP_CLOSE \<equiv> 45"
abbreviation (input) XML_ROLE_GROUP_CLOSE_REP :: int where "XML_ROLE_GROUP_CLOSE_REP \<equiv> 46"
abbreviation (input) XML_ROLE_GROUP_CLOSE_OPT :: int where "XML_ROLE_GROUP_CLOSE_OPT \<equiv> 47"
abbreviation (input) XML_ROLE_GROUP_CLOSE_PLUS :: int where "XML_ROLE_GROUP_CLOSE_PLUS \<equiv> 48"
abbreviation (input) XML_ROLE_GROUP_CHOICE :: int where "XML_ROLE_GROUP_CHOICE \<equiv> 49"
abbreviation (input) XML_ROLE_GROUP_SEQUENCE :: int where "XML_ROLE_GROUP_SEQUENCE \<equiv> 50"
abbreviation (input) XML_ROLE_CONTENT_ELEMENT :: int where "XML_ROLE_CONTENT_ELEMENT \<equiv> 51"
abbreviation (input) XML_ROLE_CONTENT_ELEMENT_REP :: int where "XML_ROLE_CONTENT_ELEMENT_REP \<equiv> 52"
abbreviation (input) XML_ROLE_CONTENT_ELEMENT_OPT :: int where "XML_ROLE_CONTENT_ELEMENT_OPT \<equiv> 53"
abbreviation (input) XML_ROLE_CONTENT_ELEMENT_PLUS :: int where "XML_ROLE_CONTENT_ELEMENT_PLUS \<equiv> 54"
abbreviation (input) XML_ROLE_PI :: int where "XML_ROLE_PI \<equiv> 55"
abbreviation (input) XML_ROLE_COMMENT :: int where "XML_ROLE_COMMENT \<equiv> 56"
abbreviation (input) XML_ROLE_TEXT_DECL :: int where "XML_ROLE_TEXT_DECL \<equiv> 57"
abbreviation (input) XML_ROLE_IGNORE_SECT :: int where "XML_ROLE_IGNORE_SECT \<equiv> 58"
abbreviation (input) XML_ROLE_INNER_PARAM_ENTITY_REF :: int where "XML_ROLE_INNER_PARAM_ENTITY_REF \<equiv> 59"
abbreviation (input) XML_ROLE_PARAM_ENTITY_REF :: int where "XML_ROLE_PARAM_ENTITY_REF \<equiv> 60"

datatype handler =
    H_prolog0 | H_prolog1 | H_prolog2 | H_doctype0 | H_doctype1 | H_doctype2
  | H_doctype3 | H_doctype4 | H_doctype5 | H_internalSubset | H_externalSubset0 | H_externalSubset1
  | H_entity0 | H_entity1 | H_entity2 | H_entity3 | H_entity4 | H_entity5
  | H_entity6 | H_entity7 | H_entity8 | H_entity9 | H_entity10 | H_notation0
  | H_notation1 | H_notation2 | H_notation3 | H_notation4 | H_attlist0 | H_attlist1
  | H_attlist2 | H_attlist3 | H_attlist4 | H_attlist5 | H_attlist6 | H_attlist7
  | H_attlist8 | H_attlist9 | H_element0 | H_element1 | H_element2 | H_element3
  | H_element4 | H_element5 | H_element6 | H_element7 | H_condSect0 | H_condSect1
  | H_condSect2 | H_declClose | H_error

record PROLOG_STATE =
  handler :: handler
  level :: uint32
  role_none :: int
  includeLevel :: uint32
  documentEntity :: bool
  inEntityValue :: bool

type_synonym PROLOG_HANDLER =
  "PROLOG_STATE \<Rightarrow> int \<Rightarrow> byte list \<Rightarrow> nat \<Rightarrow> encoding \<Rightarrow> (int \<times> PROLOG_STATE) option"

definition KW_ANY :: "byte list" where
  "KW_ANY = ascii ''ANY''"

definition KW_ATTLIST :: "byte list" where
  "KW_ATTLIST = ascii ''ATTLIST''"

definition KW_CDATA :: "byte list" where
  "KW_CDATA = ascii ''CDATA''"

definition KW_DOCTYPE :: "byte list" where
  "KW_DOCTYPE = ascii ''DOCTYPE''"

definition KW_ELEMENT :: "byte list" where
  "KW_ELEMENT = ascii ''ELEMENT''"

definition KW_EMPTY :: "byte list" where
  "KW_EMPTY = ascii ''EMPTY''"

definition KW_ENTITIES :: "byte list" where
  "KW_ENTITIES = ascii ''ENTITIES''"

definition KW_ENTITY :: "byte list" where
  "KW_ENTITY = ascii ''ENTITY''"

definition KW_FIXED :: "byte list" where
  "KW_FIXED = ascii ''FIXED''"

definition KW_ID :: "byte list" where
  "KW_ID = ascii ''ID''"

definition KW_IDREF :: "byte list" where
  "KW_IDREF = ascii ''IDREF''"

definition KW_IDREFS :: "byte list" where
  "KW_IDREFS = ascii ''IDREFS''"

definition KW_IGNORE :: "byte list" where
  "KW_IGNORE = ascii ''IGNORE''"

definition KW_IMPLIED :: "byte list" where
  "KW_IMPLIED = ascii ''IMPLIED''"

definition KW_INCLUDE :: "byte list" where
  "KW_INCLUDE = ascii ''INCLUDE''"

definition KW_NDATA :: "byte list" where
  "KW_NDATA = ascii ''NDATA''"

definition KW_NMTOKEN :: "byte list" where
  "KW_NMTOKEN = ascii ''NMTOKEN''"

definition KW_NMTOKENS :: "byte list" where
  "KW_NMTOKENS = ascii ''NMTOKENS''"

definition KW_NOTATION :: "byte list" where
  "KW_NOTATION = ascii ''NOTATION''"

definition KW_PCDATA :: "byte list" where
  "KW_PCDATA = ascii ''PCDATA''"

definition KW_PUBLIC :: "byte list" where
  "KW_PUBLIC = ascii ''PUBLIC''"

definition KW_REQUIRED :: "byte list" where
  "KW_REQUIRED = ascii ''REQUIRED''"

definition KW_SYSTEM :: "byte list" where
  "KW_SYSTEM = ascii ''SYSTEM''"

lemmas KW_defs = KW_ANY_def KW_ATTLIST_def KW_CDATA_def KW_DOCTYPE_def KW_ELEMENT_def KW_EMPTY_def KW_ENTITIES_def KW_ENTITY_def KW_FIXED_def KW_ID_def KW_IDREF_def KW_IDREFS_def KW_IGNORE_def KW_IMPLIED_def KW_INCLUDE_def KW_NDATA_def KW_NMTOKEN_def KW_NMTOKENS_def KW_NOTATION_def KW_PCDATA_def KW_PUBLIC_def KW_REQUIRED_def KW_SYSTEM_def

definition MIN_BYTES_PER_CHAR :: "encoding \<Rightarrow> nat" where
  "MIN_BYTES_PER_CHAR enc = minBytesPerChar enc"

definition XmlNameMatchesAscii :: "encoding \<Rightarrow> byte list \<Rightarrow> nat \<Rightarrow> byte list \<Rightarrow> bool option" where
  "XmlNameMatchesAscii enc b ptr kw = nameMatchesAscii enc b ptr kw"

definition setTopLevel :: "PROLOG_STATE \<Rightarrow> PROLOG_STATE" where
  "setTopLevel s = s\<lparr>handler := if documentEntity s then H_internalSubset else H_externalSubset1\<rparr>"

definition common :: "PROLOG_STATE \<Rightarrow> int \<Rightarrow> (int \<times> PROLOG_STATE) option" where
  "common s tok =
     (if \<not> documentEntity s \<and> tok = XML_TOK_PARAM_ENTITY_REF
      then Some (XML_ROLE_INNER_PARAM_ENTITY_REF, s)
      else Some (XML_ROLE_ERROR, s\<lparr>handler := H_error\<rparr>))"

section \<open>Handlers\<close>

definition prolog0 :: PROLOG_HANDLER where
  "prolog0 s tok b ptr enc =
     (if tok = XML_TOK_PROLOG_S then
        Some (XML_ROLE_NONE, s\<lparr>handler := H_prolog1\<rparr>)
      else if tok = XML_TOK_XML_DECL then
        Some (XML_ROLE_XML_DECL, s\<lparr>handler := H_prolog1\<rparr>)
      else if tok = XML_TOK_PI then
        Some (XML_ROLE_PI, s\<lparr>handler := H_prolog1\<rparr>)
      else if tok = XML_TOK_COMMENT then
        Some (XML_ROLE_COMMENT, s\<lparr>handler := H_prolog1\<rparr>)
      else if tok = XML_TOK_BOM then
        Some (XML_ROLE_NONE, s)
      else if tok = XML_TOK_DECL_OPEN then
        do {
          m \<leftarrow> XmlNameMatchesAscii enc b (ptr + 2 * MIN_BYTES_PER_CHAR enc) KW_DOCTYPE;
          if \<not> m then
            common s tok
          else
            Some (XML_ROLE_DOCTYPE_NONE, s\<lparr>handler := H_doctype0\<rparr>)
        }
      else if tok = XML_TOK_INSTANCE_START then
        Some (XML_ROLE_INSTANCE_START, s\<lparr>handler := H_error\<rparr>)
      else common s tok)"

definition prolog1 :: PROLOG_HANDLER where
  "prolog1 s tok b ptr enc =
     (if tok = XML_TOK_PROLOG_S then
        Some (XML_ROLE_NONE, s)
      else if tok = XML_TOK_PI then
        Some (XML_ROLE_PI, s)
      else if tok = XML_TOK_COMMENT then
        Some (XML_ROLE_COMMENT, s)
      else if tok = XML_TOK_BOM then
        Some (XML_ROLE_NONE, s)
      else if tok = XML_TOK_DECL_OPEN then
        do {
          m \<leftarrow> XmlNameMatchesAscii enc b (ptr + 2 * MIN_BYTES_PER_CHAR enc) KW_DOCTYPE;
          if \<not> m then
            common s tok
          else
            Some (XML_ROLE_DOCTYPE_NONE, s\<lparr>handler := H_doctype0\<rparr>)
        }
      else if tok = XML_TOK_INSTANCE_START then
        Some (XML_ROLE_INSTANCE_START, s\<lparr>handler := H_error\<rparr>)
      else common s tok)"

definition prolog2 :: PROLOG_HANDLER where
  "prolog2 s tok b ptr enc =
     (if tok = XML_TOK_PROLOG_S then
        Some (XML_ROLE_NONE, s)
      else if tok = XML_TOK_PI then
        Some (XML_ROLE_PI, s)
      else if tok = XML_TOK_COMMENT then
        Some (XML_ROLE_COMMENT, s)
      else if tok = XML_TOK_INSTANCE_START then
        Some (XML_ROLE_INSTANCE_START, s\<lparr>handler := H_error\<rparr>)
      else common s tok)"

definition doctype0 :: PROLOG_HANDLER where
  "doctype0 s tok b ptr enc =
     (if tok = XML_TOK_PROLOG_S then
        Some (XML_ROLE_DOCTYPE_NONE, s)
      else if tok = XML_TOK_NAME \<or> tok = XML_TOK_PREFIXED_NAME then
        Some (XML_ROLE_DOCTYPE_NAME, s\<lparr>handler := H_doctype1\<rparr>)
      else common s tok)"

definition doctype1 :: PROLOG_HANDLER where
  "doctype1 s tok b ptr enc =
     (if tok = XML_TOK_PROLOG_S then
        Some (XML_ROLE_DOCTYPE_NONE, s)
      else if tok = XML_TOK_OPEN_BRACKET then
        Some (XML_ROLE_DOCTYPE_INTERNAL_SUBSET, s\<lparr>handler := H_internalSubset\<rparr>)
      else if tok = XML_TOK_DECL_CLOSE then
        Some (XML_ROLE_DOCTYPE_CLOSE, s\<lparr>handler := H_prolog2\<rparr>)
      else if tok = XML_TOK_NAME then
        do {
          m \<leftarrow> XmlNameMatchesAscii enc b ptr KW_SYSTEM;
          if m then
            Some (XML_ROLE_DOCTYPE_NONE, s\<lparr>handler := H_doctype3\<rparr>)
          else
            do {
              m \<leftarrow> XmlNameMatchesAscii enc b ptr KW_PUBLIC;
              if m then
                Some (XML_ROLE_DOCTYPE_NONE, s\<lparr>handler := H_doctype2\<rparr>)
              else
                common s tok
            }
        }
      else common s tok)"

definition doctype2 :: PROLOG_HANDLER where
  "doctype2 s tok b ptr enc =
     (if tok = XML_TOK_PROLOG_S then
        Some (XML_ROLE_DOCTYPE_NONE, s)
      else if tok = XML_TOK_LITERAL then
        Some (XML_ROLE_DOCTYPE_PUBLIC_ID, s\<lparr>handler := H_doctype3\<rparr>)
      else common s tok)"

definition doctype3 :: PROLOG_HANDLER where
  "doctype3 s tok b ptr enc =
     (if tok = XML_TOK_PROLOG_S then
        Some (XML_ROLE_DOCTYPE_NONE, s)
      else if tok = XML_TOK_LITERAL then
        Some (XML_ROLE_DOCTYPE_SYSTEM_ID, s\<lparr>handler := H_doctype4\<rparr>)
      else common s tok)"

definition doctype4 :: PROLOG_HANDLER where
  "doctype4 s tok b ptr enc =
     (if tok = XML_TOK_PROLOG_S then
        Some (XML_ROLE_DOCTYPE_NONE, s)
      else if tok = XML_TOK_OPEN_BRACKET then
        Some (XML_ROLE_DOCTYPE_INTERNAL_SUBSET, s\<lparr>handler := H_internalSubset\<rparr>)
      else if tok = XML_TOK_DECL_CLOSE then
        Some (XML_ROLE_DOCTYPE_CLOSE, s\<lparr>handler := H_prolog2\<rparr>)
      else common s tok)"

definition doctype5 :: PROLOG_HANDLER where
  "doctype5 s tok b ptr enc =
     (if tok = XML_TOK_PROLOG_S then
        Some (XML_ROLE_DOCTYPE_NONE, s)
      else if tok = XML_TOK_DECL_CLOSE then
        Some (XML_ROLE_DOCTYPE_CLOSE, s\<lparr>handler := H_prolog2\<rparr>)
      else common s tok)"

definition internalSubset :: PROLOG_HANDLER where
  "internalSubset s tok b ptr enc =
     (if tok = XML_TOK_PROLOG_S then
        Some (XML_ROLE_NONE, s)
      else if tok = XML_TOK_DECL_OPEN then
        do {
          m \<leftarrow> XmlNameMatchesAscii enc b (ptr + 2 * MIN_BYTES_PER_CHAR enc) KW_ENTITY;
          if m then
            Some (XML_ROLE_ENTITY_NONE, s\<lparr>handler := H_entity0\<rparr>)
          else
            do {
              m \<leftarrow> XmlNameMatchesAscii enc b (ptr + 2 * MIN_BYTES_PER_CHAR enc) KW_ATTLIST;
              if m then
                Some (XML_ROLE_ATTLIST_NONE, s\<lparr>handler := H_attlist0\<rparr>)
              else
                do {
                  m \<leftarrow> XmlNameMatchesAscii enc b (ptr + 2 * MIN_BYTES_PER_CHAR enc) KW_ELEMENT;
                  if m then
                    Some (XML_ROLE_ELEMENT_NONE, s\<lparr>handler := H_element0\<rparr>)
                  else
                    do {
                      m \<leftarrow> XmlNameMatchesAscii enc b (ptr + 2 * MIN_BYTES_PER_CHAR enc) KW_NOTATION;
                      if m then
                        Some (XML_ROLE_NOTATION_NONE, s\<lparr>handler := H_notation0\<rparr>)
                      else
                        common s tok
                    }
                }
            }
        }
      else if tok = XML_TOK_PI then
        Some (XML_ROLE_PI, s)
      else if tok = XML_TOK_COMMENT then
        Some (XML_ROLE_COMMENT, s)
      else if tok = XML_TOK_PARAM_ENTITY_REF then
        Some (XML_ROLE_PARAM_ENTITY_REF, s)
      else if tok = XML_TOK_CLOSE_BRACKET then
        Some (XML_ROLE_DOCTYPE_NONE, s\<lparr>handler := H_doctype5\<rparr>)
      else if tok = XML_TOK_NONE then
        Some (XML_ROLE_NONE, s)
      else common s tok)"

definition externalSubset1 :: PROLOG_HANDLER where
  "externalSubset1 s tok b ptr enc =
     (if tok = XML_TOK_COND_SECT_OPEN then Some (XML_ROLE_NONE, s\<lparr>handler := H_condSect0\<rparr>)
      else if tok = XML_TOK_COND_SECT_CLOSE then
        if includeLevel s = 0 then common s tok
        else Some (XML_ROLE_NONE, s\<lparr>includeLevel := includeLevel s - 1\<rparr>)
      else if tok = XML_TOK_PROLOG_S then Some (XML_ROLE_NONE, s)
      else if tok = XML_TOK_CLOSE_BRACKET then common s tok
      else if tok = XML_TOK_NONE then
        if includeLevel s \<noteq> 0 then common s tok else Some (XML_ROLE_NONE, s)
      else internalSubset s tok b ptr enc)"

definition externalSubset0 :: PROLOG_HANDLER where
  "externalSubset0 s tok b ptr enc =
     (let s = s\<lparr>handler := H_externalSubset1\<rparr> in
      if tok = XML_TOK_XML_DECL then Some (XML_ROLE_TEXT_DECL, s)
      else externalSubset1 s tok b ptr enc)"

definition entity0 :: PROLOG_HANDLER where
  "entity0 s tok b ptr enc =
     (if tok = XML_TOK_PROLOG_S then
        Some (XML_ROLE_ENTITY_NONE, s)
      else if tok = XML_TOK_PERCENT then
        Some (XML_ROLE_ENTITY_NONE, s\<lparr>handler := H_entity1\<rparr>)
      else if tok = XML_TOK_NAME then
        Some (XML_ROLE_GENERAL_ENTITY_NAME, s\<lparr>handler := H_entity2\<rparr>)
      else common s tok)"

definition entity1 :: PROLOG_HANDLER where
  "entity1 s tok b ptr enc =
     (if tok = XML_TOK_PROLOG_S then
        Some (XML_ROLE_ENTITY_NONE, s)
      else if tok = XML_TOK_NAME then
        Some (XML_ROLE_PARAM_ENTITY_NAME, s\<lparr>handler := H_entity7\<rparr>)
      else common s tok)"

definition entity2 :: PROLOG_HANDLER where
  "entity2 s tok b ptr enc =
     (if tok = XML_TOK_PROLOG_S then
        Some (XML_ROLE_ENTITY_NONE, s)
      else if tok = XML_TOK_NAME then
        do {
          m \<leftarrow> XmlNameMatchesAscii enc b ptr KW_SYSTEM;
          if m then
            Some (XML_ROLE_ENTITY_NONE, s\<lparr>handler := H_entity4\<rparr>)
          else
            do {
              m \<leftarrow> XmlNameMatchesAscii enc b ptr KW_PUBLIC;
              if m then
                Some (XML_ROLE_ENTITY_NONE, s\<lparr>handler := H_entity3\<rparr>)
              else
                common s tok
            }
        }
      else if tok = XML_TOK_LITERAL then
        Some (XML_ROLE_ENTITY_VALUE, s\<lparr>handler := H_declClose, role_none := XML_ROLE_ENTITY_NONE\<rparr>)
      else common s tok)"

definition entity3 :: PROLOG_HANDLER where
  "entity3 s tok b ptr enc =
     (if tok = XML_TOK_PROLOG_S then
        Some (XML_ROLE_ENTITY_NONE, s)
      else if tok = XML_TOK_LITERAL then
        Some (XML_ROLE_ENTITY_PUBLIC_ID, s\<lparr>handler := H_entity4\<rparr>)
      else common s tok)"

definition entity4 :: PROLOG_HANDLER where
  "entity4 s tok b ptr enc =
     (if tok = XML_TOK_PROLOG_S then
        Some (XML_ROLE_ENTITY_NONE, s)
      else if tok = XML_TOK_LITERAL then
        Some (XML_ROLE_ENTITY_SYSTEM_ID, s\<lparr>handler := H_entity5\<rparr>)
      else common s tok)"

definition entity5 :: PROLOG_HANDLER where
  "entity5 s tok b ptr enc =
     (if tok = XML_TOK_PROLOG_S then
        Some (XML_ROLE_ENTITY_NONE, s)
      else if tok = XML_TOK_DECL_CLOSE then
        Some (XML_ROLE_ENTITY_COMPLETE, setTopLevel s)
      else if tok = XML_TOK_NAME then
        do {
          m \<leftarrow> XmlNameMatchesAscii enc b ptr KW_NDATA;
          if m then
            Some (XML_ROLE_ENTITY_NONE, s\<lparr>handler := H_entity6\<rparr>)
          else
            common s tok
        }
      else common s tok)"

definition entity6 :: PROLOG_HANDLER where
  "entity6 s tok b ptr enc =
     (if tok = XML_TOK_PROLOG_S then
        Some (XML_ROLE_ENTITY_NONE, s)
      else if tok = XML_TOK_NAME then
        Some (XML_ROLE_ENTITY_NOTATION_NAME, s\<lparr>handler := H_declClose, role_none := XML_ROLE_ENTITY_NONE\<rparr>)
      else common s tok)"

definition entity7 :: PROLOG_HANDLER where
  "entity7 s tok b ptr enc =
     (if tok = XML_TOK_PROLOG_S then
        Some (XML_ROLE_ENTITY_NONE, s)
      else if tok = XML_TOK_NAME then
        do {
          m \<leftarrow> XmlNameMatchesAscii enc b ptr KW_SYSTEM;
          if m then
            Some (XML_ROLE_ENTITY_NONE, s\<lparr>handler := H_entity9\<rparr>)
          else
            do {
              m \<leftarrow> XmlNameMatchesAscii enc b ptr KW_PUBLIC;
              if m then
                Some (XML_ROLE_ENTITY_NONE, s\<lparr>handler := H_entity8\<rparr>)
              else
                common s tok
            }
        }
      else if tok = XML_TOK_LITERAL then
        Some (XML_ROLE_ENTITY_VALUE, s\<lparr>handler := H_declClose, role_none := XML_ROLE_ENTITY_NONE\<rparr>)
      else common s tok)"

definition entity8 :: PROLOG_HANDLER where
  "entity8 s tok b ptr enc =
     (if tok = XML_TOK_PROLOG_S then
        Some (XML_ROLE_ENTITY_NONE, s)
      else if tok = XML_TOK_LITERAL then
        Some (XML_ROLE_ENTITY_PUBLIC_ID, s\<lparr>handler := H_entity9\<rparr>)
      else common s tok)"

definition entity9 :: PROLOG_HANDLER where
  "entity9 s tok b ptr enc =
     (if tok = XML_TOK_PROLOG_S then
        Some (XML_ROLE_ENTITY_NONE, s)
      else if tok = XML_TOK_LITERAL then
        Some (XML_ROLE_ENTITY_SYSTEM_ID, s\<lparr>handler := H_entity10\<rparr>)
      else common s tok)"

definition entity10 :: PROLOG_HANDLER where
  "entity10 s tok b ptr enc =
     (if tok = XML_TOK_PROLOG_S then
        Some (XML_ROLE_ENTITY_NONE, s)
      else if tok = XML_TOK_DECL_CLOSE then
        Some (XML_ROLE_ENTITY_COMPLETE, setTopLevel s)
      else common s tok)"

definition notation0 :: PROLOG_HANDLER where
  "notation0 s tok b ptr enc =
     (if tok = XML_TOK_PROLOG_S then
        Some (XML_ROLE_NOTATION_NONE, s)
      else if tok = XML_TOK_NAME then
        Some (XML_ROLE_NOTATION_NAME, s\<lparr>handler := H_notation1\<rparr>)
      else common s tok)"

definition notation1 :: PROLOG_HANDLER where
  "notation1 s tok b ptr enc =
     (if tok = XML_TOK_PROLOG_S then
        Some (XML_ROLE_NOTATION_NONE, s)
      else if tok = XML_TOK_NAME then
        do {
          m \<leftarrow> XmlNameMatchesAscii enc b ptr KW_SYSTEM;
          if m then
            Some (XML_ROLE_NOTATION_NONE, s\<lparr>handler := H_notation3\<rparr>)
          else
            do {
              m \<leftarrow> XmlNameMatchesAscii enc b ptr KW_PUBLIC;
              if m then
                Some (XML_ROLE_NOTATION_NONE, s\<lparr>handler := H_notation2\<rparr>)
              else
                common s tok
            }
        }
      else common s tok)"

definition notation2 :: PROLOG_HANDLER where
  "notation2 s tok b ptr enc =
     (if tok = XML_TOK_PROLOG_S then
        Some (XML_ROLE_NOTATION_NONE, s)
      else if tok = XML_TOK_LITERAL then
        Some (XML_ROLE_NOTATION_PUBLIC_ID, s\<lparr>handler := H_notation4\<rparr>)
      else common s tok)"

definition notation3 :: PROLOG_HANDLER where
  "notation3 s tok b ptr enc =
     (if tok = XML_TOK_PROLOG_S then
        Some (XML_ROLE_NOTATION_NONE, s)
      else if tok = XML_TOK_LITERAL then
        Some (XML_ROLE_NOTATION_SYSTEM_ID, s\<lparr>handler := H_declClose, role_none := XML_ROLE_NOTATION_NONE\<rparr>)
      else common s tok)"

definition notation4 :: PROLOG_HANDLER where
  "notation4 s tok b ptr enc =
     (if tok = XML_TOK_PROLOG_S then
        Some (XML_ROLE_NOTATION_NONE, s)
      else if tok = XML_TOK_LITERAL then
        Some (XML_ROLE_NOTATION_SYSTEM_ID, s\<lparr>handler := H_declClose, role_none := XML_ROLE_NOTATION_NONE\<rparr>)
      else if tok = XML_TOK_DECL_CLOSE then
        Some (XML_ROLE_NOTATION_NO_SYSTEM_ID, setTopLevel s)
      else common s tok)"

definition attlist0 :: PROLOG_HANDLER where
  "attlist0 s tok b ptr enc =
     (if tok = XML_TOK_PROLOG_S then
        Some (XML_ROLE_ATTLIST_NONE, s)
      else if tok = XML_TOK_NAME \<or> tok = XML_TOK_PREFIXED_NAME then
        Some (XML_ROLE_ATTLIST_ELEMENT_NAME, s\<lparr>handler := H_attlist1\<rparr>)
      else common s tok)"

definition attlist1 :: PROLOG_HANDLER where
  "attlist1 s tok b ptr enc =
     (if tok = XML_TOK_PROLOG_S then
        Some (XML_ROLE_ATTLIST_NONE, s)
      else if tok = XML_TOK_DECL_CLOSE then
        Some (XML_ROLE_ATTLIST_NONE, setTopLevel s)
      else if tok = XML_TOK_NAME \<or> tok = XML_TOK_PREFIXED_NAME then
        Some (XML_ROLE_ATTRIBUTE_NAME, s\<lparr>handler := H_attlist2\<rparr>)
      else common s tok)"

text \<open>The loop over the attribute types: the index of the first keyword that matches.\<close>

definition types :: "byte list list" where
  "types = [KW_CDATA, KW_ID, KW_IDREF, KW_IDREFS, KW_ENTITY, KW_ENTITIES, KW_NMTOKEN, KW_NMTOKENS]"

fun first_match :: "encoding \<Rightarrow> byte list \<Rightarrow> nat \<Rightarrow> byte list list \<Rightarrow> int \<Rightarrow> int option option" where
  "first_match enc b ptr [] i = Some None"
| "first_match enc b ptr (kw # kws) i = do {
     m \<leftarrow> XmlNameMatchesAscii enc b ptr kw;
     if m then Some (Some i) else first_match enc b ptr kws (i + 1)
   }"

definition attlist2 :: PROLOG_HANDLER where
  "attlist2 s tok b ptr enc =
     (if tok = XML_TOK_PROLOG_S then Some (XML_ROLE_ATTLIST_NONE, s)
      else if tok = XML_TOK_NAME then do {
        i \<leftarrow> first_match enc b ptr types 0;
        case i of
          Some i \<Rightarrow> Some (XML_ROLE_ATTRIBUTE_TYPE_CDATA + i, s\<lparr>handler := H_attlist8\<rparr>)
        | None \<Rightarrow> do {
            m \<leftarrow> XmlNameMatchesAscii enc b ptr KW_NOTATION;
            if m then Some (XML_ROLE_ATTLIST_NONE, s\<lparr>handler := H_attlist5\<rparr>)
            else common s tok
          }
      }
      else if tok = XML_TOK_OPEN_PAREN
      then Some (XML_ROLE_ATTLIST_NONE, s\<lparr>handler := H_attlist3\<rparr>)
      else common s tok)"

definition attlist3 :: PROLOG_HANDLER where
  "attlist3 s tok b ptr enc =
     (if tok = XML_TOK_PROLOG_S then
        Some (XML_ROLE_ATTLIST_NONE, s)
      else if tok = XML_TOK_NMTOKEN \<or> tok = XML_TOK_NAME \<or> tok = XML_TOK_PREFIXED_NAME then
        Some (XML_ROLE_ATTRIBUTE_ENUM_VALUE, s\<lparr>handler := H_attlist4\<rparr>)
      else common s tok)"

definition attlist4 :: PROLOG_HANDLER where
  "attlist4 s tok b ptr enc =
     (if tok = XML_TOK_PROLOG_S then
        Some (XML_ROLE_ATTLIST_NONE, s)
      else if tok = XML_TOK_CLOSE_PAREN then
        Some (XML_ROLE_ATTLIST_NONE, s\<lparr>handler := H_attlist8\<rparr>)
      else if tok = XML_TOK_OR then
        Some (XML_ROLE_ATTLIST_NONE, s\<lparr>handler := H_attlist3\<rparr>)
      else common s tok)"

definition attlist5 :: PROLOG_HANDLER where
  "attlist5 s tok b ptr enc =
     (if tok = XML_TOK_PROLOG_S then
        Some (XML_ROLE_ATTLIST_NONE, s)
      else if tok = XML_TOK_OPEN_PAREN then
        Some (XML_ROLE_ATTLIST_NONE, s\<lparr>handler := H_attlist6\<rparr>)
      else common s tok)"

definition attlist6 :: PROLOG_HANDLER where
  "attlist6 s tok b ptr enc =
     (if tok = XML_TOK_PROLOG_S then
        Some (XML_ROLE_ATTLIST_NONE, s)
      else if tok = XML_TOK_NAME then
        Some (XML_ROLE_ATTRIBUTE_NOTATION_VALUE, s\<lparr>handler := H_attlist7\<rparr>)
      else common s tok)"

definition attlist7 :: PROLOG_HANDLER where
  "attlist7 s tok b ptr enc =
     (if tok = XML_TOK_PROLOG_S then
        Some (XML_ROLE_ATTLIST_NONE, s)
      else if tok = XML_TOK_CLOSE_PAREN then
        Some (XML_ROLE_ATTLIST_NONE, s\<lparr>handler := H_attlist8\<rparr>)
      else if tok = XML_TOK_OR then
        Some (XML_ROLE_ATTLIST_NONE, s\<lparr>handler := H_attlist6\<rparr>)
      else common s tok)"

definition attlist8 :: PROLOG_HANDLER where
  "attlist8 s tok b ptr enc =
     (if tok = XML_TOK_PROLOG_S then
        Some (XML_ROLE_ATTLIST_NONE, s)
      else if tok = XML_TOK_POUND_NAME then
        do {
          m \<leftarrow> XmlNameMatchesAscii enc b (ptr + MIN_BYTES_PER_CHAR enc) KW_IMPLIED;
          if m then
            Some (XML_ROLE_IMPLIED_ATTRIBUTE_VALUE, s\<lparr>handler := H_attlist1\<rparr>)
          else
            do {
              m \<leftarrow> XmlNameMatchesAscii enc b (ptr + MIN_BYTES_PER_CHAR enc) KW_REQUIRED;
              if m then
                Some (XML_ROLE_REQUIRED_ATTRIBUTE_VALUE, s\<lparr>handler := H_attlist1\<rparr>)
              else
                do {
                  m \<leftarrow> XmlNameMatchesAscii enc b (ptr + MIN_BYTES_PER_CHAR enc) KW_FIXED;
                  if m then
                    Some (XML_ROLE_ATTLIST_NONE, s\<lparr>handler := H_attlist9\<rparr>)
                  else
                    common s tok
                }
            }
        }
      else if tok = XML_TOK_LITERAL then
        Some (XML_ROLE_DEFAULT_ATTRIBUTE_VALUE, s\<lparr>handler := H_attlist1\<rparr>)
      else common s tok)"

definition attlist9 :: PROLOG_HANDLER where
  "attlist9 s tok b ptr enc =
     (if tok = XML_TOK_PROLOG_S then
        Some (XML_ROLE_ATTLIST_NONE, s)
      else if tok = XML_TOK_LITERAL then
        Some (XML_ROLE_FIXED_ATTRIBUTE_VALUE, s\<lparr>handler := H_attlist1\<rparr>)
      else common s tok)"

definition element0 :: PROLOG_HANDLER where
  "element0 s tok b ptr enc =
     (if tok = XML_TOK_PROLOG_S then
        Some (XML_ROLE_ELEMENT_NONE, s)
      else if tok = XML_TOK_NAME \<or> tok = XML_TOK_PREFIXED_NAME then
        Some (XML_ROLE_ELEMENT_NAME, s\<lparr>handler := H_element1\<rparr>)
      else common s tok)"

definition element1 :: PROLOG_HANDLER where
  "element1 s tok b ptr enc =
     (if tok = XML_TOK_PROLOG_S then
        Some (XML_ROLE_ELEMENT_NONE, s)
      else if tok = XML_TOK_NAME then
        do {
          m \<leftarrow> XmlNameMatchesAscii enc b ptr KW_EMPTY;
          if m then
            Some (XML_ROLE_CONTENT_EMPTY, s\<lparr>handler := H_declClose, role_none := XML_ROLE_ELEMENT_NONE\<rparr>)
          else
            do {
              m \<leftarrow> XmlNameMatchesAscii enc b ptr KW_ANY;
              if m then
                Some (XML_ROLE_CONTENT_ANY, s\<lparr>handler := H_declClose, role_none := XML_ROLE_ELEMENT_NONE\<rparr>)
              else
                common s tok
            }
        }
      else if tok = XML_TOK_OPEN_PAREN then
        Some (XML_ROLE_GROUP_OPEN, s\<lparr>handler := H_element2, level := 1\<rparr>)
      else common s tok)"

definition element2 :: PROLOG_HANDLER where
  "element2 s tok b ptr enc =
     (if tok = XML_TOK_PROLOG_S then
        Some (XML_ROLE_ELEMENT_NONE, s)
      else if tok = XML_TOK_POUND_NAME then
        do {
          m \<leftarrow> XmlNameMatchesAscii enc b (ptr + MIN_BYTES_PER_CHAR enc) KW_PCDATA;
          if m then
            Some (XML_ROLE_CONTENT_PCDATA, s\<lparr>handler := H_element3\<rparr>)
          else
            common s tok
        }
      else if tok = XML_TOK_OPEN_PAREN then
        Some (XML_ROLE_GROUP_OPEN, s\<lparr>level := 2, handler := H_element6\<rparr>)
      else if tok = XML_TOK_NAME \<or> tok = XML_TOK_PREFIXED_NAME then
        Some (XML_ROLE_CONTENT_ELEMENT, s\<lparr>handler := H_element7\<rparr>)
      else if tok = XML_TOK_NAME_QUESTION then
        Some (XML_ROLE_CONTENT_ELEMENT_OPT, s\<lparr>handler := H_element7\<rparr>)
      else if tok = XML_TOK_NAME_ASTERISK then
        Some (XML_ROLE_CONTENT_ELEMENT_REP, s\<lparr>handler := H_element7\<rparr>)
      else if tok = XML_TOK_NAME_PLUS then
        Some (XML_ROLE_CONTENT_ELEMENT_PLUS, s\<lparr>handler := H_element7\<rparr>)
      else common s tok)"

definition element3 :: PROLOG_HANDLER where
  "element3 s tok b ptr enc =
     (if tok = XML_TOK_PROLOG_S then
        Some (XML_ROLE_ELEMENT_NONE, s)
      else if tok = XML_TOK_CLOSE_PAREN then
        Some (XML_ROLE_GROUP_CLOSE, s\<lparr>handler := H_declClose, role_none := XML_ROLE_ELEMENT_NONE\<rparr>)
      else if tok = XML_TOK_CLOSE_PAREN_ASTERISK then
        Some (XML_ROLE_GROUP_CLOSE_REP, s\<lparr>handler := H_declClose, role_none := XML_ROLE_ELEMENT_NONE\<rparr>)
      else if tok = XML_TOK_OR then
        Some (XML_ROLE_ELEMENT_NONE, s\<lparr>handler := H_element4\<rparr>)
      else common s tok)"

definition element4 :: PROLOG_HANDLER where
  "element4 s tok b ptr enc =
     (if tok = XML_TOK_PROLOG_S then
        Some (XML_ROLE_ELEMENT_NONE, s)
      else if tok = XML_TOK_NAME \<or> tok = XML_TOK_PREFIXED_NAME then
        Some (XML_ROLE_CONTENT_ELEMENT, s\<lparr>handler := H_element5\<rparr>)
      else common s tok)"

definition element5 :: PROLOG_HANDLER where
  "element5 s tok b ptr enc =
     (if tok = XML_TOK_PROLOG_S then
        Some (XML_ROLE_ELEMENT_NONE, s)
      else if tok = XML_TOK_CLOSE_PAREN_ASTERISK then
        Some (XML_ROLE_GROUP_CLOSE_REP, s\<lparr>handler := H_declClose, role_none := XML_ROLE_ELEMENT_NONE\<rparr>)
      else if tok = XML_TOK_OR then
        Some (XML_ROLE_ELEMENT_NONE, s\<lparr>handler := H_element4\<rparr>)
      else common s tok)"

definition element6 :: PROLOG_HANDLER where
  "element6 s tok b ptr enc =
     (if tok = XML_TOK_PROLOG_S then
        Some (XML_ROLE_ELEMENT_NONE, s)
      else if tok = XML_TOK_OPEN_PAREN then
        Some (XML_ROLE_GROUP_OPEN, s\<lparr>level := level s + 1\<rparr>)
      else if tok = XML_TOK_NAME \<or> tok = XML_TOK_PREFIXED_NAME then
        Some (XML_ROLE_CONTENT_ELEMENT, s\<lparr>handler := H_element7\<rparr>)
      else if tok = XML_TOK_NAME_QUESTION then
        Some (XML_ROLE_CONTENT_ELEMENT_OPT, s\<lparr>handler := H_element7\<rparr>)
      else if tok = XML_TOK_NAME_ASTERISK then
        Some (XML_ROLE_CONTENT_ELEMENT_REP, s\<lparr>handler := H_element7\<rparr>)
      else if tok = XML_TOK_NAME_PLUS then
        Some (XML_ROLE_CONTENT_ELEMENT_PLUS, s\<lparr>handler := H_element7\<rparr>)
      else common s tok)"

definition element7 :: PROLOG_HANDLER where
  "element7 s tok b ptr enc =
     (if tok = XML_TOK_PROLOG_S then
        Some (XML_ROLE_ELEMENT_NONE, s)
      else if tok = XML_TOK_CLOSE_PAREN then
        (let s = s\<lparr>level := level s - 1\<rparr> in
           Some (XML_ROLE_GROUP_CLOSE, if level s = 0 then s\<lparr>handler := H_declClose, role_none := XML_ROLE_ELEMENT_NONE\<rparr> else s))
      else if tok = XML_TOK_CLOSE_PAREN_ASTERISK then
        (let s = s\<lparr>level := level s - 1\<rparr> in
           Some (XML_ROLE_GROUP_CLOSE_REP, if level s = 0 then s\<lparr>handler := H_declClose, role_none := XML_ROLE_ELEMENT_NONE\<rparr> else s))
      else if tok = XML_TOK_CLOSE_PAREN_QUESTION then
        (let s = s\<lparr>level := level s - 1\<rparr> in
           Some (XML_ROLE_GROUP_CLOSE_OPT, if level s = 0 then s\<lparr>handler := H_declClose, role_none := XML_ROLE_ELEMENT_NONE\<rparr> else s))
      else if tok = XML_TOK_CLOSE_PAREN_PLUS then
        (let s = s\<lparr>level := level s - 1\<rparr> in
           Some (XML_ROLE_GROUP_CLOSE_PLUS, if level s = 0 then s\<lparr>handler := H_declClose, role_none := XML_ROLE_ELEMENT_NONE\<rparr> else s))
      else if tok = XML_TOK_COMMA then
        Some (XML_ROLE_GROUP_SEQUENCE, s\<lparr>handler := H_element6\<rparr>)
      else if tok = XML_TOK_OR then
        Some (XML_ROLE_GROUP_CHOICE, s\<lparr>handler := H_element6\<rparr>)
      else common s tok)"

definition condSect0 :: PROLOG_HANDLER where
  "condSect0 s tok b ptr enc =
     (if tok = XML_TOK_PROLOG_S then
        Some (XML_ROLE_NONE, s)
      else if tok = XML_TOK_NAME then
        do {
          m \<leftarrow> XmlNameMatchesAscii enc b ptr KW_INCLUDE;
          if m then
            Some (XML_ROLE_NONE, s\<lparr>handler := H_condSect1\<rparr>)
          else
            do {
              m \<leftarrow> XmlNameMatchesAscii enc b ptr KW_IGNORE;
              if m then
                Some (XML_ROLE_NONE, s\<lparr>handler := H_condSect2\<rparr>)
              else
                common s tok
            }
        }
      else common s tok)"

definition condSect1 :: PROLOG_HANDLER where
  "condSect1 s tok b ptr enc =
     (if tok = XML_TOK_PROLOG_S then
        Some (XML_ROLE_NONE, s)
      else if tok = XML_TOK_OPEN_BRACKET then
        Some (XML_ROLE_NONE, s\<lparr>handler := H_externalSubset1, includeLevel := includeLevel s + 1\<rparr>)
      else common s tok)"

definition condSect2 :: PROLOG_HANDLER where
  "condSect2 s tok b ptr enc =
     (if tok = XML_TOK_PROLOG_S then
        Some (XML_ROLE_NONE, s)
      else if tok = XML_TOK_OPEN_BRACKET then
        Some (XML_ROLE_IGNORE_SECT, s\<lparr>handler := H_externalSubset1\<rparr>)
      else common s tok)"

definition declClose :: PROLOG_HANDLER where
  "declClose s tok b ptr enc =
     (if tok = XML_TOK_PROLOG_S then
        Some (role_none s, s)
      else if tok = XML_TOK_DECL_CLOSE then
        Some (role_none s, setTopLevel s)
      else common s tok)"

definition error :: PROLOG_HANDLER where
  "error s tok b ptr enc = Some (XML_ROLE_NONE, s)"

lemmas handler_defs = prolog0_def prolog1_def prolog2_def doctype0_def doctype1_def
  doctype2_def doctype3_def doctype4_def doctype5_def internalSubset_def
  externalSubset1_def externalSubset0_def entity0_def entity1_def entity2_def
  entity3_def entity4_def entity5_def entity6_def entity7_def
  entity8_def entity9_def entity10_def notation0_def notation1_def
  notation2_def notation3_def notation4_def attlist0_def attlist1_def
  attlist2_def attlist3_def attlist4_def attlist5_def attlist6_def
  attlist7_def attlist8_def attlist9_def element0_def element1_def
  element2_def element3_def element4_def element5_def element6_def
  element7_def condSect0_def condSect1_def condSect2_def declClose_def
  error_def

fun call_handler :: "handler \<Rightarrow> PROLOG_HANDLER" where
  "call_handler H_prolog0 = prolog0"
| "call_handler H_prolog1 = prolog1"
| "call_handler H_prolog2 = prolog2"
| "call_handler H_doctype0 = doctype0"
| "call_handler H_doctype1 = doctype1"
| "call_handler H_doctype2 = doctype2"
| "call_handler H_doctype3 = doctype3"
| "call_handler H_doctype4 = doctype4"
| "call_handler H_doctype5 = doctype5"
| "call_handler H_internalSubset = internalSubset"
| "call_handler H_externalSubset0 = externalSubset0"
| "call_handler H_externalSubset1 = externalSubset1"
| "call_handler H_entity0 = entity0"
| "call_handler H_entity1 = entity1"
| "call_handler H_entity2 = entity2"
| "call_handler H_entity3 = entity3"
| "call_handler H_entity4 = entity4"
| "call_handler H_entity5 = entity5"
| "call_handler H_entity6 = entity6"
| "call_handler H_entity7 = entity7"
| "call_handler H_entity8 = entity8"
| "call_handler H_entity9 = entity9"
| "call_handler H_entity10 = entity10"
| "call_handler H_notation0 = notation0"
| "call_handler H_notation1 = notation1"
| "call_handler H_notation2 = notation2"
| "call_handler H_notation3 = notation3"
| "call_handler H_notation4 = notation4"
| "call_handler H_attlist0 = attlist0"
| "call_handler H_attlist1 = attlist1"
| "call_handler H_attlist2 = attlist2"
| "call_handler H_attlist3 = attlist3"
| "call_handler H_attlist4 = attlist4"
| "call_handler H_attlist5 = attlist5"
| "call_handler H_attlist6 = attlist6"
| "call_handler H_attlist7 = attlist7"
| "call_handler H_attlist8 = attlist8"
| "call_handler H_attlist9 = attlist9"
| "call_handler H_element0 = element0"
| "call_handler H_element1 = element1"
| "call_handler H_element2 = element2"
| "call_handler H_element3 = element3"
| "call_handler H_element4 = element4"
| "call_handler H_element5 = element5"
| "call_handler H_element6 = element6"
| "call_handler H_element7 = element7"
| "call_handler H_condSect0 = condSect0"
| "call_handler H_condSect1 = condSect1"
| "call_handler H_condSect2 = condSect2"
| "call_handler H_declClose = declClose"
| "call_handler H_error = error"

definition XmlTokenRole :: PROLOG_HANDLER where
  "XmlTokenRole s tok b ptr enc = call_handler (handler s) s tok b ptr enc"

section \<open>Initial states\<close>

text \<open>Both initialisers leave the other fields as the caller has them.\<close>

definition XmlPrologStateInit :: "PROLOG_STATE \<Rightarrow> PROLOG_STATE" where
  "XmlPrologStateInit s =
     s\<lparr>handler := H_prolog0, documentEntity := True, includeLevel := 0, inEntityValue := False\<rparr>"

definition XmlPrologStateInitExternalEntity :: "PROLOG_STATE \<Rightarrow> PROLOG_STATE" where
  "XmlPrologStateInitExternalEntity s =
     s\<lparr>handler := H_externalSubset0, documentEntity := False, includeLevel := 0\<rparr>"

end
