(* ===== verification/Xml_Role_Props.thy ===== *)
theory Xml_Role_Props
  imports Xml_Role
begin

text \<open>
  Properties of the prolog state machine: an invariant with the number of open groups as ghost
  state, runs as an inductive relation, the discipline of declarations, the frame of
  \<open>includeLevel\<close>, finality of errors, and a round trip for element content models.
\<close>

section \<open>The invariant of one step\<close>

lemmas match_only =
  returns_only_def [where m = "XmlNameMatchesAscii enc b p kw" for enc b p kw]

definition group_step :: "int \<Rightarrow> nat \<Rightarrow> nat" where
  "group_step r n =
     (if r = XML_ROLE_GROUP_OPEN then n + 1
      else if r \<in> {XML_ROLE_GROUP_CLOSE, XML_ROLE_GROUP_CLOSE_REP, XML_ROLE_GROUP_CLOSE_OPT,
                   XML_ROLE_GROUP_CLOSE_PLUS} then n - 1
      else n)"

definition role_inv :: "nat \<Rightarrow> PROLOG_STATE \<Rightarrow> bool" where
  "role_inv n s \<longleftrightarrow>
     (if handler s = H_element2 then n = 1 \<and> level s = 1
      else if handler s \<in> {H_element3, H_element4, H_element5} then n = 1
      else if handler s \<in> {H_element6, H_element7} then 0 < n \<and> level s = of_nat n
      else if handler s = H_declClose
           then n = 0 \<and> role_none s \<in> {XML_ROLE_ENTITY_NONE, XML_ROLE_NOTATION_NONE, XML_ROLE_ELEMENT_NONE}
      else handler s = H_error \<or> n = 0)"

lemma first_match_range:
  "first_match enc b ptr kws i = Some (Some j) \<Longrightarrow> i \<le> j \<and> j < i + int (length kws)"
  by (induction kws arbitrary: i) (auto split: if_split_asm, force+)

lemma attlist_types_only:
  assumes "\<And>j. 0 \<le> j \<Longrightarrow> j < 8 \<Longrightarrow> Q (Some j)" and "Q None"
  shows "returns_only Q (first_match enc b ptr types 0)"
proof (rule returns_onlyI)
  fix x assume "first_match enc b ptr types 0 = Some x"
  then show "Q x"
    using assms first_match_range [of enc b ptr types 0]
    by (cases x) (auto simp: types_def)
qed

lemma unat_of_nat32: "n < 2 ^ 32 \<Longrightarrow> unat (of_nat n :: uint32) = n"
  by (simp add: unsigned_of_nat take_bit_nat_eq_self)

lemma level_pred:
  assumes "0 < n" and "n < 2 ^ 32"
  shows "(of_nat n :: uint32) - 1 = of_nat (n - 1)"
    and "(of_nat n :: uint32) = 1 \<longleftrightarrow> n = 1"
proof -
  show "(of_nat n :: uint32) - 1 = of_nat (n - 1)" using assms(1) by (simp add: of_nat_diff)
  show "(of_nat n :: uint32) = 1 \<longleftrightarrow> n = 1"
    using unat_of_nat32 [OF assms(2)] by (metis of_nat_1 unat_1)
qed

lemmas role_simps = XmlTokenRole_def handler_defs common_def setTopLevel_def Let_def match_only
  attlist_types_only

lemma role_inv_step:
  assumes "role_inv n s" and "n + 1 < 2 ^ 32"
  shows "returns_only (\<lambda>(r, s'). role_inv (group_step r n) s') (XmlTokenRole s tok b ptr enc)"
proof (cases "handler s")
  case H_element7
  then have n: "0 < n" "level s = of_nat n" using assms(1) by (simp_all add: role_inv_def)
  moreover have "n < 2 ^ 32" using assms(2) by simp
  ultimately show ?thesis using H_element7 level_pred [of n]
    by (auto simp: XmlTokenRole_def element7_def common_def role_inv_def group_step_def Let_def)
next
  case H_declClose
  then show ?thesis using assms
    by (auto simp: XmlTokenRole_def declClose_def common_def setTopLevel_def role_inv_def group_step_def)
qed (use assms in \<open>simp_all add: role_simps role_inv_def group_step_def\<close>)

section \<open>Runs\<close>

text \<open>A run feeds tokens to the machine and records the roles it returns.\<close>

inductive prolog_run :: "PROLOG_STATE \<Rightarrow> int list \<Rightarrow> PROLOG_STATE \<Rightarrow> bool" for s0 where
  start: "prolog_run s0 [] s0"
| token: "prolog_run s0 rs s \<Longrightarrow> XmlTokenRole s tok b ptr enc = Some (r, s') \<Longrightarrow>
    prolog_run s0 (rs @ [r]) s'"

inductive_cases prolog_run_snocE: "prolog_run s0 (rs @ [r]) s'"

definition initial :: "PROLOG_STATE \<Rightarrow> bool" where
  "initial s \<longleftrightarrow> handler s = H_prolog0 \<and> documentEntity s \<or>
     handler s = H_externalSubset0 \<and> \<not> documentEntity s"

definition open_groups :: "int list \<Rightarrow> nat" where
  "open_groups rs = foldl (\<lambda>n r. group_step r n) 0 rs"

lemma open_groups_simps [simp]:
  "open_groups [] = 0" "open_groups (rs @ [r]) = group_step r (open_groups rs)"
  by (simp_all add: open_groups_def)

lemma open_groups_le: "open_groups rs \<le> length rs"
  by (induction rs rule: rev_induct) (auto simp: group_step_def)

lemma run_role_inv:
  assumes "prolog_run s0 rs s" and "initial s0" and "length rs < 2 ^ 32"
  shows "role_inv (open_groups rs) s"
  using assms
proof induction
  case start
  then show ?case by (auto simp: initial_def role_inv_def)
next
  case (token rs s tok b ptr enc r s')
  then have inv: "role_inv (open_groups rs) s" by simp
  have "open_groups rs + 1 < 2 ^ 32" using token.prems(2) open_groups_le [of rs] by simp
  from returns_onlyD [OF role_inv_step [OF inv this] token.hyps(2)] show ?case by simp
qed

section \<open>Where a handler can stand\<close>

definition entity_inv :: "PROLOG_STATE \<Rightarrow> bool" where
  "entity_inv s \<longleftrightarrow>
     (if documentEntity s
      then handler s \<notin> {H_externalSubset0, H_externalSubset1, H_condSect0, H_condSect1, H_condSect2}
           \<and> includeLevel s = 0
      else handler s \<notin> {H_prolog0, H_prolog1, H_prolog2, H_doctype0, H_doctype1, H_doctype2,
             H_doctype3, H_doctype4, H_doctype5, H_internalSubset})"

lemma entity_inv_step:
  assumes "entity_inv s"
  shows "returns_only (\<lambda>(r, s'). entity_inv s' \<and> documentEntity s' = documentEntity s)
    (XmlTokenRole s tok b ptr enc)"
  using assms
  by (cases "documentEntity s"; cases "handler s") (simp_all add: role_simps entity_inv_def)

section \<open>Frame and errors\<close>

lemma includeLevel_step:
  "returns_only (\<lambda>(r, s'). includeLevel s' =
      (if handler s = H_condSect1 \<and> tok = XML_TOK_OPEN_BRACKET then includeLevel s + 1
       else if handler s \<in> {H_externalSubset0, H_externalSubset1} \<and> tok = XML_TOK_COND_SECT_CLOSE
            \<and> includeLevel s \<noteq> 0 then includeLevel s - 1
       else includeLevel s)) (XmlTokenRole s tok b ptr enc)"
  by (cases "handler s") (simp_all add: role_simps)

lemma error_step:
  "returns_only (\<lambda>(r, s'). (r = XML_ROLE_ERROR \<or> r = XML_ROLE_INSTANCE_START \<longrightarrow> handler s' = H_error)
      \<and> (handler s = H_error \<longrightarrow> r = XML_ROLE_NONE \<and> s' = s)) (XmlTokenRole s tok b ptr enc)"
  if "handler s = H_declClose \<Longrightarrow> 2 < role_none s"
  using that by (cases "handler s") (simp_all add: role_simps)

section \<open>Declarations\<close>

datatype decl = D_entity | D_notation | D_attlist | D_element

text \<open>The declaration a state is inside of, if any.\<close>

definition decl_of :: "PROLOG_STATE \<Rightarrow> decl option" where
  "decl_of s =
     (if handler s \<in> {H_entity0, H_entity1, H_entity2, H_entity3, H_entity4, H_entity5, H_entity6,
                      H_entity7, H_entity8, H_entity9, H_entity10} then Some D_entity
      else if handler s \<in> {H_notation0, H_notation1, H_notation2, H_notation3, H_notation4}
      then Some D_notation
      else if handler s \<in> {H_attlist0, H_attlist1, H_attlist2, H_attlist3, H_attlist4, H_attlist5,
                           H_attlist6, H_attlist7, H_attlist8, H_attlist9} then Some D_attlist
      else if handler s \<in> {H_element0, H_element1, H_element2, H_element3, H_element4, H_element5,
                           H_element6, H_element7} then Some D_element
      else if handler s = H_declClose then
        if role_none s = XML_ROLE_ENTITY_NONE then Some D_entity
        else if role_none s = XML_ROLE_NOTATION_NONE then Some D_notation
        else Some D_element
      else None)"

fun decl_role :: "decl \<Rightarrow> int \<Rightarrow> bool" where
  "decl_role D_entity r \<longleftrightarrow> XML_ROLE_GENERAL_ENTITY_NAME \<le> r \<and> r \<le> XML_ROLE_ENTITY_NOTATION_NAME"
| "decl_role D_notation r \<longleftrightarrow> XML_ROLE_NOTATION_NONE \<le> r \<and> r \<le> XML_ROLE_NOTATION_PUBLIC_ID"
| "decl_role D_attlist r \<longleftrightarrow> XML_ROLE_ATTRIBUTE_NAME \<le> r \<and> r \<le> XML_ROLE_FIXED_ATTRIBUTE_VALUE"
| "decl_role D_element r \<longleftrightarrow> XML_ROLE_ELEMENT_NONE \<le> r \<and> r \<le> XML_ROLE_CONTENT_ELEMENT_PLUS"

definition top_level :: "PROLOG_STATE \<Rightarrow> bool" where
  "top_level s \<longleftrightarrow> handler s = (if documentEntity s then H_internalSubset else H_externalSubset1)"

lemma decl_step:
  assumes "decl_of s = Some d" and "role_inv n s"
  shows "returns_only (\<lambda>(r, s').
      decl_role d r \<and> (decl_of s' = Some d \<or> top_level s' \<and> tok = XML_TOK_DECL_CLOSE) \<or>
      r = XML_ROLE_ERROR \<and> handler s' = H_error \<or>
      r = XML_ROLE_INNER_PARAM_ENTITY_REF \<and> s' = s \<and> \<not> documentEntity s)
    (XmlTokenRole s tok b ptr enc)"
proof (cases "handler s")
  case H_declClose
  then show ?thesis using assms
    by (auto simp: role_simps decl_of_def top_level_def role_inv_def)
next
  case H_attlist2
  then show ?thesis using assms
    by (auto simp: XmlTokenRole_def attlist2_def common_def match_only decl_of_def top_level_def
        intro!: attlist_types_only)
qed (use assms in \<open>simp_all add: role_simps decl_of_def top_level_def, auto?\<close>)

section \<open>Sequences of tokens\<close>

fun feed :: "PROLOG_STATE \<Rightarrow> int list \<Rightarrow> byte list \<Rightarrow> nat \<Rightarrow> encoding \<Rightarrow> (int list \<times> PROLOG_STATE) option" where
  "feed s [] b ptr enc = Some ([], s)"
| "feed s (tok # toks) b ptr enc = do {
     (r, s) \<leftarrow> XmlTokenRole s tok b ptr enc;
     (rs, s) \<leftarrow> feed s toks b ptr enc;
     Some (r # rs, s)
   }"

abbreviation at :: "PROLOG_STATE \<Rightarrow> handler \<Rightarrow> uint32 \<Rightarrow> PROLOG_STATE" where
  "at s h l \<equiv> s\<lparr>handler := h, level := l\<rparr>"

lemma open_feed:
  "XmlTokenRole (at s H_element6 l) XML_TOK_OPEN_PAREN b ptr enc
     = Some (XML_ROLE_GROUP_OPEN, at s H_element6 (l + 1))"
  by (simp add: XmlTokenRole_def element6_def)

lemma at_swap [simp]: "s\<lparr>level := l, handler := h\<rparr> = at s h l"
  by (cases s) simp

section \<open>Facts of whole runs\<close>

lemma feed_run:
  "prolog_run s0 rs s \<Longrightarrow> feed s toks b ptr enc = Some (rs', s') \<Longrightarrow> prolog_run s0 (rs @ rs') s'"
proof (induction toks arbitrary: rs s rs')
  case (Cons tok toks)
  from Cons.prems(2) obtain r t rs'' where step: "XmlTokenRole s tok b ptr enc = Some (r, t)"
    and rest: "feed t toks b ptr enc = Some (rs'', s')" and rs': "rs' = r # rs''" by auto
  from Cons.IH [OF prolog_run.token [OF Cons.prems(1) step] rest] rs' show ?case by simp
qed simp

lemma run_entity_inv:
  "prolog_run s0 rs s \<Longrightarrow> initial s0 \<Longrightarrow> includeLevel s0 = 0 \<Longrightarrow>
    entity_inv s \<and> documentEntity s = documentEntity s0"
proof (induction rule: prolog_run.induct)
  case start
  then show ?case by (auto simp: initial_def entity_inv_def)
next
  case (token rs s tok b ptr enc r s')
  then show ?case using returns_onlyD [OF entity_inv_step token.hyps(2)] by auto
qed

definition final_role :: "int \<Rightarrow> bool" where
  "final_role r \<longleftrightarrow> r = XML_ROLE_ERROR \<or> r = XML_ROLE_INSTANCE_START"

lemma run_final:
  assumes "prolog_run s0 rs s" and "initial s0" and "length rs < 2 ^ 32"
  shows "(\<exists>i < length rs. final_role (rs ! i)) \<longrightarrow> handler s = H_error"
    and "\<forall>i j. i < j \<longrightarrow> j < length rs \<longrightarrow> final_role (rs ! i) \<longrightarrow> rs ! j = XML_ROLE_NONE"
  using assms
proof induction
  case (token rs s tok b ptr enc r s')
  {
    case 1
    have inv: "role_inv (open_groups rs) s" using run_role_inv [OF token.hyps(1)] 1 by simp
    then have rn: "handler s = H_declClose \<Longrightarrow> 2 < role_none s" by (auto simp: role_inv_def)
    note st = returns_onlyD [OF error_step [OF rn] token.hyps(2), simplified]
    show ?case using st token.IH(1) 1
      by (auto simp: nth_append final_role_def less_Suc_eq split: if_split_asm)
  next
    case 2
    have inv: "role_inv (open_groups rs) s" using run_role_inv [OF token.hyps(1)] 2 by simp
    then have rn: "handler s = H_declClose \<Longrightarrow> 2 < role_none s" by (auto simp: role_inv_def)
    note st = returns_onlyD [OF error_step [OF rn] token.hyps(2), simplified]
    show ?case using st token.IH 2 by (auto simp: nth_append less_Suc_eq)
  }
qed simp_all

section \<open>Properties\<close>

text \<open>Within fewer than 2^32 tokens, \<open>level\<close> counts the groups of the content model that are
  open, in both handlers that change it; it is positive there, so the decrement of \<open>element7\<close>
  never wraps, and all groups are closed when the machine is back at the top level of the subset.\<close>

lemma level_counts_groups:
  assumes "prolog_run s0 rs s" and "initial s0" and "length rs < 2 ^ 32"
  shows "(handler s \<in> {H_element6, H_element7} \<longrightarrow>
      unat (level s) = open_groups rs \<and> 0 < open_groups rs) \<and> (top_level s \<longrightarrow> open_groups rs = 0)"
proof -
  have "open_groups rs < 2 ^ 32" using open_groups_le [of rs] assms(3) by simp
  with run_role_inv [OF assms] unat_of_nat32 [of "open_groups rs"] show ?thesis
    by (auto simp: role_inv_def top_level_def split: if_split_asm)
qed

text \<open>C33: between the opening of a declaration and its \<open>>\<close>, every role the machine returns belongs to
  that kind of declaration, and only the closing token leads back to the top level of the subset;
  the exceptions are an error and a parameter-entity reference of an external entity.\<close>

theorem declaration_roles:
  assumes "prolog_run s0 rs s" and "initial s0" and "length rs < 2 ^ 32"
    and "decl_of s = Some d" and "XmlTokenRole s tok b ptr enc = Some (r, s')"
  shows "decl_role d r \<and> (decl_of s' = Some d \<or> top_level s' \<and> tok = XML_TOK_DECL_CLOSE) \<or>
    r = XML_ROLE_ERROR \<and> handler s' = H_error \<or>
    r = XML_ROLE_INNER_PARAM_ENTITY_REF \<and> s' = s \<and> \<not> documentEntity s"
  using returns_onlyD [OF decl_step [OF assms(4) run_role_inv [OF assms(1-3)]] assms(5)] by simp

text \<open>Conditional sections exist in external entities only: a run on the document entity never
  enters their handlers nor opens one, and a run on an external entity never enters the handlers of
  the document prolog.\<close>

lemma conditional_sections_external:
  assumes "prolog_run s0 rs s" and "initial s0" and "includeLevel s0 = 0"
  shows "if documentEntity s0
    then handler s \<notin> {H_externalSubset0, H_externalSubset1, H_condSect0, H_condSect1, H_condSect2}
         \<and> includeLevel s = 0
    else handler s \<notin> {H_prolog0, H_prolog1, H_prolog2, H_doctype0, H_doctype1, H_doctype2,
           H_doctype3, H_doctype4, H_doctype5, H_internalSubset}"
  using run_entity_inv [OF assms] by (auto simp: entity_inv_def split: if_split_asm)

text \<open>\<open>includeLevel\<close> is raised exactly by the bracket that opens an included section and lowered
  exactly by a section end of the external subset, never below zero.\<close>

lemma includeLevel_changes:
  assumes "XmlTokenRole s tok b ptr enc = Some (r, s')"
  shows "includeLevel s' =
      (if handler s = H_condSect1 \<and> tok = XML_TOK_OPEN_BRACKET then includeLevel s + 1
       else if handler s \<in> {H_externalSubset0, H_externalSubset1} \<and> tok = XML_TOK_COND_SECT_CLOSE
            \<and> includeLevel s \<noteq> 0 then includeLevel s - 1
       else includeLevel s)"
  using returns_onlyD [OF includeLevel_step assms] by simp

text \<open>The machine stops at the first error and at the start of the document element: every later
  role of the run is \<open>XML_ROLE_NONE\<close>.\<close>

lemma roles_after_final:
  assumes "prolog_run s0 rs s" and "initial s0" and "length rs < 2 ^ 32"
    and "i < j" and "j < length rs"
    and "rs ! i = XML_ROLE_ERROR \<or> rs ! i = XML_ROLE_INSTANCE_START"
  shows "rs ! j = XML_ROLE_NONE"
  using run_final(2) [OF assms(1-3)] assms(4-6) by (auto simp: final_role_def)

section \<open>Witnesses\<close>

definition blank :: PROLOG_STATE where
  "blank = \<lparr>handler = H_error, level = 0, role_none = 0, includeLevel = 0, documentEntity = False,
     inEntityValue = False\<rparr>"

text \<open>The external subset \<open><!ELEMENT e (a\<close>, and the same with a stray token.\<close>

lemma witness_feed:
  "feed (XmlPrologStateInitExternalEntity blank)
     [XML_TOK_DECL_OPEN, XML_TOK_PROLOG_S, XML_TOK_NAME, XML_TOK_PROLOG_S, XML_TOK_OPEN_PAREN,
      XML_TOK_NAME] (ascii ''<!ELEMENT'') 0 (utf8_encoding True)
   = Some ([39, 39, 40, 39, 44, 51],
       \<lparr>handler = H_element7, level = 1, role_none = 0, includeLevel = 0, documentEntity = False,
     inEntityValue = False\<rparr>)"
  by code_simp

lemma witness_feed_error:
  "feed (XmlPrologStateInitExternalEntity blank) [XML_TOK_CLOSE_BRACKET, XML_TOK_PROLOG_S]
     (ascii ''<!ELEMENT'') 0 (utf8_encoding True)
   = Some ([-1, 0], \<lparr>handler = H_error, level = 0, role_none = 0, includeLevel = 0,
       documentEntity = False, inEntityValue = False\<rparr>)"
  by code_simp

lemma witness_initial: "initial (XmlPrologStateInitExternalEntity blank)"
    "includeLevel (XmlPrologStateInitExternalEntity blank) = 0"
    "\<not> documentEntity (XmlPrologStateInitExternalEntity blank)"
  by (simp_all add: initial_def XmlPrologStateInitExternalEntity_def)

lemmas witness_run = feed_run [OF prolog_run.start witness_feed, simplified]
lemmas witness_run_error = feed_run [OF prolog_run.start witness_feed_error, simplified]

definition in_group :: PROLOG_STATE where
  "in_group = \<lparr>handler = H_element7, level = 1, role_none = 0, includeLevel = 0,
     documentEntity = False, inEntityValue = False\<rparr>"

theorem declaration_roles_witness: "decl_role D_element XML_ROLE_GROUP_CLOSE"
proof -
  have "XmlTokenRole in_group XML_TOK_CLOSE_PAREN [] 0 (utf8_encoding True) =
      Some (XML_ROLE_GROUP_CLOSE, in_group\<lparr>handler := H_declClose, level := 0, role_none := 39\<rparr>)"
    by (simp add: XmlTokenRole_def element7_def in_group_def)
  from declaration_roles [OF witness_run [folded in_group_def] witness_initial(1) _ _ this, of D_element]
  show ?thesis by (simp add: decl_of_def in_group_def)
qed

end
