(* ===== verification/Xml_Convert.thy ===== *)
theory Xml_Convert
  imports Xml_Names
begin

text \<open>
  The character encoders and converters of \<^verbatim>\<open>xmltok.c\<close>. A converter takes the source bytes up to
  \<open>fromLim\<close> and the room in the target, and returns how far \<open>*fromP\<close> moves together with what is
  stored; \<open>None\<close> is a read past \<open>fromLim\<close>. The two macro expansions for the byte orders of
  UTF-16 are one definition with the order as argument.
\<close>

section \<open>Encoding one character\<close>

definition XmlUtf8Encode :: "int \<Rightarrow> byte list" where
  "XmlUtf8Encode c =
     (if c < 0 then []
      else if c < 0x80 then [word_of_int c]
      else if c < 0x800 then
        [word_of_int (drop_bit 6 c OR 0xC0), word_of_int ((c AND 0x3F) OR 0x80)]
      else if c < 0x10000 then
        [word_of_int (drop_bit 12 c OR 0xE0), word_of_int ((drop_bit 6 c AND 0x3F) OR 0x80),
         word_of_int ((c AND 0x3F) OR 0x80)]
      else if c < 0x110000 then
        [word_of_int (drop_bit 18 c OR 0xF0), word_of_int ((drop_bit 12 c AND 0x3F) OR 0x80),
         word_of_int ((drop_bit 6 c AND 0x3F) OR 0x80), word_of_int ((c AND 0x3F) OR 0x80)]
      else [])"

definition XmlUtf16Encode :: "int \<Rightarrow> 16 word list" where
  "XmlUtf16Encode charNum =
     (if charNum < 0 then []
      else if charNum < 0x10000 then [word_of_int charNum]
      else if charNum < 0x110000 then
        let c = charNum - 0x10000 in
        [word_of_int (drop_bit 10 c + 0xD800), word_of_int ((c AND 0x3FF) + 0xDC00)]
      else [])"

section \<open>From UTF-8\<close>

text \<open>The loop that moves \<open>fromLim\<close> back when the target is too small.\<close>

fun back_off :: "byte list \<Rightarrow> nat \<Rightarrow> nat" where
  "back_off src 0 = 0"
| "back_off src (Suc n) = (if src ! n AND 0xC0 \<noteq> 0x80 then Suc n else back_off src n)"

definition utf8_toUtf8 :: "byte list \<Rightarrow> nat \<Rightarrow> nat \<times> byte list" where
  "utf8_toUtf8 src room =
     (let lim = (if room < length src then back_off src room else length src)
      in (lim, take lim src))"

text \<open>A unit of the result, with a source byte as the \<open>unsigned short\<close> it is widened to.\<close>

definition wide :: "byte \<Rightarrow> 16 word" where
  "wide c = ucast c"

function utf8_toUtf16 :: "encoding \<Rightarrow> byte list \<Rightarrow> nat \<Rightarrow> nat \<Rightarrow> (nat \<times> 16 word list) option" where
  "utf8_toUtf16 enc src from room =
     (if from = length src \<or> room = 0 then Some (from, [])
      else if length src < from then None
      else
        let t = type_tab enc ! unat (src ! from) in
        if t = BT_LEAD2 then
          if length src < from + 2 then None
          else do {
            (p, out) \<leftarrow> utf8_toUtf16 enc src (from + 2) (room - 1);
            Some (p, (push_bit 6 (wide (src ! from) AND 0x1F) OR (wide (src ! (from + 1)) AND 0x3F)) # out)
          }
        else if t = BT_LEAD3 then
          if length src < from + 3 then None
          else do {
            (p, out) \<leftarrow> utf8_toUtf16 enc src (from + 3) (room - 1);
            Some (p, (push_bit 12 (wide (src ! from) AND 0xF)
                      OR push_bit 6 (wide (src ! (from + 1)) AND 0x3F)
                      OR (wide (src ! (from + 2)) AND 0x3F)) # out)
          }
        else if t = BT_LEAD4 then
          if room = 1 then Some (from, [])
          else if length src < from + 4 then None
          else
            let n = (push_bit 18 (uint (src ! from) AND 7) OR push_bit 12 (uint (src ! (from + 1)) AND 0x3F)
                     OR push_bit 6 (uint (src ! (from + 2)) AND 0x3F)
                     OR (uint (src ! (from + 3)) AND 0x3F)) - 0x10000
            in do {
              (p, out) \<leftarrow> utf8_toUtf16 enc src (from + 4) (room - 2);
              Some (p, word_of_int (drop_bit 10 n OR 0xD800) # word_of_int ((n AND 0x3FF) OR 0xDC00) # out)
            }
        else do {
          (p, out) \<leftarrow> utf8_toUtf16 enc src (from + 1) (room - 1);
          Some (p, scast (src ! from) # out)
        })"
  by pat_completeness auto
termination
  by (relation "measure (\<lambda>(enc, src, from, room). room)") auto

declare utf8_toUtf16.simps [simp del]

section \<open>From the single-byte encodings\<close>

fun latin1_toUtf8 :: "byte list \<Rightarrow> nat \<Rightarrow> nat \<times> byte list" where
  "latin1_toUtf8 [] room = (0, [])"
| "latin1_toUtf8 (c # src) room =
     (if c AND 0x80 \<noteq> 0 then
        if room < 2 then (0, [])
        else let (n, out) = latin1_toUtf8 src (room - 2)
             in (Suc n, (drop_bit 6 c OR 0xC0) # ((c AND 0x3F) OR 0x80) # out)
      else if room = 0 then (0, [])
      else let (n, out) = latin1_toUtf8 src (room - 1) in (Suc n, c # out))"

definition latin1_toUtf16 :: "byte list \<Rightarrow> nat \<Rightarrow> nat \<times> 16 word list" where
  "latin1_toUtf16 src room = (let n = min (length src) room in (n, map wide (take n src)))"

definition ascii_toUtf8 :: "byte list \<Rightarrow> nat \<Rightarrow> nat \<times> byte list" where
  "ascii_toUtf8 src room = (let n = min (length src) room in (n, take n src))"

section \<open>From UTF-16\<close>

datatype byte_order = Little | Big

fun GET_LO :: "byte_order \<Rightarrow> byte \<Rightarrow> byte \<Rightarrow> byte" where
  "GET_LO Little p0 p1 = p0"
| "GET_LO Big p0 p1 = p1"

fun GET_HI :: "byte_order \<Rightarrow> byte \<Rightarrow> byte \<Rightarrow> byte" where
  "GET_HI Little p0 p1 = p1"
| "GET_HI Big p0 p1 = p0"

text \<open>The two halves of a surrogate pair as four bytes.\<close>

definition surrogate_bytes :: "byte \<Rightarrow> byte \<Rightarrow> byte \<Rightarrow> byte \<Rightarrow> byte list" where
  "surrogate_bytes hi lo hi2 lo2 =
     (let plane = (push_bit 2 (hi AND 3) OR (drop_bit 6 lo AND 3)) + 1
      in [drop_bit 2 plane OR 0xF0,
          (drop_bit 2 lo AND 0xF) OR push_bit 4 (plane AND 3) OR 0x80,
          push_bit 4 (lo AND 3) OR push_bit 2 (hi2 AND 3) OR drop_bit 6 lo2 OR 0x80,
          (lo2 AND 0x3F) OR 0x80])"

fun utf16_toUtf8 :: "byte_order \<Rightarrow> byte list \<Rightarrow> nat \<Rightarrow> (nat \<times> byte list) option" where
  "utf16_toUtf8 E [] room = Some (0, [])"
| "utf16_toUtf8 E [p0] room = None"
| "utf16_toUtf8 E (p0 # p1 # src) room =
     (let lo = GET_LO E p0 p1; hi = GET_HI E p0 p1 in
      if hi = 0 \<and> lo < 0x80 then
        if room = 0 then Some (0, [])
        else do {
          (n, out) \<leftarrow> utf16_toUtf8 E src (room - 1);
          Some (n + 2, lo # out)
        }
      else if hi \<le> 7 then
        if room < 2 then Some (0, [])
        else do {
          (n, out) \<leftarrow> utf16_toUtf8 E src (room - 2);
          Some (n + 2, (drop_bit 6 lo OR push_bit 2 hi OR 0xC0) # ((lo AND 0x3F) OR 0x80) # out)
        }
      else if 0xD8 \<le> hi \<and> hi \<le> 0xDB then
        if room < 4 then Some (0, [])
        else (case src of
                q0 # q1 # src' \<Rightarrow> do {
                  (n, out) \<leftarrow> utf16_toUtf8 E src' (room - 4);
                  Some (n + 4, surrogate_bytes hi lo (GET_HI E q0 q1) (GET_LO E q0 q1) @ out)
                }
              | _ \<Rightarrow> None)
      else if room < 3 then Some (0, [])
      else do {
        (n, out) \<leftarrow> utf16_toUtf8 E src (room - 3);
        Some (n + 2, (drop_bit 4 hi OR 0xE0) # (push_bit 2 (hi AND 0xF) OR drop_bit 6 lo OR 0x80)
                       # ((lo AND 0x3F) OR 0x80) # out)
      })"

text \<open>The copying loop of \<open>toUtf16\<close> and the adjustment of \<open>fromLim\<close> before it.\<close>

fun utf16_copy :: "byte_order \<Rightarrow> byte list \<Rightarrow> nat \<Rightarrow> (nat \<times> 16 word list) option" where
  "utf16_copy E [] room = Some (0, [])"
| "utf16_copy E [p0] room = (if room = 0 then Some (0, []) else None)"
| "utf16_copy E (p0 # p1 # src) room =
     (if room = 0 then Some (0, [])
      else do {
        (n, out) \<leftarrow> utf16_copy E src (room - 1);
        Some (n + 2, (push_bit 8 (wide (GET_HI E p0 p1)) OR wide (GET_LO E p0 p1)) # out)
      })"

definition utf16_toUtf16 :: "byte_order \<Rightarrow> byte list \<Rightarrow> nat \<Rightarrow> (nat \<times> 16 word list) option" where
  "utf16_toUtf16 E src room =
     (let n = length src in
      if 2 * room < n then
        if n < 2 then None
        else if GET_HI E (src ! (n - 2)) (src ! (n - 1)) AND 0xF8 = 0xD8
        then utf16_copy E (take (n - 2) src) room
        else utf16_copy E src room
      else utf16_copy E src room)"

section \<open>Dispatch\<close>

text \<open>\<open>XmlUtf8Convert\<close> calls the converter the encoding object holds.\<close>

fun XmlUtf8Convert :: "encoding \<Rightarrow> byte list \<Rightarrow> nat \<Rightarrow> (nat \<times> byte list) option" where
  "XmlUtf8Convert enc src room =
     (case utf8Convert enc of
        Utf8_toUtf8 \<Rightarrow> Some (utf8_toUtf8 src room)
      | Latin1_toUtf8 \<Rightarrow> Some (latin1_toUtf8 src room)
      | Ascii_toUtf8 \<Rightarrow> Some (ascii_toUtf8 src room)
      | Little2_toUtf8 \<Rightarrow> utf16_toUtf8 Little src room
      | Big2_toUtf8 \<Rightarrow> utf16_toUtf8 Big src room
      | Unknown_toUtf8 f \<Rightarrow> f src room)"

section \<open>The encoders in arithmetic form\<close>

lemma or_high_bits:
  fixes x :: int
  assumes "0 \<le> x" and "x < 2 ^ n"
  shows "x OR push_bit n k = x + k * 2 ^ n"
proof -
  have x: "take_bit n x = x" using assms by (simp add: take_bit_int_eq_self)
  have "take_bit n x AND push_bit n k = 0" by (rule bit_eqI) (auto simp: bit_simps)
  then have "x AND push_bit n k = 0" by (simp add: x)
  then have "x + push_bit n k = x OR push_bit n k" by (rule disjunctive_add_eq_or)
  then show ?thesis by (simp add: push_bit_eq_mult)
qed

lemma or_marks:
  fixes x :: int
  shows "0 \<le> x \<Longrightarrow> x < 0x40 \<Longrightarrow> x OR 0x80 = x + 0x80" and "0 \<le> x \<Longrightarrow> x < 0x20 \<Longrightarrow> x OR 0xC0 = x + 0xC0"
    and "0 \<le> x \<Longrightarrow> x < 0x10 \<Longrightarrow> x OR 0xE0 = x + 0xE0" and "0 \<le> x \<Longrightarrow> x < 8 \<Longrightarrow> x OR 0xF0 = x + 0xF0"
  using or_high_bits [of x 7 1] or_high_bits [of x 6 3] or_high_bits [of x 5 7] or_high_bits [of x 4 15]
  by (simp_all add: push_bit_eq_mult)

lemma and_3F: "(x :: int) AND 0x3F = x mod 64"
  using take_bit_eq_mask [of 6 x] by (simp add: take_bit_eq_mod mask_eq_exp_minus_1)

lemma XmlUtf8Encode_arith:
  "XmlUtf8Encode c =
     (if c < 0 then []
      else if c < 0x80 then [word_of_int c]
      else if c < 0x800 then [word_of_int (c div 64 + 0xC0), word_of_int (c mod 64 + 0x80)]
      else if c < 0x10000 then
        [word_of_int (c div 4096 + 0xE0), word_of_int (c div 64 mod 64 + 0x80),
         word_of_int (c mod 64 + 0x80)]
      else if c < 0x110000 then
        [word_of_int (c div 262144 + 0xF0), word_of_int (c div 4096 mod 64 + 0x80),
         word_of_int (c div 64 mod 64 + 0x80), word_of_int (c mod 64 + 0x80)]
      else [])"
proof -
  have m: "x mod 64 OR 0x80 = x mod 64 + 0x80" for x :: int by (rule or_marks(1)) simp_all
  have "0 \<le> c \<Longrightarrow> c < 0x800 \<Longrightarrow> c div 64 OR 0xC0 = c div 64 + 0xC0"
    and "0 \<le> c \<Longrightarrow> c < 0x10000 \<Longrightarrow> c div 4096 OR 0xE0 = c div 4096 + 0xE0"
    and "0 \<le> c \<Longrightarrow> c < 0x110000 \<Longrightarrow> c div 262144 OR 0xF0 = c div 262144 + 0xF0"
    by (rule or_marks; simp add: pos_imp_zdiv_nonneg_iff; linarith)+
  then show ?thesis
    unfolding XmlUtf8Encode_def by (simp add: and_3F m drop_bit_eq_div)
qed

section \<open>UTF-8 validity\<close>

text \<open>A property of all bytes can be checked one by one.\<close>

lemma byte_exhaust:
  assumes "list_all P (map word_of_nat [0..<256])"
  shows "P (b :: byte)"
proof -
  have "b = word_of_nat (unat b)" by simp
  moreover have "unat b \<in> set [0..<256]" using byte_less_256 [of b] by simp
  ultimately show ?thesis using assms by (metis list_all_iff image_eqI list.set_map)
qed

lemma not_continuation:
  "(b :: byte) AND 0x80 = 0 \<or> b AND 0xC0 = 0xC0 \<longleftrightarrow> \<not> (0x80 \<le> b \<and> b \<le> 0xBF)"
  by (rule byte_exhaust [of "\<lambda>b. b AND 0x80 = 0 \<or> b AND 0xC0 = 0xC0 \<longleftrightarrow> \<not> (0x80 \<le> b \<and> b \<le> 0xBF)"]) code_simp

definition lead_table :: "nat \<times> bt \<Rightarrow> bool" where
  "lead_table = (\<lambda>(n, t). (t = BT_LEAD2) = (0xC0 \<le> n \<and> n \<le> 0xDF) \<and>
     (t = BT_LEAD3) = (0xE0 \<le> n \<and> n \<le> 0xEF) \<and> (t = BT_LEAD4) = (0xF0 \<le> n \<and> n \<le> 0xF4))"

lemma utf8_lead_tab:
  "list_all lead_table (enumerate 0 (type_tab (utf8_encoding True)))"
  "list_all lead_table (enumerate 0 (type_tab (utf8_encoding False)))"
  by code_simp+

lemma utf8_lead:
  "type_tab (utf8_encoding ns) ! unat b = BT_LEAD2 \<longleftrightarrow> 0xC0 \<le> b \<and> b \<le> (0xDF :: byte)"
  "type_tab (utf8_encoding ns) ! unat b = BT_LEAD3 \<longleftrightarrow> 0xE0 \<le> b \<and> b \<le> (0xEF :: byte)"
  "type_tab (utf8_encoding ns) ! unat b = BT_LEAD4 \<longleftrightarrow> 0xF0 \<le> b \<and> b \<le> (0xF4 :: byte)"
proof -
  define tab where "tab = type_tab (utf8_encoding ns)"
  have "length tab = 256" by (simp add: tab_def utf8_encoding_def)
  then have "(unat b, tab ! unat b) \<in> set (enumerate 0 tab)"
    using byte_less_256 [of b] by (simp add: in_set_enumerate_eq)
  moreover have "list_all lead_table (enumerate 0 tab)"
    unfolding tab_def by (cases ns) (simp_all only: utf8_lead_tab)
  ultimately have "lead_table (unat b, tab ! unat b)" by (simp only: list_all_iff)
  then show "type_tab (utf8_encoding ns) ! unat b = BT_LEAD2 \<longleftrightarrow> 0xC0 \<le> b \<and> b \<le> (0xDF :: byte)"
    "type_tab (utf8_encoding ns) ! unat b = BT_LEAD3 \<longleftrightarrow> 0xE0 \<le> b \<and> b \<le> (0xEF :: byte)"
    "type_tab (utf8_encoding ns) ! unat b = BT_LEAD4 \<longleftrightarrow> 0xF0 \<le> b \<and> b \<le> (0xF4 :: byte)"
    by (simp_all add: lead_table_def tab_def word_le_nat_alt)
qed

lemma word_of_int_byte: "0 \<le> x \<Longrightarrow> x < 256 \<Longrightarrow> (word_of_int x :: byte) = b \<longleftrightarrow> x = uint b"
  by (auto simp: unsigned_of_int take_bit_int_eq_self)

lemma byte_uint: "0 \<le> uint (b :: byte)" "uint b < 256"
  using unsigned_less [of b, where 'a = int] by simp_all

lemma xml_char_bounds: "xml_char c \<Longrightarrow> 0 \<le> c \<and> c < 0x110000"
  by (auto simp: xml_char_def)

lemma byte_of: "word_of_int x = (a :: byte) \<Longrightarrow> 0 \<le> x \<Longrightarrow> x < 256 \<Longrightarrow> uint a = x"
  using word_of_int_byte [of x a] by auto

text \<open>Base-64 digits.\<close>

lemma digit64:
  fixes k z :: int
  assumes "0 \<le> z" and "z < 64"
  shows "(k * 64 + z) div 64 = k" and "(k * 64 + z) mod 64 = z"
  using assms by simp_all

lemma div_64_powers:
  "(c :: int) div 4096 = c div 64 div 64" "c div 262144 = c div 64 div 64 div 64"
  using zdiv_zmult2_eq [of 64 c 64] zdiv_zmult2_eq [of 64 "c div 64" 64] zdiv_zmult2_eq [of 4096 c 64]
  by simp_all

lemma split64: "(c :: int) = c div 64 * 64 + c mod 64"
  by simp

lemma encode2:
  "(\<exists>c. xml_char c \<and> XmlUtf8Encode c = [a, b]) \<longleftrightarrow>
    0xC2 \<le> uint a \<and> uint a \<le> 0xDF \<and> 0x80 \<le> uint b \<and> uint b \<le> 0xBF"
  (is "?L \<longleftrightarrow> ?R")
proof
  assume ?L
  then obtain c where c: "xml_char c" "XmlUtf8Encode c = [a, b]" by blast
  then have r: "0x80 \<le> c" "c < 0x800" and e: "word_of_int (c div 64 + 0xC0) = a"
    "word_of_int (c mod 64 + 0x80) = b"
    by (auto simp: XmlUtf8Encode_arith split: if_split_asm)
  have "0 \<le> c div 64" "c div 64 < 0x20" "2 \<le> c div 64" using r by linarith+
  with byte_of [OF e(1)] byte_of [OF e(2)] show ?R by simp
next
  assume R: ?R
  define x z where "x = uint a - 0xC0" and "z = uint b - 0x80"
  define c where "c = x * 64 + z"
  have b: "2 \<le> x" "x < 32" "0 \<le> z" "z < 64" using R by (auto simp: x_def z_def)
  have c: "c div 64 + 0xC0 = uint a" "c mod 64 + 0x80 = uint b"
    unfolding c_def digit64 [OF b(3,4)] by (simp_all add: x_def z_def)
  have r: "0x80 \<le> c" "c < 0x800" using b by (auto simp: c_def)
  have "XmlUtf8Encode c = [a, b]" unfolding XmlUtf8Encode_arith c using r by simp
  moreover have "xml_char c" using r by (simp add: xml_char_def)
  ultimately show ?L by blast
qed

lemma encode3:
  "(\<exists>c. xml_char c \<and> XmlUtf8Encode c = [a, b, d]) \<longleftrightarrow>
    0xE0 \<le> uint a \<and> uint a \<le> 0xEF \<and> 0x80 \<le> uint b \<and> uint b \<le> 0xBF \<and> 0x80 \<le> uint d \<and> uint d \<le> 0xBF \<and>
    (uint a = 0xE0 \<longrightarrow> 0xA0 \<le> uint b) \<and> (uint a = 0xED \<longrightarrow> uint b \<le> 0x9F) \<and>
    (uint a = 0xEF \<and> uint b = 0xBF \<longrightarrow> uint d \<le> 0xBD)"
  (is "?L \<longleftrightarrow> ?R")
proof
  assume ?L
  then obtain c where c: "xml_char c" "XmlUtf8Encode c = [a, b, d]" by blast
  then have r: "0x800 \<le> c" "c < 0x10000" and e: "word_of_int (c div 4096 + 0xE0) = a"
    "word_of_int (c div 64 mod 64 + 0x80) = b" "word_of_int (c mod 64 + 0x80) = d"
    by (auto simp: XmlUtf8Encode_arith split: if_split_asm)
  define x y z where "x = c div 4096" and "y = c div 64 mod 64" and "z = c mod 64"
  have cx: "c = (x * 64 + y) * 64 + z"
    unfolding x_def y_def z_def div_64_powers by (simp only: split64 [symmetric])
  have q: "0 \<le> x" "x < 0x10" using r unfolding x_def by linarith+
  have b: "0 \<le> y" "y < 64" "0 \<le> z" "z < 64" by (simp_all add: y_def z_def)
  have u: "uint a = x + 0xE0" "uint b = y + 0x80" "uint d = z + 0x80"
    using byte_of [OF e(1) [folded x_def]] byte_of [OF e(2) [folded y_def]]
      byte_of [OF e(3) [folded z_def]] q b by simp_all
  show ?R
    unfolding u using b q r c(1) unfolding cx xml_char_def by auto
next
  assume R: ?R
  define x y z where "x = uint a - 0xE0" and "y = uint b - 0x80" and "z = uint d - 0x80"
  define c where "c = (x * 64 + y) * 64 + z"
  have b: "0 \<le> x" "x < 16" "0 \<le> y" "y < 64" "0 \<le> z" "z < 64" using R by (auto simp: x_def y_def z_def)
  have c: "c div 4096 + 0xE0 = uint a" "c div 64 mod 64 + 0x80 = uint b" "c mod 64 + 0x80 = uint d"
    unfolding c_def div_64_powers digit64 [OF b(5,6)] digit64 [OF b(3,4)]
    by (simp_all add: x_def y_def z_def)
  have r: "0x800 \<le> c" "c < 0x10000" using R b unfolding c_def x_def y_def by auto
  have "XmlUtf8Encode c = [a, b, d]"
    unfolding XmlUtf8Encode_arith c using r by simp
  moreover have "xml_char c"
  proof -
    have R': "x = 13 \<longrightarrow> y \<le> 31" "x = 15 \<and> y = 63 \<longrightarrow> z \<le> 61"
      using R by (auto simp: x_def y_def z_def)
    consider "x < 13" | "x = 13" | "x = 14" | "x = 15" "y < 63" | "x = 15" "y = 63" using b by linarith
    then show ?thesis using R' b r by cases (auto simp: xml_char_def c_def)
  qed
  ultimately show ?L by blast
qed

lemma encode4:
  "(\<exists>c. xml_char c \<and> XmlUtf8Encode c = [a, b, d, e]) \<longleftrightarrow>
    0xF0 \<le> uint a \<and> uint a \<le> 0xF4 \<and> 0x80 \<le> uint b \<and> uint b \<le> 0xBF \<and> 0x80 \<le> uint d \<and> uint d \<le> 0xBF \<and>
    0x80 \<le> uint e \<and> uint e \<le> 0xBF \<and>
    (uint a = 0xF0 \<longrightarrow> 0x90 \<le> uint b) \<and> (uint a = 0xF4 \<longrightarrow> uint b \<le> 0x8F)"
  (is "?L \<longleftrightarrow> ?R")
proof
  assume ?L
  then obtain c where c: "XmlUtf8Encode c = [a, b, d, e]" by blast
  then have r: "0x10000 \<le> c" "c < 0x110000" and eq: "word_of_int (c div 262144 + 0xF0) = a"
    "word_of_int (c div 4096 mod 64 + 0x80) = b"
    "word_of_int (c div 64 mod 64 + 0x80) = d" "word_of_int (c mod 64 + 0x80) = e"
    by (auto simp: XmlUtf8Encode_arith split: if_split_asm)
  define w x y z where "w = c div 262144" and "x = c div 4096 mod 64" and "y = c div 64 mod 64"
    and "z = c mod 64"
  have cx: "c = ((w * 64 + x) * 64 + y) * 64 + z"
    unfolding w_def x_def y_def z_def div_64_powers by (simp only: split64 [symmetric])
  have q: "0 \<le> w" "w \<le> 4" using r unfolding w_def by linarith+
  have b: "0 \<le> x" "x < 64" "0 \<le> y" "y < 64" "0 \<le> z" "z < 64" by (simp_all add: x_def y_def z_def)
  have u: "uint a = w + 0xF0" "uint b = x + 0x80" "uint d = y + 0x80" "uint e = z + 0x80"
    using byte_of [OF eq(1) [folded w_def]] byte_of [OF eq(2) [folded x_def]]
      byte_of [OF eq(3) [folded y_def]] byte_of [OF eq(4) [folded z_def]] q b by simp_all
  have "w = 0 \<longrightarrow> 16 \<le> x" "w = 4 \<longrightarrow> x \<le> 15"
    using r b unfolding cx by auto
  then show ?R
    unfolding u using b q by auto
next
  assume R: ?R
  define w x y z where "w = uint a - 0xF0" and "x = uint b - 0x80" and "y = uint d - 0x80"
    and "z = uint e - 0x80"
  define c where "c = ((w * 64 + x) * 64 + y) * 64 + z"
  have b: "0 \<le> w" "w \<le> 4" "0 \<le> x" "x < 64" "0 \<le> y" "y < 64" "0 \<le> z" "z < 64"
    using R by (auto simp: w_def x_def y_def z_def)
  have c: "c div 262144 + 0xF0 = uint a" "c div 4096 mod 64 + 0x80 = uint b"
    "c div 64 mod 64 + 0x80 = uint d" "c mod 64 + 0x80 = uint e"
    unfolding c_def div_64_powers digit64 [OF b(7,8)] digit64 [OF b(5,6)] digit64 [OF b(3,4)]
    by (simp_all add: w_def x_def y_def z_def)
  have R': "w = 0 \<longrightarrow> 16 \<le> x" "w = 4 \<longrightarrow> x \<le> 15" using R by (auto simp: w_def x_def)
  have r: "0x10000 \<le> c" "c < 0x110000"
  proof -
    consider "w = 0" | "w = 4" | "1 \<le> w" "w \<le> 3" using b by linarith
    then show "0x10000 \<le> c" using R' b by cases (auto simp: c_def)
    consider "w = 0" | "w = 4" | "1 \<le> w" "w \<le> 3" using b by linarith
    then show "c < 0x110000" using R' b by cases (auto simp: c_def)
  qed
  have "XmlUtf8Encode c = [a, b, d, e]"
    unfolding XmlUtf8Encode_arith c using r by simp
  moreover have "xml_char c" using r by (simp add: xml_char_def)
  ultimately show ?L by blast
qed

lemma and_C0: "(b :: byte) AND 0xC0 = 0xC0 \<longleftrightarrow> 0xC0 \<le> b"
  by (rule byte_exhaust [of "\<lambda>b. b AND 0xC0 = 0xC0 \<longleftrightarrow> 0xC0 \<le> b"]) code_simp

lemma and_80: "(b :: byte) AND 0x80 = 0 \<longleftrightarrow> b < 0x80"
  by (rule byte_exhaust [of "\<lambda>b. b AND 0x80 = 0 \<longleftrightarrow> b < 0x80"]) code_simp

text \<open>C30: the UTF-8 validity tests the scanners apply to a multi-byte sequence reject exactly the
  sequences that are not the encoding, by \<open>XmlUtf8Encode\<close>, of a character XML allows: overlong
  forms, surrogates, U+FFFE, U+FFFF and values past U+10FFFF are all refused, and nothing else.\<close>

theorem utf8_validity_exact:
  assumes "lead_len (type_tab (utf8_encoding ns) ! unat (hd bs)) = length bs" and "bs \<noteq> []"
  shows "IS_INVALID_CHAR (utf8_encoding ns) bs 0 (length bs) =
    Some (\<not> (\<exists>c. xml_char c \<and> XmlUtf8Encode c = bs))"
proof -
  note defs = IS_INVALID_CHAR_def call_test_def utf8_encoding_def utf8_isInvalid_tab_def
    utf8_isInvalid2_def utf8_isInvalid3_def utf8_isInvalid4_def UTF8_INVALID2_def UTF8_INVALID3_def
    UTF8_INVALID4_def and_C0 and_80
  have "length bs = 2 \<or> length bs = 3 \<or> length bs = 4"
    using assms by (auto simp: lead_len_def split: if_split_asm)
  then consider a b where "bs = [a, b]" | a b d where "bs = [a, b, d]" | a b d e where "bs = [a, b, d, e]"
    by (auto simp: length_Suc_conv numeral_eq_Suc)
  then show ?thesis
  proof cases
    case 1
    then have "type_tab (utf8_encoding ns) ! unat a = BT_LEAD2"
      using assms(1) by (auto simp: lead_len_def split: if_split_asm)
    then have "0xC0 \<le> a \<and> a \<le> 0xDF" by (simp add: utf8_lead)
    then show ?thesis unfolding 1 encode2 by (auto simp: defs word_le_def word_less_def)
  next
    case 2
    then have "type_tab (utf8_encoding ns) ! unat a = BT_LEAD3"
      using assms(1) by (auto simp: lead_len_def split: if_split_asm)
    then have "0xE0 \<le> a \<and> a \<le> 0xEF" by (simp add: utf8_lead)
    then show ?thesis unfolding 2 encode3
      by (simp add: defs) (auto simp: word_le_def word_less_def word_uint_eq_iff)
  next
    case 3
    then have "type_tab (utf8_encoding ns) ! unat a = BT_LEAD4"
      using assms(1) by (auto simp: lead_len_def split: if_split_asm)
    then have "0xF0 \<le> a \<and> a \<le> 0xF4" by (simp add: utf8_lead)
    then show ?thesis unfolding 3 encode4
      by (simp add: defs) (auto simp: word_le_def word_less_def word_uint_eq_iff)
  qed
qed

theorem utf8_validity_exact_witness:
  "IS_INVALID_CHAR (utf8_encoding True) [0xED, 0xA0, 0x80] 0 3 =
     Some (\<not> (\<exists>c. xml_char c \<and> XmlUtf8Encode c = [0xED, 0xA0, 0x80]))"
proof -
  let ?bs = "[0xED, 0xA0, 0x80] :: byte list"
  have l: "length ?bs = 3" and ne: "?bs \<noteq> []" by simp_all
  have "lead_len (type_tab (utf8_encoding True) ! unat (hd ?bs)) = length ?bs"
    unfolding l by code_simp
  from utf8_validity_exact [OF this ne] show ?thesis unfolding l .
qed

end
