(* ===== verification/Xml_Convert_Props.thy ===== *)
theory Xml_Convert_Props
  imports Xml_Convert
begin

text \<open>
  What the converters of \<^verbatim>\<open>xmltok.c\<close> produce, against the encoding of the characters they are
  given.
\<close>

section \<open>Latin-1\<close>

lemma latin1_char:
  "XmlUtf8Encode (uint (c :: byte)) =
     (if c AND 0x80 \<noteq> 0 then [drop_bit 6 c OR 0xC0, (c AND 0x3F) OR 0x80] else [c])"
proof -
  have "word_of_int (drop_bit 6 (uint c) OR 0xC0) = drop_bit 6 c OR 0xC0"
    and "word_of_int ((uint c AND 0x3F) OR 0x80) = (c AND 0x3F) OR 0x80"
    by (rule bit_word_eqI; simp add: bit_simps)+
  then show ?thesis
    using byte_uint [of c] and_80 [of c] by (auto simp: XmlUtf8Encode_def word_less_def)
qed

definition utf8_of :: "int list \<Rightarrow> byte list" where
  "utf8_of cs = concat (map XmlUtf8Encode cs)"

lemma utf8_of_simps [simp]: "utf8_of [] = []" "utf8_of (c # cs) = XmlUtf8Encode c @ utf8_of cs"
  by (simp_all add: utf8_of_def)

lemma latin1_toUtf8_spec:
  assumes "latin1_toUtf8 src room = (n, out)"
  shows "n \<le> length src \<and> out = utf8_of (map uint (take n src)) \<and> length out \<le> room \<and>
    (n < length src \<longrightarrow> room < length (utf8_of (map uint (take (Suc n) src))))"
  using assms
proof (induction src room arbitrary: n out rule: latin1_toUtf8.induct)
  case (2 c src room)
  show ?case
  proof (cases "c AND 0x80 \<noteq> 0")
    case True
    then show ?thesis using 2
      by (auto simp: latin1_char split: prod.splits if_split_asm)
  next
    case False
    then show ?thesis using 2
      by (auto simp: latin1_char split: prod.splits if_split_asm)
  qed
qed simp

text \<open>\<open>latin1_toUtf8\<close> writes the UTF-8 encoding of a prefix of the Latin-1 bytes it is given,
  never a part of a character and never more than the room there is, and it stops before the end
  of its input only where the next character does not fit.\<close>

lemma latin1_toUtf8_correct:
  assumes "latin1_toUtf8 src room = (n, out)"
  shows "n \<le> length src \<and> out = utf8_of (map uint (take n src)) \<and> length out \<le> room \<and>
    (n < length src \<longrightarrow> room < length (utf8_of (map uint (take (Suc n) src))))"
  by (rule latin1_toUtf8_spec [OF assms])

section \<open>Cutting UTF-8\<close>

lemma and_C0_80: "(b :: byte) AND 0xC0 = 0x80 \<longleftrightarrow> 0x80 \<le> b \<and> b \<le> 0xBF"
  by (rule byte_exhaust [of "\<lambda>b. b AND 0xC0 = 0x80 \<longleftrightarrow> 0x80 \<le> b \<and> b \<le> 0xBF"]) code_simp

lemma continuation_byte:
  "0 \<le> x \<Longrightarrow> x < 256 \<Longrightarrow> word_of_int x AND 0xC0 = (0x80 :: byte) \<longleftrightarrow> 0x80 \<le> x \<and> x \<le> 0xBF"
  by (simp add: and_C0_80 word_le_def unsigned_of_int take_bit_int_eq_self)

lemma encode_bytes:
  assumes "0 \<le> c" and "c < 0x110000"
  shows "XmlUtf8Encode c \<noteq> []" and "hd (XmlUtf8Encode c) AND 0xC0 \<noteq> 0x80"
    and "x \<in> set (tl (XmlUtf8Encode c)) \<Longrightarrow> x AND 0xC0 = 0x80"
proof -
  show "XmlUtf8Encode c \<noteq> []" using assms by (simp add: XmlUtf8Encode_def)
  have "c < 0x800 \<Longrightarrow> c div 64 < 0x20" "c < 0x10000 \<Longrightarrow> c div 4096 < 0x10" "c div 262144 < 5"
    "0 \<le> c div 64" "0 \<le> c div 4096" "0 \<le> c div 262144"
    using assms by linarith+
  then show "hd (XmlUtf8Encode c) AND 0xC0 \<noteq> 0x80"
    using assms continuation_byte [of c] continuation_byte [of "c div 64 + 0xC0"]
      continuation_byte [of "c div 4096 + 0xE0"] continuation_byte [of "c div 262144 + 0xF0"]
    by (simp add: XmlUtf8Encode_arith)
  have "word_of_int (y mod 64 + 0x80) AND 0xC0 = (0x80 :: byte)" for y
  proof -
    have "0 \<le> y mod 64" "y mod 64 < 64" by simp_all
    then have "0 \<le> y mod 64 + 0x80" "y mod 64 + 0x80 < 256" "y mod 64 + 0x80 \<le> 0xBF" by linarith+
    then show ?thesis by (simp only: continuation_byte) simp
  qed
  then show "x \<in> set (tl (XmlUtf8Encode c)) \<Longrightarrow> x AND 0xC0 = 0x80"
    by (auto simp: XmlUtf8Encode_arith split: if_split_asm)
qed

lemma back_off_le: "back_off src n \<le> n"
  by (induction n) auto

lemma back_off_append:
  "back_off (xs @ ys) (length xs + m) =
     (if back_off ys m = 0 then back_off (xs @ ys) (length xs) else length xs + back_off ys m)"
  by (induction m) (auto simp: nth_append)

lemma back_off_char:
  assumes "x AND 0xC0 \<noteq> 0x80" and "\<forall>y \<in> set xs. y AND 0xC0 = 0x80" and "m \<le> length xs"
  shows "back_off (x # xs @ ys) (Suc m) = 1"
  using assms by (induction m) (auto simp: nth_append)

lemma utf8_toUtf8_cut_spec:
  assumes "\<forall>c \<in> set cs. 0 \<le> c \<and> c < 0x110000" and "0 < room" and "room < length (utf8_of cs)"
  shows "\<exists>k < length cs. back_off (utf8_of cs) room = Suc (length (utf8_of (take k cs)))"
  using assms
proof (induction cs arbitrary: room)
  case (Cons c cs)
  obtain x xs where e: "XmlUtf8Encode c = x # xs" and x: "x AND 0xC0 \<noteq> 0x80"
    "\<forall>y \<in> set xs. y AND 0xC0 = 0x80"
    using Cons.prems(1) encode_bytes [of c] by (cases "XmlUtf8Encode c") auto
  show ?case
  proof (cases "room \<le> length (XmlUtf8Encode c)")
    case True
    then have "back_off (utf8_of (c # cs)) room = 1"
      using back_off_char [OF x, of "room - 1"] Cons.prems(2) by (simp add: e)
    then show ?thesis by (intro exI [of _ 0]) simp
  next
    case False
    define m where "m = room - length (XmlUtf8Encode c)"
    have m: "room = length (XmlUtf8Encode c) + m" "0 < m" "m < length (utf8_of cs)"
      using False Cons.prems by (auto simp: m_def)
    from Cons.IH [OF _ m(2,3)] Cons.prems(1) obtain k where k: "k < length cs"
      "back_off (utf8_of cs) m = Suc (length (utf8_of (take k cs)))" by auto
    then show ?thesis unfolding m(1)
      by (intro exI [of _ "Suc k"]) (simp add: back_off_append)
  qed
qed simp

lemma utf8_of_nth:
  "k < length cs \<Longrightarrow> utf8_of cs = utf8_of (take k cs) @ XmlUtf8Encode (cs ! k) @ utf8_of (drop (Suc k) cs)"
  by (induction cs arbitrary: k) (auto simp: nth_Cons split: nat.split)

text \<open>When the target has less room than the text, \<open>utf8_toUtf8\<close> copies a number of whole
  characters and then exactly one more byte, the first byte of the next character: only when that
  character is an ASCII one is no character split. The comment in the code says that no partial
  character is copied.\<close>

lemma utf8_toUtf8_cut:
  assumes "\<forall>c \<in> set cs. 0 \<le> c \<and> c < 0x110000" and "0 < room" and "room < length (utf8_of cs)"
  shows "\<exists>k < length cs. utf8_toUtf8 (utf8_of cs) room =
    (Suc (length (utf8_of (take k cs))), utf8_of (take k cs) @ [hd (XmlUtf8Encode (cs ! k))])"
proof -
  obtain k where k: "k < length cs" "back_off (utf8_of cs) room = Suc (length (utf8_of (take k cs)))"
    using utf8_toUtf8_cut_spec [OF assms] by blast
  have "XmlUtf8Encode (cs ! k) \<noteq> []" using assms(1) k(1) by (simp add: encode_bytes)
  then have "take (Suc (length (utf8_of (take k cs)))) (utf8_of cs) =
      utf8_of (take k cs) @ [hd (XmlUtf8Encode (cs ! k))]"
    unfolding utf8_of_nth [OF k(1)] by (cases "XmlUtf8Encode (cs ! k)") simp_all
  then show ?thesis using k assms(3) by (auto simp: utf8_toUtf8_def)
qed

end
