(* ===== verification/Xml_Memory.thy ===== *)
theory Xml_Memory
  imports Prelude
begin

text \<open>
  The memory handling suite of \<^verbatim>\<open>expat.h\<close>, the three functions an application passes to
  \<open>XML_ParserCreate_MM\<close> and through which every container of the parser allocates. The functions
  are the application's: the model is parametric in the state \<open>'m\<close> they act on, an address is a
  natural number and \<open>NULL\<close> is \<open>None\<close>. \<open>lawful\<close> is what the C standard says of \<open>malloc\<close>,
  \<open>realloc\<close> and \<open>free\<close>, stated over the set of blocks that are allocated; nothing is said of
  freeing a block that is not. Sizes are those of a platform on which \<open>size_t\<close>, \<open>unsigned long\<close>
  and pointers have 32 bits, as on both targets of the application. The error codes of the header are
  here, too.
\<close>

type_synonym size_t = "32 word"
type_synonym ulong = "32 word"
type_synonym address = nat

definition sizeof_ptr :: size_t where
  "sizeof_ptr = 4"

record 'm XML_Memory_Handling_Suite =
  malloc_fcn :: "size_t \<Rightarrow> 'm \<Rightarrow> address option \<times> 'm"
  realloc_fcn :: "address option \<Rightarrow> size_t \<Rightarrow> 'm \<Rightarrow> address option \<times> 'm"
  free_fcn :: "address option \<Rightarrow> 'm \<Rightarrow> 'm"

definition lawful :: "('m \<Rightarrow> address set) \<Rightarrow> 'm XML_Memory_Handling_Suite \<Rightarrow> bool" where
  "lawful live ms \<longleftrightarrow>
     (\<forall>n m. case malloc_fcn ms n m of
        (None, m') \<Rightarrow> live m' = live m
      | (Some a, m') \<Rightarrow> a \<notin> live m \<and> live m' = insert a (live m)) \<and>
     (\<forall>a n m. a \<in> live m \<longrightarrow> (case realloc_fcn ms (Some a) n m of
        (None, m') \<Rightarrow> live m' = live m
      | (Some b, m') \<Rightarrow> b \<notin> live m - {a} \<and> live m' = insert b (live m - {a}))) \<and>
     (\<forall>a m. a \<in> live m \<longrightarrow> live (free_fcn ms (Some a) m) = live m - {a}) \<and>
     (\<forall>m. live (free_fcn ms None m) = live m)"

lemma lawful_malloc:
  assumes "lawful live ms" "malloc_fcn ms n m = (p, m')"
  shows "case p of None \<Rightarrow> live m' = live m | Some a \<Rightarrow> a \<notin> live m \<and> live m' = insert a (live m)"
  using assms(1) [unfolded lawful_def, THEN conjunct1, THEN spec [of _ n], THEN spec [of _ m]]
  unfolding assms(2) prod.case .

lemma lawful_realloc:
  assumes "lawful live ms" "a \<in> live m" "realloc_fcn ms (Some a) n m = (p, m')"
  shows "case p of None \<Rightarrow> live m' = live m
    | Some b \<Rightarrow> b \<notin> live m - {a} \<and> live m' = insert b (live m - {a})"
  using assms(1) [unfolded lawful_def, THEN conjunct2, THEN conjunct1,
      THEN spec [of _ a], THEN spec [of _ n], THEN spec [of _ m], THEN mp, OF assms(2)]
  unfolding assms(3) prod.case .

lemma lawful_free:
  "lawful live ms \<Longrightarrow> a \<in> live m \<Longrightarrow> live (free_fcn ms (Some a) m) = live m - {a}"
  "lawful live ms \<Longrightarrow> live (free_fcn ms None m) = live m"
  by (simp_all add: lawful_def)

text \<open>
  An allocator that never hands out a block of \<open>2 ^ 30\<close> bytes: with it the \<open>int\<close> computations of
  block sizes do not overflow.
\<close>

definition modest :: "'m XML_Memory_Handling_Suite \<Rightarrow> bool" where
  "modest ms \<longleftrightarrow>
     (\<forall>n m. 2 ^ 30 \<le> unat n \<longrightarrow> fst (malloc_fcn ms n m) = None) \<and>
     (\<forall>p n m. 2 ^ 30 \<le> unat n \<longrightarrow> fst (realloc_fcn ms p n m) = None)"

lemma modest_malloc: "modest ms \<Longrightarrow> malloc_fcn ms n m = (Some a, m') \<Longrightarrow> unat n < 2 ^ 30"
  unfolding modest_def by (metis fst_conv not_le option.distinct(1))

lemma modest_realloc: "modest ms \<Longrightarrow> realloc_fcn ms p n m = (Some a, m') \<Longrightarrow> unat n < 2 ^ 30"
  unfolding modest_def by (metis fst_conv not_le option.distinct(1))

section \<open>A concrete suite\<close>

text \<open>
  An arena that hands out increasing addresses, a given number of them, and no block of \<open>2 ^ 30\<close>
  bytes: the suite the examples of the development run on.
\<close>

record arena =
  next_address :: address
  blocks_out :: "address list"
  budget :: nat

definition arena_live :: "arena \<Rightarrow> address set" where
  "arena_live m = set (filter (\<lambda>a. a < next_address m) (blocks_out m))"

definition arena_malloc :: "size_t \<Rightarrow> arena \<Rightarrow> address option \<times> arena" where
  "arena_malloc n m =
     (if budget m = 0 \<or> 2 ^ 30 \<le> unat n then (None, m)
      else (Some (next_address m),
            m\<lparr>next_address := Suc (next_address m),
              blocks_out := next_address m # filter (\<lambda>a. a < next_address m) (blocks_out m),
              budget := budget m - 1\<rparr>))"

definition arena_free :: "address option \<Rightarrow> arena \<Rightarrow> arena" where
  "arena_free p m =
     (case p of None \<Rightarrow> m | Some a \<Rightarrow> m\<lparr>blocks_out := filter (\<lambda>b. b \<noteq> a) (blocks_out m)\<rparr>)"

definition arena_realloc :: "address option \<Rightarrow> size_t \<Rightarrow> arena \<Rightarrow> address option \<times> arena" where
  "arena_realloc p n m =
     (case arena_malloc n m of
        (None, m) \<Rightarrow> (None, m)
      | (Some b, m) \<Rightarrow> (Some b, arena_free p m))"

definition arena_suite :: "arena XML_Memory_Handling_Suite" where
  "arena_suite = \<lparr>malloc_fcn = arena_malloc, realloc_fcn = arena_realloc, free_fcn = arena_free\<rparr>"

definition arena_init :: "nat \<Rightarrow> arena" where
  "arena_init n = \<lparr>next_address = 1, blocks_out = [], budget = n\<rparr>"

lemma lawful_arena: "lawful arena_live arena_suite"
  unfolding lawful_def
  by (auto simp: arena_suite_def arena_malloc_def arena_free_def arena_realloc_def arena_live_def
      less_Suc_eq split: option.split prod.split)

lemma modest_arena: "modest arena_suite"
  by (simp add: modest_def arena_suite_def arena_malloc_def arena_realloc_def)

section \<open>Error codes\<close>

datatype XML_Error =
    XML_ERROR_NONE | XML_ERROR_NO_MEMORY | XML_ERROR_SYNTAX | XML_ERROR_NO_ELEMENTS | XML_ERROR_INVALID_TOKEN
  | XML_ERROR_UNCLOSED_TOKEN | XML_ERROR_PARTIAL_CHAR | XML_ERROR_TAG_MISMATCH | XML_ERROR_DUPLICATE_ATTRIBUTE
  | XML_ERROR_JUNK_AFTER_DOC_ELEMENT | XML_ERROR_PARAM_ENTITY_REF | XML_ERROR_UNDEFINED_ENTITY
  | XML_ERROR_RECURSIVE_ENTITY_REF | XML_ERROR_ASYNC_ENTITY | XML_ERROR_BAD_CHAR_REF
  | XML_ERROR_BINARY_ENTITY_REF | XML_ERROR_ATTRIBUTE_EXTERNAL_ENTITY_REF | XML_ERROR_MISPLACED_XML_PI
  | XML_ERROR_UNKNOWN_ENCODING | XML_ERROR_INCORRECT_ENCODING | XML_ERROR_UNCLOSED_CDATA_SECTION
  | XML_ERROR_EXTERNAL_ENTITY_HANDLING | XML_ERROR_NOT_STANDALONE | XML_ERROR_UNEXPECTED_STATE
  | XML_ERROR_ENTITY_DECLARED_IN_PE | XML_ERROR_FEATURE_REQUIRES_XML_DTD
  | XML_ERROR_CANT_CHANGE_FEATURE_ONCE_PARSING | XML_ERROR_UNBOUND_PREFIX | XML_ERROR_UNDECLARING_PREFIX
  | XML_ERROR_INCOMPLETE_PE | XML_ERROR_XML_DECL | XML_ERROR_TEXT_DECL | XML_ERROR_PUBLICID
  | XML_ERROR_SUSPENDED | XML_ERROR_NOT_SUSPENDED | XML_ERROR_ABORTED | XML_ERROR_FINISHED
  | XML_ERROR_SUSPEND_PE | XML_ERROR_RESERVED_PREFIX_XML | XML_ERROR_RESERVED_PREFIX_XMLNS
  | XML_ERROR_RESERVED_NAMESPACE_URI

end
