(* ===== verification/Xml_Hash.thy ===== *)
theory Xml_Hash
  imports Xml_Memory
begin

text \<open>
  The hash tables of \<^verbatim>\<open>xmlparse.c\<close>: open addressing with double hashing over a power of two of
  slots. Keys are \<open>NUL\<close> terminated strings, given as the bytes at the key's address; reading past
  them is a fault (\<open>None\<close>), as is an access outside the slot array. A \<open>NAMED\<close> object is its
  address, its \<open>name\<close> and the bytes of the structure behind the name, which \<open>lookup\<close> clears and
  its callers fill in. A table that holds the keys of a document is a finite map: that refinement,
  termination of the probe loops and the ownership of the memory are proved in \<open>Xml_Hash_Props\<close>.
\<close>

type_synonym KEY = "byte list"

record NAMED =
  nm_addr :: address
  nm_name :: KEY
  nm_rest :: "byte list"

record 'm HASH_TABLE =
  ht_v :: "NAMED option list"
  ht_base :: "address option"
  ht_power :: byte
  ht_size :: size_t
  ht_used :: size_t
  ht_mem :: "'m XML_Memory_Handling_Suite"

section \<open>Keys\<close>

definition CHAR_HASH :: "ulong \<Rightarrow> byte \<Rightarrow> ulong" where
  "CHAR_HASH h c = (h * 0xF4243) XOR ucast c"

fun hash_loop :: "ulong \<Rightarrow> KEY \<Rightarrow> ulong option" where
  "hash_loop h [] = None"
| "hash_loop h (c # s) = (if c = 0 then Some h else hash_loop (CHAR_HASH h c) s)"

definition hash :: "KEY \<Rightarrow> ulong option" where
  "hash s = hash_loop 0 s"

fun keyeq :: "KEY \<Rightarrow> KEY \<Rightarrow> bool option" where
  "keyeq (a # s1) (b # s2) =
     (if a = b then if a = 0 then Some True else keyeq s1 s2 else Some False)"
| "keyeq _ _ = None"

definition SECOND_HASH :: "ulong \<Rightarrow> ulong \<Rightarrow> byte \<Rightarrow> ulong" where
  "SECOND_HASH h msk pw =
     drop_bit (unat pw - 1) (h AND NOT msk) AND drop_bit 2 msk"

definition PROBE_STEP :: "ulong \<Rightarrow> ulong \<Rightarrow> byte \<Rightarrow> byte" where
  "PROBE_STEP h msk pw = ucast (SECOND_HASH h msk pw OR 1)"

section \<open>Probing\<close>

definition INIT_POWER :: byte where
  "INIT_POWER = 6"

definition next_slot :: "size_t \<Rightarrow> byte \<Rightarrow> size_t \<Rightarrow> size_t" where
  "next_slot sz step i = (if i < ucast step then i + (sz - ucast step) else i - ucast step)"

text \<open>The step of a probe sequence is computed at the first collision.\<close>

definition step_of :: "byte \<Rightarrow> ulong \<Rightarrow> ulong \<Rightarrow> byte \<Rightarrow> byte" where
  "step_of step h msk pw = (if step = 0 then PROBE_STEP h msk pw else step)"

definition slot_at :: "NAMED option list \<Rightarrow> size_t \<Rightarrow> NAMED option option" where
  "slot_at v i = (if unat i < length v then Some (v ! unat i) else None)"

partial_function (option) find_slot ::
  "NAMED option list \<Rightarrow> KEY \<Rightarrow> ulong \<Rightarrow> byte \<Rightarrow> size_t \<Rightarrow> byte \<Rightarrow> size_t \<Rightarrow>
    (size_t \<times> NAMED option) option" where
  "find_slot v name h pw sz step i = do {
     s \<leftarrow> slot_at v i;
     case s of
       None \<Rightarrow> Some (i, None)
     | Some e \<Rightarrow> do {
         eq \<leftarrow> keyeq name (nm_name e);
         if eq then Some (i, Some e)
         else
           let step = step_of step h (sz - 1) pw
           in find_slot v name h pw sz step (next_slot sz step i)
       }
   }"

partial_function (option) free_slot ::
  "NAMED option list \<Rightarrow> ulong \<Rightarrow> byte \<Rightarrow> size_t \<Rightarrow> byte \<Rightarrow> size_t \<Rightarrow> size_t option" where
  "free_slot v h pw sz step i = do {
     s \<leftarrow> slot_at v i;
     case s of
       None \<Rightarrow> Some i
     | Some e \<Rightarrow>
         let step = step_of step h (sz - 1) pw
         in free_slot v h pw sz step (next_slot sz step i)
   }"

declare find_slot.simps [code] free_slot.simps [code]

section \<open>Lookup and insertion\<close>

definition new_slots :: "size_t \<Rightarrow> NAMED option list" where
  "new_slots tsize = replicate (unat tsize div unat sizeof_ptr) None"

function rehash :: "NAMED option list \<Rightarrow> size_t \<Rightarrow> byte \<Rightarrow> size_t \<Rightarrow> nat \<Rightarrow> NAMED option list \<Rightarrow>
    NAMED option list option" where
  "rehash v sz newPower newSize i newV =
     (if i < unat sz then do {
        s \<leftarrow> slot_at v (of_nat i);
        case s of
          None \<Rightarrow> rehash v sz newPower newSize (Suc i) newV
        | Some e \<Rightarrow> do {
            newHash \<leftarrow> hash (nm_name e);
            j \<leftarrow> free_slot newV newHash newPower newSize 0 (newHash AND (newSize - 1));
            rehash v sz newPower newSize (Suc i) (newV[unat j := Some e])
          }
      }
      else Some newV)"
  by pat_completeness auto
termination by (relation "measure (\<lambda>(v, sz, p, n, i, w). unat sz - i)") auto

declare rehash.simps [simp del]

definition lookup_create ::
  "'m HASH_TABLE \<Rightarrow> KEY \<Rightarrow> size_t \<Rightarrow> size_t \<Rightarrow> 'm \<Rightarrow> ('m HASH_TABLE \<times> NAMED option \<times> 'm) option" where
  "lookup_create table name createSize i m = do {
     _ \<leftarrow> slot_at (ht_v table) i;
     case malloc_fcn (ht_mem table) createSize m of
       (None, m) \<Rightarrow> Some (table\<lparr>ht_v := (ht_v table)[unat i := None]\<rparr>, None, m)
     | (Some a, m) \<Rightarrow>
         if createSize < sizeof_ptr then None
         else
           let e = \<lparr>nm_addr = a, nm_name = name,
                    nm_rest = replicate (unat createSize - unat sizeof_ptr) 0\<rparr>
           in Some (table\<lparr>ht_v := (ht_v table)[unat i := Some e], ht_used := ht_used table + 1\<rparr>,
                    Some e, m)
   }"

definition lookup_init ::
  "'m HASH_TABLE \<Rightarrow> KEY \<Rightarrow> size_t \<Rightarrow> 'm \<Rightarrow> ('m HASH_TABLE \<times> NAMED option \<times> 'm) option" where
  "lookup_init table name createSize m =
     (let sz = push_bit (unat INIT_POWER) 1;
          tsize = sz * sizeof_ptr;
          table = table\<lparr>ht_power := INIT_POWER\<rparr>
      in case malloc_fcn (ht_mem table) tsize m of
           (None, m) \<Rightarrow> Some (table\<lparr>ht_size := 0, ht_base := None, ht_v := []\<rparr>, None, m)
         | (Some a, m) \<Rightarrow> do {
             h \<leftarrow> hash name;
             lookup_create (table\<lparr>ht_size := sz, ht_base := Some a, ht_v := new_slots tsize\<rparr>)
               name createSize (h AND (sz - 1)) m
           })"

definition lookup_grow ::
  "'m HASH_TABLE \<Rightarrow> KEY \<Rightarrow> size_t \<Rightarrow> ulong \<Rightarrow> 'm \<Rightarrow> ('m HASH_TABLE \<times> NAMED option \<times> 'm) option" where
  "lookup_grow table name createSize h m =
     (let newPower = ht_power table + 1;
          newSize = push_bit (unat newPower) 1;
          tsize = newSize * sizeof_ptr
      in case malloc_fcn (ht_mem table) tsize m of
           (None, m) \<Rightarrow> Some (table, None, m)
         | (Some a, m) \<Rightarrow> do {
             newV \<leftarrow> rehash (ht_v table) (ht_size table) newPower newSize 0 (new_slots tsize);
             let m = free_fcn (ht_mem table) (ht_base table) m;
             let table = table\<lparr>ht_v := newV, ht_base := Some a, ht_power := newPower, ht_size := newSize\<rparr>;
             i \<leftarrow> free_slot newV h newPower newSize 0 (h AND (newSize - 1));
             lookup_create table name createSize i m
           })"

definition lookup ::
  "'m HASH_TABLE \<Rightarrow> KEY \<Rightarrow> size_t \<Rightarrow> 'm \<Rightarrow> ('m HASH_TABLE \<times> NAMED option \<times> 'm) option" where
  "lookup table name createSize m =
     (if ht_size table = 0 then
        if createSize = 0 then Some (table, None, m) else lookup_init table name createSize m
      else do {
        h \<leftarrow> hash name;
        (i, found) \<leftarrow> find_slot (ht_v table) name h (ht_power table) (ht_size table) 0
          (h AND (ht_size table - 1));
        if found \<noteq> None then Some (table, found, m)
        else if createSize = 0 then Some (table, None, m)
        else if drop_bit (unat (ht_power table) - 1) (ht_used table) \<noteq> 0
        then lookup_grow table name createSize h m
        else lookup_create table name createSize i m
      })"

section \<open>The other operations\<close>

definition slot_addr :: "NAMED option \<Rightarrow> address option" where
  "slot_addr s = map_option nm_addr s"

definition hashTableInit :: "'m XML_Memory_Handling_Suite \<Rightarrow> 'm HASH_TABLE" where
  "hashTableInit ms =
     \<lparr>ht_v = [], ht_base = None, ht_power = 0, ht_size = 0, ht_used = 0, ht_mem = ms\<rparr>"

definition hashTableClear :: "'m HASH_TABLE \<Rightarrow> 'm \<Rightarrow> ('m HASH_TABLE \<times> 'm) option" where
  "hashTableClear table m =
     (if unat (ht_size table) \<le> length (ht_v table) then
        let n = unat (ht_size table);
            m = fold (\<lambda>s. free_fcn (ht_mem table) (slot_addr s)) (take n (ht_v table)) m
        in Some (table\<lparr>ht_v := replicate n None @ drop n (ht_v table), ht_used := 0\<rparr>, m)
      else None)"

definition hashTableDestroy :: "'m HASH_TABLE \<Rightarrow> 'm \<Rightarrow> 'm option" where
  "hashTableDestroy table m =
     (if unat (ht_size table) \<le> length (ht_v table) then
        let m = fold (\<lambda>s. free_fcn (ht_mem table) (slot_addr s))
                  (take (unat (ht_size table)) (ht_v table)) m
        in Some (free_fcn (ht_mem table) (ht_base table) m)
      else None)"

text \<open>An iterator's two pointers, as positions in the slot array of its table.\<close>

record HASH_TABLE_ITER =
  it_p :: nat
  it_end :: nat

definition hashTableIterInit :: "'m HASH_TABLE \<Rightarrow> HASH_TABLE_ITER" where
  "hashTableIterInit table = \<lparr>it_p = 0, it_end = unat (ht_size table)\<rparr>"

function hashTableIterNext ::
  "NAMED option list \<Rightarrow> HASH_TABLE_ITER \<Rightarrow> (HASH_TABLE_ITER \<times> NAMED option) option" where
  "hashTableIterNext v iter =
     (if it_p iter \<noteq> it_end iter then
        if it_p iter < length v then
          (case v ! it_p iter of
             None \<Rightarrow> hashTableIterNext v (iter\<lparr>it_p := Suc (it_p iter)\<rparr>)
           | Some tem \<Rightarrow> Some (iter\<lparr>it_p := Suc (it_p iter)\<rparr>, Some tem))
        else None
      else Some (iter, None))"
  by pat_completeness auto
termination by (relation "measure (\<lambda>(v, iter). length v - it_p iter)") auto

declare hashTableIterNext.simps [simp del]

end
