(* ===== verification/Xml_Probe.thy ===== *)
theory Xml_Probe
  imports Xml_Hash
begin

text \<open>
  Why the probe loops of the hash tables end, and end at the right slot. The locale \<open>probing\<close> is
  open addressing over any sequence of slots that visits the whole array: the chains of occupied
  slots it relies on, and what searching and inserting along them gives. Double hashing with an
  odd step over a power of two of slots is such a sequence.
\<close>

section \<open>Open addressing\<close>

definition chained :: "('h \<Rightarrow> nat \<Rightarrow> nat) \<Rightarrow> ('e \<Rightarrow> 'h) \<Rightarrow> 'e option list \<Rightarrow> bool" where
  "chained path hv v \<longleftrightarrow>
     (\<forall>i < length v. \<forall>e. v ! i = Some e \<longrightarrow>
        (\<exists>k < length v. path (hv e) k = i \<and> (\<forall>j < k. v ! path (hv e) j \<noteq> None)))"

text \<open>The first free slot of a probe sequence.\<close>

definition first_free :: "(nat \<Rightarrow> nat) \<Rightarrow> 'e option list \<Rightarrow> nat \<Rightarrow> bool" where
  "first_free path v k \<longleftrightarrow> k < length v \<and> v ! path k = None \<and> (\<forall>j < k. v ! path j \<noteq> None)"

lemma chained_empty: "chained path hv (replicate n None)"
  by (simp add: chained_def)

locale probing =
  fixes path :: "nat \<Rightarrow> 'h \<Rightarrow> nat \<Rightarrow> nat"
    and ok :: "nat \<Rightarrow> bool"
  assumes path_bij: "ok P \<Longrightarrow> bij_betw (path P h) {..<2 ^ P} {..<2 ^ P}"
begin

lemma path_less: "ok P \<Longrightarrow> k < 2 ^ P \<Longrightarrow> path P h k < 2 ^ P"
  using path_bij [of P h] by (auto simp: bij_betw_def)

lemma path_inj: "ok P \<Longrightarrow> j < 2 ^ P \<Longrightarrow> k < 2 ^ P \<Longrightarrow> path P h j = path P h k \<longleftrightarrow> j = k"
  using path_bij [of P h] by (auto simp: bij_betw_def inj_on_def)

lemma first_free_ex:
  assumes "ok P" "length v = 2 ^ P" "i < length v" "v ! i = None"
  shows "\<exists>k. first_free (path P h) v k"
proof -
  have "i \<in> path P h ` {..<2 ^ P}" using path_bij [OF assms(1), of h] assms(2,3) by (simp add: bij_betw_def)
  then have "\<exists>k. k < length v \<and> v ! path P h k = None" using assms(2,4) by auto
  then show ?thesis using exists_least_iff [of "\<lambda>k. k < length v \<and> v ! path P h k = None"]
    unfolding first_free_def by (metis order.strict_trans)
qed

lemma chained_insert:
  assumes "ok P" "length v = 2 ^ P" "chained (path P) hv v" "first_free (path P (hv e)) v k"
  shows "chained (path P) hv (v[path P (hv e) k := Some e])"
  unfolding chained_def
proof (intro allI impI)
  let ?w = "v[path P (hv e) k := Some e]"
  fix i x assume i: "i < length ?w" "?w ! i = Some x"
  have occupied: "\<And>j. v ! j \<noteq> None \<Longrightarrow> ?w ! j \<noteq> None" by (metis nth_list_update_eq nth_list_update_neq list_update_beyond not_le_imp_less option.distinct(1))
  show "\<exists>k < length ?w. path P (hv x) k = i \<and> (\<forall>j < k. ?w ! path P (hv x) j \<noteq> None)"
  proof (cases "i = path P (hv e) k")
    case True
    then have "x = e" using i by simp
    then show ?thesis using True assms(4) occupied by (auto simp: first_free_def)
  next
    case False
    then have "v ! i = Some x" "i < length v" using i by simp_all
    then show ?thesis using assms(3) occupied unfolding chained_def by (metis length_list_update)
  qed
qed

lemma chained_found:
  assumes "ok P" "length v = 2 ^ P" "chained (path P) hv v" "first_free (path P (hv e)) v k"
    "i < length v" "v ! i = Some e"
  shows "\<exists>j < k. path P (hv e) j = i"
proof -
  obtain j where j: "path P (hv e) j = i" "\<forall>l < j. v ! path P (hv e) l \<noteq> None"
    using assms(3,5,6) unfolding chained_def by blast
  have "j \<noteq> k" using j(1) assms(4,6) by (auto simp: first_free_def)
  moreover have "\<not> k < j" using j(2) assms(4) by (auto simp: first_free_def)
  ultimately show ?thesis using j(1) by (metis linorder_cases)
qed

end

section \<open>Double hashing\<close>

definition probe_step :: "nat \<Rightarrow> ulong \<Rightarrow> byte" where
  "probe_step P h = PROBE_STEP h (2 ^ P - 1) (of_nat P)"

definition probe_slot :: "nat \<Rightarrow> ulong \<Rightarrow> nat \<Rightarrow> nat" where
  "probe_slot P h k = nat ((uint h - int k * uint (probe_step P h)) mod 2 ^ P)"

text \<open>The sizes of a table: from 64 slots to \<open>2 ^ 29\<close>, past which its size in bytes leaves 32 bits.\<close>

definition power_ok :: "nat \<Rightarrow> bool" where
  "power_ok P \<longleftrightarrow> 6 \<le> P \<and> P \<le> 29"

lemma probe_step_odd: "odd (uint (probe_step P h))"
  unfolding probe_step_def PROBE_STEP_def
  by (simp add: even_word_iff [symmetric] bit_0 [symmetric] unsigned_ucast_eq bit_simps flip: bit_0)

lemma probe_step_nonzero [simp]: "probe_step P h \<noteq> 0"
  using probe_step_odd [of P h] by auto

lemma probe_step_less:
  assumes "power_ok P"
  shows "uint (probe_step P h) < 2 ^ P"
proof -
  define x where "x = SECOND_HASH h (2 ^ P - 1) (of_nat P) OR 1"
  have "take_bit P x = x"
    using assms unfolding x_def SECOND_HASH_def power_ok_def mask_eq_exp_minus_1 [symmetric]
    by (intro bit_word_eqI) (auto simp: bit_simps)
  moreover have "uint (take_bit P x) = take_bit P (uint x)" by (rule unsigned_take_bit_eq)
  ultimately have x: "take_bit P (uint x) = uint x" by simp
  have "uint (probe_step P h) = take_bit 8 (uint x)"
    unfolding probe_step_def PROBE_STEP_def x_def [symmetric] by (simp add: unsigned_ucast_eq)
  also have "\<dots> = take_bit P (take_bit 8 (uint x))"
    by (subst x [symmetric]) (simp add: ac_simps)
  finally show ?thesis by (simp only: take_bit_int_less_exp)
qed

lemma bij_affine_mod:
  assumes "odd (s :: int)"
  shows "bij_betw (\<lambda>k. nat ((a - int k * s) mod 2 ^ P)) {..<2 ^ P} {..<2 ^ P}"
proof -
  let ?f = "\<lambda>k. nat ((a - int k * s) mod 2 ^ P)"
  have "j = k" if "j < 2 ^ P" "k < 2 ^ P" "?f j = ?f k" for j k
  proof -
    have "(a - int j * s) mod 2 ^ P = (a - int k * s) mod 2 ^ P" using that(3) by (simp add: nat_eq_iff2)
    then have "2 ^ P dvd (a - int j * s) - (a - int k * s)" by (simp only: mod_eq_dvd_iff)
    then have "2 ^ P dvd (int k - int j) * s" by (simp add: algebra_simps)
    moreover have "coprime ((2 :: int) ^ P) s" using assms by simp
    ultimately have "2 ^ P dvd int k - int j" by (simp add: coprime_dvd_mult_left_iff)
    then have "int k mod 2 ^ P = int j mod 2 ^ P" by (simp only: mod_eq_dvd_iff)
    then show "j = k" using that(1,2) by (simp flip: of_nat_power of_nat_mod add: zmod_int)
  qed
  then have "inj_on ?f {..<2 ^ P}" by (auto intro: inj_onI)
  moreover have "?f ` {..<2 ^ P} \<subseteq> {..<2 ^ P}" by (auto simp: nat_less_iff)
  ultimately show ?thesis by (simp add: bij_betw_def endo_inj_surj)
qed

interpretation double_hash: probing probe_slot power_ok
proof
  show "bij_betw (probe_slot P h) {..<2 ^ P} {..<2 ^ P}" for P h
    using bij_affine_mod [OF probe_step_odd] unfolding probe_slot_def [abs_def] .
qed

section \<open>The probe loops\<close>

lemma uint_size: "power_ok P \<Longrightarrow> uint (2 ^ P :: size_t) = 2 ^ P"
  by (rule uint_2p) (simp add: power_ok_def word_neq_0_conv [symmetric] exp_eq_zero_iff)

lemma int_probe_slot: "int (probe_slot P h k) = (uint h - int k * uint (probe_step P h)) mod 2 ^ P"
  by (simp add: probe_slot_def)

lemma probe_slot_Suc:
  "int (probe_slot P h (Suc k)) = (int (probe_slot P h k) - uint (probe_step P h)) mod 2 ^ P"
  unfolding int_probe_slot by (simp add: mod_diff_left_eq algebra_simps)

lemma hash_index: "unat (h AND (2 ^ P - 1)) = probe_slot P h 0" for h :: ulong
proof -
  have "uint (h AND (2 ^ P - 1)) = uint (take_bit P h)"
    by (simp add: take_bit_eq_mask mask_eq_exp_minus_1)
  also have "\<dots> = take_bit P (uint h)" by (rule unsigned_take_bit_eq)
  finally show ?thesis by (simp add: probe_slot_def take_bit_eq_mod flip: nat_uint_eq)
qed

lemma next_slot_probe:
  assumes P: "power_ok P" and i: "unat i = probe_slot P h k"
  shows "unat (next_slot (2 ^ P) (probe_step P h) i) = probe_slot P h (Suc k)"
proof -
  define s :: size_t where "s = ucast (probe_step P h)"
  have s: "uint s = uint (probe_step P h)" unfolding s_def by (rule uint_up_ucast) (simp add: is_up)
  have s_less: "0 \<le> uint s" "uint s < 2 ^ P" using probe_step_less [OF P] by (simp_all add: s)
  have ui: "uint i = int (probe_slot P h k)" using i by (metis uint_nat)
  then have i_less: "0 \<le> uint i" "uint i < 2 ^ P" by (simp_all add: int_probe_slot)
  have big: "(2 :: int) ^ P \<le> 2 ^ 29" using P by (intro power_increasing) (simp_all add: power_ok_def)
  have "uint (next_slot (2 ^ P) (probe_step P h) i) = (uint i - uint s) mod 2 ^ P"
  proof (cases "i < s")
    case True
    have sub: "uint (2 ^ P - s) = 2 ^ P - uint s"
      using uint_sub_lem [of s "2 ^ P"] s_less by (simp add: uint_size [OF P])
    have "uint i + (2 ^ P - uint s) < 2 ^ 32" using True i_less big by (simp add: word_less_def)
    then have "uint (i + (2 ^ P - s)) = uint i + (2 ^ P - uint s)"
      using uint_add_lem [of i "2 ^ P - s"] by (simp add: sub)
    moreover have "(uint i - uint s + 2 ^ P) mod 2 ^ P = uint i - uint s + 2 ^ P"
      using True [unfolded word_less_def] i_less s_less by (intro mod_pos_pos_trivial) linarith+
    then have "(uint i - uint s) mod 2 ^ P = uint i + (2 ^ P - uint s)" by simp
    ultimately show ?thesis using True by (simp add: next_slot_def s_def)
  next
    case False
    then have "uint (i - s) = uint i - uint s" using uint_sub_lem [of s i] by (simp add: word_less_def)
    moreover have "(uint i - uint s) mod 2 ^ P = uint i - uint s"
      using False [unfolded word_less_def] i_less s_less by (intro mod_pos_pos_trivial) linarith+
    ultimately show ?thesis using False by (simp add: next_slot_def s_def)
  qed
  then have "int (unat (next_slot (2 ^ P) (probe_step P h) i)) = int (probe_slot P h (Suc k))"
    by (simp add: ui s probe_slot_Suc)
  then show ?thesis by (simp only: of_nat_eq_iff)
qed

lemma step_of_probe:
  "step = 0 \<or> step = probe_step P h \<Longrightarrow> step_of step h (2 ^ P - 1) (of_nat P) = probe_step P h"
  by (auto simp: step_of_def probe_step_def [symmetric])

lemma slot_at_probe:
  assumes "power_ok P" "length v = 2 ^ P" "unat i = probe_slot P h k" "k < 2 ^ P"
  shows "slot_at v i = Some (v ! probe_slot P h k)"
  using assms double_hash.path_less [of P k h] by (simp add: slot_at_def)

lemma find_slot_stops:
  assumes P: "power_ok P" "length v = 2 ^ P" and n: "n < 2 ^ P"
    and pass: "\<And>j. j < n \<Longrightarrow> \<exists>e. v ! probe_slot P h j = Some e \<and> keyeq name (nm_name e) = Some False"
    and stop: "case v ! probe_slot P h n of None \<Rightarrow> True | Some e \<Rightarrow> keyeq name (nm_name e) = Some True"
  shows "k \<le> n \<Longrightarrow> unat i = probe_slot P h k \<Longrightarrow> step = 0 \<or> step = probe_step P h \<Longrightarrow>
    find_slot v name h (of_nat P) (2 ^ P) step i =
      Some (of_nat (probe_slot P h n), v ! probe_slot P h n)"
proof (induction "n - k" arbitrary: k i step)
  case 0
  then have "k = n" by simp
  then have "slot_at v i = Some (v ! probe_slot P h n)" "i = of_nat (probe_slot P h n)"
    using slot_at_probe [OF P "0.prems"(2)] n "0.prems"(2) [symmetric] by simp_all
  then show ?case using stop by (subst find_slot.simps) (auto split: option.splits)
next
  case (Suc d)
  then have k: "k < n" by simp
  obtain e where e: "v ! probe_slot P h k = Some e" "keyeq name (nm_name e) = Some False"
    using pass [OF k] by blast
  have "slot_at v i = Some (Some e)" using slot_at_probe [OF P Suc.prems(2)] k n e(1) by simp
  moreover note Suc.hyps(1) [of "Suc k" "next_slot (2 ^ P) (probe_step P h) i" "probe_step P h"]
  ultimately show ?case
    using Suc.hyps(2) k e(2) step_of_probe [OF Suc.prems(3)] next_slot_probe [OF P(1) Suc.prems(2)]
    by (subst find_slot.simps) simp
qed

lemma free_slot_stops:
  assumes P: "power_ok P" "length v = 2 ^ P" and n: "first_free (probe_slot P h) v n"
  shows "k \<le> n \<Longrightarrow> unat i = probe_slot P h k \<Longrightarrow> step = 0 \<or> step = probe_step P h \<Longrightarrow>
    free_slot v h (of_nat P) (2 ^ P) step i = Some (of_nat (probe_slot P h n))"
proof (induction "n - k" arbitrary: k i step)
  case 0
  then have "k = n" by simp
  then have "slot_at v i = Some None" "i = of_nat (probe_slot P h n)"
    using slot_at_probe [OF P "0.prems"(2)] n P(2) "0.prems"(2) [symmetric] by (simp_all add: first_free_def)
  then show ?case by (subst free_slot.simps) simp
next
  case (Suc d)
  then have k: "k < n" by simp
  obtain e where e: "v ! probe_slot P h k = Some e" using n k by (auto simp: first_free_def)
  have "slot_at v i = Some (Some e)"
    using slot_at_probe [OF P Suc.prems(2)] k n P(2) e by (simp add: first_free_def)
  moreover note Suc.hyps(1) [of "Suc k" "next_slot (2 ^ P) (probe_step P h) i" "probe_step P h"]
  ultimately show ?case
    using Suc.hyps(2) k step_of_probe [OF Suc.prems(3)] next_slot_probe [OF P(1) Suc.prems(2)]
    by (subst free_slot.simps) simp
qed

end
