(* ===== verification/Runs.thy ===== *)
theory Runs
  imports Prelude
begin

text \<open>
  Sequences of calls of a component: a step takes a call and the state and returns the new state
  and the outputs, or \<open>None\<close> where the program's behaviour is undefined. The two locales are the
  ways of reasoning about such sequences: an invariant over the history, and a simulation of an
  abstract machine that sees some of the outputs.
\<close>

fun run :: "('c \<Rightarrow> 's \<Rightarrow> ('s \<times> 'o list) option) \<Rightarrow> 'c list \<Rightarrow> 's \<Rightarrow> ('s \<times> 'o list) option" where
  "run step [] s = Some (s, [])"
| "run step (c # cs) s = do {
     (s, out) \<leftarrow> step c s;
     (s, outs) \<leftarrow> run step cs s;
     Some (s, out @ outs)
   }"

fun spec_run :: "('c \<Rightarrow> 'a \<Rightarrow> 'a \<times> 'o list) \<Rightarrow> 'c list \<Rightarrow> 'a \<Rightarrow> 'a \<times> 'o list" where
  "spec_run spec [] a = (a, [])"
| "spec_run spec (c # cs) a =
     (let (a, out) = spec c a; (a, outs) = spec_run spec cs a in (a, out @ outs))"

lemma run_Cons_iff:
  "run step (c # cs) s = Some (s', out) \<longleftrightarrow>
    (\<exists>t o1 o2. step c s = Some (t, o1) \<and> run step cs t = Some (s', o2) \<and> out = o1 @ o2)"
  by (auto simp: bind_eq_Some_iff)

lemma run_append_iff:
  "run step (cs @ ds) s = Some (s', out) \<longleftrightarrow>
    (\<exists>t o1 o2. run step cs s = Some (t, o1) \<and> run step ds t = Some (s', o2) \<and> out = o1 @ o2)"
proof (induction cs arbitrary: s out)
  case (Cons c cs)
  show ?case unfolding append_Cons run_Cons_iff Cons.IH by fastforce
qed simp

lemma spec_run_append:
  "spec_run spec (cs @ ds) a =
    (let (a, o1) = spec_run spec cs a; (a, o2) = spec_run spec ds a in (a, o1 @ o2))"
  by (induction cs arbitrary: a) (simp_all add: split_beta Let_def)

locale history_invariant =
  fixes step :: "'c \<Rightarrow> 's \<Rightarrow> ('s \<times> 'o list) option"
    and inv :: "'c list \<Rightarrow> 'o list \<Rightarrow> 's \<Rightarrow> bool"
  assumes step_inv: "inv cs out s \<Longrightarrow> step c s = Some (s', new) \<Longrightarrow> inv (cs @ [c]) (out @ new) s'"
begin

lemma run_inv: "inv cs out s \<Longrightarrow> run step ds s = Some (s', new) \<Longrightarrow> inv (cs @ ds) (out @ new) s'"
proof (induction ds arbitrary: cs out s new)
  case (Cons d ds)
  obtain t o1 o2 where t: "step d s = Some (t, o1)" "run step ds t = Some (s', o2)" "new = o1 @ o2"
    using Cons.prems(2) by (auto simp only: run_Cons_iff)
  show ?case using Cons.IH [OF step_inv [OF Cons.prems(1) t(1)] t(2)] t(3) by simp
qed simp

end

locale simulation =
  fixes step :: "'c \<Rightarrow> 's \<Rightarrow> ('s \<times> 'o list) option"
    and spec :: "'c \<Rightarrow> 'a \<Rightarrow> 'a \<times> 'o list"
    and abs :: "'s \<Rightarrow> 'a"
    and seen :: "'o \<Rightarrow> bool"
  assumes step_refines: "step c s = Some (s', out) \<Longrightarrow> spec c (abs s) = (abs s', filter seen out)"
begin

lemma run_refines: "run step cs s = Some (s', out) \<Longrightarrow> spec_run spec cs (abs s) = (abs s', filter seen out)"
proof (induction cs arbitrary: s out)
  case (Cons c cs)
  obtain t o1 o2 where t: "step c s = Some (t, o1)" "run step cs t = Some (s', o2)" "out = o1 @ o2"
    using Cons.prems by (auto simp only: run_Cons_iff)
  show ?case using step_refines [OF t(1)] Cons.IH [OF t(2)] t(3) by simp
qed simp

end

end
