(* ===== verification/Xml_Hash_Props.thy ===== *)
theory Xml_Hash_Props
  imports Xml_Probe Runs "HOL-Library.Multiset"
begin

text \<open>
  The hash tables as finite maps: the well-formedness of a table, that \<open>lookup\<close> and
  \<open>hashTableClear\<close> keep it and act as a map's lookup, insertion and clearing, that the loops end,
  that a table frees each block it allocated exactly once, and that an iterator visits every entry
  once.
\<close>

section \<open>Keys\<close>

definition cstr :: "KEY \<Rightarrow> byte list" where
  "cstr s = takeWhile (\<lambda>c. c \<noteq> 0) s"

definition terminated :: "KEY \<Rightarrow> bool" where
  "terminated s \<longleftrightarrow> 0 \<in> set s"

definition key_of :: "NAMED \<Rightarrow> byte list" where
  "key_of e = cstr (nm_name e)"

definition key_hash :: "byte list \<Rightarrow> ulong" where
  "key_hash k = foldl CHAR_HASH 0 k"

lemma hash_terminated: "terminated s \<Longrightarrow> hash s = Some (key_hash (cstr s))"
proof -
  have "0 \<in> set s \<Longrightarrow> hash_loop h s = Some (foldl CHAR_HASH h (takeWhile (\<lambda>c. c \<noteq> 0) s))" for h
    by (induction s arbitrary: h) auto
  then show "terminated s \<Longrightarrow> ?thesis" by (simp add: terminated_def hash_def key_hash_def cstr_def)
qed

lemma keyeq_terminated:
  "terminated s \<Longrightarrow> terminated t \<Longrightarrow> keyeq s t = Some (cstr s = cstr t)"
  by (induction s t rule: keyeq.induct) (auto simp: terminated_def cstr_def)

section \<open>The entries of a slot array\<close>

definition objects :: "NAMED option list \<Rightarrow> NAMED list" where
  "objects v = map the (filter (\<lambda>s. s \<noteq> None) v)"

definition contents :: "NAMED option list \<Rightarrow> byte list \<Rightarrow> NAMED option" where
  "contents v = map_of (map (\<lambda>e. (key_of e, e)) (objects v))"

lemma objects_simps [simp]:
  "objects [] = []" "objects (None # v) = objects v" "objects (Some e # v) = e # objects v"
  "objects (v @ w) = objects v @ objects w" "objects (replicate n None) = []"
  by (simp_all add: objects_def)

lemma set_objects: "e \<in> set (objects v) \<longleftrightarrow> Some e \<in> set v"
  by (force simp: objects_def image_iff)

lemma objects_insert:
  assumes "i < length v" "v ! i = None"
  shows "\<exists>xs ys. objects v = xs @ ys \<and> objects (v[i := Some e]) = xs @ e # ys"
proof -
  have "objects v = objects (take i v) @ objects (drop (Suc i) v)"
    using assms id_take_nth_drop [of i v] by (metis objects_simps(2,4))
  moreover have "objects (v[i := Some e]) = objects (take i v) @ e # objects (drop (Suc i) v)"
    using assms(1) by (simp add: upd_conv_take_nth_drop)
  ultimately show ?thesis by blast
qed

lemma objects_free:
  assumes "length (objects v) < length v"
  shows "\<exists>i < length v. v ! i = None"
proof (rule ccontr)
  assume "\<not> ?thesis"
  then have "filter (\<lambda>s. s \<noteq> None) v = v" by (auto simp: filter_id_conv in_set_conv_nth)
  then show False using assms by (metis length_map less_irrefl objects_def)
qed

lemma contents_iff:
  "distinct (map key_of (objects v)) \<Longrightarrow> contents v k = Some e \<longleftrightarrow> Some e \<in> set v \<and> key_of e = k"
  unfolding contents_def
  by (subst map_of_eq_Some_iff) (auto simp: comp_def set_objects image_iff)

lemma contents_eqI:
  assumes "distinct (map key_of (objects v))" "distinct (map key_of (objects w))"
    "set (objects v) = set (objects w)"
  shows "contents v = contents w"
proof -
  have "contents v k = Some e \<longleftrightarrow> contents w k = Some e" for k e
    using assms by (simp add: contents_iff set_objects [symmetric])
  then show ?thesis by (intro ext) (metis not_None_eq)
qed

lemma contents_insert:
  assumes "distinct (map key_of (objects w))" "set (objects w) = insert e (set (objects v))"
    "distinct (map key_of (objects v))"
  shows "contents w = (contents v)(key_of e \<mapsto> e)"
proof -
  have "contents w k = Some x \<longleftrightarrow> ((contents v)(key_of e \<mapsto> e)) k = Some x" for k x
  proof (cases "k = key_of e")
    case True
    have "contents w k = Some e" using assms(1,2) True by (simp add: contents_iff set_objects [symmetric])
    then show ?thesis using True by auto
  next
    case False
    then show ?thesis using assms by (auto simp: contents_iff set_objects [symmetric])
  qed
  then show ?thesis by (intro ext) (metis not_None_eq)
qed

section \<open>Well-formed slot arrays\<close>

definition slots_ok :: "nat \<Rightarrow> NAMED option list \<Rightarrow> bool" where
  "slots_ok P v \<longleftrightarrow> length v = 2 ^ P \<and> chained (probe_slot P) (\<lambda>e. key_hash (key_of e)) v \<and>
     (\<forall>e \<in> set (objects v). terminated (nm_name e)) \<and> distinct (map key_of (objects v))"

lemma slots_ok_D:
  assumes "slots_ok P v"
  shows "length v = 2 ^ P" "chained (probe_slot P) (\<lambda>e. key_hash (key_of e)) v"
    "distinct (map key_of (objects v))" "Some e \<in> set v \<Longrightarrow> terminated (nm_name e)"
  using assms by (simp_all add: slots_ok_def set_objects)

lemma slots_ok_empty: "slots_ok P (replicate (2 ^ P) None)"
  by (simp add: slots_ok_def chained_empty)

lemma slots_ok_free:
  assumes "power_ok P" "slots_ok P v" "length (objects v) < 2 ^ P"
  shows "\<exists>n. first_free (probe_slot P h) v n"
proof -
  obtain i where "i < length v" "v ! i = None"
    using objects_free [of v] assms(3) slots_ok_D(1) [OF assms(2)] by auto
  then show ?thesis using double_hash.first_free_ex assms(1) slots_ok_D(1) [OF assms(2)] by blast
qed

lemma probe_nth_in:
  "power_ok P \<Longrightarrow> length v = 2 ^ P \<Longrightarrow> j < 2 ^ P \<Longrightarrow> v ! probe_slot P h j = s \<Longrightarrow> s \<in> set v"
  using double_hash.path_less [of P j h] nth_mem by fastforce

lemma find_slot_contents:
  assumes P: "power_ok P" and v: "slots_ok P v" and name: "terminated name"
    and h: "h = key_hash (cstr name)" and n: "first_free (probe_slot P h) v n"
  shows "find_slot v name h (of_nat P) (2 ^ P) 0 (h AND (2 ^ P - 1)) =
    (case contents v (cstr name) of
       None \<Rightarrow> Some (of_nat (probe_slot P h n), None)
     | Some e \<Rightarrow> Some (of_nat (probe_slot P h (LEAST j. v ! probe_slot P h j = Some e)), Some e))"
proof -
  note v = slots_ok_D [OF v]
  have n_less: "n < 2 ^ P" using n v(1) by (simp add: first_free_def)
  note stops = find_slot_stops [OF P v(1), where k = 0 and step = 0 and i = "h AND (2 ^ P - 1)",
      OF _ _ _ le0 hash_index]
  have differs: "keyeq name (nm_name e) = Some False"
    if "v ! probe_slot P h j = Some e" "j < n" "contents v (cstr name) \<noteq> Some e" for j e
  proof -
    have e: "Some e \<in> set v" using probe_nth_in [OF P v(1)] that n_less by (metis order.strict_trans)
    then have "cstr name \<noteq> key_of e" using that(3) contents_iff [OF v(3)] by metis
    then show ?thesis using keyeq_terminated [OF name v(4) [OF e]] by (simp add: key_of_def)
  qed
  have occupied: "\<exists>e. v ! probe_slot P h j = Some e" if "j < n" for j
    using n that by (auto simp: first_free_def)
  show ?thesis
  proof (cases "contents v (cstr name)")
    case None
    have "find_slot v name h (of_nat P) (2 ^ P) 0 (h AND (2 ^ P - 1)) =
        Some (of_nat (probe_slot P h n), v ! probe_slot P h n)"
      using n None occupied differs by (intro stops [OF n_less]) (force simp: first_free_def)+
    then show ?thesis using n None by (simp add: first_free_def)
  next
    case (Some e)
    define j where "j = (LEAST j. v ! probe_slot P h j = Some e)"
    have e: "Some e \<in> set v" "key_of e = cstr name" using Some contents_iff [OF v(3)] by blast+
    obtain i where i: "i < length v" "v ! i = Some e" using e(1) by (metis in_set_conv_nth)
    have "\<exists>l < n. probe_slot P (key_hash (key_of e)) l = i"
      by (rule double_hash.chained_found [OF P v(1,2) _ i]) (use n h e(2) in simp)
    then obtain l where l: "l < n" "v ! probe_slot P h l = Some e" using i(2) h e(2) by auto
    have j: "v ! probe_slot P h j = Some e" unfolding j_def by (rule LeastI [of _ l]) (rule l(2))
    have "j \<le> l" unfolding j_def by (rule Least_le) (rule l(2))
    then have j_less: "j < n" using l(1) by simp
    have "keyeq name (nm_name e) = Some True"
      using keyeq_terminated [OF name v(4) [OF e(1)]] e(2) by (simp add: key_of_def)
    moreover have "\<exists>x. v ! probe_slot P h k = Some x \<and> keyeq name (nm_name x) = Some False"
      if k: "k < j" for k
    proof -
      obtain x where x: "v ! probe_slot P h k = Some x" using occupied [of k] k j_less by auto
      have "v ! probe_slot P h k \<noteq> Some e" using k unfolding j_def by (rule not_less_Least)
      then show ?thesis using differs [OF x] x Some k j_less by auto
    qed
    ultimately have "find_slot v name h (of_nat P) (2 ^ P) 0 (h AND (2 ^ P - 1)) =
        Some (of_nat (probe_slot P h j), v ! probe_slot P h j)"
      using j j_less n_less by (intro stops) simp_all
    then show ?thesis using Some j by (simp add: j_def)
  qed
qed

lemma slots_ok_insert:
  assumes P: "power_ok P" and v: "slots_ok P v" and e: "terminated (nm_name e)"
    and new: "contents v (key_of e) = None"
    and n: "first_free (probe_slot P (key_hash (key_of e))) v n"
  defines "w \<equiv> v[probe_slot P (key_hash (key_of e)) n := Some e]"
  shows "slots_ok P w" "set (objects w) = insert e (set (objects v))"
    "mset (objects w) = add_mset e (mset (objects v))"
    "contents w = (contents v)(key_of e \<mapsto> e)"
proof -
  let ?i = "probe_slot P (key_hash (key_of e)) n"
  have i: "?i < length v" "v ! ?i = None"
    using n double_hash.path_less [OF P] slots_ok_D(1) [OF v] by (auto simp: first_free_def)
  then obtain xs ys where xy: "objects v = xs @ ys" "objects w = xs @ e # ys"
    using objects_insert unfolding w_def by blast
  then show "mset (objects w) = add_mset e (mset (objects v))" by simp
  show set_w: "set (objects w) = insert e (set (objects v))" using xy by auto
  have "key_of e \<notin> set (map key_of (objects v))" using new by (force simp: contents_def map_of_eq_None_iff)
  then have dist: "distinct (map key_of (objects w))" using xy slots_ok_D(3) [OF v] by auto
  moreover have "chained (probe_slot P) (\<lambda>e. key_hash (key_of e)) w"
    unfolding w_def using double_hash.chained_insert [OF P slots_ok_D(1,2) [OF v], of e] n by simp
  ultimately show "slots_ok P w" using v e set_w by (simp add: slots_ok_def w_def)
  show "contents w = (contents v)(key_of e \<mapsto> e)"
    by (rule contents_insert [OF dist set_w slots_ok_D(3) [OF v]])
qed

section \<open>Growing\<close>

lemma mset_map_distinct: "mset xs = mset ys \<Longrightarrow> distinct (map f xs) = distinct (map f ys)"
  by (metis mset_eq_imp_distinct_iff mset_map)

lemma free_slot_first:
  "power_ok P \<Longrightarrow> slots_ok P v \<Longrightarrow> first_free (probe_slot P h) v n \<Longrightarrow>
    free_slot v h (of_nat P) (2 ^ P) 0 (h AND (2 ^ P - 1)) = Some (of_nat (probe_slot P h n))"
  using free_slot_stops [of P v h n 0 "h AND (2 ^ P - 1)" 0] hash_index [of h P]
  by (simp add: slots_ok_D(1))

lemma unat_probe_slot:
  assumes "power_ok P" "k < 2 ^ P"
  shows "unat (of_nat (probe_slot P h k) :: size_t) = probe_slot P h k"
proof -
  have "(2 :: nat) ^ P < 2 ^ 32" using assms(1) by (intro power_strict_increasing) (simp_all add: power_ok_def)
  then have "probe_slot P h k < 2 ^ 32" using double_hash.path_less [OF assms, of h] by simp
  then show ?thesis by (simp add: unat_of_nat)
qed

lemma rehash_ok:
  assumes Q: "power_ok Q" and v: "unat sz = length v" "\<forall>e \<in> set (objects v). terminated (nm_name e)"
  shows "i \<le> length v \<Longrightarrow> slots_ok Q w \<Longrightarrow> distinct (map key_of (objects w @ objects (drop i v))) \<Longrightarrow>
    length (objects w @ objects (drop i v)) < 2 ^ Q \<Longrightarrow>
    \<exists>w'. rehash v sz (of_nat Q) (2 ^ Q) i w = Some w' \<and> slots_ok Q w' \<and>
      mset (objects w') = mset (objects w @ objects (drop i v))"
proof (induction "length v - i" arbitrary: i w)
  case 0
  then show ?case using v(1) by (subst rehash.simps) simp
next
  case (Suc d)
  then have i: "i < length v" by simp
  then have drop: "drop i v = v ! i # drop (Suc i) v" by (simp add: Cons_nth_drop_Suc)
  have "unat sz < 2 ^ LENGTH(32)" by (rule unsigned_less)
  then have "i < 2 ^ 32" using i v(1) by simp
  then have slot: "slot_at v (of_nat i) = Some (v ! i)" using i by (simp add: slot_at_def unat_of_nat)
  note step = Suc.hyps(1) [of "Suc i"]
  show ?case
  proof (cases "v ! i")
    case None
    then have "rehash v sz (of_nat Q) (2 ^ Q) i w = rehash v sz (of_nat Q) (2 ^ Q) (Suc i) w"
      using i v(1) slot by (subst rehash.simps) simp
    then show ?thesis using step [of w] Suc.hyps(2) Suc.prems i None drop by simp
  next
    case (Some e)
    let ?h = "key_hash (key_of e)"
    have e: "terminated (nm_name e)" using v(2) i Some by (metis nth_mem set_objects)
    obtain n where n: "first_free (probe_slot Q ?h) w n"
      using slots_ok_free [OF Q Suc.prems(2), of ?h] Suc.prems(4) by auto
    have n_less: "n < 2 ^ Q" using n slots_ok_D(1) [OF Suc.prems(2)] by (simp add: first_free_def)
    have "key_of e \<notin> key_of ` set (objects w)" using Suc.prems(3) Some drop by auto
    then have new: "contents w (key_of e) = None" by (force simp: contents_def map_of_eq_None_iff)
    define w1 where "w1 = w[probe_slot Q ?h n := Some e]"
    note w1 = slots_ok_insert [OF Q Suc.prems(2) e new n, folded w1_def]
    have "rehash v sz (of_nat Q) (2 ^ Q) i w = rehash v sz (of_nat Q) (2 ^ Q) (Suc i) w1"
      using i v(1) slot Some hash_terminated [OF e] free_slot_first [OF Q Suc.prems(2) n]
        unat_probe_slot [OF Q n_less]
      by (subst rehash.simps) (simp add: key_of_def w1_def)
    moreover have ms: "mset (objects w1 @ objects (drop (Suc i) v)) = mset (objects w @ objects (drop i v))"
      using w1(3) Some drop by simp
    moreover have "distinct (map key_of (objects w1 @ objects (drop (Suc i) v)))"
      using mset_map_distinct [OF ms] Suc.prems(3) by blast
    moreover have "length (objects w1 @ objects (drop (Suc i) v)) < 2 ^ Q"
      using mset_eq_length [OF ms] Suc.prems(4) by linarith
    ultimately show ?thesis using step [of w1] Suc.hyps(2) i w1(1) by simp
  qed
qed

section \<open>Well-formed tables and the memory they own\<close>

definition sized :: "nat \<Rightarrow> 'm HASH_TABLE \<Rightarrow> bool" where
  "sized P t \<longleftrightarrow> power_ok P \<and> ht_power t = of_nat P \<and> ht_size t = 2 ^ P \<and> slots_ok P (ht_v t) \<and>
     unat (ht_used t) = length (objects (ht_v t)) \<and> unat (ht_used t) \<le> 2 ^ (P - 1) \<and>
     ht_base t \<noteq> None"

definition unallocated :: "'m HASH_TABLE \<Rightarrow> bool" where
  "unallocated t \<longleftrightarrow> ht_size t = 0 \<and> ht_v t = [] \<and> ht_base t = None \<and> ht_used t = 0"

definition table_ok :: "'m HASH_TABLE \<Rightarrow> bool" where
  "table_ok t \<longleftrightarrow> unallocated t \<or> (\<exists>P. sized P t)"

definition owned :: "'m HASH_TABLE \<Rightarrow> address list" where
  "owned t = (case ht_base t of None \<Rightarrow> [] | Some a \<Rightarrow> [a]) @ map nm_addr (objects (ht_v t))"

text \<open>The allocated blocks are those of the table and those of the rest of the program.\<close>

definition holds :: "('m \<Rightarrow> address set) \<Rightarrow> address set \<Rightarrow> 'm HASH_TABLE \<Rightarrow> 'm \<Rightarrow> bool" where
  "holds live rest t m \<longleftrightarrow>
     distinct (owned t) \<and> set (owned t) \<inter> rest = {} \<and> live m = set (owned t) \<union> rest"

definition may_refuse :: "'m XML_Memory_Handling_Suite \<Rightarrow> bool" where
  "may_refuse ms \<longleftrightarrow> (\<exists>n m. fst (malloc_fcn ms n m) = None)"

lemma may_refuseI: "malloc_fcn ms n m = (None, m') \<Longrightarrow> may_refuse ms"
  unfolding may_refuse_def by (metis fst_conv)

text \<open>What a call that had to create an entry leaves behind.\<close>

definition created ::
  "('m \<Rightarrow> address set) \<Rightarrow> address set \<Rightarrow> 'm HASH_TABLE \<Rightarrow> KEY \<Rightarrow> size_t \<Rightarrow>
    'm HASH_TABLE \<times> NAMED option \<times> 'm \<Rightarrow> bool" where
  "created live rest t name createSize res = (case res of (t', r, m') \<Rightarrow>
     ht_mem t' = ht_mem t \<and> table_ok t' \<and> holds live rest t' m' \<and>
     unat (ht_used t') \<le> Suc (unat (ht_used t)) \<and>
     (case r of
        None \<Rightarrow> contents (ht_v t') = contents (ht_v t) \<and> may_refuse (ht_mem t)
      | Some e \<Rightarrow> nm_name e = name \<and> nm_rest e = replicate (unat createSize - unat sizeof_ptr) 0 \<and>
          contents (ht_v t') = (contents (ht_v t))(cstr name \<mapsto> e)))"

lemma created_cong:
  "ht_mem s = ht_mem t \<Longrightarrow> ht_used s = ht_used t \<Longrightarrow> contents (ht_v s) = contents (ht_v t) \<Longrightarrow>
    created live rest s = created live rest t"
  by (intro ext) (simp only: created_def)

lemma holds_cong: "live m' = live m \<Longrightarrow> holds live rest t m \<Longrightarrow> holds live rest t m'"
  by (simp add: holds_def)

lemma half_small: "power_ok P \<Longrightarrow> (2 :: nat) ^ (P - 1) \<le> 2 ^ 28"
  by (intro power_increasing) (auto simp: power_ok_def)

lemma half_full:
  assumes "sized P t"
  shows "drop_bit (unat (ht_power t) - 1) (ht_used t) \<noteq> 0 \<longleftrightarrow> unat (ht_used t) = 2 ^ (P - 1)"
proof -
  have "unat (drop_bit (P - 1) (ht_used t)) = drop_bit (P - 1) (unat (ht_used t))"
    by (rule unat_drop_bit_eq)
  then have "drop_bit (P - 1) (ht_used t) = 0 \<longleftrightarrow> unat (ht_used t) < 2 ^ (P - 1)"
    by (metis div_eq_0_iff drop_bit_eq_div power_not_zero unat_eq_zero zero_neq_numeral)
  moreover have "unat (ht_power t) = P" using assms by (simp add: sized_def power_ok_def unat_of_nat)
  ultimately show ?thesis using assms by (auto simp: sized_def)
qed

lemma lookup_create_ok:
  assumes ms: "lawful live (ht_mem t)" and t: "sized P t" "unat (ht_used t) < 2 ^ (P - 1)"
    and mem: "holds live rest t m" and name: "terminated name" "contents (ht_v t) (cstr name) = None"
    and n: "first_free (probe_slot P (key_hash (cstr name))) (ht_v t) n" and createSize: "sizeof_ptr \<le> createSize"
  shows "\<exists>res. lookup_create t name createSize (of_nat (probe_slot P (key_hash (cstr name)) n)) m = Some res \<and>
    created live rest t name createSize res"
proof -
  let ?i = "probe_slot P (key_hash (cstr name)) n"
  have P: "power_ok P" and v: "slots_ok P (ht_v t)" using t(1) by (simp_all add: sized_def)
  have n_less: "n < 2 ^ P" using n slots_ok_D(1) [OF v] by (simp add: first_free_def)
  have i: "unat (of_nat ?i :: size_t) = ?i" "?i < length (ht_v t)" "ht_v t ! ?i = None"
    using unat_probe_slot [OF P n_less] double_hash.path_less [OF P n_less] slots_ok_D(1) [OF v] n
    by (simp_all add: first_free_def)
  then have at: "slot_at (ht_v t) (of_nat ?i) = Some None" by (simp add: slot_at_def)
  obtain p m' where alloc: "malloc_fcn (ht_mem t) createSize m = (p, m')" by fastforce
  note law = lawful_malloc [OF ms alloc]
  show ?thesis
  proof (cases p)
    case None
    then have "live m' = live m" using law by simp
    then have "created live rest t name createSize (t, None, m')"
      using None alloc t(1) holds_cong [OF _ mem, of m'] may_refuseI
      by (fastforce simp: created_def table_ok_def)
    moreover have "(ht_v t)[?i := None] = ht_v t" using i(3) by (metis list_update_id)
    ultimately show ?thesis using None alloc at i(1) by (simp add: lookup_create_def)
  next
    case (Some a)
    define e where "e = \<lparr>nm_addr = a, nm_name = name,
      nm_rest = replicate (unat createSize - unat sizeof_ptr) 0\<rparr>"
    define w where "w = (ht_v t)[?i := Some e]"
    have e: "key_of e = cstr name" "terminated (nm_name e)" using name(1) by (simp_all add: e_def key_of_def)
    have w: "slots_ok P w" "mset (objects w) = add_mset e (mset (objects (ht_v t)))"
      "contents w = (contents (ht_v t))(cstr name \<mapsto> e)"
      using slots_ok_insert [OF P v e(2)] name(2) n unfolding e(1) w_def by blast+
    have used: "unat (ht_used t + 1) = Suc (unat (ht_used t))"
      using half_small [OF P] t(2) unat_add_lem [of "ht_used t" 1] by simp
    define t' where "t' = t\<lparr>ht_v := w, ht_used := ht_used t + 1\<rparr>"
    have "sized P t'" using t w(1) used mset_eq_length [of "objects w" "e # objects (ht_v t)"] w(2)
      by (auto simp: sized_def t'_def)
    moreover have "mset (owned t') = mset (a # owned t)" using w(2) by (simp add: owned_def t'_def e_def)
    then have "distinct (owned t') = distinct (a # owned t)" "set (owned t') = insert a (set (owned t))"
      by (metis mset_eq_imp_distinct_iff, metis list.simps(15) mset_eq_setD)
    then have "holds live rest t' m'" using mem law Some by (auto simp: holds_def)
    ultimately have "created live rest t name createSize (t', Some e, m')"
      using w(3) used by (auto simp: created_def table_ok_def t'_def e_def)
    moreover have "lookup_create t name createSize (of_nat ?i) m = Some (t', Some e, m')"
      using Some alloc at i(1) createSize by (simp add: lookup_create_def Let_def e_def t'_def w_def not_less [symmetric])
    ultimately show ?thesis by blast
  qed
qed

lemma new_slots_size:
  assumes "power_ok Q"
  shows "new_slots (2 ^ Q * sizeof_ptr) = replicate (2 ^ Q) None"
proof -
  have "(2 :: nat) ^ Q \<le> 2 ^ 29" using assms by (intro power_increasing) (simp_all add: power_ok_def)
  moreover have "unat (2 ^ Q :: size_t) = 2 ^ Q" using uint_size [OF assms] by (simp flip: nat_uint_eq)
  ultimately have "unat (2 ^ Q * sizeof_ptr) = 2 ^ Q * 4"
    using unat_mult_lem [of "2 ^ Q" sizeof_ptr] by (simp add: sizeof_ptr_def)
  then show ?thesis by (simp add: new_slots_def sizeof_ptr_def)
qed

lemma lookup_grow_ok:
  assumes ms: "lawful live (ht_mem t)" and t: "sized P t" "unat (ht_used t) = 2 ^ (P - 1)" "P \<le> 28"
    and mem: "holds live rest t m" and name: "terminated name" "contents (ht_v t) (cstr name) = None"
    and createSize: "sizeof_ptr \<le> createSize"
  shows "\<exists>res. lookup_grow t name createSize (key_hash (cstr name)) m = Some res \<and>
    created live rest t name createSize res"
proof -
  define Q where "Q = Suc P"
  have P: "power_ok P" and v: "slots_ok P (ht_v t)" using t(1) by (simp_all add: sized_def)
  have Q: "power_ok Q" using P t(3) by (simp add: power_ok_def Q_def)
  have words: "ht_power t + 1 = of_nat Q" "unat (of_nat Q :: byte) = Q" "push_bit Q (1 :: size_t) = 2 ^ Q"
  proof -
    show "unat (of_nat Q :: byte) = Q" using Q by (simp add: power_ok_def unat_of_nat)
  qed (use t(1) in \<open>simp_all add: sized_def Q_def push_bit_eq_mult ac_simps\<close>)
  obtain p m1 where alloc: "malloc_fcn (ht_mem t) (2 ^ Q * sizeof_ptr) m = (p, m1)" by fastforce
  note law = lawful_malloc [OF ms alloc]
  show ?thesis
  proof (cases p)
    case None
    then have "live m1 = live m" using law by simp
    then have "created live rest t name createSize (t, None, m1)"
      using None alloc t(1) holds_cong [OF _ mem, of m1] may_refuseI
      by (fastforce simp: created_def table_ok_def)
    then show ?thesis using None alloc words by (simp add: lookup_grow_def)
  next
    case (Some a)
    have size: "unat (ht_size t) = length (ht_v t)"
      using t(1) uint_size [OF P] slots_ok_D(1) [OF v] by (simp add: sized_def flip: nat_uint_eq)
    have less: "(2 :: nat) ^ (P - 1) < 2 ^ (Q - 1)" "(2 :: nat) ^ (P - 1) < 2 ^ Q"
      using P by (intro power_strict_increasing; simp add: Q_def power_ok_def)+
    then have "length (objects (ht_v t)) < 2 ^ Q" using t(1,2) unfolding sized_def by linarith
    then obtain w where w: "rehash (ht_v t) (ht_size t) (of_nat Q) (2 ^ Q) 0 (replicate (2 ^ Q) None) = Some w"
        "slots_ok Q w" "mset (objects w) = mset (objects (ht_v t))"
      using rehash_ok [OF Q size, of 0 "replicate (2 ^ Q) None"] slots_ok_empty [of Q] v
      by (auto simp: slots_ok_def)
    have same: "contents w = contents (ht_v t)"
      by (rule contents_eqI) (use w(2,3) v in \<open>auto simp: slots_ok_def dest: mset_eq_setD\<close>)
    obtain b where b: "ht_base t = Some b" using t(1) by (auto simp: sized_def)
    define t1 where "t1 = t\<lparr>ht_v := w, ht_base := Some a, ht_power := of_nat Q, ht_size := 2 ^ Q\<rparr>"
    define m2 where "m2 = free_fcn (ht_mem t) (Some b) m1"
    have used: "unat (ht_used t1) = 2 ^ (P - 1)" "length (objects w) = 2 ^ (P - 1)"
      using t(1,2) mset_eq_length [OF w(3)] by (simp_all add: t1_def sized_def)
    have t1: "sized Q t1" using Q w(2) used less(1) by (simp add: sized_def t1_def)
    obtain n where n: "first_free (probe_slot Q (key_hash (cstr name))) w n"
      using slots_ok_free [OF Q w(2), of "key_hash (cstr name)"] used(2) less(2) by auto
    have "mset (map nm_addr (objects w)) = mset (map nm_addr (objects (ht_v t)))" using w(3) by simp
    from mset_eq_imp_distinct_iff [OF this] mset_eq_setD [OF this] have moved: "distinct (owned t1) = distinct (a # tl (owned t))" "set (owned t1) = insert a (set (tl (owned t)))"
      "owned t = b # tl (owned t)"
      by (simp_all add: owned_def t1_def b)
    have b_in: "b \<in> live m1" using mem moved(3) law Some by (auto simp: holds_def owned_def b)
    have "live m2 = insert a (live m) - {b}" "a \<notin> live m"
      using lawful_free(1) [OF ms b_in] law Some by (simp_all add: m2_def)
    then have m2: "holds live rest t1 m2"
      using mem moved unfolding holds_def by (cases "owned t") auto
    obtain res where res: "lookup_create t1 name createSize (of_nat (probe_slot Q (key_hash (cstr name)) n)) m2 = Some res"
        "created live rest t1 name createSize res"
      using lookup_create_ok [of live t1 Q rest m2 name n createSize] ms t1 used less m2 name n createSize same
      by (auto simp: t1_def)
    have "created live rest t name createSize res"
      using res(2) created_cong [of t1 t live rest] same by (simp add: t1_def)
    moreover have "lookup_grow t name createSize (key_hash (cstr name)) m = Some res"
      using Some alloc words w(1) new_slots_size [OF Q] b free_slot_first [OF Q w(2) n] res(1)
      by (simp add: lookup_grow_def Let_def t1_def m2_def)
    ultimately show ?thesis by blast
  qed
qed

lemma sized_init: "unallocated t \<Longrightarrow> sized 6 (t\<lparr>ht_power := INIT_POWER, ht_size := 64, ht_base := Some a,
    ht_v := replicate 64 None\<rparr>)"
  using slots_ok_empty [of 6] by (simp add: sized_def unallocated_def power_ok_def INIT_POWER_def)

lemma lookup_init_ok:
  assumes ms: "lawful live (ht_mem t)" and t: "unallocated t" and mem: "holds live rest t m"
    and name: "terminated name" and createSize: "sizeof_ptr \<le> createSize"
  shows "\<exists>res. lookup_init t name createSize m = Some res \<and> created live rest t name createSize res"
proof -
  have words: "push_bit (unat INIT_POWER) (1 :: size_t) = 64" "(64 :: size_t) * sizeof_ptr = 256"
    by (simp_all add: INIT_POWER_def sizeof_ptr_def push_bit_eq_mult)
  obtain p m1 where alloc: "malloc_fcn (ht_mem t) 256 m = (p, m1)" by fastforce
  note law = lawful_malloc [OF ms alloc]
  show ?thesis
  proof (cases p)
    case None
    define t1 where "t1 = t\<lparr>ht_power := INIT_POWER, ht_size := 0, ht_base := None, ht_v := []\<rparr>"
    have "unallocated t1" "owned t1 = owned t" "contents (ht_v t1) = contents (ht_v t)"
      using t by (simp_all add: unallocated_def t1_def owned_def)
    moreover from this have "holds live rest t1 m1" using mem law None by (simp add: holds_def)
    ultimately have "created live rest t name createSize (t1, None, m1)"
      using None alloc by (auto simp: created_def table_ok_def t1_def intro: may_refuseI)
    then show ?thesis using None alloc words by (auto simp: lookup_init_def t1_def Let_def)
  next
    case (Some a)
    define t1 where "t1 = t\<lparr>ht_power := INIT_POWER, ht_size := 64, ht_base := Some a, ht_v := replicate 64 None\<rparr>"
    have t1: "sized 6 t1" using sized_init [OF t] by (simp add: t1_def)
    have m1: "holds live rest t1 m1"
      using mem law Some t by (simp add: holds_def owned_def t1_def unallocated_def)
    have first: "first_free (probe_slot 6 (key_hash (cstr name))) (replicate 64 None) 0"
      using double_hash.path_less [of 6 0 "key_hash (cstr name)"] by (simp add: first_free_def power_ok_def)
    have index: "of_nat (probe_slot 6 (key_hash (cstr name)) 0) = key_hash (cstr name) AND 63"
      using hash_index [of "key_hash (cstr name)" 6, symmetric] by simp
    obtain res where "lookup_create t1 name createSize (key_hash (cstr name) AND 63) m1 = Some res"
        "created live rest t1 name createSize res"
      using lookup_create_ok [of live t1 6 rest m1 name 0 createSize] ms t1 t m1 name createSize first index
      by (auto simp: t1_def contents_def unallocated_def)
    moreover have "new_slots 256 = replicate 64 None" by (simp add: new_slots_def sizeof_ptr_def)
    moreover have "created live rest t1 = created live rest t"
      using t by (intro created_cong) (simp_all add: t1_def contents_def unallocated_def)
    ultimately show ?thesis
      using Some alloc words hash_terminated [OF name] by (simp add: lookup_init_def t1_def Let_def)
  qed
qed

lemma contents_Nil [simp]: "contents [] = Map.empty"
  by (simp add: contents_def)

lemma lookup_unallocated:
  "unallocated t \<Longrightarrow> lookup t name createSize m =
    (if createSize = 0 then Some (t, None, m) else lookup_init t name createSize m)"
  by (simp add: lookup_def unallocated_def)

lemma lookup_sized:
  assumes t: "sized P t" and name: "terminated name"
    and n: "first_free (probe_slot P (key_hash (cstr name))) (ht_v t) n"
  shows "lookup t name createSize m =
    (if contents (ht_v t) (cstr name) \<noteq> None then Some (t, contents (ht_v t) (cstr name), m)
     else if createSize = 0 then Some (t, None, m)
     else if unat (ht_used t) = 2 ^ (P - 1) then lookup_grow t name createSize (key_hash (cstr name)) m
     else lookup_create t name createSize (of_nat (probe_slot P (key_hash (cstr name)) n)) m)"
proof -
  have P: "power_ok P" "slots_ok P (ht_v t)" "ht_power t = of_nat P" "ht_size t = 2 ^ P"
    using t by (simp_all add: sized_def)
  have "ht_size t \<noteq> 0" using P(1,4) by (auto simp: power_ok_def)
  then show ?thesis
    using find_slot_contents [OF P(1,2) name refl n] half_full [OF t] hash_terminated [OF name]
    unfolding lookup_def P(4) by (cases "contents (ht_v t) (cstr name)") (simp_all add: P(3))
qed

lemma sized_free:
  assumes "sized P t"
  shows "\<exists>n. first_free (probe_slot P h) (ht_v t) n"
proof -
  have P: "power_ok P" "slots_ok P (ht_v t)" using assms by (simp_all add: sized_def)
  have "(2 :: nat) ^ (P - 1) < 2 ^ P" using P(1) by (intro power_strict_increasing) (auto simp: power_ok_def)
  then have "length (objects (ht_v t)) < 2 ^ P" using assms unfolding sized_def by linarith
  then show ?thesis by (rule slots_ok_free [OF P])
qed

lemma lookup_found:
  assumes t: "table_ok t" and name: "terminated name"
    and found: "createSize = 0 \<or> contents (ht_v t) (cstr name) \<noteq> None"
  shows "lookup t name createSize m = Some (t, contents (ht_v t) (cstr name), m)"
proof (cases "unallocated t")
  case True
  then show ?thesis using found lookup_unallocated [of t] by (simp add: unallocated_def)
next
  case False
  then obtain P where P: "sized P t" using t by (auto simp: table_ok_def)
  then show ?thesis using sized_free [OF P] lookup_sized [OF P name] found by force
qed

lemma lookup_creates:
  assumes ms: "lawful live (ht_mem t)" and t: "table_ok t" "unat (ht_used t) < 2 ^ 28" and mem: "holds live rest t m"
    and name: "terminated name" "contents (ht_v t) (cstr name) = None" and createSize: "sizeof_ptr \<le> createSize"
  shows "\<exists>res. lookup t name createSize m = Some res \<and> created live rest t name createSize res"
proof (cases "unallocated t")
  case True
  have "createSize \<noteq> 0" using createSize by (auto simp: sizeof_ptr_def)
  then show ?thesis using lookup_init_ok [OF ms True mem name(1) createSize] lookup_unallocated [OF True] by simp
next
  case False
  then obtain P where P: "sized P t" using t(1) by (auto simp: table_ok_def)
  obtain n where n: "first_free (probe_slot P (key_hash (cstr name))) (ht_v t) n" using sized_free [OF P] by blast
  have nz: "createSize \<noteq> 0" using createSize by (auto simp: sizeof_ptr_def)
  show ?thesis
  proof (cases "unat (ht_used t) = 2 ^ (P - 1)")
    case True
    then have "(2 :: nat) ^ (P - 1) < 2 ^ 28" using t(2) by simp
    then have "P \<le> 28" by (simp only: power_strict_increasing_iff)
    then show ?thesis using lookup_sized [OF P name(1) n, of createSize m] True nz name(2)
        lookup_grow_ok [OF ms P True _ mem name createSize] by simp
  next
    case False
    then have "unat (ht_used t) < 2 ^ (P - 1)" using P by (simp add: sized_def)
    then show ?thesis using lookup_sized [OF P name(1) n, of createSize m] False nz name(2)
        lookup_create_ok [OF ms P _ mem name n createSize] by simp
  qed
qed

section \<open>Clearing and destroying\<close>

lemma free_all:
  assumes "lawful live ms"
  shows "distinct (map nm_addr (objects v)) \<Longrightarrow> nm_addr ` set (objects v) \<subseteq> live m \<Longrightarrow>
    live (fold (\<lambda>s. free_fcn ms (slot_addr s)) v m) = live m - nm_addr ` set (objects v)"
proof (induction v arbitrary: m)
  case (Cons s v)
  show ?case
  proof (cases s)
    case None
    then show ?thesis using Cons lawful_free(2) [OF assms, of m] by (simp add: slot_addr_def)
  next
    case (Some e)
    then have "live (free_fcn ms (slot_addr s) m) = live m - {nm_addr e}"
      using Cons.prems(2) lawful_free(1) [OF assms] by (simp add: slot_addr_def)
    then show ?thesis using Cons.IH [of "free_fcn ms (slot_addr s) m"] Cons.prems Some by auto
  qed
qed simp

lemma table_size: "table_ok t \<Longrightarrow> unat (ht_size t) = length (ht_v t)"
  using uint_size slots_ok_D(1) by (auto simp: table_ok_def unallocated_def sized_def simp flip: nat_uint_eq)

lemma holds_free:
  assumes "lawful live (ht_mem t)" "holds live rest t m"
  shows "live (fold (\<lambda>s. free_fcn (ht_mem t) (slot_addr s)) (ht_v t) m) = set_option (ht_base t) \<union> rest"
  using assms(2) free_all [OF assms(1), of "ht_v t" m]
  by (cases "ht_base t") (auto simp: holds_def owned_def)

lemma hashTableClear_ok:
  assumes ms: "lawful live (ht_mem t)" and t: "table_ok t" and mem: "holds live rest t m"
  shows "\<exists>t' m'. hashTableClear t m = Some (t', m') \<and> table_ok t' \<and> holds live rest t' m' \<and>
    ht_mem t' = ht_mem t \<and> ht_used t' = 0 \<and> contents (ht_v t') = Map.empty"
proof -
  define t' where "t' = t\<lparr>ht_v := replicate (length (ht_v t)) None, ht_used := 0\<rparr>"
  define m' where "m' = fold (\<lambda>s. free_fcn (ht_mem t) (slot_addr s)) (ht_v t) m"
  have "hashTableClear t m = Some (t', m')"
    using table_size [OF t] by (simp add: hashTableClear_def Let_def t'_def m'_def)
  moreover have "table_ok t'"
    using t slots_ok_empty slots_ok_D(1) by (auto simp: table_ok_def unallocated_def sized_def t'_def)
  moreover have "holds live rest t' m'"
    using mem holds_free [OF ms mem] unfolding m'_def [symmetric]
    by (cases "ht_base t") (auto simp: holds_def owned_def t'_def)
  ultimately show ?thesis by (auto simp: t'_def contents_def)
qed

lemma hashTableDestroy_ok:
  assumes ms: "lawful live (ht_mem t)" and t: "table_ok t" and mem: "holds live rest t m"
  shows "\<exists>m'. hashTableDestroy t m = Some m' \<and> live m' = rest"
proof -
  define m' where "m' = fold (\<lambda>s. free_fcn (ht_mem t) (slot_addr s)) (ht_v t) m"
  have "live m' = set_option (ht_base t) \<union> rest" unfolding m'_def by (rule holds_free [OF ms mem])
  then have "live (free_fcn (ht_mem t) (ht_base t) m') = rest"
    using mem lawful_free [OF ms] by (cases "ht_base t") (auto simp: holds_def owned_def)
  then show ?thesis using table_size [OF t] by (simp add: hashTableDestroy_def Let_def m'_def)
qed

section \<open>Sequences of calls\<close>

datatype table_call = Find KEY | Create KEY size_t | Clear

fun table_step ::
  "table_call \<Rightarrow> 'm HASH_TABLE \<times> 'm \<Rightarrow> (('m HASH_TABLE \<times> 'm) \<times> NAMED option list) option" where
  "table_step (Find name) (t, m) = do {(t, r, m) \<leftarrow> lookup t name 0 m; Some ((t, m), [r])}"
| "table_step (Create name n) (t, m) = do {(t, r, m) \<leftarrow> lookup t name n m; Some ((t, m), [r])}"
| "table_step Clear (t, m) = do {(t, m) \<leftarrow> hashTableClear t m; Some ((t, m), [])}"

fun call_ok :: "table_call \<Rightarrow> bool" where
  "call_ok (Find name) = terminated name"
| "call_ok (Create name n) = (terminated name \<and> sizeof_ptr \<le> n)"
| "call_ok Clear = True"

text \<open>
  The specification: a finite map from strings to the objects that were handed out. It reads the
  results of the calls, refuses a wrong one, and returns the map at the end. A call that has to
  create an object may return \<open>NULL\<close> only when the allocator may refuse a request.
\<close>

fun dict_run :: "bool \<Rightarrow> table_call list \<Rightarrow> NAMED option list \<Rightarrow> (byte list \<Rightarrow> NAMED option) \<Rightarrow>
    (byte list \<Rightarrow> NAMED option) option" where
  "dict_run refuse [] rs D = (if rs = [] then Some D else None)"
| "dict_run refuse (Find name # cs) (r # rs) D =
     (if r = D (cstr name) then dict_run refuse cs rs D else None)"
| "dict_run refuse (Create name n # cs) (r # rs) D =
     (case D (cstr name) of
        Some e \<Rightarrow> if r = Some e then dict_run refuse cs rs D else None
      | None \<Rightarrow>
          (case r of
             None \<Rightarrow> if refuse then dict_run refuse cs rs D else None
           | Some e \<Rightarrow>
               if nm_name e = name \<and> nm_rest e = replicate (unat n - unat sizeof_ptr) 0
               then dict_run refuse cs rs (D(cstr name \<mapsto> e)) else None))"
| "dict_run refuse (Clear # cs) rs D = dict_run refuse cs rs Map.empty"
| "dict_run refuse (_ # cs) [] D = None"

lemma table_step_ok:
  assumes ms: "lawful live (ht_mem t)" and t: "table_ok t" "unat (ht_used t) < 2 ^ 28"
    and mem: "holds live rest t m" and c: "call_ok c"
  shows "\<exists>t' m' r. table_step c (t, m) = Some ((t', m'), r) \<and> table_ok t' \<and> holds live rest t' m' \<and>
    ht_mem t' = ht_mem t \<and> unat (ht_used t') \<le> Suc (unat (ht_used t)) \<and>
    (\<forall>cs rs. dict_run (may_refuse (ht_mem t)) (c # cs) (r @ rs) (contents (ht_v t)) =
      dict_run (may_refuse (ht_mem t)) cs rs (contents (ht_v t')))"
proof (cases c)
  case (Find name)
  then show ?thesis using lookup_found [OF t(1)] c t mem by auto
next
  case Clear
  then show ?thesis using hashTableClear_ok [OF ms t(1) mem] by auto
next
  case (Create name n)
  then have name: "terminated name" "sizeof_ptr \<le> n" using c by simp_all
  show ?thesis
  proof (cases "contents (ht_v t) (cstr name)")
    case None
    then obtain t' r m' where "lookup t name n m = Some (t', r, m')" "created live rest t name n (t', r, m')"
      using lookup_creates [OF ms t mem name(1) None name(2)] by auto
    then show ?thesis using Create None by (cases r) (auto simp: created_def)
  next
    case (Some e)
    then show ?thesis using Create lookup_found [OF t(1) name(1), of n m] t mem by auto
  qed
qed

lemma table_run_ok:
  assumes "list_all call_ok cs"
  shows "lawful live (ht_mem t) \<Longrightarrow> table_ok t \<Longrightarrow> unat (ht_used t) + length cs \<le> 2 ^ 28 \<Longrightarrow>
    holds live rest t m \<Longrightarrow>
    \<exists>t' m' rs. run table_step cs (t, m) = Some ((t', m'), rs) \<and> table_ok t' \<and> holds live rest t' m' \<and>
      ht_mem t' = ht_mem t \<and>
      dict_run (may_refuse (ht_mem t)) cs rs (contents (ht_v t)) = Some (contents (ht_v t'))"
  using assms
proof (induction cs arbitrary: t m)
  case (Cons c cs)
  have "unat (ht_used t) < 2 ^ 28" "call_ok c" "list_all call_ok cs" using Cons.prems(3,5) by simp_all
  from table_step_ok [OF Cons.prems(1,2) this(1) Cons.prems(4) this(2)] this(3)
  obtain t1 m1 r where 1: "table_step c (t, m) = Some ((t1, m1), r)" "table_ok t1" "holds live rest t1 m1"
      "ht_mem t1 = ht_mem t" "unat (ht_used t1) \<le> Suc (unat (ht_used t))"
      "\<And>cs rs. dict_run (may_refuse (ht_mem t)) (c # cs) (r @ rs) (contents (ht_v t)) =
        dict_run (may_refuse (ht_mem t)) cs rs (contents (ht_v t1))" and cs: "list_all call_ok cs"
    by blast
  have "unat (ht_used t1) + length cs \<le> 2 ^ 28" using 1(5) Cons.prems(3) by simp
  then obtain t2 m2 rs where 2: "run table_step cs (t1, m1) = Some ((t2, m2), rs)" "table_ok t2"
      "holds live rest t2 m2" "ht_mem t2 = ht_mem t1"
      "dict_run (may_refuse (ht_mem t1)) cs rs (contents (ht_v t1)) = Some (contents (ht_v t2))"
    using Cons.IH [of t1 m1] 1(2,3,4) Cons.prems(1) cs by auto
  have "run table_step (c # cs) (t, m) = Some ((t2, m2), r @ rs)" using 1(1) 2(1) by simp
  then show ?case using 1(4) 2 1(6) [of cs rs] by auto
qed auto

lemma fresh_run:
  assumes "lawful live ms" "list_all call_ok calls" "length calls \<le> 2 ^ 28"
  obtains t m' rs where "run table_step calls (hashTableInit ms, m) = Some ((t, m'), rs)"
    "table_ok t" "holds live (live m) t m'" "ht_mem t = ms"
    "dict_run (may_refuse ms) calls rs Map.empty = Some (contents (ht_v t))"
proof -
  have "table_ok (hashTableInit ms)" "holds live (live m) (hashTableInit ms) m"
    by (simp_all add: hashTableInit_def table_ok_def unallocated_def holds_def owned_def)
  then show ?thesis
    using table_run_ok [OF assms(2), of live "hashTableInit ms" "live m" m] assms(1,3) that
    by (auto simp: hashTableInit_def)
qed

text \<open>C13: A hash table is a finite map. Any sequence of fewer than \<open>2 ^ 28\<close> searches, insertions and
  clearings of a fresh table, with terminated keys and a lawful allocator, ends without a fault
  or an endless probe; each call returns what the map from strings to entries returns, across
  every growth of the table, an insertion fails only if the allocator refuses; and a search for
  any key afterwards finds exactly the entry the map holds.\<close>

theorem hash_table_is_map:
  assumes "lawful live ms" "list_all call_ok calls" "length calls \<le> 2 ^ 28"
  shows "\<exists>t m' rs D. run table_step calls (hashTableInit ms, m) = Some ((t, m'), rs) \<and>
    dict_run (may_refuse ms) calls rs Map.empty = Some D \<and>
    (\<forall>name. terminated name \<longrightarrow> lookup t name 0 m' = Some (t, D (cstr name), m'))"
proof -
  obtain t m' rs where "run table_step calls (hashTableInit ms, m) = Some ((t, m'), rs)" "table_ok t"
      "dict_run (may_refuse ms) calls rs Map.empty = Some (contents (ht_v t))"
    using fresh_run [OF assms] by blast
  then show ?thesis using lookup_found [of t _ 0 m'] by blast
qed

theorem hash_table_is_map_witness:
  "\<exists>t m' rs D. run table_step
      [Create (ascii ''doc'' @ [0]) 24, Find (ascii ''p'' @ [0]), Create (ascii ''doc'' @ [0]) 24, Clear]
      (hashTableInit arena_suite, arena_init 3) = Some ((t, m'), rs) \<and>
    dict_run (may_refuse arena_suite)
      [Create (ascii ''doc'' @ [0]) 24, Find (ascii ''p'' @ [0]), Create (ascii ''doc'' @ [0]) 24, Clear]
      rs Map.empty = Some D \<and>
    (\<forall>name. terminated name \<longrightarrow> lookup t name 0 m' = Some (t, D (cstr name), m'))"
  by (rule hash_table_is_map [OF lawful_arena]) (simp_all add: terminated_def sizeof_ptr_def)

text \<open>C27: A hash table owns its memory. After any such sequence of calls \<open>hashTableDestroy\<close> leaves the
  blocks allocated that were allocated before \<open>hashTableInit\<close>: the slot arrays replaced by a
  growth, the cleared entries and the last array are each freed, and nothing is freed that is not
  allocated, since the law of the allocator says nothing of such a call.\<close>

theorem hash_table_no_leak:
  assumes "lawful live ms" "list_all call_ok calls" "length calls \<le> 2 ^ 28"
  shows "\<exists>t m1 rs m2. run table_step calls (hashTableInit ms, m) = Some ((t, m1), rs) \<and>
    hashTableDestroy t m1 = Some m2 \<and> live m2 = live m"
proof -
  obtain t m1 rs where t: "run table_step calls (hashTableInit ms, m) = Some ((t, m1), rs)" "table_ok t"
      "holds live (live m) t m1" "ht_mem t = ms"
    using fresh_run [OF assms] by blast
  then show ?thesis using hashTableDestroy_ok [of live t "live m" m1] assms(1) by auto
qed

theorem hash_table_no_leak_witness:
  "\<exists>t m1 rs m2. run table_step [Create (ascii ''doc'' @ [0]) 24, Clear, Create (ascii ''p'' @ [0]) 24]
      (hashTableInit arena_suite, arena_init 3) = Some ((t, m1), rs) \<and>
    hashTableDestroy t m1 = Some m2 \<and> arena_live m2 = arena_live (arena_init 3)"
  by (rule hash_table_no_leak [OF lawful_arena]) (simp_all add: terminated_def sizeof_ptr_def)

section \<open>Termination of a probe\<close>

text \<open>Double hashing visits every slot: in an array of a power of two of slots one of which is
  free, the probe loop of \<open>lookup\<close> ends, for any key and whatever the order and the keys of the
  entries.\<close>

lemma probe_terminates:
  assumes "power_ok P" "length v = 2 ^ P" "None \<in> set v" "terminated name"
    "\<forall>e. Some e \<in> set v \<longrightarrow> terminated (nm_name e)"
  shows "\<exists>i r. find_slot v name h (of_nat P) (2 ^ P) 0 (h AND (2 ^ P - 1)) = Some (i, r)"
proof -
  let ?stop = "\<lambda>s. case s of None \<Rightarrow> True | Some e \<Rightarrow> keyeq name (nm_name e) = Some True"
  obtain n where "first_free (probe_slot P h) v n"
    using double_hash.first_free_ex [OF assms(1,2)] assms(3) by (metis in_set_conv_nth)
  then have n: "n < 2 ^ P" "?stop (v ! probe_slot P h n)" using assms(2) by (simp_all add: first_free_def)
  define j where "j = (LEAST j. ?stop (v ! probe_slot P h j))"
  have j: "?stop (v ! probe_slot P h j)" "j \<le> n" unfolding j_def by (rule LeastI, rule n(2), rule Least_le, rule n(2))
  have "\<exists>e. v ! probe_slot P h k = Some e \<and> keyeq name (nm_name e) = Some False" if k: "k < j" for k
  proof -
    have "\<not> ?stop (v ! probe_slot P h k)" using k unfolding j_def by (rule not_less_Least)
    then obtain e where e: "v ! probe_slot P h k = Some e" "keyeq name (nm_name e) \<noteq> Some True"
      by (auto split: option.splits)
    have "Some e \<in> set v" using probe_nth_in [OF assms(1,2) _ e(1)] k j(2) n(1) by simp
    then have "keyeq name (nm_name e) = Some False" using keyeq_terminated [OF assms(4)] assms(5) e(2) by auto
    then show ?thesis using e(1) by blast
  qed
  then show ?thesis
    using find_slot_stops [OF assms(1,2), of j h name 0 "h AND (2 ^ P - 1)" 0] j n(1) hash_index [of h P] by auto
qed

section \<open>Iteration\<close>

text \<open>The loop of the callers: \<open>hashTableIterNext\<close> until it returns \<open>NULL\<close>.\<close>

fun drain :: "nat \<Rightarrow> NAMED option list \<Rightarrow> HASH_TABLE_ITER \<Rightarrow> NAMED list option" where
  "drain 0 v iter = None"
| "drain (Suc n) v iter = do {
     (iter, r) \<leftarrow> hashTableIterNext v iter;
     case r of None \<Rightarrow> Some [] | Some e \<Rightarrow> do {es \<leftarrow> drain n v iter; Some (e # es)}
   }"

lemma iter_next:
  "it_end iter = length v \<Longrightarrow> it_p iter \<le> length v \<Longrightarrow>
    (case objects (drop (it_p iter) v) of
       [] \<Rightarrow> \<exists>it'. hashTableIterNext v iter = Some (it', None)
     | e # es \<Rightarrow> \<exists>it'. hashTableIterNext v iter = Some (it', Some e) \<and> it_end it' = length v \<and>
         it_p it' \<le> length v \<and> objects (drop (it_p it') v) = es)"
proof (induction v iter rule: hashTableIterNext.induct)
  case (1 v iter)
  show ?case
  proof (cases "it_p iter = length v")
    case True
    then show ?thesis using 1(2) by (subst hashTableIterNext.simps) simp
  next
    case False
    then have p: "it_p iter < length v" using 1(3) by simp
    then have drop: "drop (it_p iter) v = v ! it_p iter # drop (Suc (it_p iter)) v" by (simp add: Cons_nth_drop_Suc)
    show ?thesis
    proof (cases "v ! it_p iter")
      case None
      then have "hashTableIterNext v iter = hashTableIterNext v (iter\<lparr>it_p := Suc (it_p iter)\<rparr>)"
        using p 1(2) by (subst hashTableIterNext.simps) simp
      then show ?thesis using 1(1) [OF _ p None] p 1(2) drop None by (simp cong: list.case_cong)
    next
      case (Some e)
      then have "hashTableIterNext v iter = Some (iter\<lparr>it_p := Suc (it_p iter)\<rparr>, Some e)"
        using p 1(2) by (subst hashTableIterNext.simps) simp
      then show ?thesis using Some p 1(2) drop by simp
    qed
  qed
qed

lemma drain_objects:
  "it_end iter = length v \<Longrightarrow> it_p iter \<le> length v \<Longrightarrow> length (objects (drop (it_p iter) v)) < n \<Longrightarrow>
    drain n v iter = Some (objects (drop (it_p iter) v))"
proof (induction n arbitrary: iter)
  case (Suc n)
  show ?case using iter_next [OF Suc.prems(1,2)] Suc.IH Suc.prems(3)
    by (cases "objects (drop (it_p iter) v)") fastforce+
qed simp

text \<open>Iterating over a table visits every entry once: after any sequence of calls the loop of the
  callers, which stops at the first \<open>NULL\<close>, ends within one call more than there are entries and
  has seen exactly the entries of the map, each key once.\<close>

lemma iterator_complete:
  assumes "lawful live ms" "list_all call_ok calls" "length calls \<le> 2 ^ 28"
  shows "\<exists>t m' rs D es. run table_step calls (hashTableInit ms, m) = Some ((t, m'), rs) \<and>
    dict_run (may_refuse ms) calls rs Map.empty = Some D \<and>
    drain (Suc (unat (ht_used t))) (ht_v t) (hashTableIterInit t) = Some es \<and>
    distinct (map key_of es) \<and> (\<forall>k e. D k = Some e \<longleftrightarrow> e \<in> set es \<and> key_of e = k)"
proof -
  obtain t m' rs where t: "run table_step calls (hashTableInit ms, m) = Some ((t, m'), rs)" "table_ok t"
      "dict_run (may_refuse ms) calls rs Map.empty = Some (contents (ht_v t))"
    using fresh_run [OF assms] by blast
  have ok: "unat (ht_used t) = length (objects (ht_v t))" "distinct (map key_of (objects (ht_v t)))"
    using t(2) slots_ok_D(3) by (auto simp: table_ok_def unallocated_def sized_def)
  then have "drain (Suc (unat (ht_used t))) (ht_v t) (hashTableIterInit t) = Some (objects (ht_v t))"
    using drain_objects [of "hashTableIterInit t" "ht_v t" "Suc (unat (ht_used t))"] table_size [OF t(2)]
    by (simp add: hashTableIterInit_def)
  then show ?thesis using t(1,3) ok(2) contents_iff [OF ok(2)] by (auto simp: set_objects)
qed

end
