(* ===== verification/Xml_Pool.thy ===== *)
theory Xml_Pool
  imports Xml_Memory Xml_Convert
begin

text \<open>
  The string pools of \<^verbatim>\<open>xmlparse.c\<close>, in which the parser builds and keeps the strings of a
  document. A pool is a list of blocks with the string under construction at the end of the first
  one: \<open>start\<close> to \<open>ptr\<close> is what has been written of it, \<open>end\<close> the end of the block. A pointer is
  a block and an offset into its characters. \<open>sp_heap\<close> has every block allocated for the pool and
  not freed, whether a list of the pool still reaches it or not; a character that was never
  written is \<open>None\<close>. Access outside a block, arithmetic on pointers into different blocks and
  overflow of \<open>int\<close> are faults.
\<close>

record BLOCK =
  bl_size :: int
  bl_s :: "byte option list"

type_synonym ptr = "address \<times> nat"

record 'm STRING_POOL =
  sp_blocks :: "address list"
  sp_freeBlocks :: "address list"
  sp_end :: "ptr option"
  sp_ptr :: "ptr option"
  sp_start :: "ptr option"
  sp_mem :: "'m XML_Memory_Handling_Suite"
  sp_heap :: "address \<Rightarrow> BLOCK option"

section \<open>Pointers into blocks\<close>

fun ptr_diff :: "ptr option \<Rightarrow> ptr option \<Rightarrow> int option" where
  "ptr_diff None None = Some 0"
| "ptr_diff (Some (a, i)) (Some (b, j)) = (if a = b then Some (int i - int j) else None)"
| "ptr_diff _ _ = None"

definition read_chars :: "(address \<Rightarrow> BLOCK option) \<Rightarrow> ptr \<Rightarrow> nat \<Rightarrow> byte option list option" where
  "read_chars heap p n = do {
     b \<leftarrow> heap (fst p);
     if snd p + n \<le> length (bl_s b) then Some (take n (drop (snd p) (bl_s b))) else None
   }"

definition write_chars ::
  "(address \<Rightarrow> BLOCK option) \<Rightarrow> ptr \<Rightarrow> byte option list \<Rightarrow> (address \<Rightarrow> BLOCK option) option" where
  "write_chars heap p cs = do {
     b \<leftarrow> heap (fst p);
     if snd p + length cs \<le> length (bl_s b)
     then Some (heap(fst p \<mapsto>
       b\<lparr>bl_s := take (snd p) (bl_s b) @ cs @ drop (snd p + length cs) (bl_s b)\<rparr>))
     else None
   }"

definition int_ok :: "int \<Rightarrow> int option" where
  "int_ok x = (if - (2 ^ 31) \<le> x \<and> x < 2 ^ 31 then Some x else None)"

section \<open>Growing\<close>

definition INIT_BLOCK_SIZE :: int where
  "INIT_BLOCK_SIZE = 1024"

definition block_bytes :: "int \<Rightarrow> size_t" where
  "block_bytes blockSize = 8 + of_int blockSize"

definition fresh_block :: "int \<Rightarrow> BLOCK" where
  "fresh_block blockSize = \<lparr>bl_size = blockSize, bl_s = replicate (nat blockSize) None\<rparr>"

definition resized_block :: "int \<Rightarrow> BLOCK \<Rightarrow> BLOCK" where
  "resized_block blockSize b = \<lparr>bl_size = blockSize,
     bl_s = take (nat blockSize) (bl_s b) @ replicate (nat blockSize - length (bl_s b)) None\<rparr>"

text \<open>The three pointers at the start of a block, with \<open>len\<close> characters already there.\<close>

definition set_pointers :: "address \<Rightarrow> nat \<Rightarrow> int \<Rightarrow> 'm STRING_POOL \<Rightarrow> 'm STRING_POOL" where
  "set_pointers a len sz pool =
     pool\<lparr>sp_start := Some (a, 0), sp_ptr := Some (a, len), sp_end := Some (a, nat sz)\<rparr>"

definition poolGrow_realloc ::
  "address \<Rightarrow> address list \<Rightarrow> 'm STRING_POOL \<Rightarrow> 'm \<Rightarrow> ('m STRING_POOL \<times> bool \<times> 'm) option" where
  "poolGrow_realloc a rest pool m = do {
     cap \<leftarrow> ptr_diff (sp_end pool) (sp_start pool);
     blockSize \<leftarrow> int_ok (cap * 2);
     old \<leftarrow> sp_heap pool a;
     case realloc_fcn (sp_mem pool) (Some a) (block_bytes blockSize) m of
       (None, m) \<Rightarrow> Some (pool\<lparr>sp_blocks := []\<rparr>, False, m)
     | (Some b, m) \<Rightarrow> do {
         len \<leftarrow> ptr_diff (sp_ptr pool) (sp_start pool);
         Some (set_pointers b (nat len) blockSize
           (pool\<lparr>sp_blocks := b # rest,
                 sp_heap := (sp_heap pool)(a := None, b \<mapsto> resized_block blockSize old)\<rparr>), True, m)
       }
   }"

definition poolGrow_malloc :: "'m STRING_POOL \<Rightarrow> 'm \<Rightarrow> ('m STRING_POOL \<times> bool \<times> 'm) option" where
  "poolGrow_malloc pool m = do {
     cap \<leftarrow> ptr_diff (sp_end pool) (sp_start pool);
     blockSize \<leftarrow> (if cap < INIT_BLOCK_SIZE then Some INIT_BLOCK_SIZE else int_ok (cap * 2));
     case malloc_fcn (sp_mem pool) (block_bytes blockSize) m of
       (None, m) \<Rightarrow> Some (pool, False, m)
     | (Some tem, m) \<Rightarrow> do {
         let heap = (sp_heap pool)(tem \<mapsto> fresh_block blockSize);
         len \<leftarrow> ptr_diff (sp_ptr pool) (sp_start pool);
         heap \<leftarrow> (if sp_ptr pool \<noteq> sp_start pool then do {
             start \<leftarrow> sp_start pool;
             cs \<leftarrow> read_chars heap start (nat len);
             write_chars heap (tem, 0) cs
           } else Some heap);
         Some (set_pointers tem (nat len) blockSize
           (pool\<lparr>sp_blocks := tem # sp_blocks pool, sp_heap := heap\<rparr>), True, m)
       }
   }"

definition poolGrow_alloc :: "'m STRING_POOL \<Rightarrow> 'm \<Rightarrow> ('m STRING_POOL \<times> bool \<times> 'm) option" where
  "poolGrow_alloc pool m =
     (case sp_blocks pool of
        [] \<Rightarrow> poolGrow_malloc pool m
      | a # rest \<Rightarrow>
          if sp_start pool = Some (a, 0) then poolGrow_realloc a rest pool m
          else poolGrow_malloc pool m)"

definition poolGrow :: "'m STRING_POOL \<Rightarrow> 'm \<Rightarrow> ('m STRING_POOL \<times> bool \<times> 'm) option" where
  "poolGrow pool m =
     (case sp_freeBlocks pool of
        [] \<Rightarrow> poolGrow_alloc pool m
      | f # fs \<Rightarrow> do {
          b \<leftarrow> sp_heap pool f;
          case sp_start pool of
            None \<Rightarrow>
              Some (set_pointers f 0 (bl_size b) (pool\<lparr>sp_blocks := [f], sp_freeBlocks := fs\<rparr>), True, m)
          | Some start \<Rightarrow> do {
              cap \<leftarrow> ptr_diff (sp_end pool) (Some start);
              if cap < bl_size b then do {
                cs \<leftarrow> read_chars (sp_heap pool) start (nat cap);
                heap \<leftarrow> write_chars (sp_heap pool) (f, 0) cs;
                len \<leftarrow> ptr_diff (sp_ptr pool) (Some start);
                Some (set_pointers f (nat len) (bl_size b)
                  (pool\<lparr>sp_blocks := f # sp_blocks pool, sp_freeBlocks := fs, sp_heap := heap\<rparr>), True, m)
              }
              else poolGrow_alloc pool m
            }
        })"

section \<open>The operations\<close>

definition poolInit :: "'m XML_Memory_Handling_Suite \<Rightarrow> 'm STRING_POOL" where
  "poolInit ms = \<lparr>sp_blocks = [], sp_freeBlocks = [], sp_end = None, sp_ptr = None, sp_start = None,
     sp_mem = ms, sp_heap = (\<lambda>_. None)\<rparr>"

definition poolClear :: "'m STRING_POOL \<Rightarrow> 'm STRING_POOL" where
  "poolClear pool = pool\<lparr>
     sp_freeBlocks := (if sp_freeBlocks pool = [] then sp_blocks pool
                       else fold (\<lambda>p free. p # free) (sp_blocks pool) (sp_freeBlocks pool)),
     sp_blocks := [], sp_start := None, sp_ptr := None, sp_end := None\<rparr>"

definition poolDestroy :: "'m STRING_POOL \<Rightarrow> 'm \<Rightarrow> 'm" where
  "poolDestroy pool m =
     fold (\<lambda>p. free_fcn (sp_mem pool) (Some p)) (sp_freeBlocks pool)
       (fold (\<lambda>p. free_fcn (sp_mem pool) (Some p)) (sp_blocks pool) m)"

definition poolStart :: "'m STRING_POOL \<Rightarrow> ptr option" where
  "poolStart pool = sp_start pool"

definition poolEnd :: "'m STRING_POOL \<Rightarrow> ptr option" where
  "poolEnd pool = sp_ptr pool"

definition poolLength :: "'m STRING_POOL \<Rightarrow> int option" where
  "poolLength pool = ptr_diff (sp_ptr pool) (sp_start pool)"

definition poolChop :: "'m STRING_POOL \<Rightarrow> 'm STRING_POOL option" where
  "poolChop pool = (case sp_ptr pool of
     Some (a, Suc i) \<Rightarrow> Some (pool\<lparr>sp_ptr := Some (a, i)\<rparr>) | _ \<Rightarrow> None)"

definition poolLastChar :: "'m STRING_POOL \<Rightarrow> byte option" where
  "poolLastChar pool = (case sp_ptr pool of
     Some (a, Suc i) \<Rightarrow> do {cs \<leftarrow> read_chars (sp_heap pool) (a, i) 1; hd cs} | _ \<Rightarrow> None)"

definition poolDiscard :: "'m STRING_POOL \<Rightarrow> 'm STRING_POOL" where
  "poolDiscard pool = pool\<lparr>sp_ptr := sp_start pool\<rparr>"

definition poolFinish :: "'m STRING_POOL \<Rightarrow> 'm STRING_POOL" where
  "poolFinish pool = pool\<lparr>sp_start := sp_ptr pool\<rparr>"

text \<open>Characters written at \<open>ptr\<close>, which moves past them.\<close>

definition put_chars :: "byte list \<Rightarrow> 'm STRING_POOL \<Rightarrow> 'm STRING_POOL option" where
  "put_chars cs pool = do {
     (a, i) \<leftarrow> sp_ptr pool;
     heap \<leftarrow> write_chars (sp_heap pool) (a, i) (map Some cs);
     Some (pool\<lparr>sp_heap := heap, sp_ptr := Some (a, i + length cs)\<rparr>)
   }"

definition poolAppendChar :: "'m STRING_POOL \<Rightarrow> byte \<Rightarrow> 'm \<Rightarrow> ('m STRING_POOL \<times> bool \<times> 'm) option" where
  "poolAppendChar pool c m = do {
     (pool, ok, m) \<leftarrow> (if sp_ptr pool = sp_end pool then poolGrow pool m else Some (pool, True, m));
     if \<not> ok then Some (pool, False, m)
     else do {pool \<leftarrow> put_chars [c] pool; Some (pool, True, m)}
   }"

partial_function (option) poolAppend_loop ::
  "encoding \<Rightarrow> byte list \<Rightarrow> 'm STRING_POOL \<Rightarrow> 'm \<Rightarrow> ('m STRING_POOL \<times> ptr option \<times> 'm) option" where
  "poolAppend_loop enc src pool m = do {
     room \<leftarrow> ptr_diff (sp_end pool) (sp_ptr pool);
     (n, out) \<leftarrow> XmlUtf8Convert enc src (nat room);
     pool \<leftarrow> put_chars out pool;
     if n = length src then Some (pool, sp_start pool, m)
     else do {
       (pool, ok, m) \<leftarrow> poolGrow pool m;
       if \<not> ok then Some (pool, None, m) else poolAppend_loop enc (drop n src) pool m
     }
   }"

declare poolAppend_loop.simps [code]

definition poolAppend ::
  "encoding \<Rightarrow> byte list \<Rightarrow> 'm STRING_POOL \<Rightarrow> 'm \<Rightarrow> ('m STRING_POOL \<times> ptr option \<times> 'm) option" where
  "poolAppend enc src pool m = do {
     (pool, ok, m) \<leftarrow> (if sp_ptr pool = None then poolGrow pool m else Some (pool, True, m));
     if \<not> ok then Some (pool, None, m) else poolAppend_loop enc src pool m
   }"

fun copy_loop :: "byte list \<Rightarrow> 'm STRING_POOL \<Rightarrow> 'm \<Rightarrow> ('m STRING_POOL \<times> bool \<times> 'm) option" where
  "copy_loop [] pool m = None"
| "copy_loop (c # s) pool m = do {
     (pool, ok, m) \<leftarrow> poolAppendChar pool c m;
     if \<not> ok then Some (pool, False, m)
     else if c = 0 then Some (pool, True, m) else copy_loop s pool m
   }"

definition poolCopyString ::
  "byte list \<Rightarrow> 'm STRING_POOL \<Rightarrow> 'm \<Rightarrow> ('m STRING_POOL \<times> ptr option \<times> 'm) option" where
  "poolCopyString s pool m = do {
     (pool, ok, m) \<leftarrow> copy_loop s pool m;
     if \<not> ok then Some (pool, None, m) else Some (poolFinish pool, sp_start pool, m)
   }"

fun copyN_loop :: "byte list \<Rightarrow> nat \<Rightarrow> 'm STRING_POOL \<Rightarrow> 'm \<Rightarrow> ('m STRING_POOL \<times> bool \<times> 'm) option" where
  "copyN_loop s 0 pool m = Some (pool, True, m)"
| "copyN_loop [] (Suc n) pool m = None"
| "copyN_loop (c # s) (Suc n) pool m = do {
     (pool, ok, m) \<leftarrow> poolAppendChar pool c m;
     if \<not> ok then Some (pool, False, m) else copyN_loop s n pool m
   }"

definition poolCopyStringN ::
  "byte list \<Rightarrow> int \<Rightarrow> 'm STRING_POOL \<Rightarrow> 'm \<Rightarrow> ('m STRING_POOL \<times> ptr option \<times> 'm) option" where
  "poolCopyStringN s n pool m = do {
     (pool, ok, m) \<leftarrow> (if sp_ptr pool = None then poolGrow pool m else Some (pool, True, m));
     if \<not> ok then Some (pool, None, m)
     else do {
       (pool, ok, m) \<leftarrow> copyN_loop s (nat n) pool m;
       if \<not> ok then Some (pool, None, m) else Some (poolFinish pool, sp_start pool, m)
     }
   }"

fun appendString_loop :: "byte list \<Rightarrow> 'm STRING_POOL \<Rightarrow> 'm \<Rightarrow> ('m STRING_POOL \<times> bool \<times> 'm) option" where
  "appendString_loop [] pool m = None"
| "appendString_loop (c # s) pool m =
     (if c = 0 then Some (pool, True, m)
      else do {
        (pool, ok, m) \<leftarrow> poolAppendChar pool c m;
        if \<not> ok then Some (pool, False, m) else appendString_loop s pool m
      })"

definition poolAppendString ::
  "byte list \<Rightarrow> 'm STRING_POOL \<Rightarrow> 'm \<Rightarrow> ('m STRING_POOL \<times> ptr option \<times> 'm) option" where
  "poolAppendString s pool m = do {
     (pool, ok, m) \<leftarrow> appendString_loop s pool m;
     Some (pool, if ok then sp_start pool else None, m)
   }"

definition poolStoreString ::
  "encoding \<Rightarrow> byte list \<Rightarrow> 'm STRING_POOL \<Rightarrow> 'm \<Rightarrow> ('m STRING_POOL \<times> ptr option \<times> 'm) option" where
  "poolStoreString enc src pool m = do {
     (pool, r, m) \<leftarrow> poolAppend enc src pool m;
     if r = None then Some (pool, None, m)
     else do {
       (pool, ok, m) \<leftarrow> poolAppendChar pool 0 m;
       Some (pool, if ok then sp_start pool else None, m)
     }
   }"

text \<open>The end of \<open>storeAttributeValue\<close>: a final space is taken back.\<close>

definition trim_space :: "'m STRING_POOL \<Rightarrow> 'm STRING_POOL option" where
  "trim_space pool = do {
     n \<leftarrow> poolLength pool;
     if n = 0 then Some pool
     else do {c \<leftarrow> poolLastChar pool; if c = 0x20 then poolChop pool else Some pool}
   }"

end
