(* ===== verification/Xml_Pool_Props.thy ===== *)
theory Xml_Pool_Props
  imports Xml_Pool Xml_Convert_Props
begin

text \<open>
  What the string pools promise: the invariant of a pool with the text under construction and the
  strings finished so far, that growing and appending keep it, so that a finished string stays
  where it is until the pool is cleared, and that the blocks of a pool are freed exactly once
  unless \<open>realloc_fcn\<close> refuses a request.
\<close>

section \<open>Characters in blocks\<close>

definition reads :: "(address \<Rightarrow> BLOCK option) \<Rightarrow> ptr \<Rightarrow> byte list \<Rightarrow> bool" where
  "reads heap p cs \<longleftrightarrow> read_chars heap p (length cs) = Some (map Some cs)"

definition heap_ok :: "(address \<Rightarrow> BLOCK option) \<Rightarrow> bool" where
  "heap_ok heap \<longleftrightarrow>
     (\<forall>a b. heap a = Some b \<longrightarrow> bl_size b = int (length (bl_s b)) \<and> 0 < length (bl_s b) \<and>
        length (bl_s b) < 2 ^ 30)"

lemma reads_iff:
  "reads heap (a, i) cs \<longleftrightarrow>
    (\<exists>b. heap a = Some b \<and> i + length cs \<le> length (bl_s b) \<and> take (length cs) (drop i (bl_s b)) = map Some cs)"
  by (auto simp: reads_def read_chars_def)

lemma reads_cong: "heap' a = heap a \<Longrightarrow> reads heap (a, i) cs \<Longrightarrow> reads heap' (a, i) cs"
  by (simp add: reads_iff)

lemma reads_Nil: "reads heap (a, i) [] \<longleftrightarrow> (\<exists>b. heap a = Some b \<and> i \<le> length (bl_s b))"
  by (simp add: reads_iff)

lemma reads_take:
  assumes "reads heap (a, i) cs"
  shows "reads heap (a, i) (take n cs)"
proof -
  obtain b where b: "heap a = Some b" "i + length cs \<le> length (bl_s b)"
      "take (length cs) (drop i (bl_s b)) = map Some cs"
    using assms by (auto simp: reads_iff)
  have "take (length (take n cs)) (drop i (bl_s b)) = take n (take (length cs) (drop i (bl_s b)))"
    by (simp add: min.commute)
  then have "take (length (take n cs)) (drop i (bl_s b)) = map Some (take n cs)" by (simp add: b(3) take_map)
  then show ?thesis using b(1,2) by (auto simp: reads_iff)
qed

lemma write_chars_ok:
  assumes "heap a = Some b" "i + length cs \<le> length (bl_s b)"
  shows "write_chars heap (a, i) cs =
    Some (heap(a \<mapsto> b\<lparr>bl_s := take i (bl_s b) @ cs @ drop (i + length cs) (bl_s b)\<rparr>))"
  using assms by (simp add: write_chars_def)

lemma heap_ok_upd:
  "heap_ok heap \<Longrightarrow> bl_size b = int (length (bl_s b)) \<Longrightarrow> 0 < length (bl_s b) \<Longrightarrow>
    length (bl_s b) < 2 ^ 30 \<Longrightarrow> heap_ok (heap(a \<mapsto> b))"
  by (auto simp: heap_ok_def)

lemma heap_ok_del: "heap_ok heap \<Longrightarrow> heap_ok (heap(a := None))"
  by (auto simp: heap_ok_def)

lemma write_keeps:
  assumes "reads heap (a, i) cs" "i + length cs \<le> j" "write_chars heap (a, j) ds = Some heap'"
  shows "reads heap' (a, i) cs"
proof -
  obtain b where b: "heap a = Some b" "i + length cs \<le> length (bl_s b)"
      "take (length cs) (drop i (bl_s b)) = map Some cs"
    using assms(1) by (auto simp: reads_iff)
  then have "heap' a = Some (b\<lparr>bl_s := take j (bl_s b) @ ds @ drop (j + length ds) (bl_s b)\<rparr>)"
    "j + length ds \<le> length (bl_s b)"
    using assms(3) by (auto simp: write_chars_def split: if_split_asm)
  then show ?thesis using b(3) assms(2) by (simp add: reads_iff take_drop)
qed

lemma write_reads:
  assumes "reads heap (a, i) cs" "write_chars heap (a, i + length cs) (map Some ds) = Some heap'"
  shows "reads heap' (a, i) (cs @ ds)"
proof -
  obtain b where b: "heap a = Some b" "i + length cs \<le> length (bl_s b)"
      "take (length cs) (drop i (bl_s b)) = map Some cs"
    using assms(1) by (auto simp: reads_iff)
  then have h: "heap' a = Some (b\<lparr>bl_s := take (i + length cs) (bl_s b) @ map Some ds @ drop (i + length cs + length ds) (bl_s b)\<rparr>)"
    "i + length cs + length ds \<le> length (bl_s b)"
    using assms(2) by (auto simp: write_chars_def split: if_split_asm)
  then show ?thesis using b by (simp add: reads_iff take_drop add.commute)
qed

section \<open>The invariant\<close>

text \<open>
  \<open>pool_inv p w F\<close>: the pool \<open>p\<close> holds the unfinished text \<open>w\<close> and the finished strings \<open>F\<close>, none
  of which lies in a free block or behind \<open>start\<close>.
\<close>

definition pool_inv :: "'m STRING_POOL \<Rightarrow> byte list \<Rightarrow> (ptr \<times> byte list) set \<Rightarrow> bool" where
  "pool_inv p w F \<longleftrightarrow>
     heap_ok (sp_heap p) \<and> distinct (sp_blocks p @ sp_freeBlocks p) \<and>
     set (sp_blocks p @ sp_freeBlocks p) \<subseteq> dom (sp_heap p) \<and>
     (case sp_start p of
        None \<Rightarrow> sp_ptr p = None \<and> sp_end p = None \<and> sp_blocks p = [] \<and> w = []
      | Some (a, i) \<Rightarrow>
          sp_ptr p = Some (a, i + length w) \<and> reads (sp_heap p) (a, i) w \<and>
          sp_end p = Some (a, length (bl_s (the (sp_heap p a)))) \<and> a \<notin> set (sp_freeBlocks p) \<and>
          (a \<in> set (sp_blocks p) \<longrightarrow> a = hd (sp_blocks p))) \<and>
     (\<forall>a i cs. ((a, i), cs) \<in> F \<longrightarrow>
        cs \<noteq> [] \<and> reads (sp_heap p) (a, i) cs \<and> a \<notin> set (sp_freeBlocks p) \<and>
        (\<forall>j. sp_start p = Some (a, j) \<longrightarrow> i + length cs \<le> j))"

definition pool_holds :: "('m \<Rightarrow> address set) \<Rightarrow> address set \<Rightarrow> 'm STRING_POOL \<Rightarrow> 'm \<Rightarrow> bool" where
  "pool_holds live rest p m \<longleftrightarrow> dom (sp_heap p) \<inter> rest = {} \<and> live m = dom (sp_heap p) \<union> rest"

text \<open>Every block of the pool is on one of its lists.\<close>

definition linked :: "'m STRING_POOL \<Rightarrow> bool" where
  "linked p \<longleftrightarrow> dom (sp_heap p) = set (sp_blocks p @ sp_freeBlocks p)"

definition capacity :: "'m STRING_POOL \<Rightarrow> nat" where
  "capacity p = (case (sp_start p, sp_end p) of (Some (_, i), Some (_, n)) \<Rightarrow> n - i | _ \<Rightarrow> 0)"

lemma pool_inv_start:
  assumes "pool_inv p w F" "sp_start p = Some (a, i)"
  obtains b where "sp_heap p a = Some b" "sp_ptr p = Some (a, i + length w)" "reads (sp_heap p) (a, i) w"
    "sp_end p = Some (a, length (bl_s b))" "bl_size b = int (length (bl_s b))" "0 < length (bl_s b)"
    "i + length w \<le> length (bl_s b)" "capacity p = length (bl_s b) - i" "length (bl_s b) < 2 ^ 30"
proof -
  obtain b where b: "sp_heap p a = Some b" "i + length w \<le> length (bl_s b)"
    using assms by (auto simp: pool_inv_def reads_iff)
  then show ?thesis using that [of b] assms by (auto simp: pool_inv_def heap_ok_def capacity_def)
qed

lemma pool_inv_fresh:
  assumes "pool_inv p w F" "sp_start p = None"
  shows "sp_ptr p = None" "sp_end p = None" "sp_blocks p = []" "w = []" "capacity p = 0"
  using assms by (auto simp: pool_inv_def capacity_def)

lemma pool_inv_finished:
  assumes "pool_inv p w F" "((a, i), cs) \<in> F"
  shows "cs \<noteq> []" "reads (sp_heap p) (a, i) cs" "a \<in> dom (sp_heap p)" "a \<notin> set (sp_freeBlocks p)"
    "sp_start p = Some (a, j) \<Longrightarrow> i + length cs \<le> j"
proof -
  have *: "cs \<noteq> [] \<and> reads (sp_heap p) (a, i) cs \<and> a \<notin> set (sp_freeBlocks p) \<and>
      (\<forall>j. sp_start p = Some (a, j) \<longrightarrow> i + length cs \<le> j)"
    using assms unfolding pool_inv_def by blast
  then show "cs \<noteq> []" "reads (sp_heap p) (a, i) cs" "a \<notin> set (sp_freeBlocks p)"
    "sp_start p = Some (a, j) \<Longrightarrow> i + length cs \<le> j" by blast+
  from * show "a \<in> dom (sp_heap p)" by (auto simp: reads_iff)
qed

lemma set_pointers_simps [simp]:
  "sp_blocks (set_pointers a n s p) = sp_blocks p" "sp_freeBlocks (set_pointers a n s p) = sp_freeBlocks p"
  "sp_heap (set_pointers a n s p) = sp_heap p" "sp_mem (set_pointers a n s p) = sp_mem p"
  "sp_start (set_pointers a n s p) = Some (a, 0)" "sp_ptr (set_pointers a n s p) = Some (a, n)"
  "sp_end (set_pointers a n s p) = Some (a, nat s)"
  by (simp_all add: set_pointers_def)

text \<open>The text under construction moved to the start of a block no finished string is in.\<close>

lemma pool_inv_moved:
  assumes "pool_inv p w F" and heap: "heap_ok (sp_heap q)" "sp_heap q f = Some b" "reads (sp_heap q) (f, 0) w"
    and q: "distinct (sp_blocks q @ sp_freeBlocks q)" "set (sp_blocks q @ sp_freeBlocks q) \<subseteq> dom (sp_heap q)"
      "sp_blocks q = f # bs" "set (sp_freeBlocks q) \<subseteq> set (sp_freeBlocks p)"
    and F: "\<And>a i cs. ((a, i), cs) \<in> F \<Longrightarrow> a \<noteq> f \<and> sp_heap q a = sp_heap p a"
  shows "pool_inv (set_pointers f (length w) (bl_size b) q) w F"
    "capacity (set_pointers f (length w) (bl_size b) q) = length (bl_s b)"
proof -
  have b: "bl_size b = int (length (bl_s b))" using heap(1,2) by (auto simp: heap_ok_def)
  show "capacity (set_pointers f (length w) (bl_size b) q) = length (bl_s b)" by (simp add: capacity_def b)
  have "cs \<noteq> [] \<and> reads (sp_heap q) (a, i) cs \<and> a \<notin> set (sp_freeBlocks q) \<and> a \<noteq> f" if "((a, i), cs) \<in> F" for a i cs
    using assms(1) F [OF that] q(4) that reads_cong [of "sp_heap q" a "sp_heap p"] unfolding pool_inv_def by blast
  then show "pool_inv (set_pointers f (length w) (bl_size b) q) w F"
    using heap q b by (auto simp: pool_inv_def)
qed

section \<open>Growing\<close>

text \<open>The pool \<open>q\<close> holds \<open>w\<close> and \<open>F\<close> after a call on \<open>p\<close>, and their memory is accounted for; after
  a call that succeeded no block has been lost.\<close>

definition kept ::
  "('m \<Rightarrow> address set) \<Rightarrow> address set \<Rightarrow> 'm STRING_POOL \<Rightarrow> byte list \<Rightarrow> (ptr \<times> byte list) set \<Rightarrow>
    'm STRING_POOL \<Rightarrow> 'm \<Rightarrow> bool" where
  "kept live rest p w F q m \<longleftrightarrow> pool_inv q w F \<and> pool_holds live rest q m \<and> sp_mem q = sp_mem p"

definition safe ::
  "('m \<Rightarrow> address set) \<Rightarrow> address set \<Rightarrow> 'm STRING_POOL \<Rightarrow> byte list \<Rightarrow> (ptr \<times> byte list) set \<Rightarrow>
    'm STRING_POOL \<Rightarrow> 'm \<Rightarrow> bool" where
  "safe live rest p w F q m \<longleftrightarrow> kept live rest p w F q m \<and> (linked p \<longrightarrow> linked q)"

definition grown ::
  "('m \<Rightarrow> address set) \<Rightarrow> address set \<Rightarrow> 'm STRING_POOL \<Rightarrow> byte list \<Rightarrow> (ptr \<times> byte list) set \<Rightarrow>
    'm STRING_POOL \<times> bool \<times> 'm \<Rightarrow> bool" where
  "grown live rest p w F res = (case res of (q, ok, m) \<Rightarrow>
     kept live rest p w F q m \<and>
     (ok \<longrightarrow> sp_start q \<noteq> None \<and> capacity p < capacity q \<and> (linked p \<longrightarrow> linked q)))"

lemma kept_trans:
  "sp_mem q = sp_mem p \<Longrightarrow> kept live rest q w' F' r m' \<Longrightarrow> kept live rest p w' F' r m'"
  by (simp add: kept_def)

lemma safe_trans:
  "safe live rest p w F q m \<Longrightarrow> safe live rest q w' F' r m' \<Longrightarrow> safe live rest p w' F' r m'"
  by (simp add: safe_def kept_def)

lemma safe_refl: "pool_inv p w F \<Longrightarrow> pool_holds live rest p m \<Longrightarrow> safe live rest p w F p m"
  by (simp add: safe_def kept_def)

text \<open>What the pools assume of their allocator.\<close>

definition pool_suite :: "('m \<Rightarrow> address set) \<Rightarrow> 'm XML_Memory_Handling_Suite \<Rightarrow> bool" where
  "pool_suite live ms \<longleftrightarrow> lawful live ms \<and> modest ms"

lemma capacity_small: "pool_inv p w F \<Longrightarrow> capacity p < 2 ^ 30"
  by (cases "sp_start p") (auto elim: pool_inv_start dest: pool_inv_fresh)

lemma block_bytes_small:
  assumes "0 \<le> n" "n < 2 ^ 31" "unat (block_bytes n) < 2 ^ 30"
  shows "nat n < 2 ^ 30"
proof -
  have "uint (block_bytes n) = 8 + n"
    using assms(1,2) by (simp add: block_bytes_def uint_plus_if_size uint_word_of_int_eq take_bit_int_eq_self word_size)
  then show ?thesis using assms by (simp add: unat_eq_nat_uint)
qed

lemma pool_diffs:
  assumes "pool_inv p w F"
  shows "ptr_diff (sp_end p) (sp_start p) = Some (int (capacity p))"
    "ptr_diff (sp_ptr p) (sp_start p) = Some (int (length w))"
    "sp_ptr p = sp_start p \<longleftrightarrow> w = []"
  using assms pool_inv_fresh [OF assms] by (cases "sp_start p"; auto elim: pool_inv_start)+

lemma grow_reuse_first:
  assumes inv: "pool_inv p w F" and mem: "pool_holds live rest p m" and free: "sp_freeBlocks p = f # fs"
    and start: "sp_start p = None"
  shows "\<exists>res. poolGrow p m = Some res \<and> grown live rest p w F res"
proof -
  let ?q = "p\<lparr>sp_blocks := [f], sp_freeBlocks := fs\<rparr>"
  obtain b where b: "sp_heap p f = Some b" "0 < length (bl_s b)"
    using inv free by (auto simp: pool_inv_def heap_ok_def)
  note none = pool_inv_fresh [OF inv start]
  have "a \<noteq> f \<and> sp_heap ?q a = sp_heap p a" if "((a, i), cs) \<in> F" for a i cs
    using inv free that by (auto simp: pool_inv_def)
  moreover have "heap_ok (sp_heap p)" "distinct (f # fs)" "set (f # fs) \<subseteq> dom (sp_heap p)"
    using inv free by (simp_all add: pool_inv_def)
  ultimately have moved: "pool_inv (set_pointers f (length w) (bl_size b) ?q) w F"
    "capacity (set_pointers f (length w) (bl_size b) ?q) = length (bl_s b)"
    using pool_inv_moved [OF inv, of ?q f b "[]"] free b(1) none(4)
    by (simp_all add: reads_Nil subset_insertI)
  moreover have "linked p \<Longrightarrow> linked (set_pointers f (length w) (bl_size b) ?q)"
    using free none by (simp add: linked_def)
  ultimately have "grown live rest p w F (set_pointers f (length w) (bl_size b) ?q, True, m)"
    using mem b none by (simp add: grown_def kept_def pool_holds_def)
  then show ?thesis using free start b none by (simp add: poolGrow_def)
qed

lemma grow_reuse_larger:
  assumes inv: "pool_inv p w F" and mem: "pool_holds live rest p m" and free: "sp_freeBlocks p = f # fs"
    and start: "sp_start p = Some (a, i)" and b: "sp_heap p f = Some b" "int (capacity p) < bl_size b"
  shows "\<exists>res. poolGrow p m = Some res \<and> grown live rest p w F res"
proof -
  obtain c where c: "sp_heap p a = Some c" "capacity p = length (bl_s c) - i" "i + length w \<le> length (bl_s c)"
      "reads (sp_heap p) (a, i) w" "sp_ptr p = Some (a, i + length w)"
    using pool_inv_start [OF inv start] by metis
  have size: "bl_size b = int (length (bl_s b))" using inv b(1) by (auto simp: pool_inv_def heap_ok_def)
  define cs where "cs = take (capacity p) (drop i (bl_s c))"
  have cs: "length cs = capacity p" "read_chars (sp_heap p) (a, i) (capacity p) = Some cs"
    using c by (simp_all add: cs_def read_chars_def)
  define d where "d = b\<lparr>bl_s := cs @ drop (length cs) (bl_s b)\<rparr>"
  define heap where "heap = (sp_heap p)(f \<mapsto> d)"
  have wr: "write_chars (sp_heap p) (f, 0) cs = Some heap"
    using write_chars_ok [of "sp_heap p" f b 0 cs] b size cs(1) by (simp add: heap_def d_def)
  have d: "length (bl_s d) = length (bl_s b)" "bl_size d = bl_size b"
    using b(2) size cs(1) by (simp_all add: d_def)
  have "take (length w) cs = map Some w"
    using c by (simp add: cs_def reads_iff min_def)
  then have rd: "reads heap (f, 0) w" using c d b(2) size cs(1) by (auto simp: reads_iff heap_def d_def)
  let ?q = "p\<lparr>sp_blocks := f # sp_blocks p, sp_freeBlocks := fs, sp_heap := heap\<rparr>"
  have "heap_ok heap" using inv d size b unfolding heap_def
    by (intro heap_ok_upd) (auto simp: pool_inv_def heap_ok_def)
  moreover have "((x, k), ds) \<in> F \<Longrightarrow> x \<noteq> f \<and> heap x = sp_heap p x" for x k ds
    using inv free by (auto simp: pool_inv_def heap_def)
  moreover have "distinct (f # sp_blocks p @ fs)" "set (f # sp_blocks p @ fs) \<subseteq> dom heap"
    using inv free by (auto simp: pool_inv_def heap_def)
  ultimately have moved: "pool_inv (set_pointers f (length w) (bl_size d) ?q) w F"
    "capacity (set_pointers f (length w) (bl_size d) ?q) = length (bl_s d)"
    using pool_inv_moved [OF inv, of ?q f d "sp_blocks p"] rd free by (simp_all add: heap_def subset_insertI)
  moreover have "dom heap = dom (sp_heap p)" using b(1) by (auto simp: heap_def)
  then have "pool_holds live rest (set_pointers f (length w) (bl_size d) ?q) m"
    using mem by (simp add: pool_holds_def)
  moreover have "linked p \<Longrightarrow> linked (set_pointers f (length w) (bl_size d) ?q)"
    using free by (auto simp: linked_def heap_def)
  ultimately have "grown live rest p w F (set_pointers f (length w) (bl_size d) ?q, True, m)"
    using d size b(2) by (simp add: grown_def kept_def)
  then show ?thesis using free start b cs(2) wr pool_diffs [OF inv] d(2) by (simp add: poolGrow_def)
qed

lemma resized_block_ok:
  assumes "heap a = Some c" "reads heap (a, 0) w" "int (length (bl_s c)) \<le> n" "heap' b = Some (resized_block n c)"
  shows "reads heap' (b, 0) w" "length (bl_s (resized_block n c)) = nat n" "bl_size (resized_block n c) = n"
proof -
  have "length (bl_s c) \<le> nat n" using assms(3) by simp
  then show "reads heap' (b, 0) w" "length (bl_s (resized_block n c)) = nat n" "bl_size (resized_block n c) = n"
    using assms(1,2,4) by (auto simp: reads_iff resized_block_def)
qed

lemma grow_realloc:
  assumes ms: "pool_suite live (sp_mem p)" and inv: "pool_inv p w F" and mem: "pool_holds live rest p m"
    and blocks: "sp_blocks p = a # bs" and start: "sp_start p = Some (a, 0)"
  shows "\<exists>res. poolGrow_realloc a bs p m = Some res \<and> grown live rest p w F res"
proof -
  obtain c where c: "sp_heap p a = Some c" "capacity p = length (bl_s c)" "reads (sp_heap p) (a, 0) w" "0 < length (bl_s c)"
    using pool_inv_start [OF inv start] by (metis diff_zero)
  have cap: "capacity p < 2 ^ 30" by (rule capacity_small [OF inv])
  define n where "n = int (capacity p) * 2"
  have n: "int_ok (int (capacity p) * 2) = Some n" "int (length (bl_s c)) \<le> n"
    using cap c(2) by (simp_all add: int_ok_def n_def)
  have n_int: "0 \<le> n" "n < 2 ^ 31" using cap by (simp_all add: n_def)
  have a_live: "a \<in> live m" using mem c(1) by (auto simp: pool_holds_def)
  obtain r m1 where re: "realloc_fcn (sp_mem p) (Some a) (block_bytes n) m = (r, m1)" by fastforce
  have laws: "lawful live (sp_mem p)" "modest (sp_mem p)" using ms by (simp_all add: pool_suite_def)
  note law = lawful_realloc [OF laws(1) a_live re]
  note eqs = pool_diffs [OF inv] n(1) c(1) re
  show ?thesis
  proof (cases r)
    case None
    have "pool_inv (p\<lparr>sp_blocks := []\<rparr>) w F" using inv start by (simp add: pool_inv_def) blast
    moreover have "pool_holds live rest (p\<lparr>sp_blocks := []\<rparr>) m1" using mem law None by (simp add: pool_holds_def)
    ultimately have "grown live rest p w F (p\<lparr>sp_blocks := []\<rparr>, False, m1)" by (simp add: grown_def kept_def)
    then show ?thesis using None eqs by (simp add: poolGrow_realloc_def)
  next
    case (Some b)
    define d where "d = resized_block n c"
    define heap where "heap = (sp_heap p)(a := None, b \<mapsto> d)"
    have hb: "heap b = Some d" by (simp add: heap_def)
    note d = resized_block_ok [OF c(1,3) n(2), of heap b, folded d_def, OF hb]
    have "nat n = capacity p * 2" by (simp add: n_def nat_mult_distrib)
    then have larger: "capacity p < length (bl_s d)" using d(2) c(2,4) by linarith
    have small: "length (bl_s d) < 2 ^ 30"
      using block_bytes_small [OF n_int modest_realloc [OF laws(2)]] re Some d(2) by metis
    have b: "b \<notin> live m - {a}" "live m1 = insert b (live m - {a})" using law Some by simp_all
    have dom: "dom heap = insert b (dom (sp_heap p) - {a})" by (auto simp: heap_def)
    let ?q = "p\<lparr>sp_blocks := b # bs, sp_heap := heap\<rparr>"
    have others: "x \<noteq> a \<and> x \<in> dom (sp_heap p)" if "((x, k), ds) \<in> F" for x k ds
      using pool_inv_finished(1,3) [OF inv that] pool_inv_finished(5) [OF inv that, of 0] start by auto
    have b_new: "x \<noteq> b" if "x \<noteq> a" "x \<in> dom (sp_heap p)" for x
      using b(1) mem that by (auto simp: pool_holds_def)
    have "x \<noteq> b \<and> heap x = sp_heap p x" if "((x, k), ds) \<in> F" for x k ds
      using others [OF that] b_new [of x] by (simp add: heap_def)
    moreover have lists: "a \<notin> set (bs @ sp_freeBlocks p)" "set (bs @ sp_freeBlocks p) \<subseteq> dom (sp_heap p)"
        "distinct (bs @ sp_freeBlocks p)"
      using inv blocks by (auto simp: pool_inv_def)
    moreover from lists have "distinct (b # bs @ sp_freeBlocks p)" "set (b # bs @ sp_freeBlocks p) \<subseteq> dom heap"
      using b_new dom by (metis distinct.simps(2) subsetD, auto)
    moreover have "heap_ok heap" unfolding heap_def
      using inv d c(2,4) n_def small by (intro heap_ok_upd heap_ok_del) (auto simp: pool_inv_def heap_def)
    ultimately have "pool_inv (set_pointers b (length w) (bl_size d) ?q) w F"
      "capacity (set_pointers b (length w) (bl_size d) ?q) = length (bl_s d)"
      using pool_inv_moved [OF inv, of ?q b d bs] d(1) hb by simp_all
    moreover have "pool_holds live rest (set_pointers b (length w) (bl_size d) ?q) m1"
      using mem b dom c(1) by (auto simp: pool_holds_def)
    moreover have "linked p \<Longrightarrow> linked (set_pointers b (length w) (bl_size d) ?q)"
      using blocks lists dom by (auto simp: linked_def)
    ultimately have "grown live rest p w F (set_pointers b (length w) (bl_size d) ?q, True, m1)"
      using larger by (simp add: grown_def kept_def)
    then show ?thesis using Some eqs d(3) by (simp add: poolGrow_realloc_def d_def heap_def resized_block_def)
  qed
qed

lemma grow_malloc:
  assumes ms: "pool_suite live (sp_mem p)" and inv: "pool_inv p w F" and mem: "pool_holds live rest p m"
  shows "\<exists>res. poolGrow_malloc p m = Some res \<and> grown live rest p w F res"
proof -
  have cap: "capacity p < 2 ^ 30" by (rule capacity_small [OF inv])
  define n where "n = (if int (capacity p) < INIT_BLOCK_SIZE then INIT_BLOCK_SIZE else int (capacity p) * 2)"
  have n: "(if int (capacity p) < INIT_BLOCK_SIZE then Some INIT_BLOCK_SIZE else int_ok (int (capacity p) * 2)) = Some n"
    "int (capacity p) < n" "0 \<le> n" "n < 2 ^ 31"
    using cap by (simp_all add: int_ok_def n_def INIT_BLOCK_SIZE_def)
  obtain r m1 where al: "malloc_fcn (sp_mem p) (block_bytes n) m = (r, m1)" by fastforce
  have laws: "lawful live (sp_mem p)" "modest (sp_mem p)" using ms by (simp_all add: pool_suite_def)
  note law = lawful_malloc [OF laws(1) al]
  note eqs = pool_diffs(1,2) [OF inv] n(1) al
  show ?thesis
  proof (cases r)
    case None
    have "pool_holds live rest p m1" using mem law None by (simp add: pool_holds_def)
    then have "grown live rest p w F (p, False, m1)" using inv by (simp add: grown_def kept_def)
    then show ?thesis using None eqs by (simp add: poolGrow_malloc_def)
  next
    case (Some t)
    have t: "t \<notin> live m" "live m1 = insert t (live m)" using law Some by simp_all
    then have t_new: "t \<notin> dom (sp_heap p)" using mem by (auto simp: pool_holds_def)
    define d where "d = (fresh_block n)\<lparr>bl_s := map Some w @ replicate (nat n - length w) None\<rparr>"
    define heap where "heap = (sp_heap p)(t \<mapsto> d)"
    have w: "length w \<le> capacity p"
      using inv by (cases "sp_start p") (auto elim: pool_inv_start dest: pool_inv_fresh)
    then have d: "length (bl_s d) = nat n" "bl_size d = n" "reads heap (t, 0) w"
      using n(2) by (auto simp: d_def fresh_block_def reads_iff heap_def)
    have small: "length (bl_s d) < 2 ^ 30"
      using block_bytes_small [OF n(3,4) modest_malloc [OF laws(2)]] al Some d(1) by metis
    let ?h = "(sp_heap p)(t \<mapsto> fresh_block n)"
    have copy: "(if sp_ptr p \<noteq> sp_start p then do {
        start \<leftarrow> sp_start p; cs \<leftarrow> read_chars ?h start (length w); write_chars ?h (t, 0) cs
      } else Some ?h) = Some heap"
    proof (cases "sp_start p")
      case None
      then show ?thesis using pool_inv_fresh [OF inv None] by (simp add: heap_def d_def fresh_block_def)
    next
      case (Some s)
      obtain a i where s: "s = (a, i)" by (cases s)
      have "reads (sp_heap p) (a, i) w" using pool_inv_start [OF inv Some [unfolded s]] by blast
      then have "read_chars ?h (a, i) (length w) = Some (map Some w)"
        using t_new reads_cong [of ?h a "sp_heap p" i w] by (auto simp: reads_def reads_iff read_chars_def)
      moreover have "write_chars ?h (t, 0) (map Some w) = Some heap"
        using w n(2) write_chars_ok [of ?h t "fresh_block n" 0 "map Some w"]
        by (simp add: heap_def d_def fresh_block_def)
      moreover have "w = [] \<Longrightarrow> ?h = heap" by (simp add: heap_def d_def fresh_block_def)
      ultimately show ?thesis using Some s pool_diffs(3) [OF inv] by simp
    qed
    let ?q = "p\<lparr>sp_blocks := t # sp_blocks p, sp_heap := heap\<rparr>"
    have "x \<noteq> t \<and> heap x = sp_heap p x" if "((x, k), ds) \<in> F" for x k ds
      using pool_inv_finished(3) [OF inv that] t_new by (auto simp: heap_def)
    moreover have "distinct (t # sp_blocks p @ sp_freeBlocks p)" "set (t # sp_blocks p @ sp_freeBlocks p) \<subseteq> dom heap"
      using inv t_new by (auto simp: pool_inv_def heap_def)
    moreover have "heap_ok heap" unfolding heap_def
      using inv d n(2) small by (intro heap_ok_upd) (auto simp: pool_inv_def)
    ultimately have "pool_inv (set_pointers t (length w) (bl_size d) ?q) w F"
      "capacity (set_pointers t (length w) (bl_size d) ?q) = length (bl_s d)"
      using pool_inv_moved [OF inv, of ?q t d "sp_blocks p"] d by (simp_all add: heap_def)
    moreover have "pool_holds live rest (set_pointers t (length w) (bl_size d) ?q) m1"
      using mem t by (auto simp: pool_holds_def heap_def)
    moreover have "linked p \<Longrightarrow> linked (set_pointers t (length w) (bl_size d) ?q)"
      by (auto simp: linked_def heap_def)
    ultimately have "grown live rest p w F (set_pointers t (length w) (bl_size d) ?q, True, m1)"
      using d n(2) by (simp add: grown_def kept_def)
    moreover have "poolGrow_malloc p m = Some (set_pointers t (length w) (bl_size d) ?q, True, m1)"
      by (simp only: poolGrow_malloc_def eqs Some Option.bind.simps Let_def prod.case option.case nat_int copy d(2))
    ultimately show ?thesis by blast
  qed
qed

lemma poolGrow_ok:
  assumes "pool_suite live (sp_mem p)" "pool_inv p w F" "pool_holds live rest p m"
  shows "\<exists>res. poolGrow p m = Some res \<and> grown live rest p w F res"
proof -
  have alloc: "\<exists>res. poolGrow_alloc p m = Some res \<and> grown live rest p w F res"
    using grow_malloc [OF assms] grow_realloc [OF assms]
    by (auto simp: poolGrow_alloc_def split: list.split)
  show ?thesis
  proof (cases "sp_freeBlocks p")
    case Nil
    then show ?thesis using alloc by (simp add: poolGrow_def)
  next
    case (Cons f fs)
    then obtain b where b: "sp_heap p f = Some b" using assms(2) by (auto simp: pool_inv_def)
    show ?thesis
    proof (cases "sp_start p")
      case None
      then show ?thesis by (rule grow_reuse_first [OF assms(2,3) Cons])
    next
      case (Some s)
      then show ?thesis
        using alloc grow_reuse_larger [OF assms(2,3) Cons, of "fst s" "snd s" b] b Cons pool_diffs(1) [OF assms(2)]
        by (cases "int (capacity p) < bl_size b") (auto simp: poolGrow_def)
    qed
  qed
qed

section \<open>Writing\<close>

lemma safe_cong:
  assumes "sp_blocks q = sp_blocks p" "sp_freeBlocks q = sp_freeBlocks p" "dom (sp_heap q) = dom (sp_heap p)"
    "sp_mem q = sp_mem p" "pool_inv q w F" "pool_holds live rest p m"
  shows "safe live rest p w F q m"
  using assms by (simp add: safe_def kept_def pool_holds_def linked_def)

lemma put_chars_ok:
  assumes inv: "pool_inv p w F" and mem: "pool_holds live rest p m" and start: "sp_start p = Some (a, i)"
    and room: "length w + length cs \<le> capacity p"
  shows "\<exists>q. put_chars cs p = Some q \<and> safe live rest p (w @ cs) F q m \<and> capacity q = capacity p \<and>
    sp_start q = sp_start p"
proof -
  obtain b where b: "sp_heap p a = Some b" "sp_ptr p = Some (a, i + length w)" "reads (sp_heap p) (a, i) w"
      "sp_end p = Some (a, length (bl_s b))" "capacity p = length (bl_s b) - i" "i + length w \<le> length (bl_s b)"
      "bl_size b = int (length (bl_s b))" "0 < length (bl_s b)" "length (bl_s b) < 2 ^ 30"
    using pool_inv_start [OF inv start] by metis
  have fits: "i + length w + length (map Some cs) \<le> length (bl_s b)" using room b(5,6) by simp
  define c where "c = b\<lparr>bl_s := take (i + length w) (bl_s b) @ map Some cs @
    drop (i + length w + length (map Some cs)) (bl_s b)\<rparr>"
  define heap where "heap = (sp_heap p)(a \<mapsto> c)"
  have wr: "write_chars (sp_heap p) (a, i + length w) (map Some cs) = Some heap"
    using write_chars_ok [of "sp_heap p" a b "i + length w" "map Some cs"] b(1) fits
    by (simp add: heap_def c_def)
  have c: "length (bl_s c) = length (bl_s b)" "bl_size c = bl_size b" using fits by (simp_all add: c_def)
  define q where "q = p\<lparr>sp_heap := heap, sp_ptr := Some (a, i + length w + length cs)\<rparr>"
  have dom: "dom heap = dom (sp_heap p)" using b(1) by (auto simp: heap_def)
  have "heap_ok heap" unfolding heap_def using inv b c by (intro heap_ok_upd) (simp_all add: pool_inv_def)
  moreover have "reads heap (a, i) (w @ cs)" by (rule write_reads [OF b(3) wr])
  moreover have "reads heap (x, k) ds" if F: "((x, k), ds) \<in> F" for x k ds
  proof (cases "x = a")
    case True
    then have "k + length ds \<le> i + length w" using pool_inv_finished(5) [OF inv F, of i] start by simp
    then show ?thesis using write_keeps [OF _ _ wr] pool_inv_finished(2) [OF inv F] True by simp
  next
    case False
    then show ?thesis using pool_inv_finished(2) [OF inv F] by (auto intro: reads_cong simp: heap_def)
  qed
  moreover have "sp_end p = Some (a, length (bl_s (the (heap a))))" using b(4) c(1) by (simp add: heap_def)
  ultimately have "pool_inv q (w @ cs) F"
    using inv start dom unfolding pool_inv_def by (simp add: q_def)
  then have "safe live rest p (w @ cs) F q m" using mem dom by (intro safe_cong) (simp_all add: q_def)
  moreover have "put_chars cs p = Some q" using b(2) wr by (simp add: put_chars_def q_def)
  moreover have "capacity q = capacity p" by (simp add: capacity_def q_def)
  ultimately show ?thesis by (auto simp: q_def)
qed

text \<open>A call that appends ends with the new text, or with some text when memory was refused.\<close>

definition appended ::
  "('m \<Rightarrow> address set) \<Rightarrow> address set \<Rightarrow> 'm STRING_POOL \<Rightarrow> (ptr \<times> byte list) set \<Rightarrow> byte list \<Rightarrow>
    'm STRING_POOL \<times> bool \<times> 'm \<Rightarrow> bool" where
  "appended live rest p F w res = (case res of (q, ok, m) \<Rightarrow>
     if ok then safe live rest p w F q m \<and> (sp_start p \<noteq> None \<longrightarrow> sp_start q \<noteq> None)
     else \<exists>u. kept live rest p u F q m)"

lemma appended_trans:
  "appended live rest p F w (q, True, m) \<Longrightarrow> appended live rest q F w' res \<Longrightarrow> appended live rest p F w' res"
  by (auto simp: appended_def safe_def kept_def split: prod.splits if_splits)

lemma at_end:
  assumes "pool_inv p w F"
  shows "sp_ptr p = sp_end p \<Longrightarrow> capacity p = length w"
    "sp_ptr p \<noteq> sp_end p \<Longrightarrow> sp_start p \<noteq> None \<and> length w < capacity p"
  using assms pool_inv_fresh [OF assms]
  by (cases "sp_start p"; auto elim: pool_inv_start)+

lemma appendChar_ok:
  assumes ms: "pool_suite live (sp_mem p)" and inv: "pool_inv p w F" and mem: "pool_holds live rest p m"
  shows "\<exists>res. poolAppendChar p c m = Some res \<and> appended live rest p F (w @ [c]) res"
proof (cases "sp_ptr p = sp_end p")
  case True
  then have cap: "capacity p = length w" by (rule at_end(1) [OF inv])
  obtain q ok m1 where g: "poolGrow p m = Some (q, ok, m1)" "grown live rest p w F (q, ok, m1)"
    using poolGrow_ok [OF ms inv mem] by auto
  show ?thesis
  proof (cases ok)
    case True
    then obtain a i where "sp_start q = Some (a, i)" "pool_inv q w F" "pool_holds live rest q m1"
        "length w + length [c] \<le> capacity q" "safe live rest p w F q m1"
      using g(2) cap by (auto simp: grown_def kept_def safe_def)
    then obtain r where r: "put_chars [c] q = Some r" "safe live rest q (w @ [c]) F r m1" "sp_start r = sp_start q"
        "safe live rest p w F q m1" "sp_start q \<noteq> None"
      using put_chars_ok [of q w F live rest m1 a i "[c]"] by auto
    then show ?thesis using g(1) True \<open>sp_ptr p = sp_end p\<close> safe_trans [OF r(4,2)]
      by (simp add: poolAppendChar_def appended_def)
  next
    case False
    then show ?thesis using g \<open>sp_ptr p = sp_end p\<close> by (auto simp: poolAppendChar_def appended_def grown_def)
  qed
next
  case False
  then obtain a i where "sp_start p = Some (a, i)" "length w + length [c] \<le> capacity p"
    using at_end(2) [OF inv] by auto
  then show ?thesis using put_chars_ok [OF inv mem, of a i "[c]"] False
    by (auto simp: poolAppendChar_def appended_def)
qed

section \<open>Strings\<close>

text \<open>The loops of the three functions that copy a string are this one.\<close>

fun append_all :: "byte list \<Rightarrow> 'm STRING_POOL \<Rightarrow> 'm \<Rightarrow> ('m STRING_POOL \<times> bool \<times> 'm) option" where
  "append_all [] pool m = Some (pool, True, m)"
| "append_all (c # s) pool m = do {
     (pool, ok, m) \<leftarrow> poolAppendChar pool c m;
     if \<not> ok then Some (pool, False, m) else append_all s pool m
   }"

lemma copy_loop_all:
  "0 \<in> set s \<Longrightarrow> copy_loop s p m = append_all (takeWhile (\<lambda>c. c \<noteq> 0) s @ [0]) p m"
  by (induction s p m rule: copy_loop.induct) (auto split: Option.bind_split prod.split)

lemma copyN_loop_all: "n \<le> length s \<Longrightarrow> copyN_loop s n p m = append_all (take n s) p m"
  by (induction s n p m rule: copyN_loop.induct) (auto split: Option.bind_split prod.split)

lemma appendString_loop_all:
  "0 \<in> set s \<Longrightarrow> appendString_loop s p m = append_all (takeWhile (\<lambda>c. c \<noteq> 0) s) p m"
  by (induction s p m rule: appendString_loop.induct) (auto split: Option.bind_split prod.split)

lemma append_all_ok:
  "pool_suite live (sp_mem p) \<Longrightarrow> pool_inv p w F \<Longrightarrow> pool_holds live rest p m \<Longrightarrow>
    \<exists>res. append_all s p m = Some res \<and> appended live rest p F (w @ s) res"
proof (induction s arbitrary: p w m)
  case Nil
  then show ?case by (simp add: appended_def safe_refl)
next
  case (Cons c s)
  obtain q ok m1 where q: "poolAppendChar p c m = Some (q, ok, m1)" "appended live rest p F (w @ [c]) (q, ok, m1)"
    using appendChar_ok [OF Cons.prems, of c] by auto
  show ?case
  proof (cases ok)
    case True
    then have "pool_suite live (sp_mem q)" "pool_inv q (w @ [c]) F" "pool_holds live rest q m1"
      using q(2) Cons.prems(1) by (auto simp: appended_def safe_def kept_def)
    then obtain res where "append_all s q m1 = Some res" "appended live rest q F (w @ c # s) res"
      using Cons.IH [of q "w @ [c]" m1] by auto
    then show ?thesis using q True appended_trans [of live rest p F "w @ [c]" q m1] by auto
  next
    case False
    then show ?thesis using q by (auto simp: appended_def)
  qed
qed

lemma ensure_start:
  assumes ms: "pool_suite live (sp_mem p)" and inv: "pool_inv p w F" and mem: "pool_holds live rest p m"
  shows "\<exists>q ok m1. (if sp_ptr p = None then poolGrow p m else Some (p, True, m)) = Some (q, ok, m1) \<and>
    appended live rest p F w (q, ok, m1) \<and> (ok \<longrightarrow> sp_start q \<noteq> None)"
proof (cases "sp_ptr p")
  case None
  then have "sp_start p = None" using inv by (auto simp: pool_inv_def split: option.splits)
  obtain q ok m1 where "poolGrow p m = Some (q, ok, m1)" "grown live rest p w F (q, ok, m1)"
    using poolGrow_ok [OF ms inv mem] by auto
  then show ?thesis using None by (cases ok) (auto simp: grown_def appended_def safe_def)
next
  case (Some s)
  then have "sp_start p \<noteq> None" using inv by (auto simp: pool_inv_def split: option.splits)
  then show ?thesis using Some safe_refl [OF inv mem] by (auto simp: appended_def)
qed

section \<open>Converted text\<close>

text \<open>
  What a pool relies on in the converter of an encoding, for the texts it is used on: \<open>reads src t\<close>
  says that \<open>src\<close> is such a text and \<open>t\<close> its UTF-8. The converter reads a prefix of its input, writes no
  more than there is room for, what it leaves is again such a text, the pieces it writes in successive
  calls add up, and room for three bytes of every input byte is enough to read all of it.
\<close>

locale text_converter =
  fixes enc :: encoding
    and reads :: "byte list \<Rightarrow> byte list \<Rightarrow> bool"
  assumes conv_step: "reads src t \<Longrightarrow> \<exists>n out t'. XmlUtf8Convert enc src room = Some (n, out) \<and>
      n \<le> length src \<and> length out \<le> room \<and> length out \<le> 3 * n \<and> t = out @ t' \<and> reads (drop n src) t' \<and>
      (3 * length src \<le> room \<longrightarrow> n = length src)"
    and reads_Nil: "reads [] t \<Longrightarrow> t = []"
begin

lemma append_loop_ok:
  "pool_suite live (sp_mem p) \<Longrightarrow> pool_inv p w F \<Longrightarrow> pool_holds live rest p m \<Longrightarrow>
    sp_start p \<noteq> None \<Longrightarrow> reads src t \<Longrightarrow>
    \<exists>q r m1. poolAppend_loop enc src p m = Some (q, r, m1) \<and> (r \<noteq> None \<longrightarrow> r = sp_start q) \<and>
      appended live rest p F (w @ t) (q, r \<noteq> None, m1)"
proof (induction "3 * length src + length w - capacity p" arbitrary: p w m src t rule: less_induct)
  case less
  obtain a i where start: "sp_start p = Some (a, i)" using less.prems(4) by auto
  have room: "ptr_diff (sp_end p) (sp_ptr p) = Some (int (capacity p - length w))" "length w \<le> capacity p"
    by (rule pool_inv_start [OF less.prems(2) start]; simp)+
  obtain n out t' where c: "XmlUtf8Convert enc src (capacity p - length w) = Some (n, out)"
    and step: "n \<le> length src" "length out \<le> capacity p - length w" "length out \<le> 3 * n" "t = out @ t'"
      "reads (drop n src) t'" "3 * length src \<le> capacity p - length w \<longrightarrow> n = length src"
    using conv_step [OF less.prems(5), of "capacity p - length w"] by (elim exE conjE)
  have fits: "length w + length out \<le> capacity p" using step(2) room(2) by linarith
  obtain q where q: "put_chars out p = Some q" "safe live rest p (w @ out) F q m" "capacity q = capacity p"
      "sp_start q = sp_start p"
    using put_chars_ok [OF less.prems(2,3) start fits] by blast
  have unfold: "poolAppend_loop enc src p m = (if n = length src then Some (q, sp_start q, m)
      else do {
        (pool, ok, m) \<leftarrow> poolGrow q m;
        if \<not> ok then Some (pool, None, m) else poolAppend_loop enc (drop n src) pool m
      })"
    by (subst poolAppend_loop.simps) (simp add: room(1) c q(1) del: XmlUtf8Convert.simps)
  show ?case
  proof (cases "n = length src")
    case True
    then have "t = out" using step(4,5) reads_Nil [of t'] by simp
    then show ?thesis using unfold True q start by (auto simp: appended_def)
  next
    case False
    then have cap: "capacity p < 3 * length src + length w" using step(6) room(2) by linarith
    have less': "3 * length (drop n src) + length (w @ out) \<le> 3 * length src + length w" using step(1,3) by auto
    obtain r ok m1 where g: "poolGrow q m = Some (r, ok, m1)" "grown live rest q (w @ out) F (r, ok, m1)"
      using poolGrow_ok [of live q "w @ out" F rest m] q(2) less.prems(1) by (auto simp: safe_def kept_def)
    have kept: "kept live rest p (w @ out) F r m1" "ok \<Longrightarrow> safe live rest p (w @ out) F r m1"
      using g(2) q(2) by (auto simp: grown_def safe_def kept_def)
    show ?thesis
    proof (cases ok)
      case True
      have r: "capacity p < capacity r" "sp_start r \<noteq> None" using True g(2) q(3) by (auto simp: grown_def)
      have "3 * length (drop n src) + length (w @ out) - capacity r < 3 * length src + length w - capacity p"
        using r(1) less' cap by linarith
      from less.hyps [OF this, of m1 t'] kept(1) less.prems(1) r(2) step(5) obtain s u m2 where
        s: "poolAppend_loop enc (drop n src) r m1 = Some (s, u, m2)" "u \<noteq> None \<longrightarrow> u = sp_start s"
          "appended live rest r F (w @ out @ t') (s, u \<noteq> None, m2)"
        by (auto simp: kept_def)
      have "appended live rest p F (w @ out) (r, True, m1)" using kept(2) True r(2) by (simp add: appended_def)
      from appended_trans [OF this s(3)] show ?thesis using unfold False g(1) True s(1,2) step(4) by auto
    next
      case False
      then show ?thesis using unfold \<open>n \<noteq> length src\<close> g(1) kept(1) by (auto simp: appended_def)
    qed
  qed
qed

lemma append_ok:
  assumes src: "reads src t"
    and ms: "pool_suite live (sp_mem p)" and inv: "pool_inv p w F" and mem: "pool_holds live rest p m"
  shows "\<exists>q r m1. poolAppend enc src p m = Some (q, r, m1) \<and> (r \<noteq> None \<longrightarrow> r = sp_start q) \<and>
      appended live rest p F (w @ t) (q, r \<noteq> None, m1)"
proof -
  obtain q ok m1 where q: "(if sp_ptr p = None then poolGrow p m else Some (p, True, m)) = Some (q, ok, m1)"
      "appended live rest p F w (q, ok, m1)" "ok \<longrightarrow> sp_start q \<noteq> None"
    using ensure_start [OF ms inv mem] by blast
  show ?thesis
  proof (cases ok)
    case True
    then have "pool_suite live (sp_mem q)" "pool_inv q w F" "pool_holds live rest q m1" "sp_start q \<noteq> None"
      using q(2,3) ms by (auto simp: appended_def safe_def kept_def)
    from append_loop_ok [OF this src] obtain r u m2 where r: "poolAppend_loop enc src q m1 = Some (r, u, m2)"
        "u \<noteq> None \<longrightarrow> u = sp_start r" "appended live rest q F (w @ t) (r, u \<noteq> None, m2)"
      by blast
    have "appended live rest p F (w @ t) (r, u \<noteq> None, m2)"
      using appended_trans [OF _ r(3)] q(2) True by simp
    then show ?thesis using q(1) True r(1,2) by (auto simp: poolAppend_def)
  next
    case False
    then show ?thesis using q by (auto simp: poolAppend_def appended_def)
  qed
qed

lemma store_ok:
  assumes src: "reads src t"
    and ms: "pool_suite live (sp_mem p)" and inv: "pool_inv p w F" and mem: "pool_holds live rest p m"
  shows "\<exists>q r m1. poolStoreString enc src p m = Some (q, r, m1) \<and> (r \<noteq> None \<longrightarrow> r = sp_start q) \<and>
      appended live rest p F (w @ t @ [0]) (q, r \<noteq> None, m1)"
proof -
  obtain q r m1 where q: "poolAppend enc src p m = Some (q, r, m1)" "r \<noteq> None \<longrightarrow> r = sp_start q"
      "appended live rest p F (w @ t) (q, r \<noteq> None, m1)"
    using append_ok [OF src ms inv mem] by auto
  show ?thesis
  proof (cases r)
    case None
    then show ?thesis using q by (auto simp: poolStoreString_def appended_def)
  next
    case (Some x)
    then have "pool_suite live (sp_mem q)" "pool_inv q (w @ t) F" "pool_holds live rest q m1"
      using q(3) ms by (auto simp: appended_def safe_def kept_def)
    from appendChar_ok [OF this, of 0] obtain s ok m2 where
      s: "poolAppendChar q 0 m1 = Some (s, ok, m2)" "appended live rest q F (w @ t @ [0]) (s, ok, m2)"
      by auto
    have "appended live rest p F (w @ t @ [0]) (s, ok, m2)"
      using appended_trans [of live rest p F "w @ t" q m1] q(3) s(2) Some by auto
    moreover have "sp_start s \<noteq> None" if ok using that s(2) q(2) Some by (auto simp: appended_def)
    ultimately show ?thesis using q(1) s(1) Some by (cases ok) (auto simp: poolStoreString_def)
  qed
qed

end

lemma utf8_text_converter:
  assumes "utf8Convert enc = Utf8_toUtf8"
  shows "text_converter enc (\<lambda>src t. t = src)"
proof
  fix src t room
  assume "t = (src :: byte list)"
  then show "\<exists>n out t'. XmlUtf8Convert enc src room = Some (n, out) \<and> n \<le> length src \<and> length out \<le> room \<and>
      length out \<le> 3 * n \<and> t = out @ t' \<and> t' = drop n src \<and> (3 * length src \<le> room \<longrightarrow> n = length src)"
    using assms back_off_le [of src room] by (auto simp: utf8_toUtf8_def Let_def min_def)
qed simp

lemma ascii_text_converter:
  assumes "utf8Convert enc = Ascii_toUtf8"
  shows "text_converter enc (\<lambda>src t. t = src)"
  using assms by unfold_locales (auto simp: ascii_toUtf8_def Let_def)

lemma utf8_of_append: "utf8_of (cs @ ds) = utf8_of cs @ utf8_of ds"
  by (induction cs) simp_all

lemma latin1_length: "length (utf8_of (map uint (src :: byte list))) \<le> 2 * length src"
  by (induction src) (simp_all add: latin1_char)

lemma latin1_text_converter:
  assumes "utf8Convert enc = Latin1_toUtf8"
  shows "text_converter enc (\<lambda>src t. t = utf8_of (map uint src))"
proof
  fix src t room
  assume t: "t = utf8_of (map uint (src :: byte list))"
  obtain n out where c: "latin1_toUtf8 src room = (n, out)" by fastforce
  note spec = latin1_toUtf8_spec [OF c]
  have "utf8_of (map uint src) = utf8_of (map uint (take n src)) @ utf8_of (map uint (drop n src))"
    by (metis append_take_drop_id map_append utf8_of_append)
  then have "n \<le> length src \<and> length out \<le> room \<and> length out \<le> 3 * n \<and> t = out @ utf8_of (map uint (drop n src))"
    using spec latin1_length [of "take n src"] t by auto
  moreover have "3 * length src \<le> room \<longrightarrow> n = length src"
    using spec latin1_length [of "take (Suc n) src"] by (cases "n < length src") auto
  ultimately show "\<exists>n out t'. XmlUtf8Convert enc src room = Some (n, out) \<and> n \<le> length src \<and> length out \<le> room \<and>
      length out \<le> 3 * n \<and> t = out @ t' \<and> t' = utf8_of (map uint (drop n src)) \<and> (3 * length src \<le> room \<longrightarrow> n = length src)"
    using assms c by auto
qed simp

interpretation utf8_text: text_converter "utf8_encoding ns" "\<lambda>src t. t = src" for ns
  by (rule utf8_text_converter) (simp add: utf8_encoding_def)

interpretation ascii_text: text_converter "ascii_encoding ns" "\<lambda>src t. t = src" for ns
  by (rule ascii_text_converter) (simp add: ascii_encoding_def)

interpretation latin1_text: text_converter "latin1_encoding ns" "\<lambda>src t. t = utf8_of (map uint src)" for ns
  by (rule latin1_text_converter) (simp add: latin1_encoding_def)

end
