(* ===== verification/Xml_Pool_Runs.thy ===== *)
theory Xml_Pool_Runs
  imports Xml_Pool_Props
begin

text \<open>
  Sequences of calls of a string pool, which end with the first call that reports that memory was
  refused, as the parser does. A finished string is readable at the address that was returned for
  it until the pool is cleared, and the memory of a pool is freed by \<open>poolDestroy\<close>, unless
  \<open>realloc_fcn\<close> has refused a request.
\<close>

datatype pool_call =
    P_CopyString "byte list" | P_CopyStringN "byte list" int | P_AppendString "byte list" | P_AppendChar byte
  | P_Append encoding "byte list" | P_StoreString encoding "byte list" | P_Finish | P_Discard | P_Trim | P_Clear

definition checked :: "('m STRING_POOL \<times> ptr option \<times> 'm) \<Rightarrow> 'm STRING_POOL \<times> ptr option \<times> bool \<times> 'm" where
  "checked res = (case res of (pool, r, m) \<Rightarrow> (pool, r, r \<noteq> None, m))"

fun pool_step ::
  "pool_call \<Rightarrow> 'm STRING_POOL \<Rightarrow> 'm \<Rightarrow> ('m STRING_POOL \<times> ptr option \<times> bool \<times> 'm) option" where
  "pool_step (P_CopyString s) pool m = map_option checked (poolCopyString s pool m)"
| "pool_step (P_CopyStringN s n) pool m = map_option checked (poolCopyStringN s n pool m)"
| "pool_step (P_AppendString s) pool m = map_option checked (poolAppendString s pool m)"
| "pool_step (P_AppendChar c) pool m = do {
     (pool, ok, m) \<leftarrow> poolAppendChar pool c m;
     Some (pool, None, ok, m)
   }"
| "pool_step (P_Append enc src) pool m = map_option checked (poolAppend enc src pool m)"
| "pool_step (P_StoreString enc src) pool m = map_option checked (poolStoreString enc src pool m)"
| "pool_step P_Finish pool m = Some (poolFinish pool, poolStart pool, True, m)"
| "pool_step P_Discard pool m = Some (poolDiscard pool, None, True, m)"
| "pool_step P_Trim pool m = do {pool \<leftarrow> trim_space pool; Some (pool, None, True, m)}"
| "pool_step P_Clear pool m = Some (poolClear pool, None, True, m)"

fun pool_run ::
  "pool_call list \<Rightarrow> 'm STRING_POOL \<Rightarrow> 'm \<Rightarrow> ('m STRING_POOL \<times> ptr option list \<times> 'm) option" where
  "pool_run [] pool m = Some (pool, [], m)"
| "pool_run (c # cs) pool m = do {
     (pool, r, ok, m) \<leftarrow> pool_step c pool m;
     if \<not> ok then Some (pool, [], m)
     else do {(pool, rs, m) \<leftarrow> pool_run cs pool m; Some (pool, r # rs, m)}
   }"

text \<open>What the calls mean: the text under construction and the strings that were finished.\<close>

definition converted :: "encoding \<Rightarrow> byte list \<Rightarrow> byte list" where
  "converted enc src = (if utf8Convert enc = Latin1_toUtf8 then utf8_of (map uint src) else src)"

definition string_of :: "byte list \<Rightarrow> byte list" where
  "string_of s = takeWhile (\<lambda>c. c \<noteq> 0) s"

type_synonym texts = "byte list \<times> (ptr \<times> byte list) set"

definition finish :: "ptr option \<Rightarrow> byte list \<Rightarrow> (ptr \<times> byte list) set \<Rightarrow> texts" where
  "finish r w F = ([], if w = [] then F else insert (the r, w) F)"

fun text_step :: "pool_call \<Rightarrow> ptr option \<Rightarrow> texts \<Rightarrow> texts" where
  "text_step (P_CopyString s) r (w, F) = finish r (w @ string_of s @ [0]) F"
| "text_step (P_CopyStringN s n) r (w, F) = finish r (w @ take (nat n) s) F"
| "text_step (P_AppendString s) r (w, F) = (w @ string_of s, F)"
| "text_step (P_AppendChar c) r (w, F) = (w @ [c], F)"
| "text_step (P_Append enc src) r (w, F) = (w @ converted enc src, F)"
| "text_step (P_StoreString enc src) r (w, F) = (w @ converted enc src @ [0], F)"
| "text_step P_Finish r (w, F) = finish r w F"
| "text_step P_Discard r (w, F) = ([], F)"
| "text_step P_Trim r (w, F) = (if w \<noteq> [] \<and> last w = 0x20 then butlast w else w, F)"
| "text_step P_Clear r (w, F) = ([], {})"

fun text_run :: "pool_call list \<Rightarrow> ptr option list \<Rightarrow> texts \<Rightarrow> texts" where
  "text_run (c # cs) (r # rs) t = text_run cs rs (text_step c r t)"
| "text_run _ _ t = t"

fun pool_call_ok :: "pool_call \<Rightarrow> bool" where
  "pool_call_ok (P_CopyString s) = (0 \<in> set s)"
| "pool_call_ok (P_CopyStringN s n) = (nat n \<le> length s)"
| "pool_call_ok (P_AppendString s) = (0 \<in> set s)"
| "pool_call_ok (P_Append enc src) = (utf8Convert enc \<in> {Utf8_toUtf8, Latin1_toUtf8, Ascii_toUtf8})"
| "pool_call_ok (P_StoreString enc src) = (utf8Convert enc \<in> {Utf8_toUtf8, Latin1_toUtf8, Ascii_toUtf8})"
| "pool_call_ok _ = True"

section \<open>The operations\<close>

lemma pool_inv_Finish:
  assumes "pool_inv p w F"
  shows "pool_inv (poolFinish p) (fst (finish (sp_start p) w F)) (snd (finish (sp_start p) w F))"
proof (cases "sp_start p")
  case None
  then show ?thesis using assms pool_inv_fresh [OF assms None] by (simp add: poolFinish_def pool_inv_def finish_def)
next
  case (Some s)
  obtain a i where s: "s = (a, i)" by (cases s)
  obtain b where b: "sp_heap p a = Some b" "sp_ptr p = Some (a, i + length w)" "reads (sp_heap p) (a, i) w"
      "i + length w \<le> length (bl_s b)" "sp_end p = Some (a, length (bl_s b))"
    using pool_inv_start [OF assms Some [unfolded s]] by metis
  have "a \<notin> set (sp_freeBlocks p)" "a \<in> set (sp_blocks p) \<longrightarrow> a = hd (sp_blocks p)"
    using assms Some s by (auto simp: pool_inv_def)
  moreover have "cs \<noteq> [] \<and> reads (sp_heap p) (x, k) cs \<and> x \<notin> set (sp_freeBlocks p) \<and>
      (x = a \<longrightarrow> k + length cs \<le> i + length w)" if "((x, k), cs) \<in> F" for x k cs
    using pool_inv_finished(1-4) [OF assms that] pool_inv_finished(5) [OF assms that, of i] Some s by auto
  ultimately show ?thesis
    using assms Some s b unfolding pool_inv_def poolFinish_def finish_def
    by (auto simp: reads_Nil)
qed

lemma safe_Finish:
  assumes "safe live rest p w F q m"
  shows "safe live rest p (fst (finish (sp_start q) w F)) (snd (finish (sp_start q) w F)) (poolFinish q) m"
  using assms pool_inv_Finish [of q w F]
  by (auto simp: safe_def kept_def pool_holds_def linked_def poolFinish_def)

lemma pool_inv_shorter:
  assumes "pool_inv p w F" "sp_start p = Some (a, i)" "n \<le> length w"
  shows "pool_inv (p\<lparr>sp_ptr := Some (a, i + n)\<rparr>) (take n w) F"
  using assms reads_take [of "sp_heap p" a i w n] by (simp add: pool_inv_def)

lemma safe_upd_ptr:
  "pool_inv (p\<lparr>sp_ptr := s\<rparr>) w F \<Longrightarrow> pool_holds live rest p m \<Longrightarrow> safe live rest p w F (p\<lparr>sp_ptr := s\<rparr>) m"
  by (simp add: safe_def kept_def pool_holds_def linked_def)

lemma pool_inv_Discard: "pool_inv p w F \<Longrightarrow> pool_inv (poolDiscard p) [] F"
proof (cases "sp_start p")
  case None
  assume inv: "pool_inv p w F"
  then show ?thesis using None pool_inv_fresh [OF inv None] by (simp add: poolDiscard_def pool_inv_def)
next
  case (Some s)
  assume "pool_inv p w F"
  then show ?thesis using Some pool_inv_shorter [of p w F "fst s" "snd s" 0] by (simp add: poolDiscard_def)
qed

lemma poolLastChar_ok:
  assumes inv: "pool_inv p w F" and ne: "w \<noteq> []"
  shows "poolLastChar p = Some (last w)"
proof -
  obtain v c where w: "w = v @ [c]" using ne by (metis append_butlast_last_id)
  obtain a i where start: "sp_start p = Some (a, i)" using ne pool_inv_fresh(4) [OF inv] by (cases "sp_start p") auto
  obtain b where b: "sp_heap p a = Some b" "sp_ptr p = Some (a, i + length w)" "reads (sp_heap p) (a, i) w"
    using pool_inv_start [OF inv start] by metis
  have t: "take (length w) (drop i (bl_s b)) = map Some w" "i + length w \<le> length (bl_s b)" using b(1,3) by (auto simp: reads_iff)
  then have "bl_s b ! (i + length v) = Some c"
    using nth_take [of "length v" "length w" "drop i (bl_s b)"] by (simp add: w nth_append)
  then have "hd (take 1 (drop (i + length v) (bl_s b))) = Some c" using t(2) w by (simp add: hd_drop_conv_nth)
  then show ?thesis using b(1,2) t(2) w by (auto simp: poolLastChar_def read_chars_def)
qed

lemma trim_space_ok:
  assumes inv: "pool_inv p w F" and mem: "pool_holds live rest p m"
  shows "\<exists>q. trim_space p = Some q \<and>
    safe live rest p (if w \<noteq> [] \<and> last w = 0x20 then butlast w else w) F q m"
proof (cases "w = []")
  case True
  then show ?thesis using pool_diffs(2) [OF inv] safe_refl [OF inv mem] by (simp add: trim_space_def poolLength_def)
next
  case False
  then obtain v c where w: "w = v @ [c]" by (metis append_butlast_last_id)
  obtain a i where start: "sp_start p = Some (a, i)" using False pool_inv_fresh(4) [OF inv] by (cases "sp_start p") auto
  have b: "sp_ptr p = Some (a, i + length w)" using pool_inv_start [OF inv start] by metis
  have last: "poolLastChar p = Some c" using poolLastChar_ok [OF inv False] w by simp
  have chop: "poolChop p = Some (p\<lparr>sp_ptr := Some (a, i + length v)\<rparr>)" using b w by (simp add: poolChop_def)
  have "pool_inv (p\<lparr>sp_ptr := Some (a, i + length v)\<rparr>) (take (length v) w) F"
    using pool_inv_shorter [OF inv start, of "length v"] w by simp
  then have "safe live rest p v F (p\<lparr>sp_ptr := Some (a, i + length v)\<rparr>) m" using mem w by (intro safe_upd_ptr) simp_all
  then show ?thesis
    using pool_diffs(2) [OF inv] safe_refl [OF inv mem] last chop w by (auto simp: trim_space_def poolLength_def)
qed

lemma pool_inv_Clear:
  assumes "pool_inv p w F" "pool_holds live rest p m"
  shows "safe live rest p [] {} (poolClear p) m"
proof -
  have free: "sp_freeBlocks (poolClear p) = rev (sp_blocks p) @ sp_freeBlocks p \<or>
      sp_freeBlocks (poolClear p) = sp_blocks p \<and> sp_freeBlocks p = []"
    by (simp add: poolClear_def fold_Cons_rev)
  then have "distinct (sp_freeBlocks (poolClear p))" "set (sp_freeBlocks (poolClear p)) = set (sp_blocks p @ sp_freeBlocks p)"
    using assms(1) by (auto simp: pool_inv_def)
  then show ?thesis using assms
    by (simp add: safe_def kept_def pool_inv_def pool_holds_def linked_def) (simp add: poolClear_def)
qed

lemma poolAppend_ok:
  assumes "utf8Convert enc \<in> {Utf8_toUtf8, Latin1_toUtf8, Ascii_toUtf8}"
    and "pool_suite live (sp_mem p)" "pool_inv p w F" "pool_holds live rest p m"
  shows "\<exists>q r m1. poolAppend enc src p m = Some (q, r, m1) \<and> (r \<noteq> None \<longrightarrow> r = sp_start q) \<and>
      appended live rest p F (w @ converted enc src) (q, r \<noteq> None, m1)"
  using assms(1) text_converter.append_ok [OF utf8_text_converter refl assms(2-4), of enc src]
    text_converter.append_ok [OF ascii_text_converter refl assms(2-4), of enc src]
    text_converter.append_ok [OF latin1_text_converter refl assms(2-4), of enc src]
  by (auto simp: converted_def)

text \<open>What a call of a sequence leaves behind.\<close>

definition stepped ::
  "('m \<Rightarrow> address set) \<Rightarrow> address set \<Rightarrow> 'm STRING_POOL \<Rightarrow> byte list \<Rightarrow> (ptr \<times> byte list) set \<Rightarrow> pool_call \<Rightarrow>
    'm STRING_POOL \<times> ptr option \<times> bool \<times> 'm \<Rightarrow> bool" where
  "stepped live rest p w F c res = (case res of (q, r, ok, m) \<Rightarrow>
     if ok then case text_step c r (w, F) of (w', F') \<Rightarrow> safe live rest p w' F' q m
     else \<exists>u. kept live rest p u F q m)"

lemma nonempty_start: "pool_inv p w F \<Longrightarrow> w \<noteq> [] \<Longrightarrow> sp_start p \<noteq> None"
  using pool_inv_fresh(4) by blast

lemma appended_start:
  "appended live rest p F w (q, True, m) \<Longrightarrow> w \<noteq> [] \<or> sp_start p \<noteq> None \<Longrightarrow> sp_start q \<noteq> None"
  using nonempty_start by (auto simp: appended_def safe_def kept_def)

lemma copyString_ok:
  assumes ms: "pool_suite live (sp_mem p)" and inv: "pool_inv p w F" and mem: "pool_holds live rest p m"
    and s: "0 \<in> set s"
  shows "\<exists>res. pool_step (P_CopyString s) p m = Some res \<and> stepped live rest p w F (P_CopyString s) res"
proof -
  obtain q ok m1 where q: "append_all (string_of s @ [0]) p m = Some (q, ok, m1)"
      "appended live rest p F (w @ string_of s @ [0]) (q, ok, m1)"
    using append_all_ok [OF ms inv mem, of "string_of s @ [0]"] by auto
  show ?thesis
  proof (cases ok)
    case True
    then obtain x where x: "sp_start q = Some x" "safe live rest p (w @ string_of s @ [0]) F q m1"
      using appended_start [of live rest p F "w @ string_of s @ [0]" q m1] q(2) by (auto simp: appended_def)
    then show ?thesis using q(1) True safe_Finish [OF x(2)] s
      by (auto simp: poolCopyString_def copy_loop_all stepped_def checked_def finish_def string_of_def)
  next
    case False
    then show ?thesis using q s
      by (auto simp: poolCopyString_def copy_loop_all stepped_def checked_def appended_def string_of_def)
  qed
qed

lemma copyStringN_ok:
  assumes ms: "pool_suite live (sp_mem p)" and inv: "pool_inv p w F" and mem: "pool_holds live rest p m"
    and s: "nat n \<le> length s"
  shows "\<exists>res. pool_step (P_CopyStringN s n) p m = Some res \<and> stepped live rest p w F (P_CopyStringN s n) res"
proof -
  obtain o1 ok m1 where o1: "(if sp_ptr p = None then poolGrow p m else Some (p, True, m)) = Some (o1, ok, m1)"
      "appended live rest p F w (o1, ok, m1)" "ok \<longrightarrow> sp_start o1 \<noteq> None"
    using ensure_start [OF ms inv mem] by blast
  show ?thesis
  proof (cases ok)
    case True
    then have "pool_suite live (sp_mem o1)" "pool_inv o1 w F" "pool_holds live rest o1 m1"
      using o1 ms s by (auto simp: appended_def safe_def kept_def)
    from append_all_ok [OF this, of "take (nat n) s"] obtain q ok2 m2 where
      q: "append_all (take (nat n) s) o1 m1 = Some (q, ok2, m2)" "appended live rest o1 F (w @ take (nat n) s) (q, ok2, m2)"
      by auto
    have a: "appended live rest p F (w @ take (nat n) s) (q, ok2, m2)"
      using appended_trans [of live rest p F w o1 m1] o1(2) q(2) True by simp
    show ?thesis
    proof (cases ok2)
      case ok2: True
      then obtain x where x: "sp_start q = Some x" "safe live rest p (w @ take (nat n) s) F q m2"
        using appended_start [of live rest o1 F "w @ take (nat n) s" q m2] q(2) o1(3) True a by (auto simp: appended_def)
      then show ?thesis using o1(1) q(1) True ok2 safe_Finish [OF x(2)] s
        by (auto simp: poolCopyStringN_def copyN_loop_all stepped_def checked_def finish_def)
    next
      case False
      then show ?thesis using o1(1) q(1) a True s
        by (auto simp: poolCopyStringN_def copyN_loop_all stepped_def checked_def appended_def)
    qed
  next
    case False
    then show ?thesis using o1 by (auto simp: poolCopyStringN_def stepped_def checked_def appended_def)
  qed
qed

lemma appendString_ok:
  assumes ms: "pool_suite live (sp_mem p)" and inv: "pool_inv p w F" and mem: "pool_holds live rest p m"
    and s: "0 \<in> set s"
  shows "\<exists>res. pool_step (P_AppendString s) p m = Some res \<and> stepped live rest p w F (P_AppendString s) res"
proof -
  obtain q ok m1 where q: "append_all (string_of s) p m = Some (q, ok, m1)"
      "appended live rest p F (w @ string_of s) (q, ok, m1)"
    using append_all_ok [OF ms inv mem, of "string_of s"] by auto
  then show ?thesis using s
    by (cases ok; cases "sp_start q")
      (auto simp: poolAppendString_def appendString_loop_all stepped_def checked_def appended_def safe_def string_of_def)
qed

lemma poolStoreString_ok:
  assumes "utf8Convert enc \<in> {Utf8_toUtf8, Latin1_toUtf8, Ascii_toUtf8}"
    and "pool_suite live (sp_mem p)" "pool_inv p w F" "pool_holds live rest p m"
  shows "\<exists>q r m1. poolStoreString enc src p m = Some (q, r, m1) \<and> (r \<noteq> None \<longrightarrow> r = sp_start q) \<and>
      appended live rest p F (w @ converted enc src @ [0]) (q, r \<noteq> None, m1)"
  using assms(1) text_converter.store_ok [OF utf8_text_converter refl assms(2-4), of enc src]
    text_converter.store_ok [OF ascii_text_converter refl assms(2-4), of enc src]
    text_converter.store_ok [OF latin1_text_converter refl assms(2-4), of enc src]
  by (auto simp: converted_def)

lemma storeString_ok:
  assumes enc: "utf8Convert enc \<in> {Utf8_toUtf8, Latin1_toUtf8, Ascii_toUtf8}"
    and ms: "pool_suite live (sp_mem p)" and inv: "pool_inv p w F" and mem: "pool_holds live rest p m"
  shows "\<exists>res. pool_step (P_StoreString enc src) p m = Some res \<and> stepped live rest p w F (P_StoreString enc src) res"
proof -
  obtain q r m1 where "poolStoreString enc src p m = Some (q, r, m1)" "r \<noteq> None \<longrightarrow> r = sp_start q"
      "appended live rest p F (w @ converted enc src @ [0]) (q, r \<noteq> None, m1)"
    using poolStoreString_ok [OF enc ms inv mem, of src] by blast
  then show ?thesis by (cases r) (auto simp: stepped_def checked_def appended_def)
qed

lemma pool_step_ok:
  assumes "pool_suite live (sp_mem p)" "pool_inv p w F" "pool_holds live rest p m"
    "pool_call_ok c"
  shows "\<exists>res. pool_step c p m = Some res \<and> stepped live rest p w F c res"
proof (cases c)
  case (P_AppendChar x)
  then obtain q ok m1 where "poolAppendChar p x m = Some (q, ok, m1)" "appended live rest p F (w @ [x]) (q, ok, m1)"
    using appendChar_ok [OF assms(1-3), of x] by auto
  then show ?thesis using P_AppendChar by (cases ok) (auto simp: stepped_def appended_def)
next
  case (P_Append enc src)
  then obtain q r m1 where "poolAppend enc src p m = Some (q, r, m1)"
      "appended live rest p F (w @ converted enc src) (q, r \<noteq> None, m1)"
    using poolAppend_ok [OF _ assms(1-3), of enc src] assms(4) by auto
  then show ?thesis using P_Append
    by (cases r) (auto simp: stepped_def checked_def appended_def)
next
  case P_Finish
  then show ?thesis using safe_Finish [OF safe_refl [OF assms(2,3)]]
    by (auto simp: stepped_def poolStart_def finish_def)
next
  case P_Discard
  then show ?thesis using safe_upd_ptr [OF pool_inv_Discard [OF assms(2), unfolded poolDiscard_def] assms(3)]
    by (simp add: stepped_def poolDiscard_def)
next
  case P_Trim
  then show ?thesis using trim_space_ok [OF assms(2,3)] by (auto simp: stepped_def)
next
  case P_Clear
  then show ?thesis using pool_inv_Clear [OF assms(2,3)] by (simp add: stepped_def)
next
  case (P_CopyString s)
  then show ?thesis using assms(4) copyString_ok [OF assms(1-3), of s] by simp
next
  case (P_CopyStringN s n)
  then show ?thesis using assms(4) copyStringN_ok [OF assms(1-3), of n s] by simp
next
  case (P_AppendString s)
  then show ?thesis using assms(4) appendString_ok [OF assms(1-3), of s] by simp
next
  case (P_StoreString enc src)
  then show ?thesis using assms(4) storeString_ok [OF _ assms(1-3), of enc src] by simp
qed

section \<open>Sequences of calls\<close>

lemma pool_run_ok:
  "pool_suite live (sp_mem p) \<Longrightarrow> pool_inv p w F \<Longrightarrow> pool_holds live rest p m \<Longrightarrow> list_all pool_call_ok cs \<Longrightarrow>
    \<exists>q rs m1 u. pool_run cs p m = Some (q, rs, m1) \<and> kept live rest p u (snd (text_run cs rs (w, F))) q m1 \<and>
      (length rs = length cs \<longrightarrow> u = fst (text_run cs rs (w, F)) \<and> (linked p \<longrightarrow> linked q))"
proof (induction cs arbitrary: p w F m)
  case Nil
  then show ?case by (simp add: kept_def)
next
  case (Cons c cs)
  obtain q r ok m1 where q: "pool_step c p m = Some (q, r, ok, m1)" "stepped live rest p w F c (q, r, ok, m1)"
    using pool_step_ok [OF Cons.prems(1-3), of c] Cons.prems(4) by auto
  show ?case
  proof (cases ok)
    case True
    obtain w' F' where t: "text_step c r (w, F) = (w', F')" by fastforce
    then have safe: "safe live rest p w' F' q m1"
      using q(2) True by (auto simp: stepped_def)
    then obtain s rs m2 u where s: "pool_run cs q m1 = Some (s, rs, m2)"
        "kept live rest q u (snd (text_run cs rs (w', F'))) s m2"
        "length rs = length cs \<longrightarrow> u = fst (text_run cs rs (w', F')) \<and> (linked q \<longrightarrow> linked s)"
      using Cons.IH [of q w' F' m1] Cons.prems by (auto simp: safe_def kept_def)
    have "kept live rest p u (snd (text_run cs rs (w', F'))) s m2"
      using kept_trans [OF _ s(2), of p] safe by (simp add: safe_def kept_def)
    then show ?thesis using q(1) True t s(1,3) safe by (auto simp: safe_def intro: exI [of _ u])
  next
    case False
    then show ?thesis using q by (auto simp: stepped_def)
  qed
qed

lemma fresh_pool_run:
  assumes "pool_suite live ms" "list_all pool_call_ok calls"
  obtains q rs m1 u where "pool_run calls (poolInit ms) m = Some (q, rs, m1)"
    "kept live (live m) (poolInit ms) u (snd (text_run calls rs ([], {}))) q m1"
    "length rs = length calls \<longrightarrow> u = fst (text_run calls rs ([], {})) \<and> linked q"
proof -
  have "linked (poolInit ms)" "pool_inv (poolInit ms) [] {}" "pool_holds live (live m) (poolInit ms) m"
    by (simp_all add: poolInit_def pool_inv_def heap_ok_def pool_holds_def linked_def)
  then show ?thesis
    using pool_run_ok [of live "poolInit ms" "[]" "{}" "live m" m calls] assms that by (auto simp: poolInit_def)
qed



lemma free_list:
  assumes "lawful live ms"
  shows "distinct as \<Longrightarrow> set as \<subseteq> live m \<Longrightarrow> live (fold (\<lambda>p. free_fcn ms (Some p)) as m) = live m - set as"
proof (induction as arbitrary: m)
  case (Cons a as)
  then have "live (free_fcn ms (Some a) m) = live m - {a}" using lawful_free(1) [OF assms] by simp
  then show ?case using Cons by auto
qed simp

text \<open>A pool owns its blocks: after any sequence of calls that succeeded \<open>poolDestroy\<close> leaves
  allocated exactly what was allocated before \<open>poolInit\<close>. Nothing is freed that is not allocated,
  since the law of the allocator says nothing of such a call.\<close>

lemma pool_no_leak:
  assumes "pool_suite live ms" "list_all pool_call_ok calls"
  shows "\<exists>q rs m1. pool_run calls (poolInit ms) m = Some (q, rs, m1) \<and>
    (length rs = length calls \<longrightarrow> live (poolDestroy q m1) = live m)"
proof -
  obtain q rs m1 u where q: "pool_run calls (poolInit ms) m = Some (q, rs, m1)"
      "kept live (live m) (poolInit ms) u (snd (text_run calls rs ([], {}))) q m1"
      "length rs = length calls \<longrightarrow> u = fst (text_run calls rs ([], {})) \<and> linked q"
    by (rule fresh_pool_run [OF assms])
  have "live (poolDestroy q m1) = live m" if complete: "length rs = length calls"
  proof -
    have ms: "sp_mem q = ms" "linked q" using q(2,3) complete by (simp_all add: kept_def poolInit_def)
    have d: "distinct (sp_blocks q @ sp_freeBlocks q)" "live m1 = set (sp_blocks q @ sp_freeBlocks q) \<union> live m"
      "set (sp_blocks q @ sp_freeBlocks q) \<inter> live m = {}"
      using q(2) ms(2) unfolding kept_def pool_inv_def pool_holds_def linked_def by metis+
    have "poolDestroy q m1 = fold (\<lambda>p. free_fcn ms (Some p)) (sp_blocks q @ sp_freeBlocks q) m1"
      by (simp add: poolDestroy_def ms(1))
    also have "live \<dots> = live m1 - set (sp_blocks q @ sp_freeBlocks q)"
      using free_list [OF _ d(1), of live ms m1] assms(1) d(2) by (simp add: pool_suite_def)
    also have "\<dots> = live m" using d(2,3) by blast
    finally show ?thesis .
  qed
  then show ?thesis using q(1) by blast
qed

text \<open>C29: The converse: when \<open>realloc_fcn\<close> refuses to enlarge the first block, \<open>poolGrow\<close> overwrites
  \<open>pool->blocks\<close> with the \<open>NULL\<close> it returned. Every block of the pool that is in use is lost:
  \<open>poolDestroy\<close> frees none of them.\<close>

theorem pool_realloc_leak:
  assumes "sp_blocks p = a # bs" "sp_start p = Some (a, 0)" "sp_end p = Some (a, n)" "n < 2 ^ 30"
    "sp_heap p a = Some b" "sp_freeBlocks p = []"
    "realloc_fcn (sp_mem p) (Some a) (block_bytes (int n * 2)) m = (None, m1)"
  shows "\<exists>q. poolGrow p m = Some (q, False, m1) \<and> poolDestroy q m1 = m1"
  using assms by (simp add: poolGrow_def poolGrow_alloc_def poolGrow_realloc_def int_ok_def poolDestroy_def)

theorem pool_realloc_leak_witness:
  "\<exists>p m. poolGrow (poolInit arena_suite) (arena_init 1) = Some (p, True, m) \<and>
    (\<exists>q. poolGrow p m = Some (q, False, m) \<and> poolDestroy q m = m) \<and> arena_live m = {1}"
proof -
  define p where "p = set_pointers 1 0 1024 ((poolInit arena_suite)\<lparr>sp_blocks := [1],
    sp_heap := [1 \<mapsto> fresh_block 1024]\<rparr>)"
  define m where "m = \<lparr>next_address = 2, blocks_out = [1], budget = 0\<rparr>"
  have "poolGrow (poolInit arena_suite) (arena_init 1) = Some (p, True, m)"
    by (simp add: poolGrow_def poolGrow_alloc_def poolGrow_malloc_def poolInit_def arena_init_def arena_suite_def
        arena_malloc_def INIT_BLOCK_SIZE_def block_bytes_def p_def m_def)
  moreover have "\<exists>q. poolGrow p m = Some (q, False, m) \<and> poolDestroy q m = m"
    by (rule pool_realloc_leak [of p 1 "[]" 1024])
      (simp_all add: p_def poolInit_def arena_suite_def arena_realloc_def arena_malloc_def m_def)
  moreover have "arena_live m = {1}" by (simp add: arena_live_def m_def)
  ultimately show ?thesis by blast
qed

end
