(* ===== verification/Xml_Content.thy ===== *)
theory Xml_Content
  imports Xml_Memory Xml_Role
begin

text \<open>
  Content models of element declarations in \<^verbatim>\<open>xmlparse.c\<close>: the cases of \<open>doProlog\<close> for the roles of
  a content model, which build a scaffold of numbered parts in the order they are read, and
  \<open>build_model\<close>, which copies the scaffold into one block of \<open>XML_Content\<close> cells followed by the
  names. The connectors of the open groups belong to a parser, the scaffold to the DTD, which the
  parser of a parameter entity shares. Arrays are lists with the address they were allocated at; an
  element that was never written is \<open>None\<close> and reading it, or any access out of range, is a fault.
\<close>

datatype XML_Content_Type =
  XML_CTYPE_EMPTY | XML_CTYPE_ANY | XML_CTYPE_MIXED | XML_CTYPE_NAME | XML_CTYPE_CHOICE | XML_CTYPE_SEQ

datatype XML_Content_Quant = XML_CQUANT_NONE | XML_CQUANT_OPT | XML_CQUANT_REP | XML_CQUANT_PLUS

record CONTENT_SCAFFOLD =
  sc_type :: "XML_Content_Type option"
  sc_quant :: "XML_Content_Quant option"
  sc_name :: "byte list option"
  sc_firstchild :: nat
  sc_lastchild :: nat
  sc_childcnt :: nat
  sc_nextsib :: nat

type_synonym 'e array = "(address \<times> 'e option list) option"

record content_dtd =
  in_eldecl :: bool
  scaffold :: "CONTENT_SCAFFOLD array"
  contentStringLen :: "32 word"
  scaffSize :: "32 word"
  scaffCount :: "32 word"
  scaffLevel :: nat
  scaffIndex :: "nat array"

record group_state =
  groupConnector :: "byte array"
  groupSize :: "32 word"

section \<open>Arrays\<close>

definition array_at :: "'e array \<Rightarrow> nat \<Rightarrow> 'e option" where
  "array_at A i = do {(a, xs) \<leftarrow> A; if i < length xs then xs ! i else None}"

definition array_put :: "nat \<Rightarrow> 'e \<Rightarrow> 'e array \<Rightarrow> 'e array option" where
  "array_put i x A = do {(a, xs) \<leftarrow> A; if i < length xs then Some (Some (a, xs[i := Some x])) else None}"

definition array_upd :: "nat \<Rightarrow> ('e \<Rightarrow> 'e) \<Rightarrow> 'e array \<Rightarrow> 'e array option" where
  "array_upd i f A = do {x \<leftarrow> array_at A i; array_put i (f x) A}"

text \<open>\<open>MALLOC\<close> and \<open>REALLOC\<close> of \<open>n\<close> bytes for elements of \<open>sz\<close> bytes.\<close>

definition new_array ::
  "'m XML_Memory_Handling_Suite \<Rightarrow> size_t \<Rightarrow> size_t \<Rightarrow> 'm \<Rightarrow> 'e array \<times> 'm" where
  "new_array ms sz n m =
     (case malloc_fcn ms n m of
        (None, m) \<Rightarrow> (None, m)
      | (Some a, m) \<Rightarrow> (Some (a, replicate (unat n div unat sz) None), m))"

definition resize_array ::
  "'m XML_Memory_Handling_Suite \<Rightarrow> size_t \<Rightarrow> 'e array \<Rightarrow> size_t \<Rightarrow> 'm \<Rightarrow> 'e array \<times> 'm" where
  "resize_array ms sz A n m =
     (case realloc_fcn ms (map_option fst A) n m of
        (None, m) \<Rightarrow> (None, m)
      | (Some a, m) \<Rightarrow>
          let k = unat n div unat sz; xs = (case A of None \<Rightarrow> [] | Some (_, xs) \<Rightarrow> xs)
          in (Some (a, take k xs @ replicate (k - length xs) None), m))"

definition sizeof_char :: size_t where
  "sizeof_char = 1"

definition sizeof_int :: size_t where
  "sizeof_int = 4"

definition sizeof_CONTENT_SCAFFOLD :: size_t where
  "sizeof_CONTENT_SCAFFOLD = 28"

definition sizeof_XML_Content :: size_t where
  "sizeof_XML_Content = 20"

section \<open>The scaffold\<close>

definition INIT_SCAFFOLD_ELEMENTS :: "32 word" where
  "INIT_SCAFFOLD_ELEMENTS = 32"

text \<open>\<open>None\<close> for the new part is the result \<open>-1\<close>: memory was refused.\<close>

definition scaffold_index ::
  "'m XML_Memory_Handling_Suite \<Rightarrow> group_state \<Rightarrow> content_dtd \<Rightarrow> 'm \<Rightarrow> (content_dtd \<times> bool \<times> 'm) option" where
  "scaffold_index ms g dtd m =
     (if scaffIndex dtd = None then
        case new_array ms sizeof_int (groupSize g * sizeof_int) m of
          (None, m) \<Rightarrow> Some (dtd, False, m)
        | (A, m) \<Rightarrow> do {A \<leftarrow> array_put 0 0 A; Some (dtd\<lparr>scaffIndex := A\<rparr>, True, m)}
      else Some (dtd, True, m))"

definition scaffold_room ::
  "'m XML_Memory_Handling_Suite \<Rightarrow> content_dtd \<Rightarrow> 'm \<Rightarrow> content_dtd \<times> bool \<times> 'm" where
  "scaffold_room ms dtd m =
     (if scaffSize dtd \<le> scaffCount dtd then
        if scaffold dtd \<noteq> None then
          case resize_array ms sizeof_CONTENT_SCAFFOLD (scaffold dtd)
              (scaffSize dtd * 2 * sizeof_CONTENT_SCAFFOLD) m of
            (None, m) \<Rightarrow> (dtd, False, m)
          | (A, m) \<Rightarrow> (dtd\<lparr>scaffSize := scaffSize dtd * 2, scaffold := A\<rparr>, True, m)
        else
          case new_array ms sizeof_CONTENT_SCAFFOLD (INIT_SCAFFOLD_ELEMENTS * sizeof_CONTENT_SCAFFOLD) m of
            (None, m) \<Rightarrow> (dtd, False, m)
          | (A, m) \<Rightarrow> (dtd\<lparr>scaffSize := INIT_SCAFFOLD_ELEMENTS, scaffold := A\<rparr>, True, m)
      else (dtd, True, m))"

definition adopt :: "nat \<Rightarrow> nat \<Rightarrow> CONTENT_SCAFFOLD array \<Rightarrow> CONTENT_SCAFFOLD array option" where
  "adopt pidx next A = do {
     parent \<leftarrow> array_at A pidx;
     A \<leftarrow> (if sc_lastchild parent \<noteq> 0
       then array_upd (sc_lastchild parent) (\<lambda>c. c\<lparr>sc_nextsib := next\<rparr>) A else Some A);
     array_upd pidx (\<lambda>p. p\<lparr>
       sc_firstchild := (if sc_childcnt p = 0 then next else sc_firstchild p),
       sc_lastchild := next, sc_childcnt := sc_childcnt p + 1\<rparr>) A
   }"

definition fresh_part :: "CONTENT_SCAFFOLD option \<Rightarrow> CONTENT_SCAFFOLD" where
  "fresh_part old = (case old of
     None \<Rightarrow> \<lparr>sc_type = None, sc_quant = None, sc_name = None, sc_firstchild = 0, sc_lastchild = 0,
              sc_childcnt = 0, sc_nextsib = 0\<rparr>
   | Some p \<Rightarrow> p\<lparr>sc_firstchild := 0, sc_lastchild := 0, sc_childcnt := 0, sc_nextsib := 0\<rparr>)"

definition nextScaffoldPart ::
  "'m XML_Memory_Handling_Suite \<Rightarrow> group_state \<Rightarrow> content_dtd \<Rightarrow> 'm \<Rightarrow>
    (content_dtd \<times> nat option \<times> 'm) option" where
  "nextScaffoldPart ms g dtd m = do {
     (dtd, ok, m) \<leftarrow> scaffold_index ms g dtd m;
     if \<not> ok then Some (dtd, None, m)
     else
       case scaffold_room ms dtd m of
         (dtd, False, m) \<Rightarrow> Some (dtd, None, m)
       | (dtd, True, m) \<Rightarrow> do {
           let next = unat (scaffCount dtd);
           let dtd = dtd\<lparr>scaffCount := scaffCount dtd + 1\<rparr>;
           A \<leftarrow> (if scaffLevel dtd \<noteq> 0 then do {
                pidx \<leftarrow> array_at (scaffIndex dtd) (scaffLevel dtd - 1);
                adopt pidx next (scaffold dtd)
              } else Some (scaffold dtd));
           A \<leftarrow> array_put next (fresh_part (array_at A next)) A;
           Some (dtd\<lparr>scaffold := A\<rparr>, Some next, m)
         }
   }"

section \<open>The model\<close>

text \<open>
  A cell's name is a position among the characters behind the cells, its children the position of
  the first of them. \<open>contpos\<close> and \<open>strpos\<close> are the next free cell and character.
\<close>

record XML_cp =
  cp_type :: XML_Content_Type
  cp_quant :: XML_Content_Quant
  cp_name :: "nat option"
  cp_numchildren :: nat
  cp_children :: "nat option"

record model =
  cells :: "XML_cp option list"
  chars :: "byte option list"
  contpos :: nat
  strpos :: nat

definition put_cell :: "nat \<Rightarrow> XML_cp \<Rightarrow> model \<Rightarrow> model option" where
  "put_cell d c M = (if d < length (cells M) then Some (M\<lparr>cells := (cells M)[d := Some c]\<rparr>) else None)"

fun copy_name :: "byte list \<Rightarrow> model \<Rightarrow> model option" where
  "copy_name [] M = None"
| "copy_name (c # s) M =
     (if strpos M < length (chars M) then
        let M = M\<lparr>chars := (chars M)[strpos M := Some c], strpos := strpos M + 1\<rparr>
        in if c = 0 then Some M else copy_name s M
      else None)"

text \<open>The recursion of \<open>build_node\<close> and the loop over the children of a part, with a bound on the
  number of calls.\<close>

fun build_node :: "nat \<Rightarrow> CONTENT_SCAFFOLD array \<Rightarrow> nat \<Rightarrow> nat \<Rightarrow> model \<Rightarrow> model option"
  and build_children :: "nat \<Rightarrow> CONTENT_SCAFFOLD array \<Rightarrow> nat \<Rightarrow> nat \<Rightarrow> nat \<Rightarrow> model \<Rightarrow> model option" where
  "build_node 0 A src dest M = None"
| "build_node (Suc n) A src dest M = do {
     p \<leftarrow> array_at A src;
     ty \<leftarrow> sc_type p;
     q \<leftarrow> sc_quant p;
     if ty = XML_CTYPE_NAME then do {
       M \<leftarrow> put_cell dest \<lparr>cp_type = ty, cp_quant = q, cp_name = Some (strpos M), cp_numchildren = 0,
              cp_children = None\<rparr> M;
       s \<leftarrow> sc_name p;
       copy_name s M
     }
     else do {
       let pos = contpos M;
       M \<leftarrow> put_cell dest \<lparr>cp_type = ty, cp_quant = q, cp_name = None, cp_numchildren = sc_childcnt p,
              cp_children = Some pos\<rparr> (M\<lparr>contpos := pos + sc_childcnt p\<rparr>);
       build_children n A (sc_childcnt p) (sc_firstchild p) pos M
     }
   }"
| "build_children n A 0 cn dest M = Some M"
| "build_children 0 A (Suc k) cn dest M = None"
| "build_children (Suc n) A (Suc k) cn dest M = do {
     M \<leftarrow> build_node n A cn dest M;
     p \<leftarrow> array_at A cn;
     build_children n A k (sc_nextsib p) (dest + 1) M
   }"

definition build_model ::
  "'m XML_Memory_Handling_Suite \<Rightarrow> content_dtd \<Rightarrow> 'm \<Rightarrow> (model option \<times> 'm) option" where
  "build_model ms dtd m =
     (let allocsize = scaffCount dtd * sizeof_XML_Content + contentStringLen dtd
      in case malloc_fcn ms allocsize m of
           (None, m) \<Rightarrow> Some (None, m)
         | (Some a, m) \<Rightarrow>
             if unat (scaffCount dtd) * unat sizeof_XML_Content \<le> unat allocsize then do {
               M \<leftarrow> build_node (2 * unat (scaffCount dtd)) (scaffold dtd) 0 0
                 \<lparr>cells = replicate (unat (scaffCount dtd)) None,
                  chars = replicate (unat allocsize - unat (scaffCount dtd) * unat sizeof_XML_Content) None,
                  contpos = 1, strpos = 0\<rparr>;
               Some (Some M, m)
             }
             else None)"

section \<open>The roles of a content model\<close>

text \<open>
  The cases of \<open>doProlog\<close>. \<open>hasHandler\<close> says whether an element declaration handler is set, \<open>lv\<close> is
  \<open>prologState.level\<close> after the token. The result is an error, or the model that is passed to the
  handler.
\<close>

type_synonym 'm content_result = "(group_state \<times> content_dtd \<times> XML_Error \<times> model option \<times> 'm) option"

definition role_ELEMENT_NAME :: "bool \<Rightarrow> content_dtd \<Rightarrow> content_dtd" where
  "role_ELEMENT_NAME hasHandler dtd =
     (if hasHandler then dtd\<lparr>scaffLevel := 0, scaffCount := 0, in_eldecl := True\<rparr> else dtd)"

definition grow_groups ::
  "'m XML_Memory_Handling_Suite \<Rightarrow> group_state \<Rightarrow> content_dtd \<Rightarrow> 'm \<Rightarrow> group_state \<times> content_dtd \<times> bool \<times> 'm" where
  "grow_groups ms g dtd m =
     (if groupSize g \<noteq> 0 then
        let g = g\<lparr>groupSize := groupSize g * 2\<rparr>
        in case resize_array ms sizeof_char (groupConnector g) (groupSize g) m of
             (None, m) \<Rightarrow> (g, dtd, False, m)
           | (A, m) \<Rightarrow>
               let g = g\<lparr>groupConnector := A\<rparr>
               in if scaffIndex dtd \<noteq> None then
                    case resize_array ms sizeof_int (scaffIndex dtd) (groupSize g * sizeof_int) m of
                      (None, m) \<Rightarrow> (g, dtd, False, m)
                    | (A, m) \<Rightarrow> (g, dtd\<lparr>scaffIndex := A\<rparr>, True, m)
                  else (g, dtd, True, m)
      else
        case new_array ms sizeof_char 32 m of
          (A, m) \<Rightarrow> (g\<lparr>groupSize := 32, groupConnector := A\<rparr>, dtd, A \<noteq> None, m))"

definition enter_group ::
  "'m XML_Memory_Handling_Suite \<Rightarrow> 32 word \<Rightarrow> group_state \<Rightarrow> content_dtd \<Rightarrow> 'm \<Rightarrow> 'm content_result" where
  "enter_group ms lv g dtd m = do {
     C \<leftarrow> array_put (unat lv) 0 (groupConnector g);
     let g = g\<lparr>groupConnector := C\<rparr>;
     if in_eldecl dtd then do {
       (dtd, r, m) \<leftarrow> nextScaffoldPart ms g dtd m;
       case r of
         None \<Rightarrow> Some (g, dtd, XML_ERROR_NO_MEMORY, None, m)
       | Some myindex \<Rightarrow> do {
           I \<leftarrow> array_put (scaffLevel dtd) myindex (scaffIndex dtd);
           A \<leftarrow> array_upd myindex (\<lambda>p. p\<lparr>sc_type := Some XML_CTYPE_SEQ\<rparr>) (scaffold dtd);
           Some (g, dtd\<lparr>scaffIndex := I, scaffLevel := scaffLevel dtd + 1, scaffold := A\<rparr>,
                 XML_ERROR_NONE, None, m)
         }
     }
     else Some (g, dtd, XML_ERROR_NONE, None, m)
   }"

definition role_GROUP_OPEN ::
  "'m XML_Memory_Handling_Suite \<Rightarrow> 32 word \<Rightarrow> group_state \<Rightarrow> content_dtd \<Rightarrow> 'm \<Rightarrow> 'm content_result" where
  "role_GROUP_OPEN ms lv g dtd m =
     (case (if groupSize g \<le> lv then grow_groups ms g dtd m else (g, dtd, True, m)) of
        (g, dtd, False, m) \<Rightarrow> Some (g, dtd, XML_ERROR_NO_MEMORY, None, m)
      | (g, dtd, True, m) \<Rightarrow> enter_group ms lv g dtd m)"

abbreviation (input) ASCII_PIPE :: byte where "ASCII_PIPE \<equiv> 0x7C"
abbreviation (input) ASCII_COMMA :: byte where "ASCII_COMMA \<equiv> 0x2C"

definition role_GROUP_SEQUENCE :: "32 word \<Rightarrow> group_state \<Rightarrow> content_dtd \<Rightarrow> 'm \<Rightarrow> 'm content_result" where
  "role_GROUP_SEQUENCE lv g dtd m = do {
     c \<leftarrow> array_at (groupConnector g) (unat lv);
     if c = ASCII_PIPE then Some (g, dtd, XML_ERROR_SYNTAX, None, m)
     else do {
       C \<leftarrow> array_put (unat lv) ASCII_COMMA (groupConnector g);
       Some (g\<lparr>groupConnector := C\<rparr>, dtd, XML_ERROR_NONE, None, m)
     }
   }"

text \<open>The part of the innermost open group.\<close>

definition open_part :: "content_dtd \<Rightarrow> nat option" where
  "open_part dtd = (if scaffLevel dtd = 0 then None else array_at (scaffIndex dtd) (scaffLevel dtd - 1))"

definition role_GROUP_CHOICE :: "32 word \<Rightarrow> group_state \<Rightarrow> content_dtd \<Rightarrow> 'm \<Rightarrow> 'm content_result" where
  "role_GROUP_CHOICE lv g dtd m = do {
     c \<leftarrow> array_at (groupConnector g) (unat lv);
     if c = ASCII_COMMA then Some (g, dtd, XML_ERROR_SYNTAX, None, m)
     else do {
       dtd \<leftarrow> (if in_eldecl dtd \<and> c = 0 then do {
           i \<leftarrow> open_part dtd;
           p \<leftarrow> array_at (scaffold dtd) i;
           ty \<leftarrow> sc_type p;
           if ty \<noteq> XML_CTYPE_MIXED then do {
             A \<leftarrow> array_upd i (\<lambda>p. p\<lparr>sc_type := Some XML_CTYPE_CHOICE\<rparr>) (scaffold dtd);
             Some (dtd\<lparr>scaffold := A\<rparr>)
           } else Some dtd
         } else Some dtd);
       C \<leftarrow> array_put (unat lv) ASCII_PIPE (groupConnector g);
       Some (g\<lparr>groupConnector := C\<rparr>, dtd, XML_ERROR_NONE, None, m)
     }
   }"

definition role_CONTENT_PCDATA :: "group_state \<Rightarrow> content_dtd \<Rightarrow> 'm \<Rightarrow> 'm content_result" where
  "role_CONTENT_PCDATA g dtd m =
     (if in_eldecl dtd then do {
        i \<leftarrow> open_part dtd;
        A \<leftarrow> array_upd i (\<lambda>p. p\<lparr>sc_type := Some XML_CTYPE_MIXED\<rparr>) (scaffold dtd);
        Some (g, dtd\<lparr>scaffold := A\<rparr>, XML_ERROR_NONE, None, m)
      }
      else Some (g, dtd, XML_ERROR_NONE, None, m))"

text \<open>\<open>nm\<close> is the name of the element type that \<open>getElementType\<close> returned, \<open>None\<close> if it returned
  \<open>NULL\<close>. Its length counts the terminator.\<close>

fun name_length :: "byte list \<Rightarrow> nat option" where
  "name_length [] = None"
| "name_length (c # s) = (if c = 0 then Some 1 else map_option Suc (name_length s))"

definition role_CONTENT_ELEMENT ::
  "'m XML_Memory_Handling_Suite \<Rightarrow> XML_Content_Quant \<Rightarrow> byte list option \<Rightarrow> group_state \<Rightarrow> content_dtd \<Rightarrow> 'm \<Rightarrow>
    'm content_result" where
  "role_CONTENT_ELEMENT ms quant nm g dtd m =
     (if in_eldecl dtd then do {
        (dtd, r, m) \<leftarrow> nextScaffoldPart ms g dtd m;
        case r of
          None \<Rightarrow> Some (g, dtd, XML_ERROR_NO_MEMORY, None, m)
        | Some myindex \<Rightarrow> do {
            A \<leftarrow> array_upd myindex (\<lambda>p. p\<lparr>sc_type := Some XML_CTYPE_NAME, sc_quant := Some quant\<rparr>)
              (scaffold dtd);
            let dtd = dtd\<lparr>scaffold := A\<rparr>;
            case nm of
              None \<Rightarrow> Some (g, dtd, XML_ERROR_NO_MEMORY, None, m)
            | Some s \<Rightarrow> do {
                A \<leftarrow> array_upd myindex (\<lambda>p. p\<lparr>sc_name := Some s\<rparr>) (scaffold dtd);
                nameLen \<leftarrow> name_length s;
                Some (g, dtd\<lparr>scaffold := A, contentStringLen := contentStringLen dtd + of_nat nameLen\<rparr>,
                      XML_ERROR_NONE, None, m)
              }
          }
      }
      else Some (g, dtd, XML_ERROR_NONE, None, m))"

definition role_GROUP_CLOSE ::
  "'m XML_Memory_Handling_Suite \<Rightarrow> bool \<Rightarrow> XML_Content_Quant \<Rightarrow> group_state \<Rightarrow> content_dtd \<Rightarrow> 'm \<Rightarrow>
    'm content_result" where
  "role_GROUP_CLOSE ms hasHandler quant g dtd m =
     (if in_eldecl dtd then do {
        i \<leftarrow> open_part dtd;
        A \<leftarrow> array_upd i (\<lambda>p. p\<lparr>sc_quant := Some quant\<rparr>) (scaffold dtd);
        let dtd = dtd\<lparr>scaffLevel := scaffLevel dtd - 1, scaffold := A\<rparr>;
        if scaffLevel dtd = 0 then do {
          (r, m) \<leftarrow> (if hasHandler then build_model ms dtd m else Some (None, m));
          if hasHandler \<and> r = None then Some (g, dtd, XML_ERROR_NO_MEMORY, None, m)
          else Some (g, dtd\<lparr>in_eldecl := False, contentStringLen := 0\<rparr>, XML_ERROR_NONE, r, m)
        }
        else Some (g, dtd, XML_ERROR_NONE, None, m)
      }
      else Some (g, dtd, XML_ERROR_NONE, None, m))"

definition role_CONTENT_ANY_EMPTY ::
  "'m XML_Memory_Handling_Suite \<Rightarrow> bool \<Rightarrow> XML_Content_Type \<Rightarrow> group_state \<Rightarrow> content_dtd \<Rightarrow> 'm \<Rightarrow>
    'm content_result" where
  "role_CONTENT_ANY_EMPTY ms hasHandler ty g dtd m =
     (if in_eldecl dtd then
        if hasHandler then
          case malloc_fcn ms sizeof_XML_Content m of
            (None, m) \<Rightarrow> Some (g, dtd, XML_ERROR_NO_MEMORY, None, m)
          | (Some a, m) \<Rightarrow>
              Some (g, dtd\<lparr>in_eldecl := False\<rparr>, XML_ERROR_NONE,
                Some \<lparr>cells = [Some \<lparr>cp_type = ty, cp_quant = XML_CQUANT_NONE, cp_name = None,
                        cp_numchildren = 0, cp_children = None\<rparr>],
                      chars = [], contpos = 1, strpos = 0\<rparr>, m)
        else Some (g, dtd\<lparr>in_eldecl := False\<rparr>, XML_ERROR_NONE, None, m)
      else Some (g, dtd, XML_ERROR_NONE, None, m))"

text \<open>The switch of \<open>doProlog\<close> on the roles of a content model.\<close>

definition content_role ::
  "'m XML_Memory_Handling_Suite \<Rightarrow> bool \<Rightarrow> int \<Rightarrow> 32 word \<Rightarrow> byte list option \<Rightarrow> group_state \<Rightarrow> content_dtd \<Rightarrow> 'm \<Rightarrow>
    'm content_result" where
  "content_role ms hasHandler role lv nm g dtd m =
     (if role = XML_ROLE_GROUP_OPEN then role_GROUP_OPEN ms lv g dtd m
      else if role = XML_ROLE_GROUP_SEQUENCE then role_GROUP_SEQUENCE lv g dtd m
      else if role = XML_ROLE_GROUP_CHOICE then role_GROUP_CHOICE lv g dtd m
      else if role = XML_ROLE_CONTENT_ANY then role_CONTENT_ANY_EMPTY ms hasHandler XML_CTYPE_ANY g dtd m
      else if role = XML_ROLE_CONTENT_EMPTY then role_CONTENT_ANY_EMPTY ms hasHandler XML_CTYPE_EMPTY g dtd m
      else if role = XML_ROLE_CONTENT_PCDATA then role_CONTENT_PCDATA g dtd m
      else if role = XML_ROLE_CONTENT_ELEMENT then role_CONTENT_ELEMENT ms XML_CQUANT_NONE nm g dtd m
      else if role = XML_ROLE_CONTENT_ELEMENT_OPT then role_CONTENT_ELEMENT ms XML_CQUANT_OPT nm g dtd m
      else if role = XML_ROLE_CONTENT_ELEMENT_REP then role_CONTENT_ELEMENT ms XML_CQUANT_REP nm g dtd m
      else if role = XML_ROLE_CONTENT_ELEMENT_PLUS then role_CONTENT_ELEMENT ms XML_CQUANT_PLUS nm g dtd m
      else if role = XML_ROLE_GROUP_CLOSE then role_GROUP_CLOSE ms hasHandler XML_CQUANT_NONE g dtd m
      else if role = XML_ROLE_GROUP_CLOSE_OPT then role_GROUP_CLOSE ms hasHandler XML_CQUANT_OPT g dtd m
      else if role = XML_ROLE_GROUP_CLOSE_REP then role_GROUP_CLOSE ms hasHandler XML_CQUANT_REP g dtd m
      else if role = XML_ROLE_GROUP_CLOSE_PLUS then role_GROUP_CLOSE ms hasHandler XML_CQUANT_PLUS g dtd m
      else Some (g, dtd, XML_ERROR_NONE, None, m))"

end
