(* ===== verification/Xml_Content_Props.thy ===== *)
theory Xml_Content_Props
  imports Xml_Content
begin

text \<open>
  A content model that is read role by role ends as the tree of \<open>XML_Content\<close> cells it describes.
  First the scaffold as a list: reading a part and everything in it appends its parts in preorder
  and links it to its parent. Then \<open>build_model\<close> copies such a scaffold without leaving the block
  it allocated.
\<close>

section \<open>Content models\<close>

datatype kind = K_seq | K_choice | K_mixed

datatype ctree = Leaf XML_Content_Quant "byte list" | Node kind "ctree list" XML_Content_Quant

fun leaf_role :: "XML_Content_Quant \<Rightarrow> int" where
  "leaf_role XML_CQUANT_NONE = XML_ROLE_CONTENT_ELEMENT"
| "leaf_role XML_CQUANT_OPT = XML_ROLE_CONTENT_ELEMENT_OPT"
| "leaf_role XML_CQUANT_REP = XML_ROLE_CONTENT_ELEMENT_REP"
| "leaf_role XML_CQUANT_PLUS = XML_ROLE_CONTENT_ELEMENT_PLUS"

fun node_role :: "XML_Content_Quant \<Rightarrow> int" where
  "node_role XML_CQUANT_NONE = XML_ROLE_GROUP_CLOSE"
| "node_role XML_CQUANT_OPT = XML_ROLE_GROUP_CLOSE_OPT"
| "node_role XML_CQUANT_REP = XML_ROLE_GROUP_CLOSE_REP"
| "node_role XML_CQUANT_PLUS = XML_ROLE_GROUP_CLOSE_PLUS"

text \<open>A role, \<open>prologState.level\<close> after it, and the name that goes with it.\<close>

type_synonym event = "int \<times> nat \<times> byte list option"

text \<open>The roles before a member of a group, the first one or a later one.\<close>

fun before_member :: "kind \<Rightarrow> bool \<Rightarrow> nat \<Rightarrow> event list" where
  "before_member K_mixed init d = [(XML_ROLE_ELEMENT_NONE, d, None)]"
| "before_member K_seq init d = (if init then [] else [(XML_ROLE_GROUP_SEQUENCE, d, None)])"
| "before_member K_choice init d = (if init then [] else [(XML_ROLE_GROUP_CHOICE, d, None)])"

fun opener :: "kind \<Rightarrow> nat \<Rightarrow> event list" where
  "opener K_mixed d = [(XML_ROLE_CONTENT_PCDATA, d, None)]"
| "opener _ d = []"

fun events :: "nat \<Rightarrow> ctree \<Rightarrow> event list"
  and member_events :: "nat \<Rightarrow> kind \<Rightarrow> bool \<Rightarrow> ctree list \<Rightarrow> event list" where
  "events d (Leaf q s) = [(leaf_role q, d, Some (s @ [0]))]"
| "events d (Node k cs q) = (XML_ROLE_GROUP_OPEN, Suc d, None) # opener k (Suc d) @
     member_events (Suc d) k True cs @ [(node_role q, (if k = K_mixed then Suc d else d), None)]"
| "member_events d k init [] = []"
| "member_events d k init (c # cs) = before_member k init d @ events d c @ member_events d k False cs"

fun tree_ok :: "ctree \<Rightarrow> bool" where
  "tree_ok (Leaf q s) = (0 \<notin> set s)"
| "tree_ok (Node k cs q) = ((k = K_mixed \<or> cs \<noteq> []) \<and> list_all tree_ok cs)"

text \<open>The tree as the handler sees it.\<close>

datatype content = Content XML_Content_Type XML_Content_Quant "byte list option" "content list"

fun kind_type :: "kind \<Rightarrow> nat \<Rightarrow> XML_Content_Type" where
  "kind_type K_seq n = XML_CTYPE_SEQ"
| "kind_type K_choice n = (if n < 2 then XML_CTYPE_SEQ else XML_CTYPE_CHOICE)"
| "kind_type K_mixed n = XML_CTYPE_MIXED"

fun content_of :: "ctree \<Rightarrow> content" where
  "content_of (Leaf q s) = Content XML_CTYPE_NAME q (Some s) []"
| "content_of (Node k cs q) = Content (kind_type k (length cs)) q None (map content_of cs)"

fun parts :: "ctree \<Rightarrow> nat" where
  "parts (Leaf q s) = 1"
| "parts (Node k cs q) = Suc (sum_list (map parts cs))"

fun name_chars :: "ctree \<Rightarrow> nat" where
  "name_chars (Leaf q s) = Suc (length s)"
| "name_chars (Node k cs q) = sum_list (map name_chars cs)"

lemma parts_pos [simp]: "0 < parts t" "parts t \<noteq> 0"
  by (cases t; simp)+

section \<open>Arrays\<close>

text \<open>An array of which the elements \<open>ns\<close> have been written, \<open>zs\<close> being the rest.\<close>

definition filled :: "'e array \<Rightarrow> 'e list \<Rightarrow> 'e option list \<Rightarrow> bool" where
  "filled A ns zs \<longleftrightarrow> map_option snd A = Some (map Some ns @ zs)"

lemma filledE:
  assumes "filled A ns zs"
  obtains a where "A = Some (a, map Some ns @ zs)"
  using assms by (auto simp: filled_def)

lemma array_at_Some [simp]: "array_at (Some (a, xs)) i = (if i < length xs then xs ! i else None)"
  by (simp add: array_at_def)

lemma array_put_Some [simp]:
  "array_put i x (Some (a, xs)) = (if i < length xs then Some (Some (a, xs[i := Some x])) else None)"
  by (simp add: array_put_def)

lemma filled_at: "filled A ns zs \<Longrightarrow> i < length ns \<Longrightarrow> array_at A i = Some (ns ! i)"
  by (erule filledE) (simp add: nth_append)

lemma filled_put: "filled A ns zs \<Longrightarrow> i < length ns \<Longrightarrow> \<exists>B. array_put i x A = Some B \<and> filled B (ns[i := x]) zs"
  by (erule filledE) (simp add: filled_def list_update_append map_update)

lemma filled_push: "filled A ns (z # zs) \<Longrightarrow> \<exists>B. array_put (length ns) x A = Some B \<and> filled B (ns @ [x]) zs"
  by (erule filledE) (simp add: filled_def list_update_append)

lemma filled_upd:
  assumes "filled A ns zs" "i < length ns"
  shows "\<exists>B. array_upd i f A = Some B \<and> filled B (ns[i := f (ns ! i)]) zs"
  using filled_put [OF assms, of "f (ns ! i)"] filled_at [OF assms] by (simp add: array_upd_def)

lemma filled_pop: "filled A (ns @ [x]) zs \<Longrightarrow> filled A ns (Some x # zs)"
  by (simp add: filled_def)

lemma filled_None [simp]: "\<not> filled None ns zs"
  by (simp add: filled_def)

lemma filled_not_None: "filled A ns zs \<Longrightarrow> A \<noteq> None"
  by (auto simp: filled_def)

lemma new_array_filled:
  assumes "new_array ms sz n m = (A, m')" "A \<noteq> None"
  shows "filled A [] (replicate (unat n div unat sz) None)"
  using assms by (auto simp: new_array_def filled_def split: prod.splits option.splits)

lemma resize_array_filled:
  assumes "resize_array ms sz A n m = (B, m')" "B \<noteq> None" "filled A ns zs"
    and "length ns \<le> unat n div unat sz"
  shows "filled B ns (take (unat n div unat sz - length ns) zs @
    replicate (unat n div unat sz - (length ns + length zs)) None)"
  using assms by (auto simp: resize_array_def filled_def Let_def split: prod.splits option.splits)

text \<open>An allocator that refuses some request.\<close>

definition refuses :: "'m XML_Memory_Handling_Suite \<Rightarrow> bool" where
  "refuses ms \<longleftrightarrow> (\<exists>n m. fst (malloc_fcn ms n m) = None) \<or> (\<exists>p n m. fst (realloc_fcn ms p n m) = None)"

lemma malloc_refused: "malloc_fcn ms n m = (None, m') \<Longrightarrow> refuses ms"
  unfolding refuses_def by (metis fst_conv)

lemma realloc_refused: "realloc_fcn ms p n m = (None, m') \<Longrightarrow> refuses ms"
  unfolding refuses_def by (metis fst_conv)

lemma new_array_refused: "new_array ms sz n m = (None, m') \<Longrightarrow> refuses ms"
  by (auto simp: new_array_def split: prod.splits option.splits dest: malloc_refused)

lemma resize_array_refused: "resize_array ms sz A n m = (None, m') \<Longrightarrow> refuses ms"
  by (auto simp: resize_array_def Let_def split: prod.splits option.splits dest: realloc_refused)

lemma unat_times: "unat x * unat y < 2 ^ 32 \<Longrightarrow> unat (x * y) = unat x * unat (y :: 32 word)"
  using unat_mult_lem [of x y] by simp

lemma unat_Suc_lt: "x < y \<Longrightarrow> unat (x + 1) = Suc (unat (x :: 32 word))"
  using unsigned_less [of y, where ?'a = nat] unat_add_lem [of x 1] by (simp add: word_less_nat_alt)

section \<open>The scaffold as a list\<close>

definition adopted :: "nat \<Rightarrow> nat \<Rightarrow> CONTENT_SCAFFOLD list \<Rightarrow> CONTENT_SCAFFOLD list" where
  "adopted pidx nx ns =
     (let p = ns ! pidx; l = sc_lastchild p;
          ns = (if l \<noteq> 0 then ns[l := (ns ! l)\<lparr>sc_nextsib := nx\<rparr>] else ns); p = ns ! pidx
      in ns[pidx := p\<lparr>sc_firstchild := (if sc_childcnt p = 0 then nx else sc_firstchild p),
                     sc_lastchild := nx, sc_childcnt := sc_childcnt p + 1\<rparr>])"

lemma adopt_filled:
  assumes "filled A ns zs" "pidx < length ns" "sc_lastchild (ns ! pidx) < length ns"
  shows "\<exists>B. adopt pidx nx A = Some B \<and> filled B (adopted pidx nx ns) zs"
proof -
  let ?l = "sc_lastchild (ns ! pidx)"
  let ?ms = "if ?l \<noteq> 0 then ns[?l := (ns ! ?l)\<lparr>sc_nextsib := nx\<rparr>] else ns"
  have "\<exists>B. (if ?l \<noteq> 0 then array_upd ?l (\<lambda>c. c\<lparr>sc_nextsib := nx\<rparr>) A else Some A) = Some B \<and> filled B ?ms zs"
    using filled_upd [OF assms(1,3)] assms(1) by auto
  then obtain B where B: "(if ?l \<noteq> 0 then array_upd ?l (\<lambda>c. c\<lparr>sc_nextsib := nx\<rparr>) A else Some A) = Some B"
      "filled B ?ms zs" by blast
  define f where "f p = p\<lparr>sc_firstchild := (if sc_childcnt p = 0 then nx else sc_firstchild p),
       sc_lastchild := nx, sc_childcnt := sc_childcnt p + 1\<rparr>" for p :: CONTENT_SCAFFOLD
  have "pidx < length ?ms" using assms(2) by simp
  from filled_upd [OF B(2) this, of f] obtain C where C: "array_upd pidx f B = Some C"
    "filled C (?ms[pidx := f (?ms ! pidx)]) zs" by blast
  have "adopt pidx nx A = array_upd pidx f B"
    using B(1) filled_at [OF assms(1,2)] by (simp add: adopt_def f_def [abs_def])
  moreover have "adopted pidx nx ns = ?ms[pidx := f (?ms ! pidx)]"
    by (simp add: adopted_def Let_def f_def)
  ultimately show ?thesis using C by simp
qed

lemma length_adopted [simp]: "length (adopted pidx nx ns) = length ns"
  by (simp add: adopted_def Let_def)

lemma adopted_nth:
  assumes "i < length ns"
  shows "adopted p nx ns ! i =
    (let x = ns ! i; x = (if sc_lastchild (ns ! p) = i \<and> i \<noteq> 0 then x\<lparr>sc_nextsib := nx\<rparr> else x)
     in if i = p then x\<lparr>sc_firstchild := (if sc_childcnt x = 0 then nx else sc_firstchild x),
                     sc_lastchild := nx, sc_childcnt := sc_childcnt x + 1\<rparr> else x)"
  using assms by (cases "i = p") (simp_all add: adopted_def Let_def nth_list_update)

section \<open>The state of a declaration\<close>

text \<open>
  \<open>building g dtd ns is cs k\<close>: the parts \<open>ns\<close> have been read, with \<open>k\<close> characters of names, the
  groups \<open>is\<close> are open with the connectors \<open>cs\<close>. The bounds keep every size computation below 2^32.
\<close>

definition max_parts :: nat where
  "max_parts = 2 ^ 26"

definition scaffold_ok :: "content_dtd \<Rightarrow> CONTENT_SCAFFOLD list \<Rightarrow> bool" where
  "scaffold_ok dtd ns \<longleftrightarrow>
     unat (scaffCount dtd) = length ns \<and> unat (scaffSize dtd) \<le> 2 * max_parts \<and>
     (if scaffold dtd = None then ns = [] \<and> scaffSize dtd = 0
      else 0 < scaffSize dtd \<and>
        (\<exists>zs. filled (scaffold dtd) ns zs \<and> length ns + length zs = unat (scaffSize dtd)))"

definition index_ok :: "group_state \<Rightarrow> content_dtd \<Rightarrow> nat list \<Rightarrow> bool" where
  "index_ok g dtd is \<longleftrightarrow>
     scaffLevel dtd = length is \<and>
     (if scaffIndex dtd = None then is = []
      else \<exists>zs. filled (scaffIndex dtd) is zs \<and> max 32 (unat (groupSize g)) \<le> length is + length zs)"

definition groups_ok :: "group_state \<Rightarrow> byte list \<Rightarrow> bool" where
  "groups_ok g cs \<longleftrightarrow>
     unat (groupSize g) \<le> 2 * max_parts \<and>
     (if groupSize g = 0 then cs = []
      else 32 \<le> groupSize g \<and>
        (\<exists>a x zs. groupConnector g = Some (a, x # map Some cs @ zs) \<and>
          Suc (length cs + length zs) = unat (groupSize g)))"

definition building ::
  "group_state \<Rightarrow> content_dtd \<Rightarrow> CONTENT_SCAFFOLD list \<Rightarrow> nat list \<Rightarrow> byte list \<Rightarrow> nat \<Rightarrow> bool" where
  "building g dtd ns is cs k \<longleftrightarrow>
     in_eldecl dtd \<and> scaffold_ok dtd ns \<and> index_ok g dtd is \<and> groups_ok g cs \<and>
     unat (contentStringLen dtd) = k \<and> length is \<le> length ns \<and>
     (\<forall>i \<in> set is. i < length ns \<and> sc_lastchild (ns ! i) < length ns)"

lemma scaffold_ok_frame [simp]:
  "scaffold_ok (dtd\<lparr>scaffIndex := I\<rparr>) ns = scaffold_ok dtd ns"
  "scaffold_ok (dtd\<lparr>scaffLevel := l\<rparr>) ns = scaffold_ok dtd ns"
  "scaffold_ok (dtd\<lparr>contentStringLen := w\<rparr>) ns = scaffold_ok dtd ns"
  "scaffold_ok (dtd\<lparr>in_eldecl := b\<rparr>) ns = scaffold_ok dtd ns"
  by (simp_all add: scaffold_ok_def)

lemma index_ok_frame [simp]:
  "index_ok g (dtd\<lparr>scaffold := A\<rparr>) is = index_ok g dtd is"
  "index_ok g (dtd\<lparr>scaffSize := w\<rparr>) is = index_ok g dtd is"
  "index_ok g (dtd\<lparr>scaffCount := w\<rparr>) is = index_ok g dtd is"
  "index_ok g (dtd\<lparr>contentStringLen := w\<rparr>) is = index_ok g dtd is"
  "index_ok g (dtd\<lparr>in_eldecl := b\<rparr>) is = index_ok g dtd is"
  "index_ok (g\<lparr>groupConnector := C\<rparr>) dtd is = index_ok g dtd is"
  by (simp_all add: index_ok_def)

lemma scaffold_room_ok:
  assumes "scaffold_ok dtd ns" "length ns < max_parts" "scaffold_room ms dtd m = (dtd', True, m')"
  shows "\<exists>z A. dtd' = dtd\<lparr>scaffSize := z, scaffold := A\<rparr> \<and> scaffold_ok dtd' ns \<and> scaffCount dtd' < scaffSize dtd'"
proof (cases "scaffSize dtd \<le> scaffCount dtd")
  case False
  then have "dtd' = dtd\<lparr>scaffSize := scaffSize dtd, scaffold := scaffold dtd\<rparr>" "dtd' = dtd"
    using assms by (simp_all add: scaffold_room_def)
  then show ?thesis using False assms(1) by (metis not_less)
next
  case full: True
  then have le: "unat (scaffSize dtd) \<le> length ns"
    using assms(1) by (simp add: scaffold_ok_def word_le_nat_alt)
  show ?thesis
  proof (cases "scaffold dtd = None")
    case True
    then obtain A where A: "new_array ms sizeof_CONTENT_SCAFFOLD (INIT_SCAFFOLD_ELEMENTS * sizeof_CONTENT_SCAFFOLD) m
        = (A, m')" "A \<noteq> None" "dtd' = dtd\<lparr>scaffSize := INIT_SCAFFOLD_ELEMENTS, scaffold := A\<rparr>"
      using full assms(3) by (auto simp: scaffold_room_def split: prod.splits option.splits)
    from new_array_filled [OF A(1,2)] have "filled A [] (replicate 32 None)"
      by (simp add: INIT_SCAFFOLD_ELEMENTS_def sizeof_CONTENT_SCAFFOLD_def)
    then show ?thesis using True assms(1) A(2,3)
      by (auto simp: scaffold_ok_def INIT_SCAFFOLD_ELEMENTS_def max_parts_def word_less_nat_alt)
  next
    case False
    then obtain A where A: "resize_array ms sizeof_CONTENT_SCAFFOLD (scaffold dtd)
          (scaffSize dtd * 2 * sizeof_CONTENT_SCAFFOLD) m = (A, m')" "A \<noteq> None"
        "dtd' = dtd\<lparr>scaffSize := scaffSize dtd * 2, scaffold := A\<rparr>"
      using full assms(3) by (auto simp: scaffold_room_def split: prod.splits option.splits)
    have small: "unat (scaffSize dtd) < max_parts" using le assms(2) by simp
    have dbl: "unat (scaffSize dtd * 2) = 2 * unat (scaffSize dtd)"
      using small unat_times [of "scaffSize dtd" 2] by (simp add: max_parts_def)
    have sz: "unat (scaffSize dtd * 2 * sizeof_CONTENT_SCAFFOLD) = 56 * unat (scaffSize dtd)"
      using small unat_times [of "scaffSize dtd * 2" sizeof_CONTENT_SCAFFOLD]
      by (simp add: dbl sizeof_CONTENT_SCAFFOLD_def max_parts_def)
    from assms(1) False obtain zs where zs: "filled (scaffold dtd) ns zs"
      "length ns + length zs = unat (scaffSize dtd)" "0 < scaffSize dtd" by (auto simp: scaffold_ok_def)
    have "filled A ns (zs @ replicate (unat (scaffSize dtd)) None)"
      using resize_array_filled [OF A(1,2) zs(1)] zs(2) sz by (simp add: sizeof_CONTENT_SCAFFOLD_def)
    then have "\<exists>zs'. filled A ns zs' \<and> length ns + length zs' = 2 * unat (scaffSize dtd)"
      using zs(2) by (intro exI [of _ "zs @ replicate (unat (scaffSize dtd)) None"]) simp
    then show ?thesis
      using assms(1,2) A(2,3) dbl small zs(2,3) le
      by (auto simp: scaffold_ok_def word_less_nat_alt)
  qed
qed

lemma scaffold_room_refused: "scaffold_room ms dtd m = (dtd', False, m') \<Longrightarrow> refuses ms"
  by (auto simp: scaffold_room_def split: prod.splits option.splits if_splits
      dest: new_array_refused resize_array_refused)

lemma scaffold_index_refused: "scaffold_index ms g dtd m = Some (dtd', False, m') \<Longrightarrow> refuses ms"
  by (auto simp: scaffold_index_def bind_eq_Some_iff split: prod.splits option.splits if_splits
      dest: new_array_refused)

lemma scaffold_index_ok:
  assumes "index_ok g dtd is" "groups_ok g cs" "groupSize g \<noteq> 0"
  shows "\<exists>dtd' ok m'. scaffold_index ms g dtd m = Some (dtd', ok, m') \<and>
    (ok \<longrightarrow> (\<exists>I. I \<noteq> None \<and> dtd' = dtd\<lparr>scaffIndex := I\<rparr> \<and> index_ok g dtd' is))"
proof (cases "scaffIndex dtd")
  case (Some A)
  then have "dtd = dtd\<lparr>scaffIndex := Some A\<rparr>" by simp
  with Some assms(1) have "\<exists>I. I \<noteq> None \<and> dtd = dtd\<lparr>scaffIndex := I\<rparr> \<and> index_ok g dtd is" by blast
  then show ?thesis using Some by (auto simp: scaffold_index_def)
next
  case None
  obtain A :: "nat array" and m' where A: "new_array ms sizeof_int (groupSize g * sizeof_int) m = (A, m')"
    by (metis prod.exhaust)
  show ?thesis
  proof (cases A)
    case None
    with A \<open>scaffIndex dtd = None\<close> show ?thesis by (auto simp: scaffold_index_def)
  next
    case (Some B)
    have G: "32 \<le> unat (groupSize g)" "unat (groupSize g) \<le> 2 * max_parts"
      using assms(2,3) by (auto simp: groups_ok_def word_le_nat_alt)
    then have "unat (groupSize g * sizeof_int) = 4 * unat (groupSize g)"
      using unat_times [of "groupSize g" sizeof_int] by (simp add: sizeof_int_def max_parts_def)
    with new_array_filled [OF A] Some
    have "filled A [] (replicate (unat (groupSize g)) None)" by (simp add: sizeof_int_def)
    moreover obtain n where n: "unat (groupSize g) = Suc n" using G(1) by (cases "unat (groupSize g)") auto
    ultimately have "filled A [] (None # replicate n None)" by simp
    from filled_push [OF this, of 0] obtain C where C: "array_put 0 0 A = Some C" "filled C [0] (replicate n None)"
      by auto
    from filled_pop [of C "[]", simplified, OF C(2)]
    have "index_ok g (dtd\<lparr>scaffIndex := C\<rparr>) is"
      using assms(1) None n G(1) filled_not_None [OF C(2)] by (auto simp: index_ok_def)
    moreover have "C \<noteq> None" using C(2) by (rule filled_not_None)
    ultimately show ?thesis using A C(1) None Some by (auto simp: scaffold_index_def)
  qed
qed

lemma lastchild_adopted:
  "i < length ns \<Longrightarrow> sc_lastchild (adopted p nx ns ! i) \<in> {sc_lastchild (ns ! i), nx}"
  by (simp add: adopted_nth Let_def)

definition blank_part :: "CONTENT_SCAFFOLD \<Rightarrow> bool" where
  "blank_part x \<longleftrightarrow> sc_firstchild x = 0 \<and> sc_lastchild x = 0 \<and> sc_childcnt x = 0 \<and> sc_nextsib x = 0"

lemma blank_fresh_part: "blank_part (fresh_part z)"
  by (simp add: blank_part_def fresh_part_def split: option.splits)

definition linked :: "nat list \<Rightarrow> CONTENT_SCAFFOLD list \<Rightarrow> CONTENT_SCAFFOLD list" where
  "linked is ns = (if is = [] then ns else adopted (last is) (length ns) ns)"

lemma length_linked [simp]: "length (linked is ns) = length ns"
  by (simp add: linked_def)

lemma scaffold_ok_push:
  assumes "scaffold_ok dtd ns" "scaffCount dtd < scaffSize dtd"
    and "is = [] \<or> last is < length ns \<and> sc_lastchild (ns ! last is) < length ns"
  shows "\<exists>A B x. (if is \<noteq> [] then adopt (last is) (length ns) (scaffold dtd) else Some (scaffold dtd)) = Some A \<and>
    array_put (length ns) (fresh_part (array_at A (length ns))) A = Some B \<and> blank_part x \<and>
    scaffold_ok (dtd\<lparr>scaffCount := scaffCount dtd + 1, scaffold := B\<rparr>) (linked is ns @ [x])"
proof -
  from assms(1,2) have sc: "scaffold dtd \<noteq> None" by (auto simp: scaffold_ok_def word_less_nat_alt split: if_split_asm)
  then obtain zs where zs: "filled (scaffold dtd) ns zs" "length ns + length zs = unat (scaffSize dtd)"
    using assms(1) by (auto simp: scaffold_ok_def)
  have "length ns < unat (scaffSize dtd)"
    using assms(1,2) by (simp add: scaffold_ok_def word_less_nat_alt)
  then obtain z zs' where z: "zs = z # zs'" using zs(2) by (cases zs) auto
  have "\<exists>A. (if is \<noteq> [] then adopt (last is) (length ns) (scaffold dtd) else Some (scaffold dtd)) = Some A \<and>
      filled A (linked is ns) zs"
    using assms(3) zs(1) adopt_filled [OF zs(1), of "last is" "length ns"] by (auto simp: linked_def)
  then obtain A where A: "(if is \<noteq> [] then adopt (last is) (length ns) (scaffold dtd) else Some (scaffold dtd)) = Some A"
      "filled A (linked is ns) zs" by blast
  define x where "x = fresh_part (array_at A (length ns))"
  from filled_push [of A "linked is ns" z zs' x] A(2) z obtain B where
    B: "array_put (length ns) x A = Some B" "filled B (linked is ns @ [x]) zs'" by auto
  have "unat (scaffCount dtd + 1) = Suc (length ns)"
    using assms(1,2) unat_Suc_lt [of "scaffCount dtd" "scaffSize dtd"] by (simp add: scaffold_ok_def)
  moreover have "B \<noteq> None" using B(2) by (rule filled_not_None)
  moreover have "\<exists>ws. filled B (linked is ns @ [x]) ws \<and> Suc (length ns + length ws) = unat (scaffSize dtd)"
    using B(2) zs(2) z by auto
  ultimately have "scaffold_ok (dtd\<lparr>scaffCount := scaffCount dtd + 1, scaffold := B\<rparr>) (linked is ns @ [x])"
    using assms(1) sc by (simp add: scaffold_ok_def)
  with A(1) B(1) show ?thesis using blank_fresh_part unfolding x_def by blast
qed

lemma nextScaffoldPart_ok:
  assumes "building g dtd ns is cs k" "length ns < max_parts" "groupSize g \<noteq> 0"
  shows "\<exists>dtd' r m'. nextScaffoldPart ms g dtd m = Some (dtd', r, m') \<and>
    (r = None \<and> refuses ms \<or> r = Some (length ns) \<and> scaffIndex dtd' \<noteq> None \<and>
      (\<exists>x. blank_part x \<and> building g dtd' (linked is ns @ [x]) is cs k))"
proof -
  note b = assms(1) [unfolded building_def]
  from scaffold_index_ok [of g dtd "is" cs ms m] b assms(3) obtain dtd1 ok m1 where
    1: "scaffold_index ms g dtd m = Some (dtd1, ok, m1)"
      "ok \<longrightarrow> (\<exists>I. I \<noteq> None \<and> dtd1 = dtd\<lparr>scaffIndex := I\<rparr> \<and> index_ok g dtd1 is)"
    by blast
  obtain dtd2 ok2 m2 where 2: "scaffold_room ms dtd1 m1 = (dtd2, ok2, m2)" by (metis prod.exhaust)
  show ?thesis
  proof (cases "ok \<and> ok2")
    case False
    then have "refuses ms"
      using scaffold_index_refused [of ms g dtd m] scaffold_room_refused [of ms dtd1 m1] 1(1) 2 by auto
    then show ?thesis using False 1(1) 2 by (cases ok) (simp_all add: nextScaffoldPart_def)
  next
    case True
    then obtain I where I: "I \<noteq> None" "dtd1 = dtd\<lparr>scaffIndex := I\<rparr>" "index_ok g dtd1 is" using 1(2) by blast
    have s1: "scaffold_ok dtd1 ns" using b I(2) by simp
    have room: "scaffold_room ms dtd1 m1 = (dtd2, True, m2)" using 2 True by simp
    from scaffold_room_ok [OF s1 assms(2) room] obtain z A where
      d2: "dtd2 = dtd1\<lparr>scaffSize := z, scaffold := A\<rparr>" "scaffold_ok dtd2 ns" "scaffCount dtd2 < scaffSize dtd2"
      by (elim exE conjE)
    have par: "is = [] \<or> last is < length ns \<and> sc_lastchild (ns ! last is) < length ns"
      using b by (cases "is" rule: rev_cases) auto
    from scaffold_ok_push [OF d2(2,3) par] obtain B C x where
      x: "(if is \<noteq> [] then adopt (last is) (length ns) (scaffold dtd2) else Some (scaffold dtd2)) = Some B"
        "array_put (length ns) (fresh_part (array_at B (length ns))) B = Some C" "blank_part x"
        "scaffold_ok (dtd2\<lparr>scaffCount := scaffCount dtd2 + 1, scaffold := C\<rparr>) (linked is ns @ [x])" by blast
    define dtd3 where "dtd3 = dtd2\<lparr>scaffCount := scaffCount dtd2 + 1, scaffold := C\<rparr>"
    have idx: "index_ok g dtd2 is" using I(3) d2(1) by simp
    have lev: "scaffLevel dtd2 = length is" "unat (scaffCount dtd2) = length ns" "scaffIndex dtd2 = I"
      using idx d2 I(2) by (simp_all add: index_ok_def scaffold_ok_def)
    have top: "is \<noteq> [] \<longrightarrow> array_at I (length is - 1) = Some (last is)"
      using idx lev(3) I(1) filled_at [of I "is" _ "length is - 1"]
      by (auto simp: index_ok_def last_conv_nth)
    have "nextScaffoldPart ms g dtd m = Some (dtd3, Some (length ns), m2)"
      using 1(1) 2 True x(1,2) lev top by (auto simp: nextScaffoldPart_def dtd3_def Let_def split: if_splits)
    moreover have "building g dtd3 (linked is ns @ [x]) is cs k"
    proof -
      have "i < Suc (length ns) \<and> sc_lastchild ((linked is ns @ [x]) ! i) < Suc (length ns)" if "i \<in> set is" for i
        using b that lastchild_adopted [of i ns "last is" "length ns"] by (auto simp: nth_append linked_def)
      then show ?thesis
        using b x(4) idx I(2) d2(1) by (simp add: building_def dtd3_def)
    qed
    ultimately show ?thesis using x(3) I(1) lev(3) by (auto simp: dtd3_def)
  qed
qed

end
