(* ===== verification/Xml_Content_Runs.thy ===== *)
theory Xml_Content_Runs
  imports Xml_Content_Props
begin

text \<open>
  Each role keeps the state of a declaration, and the roles of a whole content model leave a
  scaffold that lists its parts in preorder.
\<close>

section \<open>The roles\<close>

text \<open>A role returns, with the error \<open>XML_ERROR_NO_MEMORY\<close> of a refused allocation or with no error and
  the given property.\<close>

definition ends :: "'m XML_Memory_Handling_Suite \<Rightarrow> 'm content_result \<Rightarrow> (group_state \<Rightarrow> content_dtd \<Rightarrow> model option \<Rightarrow> bool) \<Rightarrow> bool" where
  "ends ms r Q \<longleftrightarrow> (\<exists>g dtd e M m. r = Some (g, dtd, e, M, m) \<and>
     (e = XML_ERROR_NO_MEMORY \<and> refuses ms \<or> e = XML_ERROR_NONE \<and> Q g dtd M))"

lemma ends_Some [simp]:
  "ends ms (Some (g, dtd, e, M, m)) Q \<longleftrightarrow> e = XML_ERROR_NO_MEMORY \<and> refuses ms \<or> e = XML_ERROR_NONE \<and> Q g dtd M"
  by (auto simp: ends_def)

lemma same_index: "\<exists>I. dtd = dtd\<lparr>scaffIndex := I\<rparr>"
  by (rule exI [of _ "scaffIndex dtd"]) simp

lemma scaffold_at:
  assumes "scaffold_ok dtd ns" "i < length ns"
  shows "array_at (scaffold dtd) i = Some (ns ! i)"
proof -
  from assms obtain zs where "filled (scaffold dtd) ns zs" by (auto simp: scaffold_ok_def split: if_split_asm)
  then show ?thesis using assms(2) by (rule filled_at)
qed

lemma scaffold_upd:
  assumes "scaffold_ok dtd ns" "i < length ns"
  shows "\<exists>A. array_upd i f (scaffold dtd) = Some A \<and> scaffold_ok (dtd\<lparr>scaffold := A\<rparr>) (ns[i := f (ns ! i)])"
proof -
  from assms obtain zs where zs: "filled (scaffold dtd) ns zs" "length ns + length zs = unat (scaffSize dtd)"
      "0 < scaffSize dtd" by (auto simp: scaffold_ok_def split: if_split_asm)
  from filled_upd [OF zs(1) assms(2), of f] obtain A where
    A: "array_upd i f (scaffold dtd) = Some A" "filled A (ns[i := f (ns ! i)]) zs" by blast
  then show ?thesis using assms(1) zs(2,3) filled_not_None [OF A(2)] by (auto simp: scaffold_ok_def)
qed

lemma index_push:
  assumes "index_ok g dtd is" "length is < unat (groupSize g)" "scaffIndex dtd \<noteq> None"
  shows "\<exists>I. array_put (length is) i (scaffIndex dtd) = Some I \<and>
    index_ok g (dtd\<lparr>scaffIndex := I, scaffLevel := Suc (length is)\<rparr>) (is @ [i])"
proof -
  from assms obtain zs where zs: "filled (scaffIndex dtd) is zs" "max 32 (unat (groupSize g)) \<le> length is + length zs"
    by (auto simp: index_ok_def)
  with assms(2) obtain z zs' where z: "zs = z # zs'" by (cases zs) auto
  from filled_push [of _ "is" z zs' i] zs(1) z obtain I where
    I: "array_put (length is) i (scaffIndex dtd) = Some I" "filled I (is @ [i]) zs'" by blast
  then show ?thesis using assms(1) zs(2) z filled_not_None [OF I(2)] by (auto simp: index_ok_def)
qed

lemma index_last:
  assumes "index_ok g dtd (is @ [i])"
  shows "open_part dtd = Some i" and "index_ok g (dtd\<lparr>scaffLevel := length is\<rparr>) is"
proof -
  from assms obtain zs where zs: "filled (scaffIndex dtd) (is @ [i]) zs"
      "max 32 (unat (groupSize g)) \<le> Suc (length is) + length zs" "scaffIndex dtd \<noteq> None"
      "scaffLevel dtd = Suc (length is)"
    by (auto simp: index_ok_def split: if_split_asm)
  show "open_part dtd = Some i" using filled_at [OF zs(1), of "length is"] zs(4) by (simp add: open_part_def)
  show "index_ok g (dtd\<lparr>scaffLevel := length is\<rparr>) is"
    using filled_pop [OF zs(1)] zs(2,3) by (auto simp: index_ok_def intro!: exI [of _ "Some i # zs"])
qed

lemma groups_push:
  assumes "groups_ok g cs" "Suc (length cs) < unat (groupSize g)"
  shows "\<exists>C. array_put (Suc (length cs)) c (groupConnector g) = Some C \<and> groups_ok (g\<lparr>groupConnector := C\<rparr>) (cs @ [c])"
proof -
  from assms obtain a x zs where g: "groupConnector g = Some (a, x # map Some cs @ zs)" "32 \<le> groupSize g"
      "Suc (length cs + length zs) = unat (groupSize g)" "groupSize g \<noteq> 0"
    by (auto simp: groups_ok_def split: if_split_asm)
  then obtain z zs' where "zs = z # zs'" using assms(2) by (cases zs) auto
  then show ?thesis using g assms(1) by (auto simp: groups_ok_def list_update_append)
qed

lemma groups_last:
  assumes "groups_ok g (cs @ [c])"
  shows "array_at (groupConnector g) (Suc (length cs)) = Some c"
    and "\<exists>C. array_put (Suc (length cs)) d (groupConnector g) = Some C \<and>
      groups_ok (g\<lparr>groupConnector := C\<rparr>) (cs @ [d])"
    and "groups_ok g cs"
proof -
  from assms obtain a x zs where g: "groupConnector g = Some (a, x # map Some (cs @ [c]) @ zs)" "32 \<le> groupSize g"
      "Suc (length (cs @ [c]) + length zs) = unat (groupSize g)" "groupSize g \<noteq> 0"
      "unat (groupSize g) \<le> 2 * max_parts"
    by (auto simp: groups_ok_def split: if_split_asm)
  show "array_at (groupConnector g) (Suc (length cs)) = Some c" using g(1) by (simp add: nth_append)
  show "\<exists>C. array_put (Suc (length cs)) d (groupConnector g) = Some C \<and>
      groups_ok (g\<lparr>groupConnector := C\<rparr>) (cs @ [d])"
    using g by (simp add: list_update_append groups_ok_def)
  show "groups_ok g cs" using g by (simp add: groups_ok_def)
qed

lemma grow_groups_ok:
  assumes "groups_ok g cs" "index_ok g dtd is" "length is \<le> unat (groupSize g)" "unat (groupSize g) \<le> max_parts"
    and "grow_groups ms g dtd m = (g', dtd', True, m')"
  shows "groups_ok g' cs \<and> index_ok g' dtd' is \<and> groupSize g' = (if groupSize g = 0 then 32 else groupSize g * 2) \<and>
    (\<exists>I. dtd' = dtd\<lparr>scaffIndex := I\<rparr>)"
proof (cases "groupSize g = 0")
  case True
  then obtain A where A: "new_array ms sizeof_char 32 m = (A, m')" "A \<noteq> None"
      "g' = g\<lparr>groupSize := 32, groupConnector := A\<rparr>" "dtd' = dtd"
    using assms(5) by (auto simp: grow_groups_def split: prod.splits)
  have "filled A [] (replicate 32 None)" using new_array_filled [OF A(1,2)] by (simp add: sizeof_char_def)
  then obtain a where a: "A = Some (a, None # replicate 31 None)"
    by (elim filledE) (simp add: numeral_eq_Suc)
  have "\<exists>I. dtd' = dtd\<lparr>scaffIndex := I\<rparr>" using A(4) by (intro exI [of _ "scaffIndex dtd"]) simp
  moreover have "groups_ok g' cs" "index_ok g' dtd' is"
    using True A(3,4) a assms(1,2) by (auto simp: groups_ok_def max_parts_def index_ok_def)
  ultimately show ?thesis using True A(3) by simp
next
  case False
  define h where "h = g\<lparr>groupSize := groupSize g * 2\<rparr>"
  have dbl: "unat (groupSize h) = 2 * unat (groupSize g)"
    using assms(4) unat_times [of "groupSize g" 2] by (simp add: h_def max_parts_def)
  from False assms(5) obtain A m1 where A: "resize_array ms sizeof_char (groupConnector h) (groupSize h) m = (A, m1)"
      "A \<noteq> None" "g' = h\<lparr>groupConnector := A\<rparr>"
    and I: "if scaffIndex dtd \<noteq> None then \<exists>I. I \<noteq> None \<and>
        resize_array ms sizeof_int (scaffIndex dtd) (groupSize h * sizeof_int) m1 = (I, m') \<and>
        dtd' = dtd\<lparr>scaffIndex := I\<rparr> else dtd' = dtd"
    by (auto simp: grow_groups_def h_def Let_def split: prod.splits option.splits if_splits)
  from assms(1) False obtain a x zs where g: "groupConnector g = Some (a, x # map Some cs @ zs)"
      "32 \<le> groupSize g" "Suc (length cs + length zs) = unat (groupSize g)"
    by (auto simp: groups_ok_def)
  have "filled (groupConnector h) [] (x # map Some cs @ zs)" using g(1) by (simp add: filled_def h_def)
  from resize_array_filled [OF A(1,2) this]
  have "filled A [] (x # map Some cs @ zs @ replicate (unat (groupSize g)) None)"
    using g(3) dbl by (simp add: sizeof_char_def)
  then have "groups_ok g' cs"
    using A(3) dbl g(2,3) False assms(4)
    by (auto simp: groups_ok_def filled_def h_def word_le_nat_alt max_parts_def)
  moreover have "index_ok g' dtd' is \<and> (\<exists>I. dtd' = dtd\<lparr>scaffIndex := I\<rparr>)"
  proof (cases "scaffIndex dtd = None")
    case True
    then show ?thesis using I assms(2) same_index [of dtd] by (simp add: index_ok_def)
  next
    case False
    then obtain J where J: "J \<noteq> None" "dtd' = dtd\<lparr>scaffIndex := J\<rparr>"
        "resize_array ms sizeof_int (scaffIndex dtd) (groupSize h * sizeof_int) m1 = (J, m')" using I by auto
    from False assms(2) obtain zs where zs: "filled (scaffIndex dtd) is zs"
        "max 32 (unat (groupSize g)) \<le> length is + length zs" by (auto simp: index_ok_def)
    have "unat (groupSize h * sizeof_int) = 4 * unat (groupSize h)"
      using unat_times [of "groupSize h" sizeof_int] dbl assms(4) by (simp add: sizeof_int_def max_parts_def)
    then have "filled J is (take (unat (groupSize h) - length is) zs @
        replicate (unat (groupSize h) - (length is + length zs)) None)"
      using resize_array_filled [OF J(3,1) zs(1)] assms(3) dbl by (simp add: sizeof_int_def)
    moreover have "32 \<le> unat (groupSize g)" using g(2) by (simp add: word_le_nat_alt)
    ultimately have "\<exists>zs. filled J is zs \<and> max 32 (unat (groupSize h)) \<le> length is + length zs"
      using assms(3) dbl by - (rule exI, rule conjI, assumption, auto)
    then show ?thesis using J(1,2) A(3) assms(2) by (auto simp: index_ok_def)
  qed
  ultimately show ?thesis using A(3) False by (simp add: h_def)
qed

lemma grow_groups_refused: "grow_groups ms g dtd m = (g', dtd', False, m') \<Longrightarrow> refuses ms"
  by (auto simp: grow_groups_def Let_def not_None_eq [symmetric] simp del: not_None_eq
      split: prod.splits option.splits if_splits dest: new_array_refused resize_array_refused)

lemma GROUP_OPEN_ok:
  assumes "building g dtd ns is cs k" "length is = length cs" "length ns < max_parts" "unat lv = Suc (length cs)"
  shows "ends ms (role_GROUP_OPEN ms lv g dtd m) (\<lambda>g dtd M. M = None \<and>
    (\<exists>x. blank_part x \<and> sc_type x = Some XML_CTYPE_SEQ \<and>
      building g dtd (linked is ns @ [x]) (is @ [length ns]) (cs @ [0]) k))"
proof -
  note b = assms(1) [unfolded building_def]
  obtain g1 dtd1 ok m1 where 1: "(if groupSize g \<le> lv then grow_groups ms g dtd m else (g, dtd, True, m)) = (g1, dtd1, ok, m1)"
    by (metis prod.exhaust)
  show ?thesis
  proof (cases ok)
    case False
    then have "refuses ms" using 1 grow_groups_refused [of ms g dtd m g1 dtd1 m1] by (simp split: if_split_asm)
    then show ?thesis using False 1 by (simp add: role_GROUP_OPEN_def)
  next
    case True
    have "groups_ok g1 cs \<and> index_ok g1 dtd1 is \<and> Suc (length cs) < unat (groupSize g1) \<and>
        (\<exists>I. dtd1 = dtd\<lparr>scaffIndex := I\<rparr>)"
    proof (cases "groupSize g \<le> lv")
      case le: True
      have G: "groupSize g = 0 \<and> cs = [] \<or> unat (groupSize g) = Suc (length cs) \<and> 32 \<le> unat (groupSize g)"
        using b le assms(4) by (auto simp: groups_ok_def word_le_nat_alt split: if_split_asm)
      then have "length is \<le> unat (groupSize g)" "unat (groupSize g) \<le> max_parts"
        using assms(2,3) b by auto
      with grow_groups_ok [of g cs dtd "is" ms m g1 dtd1 m1] b 1 le True
      have *: "groups_ok g1 cs \<and> index_ok g1 dtd1 is \<and>
          groupSize g1 = (if groupSize g = 0 then 32 else groupSize g * 2) \<and> (\<exists>I. dtd1 = dtd\<lparr>scaffIndex := I\<rparr>)" by auto
      moreover have "Suc (length cs) < unat (groupSize g1)"
        using G * \<open>unat (groupSize g) \<le> max_parts\<close> unat_times [of "groupSize g" 2]
        by (auto simp: max_parts_def)
      ultimately show ?thesis by blast
    next
      case False
      then show ?thesis using 1 b assms(4) same_index [of dtd] by (auto simp: word_le_nat_alt)
    qed
    then obtain I where 2: "groups_ok g1 cs" "Suc (length cs) < unat (groupSize g1)" "index_ok g1 dtd1 is"
      "dtd1 = dtd\<lparr>scaffIndex := I\<rparr>" by blast
    from groups_push [OF 2(1,2), of 0] obtain C where C: "array_put (Suc (length cs)) 0 (groupConnector g1) = Some C"
      "groups_ok (g1\<lparr>groupConnector := C\<rparr>) (cs @ [0])" by blast
    define g2 where "g2 = g1\<lparr>groupConnector := C\<rparr>"
    have "building g2 dtd1 ns is (cs @ [0]) k" "groupSize g2 \<noteq> 0"
      using b C(2) 2 by (auto simp: building_def g2_def)
    from nextScaffoldPart_ok [OF this(1) assms(3) this(2), of ms m1] obtain dtd2 r m2 where
      n: "nextScaffoldPart ms g2 dtd1 m1 = Some (dtd2, r, m2)" "r = None \<and> refuses ms \<or> r = Some (length ns) \<and> scaffIndex dtd2 \<noteq> None \<and>
        (\<exists>x. blank_part x \<and> building g2 dtd2 (linked is ns @ [x]) is (cs @ [0]) k)" by blast
    show ?thesis
    proof (cases r)
      case None
      then show ?thesis using 1 True C(1) n b 2(4) assms(4)
        by (simp add: role_GROUP_OPEN_def enter_group_def Let_def g2_def [symmetric])
    next
      case (Some j)
      then obtain x where x: "j = length ns" "scaffIndex dtd2 \<noteq> None" "blank_part x"
        "building g2 dtd2 (linked is ns @ [x]) is (cs @ [0]) k" using n(2) by auto
      note b2 = x(4) [unfolded building_def]
      have "length is < unat (groupSize g2)" using 2(2) assms(2) by (simp add: g2_def)
      from index_push [OF _ this x(2), of "length ns"] b2 obtain J where
        J: "array_put (length is) (length ns) (scaffIndex dtd2) = Some J"
          "index_ok g2 (dtd2\<lparr>scaffIndex := J, scaffLevel := Suc (length is)\<rparr>) (is @ [length ns])" by blast
      define f where "f p = p\<lparr>sc_type := Some XML_CTYPE_SEQ\<rparr>" for p :: CONTENT_SCAFFOLD
      from scaffold_upd [of dtd2 "linked is ns @ [x]" "length ns" f] b2 obtain A where
        A: "array_upd (length ns) f (scaffold dtd2) = Some A"
          "scaffold_ok (dtd2\<lparr>scaffold := A\<rparr>) (linked is ns @ [f x])" by (auto simp: nth_append list_update_append)
      have lev: "scaffLevel dtd2 = length is" using b2 by (simp add: index_ok_def)
      define dtd3 where "dtd3 = dtd2\<lparr>scaffIndex := J, scaffLevel := Suc (length is), scaffold := A\<rparr>"
      have "role_GROUP_OPEN ms lv g dtd m = Some (g2, dtd3, XML_ERROR_NONE, None, m2)"
        using 1 True C(1) n(1) b 2(4) assms(4) Some x(1) J(1) A(1) lev
        by (simp add: role_GROUP_OPEN_def enter_group_def Let_def g2_def [symmetric] f_def [abs_def] dtd3_def)
      moreover have "building g2 dtd3 (linked is ns @ [f x]) (is @ [length ns]) (cs @ [0]) k"
        using b b2 J(2) A(2) x(3)
        by (auto simp: building_def dtd3_def nth_append f_def blank_part_def scaffold_ok_def index_ok_def)
      moreover have "blank_part (f x)" "sc_type (f x) = Some XML_CTYPE_SEQ"
        using x(3) by (simp_all add: f_def blank_part_def)
      ultimately show ?thesis by auto
    qed
  qed
qed

lemma building_upd:
  assumes "building g dtd ns is cs k" "i < length ns" "\<And>p. sc_lastchild (f p) = sc_lastchild p"
  shows "\<exists>A. array_upd i f (scaffold dtd) = Some A \<and>
    building g (dtd\<lparr>scaffold := A\<rparr>) (ns[i := f (ns ! i)]) is cs k"
proof -
  from scaffold_upd [of dtd ns i f] assms(1,2) obtain A where
    A: "array_upd i f (scaffold dtd) = Some A" "scaffold_ok (dtd\<lparr>scaffold := A\<rparr>) (ns[i := f (ns ! i)])"
    by (auto simp: building_def)
  then show ?thesis using assms by (auto simp: building_def nth_list_update)
qed

lemma building_top:
  assumes "building g dtd ns (is @ [i]) cs k"
  shows "open_part dtd = Some i" "i < length ns"
  using assms index_last(1) [of g dtd "is" i] by (auto simp: building_def)

lemma building_connector:
  assumes "building g dtd ns is (cs @ [c]) k"
  shows "array_at (groupConnector g) (Suc (length cs)) = Some c"
    and "\<exists>C. array_put (Suc (length cs)) d (groupConnector g) = Some C \<and>
      building (g\<lparr>groupConnector := C\<rparr>) dtd ns is (cs @ [d]) k"
  using assms groups_last(1,2) [of g cs c] by (auto simp: building_def)

lemma GROUP_SEQUENCE_ok:
  assumes "building g dtd ns is (cs @ [c]) k" "c \<noteq> ASCII_PIPE" "unat lv = Suc (length cs)"
  shows "ends ms (role_GROUP_SEQUENCE lv g dtd m) (\<lambda>g dtd M. M = None \<and> building g dtd ns is (cs @ [ASCII_COMMA]) k)"
  using building_connector(1) [OF assms(1)] building_connector(2) [OF assms(1), of ASCII_COMMA] assms(2,3)
  by (auto simp: role_GROUP_SEQUENCE_def)

lemma GROUP_CHOICE_ok:
  assumes "building g dtd ns (is @ [i]) (cs @ [c]) k" "c \<noteq> ASCII_COMMA" "unat lv = Suc (length cs)"
    and "sc_type (ns ! i) = Some ty" "ty \<noteq> XML_CTYPE_MIXED"
  shows "ends ms (role_GROUP_CHOICE lv g dtd m) (\<lambda>g dtd M. M = None \<and>
    building g dtd (if c = 0 then ns[i := (ns ! i)\<lparr>sc_type := Some XML_CTYPE_CHOICE\<rparr>] else ns) (is @ [i]) (cs @ [ASCII_PIPE]) k)"
proof -
  let ?f = "\<lambda>p. p\<lparr>sc_type := Some XML_CTYPE_CHOICE\<rparr> :: CONTENT_SCAFFOLD"
  note top = building_top [OF assms(1)]
  from building_upd [OF assms(1) top(2), of ?f] obtain A where
    A: "array_upd i ?f (scaffold dtd) = Some A"
      "building g (dtd\<lparr>scaffold := A\<rparr>) (ns[i := ?f (ns ! i)]) (is @ [i]) (cs @ [c]) k" by auto
  have "scaffold_ok dtd ns" "in_eldecl dtd" using assms(1) by (simp_all add: building_def)
  then have at: "array_at (scaffold dtd) i = Some (ns ! i)" using top(2) by (blast intro: scaffold_at)
  show ?thesis
  proof (cases "c = 0")
    case True
    then show ?thesis
      using building_connector(1) [OF assms(1)] building_connector(2) [OF A(2), of ASCII_PIPE] top at A(1) assms(3-5) \<open>in_eldecl dtd\<close>
      by (auto simp: role_GROUP_CHOICE_def)
  next
    case False
    then show ?thesis
      using building_connector(1) [OF assms(1)] building_connector(2) [OF assms(1), of ASCII_PIPE] assms(2,3)
      by (auto simp: role_GROUP_CHOICE_def)
  qed
qed

lemma CONTENT_PCDATA_ok:
  assumes "building g dtd ns (is @ [i]) cs k"
  shows "ends ms (role_CONTENT_PCDATA g dtd m) (\<lambda>g dtd M. M = None \<and>
    building g dtd (ns[i := (ns ! i)\<lparr>sc_type := Some XML_CTYPE_MIXED\<rparr>]) (is @ [i]) cs k)"
proof -
  from building_upd [OF assms building_top(2) [OF assms], of "\<lambda>p. p\<lparr>sc_type := Some XML_CTYPE_MIXED\<rparr>"]
  show ?thesis using building_top(1) [OF assms] assms by (auto simp: role_CONTENT_PCDATA_def building_def)
qed

lemma name_length_cstr: "0 \<notin> set s \<Longrightarrow> name_length (s @ 0 # r) = Some (Suc (length s))"
  by (induction s) auto

lemma CONTENT_ELEMENT_ok:
  assumes "building g dtd ns is (cs @ [c]) k" "length ns < max_parts" "0 \<notin> set s" "k + Suc (length s) < 2 ^ 32"
  shows "ends ms (role_CONTENT_ELEMENT ms q (Some (s @ [0])) g dtd m) (\<lambda>g dtd M. M = None \<and>
    (\<exists>x. blank_part x \<and> sc_type x = Some XML_CTYPE_NAME \<and> sc_quant x = Some q \<and> sc_name x = Some (s @ [0]) \<and>
      building g dtd (linked is ns @ [x]) is (cs @ [c]) (k + Suc (length s))))"
proof -
  have e: "in_eldecl dtd" "groupSize g \<noteq> 0" using assms(1) by (auto simp: building_def groups_ok_def)
  from nextScaffoldPart_ok [OF assms(1,2) e(2), of ms m] obtain dtd2 r m2 where
    n: "nextScaffoldPart ms g dtd m = Some (dtd2, r, m2)" "r = None \<and> refuses ms \<or> r = Some (length ns) \<and> scaffIndex dtd2 \<noteq> None \<and>
      (\<exists>x. blank_part x \<and> building g dtd2 (linked is ns @ [x]) is (cs @ [c]) k)" by blast
  show ?thesis
  proof (cases r)
    case None
    then show ?thesis using n e(1) by (simp add: role_CONTENT_ELEMENT_def)
  next
    case (Some j)
    then obtain x where x: "j = length ns" "blank_part x" "building g dtd2 (linked is ns @ [x]) is (cs @ [c]) k"
      using n(2) by auto
    define f where "f p = p\<lparr>sc_type := Some XML_CTYPE_NAME, sc_quant := Some q\<rparr>" for p :: CONTENT_SCAFFOLD
    define h where "h p = p\<lparr>sc_name := Some (s @ [0])\<rparr>" for p :: CONTENT_SCAFFOLD
    from building_upd [OF x(3), of "length ns" f] obtain A where
      A: "array_upd (length ns) f (scaffold dtd2) = Some A"
        "building g (dtd2\<lparr>scaffold := A\<rparr>) (linked is ns @ [f x]) is (cs @ [c]) k"
      by (auto simp: f_def nth_append list_update_append)
    from building_upd [OF A(2), of "length ns" h] obtain B where
      B: "array_upd (length ns) h A = Some B"
        "building g (dtd2\<lparr>scaffold := B\<rparr>) (linked is ns @ [h (f x)]) is (cs @ [c]) k"
      by (auto simp: h_def nth_append list_update_append)
    define w where "w = contentStringLen dtd2 + of_nat (Suc (length s))"
    have "unat (contentStringLen dtd2) = k" using B(2) by (simp add: building_def)
    then have w: "unat w = k + Suc (length s)"
      using assms(4) unat_add_lem [of "contentStringLen dtd2" "of_nat (Suc (length s))"]
      by (simp add: w_def unat_of_nat del: of_nat_Suc)
    have "role_CONTENT_ELEMENT ms q (Some (s @ [0])) g dtd m =
        Some (g, dtd2\<lparr>scaffold := B, contentStringLen := w\<rparr>, XML_ERROR_NONE, None, m2)"
      using n(1) e(1) Some x(1) A(1) B(1) name_length_cstr [OF assms(3), of "[]"]
      by (simp add: role_CONTENT_ELEMENT_def f_def [abs_def] h_def [abs_def] w_def Let_def)
    moreover have "building g (dtd2\<lparr>scaffold := B, contentStringLen := w\<rparr>) (linked is ns @ [h (f x)]) is (cs @ [c]) (k + Suc (length s))"
      using B(2) w unfolding building_def by simp
    moreover have "blank_part (h (f x)) \<and> sc_type (h (f x)) = Some XML_CTYPE_NAME \<and>
        sc_quant (h (f x)) = Some q \<and> sc_name (h (f x)) = Some (s @ [0])"
      using x(2) by (simp add: h_def f_def blank_part_def)
    ultimately show ?thesis unfolding ends_def by blast
  qed
qed

lemma GROUP_CLOSE_ok:
  assumes "building g dtd ns (is @ [i]) (cs @ [c]) k" "is \<noteq> []"
  shows "ends ms (role_GROUP_CLOSE ms hh q g dtd m) (\<lambda>g dtd M. M = None \<and>
    building g dtd (ns[i := (ns ! i)\<lparr>sc_quant := Some q\<rparr>]) is cs k)"
proof -
  let ?f = "\<lambda>p. p\<lparr>sc_quant := Some q\<rparr> :: CONTENT_SCAFFOLD"
  note top = building_top [OF assms(1)]
  from building_upd [OF assms(1) top(2), of ?f] obtain A where
    A: "array_upd i ?f (scaffold dtd) = Some A"
      "building g (dtd\<lparr>scaffold := A\<rparr>) (ns[i := ?f (ns ! i)]) (is @ [i]) (cs @ [c]) k" by auto
  have lev: "scaffLevel dtd = Suc (length is)" "in_eldecl dtd" using assms(1) by (simp_all add: building_def index_ok_def)
  have eq: "dtd\<lparr>scaffLevel := length is, scaffold := A\<rparr> = dtd\<lparr>scaffold := A, scaffLevel := length is\<rparr>" by simp
  have "building g (dtd\<lparr>scaffLevel := length is, scaffold := A\<rparr>) (ns[i := ?f (ns ! i)]) is cs k"
    unfolding eq using A(2) index_last(2) [of g "dtd\<lparr>scaffold := A\<rparr>" "is" i] groups_last(3) [of g cs c]
    by (simp add: building_def)
  then show ?thesis using A(1) top lev assms(2) by (simp add: role_GROUP_CLOSE_def)
qed

section \<open>Sequences of roles\<close>

fun run_roles ::
  "'m XML_Memory_Handling_Suite \<Rightarrow> bool \<Rightarrow> event list \<Rightarrow> group_state \<Rightarrow> content_dtd \<Rightarrow> 'm \<Rightarrow>
    (group_state \<times> content_dtd \<times> XML_Error \<times> model list \<times> 'm) option" where
  "run_roles ms hh [] g dtd m = Some (g, dtd, XML_ERROR_NONE, [], m)"
| "run_roles ms hh ((r, lv, nm) # es) g dtd m = do {
     (g, dtd, e, M, m) \<leftarrow> content_role ms hh r (of_nat lv) nm g dtd m;
     if e \<noteq> XML_ERROR_NONE then Some (g, dtd, e, [], m)
     else do {
       (g, dtd, e, Ms, m) \<leftarrow> run_roles ms hh es g dtd m;
       Some (g, dtd, e, (case M of None \<Rightarrow> Ms | Some M \<Rightarrow> M # Ms), m)
     }
   }"

definition leads ::
  "'m XML_Memory_Handling_Suite \<Rightarrow> bool \<Rightarrow> event list \<Rightarrow> group_state \<Rightarrow> content_dtd \<Rightarrow>
    (group_state \<Rightarrow> content_dtd \<Rightarrow> model list \<Rightarrow> bool) \<Rightarrow> bool" where
  "leads ms hh es g dtd Q \<longleftrightarrow> (\<forall>m. \<exists>g' dtd' e Ms m'. run_roles ms hh es g dtd m = Some (g', dtd', e, Ms, m') \<and>
     (e = XML_ERROR_NO_MEMORY \<and> refuses ms \<or> e = XML_ERROR_NONE \<and> Q g' dtd' Ms))"

lemma leadsD:
  assumes "leads ms hh es g dtd Q"
  shows "\<exists>g' dtd' e Ms m'. run_roles ms hh es g dtd m = Some (g', dtd', e, Ms, m') \<and>
     (e = XML_ERROR_NO_MEMORY \<and> refuses ms \<or> e = XML_ERROR_NONE \<and> Q g' dtd' Ms)"
  using assms by (simp add: leads_def)

lemma leads_Nil [simp]: "leads ms hh [] g dtd Q \<longleftrightarrow> Q g dtd []"
  by (simp add: leads_def)

lemma leads_mono: "leads ms hh es g dtd P \<Longrightarrow> (\<And>g dtd Ms. P g dtd Ms \<Longrightarrow> Q g dtd Ms) \<Longrightarrow> leads ms hh es g dtd Q"
  unfolding leads_def by meson

lemma leads_Cons:
  assumes "\<And>m. ends ms (content_role ms hh r (of_nat lv) nm g dtd m) P"
    and "\<And>g dtd M. P g dtd M \<Longrightarrow> leads ms hh es g dtd (\<lambda>g dtd Ms. Q g dtd (case M of None \<Rightarrow> Ms | Some M \<Rightarrow> M # Ms))"
  shows "leads ms hh ((r, lv, nm) # es) g dtd Q"
  unfolding leads_def
proof
  fix m
  from assms(1) [of m] obtain g1 dtd1 e M m1 where
    1: "content_role ms hh r (of_nat lv) nm g dtd m = Some (g1, dtd1, e, M, m1)"
      "e = XML_ERROR_NO_MEMORY \<and> refuses ms \<or> e = XML_ERROR_NONE \<and> P g1 dtd1 M" unfolding ends_def by blast
  show "\<exists>g' dtd' e Ms m'. run_roles ms hh ((r, lv, nm) # es) g dtd m = Some (g', dtd', e, Ms, m') \<and>
     (e = XML_ERROR_NO_MEMORY \<and> refuses ms \<or> e = XML_ERROR_NONE \<and> Q g' dtd' Ms)"
  proof (cases "e = XML_ERROR_NONE")
    case False
    then show ?thesis using 1 by simp
  next
    case True
    then have "P g1 dtd1 M" using 1(2) by simp
    from assms(2) [OF this] obtain g2 dtd2 e2 Ms m2 where
      "run_roles ms hh es g1 dtd1 m1 = Some (g2, dtd2, e2, Ms, m2)"
      "e2 = XML_ERROR_NO_MEMORY \<and> refuses ms \<or> e2 = XML_ERROR_NONE \<and> Q g2 dtd2 (case M of None \<Rightarrow> Ms | Some M \<Rightarrow> M # Ms)"
      unfolding leads_def by blast
    then show ?thesis using 1(1) True by simp
  qed
qed

lemma run_roles_append:
  "run_roles ms hh (xs @ ys) g dtd m = do {
     (g, dtd, e, Ms, m) \<leftarrow> run_roles ms hh xs g dtd m;
     if e \<noteq> XML_ERROR_NONE then Some (g, dtd, e, Ms, m)
     else do {
       (g, dtd, e, Ms', m) \<leftarrow> run_roles ms hh ys g dtd m;
       Some (g, dtd, e, Ms @ Ms', m)
     }
   }"
proof (induction xs arbitrary: g dtd m)
  case Nil
  then show ?case by (cases "run_roles ms hh ys g dtd m") auto
next
  case (Cons x xs)
  obtain r lv nm where x: "x = (r, lv, nm)" by (metis prod.exhaust)
  show ?case
    by (auto simp: x Cons.IH split: Option.bind_splits prod.splits option.splits)
qed

lemma leads_append:
  assumes "leads ms hh xs g dtd P"
    and "\<And>g dtd Ms. P g dtd Ms \<Longrightarrow> leads ms hh ys g dtd (\<lambda>g dtd Ms'. Q g dtd (Ms @ Ms'))"
  shows "leads ms hh (xs @ ys) g dtd Q"
  unfolding leads_def
proof
  fix m
  from assms(1) obtain g1 dtd1 e Ms m1 where
    1: "run_roles ms hh xs g dtd m = Some (g1, dtd1, e, Ms, m1)"
      "e = XML_ERROR_NO_MEMORY \<and> refuses ms \<or> e = XML_ERROR_NONE \<and> P g1 dtd1 Ms" unfolding leads_def by blast
  show "\<exists>g' dtd' e Ms m'. run_roles ms hh (xs @ ys) g dtd m = Some (g', dtd', e, Ms, m') \<and>
     (e = XML_ERROR_NO_MEMORY \<and> refuses ms \<or> e = XML_ERROR_NONE \<and> Q g' dtd' Ms)"
  proof (cases "e = XML_ERROR_NONE")
    case False
    then show ?thesis using 1 by (simp add: run_roles_append)
  next
    case True
    then have "P g1 dtd1 Ms" using 1(2) by simp
    from assms(2) [OF this] obtain g2 dtd2 e2 Ms2 m2 where
      "run_roles ms hh ys g1 dtd1 m1 = Some (g2, dtd2, e2, Ms2, m2)"
      "e2 = XML_ERROR_NO_MEMORY \<and> refuses ms \<or> e2 = XML_ERROR_NONE \<and> Q g2 dtd2 (Ms @ Ms2)"
      unfolding leads_def by blast
    then show ?thesis using 1(1) True by (simp add: run_roles_append)
  qed
qed

section \<open>A tree in the scaffold\<close>

abbreviation total :: "ctree list \<Rightarrow> nat" where
  "total cs \<equiv> sum_list (map parts cs)"

abbreviation total_chars :: "ctree list \<Rightarrow> nat" where
  "total_chars cs \<equiv> sum_list (map name_chars cs)"

fun rep :: "CONTENT_SCAFFOLD list \<Rightarrow> nat \<Rightarrow> ctree \<Rightarrow> bool"
  and kids :: "CONTENT_SCAFFOLD list \<Rightarrow> nat \<Rightarrow> ctree list \<Rightarrow> bool" where
  "rep ns i (Leaf q s) \<longleftrightarrow>
     sc_type (ns ! i) = Some XML_CTYPE_NAME \<and> sc_quant (ns ! i) = Some q \<and> sc_name (ns ! i) = Some (s @ [0])"
| "rep ns i (Node k cs q) \<longleftrightarrow>
     sc_type (ns ! i) = Some (kind_type k (length cs)) \<and> sc_quant (ns ! i) = Some q \<and>
     sc_childcnt (ns ! i) = length cs \<and> (cs \<noteq> [] \<longrightarrow> sc_firstchild (ns ! i) = Suc i) \<and> kids ns (Suc i) cs"
| "kids ns a [] \<longleftrightarrow> True"
| "kids ns a (c # cs) \<longleftrightarrow> rep ns a c \<and> (cs \<noteq> [] \<longrightarrow> sc_nextsib (ns ! a) = a + parts c) \<and> kids ns (a + parts c) cs"

fun last_start :: "nat \<Rightarrow> ctree list \<Rightarrow> nat" where
  "last_start a [] = 0"
| "last_start a [c] = a"
| "last_start a (c # d # cs) = last_start (a + parts c) (d # cs)"

lemma last_start_ge: "cs \<noteq> [] \<Longrightarrow> a \<le> last_start a cs"
  by (induction a cs rule: last_start.induct) auto

lemma last_start_snoc: "last_start a (cs @ [c]) = a + total cs"
proof (induction a cs rule: last_start.induct)
  case (2 a d)
  then show ?case by simp
qed simp_all

lemma last_start_lt: "cs \<noteq> [] \<Longrightarrow> last_start a cs < a + total cs"
  by (induction a cs rule: last_start.induct) auto

lemma rep_kids_cong:
  "(\<And>j. i \<le> j \<Longrightarrow> j < i + parts t \<Longrightarrow> ns ! j = ns' ! j) \<Longrightarrow> rep ns i t = rep ns' i t"
  "(\<And>j. a \<le> j \<Longrightarrow> j < a + total ts \<Longrightarrow> ns ! j = ns' ! j) \<Longrightarrow> kids ns a ts = kids ns' a ts"
proof (induction ns i t and ns a ts rule: rep_kids.induct)
  case (1 ns i q s)
  then show ?case by simp
next
  case (2 ns i k cs q)
  have "kids ns (Suc i) cs = kids ns' (Suc i) cs" by (rule 2(1)) (rule 2(2), auto)
  moreover have "ns ! i = ns' ! i" by (rule 2(2)) auto
  ultimately show ?case by simp
next
  case (3 ns a)
  then show ?case by simp
next
  case (4 ns a c cs)
  have "rep ns a c = rep ns' a c" by (rule 4(1)) (rule 4(3), auto)
  moreover have "kids ns (a + parts c) cs = kids ns' (a + parts c) cs" by (rule 4(2)) (rule 4(3), auto)
  moreover have "ns ! a = ns' ! a" by (rule 4(3)) auto
  ultimately show ?case by simp
qed

text \<open>The sibling link of a part does not belong to it.\<close>

lemma rep_unlinked:
  assumes "rep ns i t" "(ns' ! i)\<lparr>sc_nextsib := 0\<rparr> = (ns ! i)\<lparr>sc_nextsib := 0\<rparr>"
    and "\<And>j. i < j \<Longrightarrow> j < i + parts t \<Longrightarrow> ns' ! j = ns ! j"
  shows "rep ns' i t"
proof (cases t)
  case (Leaf q s)
  then show ?thesis using assms(1,2) by (cases "ns ! i", cases "ns' ! i") simp
next
  case (Node k cs q)
  have "kids ns (Suc i) cs = kids ns' (Suc i) cs" by (rule rep_kids_cong(2)) (use assms(3) Node in auto)
  then show ?thesis using assms(1,2) Node by (cases "ns ! i", cases "ns' ! i") simp
qed

lemma kids_unlinked:
  assumes "kids ns a ts" "\<And>j. a \<le> j \<Longrightarrow> j < a + total ts \<Longrightarrow> j \<noteq> last_start a ts \<Longrightarrow> ns' ! j = ns ! j"
    and "ts \<noteq> [] \<Longrightarrow> (ns' ! last_start a ts)\<lparr>sc_nextsib := 0\<rparr> = (ns ! last_start a ts)\<lparr>sc_nextsib := 0\<rparr>"
  shows "kids ns' a ts"
  using assms
proof (induction a ts rule: last_start.induct)
  case (1 a)
  then show ?case by simp
next
  case (2 a c)
  have "rep ns' a c" by (rule rep_unlinked [of ns]) (use 2 in auto)
  then show ?case by simp
next
  case (3 a c d cs)
  have ge: "a + parts c \<le> last_start (a + parts c) (d # cs)" by (rule last_start_ge) simp
  have "rep ns a c = rep ns' a c" by (rule rep_kids_cong(1)) (use 3(3) ge in auto)
  moreover have "kids ns' (a + parts c) (d # cs)"
    by (rule 3(1)) (use 3(2,3,4) in auto)
  moreover have "ns' ! a = ns ! a" by (rule 3(3)) (use ge in auto)
  ultimately show ?case using 3(2) by simp
qed

lemma kids_snoc:
  "kids ns a (ts @ [t]) \<longleftrightarrow> kids ns a ts \<and> (ts \<noteq> [] \<longrightarrow> sc_nextsib (ns ! last_start a ts) = a + total ts) \<and>
     rep ns (a + total ts) t"
  by (induction a ts rule: last_start.induct) (auto simp: add.assoc)

section \<open>Reading a tree\<close>

text \<open>The connector and the part of a group of which \<open>ts\<close> have been read and \<open>n\<close> members begun.\<close>

fun conn :: "kind \<Rightarrow> nat \<Rightarrow> byte" where
  "conn K_seq n = (if n < 2 then 0 else ASCII_COMMA)"
| "conn K_choice n = (if n < 2 then 0 else ASCII_PIPE)"
| "conn K_mixed n = 0"

definition group_at :: "CONTENT_SCAFFOLD list \<Rightarrow> nat \<Rightarrow> kind \<Rightarrow> nat \<Rightarrow> ctree list \<Rightarrow> bool" where
  "group_at ns i kd n ts \<longleftrightarrow>
     sc_type (ns ! i) = Some (kind_type kd n) \<and> sc_childcnt (ns ! i) = length ts \<and>
     sc_firstchild (ns ! i) = (if ts = [] then 0 else Suc i) \<and>
     sc_lastchild (ns ! i) = last_start (Suc i) ts \<and> sc_nextsib (ns ! i) = 0 \<and>
     kids ns (Suc i) ts \<and> length ns = Suc i + total ts"

lemma group_at_upd:
  assumes "group_at ns i kd n ts" "sc_type x = Some (kind_type kd n')"
    and "x\<lparr>sc_type := None\<rparr> = (ns ! i)\<lparr>sc_type := None\<rparr>"
  shows "group_at (ns[i := x]) i kd n' ts"
proof -
  have "kids ns (Suc i) ts = kids (ns[i := x]) (Suc i) ts" by (rule rep_kids_cong(2)) simp
  then show ?thesis using assms by (cases x, cases "ns ! i") (simp add: group_at_def)
qed

lemma last_start_range: "ts \<noteq> [] \<Longrightarrow> Suc i \<le> last_start (Suc i) ts \<and> last_start (Suc i) ts < Suc i + total ts"
  using last_start_ge last_start_lt by blast

lemma group_at_snoc:
  assumes "group_at ns i kd n ts" "length xs = parts t" "rep (adopted i (length ns) ns @ xs) (length ns) t"
  shows "group_at (adopted i (length ns) ns @ xs) i kd n (ts @ [t])"
    and "take i (adopted i (length ns) ns @ xs) = take i ns"
proof -
  let ?ns = "adopted i (length ns) ns @ xs"
  note g = assms(1) [unfolded group_at_def]
  have i: "i < length ns" using g by simp
  have same: "?ns ! j = ns ! j" if "j < length ns" "j \<noteq> i" "j \<noteq> last_start (Suc i) ts" for j
    using that g by (simp add: nth_append adopted_nth Let_def)
  have sib: "ts \<noteq> [] \<Longrightarrow> ?ns ! last_start (Suc i) ts = (ns ! last_start (Suc i) ts)\<lparr>sc_nextsib := length ns\<rparr>"
    using last_start_range [of ts i] g by (simp add: nth_append adopted_nth Let_def)
  have "kids ?ns (Suc i) ts"
    by (rule kids_unlinked [of ns]) (use g same sib in auto)
  then have "kids ?ns (Suc i) (ts @ [t])"
    using sib assms(3) g by (simp add: kids_snoc)
  moreover have "?ns ! i = (ns ! i)\<lparr>sc_firstchild := Suc i, sc_lastchild := length ns, sc_childcnt := Suc (length ts)\<rparr>"
  proof -
    have ne: "\<not> (last_start (Suc i) ts = i \<and> i \<noteq> 0)" using last_start_range [of ts i] by (cases "ts = []") auto
    have "?ns ! i = (ns ! i)\<lparr>sc_firstchild := (if ts = [] then length ns else sc_firstchild (ns ! i)),
        sc_lastchild := length ns, sc_childcnt := Suc (length ts)\<rparr>"
      using ne g unfolding nth_append length_adopted if_P [OF i] adopted_nth [OF i] Let_def by simp
    then show ?thesis using g by (cases "ns ! i") simp
  qed
  ultimately show "group_at ?ns i kd n (ts @ [t])"
    using g assms(2) by (simp add: group_at_def last_start_snoc)
  have "?ns ! j = ns ! j" if "j < i" for j
    using that i last_start_range [of ts i] by (cases "ts = []") (auto intro!: same simp: nth_append adopted_nth Let_def g)
  then show "take i ?ns = take i ns" using i by (intro nth_equalityI) (simp_all add: nth_append)
qed

lemma content_role_leaf: "content_role ms hh (leaf_role q) lv nm g dtd m = role_CONTENT_ELEMENT ms q nm g dtd m"
  by (cases q) (simp_all add: content_role_def)

lemma content_role_node: "content_role ms hh (node_role q) lv nm g dtd m = role_GROUP_CLOSE ms hh q g dtd m"
  by (cases q) (simp_all add: content_role_def)

lemma content_role_group [simp]:
  "content_role ms hh XML_ROLE_GROUP_OPEN lv nm g dtd m = role_GROUP_OPEN ms lv g dtd m"
  "content_role ms hh XML_ROLE_GROUP_SEQUENCE lv nm g dtd m = role_GROUP_SEQUENCE lv g dtd m"
  "content_role ms hh XML_ROLE_GROUP_CHOICE lv nm g dtd m = role_GROUP_CHOICE lv g dtd m"
  "content_role ms hh XML_ROLE_CONTENT_PCDATA lv nm g dtd m = role_CONTENT_PCDATA g dtd m"
  "content_role ms hh XML_ROLE_ELEMENT_NONE lv nm g dtd m = Some (g, dtd, XML_ERROR_NONE, None, m)"
  by (simp_all add: content_role_def)

text \<open>The usual case of a role that hands no model to the handler.\<close>

lemma leads_step:
  assumes "\<And>m. ends ms (content_role ms hh r (of_nat lv) nm g dtd m) (\<lambda>g dtd M. M = None \<and> P g dtd)"
    and "\<And>g dtd. P g dtd \<Longrightarrow> leads ms hh es g dtd Q"
  shows "leads ms hh ((r, lv, nm) # es) g dtd Q"
  by (rule leads_Cons [OF assms(1)]) (use assms(2) in auto)

lemma level_word: "lv \<le> Suc max_parts \<Longrightarrow> unat (of_nat lv :: 32 word) = lv"
  by (simp add: unat_of_nat max_parts_def)

lemma building_levels:
  assumes "building g dtd ns is cs k" "length is = length cs" "length ns \<le> max_parts"
  shows "unat (of_nat (length cs) :: 32 word) = length cs"
  using assms by (intro level_word) (simp add: building_def)

lemma before_member_ok:
  assumes "building g dtd ns (is @ [i]) (cs @ [conn kd (length ts)]) k" "length is = length cs" "length ns \<le> max_parts"
    and "group_at ns i kd (length ts) ts"
  shows "leads ms hh (before_member kd (ts = []) (Suc (length cs))) g dtd (\<lambda>g dtd Ms. Ms = [] \<and>
    (\<exists>ns'. building g dtd ns' (is @ [i]) (cs @ [conn kd (Suc (length ts))]) k \<and>
      group_at ns' i kd (Suc (length ts)) ts \<and> take i ns' = take i ns))"
proof -
  have lv: "unat (of_nat (Suc (length cs)) :: 32 word) = Suc (length cs)"
    using building_levels [OF assms(1)] assms(2,3) by simp
  show ?thesis
  proof (cases kd)
    case K_mixed
    then have "group_at ns i kd (Suc (length ts)) ts" using assms(4) by (simp add: group_at_def)
    then show ?thesis using K_mixed assms(1)
      by (auto intro!: leads_step [where P = "\<lambda>g' dtd'. g' = g \<and> dtd' = dtd"])
  next
    case K_seq
    have *: "group_at ns i kd (Suc (length ts)) ts" using assms(4) K_seq by (simp add: group_at_def)
    show ?thesis
    proof (cases "ts = []")
      case True
      then show ?thesis using K_seq assms(1) * by auto
    next
      case False
      then have two: "2 \<le> Suc (length ts)" by (cases ts) auto
      have c: "conn kd (length ts) \<noteq> ASCII_PIPE" using K_seq by simp
      show ?thesis unfolding K_seq before_member.simps if_not_P [OF False]
        by (rule leads_step [where P = "\<lambda>g dtd. building g dtd ns (is @ [i]) (cs @ [ASCII_COMMA]) k"])
          (use GROUP_SEQUENCE_ok [OF assms(1) c lv] K_seq two * in auto)
    qed
  next
    case K_choice
    show ?thesis
    proof (cases "ts = []")
      case True
      then have "group_at ns i kd (Suc (length ts)) ts" using assms(4) K_choice by (simp add: group_at_def)
      then show ?thesis using K_choice assms(1) True by auto
    next
      case False
      then have two: "2 \<le> Suc (length ts)" by (cases ts) auto
      define ns' where "ns' = (if conn kd (length ts) = 0 then ns[i := (ns ! i)\<lparr>sc_type := Some XML_CTYPE_CHOICE\<rparr>] else ns)"
      have "group_at ns' i kd (Suc (length ts)) ts"
      proof (cases "length ts < 2")
        case True
        then show ?thesis using group_at_upd [OF assms(4), of "(ns ! i)\<lparr>sc_type := Some XML_CTYPE_CHOICE\<rparr>" "Suc (length ts)"] K_choice \<open>ts \<noteq> []\<close>
          by (simp add: ns'_def)
      next
        case False
        then show ?thesis using assms(4) K_choice \<open>ts \<noteq> []\<close> by (simp add: ns'_def group_at_def)
      qed
      moreover have "take i ns' = take i ns" by (simp add: ns'_def)
      moreover have "ends ms (role_GROUP_CHOICE (of_nat (Suc (length cs))) g dtd m)
          (\<lambda>g dtd M. M = None \<and> building g dtd ns' (is @ [i]) (cs @ [ASCII_PIPE]) k)" for m
        using GROUP_CHOICE_ok [OF assms(1) _ lv, of "kind_type kd (length ts)" ms m] assms(4) K_choice
        unfolding ns'_def by (simp add: group_at_def)
      ultimately show ?thesis unfolding K_choice before_member.simps if_not_P [OF False]
        by - (rule leads_step [where P = "\<lambda>g dtd. building g dtd ns' (is @ [i]) (cs @ [ASCII_PIPE]) k"],
          use two K_choice in auto)
    qed
  qed
qed

definition reads :: "'m XML_Memory_Handling_Suite \<Rightarrow> bool \<Rightarrow> ctree \<Rightarrow> bool" where
  "reads ms hh t \<longleftrightarrow> (\<forall>g dtd ns is i cs c k.
     building g dtd ns (is @ [i]) (cs @ [c]) k \<longrightarrow> length is = length cs \<longrightarrow> tree_ok t \<longrightarrow>
     length ns + parts t \<le> max_parts \<longrightarrow> k + name_chars t < 2 ^ 32 \<longrightarrow>
     leads ms hh (events (Suc (length cs)) t) g dtd (\<lambda>g dtd Ms. Ms = [] \<and>
       (\<exists>xs. building g dtd (adopted i (length ns) ns @ xs) (is @ [i]) (cs @ [c]) (k + name_chars t) \<and>
         length xs = parts t \<and> rep (adopted i (length ns) ns @ xs) (length ns) t)))"

lemma readsD:
  assumes "reads ms hh t" "building g dtd ns (is @ [i]) (cs @ [c]) k" "length is = length cs" "tree_ok t"
    and "length ns + parts t \<le> max_parts" "k + name_chars t < 2 ^ 32"
  shows "leads ms hh (events (Suc (length cs)) t) g dtd (\<lambda>g dtd Ms. Ms = [] \<and>
       (\<exists>xs. building g dtd (adopted i (length ns) ns @ xs) (is @ [i]) (cs @ [c]) (k + name_chars t) \<and>
         length xs = parts t \<and> rep (adopted i (length ns) ns @ xs) (length ns) t))"
  using assms unfolding reads_def by blast

lemma members_ok:
  assumes "\<And>t. t \<in> set us \<Longrightarrow> reads ms hh t \<and> tree_ok t"
    and "building g dtd ns (is @ [i]) (cs @ [conn kd (length ts)]) k" "length is = length cs"
    and "group_at ns i kd (length ts) ts" "length ns + total us \<le> max_parts" "k + total_chars us < 2 ^ 32"
  shows "leads ms hh (member_events (Suc (length cs)) kd (ts = []) us) g dtd (\<lambda>g dtd Ms. Ms = [] \<and>
    (\<exists>ns'. building g dtd ns' (is @ [i]) (cs @ [conn kd (length (ts @ us))]) (k + total_chars us) \<and>
      group_at ns' i kd (length (ts @ us)) (ts @ us) \<and> take i ns' = take i ns))"
  using assms
proof (induction us arbitrary: g dtd ns ts k)
  case Nil
  then show ?case by auto
next
  case (Cons u us)
  have "length ns \<le> max_parts" using Cons.prems(5) by simp
  note b = before_member_ok [OF Cons.prems(2,3) this Cons.prems(4), of ms hh]
  show ?case unfolding member_events.simps
  proof (rule leads_append [OF b], goal_cases)
    case (1 g1 dtd1 Ms)
    then obtain ns1 where ns1: "building g1 dtd1 ns1 (is @ [i]) (cs @ [conn kd (Suc (length ts))]) k"
      "group_at ns1 i kd (Suc (length ts)) ts" "take i ns1 = take i ns" and Ms: "Ms = []" by blast
    have len: "length ns1 = length ns" using ns1(2) Cons.prems(4) by (simp add: group_at_def)
    have "reads ms hh u" "tree_ok u" using Cons.prems(1) by simp_all
    note r = readsD [OF this(1) ns1(1) Cons.prems(3) this(2)]
    show ?case unfolding Ms append_Nil
    proof (rule leads_append [OF r], goal_cases)
      case 1 then show ?case using Cons.prems(5) len by simp
    next
      case 2 then show ?case using Cons.prems(6) by simp
    next
      case (3 g2 dtd2 Ms2)
      then obtain xs where xs: "building g2 dtd2 (adopted i (length ns1) ns1 @ xs) (is @ [i])
            (cs @ [conn kd (Suc (length ts))]) (k + name_chars u)"
          "length xs = parts u" "rep (adopted i (length ns1) ns1 @ xs) (length ns1) u" and Ms2: "Ms2 = []" by blast
      note gs = group_at_snoc [OF ns1(2) xs(2,3)]
      have ne: "(ts @ [u] = []) = False" by simp
      have l: "leads ms hh (member_events (Suc (length cs)) kd (ts @ [u] = []) us) g2 dtd2 (\<lambda>g dtd Ms. Ms = [] \<and>
          (\<exists>ns'. building g dtd ns' (is @ [i]) (cs @ [conn kd (length ((ts @ [u]) @ us))])
              (k + name_chars u + total_chars us) \<and>
            group_at ns' i kd (length ((ts @ [u]) @ us)) ((ts @ [u]) @ us) \<and>
            take i ns' = take i (adopted i (length ns1) ns1 @ xs)))"
        by (rule Cons.IH) (use Cons.prems xs gs(1) len in auto)
      show ?case unfolding Ms2 append_Nil
        by (rule leads_mono [OF l [unfolded ne]]) (use gs(2) ns1(3) in \<open>auto simp: add.assoc\<close>)
    qed
  qed
qed

lemma opener_ok:
  assumes "building g dtd ns (is @ [i]) cs k" "sc_type (ns ! i) = Some XML_CTYPE_SEQ" "blank_part (ns ! i)"
    and "length ns = Suc i"
  shows "leads ms hh (opener kd d) g dtd (\<lambda>g dtd Ms. Ms = [] \<and>
    (\<exists>ns'. building g dtd ns' (is @ [i]) cs k \<and> group_at ns' i kd 0 [] \<and> take i ns' = take i ns))"
proof (cases "kd = K_mixed")
  case True
  have "leads ms hh [(XML_ROLE_CONTENT_PCDATA, d, None)] g dtd (\<lambda>g dtd Ms. Ms = [] \<and>
      (\<exists>ns'. building g dtd ns' (is @ [i]) cs k \<and> group_at ns' i kd 0 [] \<and> take i ns' = take i ns))"
    by (rule leads_step [where P = "\<lambda>g dtd. building g dtd (ns[i := (ns ! i)\<lparr>sc_type := Some XML_CTYPE_MIXED\<rparr>]) (is @ [i]) cs k"])
      (use CONTENT_PCDATA_ok [OF assms(1)] assms(3,4) True in
        \<open>auto simp: group_at_def blank_part_def intro!: exI [of _ "ns[i := (ns ! i)\<lparr>sc_type := Some XML_CTYPE_MIXED\<rparr>]"]\<close>)
  then show ?thesis using True by simp
next
  case False
  then have "group_at ns i kd 0 []" "opener kd d = []"
    using assms(2-4) by (cases kd; simp add: group_at_def blank_part_def)+
  then show ?thesis using assms(1) by auto
qed

lemma conn_0 [simp]: "conn kd 0 = 0"
  by (cases kd) simp_all

text \<open>A group up to, but without, its closing parenthesis, inside other groups or outermost.\<close>

lemma group_ok:
  assumes "building g dtd ns is cs k" "length is = length cs" "length ns + parts (Node kd us q) \<le> max_parts"
    and "k + total_chars us < 2 ^ 32" "\<And>t. t \<in> set us \<Longrightarrow> reads ms hh t \<and> tree_ok t"
  shows "leads ms hh ((XML_ROLE_GROUP_OPEN, Suc (length cs), None) # opener kd (Suc (length cs)) @
      member_events (Suc (length cs)) kd True us) g dtd (\<lambda>g dtd Ms. Ms = [] \<and>
    (\<exists>ns'. building g dtd ns' (is @ [length ns]) (cs @ [conn kd (length us)]) (k + total_chars us) \<and>
      group_at ns' (length ns) kd (length us) us \<and> take (length ns) ns' = linked is ns))"
proof -
  have lt: "length ns < max_parts" using assms(3) by simp
  have "unat (of_nat (Suc (length cs)) :: 32 word) = Suc (length cs)"
    using assms(1,2) lt by (intro level_word) (simp add: building_def)
  note o = GROUP_OPEN_ok [OF assms(1,2) lt this, of ms]
  define P where "P g dtd \<longleftrightarrow> (\<exists>x. blank_part x \<and> sc_type x = Some XML_CTYPE_SEQ \<and>
      building g dtd (linked is ns @ [x]) (is @ [length ns]) (cs @ [0]) k)" for g dtd
  show ?thesis
  proof (rule leads_step [where P = P])
    show "ends ms (content_role ms hh XML_ROLE_GROUP_OPEN (of_nat (Suc (length cs))) None g dtd m)
        (\<lambda>g dtd M. M = None \<and> P g dtd)" for m
      using o unfolding P_def content_role_group .
  next
    fix g1 dtd1 assume "P g1 dtd1"
    then obtain x where x: "blank_part x" "sc_type x = Some XML_CTYPE_SEQ"
        "building g1 dtd1 (linked is ns @ [x]) (is @ [length ns]) (cs @ [0]) k" unfolding P_def by blast
    note op = opener_ok [OF x(3), of ms hh kd "Suc (length cs)"]
    show "leads ms hh (opener kd (Suc (length cs)) @ member_events (Suc (length cs)) kd True us) g1 dtd1
        (\<lambda>g dtd Ms. Ms = [] \<and> (\<exists>ns'. building g dtd ns' (is @ [length ns]) (cs @ [conn kd (length us)]) (k + total_chars us) \<and>
          group_at ns' (length ns) kd (length us) us \<and> take (length ns) ns' = linked is ns))"
    proof (rule leads_append [OF op], goal_cases)
      case (4 g2 dtd2 Ms)
      then obtain ns2 where ns2: "building g2 dtd2 ns2 (is @ [length ns]) (cs @ [conn kd (length ([] :: ctree list))]) k"
          "group_at ns2 (length ns) kd (length ([] :: ctree list)) []" "take (length ns) ns2 = linked is ns" and Ms: "Ms = []" by auto
      have "length ns2 + total us \<le> max_parts" using ns2(2) assms(3) by (simp add: group_at_def)
      note m = members_ok [OF assms(5) ns2(1) assms(2) ns2(2) this assms(4)]
      show ?case unfolding Ms append_Nil using m ns2(3) by simp
    qed (use x in \<open>simp_all add: nth_append\<close>)
  qed
qed

lemma reads_Node:
  assumes "\<And>t. t \<in> set us \<Longrightarrow> reads ms hh t"
  shows "reads ms hh (Node kd us q)"
  unfolding reads_def
proof (intro allI impI)
  fix g dtd ns "is" i cs c k
  assume a: "building g dtd ns (is @ [i]) (cs @ [c]) k" "length is = length cs" "tree_ok (Node kd us q)"
    "length ns + parts (Node kd us q) \<le> max_parts" "k + name_chars (Node kd us q) < 2 ^ 32"
  have len: "length (is @ [i]) = length (cs @ [c])" using a(2) by simp
  have t: "k + total_chars us < 2 ^ 32" "\<And>t. t \<in> set us \<Longrightarrow> reads ms hh t \<and> tree_ok t"
    using a(3,5) assms by (auto simp: list_all_iff)
  note g = group_ok [OF a(1) len a(4) t]
  have ev: "events (Suc (length cs)) (Node kd us q) =
      ((XML_ROLE_GROUP_OPEN, Suc (length (cs @ [c])), None) # opener kd (Suc (length (cs @ [c]))) @
       member_events (Suc (length (cs @ [c]))) kd True us) @
      [(node_role q, (if kd = K_mixed then Suc (Suc (length cs)) else Suc (length cs)), None)]" by simp
  show "leads ms hh (events (Suc (length cs)) (Node kd us q)) g dtd (\<lambda>g dtd Ms. Ms = [] \<and>
      (\<exists>xs. building g dtd (adopted i (length ns) ns @ xs) (is @ [i]) (cs @ [c]) (k + name_chars (Node kd us q)) \<and>
        length xs = parts (Node kd us q) \<and> rep (adopted i (length ns) ns @ xs) (length ns) (Node kd us q)))"
    unfolding ev
  proof (rule leads_append [OF g], goal_cases)
    case (1 t) then show ?case .
  next
    case (2 g1 dtd1 Ms)
    then obtain ns' where ns': "building g1 dtd1 ns' ((is @ [i]) @ [length ns]) ((cs @ [c]) @ [conn kd (length us)]) (k + total_chars us)"
      "group_at ns' (length ns) kd (length us) us" "take (length ns) ns' = linked (is @ [i]) ns" and Ms: "Ms = []" by blast
    define ns2 where "ns2 = ns'[length ns := (ns' ! length ns)\<lparr>sc_quant := Some q\<rparr>]"
    have "kids ns' (Suc (length ns)) us = kids ns2 (Suc (length ns)) us" by (rule rep_kids_cong(2)) (simp add: ns2_def)
    then have r: "rep ns2 (length ns) (Node kd us q)"
      using ns'(2) by (simp add: group_at_def ns2_def)
    have "take (length ns) ns2 = adopted i (length ns) ns" using ns'(3) by (simp add: ns2_def linked_def)
    then obtain xs where split: "ns2 = adopted i (length ns) ns @ xs" by (metis append_take_drop_id)
    have "length ns2 = length ns + parts (Node kd us q)" using ns'(2) by (simp add: ns2_def group_at_def)
    then have xs: "length xs = parts (Node kd us q)" using split by simp
    show ?case unfolding Ms append_Nil
    proof (rule leads_step [where P = "\<lambda>g dtd. building g dtd ns2 (is @ [i]) (cs @ [c]) (k + total_chars us)"])
      show "ends ms (content_role ms hh (node_role q) lv None g1 dtd1 m)
          (\<lambda>g dtd M. M = None \<and> building g dtd ns2 (is @ [i]) (cs @ [c]) (k + total_chars us))" for lv m
        unfolding content_role_node ns2_def using GROUP_CLOSE_ok [OF ns'(1), of ms hh q m] by simp
    next
      fix g2 dtd2 assume "building g2 dtd2 ns2 (is @ [i]) (cs @ [c]) (k + total_chars us)"
      with r xs show "leads ms hh [] g2 dtd2 (\<lambda>g dtd Ms. Ms = [] \<and>
          (\<exists>xs. building g dtd (adopted i (length ns) ns @ xs) (is @ [i]) (cs @ [c]) (k + name_chars (Node kd us q)) \<and>
            length xs = parts (Node kd us q) \<and> rep (adopted i (length ns) ns @ xs) (length ns) (Node kd us q)))"
        unfolding split leads_Nil name_chars.simps by blast
    qed
  qed
qed

lemma reads_Leaf: "reads ms hh (Leaf q s)"
  unfolding reads_def
proof (intro allI impI)
  fix g dtd ns "is" i cs c k
  assume a: "building g dtd ns (is @ [i]) (cs @ [c]) k" "length is = length cs" "tree_ok (Leaf q s)"
    "length ns + parts (Leaf q s) \<le> max_parts" "k + name_chars (Leaf q s) < 2 ^ 32"
  then have h: "length ns < max_parts" "0 \<notin> set s" "k + Suc (length s) < 2 ^ 32" by simp_all
  define P where "P g dtd \<longleftrightarrow> (\<exists>x. blank_part x \<and> sc_type x = Some XML_CTYPE_NAME \<and> sc_quant x = Some q \<and>
      sc_name x = Some (s @ [0]) \<and> building g dtd (linked (is @ [i]) ns @ [x]) (is @ [i]) (cs @ [c]) (k + Suc (length s)))"
    for g dtd
  have "leads ms hh [(leaf_role q, Suc (length cs), Some (s @ [0]))] g dtd (\<lambda>g dtd Ms. Ms = [] \<and> P g dtd)"
    by (rule leads_step [where P = P])
      (use CONTENT_ELEMENT_ok [OF a(1) h, of ms q] in \<open>simp_all add: content_role_leaf P_def\<close>)
  then show "leads ms hh (events (Suc (length cs)) (Leaf q s)) g dtd (\<lambda>g dtd Ms. Ms = [] \<and>
      (\<exists>xs. building g dtd (adopted i (length ns) ns @ xs) (is @ [i]) (cs @ [c]) (k + name_chars (Leaf q s)) \<and>
        length xs = parts (Leaf q s) \<and> rep (adopted i (length ns) ns @ xs) (length ns) (Leaf q s)))"
    unfolding events.simps
  proof (rule leads_mono)
    fix g dtd Ms assume "Ms = [] \<and> P g dtd"
    then obtain x where "Ms = []" "sc_type x = Some XML_CTYPE_NAME" "sc_quant x = Some q" "sc_name x = Some (s @ [0])"
      "building g dtd (adopted i (length ns) ns @ [x]) (is @ [i]) (cs @ [c]) (k + Suc (length s))"
      by (auto simp: P_def linked_def)
    then show "Ms = [] \<and>
        (\<exists>xs. building g dtd (adopted i (length ns) ns @ xs) (is @ [i]) (cs @ [c]) (k + name_chars (Leaf q s)) \<and>
          length xs = parts (Leaf q s) \<and> rep (adopted i (length ns) ns @ xs) (length ns) (Leaf q s))"
      by (intro conjI exI [of _ "[x]"]) (simp_all add: nth_append)
  qed
qed

lemma reads_all: "reads ms hh t"
proof (induction t)
  case (Leaf q s)
  show ?case by (rule reads_Leaf)
next
  case (Node kd us q)
  then show ?case by (rule reads_Node)
qed

end
