(* ===== verification/Xml_Content_Model.thy ===== *)
theory Xml_Content_Model
  imports Xml_Content_Runs
begin

text \<open>
  \<open>build_model\<close> copies a scaffold in preorder into the block it allocates: every cell and every
  character is written once, inside the block, and the cells represent the tree.
\<close>

section \<open>What a model represents\<close>

fun name_at :: "byte option list \<Rightarrow> nat \<Rightarrow> byte list \<Rightarrow> bool" where
  "name_at cs p [] \<longleftrightarrow> p < length cs \<and> cs ! p = Some 0"
| "name_at cs p (c # s) \<longleftrightarrow> p < length cs \<and> cs ! p = Some c \<and> name_at cs (Suc p) s"

fun represents :: "model \<Rightarrow> nat \<Rightarrow> content \<Rightarrow> bool"
  and represents_all :: "model \<Rightarrow> nat \<Rightarrow> content list \<Rightarrow> bool" where
  "represents M d (Content ty q nm cs) \<longleftrightarrow> d < length (cells M) \<and>
     (case cells M ! d of
        None \<Rightarrow> False
      | Some c \<Rightarrow> cp_type c = ty \<and> cp_quant c = q \<and> cp_numchildren c = length cs \<and>
          (case nm of
             None \<Rightarrow> cp_name c = None
           | Some s \<Rightarrow> (case cp_name c of None \<Rightarrow> False | Some p \<Rightarrow> name_at (chars M) p s)) \<and>
          (case cp_children c of None \<Rightarrow> cs = [] | Some p \<Rightarrow> represents_all M p cs))"
| "represents_all M d [] \<longleftrightarrow> True"
| "represents_all M d (c # cs) \<longleftrightarrow> represents M d c \<and> represents_all M (Suc d) cs"

section \<open>Filling a block\<close>

text \<open>\<open>M'\<close> has everything that was written in \<open>M\<close>.\<close>

definition retains :: "'a option list \<Rightarrow> 'a option list \<Rightarrow> bool" where
  "retains xs ys \<longleftrightarrow> length ys = length xs \<and> (\<forall>i < length xs. xs ! i \<noteq> None \<longrightarrow> ys ! i = xs ! i)"

lemma retains_refl [simp]: "retains xs xs"
  by (simp add: retains_def)

lemma retains_trans: "retains xs ys \<Longrightarrow> retains ys zs \<Longrightarrow> retains xs zs"
  by (simp add: retains_def)

lemma retains_at: "retains xs ys \<Longrightarrow> i < length xs \<Longrightarrow> xs ! i = Some x \<Longrightarrow> ys ! i = Some x"
  by (simp add: retains_def)

lemma retains_put:
  assumes "xs ! i = None"
  shows "retains xs (xs[i := x])"
proof -
  have "xs[i := x] ! j = xs ! j" if "xs ! j \<noteq> None" for j
    using that assms by (cases "j = i") auto
  then show ?thesis by (simp add: retains_def)
qed

lemma name_at_retains: "name_at xs p s \<Longrightarrow> retains xs ys \<Longrightarrow> name_at ys p s"
  by (induction xs p s rule: name_at.induct) (auto simp: retains_def)

lemma represents_retains:
  "represents M d c \<Longrightarrow> retains (cells M) (cells M') \<Longrightarrow> retains (chars M) (chars M') \<Longrightarrow> represents M' d c"
  "represents_all M d cs \<Longrightarrow> retains (cells M) (cells M') \<Longrightarrow> retains (chars M) (chars M') \<Longrightarrow> represents_all M' d cs"
proof (induction M d c and M d cs rule: represents_represents_all.induct)
  case (1 M d ty q nm cs)
  then obtain c where c: "d < length (cells M)" "cells M ! d = Some c" by (auto split: option.splits)
  then have "d < length (cells M')" "cells M' ! d = Some c"
    using 1(3) retains_at by (auto simp: retains_def)
  then show ?case using 1 c name_at_retains by (auto split: option.splits)
qed simp_all

text \<open>The cells from \<open>contpos\<close> and the characters from \<open>strpos\<close> on have not been written.\<close>

definition vacant :: "model \<Rightarrow> bool" where
  "vacant M \<longleftrightarrow> (\<forall>i. contpos M \<le> i \<longrightarrow> i < length (cells M) \<longrightarrow> cells M ! i = None) \<and>
     (\<forall>i. strpos M \<le> i \<longrightarrow> i < length (chars M) \<longrightarrow> chars M ! i = None)"

definition grown :: "model \<Rightarrow> model \<Rightarrow> nat set \<Rightarrow> bool" where
  "grown M M' D \<longleftrightarrow> vacant M' \<and> retains (cells M) (cells M') \<and> retains (chars M) (chars M') \<and>
     contpos M \<le> contpos M' \<and> (\<forall>j < contpos M. j \<notin> D \<longrightarrow> cells M' ! j = cells M ! j)"

lemma grown_trans: "grown M M1 D \<Longrightarrow> grown M1 M2 E \<Longrightarrow> grown M M2 (D \<union> E)"
  unfolding grown_def using retains_trans [of "cells M" "cells M1"] retains_trans [of "chars M" "chars M1"] by auto

lemma copy_name_ok:
  assumes "0 \<notin> set s" "strpos M + Suc (length s) \<le> length (chars M)" "vacant M"
  shows "\<exists>M'. copy_name (s @ [0]) M = Some M' \<and> name_at (chars M') (strpos M) s \<and> grown M M' {} \<and>
    cells M' = cells M \<and> contpos M' = contpos M \<and> strpos M' = strpos M + Suc (length s)"
  using assms
proof (induction s arbitrary: M)
  case Nil
  then show ?case by (auto simp: Let_def grown_def vacant_def intro!: retains_put)
next
  case (Cons c s)
  define N where "N = M\<lparr>chars := (chars M)[strpos M := Some c], strpos := strpos M + 1\<rparr>"
  have N: "vacant N" "strpos N + Suc (length s) \<le> length (chars N)" "retains (chars M) (chars N)"
    using Cons.prems by (auto simp: N_def vacant_def intro!: retains_put)
  from Cons.IH [OF _ N(2,1)] Cons.prems(1) obtain M' where
    M': "copy_name (s @ [0]) N = Some M'" "name_at (chars M') (strpos N) s" "grown N M' {}" "cells M' = cells N"
      "contpos M' = contpos N" "strpos M' = strpos N + Suc (length s)" by auto
  have "chars M' ! strpos M = Some c" "length (chars M') = length (chars M)"
    using M'(3) Cons.prems(2) by (auto simp: grown_def retains_def N_def)
  moreover have "copy_name ((c # s) @ [0]) M = Some M'"
    using M'(1) Cons.prems by (simp add: Let_def N_def)
  moreover have "grown M M' {}" using M'(3-5) retains_trans [OF N(3)] by (simp add: grown_def N_def)
  ultimately show ?case using M'(2,4-6) Cons.prems(2) by (auto simp: N_def)
qed

lemma put_cell_ok:
  assumes "vacant M" "d < contpos M" "contpos M \<le> length (cells M)" "cells M ! d = None"
  shows "\<exists>M'. put_cell d c M = Some M' \<and> M' = M\<lparr>cells := (cells M)[d := Some c]\<rparr> \<and> grown M M' {d} \<and>
    cells M' ! d = Some c"
  using assms by (auto simp: put_cell_def grown_def vacant_def intro!: retains_put)

section \<open>The copy\<close>

text \<open>
  The \<open>n\<close> parts \<open>cs\<close> go to the cells \<open>D\<close> reserved for their roots and to the cells from \<open>contpos\<close> on.
\<close>

definition copied :: "model \<Rightarrow> model \<Rightarrow> nat \<Rightarrow> nat \<Rightarrow> nat \<Rightarrow> nat \<Rightarrow> bool" where
  "copied M M' dest roots n k \<longleftrightarrow> grown M M' {dest..<dest + roots} \<and>
     contpos M' + roots = contpos M + n \<and> strpos M' = strpos M + k"

definition room :: "model \<Rightarrow> nat \<Rightarrow> nat \<Rightarrow> nat \<Rightarrow> nat \<Rightarrow> bool" where
  "room M dest roots n k \<longleftrightarrow> vacant M \<and> dest + roots \<le> contpos M \<and>
     contpos M + n \<le> length (cells M) + roots \<and> roots \<le> n \<and> strpos M + k \<le> length (chars M) \<and>
     (\<forall>j. dest \<le> j \<longrightarrow> j < dest + roots \<longrightarrow> cells M ! j = None)"

lemma length_le_total: "length ts \<le> total ts"
  by (induction ts) (auto simp: Suc_le_eq add_strict_increasing)

lemma grown_restrict: "grown M M' (D \<union> E) \<Longrightarrow> (\<And>j. j \<in> E \<Longrightarrow> contpos M \<le> j) \<Longrightarrow> grown M M' D"
  unfolding grown_def using linorder_not_le by (metis Un_iff)

lemma build_leaf:
  assumes "array_at A i = Some p" "sc_type p = Some XML_CTYPE_NAME" "sc_quant p = Some q" "sc_name p = Some (s @ [0])"
    and "0 \<notin> set s" "room M dest 1 1 (Suc (length s))"
  shows "\<exists>M'. build_node (Suc f) A i dest M = Some M' \<and> copied M M' dest 1 1 (Suc (length s)) \<and>
    represents M' dest (content_of (Leaf q s))"
proof -
  define c where "c = \<lparr>cp_type = XML_CTYPE_NAME, cp_quant = q, cp_name = Some (strpos M), cp_numchildren = 0, cp_children = None\<rparr>"
  from put_cell_ok [of M dest c] assms(6) obtain M1 where
    M1: "put_cell dest c M = Some M1" "M1 = M\<lparr>cells := (cells M)[dest := Some c]\<rparr>" "grown M M1 {dest}"
      "cells M1 ! dest = Some c" by (auto simp: room_def)
  from copy_name_ok [OF assms(5), of M1] assms(6) M1(2,3) obtain M2 where
    M2: "copy_name (s @ [0]) M1 = Some M2" "name_at (chars M2) (strpos M) s" "grown M1 M2 {}" "cells M2 = cells M1"
      "contpos M2 = contpos M" "strpos M2 = strpos M + Suc (length s)" by (auto simp: room_def grown_def)
  have "build_node (Suc f) A i dest M = Some M2"
    using assms(1-4) M1(1) M2(1) by (simp add: c_def)
  moreover have "copied M M2 dest 1 1 (Suc (length s))"
    using grown_trans [OF M1(3) M2(3)] M2(5,6) by (simp add: copied_def)
  moreover have "represents M2 dest (content_of (Leaf q s))"
    using assms(6) M1(2,4) M2(2,4) by (simp add: c_def room_def)
  ultimately show ?thesis by blast
qed

lemma node_room:
  assumes "room M dest 1 (Suc (total us)) k"
    and M1: "M1 = M\<lparr>contpos := contpos M + length us, cells := (cells M)[dest := Some c]\<rparr>"
  shows "grown M M1 {dest}" "room M1 (contpos M) (length us) (total us) k" "dest < length (cells M)"
  using assms length_le_total [of us] by (auto simp: room_def grown_def vacant_def intro!: retains_put)

lemma build_group:
  assumes "array_at A i = Some p" "sc_type p = Some (kind_type kd (length us))" "sc_quant p = Some q"
    and "sc_childcnt p = length us" "room M dest 1 (Suc (total us)) k"
    and kids: "\<And>M d. room M d (length us) (total us) k \<Longrightarrow>
      \<exists>M'. build_children f A (length us) (sc_firstchild p) d M = Some M' \<and>
        copied M M' d (length us) (total us) k \<and> represents_all M' d (map content_of us)"
  shows "\<exists>M'. build_node (Suc f) A i dest M = Some M' \<and> copied M M' dest 1 (Suc (total us)) k \<and>
    represents M' dest (content_of (Node kd us q))"
proof -
  define c where "c = \<lparr>cp_type = kind_type kd (length us), cp_quant = q, cp_name = None,
    cp_numchildren = length us, cp_children = Some (contpos M)\<rparr>"
  define M1 where "M1 = M\<lparr>contpos := contpos M + length us, cells := (cells M)[dest := Some c]\<rparr>"
  note r = node_room [OF assms(5) M1_def]
  have M1: "put_cell dest c (M\<lparr>contpos := contpos M + length us\<rparr>) = Some M1" "cells M1 ! dest = Some c"
    using r(3) by (simp_all add: put_cell_def M1_def)
  from kids [OF r(2)] obtain M2 where
    M2: "build_children f A (length us) (sc_firstchild p) (contpos M) M1 = Some M2"
      "copied M1 M2 (contpos M) (length us) (total us) k" "represents_all M2 (contpos M) (map content_of us)" by blast
  have "kind_type kd (length us) \<noteq> XML_CTYPE_NAME" by (cases kd) simp_all
  then have "build_node (Suc f) A i dest M = Some M2"
    using assms(1-4) M1(1) M2(1) by (simp add: c_def Let_def)
  moreover have "grown M M2 ({dest} \<union> {contpos M..<contpos M + length us})"
    by (rule grown_trans [OF r(1)]) (use M2(2) in \<open>simp add: copied_def\<close>)
  then have "grown M M2 {dest}" by (rule grown_restrict) simp
  then have "copied M M2 dest 1 (Suc (total us)) k" using M2(2) by (simp add: copied_def M1_def)
  moreover have "cells M2 ! dest = Some c" "dest < length (cells M2)"
    using M2(2) M1(2) r(3) by (auto simp: copied_def grown_def retains_def M1_def)
  then have "represents M2 dest (content_of (Node kd us q))" using M2(3) by (simp add: c_def)
  ultimately show ?thesis by blast
qed

lemma build_member:
  assumes "array_at A a = Some p" "us \<noteq> [] \<Longrightarrow> sc_nextsib p = b"
    and "room M dest (Suc (length us)) (parts u + total us) (name_chars u + total_chars us)"
    and node: "\<And>M d. room M d 1 (parts u) (name_chars u) \<Longrightarrow>
      \<exists>M'. build_node f A a d M = Some M' \<and> copied M M' d 1 (parts u) (name_chars u) \<and>
        represents M' d (content_of u)"
    and kids: "\<And>cn M d. us \<noteq> [] \<longrightarrow> cn = b \<Longrightarrow> room M d (length us) (total us) (total_chars us) \<Longrightarrow>
      \<exists>M'. build_children f A (length us) cn d M = Some M' \<and>
        copied M M' d (length us) (total us) (total_chars us) \<and> represents_all M' d (map content_of us)"
  shows "\<exists>M'. build_children (Suc f) A (Suc (length us)) a dest M = Some M' \<and>
    copied M M' dest (Suc (length us)) (parts u + total us) (name_chars u + total_chars us) \<and>
    represents_all M' dest (map content_of (u # us))"
proof -
  have "room M dest 1 (parts u) (name_chars u)"
    using assms(3) length_le_total [of us] parts_pos(1) [of u] by (auto simp: room_def Suc_le_eq)
  from node [OF this] obtain M1 where M1: "build_node f A a dest M = Some M1"
    "copied M M1 dest 1 (parts u) (name_chars u)" "represents M1 dest (content_of u)" by blast
  have "room M1 (Suc dest) (length us) (total us) (total_chars us)"
    using assms(3) M1(2) length_le_total [of us] by (auto simp: room_def copied_def grown_def retains_def)
  from kids [OF _ this, of "sc_nextsib p"] assms(2) obtain M2 where
    M2: "build_children f A (length us) (sc_nextsib p) (Suc dest) M1 = Some M2"
      "copied M1 M2 (Suc dest) (length us) (total us) (total_chars us)"
      "represents_all M2 (Suc dest) (map content_of us)" by auto
  have "build_children (Suc f) A (Suc (length us)) a dest M = Some M2"
    using M1(1) M2(1) assms(1) by simp
  moreover have "{dest..<dest + 1} \<union> {Suc dest..<Suc dest + length us} = {dest..<dest + Suc (length us)}" by auto
  then have "copied M M2 dest (Suc (length us)) (parts u + total us) (name_chars u + total_chars us)"
    using M1(2) M2(2) grown_trans [of M M1 "{dest..<dest + 1}" M2 "{Suc dest..<Suc dest + length us}"]
    by (simp add: copied_def)
  moreover have "represents M2 dest (content_of u)"
    using represents_retains(1) [OF M1(3)] M2(2) by (simp add: copied_def grown_def)
  ultimately show ?thesis using M2(3) by auto
qed

lemma build_ok:
  "\<lbrakk>filled A ns zs; rep ns i t; i + parts t \<le> length ns; tree_ok t; 2 * parts t \<le> f;
    room M dest 1 (parts t) (name_chars t)\<rbrakk> \<Longrightarrow>
   \<exists>M'. build_node f A i dest M = Some M' \<and> copied M M' dest 1 (parts t) (name_chars t) \<and>
     represents M' dest (content_of t)"
  "\<lbrakk>filled A ns zs; kids ns a ts; a + total ts \<le> length ns; list_all tree_ok ts; Suc (2 * total ts) \<le> f;
    ts \<noteq> [] \<longrightarrow> cn = a; room M dest (length ts) (total ts) (total_chars ts)\<rbrakk> \<Longrightarrow>
   \<exists>M'. build_children f A (length ts) cn dest M = Some M' \<and>
     copied M M' dest (length ts) (total ts) (total_chars ts) \<and> represents_all M' dest (map content_of ts)"
proof (induction ns i t and ns a ts arbitrary: f M dest and f cn M dest rule: rep_kids.induct)
  case (1 ns i q s)
  moreover obtain n where "f = Suc n" using 1(5) by (cases f) auto
  ultimately show ?case using build_leaf [of A i "ns ! i" q s M dest n] filled_at [OF 1(1), of i] by simp
next
  case (2 ns i k cs q)
  obtain n where n: "f = Suc n" using 2(6) by (cases f) auto
  have "\<exists>M'. build_children n A (length cs) (sc_firstchild (ns ! i)) d M = Some M' \<and>
      copied M M' d (length cs) (total cs) (total_chars cs) \<and> represents_all M' d (map content_of cs)"
    if "room M d (length cs) (total cs) (total_chars cs)" for M d
    by (rule 2(1) [OF 2(2)]) (use 2 n that in auto)
  then show ?case
    using build_group [of A i "ns ! i" k cs q M dest "total_chars cs" n] 2(3,4,7) n filled_at [OF 2(2), of i] by simp
next
  case (3 ns a)
  then show ?case by (auto simp: copied_def grown_def room_def)
next
  case (4 ns a c cs)
  obtain n where n: "f = Suc n" using 4(7) by (cases f) auto
  have p: "parts c \<ge> 1" by (simp add: Suc_le_eq)
  have a: "array_at A a = Some (ns ! a)" using filled_at [OF 4(3)] 4(5) p by simp
  have 1: "\<exists>M'. build_node n A a d M = Some M' \<and> copied M M' d 1 (parts c) (name_chars c) \<and> represents M' d (content_of c)"
    if "room M d 1 (parts c) (name_chars c)" for M d
    by (rule 4(1) [OF 4(3)]) (use 4 n that in auto)
  have 2: "\<exists>M'. build_children n A (length cs) cn d M = Some M' \<and>
      copied M M' d (length cs) (total cs) (total_chars cs) \<and> represents_all M' d (map content_of cs)"
    if "cs \<noteq> [] \<longrightarrow> cn = a + parts c" "room M d (length cs) (total cs) (total_chars cs)" for cn M d
    by (rule 4(2) [OF 4(3)]) (use 4 n that p in auto)
  show ?case
    using build_member [of A a "ns ! a" cs "a + parts c" M dest c n, OF a _ _ 1 2] 4(4,8,9) n by simp
qed

section \<open>A whole declaration\<close>

definition whole_model :: "ctree \<Rightarrow> model \<Rightarrow> bool" where
  "whole_model t M \<longleftrightarrow> represents M 0 (content_of t) \<and>
     length (cells M) = parts t \<and> contpos M = parts t \<and> length (chars M) = name_chars t \<and> strpos M = name_chars t"

lemma build_model_ok:
  assumes "scaffold_ok dtd ns" "length ns = parts t" "rep ns 0 t" "tree_ok t" "parts t \<le> max_parts"
    and "unat (contentStringLen dtd) = name_chars t" "name_chars t < 2 ^ 31"
  shows "\<exists>r m'. build_model ms dtd m = Some (r, m') \<and> (r = None \<and> refuses ms \<or> (\<exists>M. r = Some M \<and> whole_model t M))"
proof -
  let ?n = "parts t" and ?k = "name_chars t"
  have cnt: "unat (scaffCount dtd) = ?n" using assms(1,2) by (simp add: scaffold_ok_def)
  have "scaffold dtd \<noteq> None" using assms(1,2) by (auto simp: scaffold_ok_def split: if_split_asm)
  then obtain zs where A: "filled (scaffold dtd) ns zs" using assms(1) by (auto simp: scaffold_ok_def)
  have mul: "unat (scaffCount dtd * sizeof_XML_Content) = ?n * 20"
    using unat_times [of "scaffCount dtd" sizeof_XML_Content] cnt assms(5) by (simp add: sizeof_XML_Content_def max_parts_def)
  have al: "unat (scaffCount dtd * sizeof_XML_Content + contentStringLen dtd) = ?n * 20 + ?k"
    using unat_add_lem [of "scaffCount dtd * sizeof_XML_Content" "contentStringLen dtd"] mul assms(5-7)
    by (simp add: max_parts_def)
  define M0 where "M0 = \<lparr>cells = replicate ?n None, chars = replicate ?k None, contpos = 1, strpos = 0\<rparr>"
  have "room M0 0 1 ?n ?k" using parts_pos(1) [of t] by (auto simp: room_def vacant_def M0_def Suc_le_eq)
  with build_ok(1) [OF A assms(3) _ assms(4), of "2 * ?n" M0 0] assms(2) obtain M where
    M: "build_node (2 * ?n) (scaffold dtd) 0 0 M0 = Some M" "copied M0 M 0 1 ?n ?k" "represents M 0 (content_of t)" by auto
  have w: "whole_model t M" using M(2,3) by (simp add: whole_model_def copied_def grown_def retains_def M0_def)
  obtain p m' where p: "malloc_fcn ms (scaffCount dtd * sizeof_XML_Content + contentStringLen dtd) m = (p, m')"
    by (metis prod.exhaust)
  show ?thesis
  proof (cases p)
    case None
    then show ?thesis using p malloc_refused by (auto simp: build_model_def)
  next
    case (Some a)
    have "build_model ms dtd m = Some (Some M, m')"
      using p Some al cnt M(1) by (simp add: build_model_def Let_def M0_def sizeof_XML_Content_def)
    then show ?thesis using w by blast
  qed
qed

text \<open>The state between two declarations.\<close>

definition idle :: "group_state \<Rightarrow> content_dtd \<Rightarrow> bool" where
  "idle g dtd \<longleftrightarrow> scaffold_ok (dtd\<lparr>scaffCount := 0\<rparr>) [] \<and> index_ok g (dtd\<lparr>scaffLevel := 0\<rparr>) [] \<and>
     groups_ok g [] \<and> contentStringLen dtd = 0"

lemma idle_start: "idle g dtd \<Longrightarrow> building g (role_ELEMENT_NAME True dtd) [] [] [] 0"
proof -
  assume a: "idle g dtd"
  have r: "role_ELEMENT_NAME True dtd = dtd\<lparr>scaffCount := 0, scaffLevel := 0, in_eldecl := True\<rparr>"
    "role_ELEMENT_NAME True dtd = dtd\<lparr>scaffLevel := 0, scaffCount := 0, in_eldecl := True\<rparr>"
    by (simp_all add: role_ELEMENT_NAME_def)
  have "scaffold_ok (role_ELEMENT_NAME True dtd) []" unfolding r(1) using a by (simp add: idle_def)
  moreover have "index_ok g (role_ELEMENT_NAME True dtd) []" unfolding r(2) using a by (simp add: idle_def)
  ultimately show ?thesis using a by (simp add: building_def idle_def role_ELEMENT_NAME_def)
qed

lemma scaffold_reset:
  assumes "scaffold_ok dtd ns"
  shows "scaffold_ok (dtd\<lparr>scaffCount := 0\<rparr>) []"
proof (cases "scaffold dtd = None")
  case False
  then obtain zs where zs: "filled (scaffold dtd) ns zs" "length ns + length zs = unat (scaffSize dtd)"
    using assms by (auto simp: scaffold_ok_def)
  have "filled (scaffold dtd) [] (map Some ns @ zs)" using zs(1) by (simp add: filled_def)
  then show ?thesis using assms False zs(2) by (auto simp: scaffold_ok_def intro!: exI [of _ "map Some ns @ zs"])
qed (use assms in \<open>simp add: scaffold_ok_def\<close>)

lemma close_last:
  assumes "building g dtd ns [i] [c] k" "ns' = ns[i := (ns ! i)\<lparr>sc_quant := Some q\<rparr>]"
    and "length ns' = parts t" "rep ns' 0 t" "tree_ok t" "parts t \<le> max_parts" "k = name_chars t" "name_chars t < 2 ^ 31"
  shows "ends ms (role_GROUP_CLOSE ms True q g dtd m) (\<lambda>g dtd M. idle g dtd \<and> (\<exists>M'. M = Some M' \<and> whole_model t M'))"
proof -
  have b1: "building g dtd ns ([] @ [i]) ([] @ [c]) k" using assms(1) by simp
  note top = building_top [OF b1]
  let ?f = "\<lambda>p. p\<lparr>sc_quant := Some q\<rparr> :: CONTENT_SCAFFOLD"
  from building_upd [OF assms(1) top(2), of ?f] obtain A where
    A: "array_upd i ?f (scaffold dtd) = Some A" "building g (dtd\<lparr>scaffold := A\<rparr>) ns' [i] [c] k"
    unfolding assms(2) by auto
  define d where "d = dtd\<lparr>scaffLevel := 0, scaffold := A\<rparr>"
  have d: "d = dtd\<lparr>scaffold := A, scaffLevel := 0\<rparr>" by (simp add: d_def)
  have lev: "scaffLevel dtd = 1" "in_eldecl dtd" using assms(1) by (simp_all add: building_def index_ok_def)
  have sc: "scaffold_ok d ns'" "unat (contentStringLen d) = name_chars t"
    using A(2) assms(7) unfolding d by (simp_all add: building_def)
  from build_model_ok [OF sc(1) assms(3-6) sc(2) assms(8), of ms m] obtain r m' where
    r: "build_model ms d m = Some (r, m')" "r = None \<and> refuses ms \<or> (\<exists>M. r = Some M \<and> whole_model t M)" by blast
  have "idle g (d\<lparr>in_eldecl := False, contentStringLen := 0\<rparr>)"
  proof -
    have eq: "d\<lparr>in_eldecl := False, contentStringLen := 0\<rparr>\<lparr>scaffCount := 0\<rparr> =
        d\<lparr>scaffCount := 0, in_eldecl := False, contentStringLen := 0\<rparr>"
      "d\<lparr>in_eldecl := False, contentStringLen := 0\<rparr>\<lparr>scaffLevel := 0\<rparr> =
        d\<lparr>in_eldecl := False, contentStringLen := 0\<rparr>" by (simp_all add: d_def)
    have "index_ok g d []" "groups_ok g []"
      using A(2) index_last(2) [of g "dtd\<lparr>scaffold := A\<rparr>" "[]" i] groups_last(3) [of g "[]" c]
      unfolding d by (simp_all add: building_def)
    then show ?thesis using scaffold_reset [OF sc(1)] unfolding idle_def eq by simp
  qed
  then show ?thesis using A(1) top lev r
    by (cases r) (simp_all add: role_GROUP_CLOSE_def d_def)
qed

lemma leads_model:
  assumes "idle g dtd" "tree_ok (Node kd us q)" "parts (Node kd us q) \<le> max_parts" "name_chars (Node kd us q) < 2 ^ 31"
  shows "leads ms True (events 0 (Node kd us q)) g (role_ELEMENT_NAME True dtd) (\<lambda>g dtd Ms. idle g dtd \<and>
    (\<exists>M. Ms = [M] \<and> whole_model (Node kd us q) M))"
proof -
  let ?t = "Node kd us q"
  have t: "0 + total_chars us < 2 ^ 32" "\<And>t. t \<in> set us \<Longrightarrow> reads ms True t \<and> tree_ok t"
    using assms(2,4) reads_all by (auto simp: list_all_iff)
  have p: "length [] + parts ?t \<le> max_parts" "length ([] :: nat list) = length ([] :: byte list)" using assms(3) by simp_all
  note g = group_ok [OF idle_start [OF assms(1)] p(2,1) t]
  have ev: "events 0 ?t = ((XML_ROLE_GROUP_OPEN, Suc (length ([] :: byte list)), None) # opener kd (Suc (length ([] :: byte list))) @
       member_events (Suc (length ([] :: byte list))) kd True us) @
      [(node_role q, (if kd = K_mixed then 1 else 0), None)]" by simp
  show ?thesis unfolding ev
  proof (rule leads_append [OF g], goal_cases)
    case (1 t) then show ?case .
  next
    case (2 g1 dtd1 Ms)
    then obtain ns' where ns': "building g1 dtd1 ns' [0] [conn kd (length us)] (total_chars us)"
      "group_at ns' 0 kd (length us) us" and Ms: "Ms = []" by auto
    define ns2 where "ns2 = ns'[0 := (ns' ! 0)\<lparr>sc_quant := Some q\<rparr>]"
    have "kids ns' (Suc 0) us = kids ns2 (Suc 0) us" by (rule rep_kids_cong(2)) (simp add: ns2_def)
    then have r: "rep ns2 0 ?t" "length ns2 = parts ?t" using ns'(2) by (simp_all add: group_at_def ns2_def)
    show ?case unfolding Ms append_Nil
    proof (rule leads_Cons)
      show "ends ms (content_role ms True (node_role q) lv None g1 dtd1 m)
          (\<lambda>g dtd M. idle g dtd \<and> (\<exists>M'. M = Some M' \<and> whole_model ?t M'))" for lv m
        unfolding content_role_node
        by (rule close_last [OF ns'(1) ns2_def r(2,1) assms(2,3)]) (use assms(4) in simp_all)
    qed auto
  qed
qed

end
