(* ===== verification/Xml_Content_Decl.thy ===== *)
theory Xml_Content_Decl
  imports Xml_Content_Model Xml_Role_Props
begin

text \<open>
  The prolog state machine and the content-model cases of \<open>doProlog\<close> together: the tokens of an
  element declaration become roles, the roles a scaffold, the scaffold the model that is handed to
  the element declaration handler.
\<close>

section \<open>Tokens\<close>

text \<open>A token, the text it starts in and where, and the name of the element type it refers to.\<close>

type_synonym ctoken = "int \<times> byte list \<times> nat \<times> byte list option"

definition prolog_error :: "int \<Rightarrow> XML_Error" where
  "prolog_error tok =
     (if tok = XML_TOK_PARAM_ENTITY_REF then XML_ERROR_PARAM_ENTITY_REF
      else if tok = XML_TOK_XML_DECL then XML_ERROR_MISPLACED_XML_PI
      else XML_ERROR_SYNTAX)"

fun content_tokens ::
  "'m XML_Memory_Handling_Suite \<Rightarrow> bool \<Rightarrow> encoding \<Rightarrow> ctoken list \<Rightarrow> PROLOG_STATE \<Rightarrow> group_state \<Rightarrow> content_dtd \<Rightarrow> 'm \<Rightarrow>
    (PROLOG_STATE \<times> group_state \<times> content_dtd \<times> XML_Error \<times> model list \<times> 'm) option" where
  "content_tokens ms hh enc [] s g dtd m = Some (s, g, dtd, XML_ERROR_NONE, [], m)"
| "content_tokens ms hh enc ((tok, b, ptr, nm) # toks) s g dtd m = do {
     (r, s) \<leftarrow> XmlTokenRole s tok b ptr enc;
     if r = XML_ROLE_ERROR then Some (s, g, dtd, prolog_error tok, [], m)
     else do {
       (g, dtd, e, M, m) \<leftarrow> content_role ms hh r (level s) nm g dtd m;
       if e \<noteq> XML_ERROR_NONE then Some (s, g, dtd, e, [], m)
       else do {
         (s, g, dtd, e, Ms, m) \<leftarrow> content_tokens ms hh enc toks s g dtd m;
         Some (s, g, dtd, e, (case M of None \<Rightarrow> Ms | Some M \<Rightarrow> M # Ms), m)
       }
     }
   }"

text \<open>The roles and levels the state machine gives for the tokens.\<close>

fun trace :: "PROLOG_STATE \<Rightarrow> ctoken list \<Rightarrow> encoding \<Rightarrow> (event list \<times> PROLOG_STATE) option" where
  "trace s [] enc = Some ([], s)"
| "trace s ((tok, b, ptr, nm) # toks) enc = do {
     (r, s) \<leftarrow> XmlTokenRole s tok b ptr enc;
     (es, s') \<leftarrow> trace s toks enc;
     Some ((r, unat (level s), nm) # es, s')
   }"

definition no_error :: "event list \<Rightarrow> bool" where
  "no_error es \<longleftrightarrow> XML_ROLE_ERROR \<notin> fst ` set es"

lemma content_tokens_trace:
  assumes "trace s toks enc = Some (es, s')" "no_error es" "run_roles ms hh es g dtd m = Some (g', dtd', e, Ms, m')"
  shows "\<exists>s''. content_tokens ms hh enc toks s g dtd m = Some (s'', g', dtd', e, Ms, m') \<and> (e = XML_ERROR_NONE \<longrightarrow> s'' = s')"
  using assms
proof (induction toks arbitrary: s es g dtd m Ms)
  case Nil
  then show ?case by simp
next
  case (Cons t toks)
  obtain tok b ptr nm where t: "t = (tok, b, ptr, nm)" by (metis prod.exhaust)
  from Cons.prems(1) obtain r s1 es1 where
    1: "XmlTokenRole s tok b ptr enc = Some (r, s1)" "trace s1 toks enc = Some (es1, s')"
      "es = (r, unat (level s1), nm) # es1" by (auto simp: t bind_eq_Some_iff split: prod.splits)
  have r: "r \<noteq> XML_ROLE_ERROR" "no_error es1" using Cons.prems(2) 1(3) by (auto simp: no_error_def)
  from Cons.prems(3) 1(3) obtain g1 dtd1 e1 M m1 where
    2: "content_role ms hh r (level s1) nm g dtd m = Some (g1, dtd1, e1, M, m1)"
      "if e1 \<noteq> XML_ERROR_NONE then (g', dtd', e, Ms, m') = (g1, dtd1, e1, [], m1)
       else \<exists>Ms1. run_roles ms hh es1 g1 dtd1 m1 = Some (g', dtd', e, Ms1, m') \<and>
         Ms = (case M of None \<Rightarrow> Ms1 | Some M \<Rightarrow> M # Ms1)"
    by (auto simp: bind_eq_Some_iff split: prod.splits if_split_asm)
  show ?case
  proof (cases "e1 = XML_ERROR_NONE")
    case False
    then show ?thesis using 1(1) r(1) 2 by (simp add: t)
  next
    case True
    then obtain Ms1 where Ms1: "run_roles ms hh es1 g1 dtd1 m1 = Some (g', dtd', e, Ms1, m')"
      "Ms = (case M of None \<Rightarrow> Ms1 | Some M \<Rightarrow> M # Ms1)" using 2(2) by auto
    from Cons.IH [OF 1(2) r(2) Ms1(1)] show ?thesis using 1(1) r(1) 2(1) True Ms1(2) by (auto simp: t)
  qed
qed

lemma trace_append:
  "trace s (xs @ ys) enc = do {
     (es, s) \<leftarrow> trace s xs enc;
     (es', s) \<leftarrow> trace s ys enc;
     Some (es @ es', s)
   }"
  by (induction s xs enc rule: trace.induct) (auto simp: bind_eq_Some_iff split: prod.splits bind_splits)

section \<open>The tokens of a content model\<close>

fun leaf_tok :: "XML_Content_Quant \<Rightarrow> int" where
  "leaf_tok XML_CQUANT_NONE = XML_TOK_NAME"
| "leaf_tok XML_CQUANT_OPT = XML_TOK_NAME_QUESTION"
| "leaf_tok XML_CQUANT_REP = XML_TOK_NAME_ASTERISK"
| "leaf_tok XML_CQUANT_PLUS = XML_TOK_NAME_PLUS"

fun node_tok :: "XML_Content_Quant \<Rightarrow> int" where
  "node_tok XML_CQUANT_NONE = XML_TOK_CLOSE_PAREN"
| "node_tok XML_CQUANT_OPT = XML_TOK_CLOSE_PAREN_QUESTION"
| "node_tok XML_CQUANT_REP = XML_TOK_CLOSE_PAREN_ASTERISK"
| "node_tok XML_CQUANT_PLUS = XML_TOK_CLOSE_PAREN_PLUS"

fun member_tok :: "kind \<Rightarrow> bool \<Rightarrow> (int \<times> byte list option) list" where
  "member_tok K_seq init = (if init then [] else [(XML_TOK_COMMA, None)])"
| "member_tok K_choice init = (if init then [] else [(XML_TOK_OR, None)])"
| "member_tok K_mixed init = [(XML_TOK_OR, None)]"

fun spell :: "ctree \<Rightarrow> (int \<times> byte list option) list"
  and spell_members :: "kind \<Rightarrow> bool \<Rightarrow> ctree list \<Rightarrow> (int \<times> byte list option) list" where
  "spell (Leaf q s) = [(leaf_tok q, Some (s @ [0]))]"
| "spell (Node k cs q) = (XML_TOK_OPEN_PAREN, None) # (if k = K_mixed then [(XML_TOK_POUND_NAME, None)] else []) @
     spell_members k True cs @ [(node_tok q, None)]"
| "spell_members k init [] = []"
| "spell_members k init (c # cs) = member_tok k init @ spell c @ spell_members k False cs"

text \<open>The grammar of content models: mixed content only as a whole, with a plain list of names.\<close>

fun element_content :: "ctree \<Rightarrow> bool" where
  "element_content (Leaf q s) \<longleftrightarrow> 0 \<notin> set s"
| "element_content (Node k cs q) \<longleftrightarrow> k \<noteq> K_mixed \<and> cs \<noteq> [] \<and> list_all element_content cs"

fun plain_name :: "ctree \<Rightarrow> bool" where
  "plain_name (Leaf q s) \<longleftrightarrow> q = XML_CQUANT_NONE \<and> 0 \<notin> set s"
| "plain_name (Node k cs q) \<longleftrightarrow> False"

fun content_spec :: "ctree \<Rightarrow> bool" where
  "content_spec (Leaf q s) \<longleftrightarrow> False"
| "content_spec (Node k cs q) \<longleftrightarrow>
     (if k = K_mixed then list_all plain_name cs \<and> (q = XML_CQUANT_REP \<or> cs = [] \<and> q = XML_CQUANT_NONE)
      else element_content (Node k cs q))"

definition plain :: "ctoken \<Rightarrow> int \<times> byte list option" where
  "plain t = (case t of (tok, b, ptr, nm) \<Rightarrow> (tok, nm))"

lemma plain_simp [simp]: "plain (tok, b, ptr, nm) = (tok, nm)"
  by (simp add: plain_def)

lemma plain_Cons: "map plain toks = (tok, nm) # xs \<Longrightarrow>
  \<exists>b ptr ts. toks = (tok, b, ptr, nm) # ts \<and> map plain ts = xs"
  by (cases toks) (auto simp: plain_def split: prod.splits)

lemma plain_append: "map plain toks = xs @ ys \<Longrightarrow> \<exists>ts us. toks = ts @ us \<and> map plain ts = xs \<and> map plain us = ys"
  by (auto simp: map_eq_append_conv)

section \<open>The state machine on a content model\<close>

lemma trace_Cons:
  assumes "XmlTokenRole s tok b ptr enc = Some (r, s1)" "trace s1 ts enc = Some (es, s')"
  shows "trace s ((tok, b, ptr, nm) # ts) enc = Some ((r, unat (level s1), nm) # es, s')"
  using assms by simp

lemma leaf_trace:
  "XmlTokenRole (at s H_element6 l) (leaf_tok q) b ptr enc = Some (leaf_role q, at s H_element7 l)"
  by (cases q) (simp_all add: XmlTokenRole_def element6_def)

lemma node_trace:
  "XmlTokenRole (at s H_element7 l) (node_tok q) b ptr enc =
     Some (node_role q, if l = 1 then s\<lparr>handler := H_declClose, level := 0, role_none := XML_ROLE_ELEMENT_NONE\<rparr>
                        else at s H_element7 (l - 1))"
  by (cases q) (simp_all add: XmlTokenRole_def element7_def Let_def)

definition traced :: "ctree \<Rightarrow> bool" where
  "traced t \<longleftrightarrow> (\<forall>s n toks enc. 0 < n \<longrightarrow> n + parts t < 2 ^ 32 \<longrightarrow> map plain toks = spell t \<longrightarrow>
     trace (at s H_element6 (of_nat n)) toks enc = Some (events n t, at s H_element7 (of_nat n)))"

lemma unat_level: "n < 2 ^ 32 \<Longrightarrow> unat (of_nat n :: uint32) = n"
  by (simp add: unat_of_nat)

lemma members_trace:
  assumes "\<And>c. c \<in> set cs \<Longrightarrow> traced c" "0 < n" "n + total cs < 2 ^ 32" "k \<noteq> K_mixed"
    and "map plain toks = spell_members k init cs" "init \<longrightarrow> cs \<noteq> []"
  shows "trace (at s (if init then H_element6 else H_element7) (of_nat n)) toks enc =
    Some (member_events n k init cs, at s H_element7 (of_nat n))"
  using assms
proof (induction cs arbitrary: init toks)
  case Nil
  then show ?case by simp
next
  case (Cons c cs)
  from Cons.prems(5) obtain xs ys zs where t: "toks = xs @ ys @ zs" "map plain xs = member_tok k init"
    "map plain ys = spell c" "map plain zs = spell_members k False cs"
    using plain_append [of toks] plain_append [of _ "spell c"] by (metis spell_members.simps(2))
  have n: "unat (of_nat n :: uint32) = n" using Cons.prems(3) by (intro unat_level) simp
  have 1: "trace (at s (if init then H_element6 else H_element7) (of_nat n)) xs enc =
      Some (before_member k init n, at s H_element6 (of_nat n))"
  proof (cases init)
    case True
    then show ?thesis using t(2) Cons.prems(4) by (cases k) simp_all
  next
    case False
    then show ?thesis using t(2) Cons.prems(4) n
      by (cases k) (auto dest!: plain_Cons simp: XmlTokenRole_def element7_def)
  qed
  have 2: "trace (at s H_element6 (of_nat n)) ys enc = Some (events n c, at s H_element7 (of_nat n))"
    using Cons.prems(1) [of c] Cons.prems(2,3) t(3) by (simp add: traced_def)
  have 3: "trace (at s (if False then H_element6 else H_element7) (of_nat n)) zs enc =
      Some (member_events n k False cs, at s H_element7 (of_nat n))"
    by (rule Cons.IH) (use Cons.prems t(4) in auto)
  show ?case using 1 2 3 unfolding t(1) by (simp add: trace_append)
qed

lemma traced_Node:
  assumes "\<And>c. c \<in> set cs \<Longrightarrow> traced c" "k \<noteq> K_mixed" "cs \<noteq> []"
  shows "traced (Node k cs q)"
  unfolding traced_def
proof (intro allI impI)
  fix s n toks enc
  assume n: "0 < n" "n + parts (Node k cs q) < 2 ^ 32" and sp: "map plain toks = spell (Node k cs q)"
  from sp assms(2) obtain b p ts where 1: "toks = (XML_TOK_OPEN_PAREN, b, p, None) # ts"
      "map plain ts = spell_members k True cs @ [(node_tok q, None)]"
    using plain_Cons [of toks] by auto
  then obtain ys zs where 2: "ts = ys @ zs" "map plain ys = spell_members k True cs" "map plain zs = [(node_tok q, None)]"
    by (auto simp: map_eq_append_conv)
  then obtain b' p' where 3: "zs = [(node_tok q, b', p', None)]" using plain_Cons [of zs] by auto
  have m: "trace (at s (if True then H_element6 else H_element7) (of_nat (Suc n))) ys enc =
      Some (member_events (Suc n) k True cs, at s H_element7 (of_nat (Suc n)))"
    by (rule members_trace) (use assms n 2(2) in auto)
  have sm: "Suc n < 2 ^ 32" "n < 2 ^ 32" using n(2) by simp_all
  have lv: "unat (of_nat (Suc n) :: uint32) = Suc n" "unat (of_nat n :: uint32) = n"
      "(of_nat (Suc n) :: uint32) \<noteq> 1"
    using unat_level [OF sm(1)] unat_level [OF sm(2)] level_pred(2) [OF _ sm(1)] n(1) by simp_all
  show "trace (at s H_element6 (of_nat n)) toks enc = Some (events n (Node k cs q), at s H_element7 (of_nat n))"
    using m lv assms(2) unfolding 1(1) 2(1) 3
    by (cases k) (simp_all add: open_feed node_trace trace_append add.commute)
qed

lemma traced_all: "element_content t \<Longrightarrow> traced t"
proof (induction t)
  case (Leaf q s)
  show ?case unfolding traced_def
  proof (intro allI impI)
    fix st n toks enc
    assume "0 < n" "n + parts (Leaf q s) < 2 ^ 32" "map plain toks = spell (Leaf q s)"
    then show "trace (at st H_element6 (of_nat n)) toks enc = Some (events n (Leaf q s), at st H_element7 (of_nat n))"
      by (auto dest!: plain_Cons simp: leaf_trace unat_level)
  qed
next
  case (Node k cs q)
  then show ?case by (intro traced_Node) (auto simp: list_all_iff)
qed

text \<open>Every \<open>#\<close> name among the tokens is \<open>#PCDATA\<close>.\<close>

definition pcdata_only :: "encoding \<Rightarrow> ctoken list \<Rightarrow> bool" where
  "pcdata_only enc toks \<longleftrightarrow> list_all (\<lambda>(tok, b, ptr, nm). tok = XML_TOK_POUND_NAME \<longrightarrow>
     XmlNameMatchesAscii enc b (ptr + MIN_BYTES_PER_CHAR enc) KW_PCDATA = Some True) toks"

definition decl_end :: "PROLOG_STATE \<Rightarrow> uint32 \<Rightarrow> PROLOG_STATE" where
  "decl_end s l = s\<lparr>handler := H_declClose, level := l, role_none := XML_ROLE_ELEMENT_NONE\<rparr>"

lemma mixed_members_trace:
  assumes "list_all plain_name cs" "map plain toks = spell_members K_mixed init cs" "h \<in> {H_element3, H_element5}"
  shows "trace (at s h 1) toks enc =
    Some (member_events 1 K_mixed init cs, at s (if cs = [] then h else H_element5) 1)"
  using assms
proof (induction cs arbitrary: toks init h)
  case Nil
  then show ?case by simp
next
  case (Cons c cs)
  then obtain w where c: "c = Leaf XML_CQUANT_NONE w" by (cases c) auto
  from Cons.prems(2) obtain b p b' p' ts where
    t: "toks = (XML_TOK_OR, b, p, None) # (XML_TOK_NAME, b', p', Some (w @ [0])) # ts" "map plain ts = spell_members K_mixed False cs"
    by (auto simp: c dest!: plain_Cons)
  have "trace (at s H_element5 1) ts enc = Some (member_events 1 K_mixed False cs, at s H_element5 1)"
    using Cons.IH [OF _ t(2), of H_element5] Cons.prems(1) by simp
  then show ?case using Cons.prems(3) unfolding t(1) c
    by (auto simp: XmlTokenRole_def element3_def element4_def element5_def)
qed

lemma first_trace:
  assumes "tok = XML_TOK_OPEN_PAREN \<or> tok = leaf_tok q"
  shows "XmlTokenRole (at s H_element2 1) tok b ptr enc = XmlTokenRole (at s H_element6 1) tok b ptr enc"
  using assms by (cases q) (auto simp: XmlTokenRole_def element2_def element6_def)

lemma first_member_trace:
  assumes "map plain toks = spell_members k True (c # cs)" "k \<noteq> K_mixed"
  shows "trace (at s H_element2 1) toks enc = trace (at s H_element6 1) toks enc"
proof -
  obtain tok nm xs q where x: "map plain toks = (tok, nm) # xs" "tok = XML_TOK_OPEN_PAREN \<or> tok = leaf_tok q"
    using assms by (cases k; cases c) auto
  obtain b p ts where "toks = (tok, b, p, nm) # ts" using plain_Cons [OF x(1)] by (elim exE conjE)
  then show ?thesis using first_trace [OF x(2)] by simp
qed

lemma content_spec_trace:
  assumes "content_spec t" "handler s = H_element1" "map plain toks = spell t" "pcdata_only enc toks" "parts t \<le> max_parts"
  shows "\<exists>l. trace s toks enc = Some (events 0 t, decl_end s l)"
proof (cases t)
  case (Node k cs q)
  show ?thesis
  proof (cases "k = K_mixed")
    case True
    have sp: "map plain toks = (XML_TOK_OPEN_PAREN, None) # (XML_TOK_POUND_NAME, None) #
        spell_members K_mixed True cs @ [(node_tok q, None)]" using assms(3) Node True by simp
    obtain b p ts' where t1: "toks = (XML_TOK_OPEN_PAREN, b, p, None) # ts'"
        "map plain ts' = (XML_TOK_POUND_NAME, None) # spell_members K_mixed True cs @ [(node_tok q, None)]"
      using plain_Cons [OF sp] by (elim exE conjE)
    obtain b' p' ts where t2: "ts' = (XML_TOK_POUND_NAME, b', p', None) # ts"
        "map plain ts = spell_members K_mixed True cs @ [(node_tok q, None)]"
      using plain_Cons [OF t1(2)] by (elim exE conjE)
    obtain us zs where
      u: "ts = us @ zs" "map plain us = spell_members K_mixed True cs" "map plain zs = [(node_tok q, None)]"
      using plain_append [OF t2(2)] by (elim exE conjE)
    obtain b2 p2 where z: "zs = [(node_tok q, b2, p2, None)]" using plain_Cons [OF u(3)] by auto
    have spec: "list_all plain_name cs" "q = XML_CQUANT_REP \<or> cs = [] \<and> q = XML_CQUANT_NONE"
      using assms(1) Node True by simp_all
    have m: "trace (at s H_element3 1) us enc =
        Some (member_events 1 K_mixed True cs, at s (if cs = [] then H_element3 else H_element5) 1)"
      by (rule mixed_members_trace [OF spec(1) u(2)]) simp
    have pc: "XmlNameMatchesAscii enc b' (p' + MIN_BYTES_PER_CHAR enc) KW_PCDATA = Some True"
      using assms(4) by (simp add: pcdata_only_def t1(1) t2(1))
    have c: "XmlTokenRole (at s (if cs = [] then H_element3 else H_element5) 1) (node_tok q) b2 p2 enc =
        Some (node_role q, decl_end s 1)"
      using spec(2) by (auto simp: XmlTokenRole_def element3_def element5_def decl_end_def)
    have "trace s toks enc = Some (events 0 t, decl_end s 1)"
      unfolding t1(1) t2(1) u(1) z Node True using m pc c assms(2)
      by (simp add: XmlTokenRole_def [of s] XmlTokenRole_def [of "at s H_element2 1"] element1_def element2_def trace_append decl_end_def)
    then show ?thesis by blast
  next
    case False
    then have el: "element_content t" using assms(1) Node by simp
    have sp: "map plain toks = (XML_TOK_OPEN_PAREN, None) # spell_members k True cs @ [(node_tok q, None)]"
      using assms(3) Node False by simp
    obtain b p ts where t1: "toks = (XML_TOK_OPEN_PAREN, b, p, None) # ts"
        "map plain ts = spell_members k True cs @ [(node_tok q, None)]"
      using plain_Cons [OF sp] by (elim exE conjE)
    obtain us zs where
      u: "ts = us @ zs" "map plain us = spell_members k True cs" "map plain zs = [(node_tok q, None)]"
      using plain_append [OF t1(2)] by (elim exE conjE)
    obtain b2 p2 where z: "zs = [(node_tok q, b2, p2, None)]" using plain_Cons [OF u(3)] by auto
    have "trace (at s (if True then H_element6 else H_element7) (of_nat 1)) us enc =
        Some (member_events 1 k True cs, at s H_element7 (of_nat 1))"
      by (rule members_trace) (use el Node assms(5) u(2) False in \<open>auto simp: list_all_iff max_parts_def intro: traced_all\<close>)
    moreover have "trace (at s H_element2 1) us enc = trace (at s H_element6 1) us enc"
      using first_member_trace [of us k _ _ s enc] u(2) False el Node by (cases cs) auto
    ultimately have m: "trace (at s H_element2 1) us enc = Some (member_events 1 k True cs, at s H_element7 1)" by simp
    have "trace s toks enc = Some (events 0 t, decl_end s 0)"
      unfolding t1(1) u(1) z Node using m False assms(2)
      by (cases k) (simp_all add: XmlTokenRole_def [of s] element1_def node_trace trace_append decl_end_def)
    then show ?thesis by blast
  qed
qed (use assms(1) in simp)

section \<open>White space\<close>

definition is_space :: "ctoken \<Rightarrow> bool" where
  "is_space t \<longleftrightarrow> fst t = XML_TOK_PROLOG_S"

definition element_state :: "PROLOG_STATE \<Rightarrow> bool" where
  "element_state s \<longleftrightarrow>
     handler s \<in> {H_element1, H_element2, H_element3, H_element4, H_element5, H_element6, H_element7} \<or>
     handler s = H_declClose \<and> role_none s = XML_ROLE_ELEMENT_NONE"

lemma space_role: "element_state s \<Longrightarrow> XmlTokenRole s XML_TOK_PROLOG_S b ptr enc = Some (XML_ROLE_ELEMENT_NONE, s)"
  by (auto simp: element_state_def XmlTokenRole_def element1_def element2_def element3_def element4_def
      element5_def element6_def element7_def declClose_def)

lemma element_step:
  assumes "element_state s" "XmlTokenRole s tok b ptr enc = Some (r, s')" "r \<noteq> XML_ROLE_ERROR" "tok \<noteq> XML_TOK_DECL_CLOSE"
  shows "element_state s'"
proof -
  from assms(1) consider "handler s = H_element1" | "handler s = H_element2" | "handler s = H_element3"
    | "handler s = H_element4" | "handler s = H_element5" | "handler s = H_element6" | "handler s = H_element7"
    | "handler s = H_declClose" "role_none s = XML_ROLE_ELEMENT_NONE" by (auto simp: element_state_def)
  then show ?thesis
    by cases (use assms(2-4) in \<open>auto simp: element_state_def XmlTokenRole_def element1_def element2_def element3_def
      element4_def element5_def element6_def element7_def declClose_def common_def Let_def bind_eq_Some_iff
      split: if_split_asm\<close>)
qed

lemma content_tokens_spaces:
  assumes "element_state s" "XML_TOK_DECL_CLOSE \<notin> fst ` set toks"
  shows "content_tokens ms hh enc toks s g dtd m = content_tokens ms hh enc (filter (\<lambda>t. \<not> is_space t) toks) s g dtd m"
  using assms
proof (induction toks arbitrary: s g dtd m)
  case Nil
  then show ?case by simp
next
  case (Cons t toks)
  obtain tok b ptr nm where t: "t = (tok, b, ptr, nm)" by (metis prod.exhaust)
  show ?case
  proof (cases "is_space t")
    case True
    then have "tok = XML_TOK_PROLOG_S" by (simp add: is_space_def t)
    moreover have "content_tokens ms hh enc toks s g dtd m =
        content_tokens ms hh enc (filter (\<lambda>t. \<not> is_space t) toks) s g dtd m"
      using Cons by simp
    ultimately show ?thesis using True space_role [OF Cons.prems(1), of b ptr enc]
      by (cases "content_tokens ms hh enc (filter (\<lambda>t. \<not> is_space t) toks) s g dtd m") (auto simp: t)
  next
    case False
    have "content_tokens ms hh enc toks s1 g1 dtd1 m1 =
        content_tokens ms hh enc (filter (\<lambda>t. \<not> is_space t) toks) s1 g1 dtd1 m1"
      if "XmlTokenRole s tok b ptr enc = Some (r, s1)" "r \<noteq> XML_ROLE_ERROR" for r s1 g1 dtd1 m1
      using Cons.IH [OF element_step [OF Cons.prems(1) that]] Cons.prems(2) by (simp add: t)
    then show ?thesis using False by (auto simp: t split: Option.bind_splits)
  qed
qed

section \<open>Arrays that are shorter than the recorded size\<close>

lemma open_in_bounds: "lv < groupSize g \<Longrightarrow> role_GROUP_OPEN ms lv g dtd m = enter_group ms lv g dtd m"
  by (simp add: role_GROUP_OPEN_def linorder_not_le [symmetric])

lemma open_beyond_connectors:
  assumes "groupConnector g = Some (a, xs)" "lv < groupSize g" "length xs \<le> unat lv"
  shows "role_GROUP_OPEN ms lv g dtd m = None"
  using assms by (simp add: open_in_bounds enter_group_def)

lemma nextScaffoldPart_index:
  assumes "nextScaffoldPart ms g dtd m = Some (dtd', r, m')" "scaffIndex dtd = Some A"
  shows "scaffIndex dtd' = Some A" "scaffLevel dtd' = scaffLevel dtd"
  using assms
  by (auto simp: nextScaffoldPart_def scaffold_index_def scaffold_room_def Let_def bind_eq_Some_iff
      split: prod.splits option.splits if_split_asm bool.splits)

lemma enter_group_index:
  assumes "enter_group ms lv g dtd m = Some (g', dtd', e, M, m')" "scaffIndex dtd = Some (a, is)" "in_eldecl dtd"
  shows "e = XML_ERROR_NO_MEMORY \<or> scaffLevel dtd < length is \<and>
    (\<exists>i. scaffIndex dtd' = Some (a, is[scaffLevel dtd := Some i]))"
proof -
  from assms(1,3) obtain C dtd1 r m1 where
    1: "nextScaffoldPart ms (g\<lparr>groupConnector := C\<rparr>) dtd m = Some (dtd1, r, m1)"
      "case r of None \<Rightarrow> e = XML_ERROR_NO_MEMORY
       | Some i \<Rightarrow> array_put (scaffLevel dtd1) i (scaffIndex dtd1) = Some (scaffIndex dtd')"
    by (auto simp: enter_group_def Let_def bind_eq_Some_iff split: prod.splits option.splits)
  from nextScaffoldPart_index [OF 1(1) assms(2)] 1(2) show ?thesis
    by (cases r) (auto split: if_split_asm dest: sym)
qed

lemma grow_groups_index:
  assumes "grow_groups ms g dtd m = (g', dtd', True, m')" "scaffIndex dtd = Some A"
    and "groupSize g \<noteq> 0" "unat (groupSize g) \<le> 2 ^ 28"
  shows "\<exists>a is. scaffIndex dtd' = Some (a, is) \<and> length is = 2 * unat (groupSize g) \<and> in_eldecl dtd' = in_eldecl dtd"
proof -
  have "unat (groupSize g * 2 * sizeof_int) = 8 * unat (groupSize g)"
    using assms(4) unat_times [of "groupSize g" 2] unat_times [of "groupSize g * 2" sizeof_int]
    by (simp add: sizeof_int_def)
  then show ?thesis
    using assms by (auto simp: grow_groups_def resize_array_def Let_def sizeof_int_def
        split: prod.splits option.splits)
qed

lemma opened_index:
  assumes "role_GROUP_OPEN ms lv g dtd m = Some (g', dtd', XML_ERROR_NONE, M, m')" "scaffIndex dtd = Some A"
    and "in_eldecl dtd" "groupSize g \<le> lv" "groupSize g \<noteq> 0" "unat (groupSize g) \<le> 2 ^ 28"
  shows "\<exists>a is. scaffIndex dtd' = Some (a, is) \<and> length is = 2 * unat (groupSize g)"
proof -
  from assms(1,4) obtain g1 dtd1 m1 where
    1: "grow_groups ms g dtd m = (g1, dtd1, True, m1)" "enter_group ms lv g1 dtd1 m1 = Some (g', dtd', XML_ERROR_NONE, M, m')"
    by (auto simp: role_GROUP_OPEN_def split: prod.splits bool.splits)
  from grow_groups_index [OF 1(1) assms(2,5,6)] obtain a "is" where
    "scaffIndex dtd1 = Some (a, is)" "length is = 2 * unat (groupSize g)" "in_eldecl dtd1" using assms(3) by blast
  with enter_group_index [OF 1(2)] show ?thesis by auto
qed

section \<open>An element declaration\<close>

lemma no_error_append [simp]: "no_error (xs @ ys) \<longleftrightarrow> no_error xs \<and> no_error ys"
  by (auto simp: no_error_def)

lemma no_error_Cons [simp]: "no_error ((r, l, nm) # es) \<longleftrightarrow> r \<noteq> XML_ROLE_ERROR \<and> no_error es"
  by (auto simp: no_error_def)

lemma no_error_Nil [simp]: "no_error []"
  by (simp add: no_error_def)

lemma no_error_events: "no_error (events d t)" "no_error (member_events d k init ts)"
proof (induction d t and d k init ts rule: events_member_events.induct)
  case (1 d q s)
  then show ?case by (cases q) simp_all
next
  case (2 d k cs q)
  then show ?case by (cases q; cases k) simp_all
next
  case (4 d k init c cs)
  then show ?case by (cases k) simp_all
qed simp

lemma spell_no_close: "XML_TOK_DECL_CLOSE \<notin> fst ` set (spell t)" "XML_TOK_DECL_CLOSE \<notin> fst ` set (spell_members k init ts)"
proof (induction t and k init ts rule: spell_spell_members.induct)
  case (1 q s)
  then show ?case by (cases q) simp_all
next
  case (2 k cs q)
  then show ?case by (cases q) auto
next
  case (4 k init c cs)
  then show ?case by (cases k) auto
qed simp

lemma spec_tree_ok: "content_spec t \<Longrightarrow> tree_ok t"
proof -
  have el: "element_content t \<Longrightarrow> tree_ok t" for t
    by (induction t) (auto simp: list_all_iff)
  have pl: "plain_name t \<Longrightarrow> tree_ok t" for t
    by (cases t) auto
  show "content_spec t \<Longrightarrow> tree_ok t"
    by (cases t) (auto simp: list_all_iff el pl split: if_split_asm)
qed

text \<open>C15: an element declaration reaches its handler as it was written. The tokens of any content
  model of at most 2^26 parts and less than 2^31 characters of names, with white space anywhere,
  take the prolog state machine from \<open>element1\<close> to \<open>declClose\<close>; the roles it returns build the
  scaffold, and \<open>build_model\<close> hands over one block whose cells represent exactly that content model
  and which is filled to the last cell and character. Otherwise memory was refused and
  \<open>XML_ERROR_NO_MEMORY\<close> is returned; no access is out of bounds in either case, whatever the
  allocator does.\<close>

theorem element_declaration_model:
  assumes "content_spec t" and "parts t \<le> 2 ^ 26" and "name_chars t < 2 ^ 31"
    and "handler s = H_element1" and "idle g dtd"
    and "map plain (filter (\<lambda>tok. \<not> is_space tok) toks) = spell t" and "pcdata_only enc toks"
  shows "\<exists>s' g' dtd' e Ms m'.
    content_tokens ms True enc toks s g (role_ELEMENT_NAME True dtd) m = Some (s', g', dtd', e, Ms, m') \<and>
    (e = XML_ERROR_NO_MEMORY \<and> refuses ms \<or>
     e = XML_ERROR_NONE \<and> handler s' = H_declClose \<and> idle g' dtd' \<and> (\<exists>M. Ms = [M] \<and> whole_model t M))"
proof -
  define us where "us = filter (\<lambda>tok. \<not> is_space tok) toks"
  have small: "parts t \<le> max_parts" using assms(2) by (simp add: max_parts_def)
  have "pcdata_only enc us" using assms(7) by (auto simp: us_def pcdata_only_def list_all_iff)
  then obtain l where tr: "trace s us enc = Some (events 0 t, decl_end s l)"
    using content_spec_trace [OF assms(1,4) assms(6) [folded us_def] _ small] by blast
  obtain k cs q where t: "t = Node k cs q" using assms(1) by (cases t) auto
  have "leads ms True (events 0 t) g (role_ELEMENT_NAME True dtd) (\<lambda>g dtd Ms. idle g dtd \<and> (\<exists>M. Ms = [M] \<and> whole_model t M))"
    using leads_model [OF assms(5), of k cs q ms] spec_tree_ok [OF assms(1)] small assms(3) by (simp add: t)
  from leadsD [OF this, of m] obtain g' dtd' e Ms m' where run: "run_roles ms True (events 0 t) g (role_ELEMENT_NAME True dtd) m = Some (g', dtd', e, Ms, m')"
      "e = XML_ERROR_NO_MEMORY \<and> refuses ms \<or> e = XML_ERROR_NONE \<and> idle g' dtd' \<and> (\<exists>M. Ms = [M] \<and> whole_model t M)"
    by (elim exE conjE)
  have "XML_TOK_DECL_CLOSE \<notin> fst ` set toks"
  proof
    assume "XML_TOK_DECL_CLOSE \<in> fst ` set toks"
    then have "XML_TOK_DECL_CLOSE \<in> fst ` set (map plain us)"
      by (force simp: us_def is_space_def plain_def split: prod.splits)
    then show False using spell_no_close(1) [of t] assms(6) by (simp add: us_def)
  qed
  moreover have "element_state s" using assms(4) by (simp add: element_state_def)
  ultimately have "content_tokens ms True enc toks s g (role_ELEMENT_NAME True dtd) m =
      content_tokens ms True enc us s g (role_ELEMENT_NAME True dtd) m"
    unfolding us_def by (intro content_tokens_spaces)
  moreover obtain s' where "content_tokens ms True enc us s g (role_ELEMENT_NAME True dtd) m = Some (s', g', dtd', e, Ms, m')"
      "e = XML_ERROR_NONE \<longrightarrow> s' = decl_end s l"
    using content_tokens_trace [OF tr no_error_events(1) run(1)] by (elim exE conjE)
  ultimately show ?thesis using run(2) by (auto simp: decl_end_def)
qed

text \<open>C31: a refused enlargement of the connectors poisons the parser. \<open>XML_ROLE_GROUP_OPEN\<close> doubles
  \<open>groupSize\<close> before it calls \<open>REALLOC\<close> and leaves it doubled when memory is refused, while
  \<open>groupConnector\<close> keeps its length. \<open>XML_ParserReset\<close> resets neither, so in the next document the first
  group at a level between the two sizes is written out of bounds, whatever the allocator does then.\<close>

theorem refused_connectors_overrun:
  assumes "groupConnector g = Some (a, xs)" and "unat (groupSize g) = length xs" and "length xs \<le> 2 ^ 30" and "xs \<noteq> []"
    and "groupSize g \<le> lv" and "realloc_fcn ms (Some a) (groupSize g * 2) m = (None, m')"
  shows "\<exists>g'. role_GROUP_OPEN ms lv g dtd m = Some (g', dtd, XML_ERROR_NO_MEMORY, None, m') \<and>
    groupConnector g' = Some (a, xs) \<and> unat (groupSize g') = 2 * length xs \<and>
    (\<forall>ms2 lv2 dtd2 m2. length xs \<le> unat lv2 \<longrightarrow> unat lv2 < 2 * length xs \<longrightarrow>
       role_GROUP_OPEN (ms2 :: 'm XML_Memory_Handling_Suite) lv2 g' dtd2 m2 = None)"
proof -
  define g' where "g' = g\<lparr>groupSize := groupSize g * 2\<rparr>"
  have sz: "unat (groupSize g') = 2 * length xs"
    using assms(2,3) unat_times [of "groupSize g" 2] by (simp add: g'_def)
  have ne: "groupSize g \<noteq> 0" using assms(2,4) by auto
  have "role_GROUP_OPEN ms lv g dtd m = Some (g', dtd, XML_ERROR_NO_MEMORY, None, m')"
    using assms(1,5,6) ne by (simp add: role_GROUP_OPEN_def grow_groups_def resize_array_def g'_def)
  moreover have "role_GROUP_OPEN ms2 lv2 g' dtd2 m2 = None"
    if "length xs \<le> unat lv2" "unat lv2 < 2 * length xs" for ms2 :: "'m XML_Memory_Handling_Suite" and lv2 dtd2 m2
    by (rule open_beyond_connectors [of g' a xs]) (use that sz assms(1) in \<open>simp_all add: g'_def word_less_nat_alt\<close>)
  ultimately show ?thesis using sz assms(1) by (auto simp: g'_def)
qed

text \<open>C32: the parser of a parameter entity can shrink the index of the open groups under the parser
  that created it. The index belongs to the DTD both share, the number of its elements is taken to
  be the \<open>groupSize\<close> of whichever parser runs: when the inner one enlarges its connectors it sets the
  index to twice its own size, however long it was, and the outer one, whose connectors are longer,
  then writes past its end as soon as its groups nest that deep.\<close>

theorem parameter_entity_shrinks_index:
  assumes "role_GROUP_OPEN ms lv g dtd m = Some (g', dtd', XML_ERROR_NONE, M, m')"
    and "scaffIndex dtd = Some A" and "in_eldecl dtd"
    and "groupSize g \<le> lv" and "groupSize g \<noteq> 0" and "unat (groupSize g) \<le> 2 ^ 28"
  shows "(\<exists>a is. scaffIndex dtd' = Some (a, is) \<and> length is = 2 * unat (groupSize g)) \<and>
    (\<forall>outer lv2 dtd2 m2. scaffIndex dtd2 = scaffIndex dtd' \<longrightarrow> in_eldecl dtd2 \<longrightarrow> lv2 < groupSize outer \<longrightarrow>
       2 * unat (groupSize g) \<le> scaffLevel dtd2 \<longrightarrow>
       (case role_GROUP_OPEN ms lv2 outer dtd2 m2 of
          None \<Rightarrow> True | Some (_, _, e, _, _) \<Rightarrow> e = XML_ERROR_NO_MEMORY))"
proof -
  obtain a "is" where i: "scaffIndex dtd' = Some (a, is)" "length is = 2 * unat (groupSize g)"
    using opened_index [OF assms] by blast
  have "case role_GROUP_OPEN ms lv2 outer dtd2 m2 of None \<Rightarrow> True | Some (_, _, e, _, _) \<Rightarrow> e = XML_ERROR_NO_MEMORY"
    if "scaffIndex dtd2 = scaffIndex dtd'" "in_eldecl dtd2" "lv2 < groupSize outer" "2 * unat (groupSize g) \<le> scaffLevel dtd2"
    for outer lv2 dtd2 m2
    using enter_group_index [of ms lv2 outer dtd2 m2 _ _ _ _ _ a "is"] that i
    by (fastforce simp: open_in_bounds split: option.splits)
  with i show ?thesis by blast
qed

section \<open>Examples\<close>

text \<open>The declaration \<open>(a?, (b | c)*)\<close> in an empty document type.\<close>

definition example_tree :: ctree where
  "example_tree = Node K_seq [Leaf XML_CQUANT_OPT [97],
     Node K_choice [Leaf XML_CQUANT_NONE [98], Leaf XML_CQUANT_NONE [99]] XML_CQUANT_REP] XML_CQUANT_NONE"

definition example_tokens :: "ctoken list" where
  "example_tokens =
     [(XML_TOK_OPEN_PAREN, [], 0, None), (XML_TOK_NAME_QUESTION, [], 0, Some [97, 0]), (XML_TOK_COMMA, [], 0, None),
      (XML_TOK_PROLOG_S, [], 0, None), (XML_TOK_OPEN_PAREN, [], 0, None), (XML_TOK_NAME, [], 0, Some [98, 0]),
      (XML_TOK_OR, [], 0, None), (XML_TOK_NAME, [], 0, Some [99, 0]), (XML_TOK_CLOSE_PAREN_ASTERISK, [], 0, None),
      (XML_TOK_CLOSE_PAREN, [], 0, None)]"

definition no_groups :: group_state where
  "no_groups = \<lparr>groupConnector = None, groupSize = 0\<rparr>"

definition no_content :: content_dtd where
  "no_content = \<lparr>in_eldecl = False, scaffold = None, contentStringLen = 0, scaffSize = 0, scaffCount = 0,
     scaffLevel = 0, scaffIndex = None\<rparr>"

lemma idle_init: "idle no_groups no_content"
  by (simp add: idle_def no_groups_def no_content_def scaffold_ok_def index_ok_def groups_ok_def)

lemma example_hyps:
  "content_spec example_tree" "parts example_tree \<le> 2 ^ 26" "name_chars example_tree < 2 ^ 31"
  "map plain (filter (\<lambda>tok. \<not> is_space tok) example_tokens) = spell example_tree"
  "pcdata_only enc example_tokens"
  by (simp_all add: example_tree_def example_tokens_def is_space_def pcdata_only_def)

text \<open>An allocator that never refuses, with the number of blocks handed out as its state.\<close>

definition endless_suite :: "nat XML_Memory_Handling_Suite" where
  "endless_suite = \<lparr>malloc_fcn = \<lambda>n m. (Some m, Suc m), realloc_fcn = \<lambda>p n m. (Some m, Suc m), free_fcn = \<lambda>p m. m\<rparr>"

lemma endless_never_refuses: "\<not> refuses endless_suite"
  by (simp add: refuses_def endless_suite_def)

theorem element_declaration_model_witness:
  "\<exists>s' g' dtd' M m'.
    content_tokens endless_suite True (utf8_encoding True) example_tokens (blank\<lparr>handler := H_element1\<rparr>) no_groups
      (role_ELEMENT_NAME True no_content) 1 = Some (s', g', dtd', XML_ERROR_NONE, [M], m') \<and>
    handler s' = H_declClose \<and> idle g' dtd' \<and> whole_model example_tree M"
proof -
  have "handler (blank\<lparr>handler := H_element1\<rparr>) = H_element1" by simp
  from element_declaration_model [OF example_hyps(1-3) this idle_init example_hyps(4)
      example_hyps(5) [of "utf8_encoding True"], of endless_suite 1] endless_never_refuses
  show ?thesis by blast
qed

text \<open>Thirty-two open groups, with an index that a parser with room for 128 allocated.\<close>

definition deep_groups :: group_state where
  "deep_groups = \<lparr>groupConnector = Some (1, replicate 32 (Some 0)), groupSize = 32\<rparr>"

definition deep_dtd :: content_dtd where
  "deep_dtd = \<lparr>in_eldecl = True, scaffold = Some (2, replicate 32 (Some (fresh_part None)) @ replicate 32 None),
     contentStringLen = 0, scaffSize = 64, scaffCount = 32, scaffLevel = 31,
     scaffIndex = Some (3, replicate 31 (Some 0) @ replicate 97 None)\<rparr>"

lemma deep_building: "building deep_groups deep_dtd (replicate 32 (fresh_part None)) (replicate 31 0) (replicate 31 0) 0"
proof -
  have "filled (scaffold deep_dtd) (replicate 32 (fresh_part None)) (replicate 32 None)"
    "filled (scaffIndex deep_dtd) (replicate 31 0) (replicate 97 None)"
    by (simp_all add: filled_def deep_dtd_def)
  then have "scaffold_ok deep_dtd (replicate 32 (fresh_part None))" "index_ok deep_groups deep_dtd (replicate 31 0)"
    by (auto simp: scaffold_ok_def index_ok_def deep_dtd_def deep_groups_def max_parts_def)
  moreover have "replicate 32 (Some 0) = Some 0 # map Some (replicate 31 0) @ ([] :: byte option list)"
    by (simp add: numeral_eq_Suc)
  then have "groups_ok deep_groups (replicate 31 0)"
    unfolding groups_ok_def deep_groups_def by (simp add: max_parts_def word_le_nat_alt)
  ultimately show ?thesis
    by (simp add: building_def fresh_part_def) (simp add: deep_dtd_def)
qed

theorem parameter_entity_shrinks_index_witness:
  "\<exists>g' dtd' m'. role_GROUP_OPEN endless_suite 32 deep_groups deep_dtd 4 = Some (g', dtd', XML_ERROR_NONE, None, m') \<and>
     (\<exists>a is. scaffIndex dtd' = Some (a, is) \<and> length is = 64) \<and>
     (\<forall>outer lv2 dtd2 m2. scaffIndex dtd2 = scaffIndex dtd' \<longrightarrow> in_eldecl dtd2 \<longrightarrow> lv2 < groupSize outer \<longrightarrow>
       64 \<le> scaffLevel dtd2 \<longrightarrow>
       (case role_GROUP_OPEN endless_suite lv2 outer dtd2 m2 of
          None \<Rightarrow> True | Some (_, _, e, _, _) \<Rightarrow> e = XML_ERROR_NO_MEMORY))"
proof -
  have "ends endless_suite (role_GROUP_OPEN endless_suite 32 deep_groups deep_dtd 4) (\<lambda>g dtd M. M = None \<and>
      (\<exists>x. blank_part x \<and> sc_type x = Some XML_CTYPE_SEQ \<and> building g dtd
        (linked (replicate 31 0) (replicate 32 (fresh_part None)) @ [x])
        (replicate 31 0 @ [length (replicate 32 (fresh_part None))]) (replicate 31 0 @ [0]) 0))"
    by (rule GROUP_OPEN_ok [OF deep_building]) (simp_all add: max_parts_def)
  then obtain g' dtd' m' where r: "role_GROUP_OPEN endless_suite 32 deep_groups deep_dtd 4 =
      Some (g', dtd', XML_ERROR_NONE, None, m')"
    using endless_never_refuses unfolding ends_def by blast
  have "scaffIndex deep_dtd = Some (3, replicate 31 (Some 0) @ replicate 97 None)" "in_eldecl deep_dtd"
    "groupSize deep_groups \<le> 32" "groupSize deep_groups \<noteq> 0" "unat (groupSize deep_groups) \<le> 2 ^ 28"
    by (simp_all add: deep_dtd_def deep_groups_def)
  note w = parameter_entity_shrinks_index [OF r this]
  have "2 * unat (groupSize deep_groups) = 64" by (simp add: deep_groups_def)
  with r w show ?thesis by simp
qed

text \<open>An allocator that refuses to enlarge a block, and a full array of connectors.\<close>

theorem refused_connectors_overrun_witness:
  "\<exists>g'. role_GROUP_OPEN (endless_suite\<lparr>realloc_fcn := \<lambda>p n m. (None, m)\<rparr>) 32 deep_groups deep_dtd 4 =
       Some (g', deep_dtd, XML_ERROR_NO_MEMORY, None, 4) \<and>
     role_GROUP_OPEN endless_suite 40 g' no_content 4 = None"
proof -
  define ms where "ms = endless_suite\<lparr>realloc_fcn := \<lambda>p n m. (None, m)\<rparr>"
  have h: "groupConnector deep_groups = Some (1, replicate 32 (Some 0))"
    "unat (groupSize deep_groups) = length (replicate 32 (Some (0 :: byte)))"
    "length (replicate 32 (Some (0 :: byte))) \<le> 2 ^ 30" "replicate 32 (Some (0 :: byte)) \<noteq> []"
    "groupSize deep_groups \<le> 32"
    by (simp_all add: deep_groups_def)
  have "realloc_fcn ms (Some 1) (groupSize deep_groups * 2) 4 = (None, 4)" by (simp add: ms_def)
  from refused_connectors_overrun [OF h this, of deep_dtd] obtain g' where
    g': "role_GROUP_OPEN ms 32 deep_groups deep_dtd 4 = Some (g', deep_dtd, XML_ERROR_NO_MEMORY, None, 4)"
      "\<forall>ms2 lv2 dtd2 m2. 32 \<le> unat lv2 \<longrightarrow> unat lv2 < 64 \<longrightarrow>
        role_GROUP_OPEN (ms2 :: nat XML_Memory_Handling_Suite) lv2 g' dtd2 m2 = None" by auto
  have "role_GROUP_OPEN endless_suite 40 g' no_content 4 = None" using g'(2) by simp
  with g'(1) show ?thesis unfolding ms_def by blast
qed

end
