(* ===== verification/Xml_Decl.thy ===== *)
theory Xml_Decl
  imports Xml_Role Xml_Convert
begin

text \<open>
  Encoding detection and XML declarations: the second half of \<^verbatim>\<open>xmltok.c\<close> and \<^verbatim>\<open>xmltok_ns.c\<close>. As in the
  scanners, a text is a byte list that ends where the code's \<open>end\<close> points and a pointer is an offset
  in it; \<open>ns\<close> selects the functions and encodings with the suffix \<open>_ns\<close>. Pointer arguments for results
  are never \<open>NULL\<close> in the calls of the parser, and a result that is not written is \<open>None\<close>.
\<close>

section \<open>Names of encodings\<close>

text \<open>C strings with their terminator; reading past the end of a list is a fault.\<close>

definition upcase :: "byte \<Rightarrow> byte" where
  "upcase c = (if 0x61 \<le> c \<and> c \<le> 0x7A then c + (0x41 - 0x61) else c)"

fun streqci :: "byte list \<Rightarrow> byte list \<Rightarrow> bool option" where
  "streqci (c1 # s1) (c2 # s2) =
     (let c1 = upcase c1; c2 = upcase c2
      in if c1 \<noteq> c2 then Some False else if c1 = 0 then Some True else streqci s1 s2)"
| "streqci _ _ = None"

abbreviation (input) UNKNOWN_ENC :: int where "UNKNOWN_ENC \<equiv> -1"
abbreviation (input) ISO_8859_1_ENC :: int where "ISO_8859_1_ENC \<equiv> 0"
abbreviation (input) US_ASCII_ENC :: int where "US_ASCII_ENC \<equiv> 1"
abbreviation (input) UTF_8_ENC :: int where "UTF_8_ENC \<equiv> 2"
abbreviation (input) UTF_16_ENC :: int where "UTF_16_ENC \<equiv> 3"
abbreviation (input) UTF_16BE_ENC :: int where "UTF_16BE_ENC \<equiv> 4"
abbreviation (input) UTF_16LE_ENC :: int where "UTF_16LE_ENC \<equiv> 5"
abbreviation (input) NO_ENC :: int where "NO_ENC \<equiv> 6"

definition KW_UTF_16 :: "byte list" where
  "KW_UTF_16 = ascii ''UTF-16'' @ [0]"

definition encodingNames :: "byte list list" where
  "encodingNames = [ascii ''ISO-8859-1'' @ [0], ascii ''US-ASCII'' @ [0], ascii ''UTF-8'' @ [0], KW_UTF_16,
     ascii ''UTF-16BE'' @ [0], ascii ''UTF-16LE'' @ [0]]"

fun index_loop :: "byte list \<Rightarrow> int \<Rightarrow> byte list list \<Rightarrow> int option" where
  "index_loop nam i [] = Some UNKNOWN_ENC"
| "index_loop nam i (e # es) = do {
     m \<leftarrow> streqci nam e;
     if m then Some i else index_loop nam (i + 1) es
   }"

definition getEncodingIndex :: "byte list option \<Rightarrow> int option" where
  "getEncodingIndex nam = (case nam of None \<Rightarrow> Some NO_ENC | Some nam \<Rightarrow> index_loop nam 0 encodingNames)"

definition encodings :: "bool \<Rightarrow> encoding list" where
  "encodings ns = [latin1_encoding ns, ascii_encoding ns, utf8_encoding ns, big2_encoding ns, big2_encoding ns,
     little2_encoding ns, utf8_encoding ns]"

section \<open>Detection\<close>

datatype scan_state = XML_PROLOG_STATE | XML_CONTENT_STATE

fun XmlTok :: "encoding \<Rightarrow> scan_state \<Rightarrow> byte list \<Rightarrow> nat \<Rightarrow> scan option" where
  "XmlTok enc XML_PROLOG_STATE b ptr = prologTok enc b ptr"
| "XmlTok enc XML_CONTENT_STATE b ptr = contentTok enc b ptr"

text \<open>The encoding stored through \<open>encPtr\<close> is the second result.\<close>

definition scan_as :: "bool \<Rightarrow> int \<Rightarrow> scan_state \<Rightarrow> byte list \<Rightarrow> nat \<Rightarrow> (scan \<times> encoding option) option" where
  "scan_as ns e state b ptr = do {
     r \<leftarrow> XmlTok (encodings ns ! nat e) state b ptr;
     Some (r, Some (encodings ns ! nat e))
   }"

definition found_bom :: "bool \<Rightarrow> int \<Rightarrow> nat \<Rightarrow> (scan \<times> encoding option) option" where
  "found_bom ns e nx = Some ((XML_TOK_BOM, Some nx), Some (encodings ns ! nat e))"

definition partial_scan :: "(scan \<times> encoding option) option" where
  "partial_scan = Some ((XML_TOK_PARTIAL, None), None)"

definition initScan_one :: "bool \<Rightarrow> int \<Rightarrow> scan_state \<Rightarrow> byte list \<Rightarrow> nat \<Rightarrow> (scan \<times> encoding option) option" where
  "initScan_one ns idx state b ptr =
     (if idx = UTF_16_ENC \<or> idx = UTF_16LE_ENC \<or> idx = UTF_16BE_ENC then partial_scan
      else if b ! ptr = 0xFE \<or> b ! ptr = 0xFF \<or> b ! ptr = 0xEF then
        if idx = ISO_8859_1_ENC \<and> state = XML_CONTENT_STATE then scan_as ns idx state b ptr
        else partial_scan
      else if b ! ptr = 0x00 \<or> b ! ptr = 0x3C then partial_scan
      else scan_as ns idx state b ptr)"

definition initScan_two :: "bool \<Rightarrow> int \<Rightarrow> scan_state \<Rightarrow> byte list \<Rightarrow> nat \<Rightarrow> (scan \<times> encoding option) option" where
  "initScan_two ns idx state b ptr =
     (let b0 = b ! ptr; b1 = b ! (ptr + 1)
      in if b0 = 0xFE \<and> b1 = 0xFF then
           if idx = ISO_8859_1_ENC \<and> state = XML_CONTENT_STATE then scan_as ns idx state b ptr
           else found_bom ns UTF_16BE_ENC (ptr + 2)
         else if b0 = 0x3C \<and> b1 = 0x00 then
           if (idx = UTF_16BE_ENC \<or> idx = UTF_16_ENC) \<and> state = XML_CONTENT_STATE then scan_as ns idx state b ptr
           else scan_as ns UTF_16LE_ENC state b ptr
         else if b0 = 0xFF \<and> b1 = 0xFE then
           if idx = ISO_8859_1_ENC \<and> state = XML_CONTENT_STATE then scan_as ns idx state b ptr
           else found_bom ns UTF_16LE_ENC (ptr + 2)
         else if b0 = 0xEF \<and> b1 = 0xBB then
           if state = XML_CONTENT_STATE \<and> (idx = ISO_8859_1_ENC \<or> idx = UTF_16BE_ENC \<or> idx = UTF_16LE_ENC \<or>
                idx = UTF_16_ENC)
           then scan_as ns idx state b ptr
           else if ptr + 2 = length b then partial_scan
           else if b ! (ptr + 2) = 0xBF then found_bom ns UTF_8_ENC (ptr + 3)
           else scan_as ns idx state b ptr
         else if b0 = 0 then
           if state = XML_CONTENT_STATE \<and> idx = UTF_16LE_ENC then scan_as ns idx state b ptr
           else scan_as ns UTF_16BE_ENC state b ptr
         else if b1 = 0 then
           if state = XML_CONTENT_STATE then scan_as ns idx state b ptr
           else scan_as ns UTF_16LE_ENC state b ptr
         else scan_as ns idx state b ptr)"

definition initScan :: "bool \<Rightarrow> int \<Rightarrow> scan_state \<Rightarrow> byte list \<Rightarrow> nat \<Rightarrow> (scan \<times> encoding option) option" where
  "initScan ns idx state b ptr =
     (if ptr = length b then Some ((XML_TOK_NONE, None), None)
      else if length b < ptr then None
      else if ptr + 1 = length b then initScan_one ns idx state b ptr
      else initScan_two ns idx state b ptr)"

text \<open>The index that \<open>XmlInitEncoding\<close> stores in the initial encoding, \<open>None\<close> if it returns \<open>0\<close>.\<close>

definition XmlInitEncoding :: "byte list option \<Rightarrow> int option option" where
  "XmlInitEncoding nam = do {
     i \<leftarrow> getEncodingIndex nam;
     Some (if i = UNKNOWN_ENC then None else Some i)
   }"

section \<open>XML declarations\<close>

text \<open>\<open>char\<close> is signed: a byte from \<open>0x80\<close> on is a negative number.\<close>

definition toAscii :: "encoding \<Rightarrow> byte list \<Rightarrow> nat \<Rightarrow> int option" where
  "toAscii enc b ptr = do {
     (n, out) \<leftarrow> XmlUtf8Convert enc (drop ptr b) 1;
     Some (case out of [] \<Rightarrow> -1 | c # _ \<Rightarrow> sint c)
   }"

definition isSpace :: "int \<Rightarrow> bool" where
  "isSpace c \<longleftrightarrow> c = 0x20 \<or> c = 0xD \<or> c = 0xA \<or> c = 0x9"

text \<open>The loops of \<open>parsePseudoAttribute\<close>; the first one returns the first character that is no white
  space with its place.\<close>

partial_function (option) skip_space :: "encoding \<Rightarrow> byte list \<Rightarrow> nat \<Rightarrow> (nat \<times> int) option" where
  "skip_space enc b ptr = do {
     c \<leftarrow> toAscii enc b ptr;
     if isSpace c then skip_space enc b (ptr + MIN_BYTES_PER_CHAR enc) else Some (ptr, c)
   }"

abbreviation (input) ASCII_EQUALS :: int where "ASCII_EQUALS \<equiv> 0x3D"

partial_function (option) name_loop :: "encoding \<Rightarrow> byte list \<Rightarrow> nat \<Rightarrow> (nat + nat \<times> nat) option" where
  "name_loop enc b ptr = do {
     c \<leftarrow> toAscii enc b ptr;
     if c = -1 then Some (Inl ptr)
     else if c = ASCII_EQUALS then Some (Inr (ptr, ptr))
     else if isSpace c then do {
       (p, c) \<leftarrow> skip_space enc b (ptr + MIN_BYTES_PER_CHAR enc);
       if c \<noteq> ASCII_EQUALS then Some (Inl p) else Some (Inr (ptr, p))
     }
     else name_loop enc b (ptr + MIN_BYTES_PER_CHAR enc)
   }"

definition value_char :: "int \<Rightarrow> bool" where
  "value_char c \<longleftrightarrow> (0x61 \<le> c \<and> c \<le> 0x7A) \<or> (0x41 \<le> c \<and> c \<le> 0x5A) \<or> (0x30 \<le> c \<and> c \<le> 0x39) \<or>
     c = 0x2E \<or> c = 0x2D \<or> c = 0x5F"

partial_function (option) value_loop :: "encoding \<Rightarrow> byte list \<Rightarrow> int \<Rightarrow> nat \<Rightarrow> (nat + nat) option" where
  "value_loop enc b quote ptr = do {
     c \<leftarrow> toAscii enc b ptr;
     if c = quote then Some (Inr ptr)
     else if \<not> value_char c then Some (Inl ptr)
     else value_loop enc b quote (ptr + MIN_BYTES_PER_CHAR enc)
   }"

text \<open>\<open>Bad\<close> is the result \<open>0\<close> with \<open>*nextTokPtr\<close>, \<open>No_attribute\<close> the result \<open>1\<close> with the name \<open>NULL\<close>,
  where \<open>*nextTokPtr\<close> is not written.\<close>

datatype pseudo = Bad nat | No_attribute | Attribute (pa_name: nat) (pa_nameEnd: nat) (pa_val: nat) (pa_next: nat)

definition parsePseudoAttribute :: "encoding \<Rightarrow> byte list \<Rightarrow> nat \<Rightarrow> pseudo option" where
  "parsePseudoAttribute enc b ptr =
     (if ptr = length b then Some No_attribute
      else do {
        c \<leftarrow> toAscii enc b ptr;
        if \<not> isSpace c then Some (Bad ptr)
        else do {
          (nm, c) \<leftarrow> skip_space enc b (ptr + MIN_BYTES_PER_CHAR enc);
          if nm = length b then Some No_attribute
          else do {
            r \<leftarrow> name_loop enc b nm;
            case r of
              Inl bad \<Rightarrow> Some (Bad bad)
            | Inr (nameEnd, p) \<Rightarrow>
                if p = nm then Some (Bad p)
                else do {
                  (p, c) \<leftarrow> skip_space enc b (p + MIN_BYTES_PER_CHAR enc);
                  if c \<noteq> 0x22 \<and> c \<noteq> 0x27 then Some (Bad p)
                  else do {
                    let v = p + MIN_BYTES_PER_CHAR enc;
                    r \<leftarrow> value_loop enc b c v;
                    case r of
                      Inl bad \<Rightarrow> Some (Bad bad)
                    | Inr p \<Rightarrow> Some (Attribute nm nameEnd v (p + MIN_BYTES_PER_CHAR enc))
                  }
                }
          }
        }
      })"

text \<open>\<open>findEncoding\<close> returns an encoding or \<open>NULL\<close>. The text ends at \<open>lim\<close>.\<close>

abbreviation (input) ENCODING_MAX :: nat where "ENCODING_MAX \<equiv> 128"

definition findEncoding :: "bool \<Rightarrow> encoding \<Rightarrow> byte list \<Rightarrow> nat \<Rightarrow> nat \<Rightarrow> encoding option option" where
  "findEncoding ns enc b ptr lim = do {
     (n, out) \<leftarrow> XmlUtf8Convert enc (drop ptr (take lim b)) (ENCODING_MAX - 1);
     if ptr + n \<noteq> lim then Some None
     else do {
       u16 \<leftarrow> streqci (out @ [0]) KW_UTF_16;
       if u16 \<and> MIN_BYTES_PER_CHAR enc = 2 then Some (Some enc)
       else do {
         i \<leftarrow> getEncodingIndex (Some (out @ [0]));
         Some (if i = UNKNOWN_ENC then None else Some (encodings ns ! nat i))
       }
     }
   }"

record xml_decl =
  versionPtr :: "nat option"
  versionEndPtr :: "nat option"
  encodingName :: "nat option"
  declEncoding :: "encoding option option"
  standalone :: "bool option"

definition no_decl :: xml_decl where
  "no_decl = \<lparr>versionPtr = None, versionEndPtr = None, encodingName = None, declEncoding = None, standalone = None\<rparr>"

text \<open>The result is the place of the error, \<open>None\<close> if there is none, and what has been stored.\<close>

type_synonym decl_result = "(nat option \<times> xml_decl) option"

definition KW_version :: "byte list" where "KW_version = ascii ''version''"
definition KW_encoding :: "byte list" where "KW_encoding = ascii ''encoding''"
definition KW_standalone :: "byte list" where "KW_standalone = ascii ''standalone''"
definition KW_yes :: "byte list" where "KW_yes = ascii ''yes''"
definition KW_no :: "byte list" where "KW_no = ascii ''no''"

definition parse_standalone ::
  "bool \<Rightarrow> encoding \<Rightarrow> byte list \<Rightarrow> nat \<Rightarrow> nat \<Rightarrow> nat \<Rightarrow> nat \<Rightarrow> xml_decl \<Rightarrow> decl_result" where
  "parse_standalone isGeneralTextEntity enc b nm nameEnd val ptr d = do {
     m \<leftarrow> XmlNameMatchesAscii enc (take nameEnd b) nm KW_standalone;
     if \<not> m \<or> isGeneralTextEntity then Some (Some nm, d)
     else do {
       yes \<leftarrow> XmlNameMatchesAscii enc (take (ptr - MIN_BYTES_PER_CHAR enc) b) val KW_yes;
       no \<leftarrow> (if yes then Some False
              else XmlNameMatchesAscii enc (take (ptr - MIN_BYTES_PER_CHAR enc) b) val KW_no);
       if \<not> yes \<and> \<not> no then Some (Some val, d)
       else do {
         (p, c) \<leftarrow> skip_space enc b ptr;
         Some (if p \<noteq> length b then Some p else None, d\<lparr>standalone := Some yes\<rparr>)
       }
     }
   }"

definition parse_encoding ::
  "bool \<Rightarrow> bool \<Rightarrow> encoding \<Rightarrow> byte list \<Rightarrow> nat \<Rightarrow> nat \<Rightarrow> nat \<Rightarrow> nat \<Rightarrow> xml_decl \<Rightarrow> decl_result" where
  "parse_encoding ns isGeneralTextEntity enc b nm nameEnd val ptr d = do {
     m \<leftarrow> XmlNameMatchesAscii enc (take nameEnd b) nm KW_encoding;
     if m then do {
       c \<leftarrow> toAscii enc b val;
       if \<not> (0x61 \<le> c \<and> c \<le> 0x7A) \<and> \<not> (0x41 \<le> c \<and> c \<le> 0x5A) then Some (Some val, d)
       else do {
         e \<leftarrow> findEncoding ns enc b val (ptr - MIN_BYTES_PER_CHAR enc);
         let d = d\<lparr>encodingName := Some val, declEncoding := Some e\<rparr>;
         r \<leftarrow> parsePseudoAttribute enc b ptr;
         case r of
           Bad p \<Rightarrow> Some (Some p, d)
         | No_attribute \<Rightarrow> Some (None, d)
         | Attribute nm nameEnd val ptr \<Rightarrow> parse_standalone isGeneralTextEntity enc b nm nameEnd val ptr d
       }
     }
     else parse_standalone isGeneralTextEntity enc b nm nameEnd val ptr d
   }"

definition doParseXmlDecl :: "bool \<Rightarrow> bool \<Rightarrow> encoding \<Rightarrow> byte list \<Rightarrow> nat \<Rightarrow> decl_result" where
  "doParseXmlDecl ns isGeneralTextEntity enc b ptr = do {
     let ptr = ptr + 5 * MIN_BYTES_PER_CHAR enc;
     let b = take (length b - 2 * MIN_BYTES_PER_CHAR enc) b;
     r \<leftarrow> parsePseudoAttribute enc b ptr;
     case r of
       Bad p \<Rightarrow> Some (Some p, no_decl)
     | No_attribute \<Rightarrow> Some (Some ptr, no_decl)
     | Attribute nm nameEnd val ptr \<Rightarrow> do {
         m \<leftarrow> XmlNameMatchesAscii enc (take nameEnd b) nm KW_version;
         if \<not> m then
           if \<not> isGeneralTextEntity then Some (Some nm, no_decl)
           else parse_encoding ns isGeneralTextEntity enc b nm nameEnd val ptr no_decl
         else do {
           let d = no_decl\<lparr>versionPtr := Some val, versionEndPtr := Some ptr\<rparr>;
           r \<leftarrow> parsePseudoAttribute enc b ptr;
           case r of
             Bad p \<Rightarrow> Some (Some p, d)
           | No_attribute \<Rightarrow> Some (if isGeneralTextEntity then Some ptr else None, d)
           | Attribute nm nameEnd val ptr \<Rightarrow> parse_encoding ns isGeneralTextEntity enc b nm nameEnd val ptr d
         }
       }
   }"

definition XmlParseXmlDecl :: "bool \<Rightarrow> bool \<Rightarrow> encoding \<Rightarrow> byte list \<Rightarrow> nat \<Rightarrow> decl_result" where
  "XmlParseXmlDecl ns isGeneralTextEntity enc b ptr = doParseXmlDecl ns isGeneralTextEntity enc b ptr"

end
