(* ===== verification/Xml_Reader.thy ===== *)
theory Xml_Reader
  imports Xml_Decl Xml_Convert_Props Xml_Tok_Safety
begin

text \<open>
  What \<open>doParseXmlDecl\<close> needs of an encoding: \<open>toAscii\<close> reads an ASCII character where there is one, and
  nothing else, and the converter copies ASCII text. All built-in encodings keep this interface.
\<close>

abbreviation ascii_bytes :: "byte list \<Rightarrow> bool" where
  "ascii_bytes \<equiv> list_all (\<lambda>c. c < 0x80)"

locale text_reader =
  fixes enc :: encoding
  assumes min_bytes: "minBytesPerChar enc = MINBPC enc"
    and read_char: "x < 0x80 \<Longrightarrow> MINBPC enc dvd length post \<Longrightarrow>
      toAscii enc (pre @ enc_char enc x @ post) (length pre) = Some (uint x)"
    and read_end: "toAscii enc b (length b) = Some (-1)"
    and read_total: "ptr \<le> length b \<Longrightarrow> MINBPC enc dvd length b - ptr \<Longrightarrow> \<exists>c. toAscii enc b ptr = Some c"
    and read_inside: "toAscii enc b ptr = Some c \<Longrightarrow> c \<noteq> -1 \<Longrightarrow> ptr < length b"
    and read_ascii: "toAscii enc b ptr = Some c \<Longrightarrow> 0 \<le> c \<Longrightarrow> c < 0x80 \<and> text_at enc b ptr [word_of_int c]"
    and convert_ascii: "ascii_bytes w \<Longrightarrow>
      XmlUtf8Convert enc (enc_text enc w) room = Some (min (length w) room * MINBPC enc, take room w)"

section \<open>The built-in converters on ASCII text\<close>

lemma utf8_ascii: "ascii_bytes w \<Longrightarrow> utf8_toUtf8 w room = (min (length w) room, take room w)"
proof -
  assume a: "ascii_bytes w"
  have "back_off w room = room" if "room < length w"
  proof (cases room)
    case (Suc n)
    then have "w ! n < 0x80" using a that by (simp add: list_all_length)
    then show ?thesis using Suc and_C0_80 [of "w ! n"] by (simp add: word_le_nat_alt word_less_nat_alt)
  qed simp
  then show ?thesis by (auto simp: utf8_toUtf8_def Let_def)
qed

lemma latin1_ascii: "ascii_bytes w \<Longrightarrow> latin1_toUtf8 w room = (min (length w) room, take room w)"
proof (induction w arbitrary: room)
  case (Cons c w)
  then show ?case by (cases room) (simp_all add: and_80)
qed simp

lemma utf16_ascii:
  "ascii_bytes w \<Longrightarrow>
     utf16_toUtf8 E (concat (map (\<lambda>c. case E of Little \<Rightarrow> [c, 0] | Big \<Rightarrow> [0, c]) w)) room
       = Some (min (length w) room * 2, take room w)"
proof (induction w arbitrary: room)
  case (Cons c w)
  then show ?case by (cases room; cases E) simp_all
qed simp

text \<open>One character of room: what is written is the first byte of the text, a single ASCII character.\<close>

lemma utf8_one:
  "utf8_toUtf8 src 1 = (case src of [] \<Rightarrow> (0, []) | c # r \<Rightarrow> if r \<noteq> [] \<and> 0x80 \<le> c \<and> c \<le> 0xBF then (0, []) else (1, [c]))"
  by (cases src) (auto simp: utf8_toUtf8_def and_C0_80)

lemma latin1_one:
  "latin1_toUtf8 src 1 = (case src of [] \<Rightarrow> (0, []) | c # r \<Rightarrow> if c < 0x80 then (1, [c]) else (0, []))"
proof (cases src)
  case (Cons c r)
  have "latin1_toUtf8 r 0 = (0, [])" by (cases r) simp_all
  then show ?thesis using Cons by (simp add: and_80 [symmetric])
qed simp

lemma ascii_one: "ascii_toUtf8 src 1 = (case src of [] \<Rightarrow> (0, []) | c # r \<Rightarrow> (1, [c]))"
  by (cases src) (simp_all add: ascii_toUtf8_def)

lemma utf16_zero: "even (length src) \<Longrightarrow> utf16_toUtf8 E src 0 = Some (0, [])"
  by (cases "(E, src, 0 :: nat)" rule: utf16_toUtf8.cases) (auto simp: Let_def)

lemma utf16_one:
  "even (length src) \<Longrightarrow> utf16_toUtf8 E src 1 =
     (case src of p0 # p1 # r \<Rightarrow>
        if GET_HI E p0 p1 = 0 \<and> GET_LO E p0 p1 < 0x80 then Some (2, [GET_LO E p0 p1]) else Some (0, [])
      | _ \<Rightarrow> Some (0, []))"
  by (cases "(E, src, 1 :: nat)" rule: utf16_toUtf8.cases) (auto simp: Let_def utf16_zero)

lemma utf16_one_Some:
  assumes "utf16_toUtf8 E src 1 = Some (n, out)" "out \<noteq> []"
  shows "\<exists>p0 p1 r. src = p0 # p1 # r \<and> GET_HI E p0 p1 = 0 \<and> GET_LO E p0 p1 < 0x80 \<and> hd out = GET_LO E p0 p1"
  using assms by (cases "(E, src, 1 :: nat)" rule: utf16_toUtf8.cases)
    (auto simp: Let_def bind_eq_Some_iff split: if_split_asm)

section \<open>The built-in encodings\<close>

lemma toAscii_at: "toAscii enc (pre @ src) (length pre) = toAscii enc src 0"
  by (simp add: toAscii_def)

lemma toAscii_drop: "toAscii enc b ptr = toAscii enc (drop ptr b) 0"
  by (simp add: toAscii_def)

lemma sint_byte: "c < 0x80 \<Longrightarrow> sint (c :: byte) = uint c" "\<not> c < 0x80 \<Longrightarrow> sint (c :: byte) < 0"
proof -
  assume "c < 0x80"
  then show "sint c = uint c" by (intro sint_ascii) (simp add: word_less_nat_alt word_le_nat_alt)
next
  assume "\<not> c < 0x80"
  then have "128 \<le> uint c" "uint c < 256" using uint_lt2p [of c] by (simp_all add: word_less_def)
  then have "uint c div 128 = 1" by presburger
  then have "bit (uint c) 7" by (simp add: bit_iff_odd)
  then show "sint c < 0" by (simp add: sint_uint)
qed

text \<open>The two families: one byte a character, and UTF-16 in either order.\<close>

definition byte_converter :: "encoding \<Rightarrow> bool" where
  "byte_converter enc \<longleftrightarrow> prefix enc = Normal \<and> minBytesPerChar enc = 1 \<and>
     utf8Convert enc \<in> {Utf8_toUtf8, Latin1_toUtf8, Ascii_toUtf8}"

fun order_of :: "prefix \<Rightarrow> byte_order" where
  "order_of Big2 = Big"
| "order_of _ = Little"

definition utf16_converter :: "encoding \<Rightarrow> bool" where
  "utf16_converter enc \<longleftrightarrow> prefix enc \<noteq> Normal \<and> minBytesPerChar enc = 2 \<and>
     utf8Convert enc = (case prefix enc of Big2 \<Rightarrow> Big2_toUtf8 | _ \<Rightarrow> Little2_toUtf8)"

lemma byte_toAscii:
  assumes "byte_converter enc"
  shows "\<exists>c. toAscii enc src 0 = Some c \<and> (src = [] \<longrightarrow> c = -1) \<and> (src \<noteq> [] \<and> hd src < 0x80 \<longrightarrow> c = uint (hd src)) \<and>
    (src \<noteq> [] \<and> \<not> hd src < 0x80 \<longrightarrow> c < 0)"
proof -
  from assms have "utf8Convert enc = Utf8_toUtf8 \<or> utf8Convert enc = Latin1_toUtf8 \<or> utf8Convert enc = Ascii_toUtf8"
    by (auto simp: byte_converter_def)
  then show ?thesis
    by (elim disjE; cases src)
      (auto simp: toAscii_def utf8_one latin1_one ascii_one sint_byte simp del: One_nat_def latin1_toUtf8.simps)
qed

lemma byte_text_reader:
  assumes "byte_converter enc"
  shows "text_reader enc"
proof
  have b: "MINBPC enc = 1" "minBytesPerChar enc = 1" "enc_char enc x = [x]" for x
    using assms by (simp_all add: byte_converter_def MINBPC_def enc_char_def)
  have "enc_char enc = (\<lambda>x. [x])" using b(3) by (intro ext)
  then have tx: "enc_text enc w = w" for w by (simp add: enc_text_def)
  show "minBytesPerChar enc = MINBPC enc" using b by simp
  show "toAscii enc (pre @ enc_char enc x @ post) (length pre) = Some (uint x)" if "x < 0x80" for x pre post
    using byte_toAscii [OF assms, of "x # post"] that by (auto simp: toAscii_at b)
  show "toAscii enc b (length b) = Some (-1)" for b
    using byte_toAscii [OF assms, of "[]"] by (auto simp: toAscii_drop [of enc b])
  show "\<exists>c. toAscii enc b ptr = Some c" for b ptr
    using byte_toAscii [OF assms, of "drop ptr b"] by (auto simp: toAscii_drop [of enc b])
  show "ptr < length b" if "toAscii enc b ptr = Some c" "c \<noteq> -1" for b ptr c
    using byte_toAscii [OF assms, of "drop ptr b"] that by (auto simp: toAscii_drop [of enc b])
  show "c < 0x80 \<and> text_at enc b ptr [word_of_int c]" if "toAscii enc b ptr = Some c" "0 \<le> c" for b ptr c
  proof -
    from byte_toAscii [OF assms, of "drop ptr b"] that have ne: "drop ptr b \<noteq> []" "hd (drop ptr b) < 0x80"
      "c = uint (hd (drop ptr b))" by (auto simp: toAscii_drop [of enc b])
    then show ?thesis by (cases "drop ptr b") (auto simp: text_at_def b word_less_def)
  qed
  show "XmlUtf8Convert enc (enc_text enc w) room = Some (min (length w) room * MINBPC enc, take room w)"
    if "ascii_bytes w" for w room
  proof -
    have "ascii_toUtf8 w room = (min (length w) room, take room w)"
      by (cases "length w \<le> room") (simp_all add: ascii_toUtf8_def)
    then show ?thesis using assms utf8_ascii [OF that] latin1_ascii [OF that]
      by (auto simp: byte_converter_def tx b)
  qed
qed

lemma utf16_convert:
  assumes "utf16_converter enc"
  shows "XmlUtf8Convert enc src room = utf16_toUtf8 (order_of (prefix enc)) src room"
  using assms by (cases "prefix enc") (auto simp: utf16_converter_def)

lemma utf16_toAscii:
  assumes "utf16_converter enc" "even (length src)"
  shows "toAscii enc src 0 = Some (case src of p0 # p1 # r \<Rightarrow>
      if GET_HI (order_of (prefix enc)) p0 p1 = 0 \<and> GET_LO (order_of (prefix enc)) p0 p1 < 0x80
      then uint (GET_LO (order_of (prefix enc)) p0 p1) else -1
    | _ \<Rightarrow> -1)"
  using utf16_one [OF assms(2), of "order_of (prefix enc)"]
  by (auto simp: toAscii_def utf16_convert [OF assms(1)] sint_byte simp del: XmlUtf8Convert.simps One_nat_def
      split: list.splits)

lemma utf16_text_reader:
  assumes "utf16_converter enc"
  shows "text_reader enc"
proof
  let ?E = "order_of (prefix enc)"
  have b: "MINBPC enc = 2" "minBytesPerChar enc = 2" "prefix enc = Little2 \<or> prefix enc = Big2"
    using assms by (cases "prefix enc"; simp add: utf16_converter_def MINBPC_def)+
  have ch: "\<exists>p0 p1. enc_char enc x = [p0, p1] \<and> GET_HI ?E p0 p1 = 0 \<and> GET_LO ?E p0 p1 = x" for x
    using b(3) by (auto simp: enc_char_def)
  show "minBytesPerChar enc = MINBPC enc" using b by simp
  show "toAscii enc (pre @ enc_char enc x @ post) (length pre) = Some (uint x)"
    if "x < 0x80" "MINBPC enc dvd length post" for x pre post
    using utf16_toAscii [OF assms, of "enc_char enc x @ post"] ch [of x] that by (auto simp: toAscii_at b)
  show "toAscii enc b (length b) = Some (-1)" for b
    using utf16_toAscii [OF assms, of "[]"] by (simp add: toAscii_drop [of enc b])
  show "\<exists>c. toAscii enc b ptr = Some c" if "MINBPC enc dvd length b - ptr" for b ptr
    using utf16_toAscii [OF assms, of "drop ptr b"] that by (simp add: toAscii_drop [of enc b] b)
  have some: "\<exists>p0 p1 r. drop ptr b = p0 # p1 # r \<and> GET_HI ?E p0 p1 = 0 \<and> GET_LO ?E p0 p1 < 0x80 \<and> c = uint (GET_LO ?E p0 p1)"
    if "toAscii enc b ptr = Some c" "c \<noteq> -1" for b ptr c
  proof -
    from that(1) obtain n out where o: "utf16_toUtf8 ?E (drop ptr b) 1 = Some (n, out)"
        "c = (case out of [] \<Rightarrow> -1 | c # _ \<Rightarrow> sint c)"
      unfolding toAscii_def utf16_convert [OF assms] bind_eq_Some_iff by auto
    then have "out \<noteq> []" "c = sint (hd out)" using that(2) by (auto split: list.splits)
    note o = o(1) this
    from utf16_one_Some [OF o(1,2)] o(3) show ?thesis by (auto simp: sint_byte)
  qed
  show "ptr < length b" if "toAscii enc b ptr = Some c" "c \<noteq> -1" for b ptr c
    using some [OF that] by (cases "ptr < length b") auto
  show "c < 0x80 \<and> text_at enc b ptr [word_of_int c]" if "toAscii enc b ptr = Some c" "0 \<le> c" for b ptr c
  proof -
    have "c \<noteq> -1" using that(2) by simp
    from some [OF that(1) this] b(3) show ?thesis
      by (auto simp: text_at_def b(1) enc_char_def word_less_def)
  qed
  show "XmlUtf8Convert enc (enc_text enc w) room = Some (min (length w) room * MINBPC enc, take room w)"
    if "ascii_bytes w" for w room
  proof -
    have "enc_text enc w = concat (map (\<lambda>c. case ?E of Little \<Rightarrow> [c, 0] | Big \<Rightarrow> [0, c]) w)"
      using b(3) by (auto simp: enc_text_def enc_char_def [abs_def])
    then show ?thesis using utf16_ascii [OF that] by (simp add: utf16_convert [OF assms] b del: XmlUtf8Convert.simps)
  qed
qed

lemma builtin_text_reader: "enc \<in> set (builtin_encodings ns) \<Longrightarrow> text_reader enc"
proof -
  assume "enc \<in> set (builtin_encodings ns)"
  then have "byte_converter enc \<or> utf16_converter enc"
    unfolding builtin_encodings_def
    by (auto simp: byte_converter_def utf16_converter_def utf8_encoding_def internal_utf8_encoding_def
        latin1_encoding_def ascii_encoding_def little2_encoding_def internal_little2_encoding_def big2_encoding_def)
  then show ?thesis using byte_text_reader utf16_text_reader by blast
qed

interpretation utf8_reader: text_reader "utf8_encoding ns" for ns
  by (rule builtin_text_reader [of _ ns]) (simp add: builtin_encodings_def)

interpretation latin1_reader: text_reader "latin1_encoding ns" for ns
  by (rule builtin_text_reader [of _ ns]) (simp add: builtin_encodings_def)

interpretation big2_reader: text_reader "big2_encoding ns" for ns
  by (rule builtin_text_reader [of _ ns]) (simp add: builtin_encodings_def)

interpretation little2_reader: text_reader "little2_encoding ns" for ns
  by (rule builtin_text_reader [of _ ns]) (simp add: builtin_encodings_def)

end
