(* ===== verification/Xml_Decl_Props.thy ===== *)
theory Xml_Decl_Props
  imports Xml_Reader Xml_Scan_Props
begin

text \<open>
  XML declarations are read to the end in every built-in encoding, whatever the bytes are, and a
  declaration that was written according to the grammar is read back; the encoding of a document is
  found from its first bytes.
\<close>

section \<open>Names of encodings\<close>

lemma upcase_0 [simp]: "upcase c = 0 \<longleftrightarrow> c = 0"
  by (auto simp: upcase_def word_le_nat_alt unat_arith_simps)

lemma streqci_correct:
  "0 \<notin> set s \<Longrightarrow> 0 \<notin> set t \<Longrightarrow> streqci (s @ [0]) (t @ [0]) = Some (map upcase s = map upcase t)"
proof (induction s arbitrary: t)
  case Nil
  then show ?case by (cases t) (auto simp: upcase_def)
next
  case (Cons c s)
  have z: "upcase c \<noteq> upcase 0" using Cons.prems(1) upcase_0 [of c] by (auto simp: upcase_def)
  show ?case using Cons z by (cases t) (auto simp: Let_def)
qed

text \<open>The table of names and encodings that \<open>getEncodingIndex\<close> and \<open>encodings\<close> amount to.\<close>

definition named_encodings :: "bool \<Rightarrow> (byte list \<times> encoding) list" where
  "named_encodings ns = [(ascii ''ISO-8859-1'', latin1_encoding ns), (ascii ''US-ASCII'', ascii_encoding ns),
     (ascii ''UTF-8'', utf8_encoding ns), (ascii ''UTF-16'', big2_encoding ns),
     (ascii ''UTF-16BE'', big2_encoding ns), (ascii ''UTF-16LE'', little2_encoding ns)]"

definition named_encoding :: "bool \<Rightarrow> encoding \<Rightarrow> byte list \<Rightarrow> encoding option" where
  "named_encoding ns enc w =
     (if 127 < length w then None
      else if map upcase w = ascii ''UTF-16'' \<and> MINBPC enc = 2 then Some enc
      else map_of (named_encodings ns) (map upcase w))"

lemma keyword_upcase:
  "map upcase (ascii ''ISO-8859-1'') = ascii ''ISO-8859-1''" "map upcase (ascii ''US-ASCII'') = ascii ''US-ASCII''"
  "map upcase (ascii ''UTF-8'') = ascii ''UTF-8''" "map upcase (ascii ''UTF-16'') = ascii ''UTF-16''"
  "map upcase (ascii ''UTF-16BE'') = ascii ''UTF-16BE''" "map upcase (ascii ''UTF-16LE'') = ascii ''UTF-16LE''"
  by (simp_all add: ascii_def upcase_def)

lemma keyword_nonzero:
  "0 \<notin> set (ascii ''ISO-8859-1'')" "0 \<notin> set (ascii ''US-ASCII'')" "0 \<notin> set (ascii ''UTF-8'')"
  "0 \<notin> set (ascii ''UTF-16'')" "0 \<notin> set (ascii ''UTF-16BE'')" "0 \<notin> set (ascii ''UTF-16LE'')"
  by (simp_all add: ascii_def)

lemma index_loop_correct:
  assumes "0 \<notin> set w" "\<And>k. k \<in> set ks \<Longrightarrow> 0 \<notin> set k" "length vs = length ks"
  shows "\<exists>j. index_loop (w @ [0]) i (map (\<lambda>k. k @ [0]) ks) = Some j \<and>
    (j = UNKNOWN_ENC \<and> map_of (zip (map (map upcase) ks) vs) (map upcase w) = None \<or>
     i \<le> j \<and> nat (j - i) < length vs \<and>
       map_of (zip (map (map upcase) ks) vs) (map upcase w) = Some (vs ! nat (j - i)))"
  using assms(2,3)
proof (induction ks arbitrary: i vs)
  case Nil
  then show ?case by simp
next
  case (Cons k ks)
  then obtain v us where vs: "vs = v # us" by (cases vs) auto
  have m: "streqci (w @ [0]) (k @ [0]) = Some (map upcase w = map upcase k)"
    using streqci_correct assms(1) Cons.prems(1) by simp
  from Cons.IH [of us "i + 1"] Cons.prems vs obtain j where
    j: "index_loop (w @ [0]) (i + 1) (map (\<lambda>k. k @ [0]) ks) = Some j"
      "j = UNKNOWN_ENC \<and> map_of (zip (map (map upcase) ks) us) (map upcase w) = None \<or>
       i + 1 \<le> j \<and> nat (j - (i + 1)) < length us \<and>
         map_of (zip (map (map upcase) ks) us) (map upcase w) = Some (us ! nat (j - (i + 1)))" by auto
  show ?case
  proof (cases "map upcase w = map upcase k")
    case True
    then show ?thesis using m vs by simp
  next
    case False
    have "nat (j - i) = Suc (nat (j - (i + 1)))" if "i + 1 \<le> j" using that by simp
    then show ?thesis using m vs False j by auto
  qed
qed

lemma getEncodingIndex_correct:
  assumes "0 \<notin> set w"
  shows "\<exists>i. getEncodingIndex (Some (w @ [0])) = Some i \<and>
    (if i = UNKNOWN_ENC then None else Some (encodings ns ! nat i)) = map_of (named_encodings ns) (map upcase w)"
proof -
  define ks where "ks = [ascii ''ISO-8859-1'', ascii ''US-ASCII'', ascii ''UTF-8'', ascii ''UTF-16'', ascii ''UTF-16BE'', ascii ''UTF-16LE'']"
  define vs where "vs = [latin1_encoding ns, ascii_encoding ns, utf8_encoding ns, big2_encoding ns, big2_encoding ns, little2_encoding ns]"
  have k: "encodingNames = map (\<lambda>k. k @ [0]) ks" "named_encodings ns = zip (map (map upcase) ks) vs"
      "encodings ns = vs @ [utf8_encoding ns]" "length vs = length ks"
    by (simp_all only: encodingNames_def KW_UTF_16_def named_encodings_def encodings_def ks_def vs_def keyword_upcase
        list.map list.case zip_Cons_Cons zip.simps append.simps list.size)
  have "0 \<notin> set k" if "k \<in> set ks" for k using that keyword_nonzero unfolding ks_def by auto
  from index_loop_correct [OF assms this k(4), of 0] obtain j where
    j: "index_loop (w @ [0]) 0 (map (\<lambda>k. k @ [0]) ks) = Some j"
      "j = UNKNOWN_ENC \<and> map_of (zip (map (map upcase) ks) vs) (map upcase w) = None \<or>
       0 \<le> j \<and> nat j < length vs \<and> map_of (zip (map (map upcase) ks) vs) (map upcase w) = Some (vs ! nat j)" by auto
  have "getEncodingIndex (Some (w @ [0])) = Some j" using j(1) by (simp add: getEncodingIndex_def k(1))
  moreover have "(if j = UNKNOWN_ENC then None else Some (encodings ns ! nat j)) = map_of (named_encodings ns) (map upcase w)"
    unfolding k(2,3) using j(2) by (elim disjE conjE) (simp_all only: nth_append if_True if_False simp_thms, simp)
  ultimately show ?thesis by blast
qed

section \<open>Reading terminates\<close>

lemma drop_take_split:
  assumes "i + n \<le> p"
  shows "drop i (take p b) = take n (drop i b) @ drop (i + n) (take p b)"
proof -
  have "take n (drop i (take p b)) = take n (drop i b)" using assms by (simp add: drop_take min_def)
  then show ?thesis using append_take_drop_id [of n "drop i (take p b)"] by (simp add: add.commute)
qed

fun pseudo_ok :: "encoding \<Rightarrow> byte list \<Rightarrow> pseudo \<Rightarrow> bool" where
  "pseudo_ok enc b (Bad p) \<longleftrightarrow> p \<le> length b"
| "pseudo_ok enc b No_attribute \<longleftrightarrow> True"
| "pseudo_ok enc b (Attribute nm ne v nx) \<longleftrightarrow> aligned enc b nm \<and> aligned enc b ne \<and> nm \<le> ne \<and>
     aligned enc b v \<and> aligned enc b (nx - MINBPC enc) \<and> aligned enc b nx \<and> v \<le> nx - MINBPC enc \<and>
     (\<exists>w. list_all (\<lambda>x. value_char (uint x)) w \<and> drop v (take (nx - MINBPC enc) b) = enc_text enc w)"

definition decl_ok :: "byte list \<Rightarrow> xml_decl \<Rightarrow> bool" where
  "decl_ok b d \<longleftrightarrow> (\<forall>p. versionPtr d = Some p \<or> versionEndPtr d = Some p \<or> encodingName d = Some p \<longrightarrow> p \<le> length b)"

definition outcome_ok :: "byte list \<Rightarrow> nat option \<times> xml_decl \<Rightarrow> bool" where
  "outcome_ok b r \<longleftrightarrow> decl_ok b (snd r) \<and> (\<forall>p. fst r = Some p \<longrightarrow> p \<le> length b)"

context text_reader
begin

lemma min_bytes' [simp]: "MIN_BYTES_PER_CHAR enc = MINBPC enc"
  by (simp add: MIN_BYTES_PER_CHAR_def min_bytes)

lemma aligned_next: "aligned enc b ptr \<Longrightarrow> ptr < length b \<Longrightarrow> aligned enc b (ptr + MINBPC enc)"
  by (rule aligned_step) simp_all

lemma aligned_diff: "aligned enc b p \<Longrightarrow> aligned enc b q \<Longrightarrow> p \<le> q \<Longrightarrow> MINBPC enc dvd q - p"
proof -
  assume a: "aligned enc b p" "aligned enc b q" "p \<le> q"
  then have "q - p = (length b - p) - (length b - q)" by (auto simp: aligned_def)
  moreover have "MINBPC enc dvd (length b - p) - (length b - q)"
    by (rule dvd_diff_nat) (use a in \<open>simp_all add: aligned_def\<close>)
  ultimately show ?thesis by (simp only:)
qed

lemma read_aligned: "aligned enc b ptr \<Longrightarrow> \<exists>c. toAscii enc b ptr = Some c"
  by (intro read_total) (auto simp: aligned_def)

lemma space_nonneg: "isSpace c \<Longrightarrow> c \<noteq> -1"
  by (auto simp: isSpace_def)

lemma value_nonneg: "value_char c \<Longrightarrow> 0 \<le> c \<and> c \<noteq> -1"
  by (auto simp: value_char_def)

lemma skip_space_total:
  assumes "aligned enc b ptr"
  shows "\<exists>p c. skip_space enc b ptr = Some (p, c) \<and> aligned enc b p \<and> ptr \<le> p \<and> toAscii enc b p = Some c"
  using assms
proof (induction "length b - ptr" arbitrary: ptr rule: less_induct)
  case less
  obtain c where c: "toAscii enc b ptr = Some c" using read_aligned [OF less.prems] by blast
  show ?case
  proof (cases "isSpace c")
    case False
    then show ?thesis using c less.prems by (subst skip_space.simps) auto
  next
    case True
    have lt: "ptr < length b" using read_inside [OF c space_nonneg [OF True]] .
    have "length b - (ptr + MINBPC enc) < length b - ptr" using lt MINBPC_pos [of enc] by linarith
    from less.hyps [OF this aligned_next [OF less.prems lt]] obtain p c' where
      "skip_space enc b (ptr + MINBPC enc) = Some (p, c')" "aligned enc b p" "ptr + MINBPC enc \<le> p" "toAscii enc b p = Some c'"
      by blast
    then show ?thesis using c True by (subst skip_space.simps) auto
  qed
qed

lemma name_loop_total:
  assumes "aligned enc b ptr"
  shows "\<exists>r. name_loop enc b ptr = Some r \<and>
    (case r of Inl p \<Rightarrow> p \<le> length b
     | Inr (ne, p) \<Rightarrow> ptr \<le> ne \<and> ne \<le> p \<and> aligned enc b ne \<and> aligned enc b p \<and> p < length b)"
  using assms
proof (induction "length b - ptr" arbitrary: ptr rule: less_induct)
  case less
  obtain c where c: "toAscii enc b ptr = Some c" using read_aligned [OF less.prems] by blast
  show ?case
  proof (cases "c = -1")
    case True
    then show ?thesis using c less.prems by (subst name_loop.simps) (simp add: aligned_def)
  next
    case False
    have lt: "ptr < length b" using read_inside [OF c False] .
    note st = aligned_next [OF less.prems lt]
    consider "c = ASCII_EQUALS" | "c \<noteq> ASCII_EQUALS" "isSpace c" | "c \<noteq> ASCII_EQUALS" "\<not> isSpace c" by blast
    then show ?thesis
    proof cases
      case 1
      then show ?thesis using c less.prems lt by (subst name_loop.simps) simp
    next
      case 2
      from skip_space_total [OF st] obtain p c' where
        p: "skip_space enc b (ptr + MINBPC enc) = Some (p, c')" "aligned enc b p" "ptr + MINBPC enc \<le> p" "toAscii enc b p = Some c'"
        by blast
      have "c' = ASCII_EQUALS \<Longrightarrow> p < length b" using read_inside [OF p(4)] by simp
      then show ?thesis using c False 2 p less.prems by (subst name_loop.simps) (auto simp: aligned_def)
    next
      case 3
      have "length b - (ptr + MINBPC enc) < length b - ptr" using lt MINBPC_pos [of enc] by linarith
      from less.hyps [OF this st] obtain r where
        r: "name_loop enc b (ptr + MINBPC enc) = Some r"
          "case r of Inl p \<Rightarrow> p \<le> length b
           | Inr (ne, p) \<Rightarrow> ptr + MINBPC enc \<le> ne \<and> ne \<le> p \<and> aligned enc b ne \<and> aligned enc b p \<and> p < length b" by blast
      have "name_loop enc b ptr = Some r" using c False 3 r(1) by (subst name_loop.simps) simp
      then show ?thesis using r(2) by (auto split: sum.splits)
    qed
  qed
qed

lemma value_loop_total:
  assumes "aligned enc b ptr" "0 \<le> quote"
  shows "\<exists>r. value_loop enc b quote ptr = Some r \<and>
    (case r of Inl p \<Rightarrow> p \<le> length b
     | Inr p \<Rightarrow> ptr \<le> p \<and> aligned enc b p \<and> p < length b \<and>
         (\<exists>w. list_all (\<lambda>x. value_char (uint x)) w \<and> drop ptr (take p b) = enc_text enc w))"
  using assms(1)
proof (induction "length b - ptr" arbitrary: ptr rule: less_induct)
  case less
  obtain c where c: "toAscii enc b ptr = Some c" using read_aligned [OF less.prems] by blast
  consider "c = quote" | "c \<noteq> quote" "\<not> value_char c" | "c \<noteq> quote" "value_char c" by blast
  then show ?case
  proof cases
    case 1
    then have "ptr < length b" using read_inside [OF c] assms(2) by simp
    then show ?thesis using c 1 less.prems by (subst value_loop.simps) (auto intro!: exI [of _ "[]"])
  next
    case 2
    then show ?thesis using c less.prems by (subst value_loop.simps) (simp add: aligned_def)
  next
    case 3
    note v = value_nonneg [OF 3(2)]
    have lt: "ptr < length b" using read_inside [OF c] v by simp
    have "length b - (ptr + MINBPC enc) < length b - ptr" using lt MINBPC_pos [of enc] by linarith
    from less.hyps [OF this aligned_next [OF less.prems lt]] obtain r where
      r: "value_loop enc b quote (ptr + MINBPC enc) = Some r"
        "case r of Inl p \<Rightarrow> p \<le> length b
         | Inr p \<Rightarrow> ptr + MINBPC enc \<le> p \<and> aligned enc b p \<and> p < length b \<and>
             (\<exists>w. list_all (\<lambda>x. value_char (uint x)) w \<and> drop (ptr + MINBPC enc) (take p b) = enc_text enc w)" by blast
    have eq: "value_loop enc b quote ptr = Some r" using c 3 r(1) by (subst value_loop.simps) simp
    show ?thesis
    proof (cases r)
      case (Inl p)
      then show ?thesis using eq r(2) by simp
    next
      case (Inr p)
      then obtain w where w: "list_all (\<lambda>x. value_char (uint x)) w" "drop (ptr + MINBPC enc) (take p b) = enc_text enc w"
          "ptr + MINBPC enc \<le> p" "aligned enc b p" "p < length b" using r(2) by auto
      define x where "x = (word_of_int c :: byte)"
      have x: "text_at enc b ptr [x]" "uint x = c"
        using read_ascii [OF c] v by (auto simp: x_def uint_word_of_int)
      have "drop ptr (take p b) = take (MINBPC enc) (drop ptr b) @ drop (ptr + MINBPC enc) (take p b)"
        by (rule drop_take_split [OF w(3)])
      then have "drop ptr (take p b) = enc_text enc (x # w)" using x(1) w(2) by (simp add: text_at_def)
      then show ?thesis using eq Inr w(1,3-5) x(2) 3(2) by (auto intro!: exI [of _ "x # w"])
    qed
  qed
qed

lemma parsePseudoAttribute_total:
  assumes "aligned enc b ptr"
  shows "\<exists>r. parsePseudoAttribute enc b ptr = Some r \<and> pseudo_ok enc b r"
proof (cases "ptr = length b")
  case True
  then show ?thesis by (simp add: parsePseudoAttribute_def)
next
  case False
  then have lt: "ptr < length b" using assms by (simp add: aligned_def)
  obtain c where c: "toAscii enc b ptr = Some c" using read_aligned [OF assms] by blast
  from skip_space_total [OF aligned_next [OF assms lt]] obtain nm c1 where
    nm: "skip_space enc b (ptr + MINBPC enc) = Some (nm, c1)" "aligned enc b nm" by blast
  from name_loop_total [OF nm(2)] obtain r where
    r: "name_loop enc b nm = Some r" "case r of Inl p \<Rightarrow> p \<le> length b
     | Inr (ne, p) \<Rightarrow> nm \<le> ne \<and> ne \<le> p \<and> aligned enc b ne \<and> aligned enc b p \<and> p < length b" by blast
  show ?thesis
  proof (cases "isSpace c \<and> nm \<noteq> length b")
    case False
    then show ?thesis using c nm(1) assms \<open>ptr \<noteq> length b\<close>
      by (auto simp: parsePseudoAttribute_def aligned_def)
  next
    case go: True
    show ?thesis
    proof (cases r)
      case (Inl p)
      then show ?thesis using c nm(1) r go \<open>ptr \<noteq> length b\<close> by (simp add: parsePseudoAttribute_def)
    next
      case (Inr q)
      then obtain ne p where q: "r = Inr (ne, p)" "nm \<le> ne" "ne \<le> p" "aligned enc b ne" "aligned enc b p" "p < length b"
        using r(2) by (cases q) auto
      from skip_space_total [OF aligned_next [OF q(5,6)]] obtain v c2 where
        v: "skip_space enc b (p + MINBPC enc) = Some (v, c2)" "aligned enc b v" "toAscii enc b v = Some c2" by blast
      show ?thesis
      proof (cases "p \<noteq> nm \<and> (c2 = 0x22 \<or> c2 = 0x27)")
        case False
        then show ?thesis using c nm(1) r(1) q go v(1,2) \<open>ptr \<noteq> length b\<close>
          by (auto simp: parsePseudoAttribute_def aligned_def)
      next
        case True
        then have "v < length b" "0 \<le> c2" using read_inside [OF v(3)] by auto
        from value_loop_total [OF aligned_next [OF v(2) this(1)] this(2)] obtain s where
          s: "value_loop enc b c2 (v + MINBPC enc) = Some s" "case s of Inl p \<Rightarrow> p \<le> length b
            | Inr p \<Rightarrow> v + MINBPC enc \<le> p \<and> aligned enc b p \<and> p < length b \<and>
              (\<exists>w. list_all (\<lambda>x. value_char (uint x)) w \<and> drop (v + MINBPC enc) (take p b) = enc_text enc w)" by blast
        have eq: "parsePseudoAttribute enc b ptr = Some (case s of Inl bad \<Rightarrow> Bad bad
            | Inr e \<Rightarrow> Attribute nm ne (v + MINBPC enc) (e + MINBPC enc))"
          using c nm(1) r(1) q(1) go v(1) True s(1) \<open>ptr \<noteq> length b\<close>
          by (auto simp: parsePseudoAttribute_def Let_def split: sum.splits)
        have "pseudo_ok enc b (case s of Inl bad \<Rightarrow> Bad bad
            | Inr e \<Rightarrow> Attribute nm ne (v + MINBPC enc) (e + MINBPC enc))"
          using s(2) nm(2) q(2,4) aligned_next [OF v(2) \<open>v < length b\<close>] aligned_next [of b]
          by (auto split: sum.splits)
        with eq show ?thesis by blast
      qed
    qed
  qed
qed

lemma matches_total:
  assumes "aligned enc b nm" "aligned enc b ne" "nm \<le> ne"
  shows "\<exists>m. XmlNameMatchesAscii enc (take ne b) nm kw = Some m"
proof -
  have "nm \<le> length (take ne b)" "MINBPC enc dvd length (take ne b) - nm"
    using assms aligned_diff [OF assms] by (auto simp: aligned_def min_def)
  from nameMatchesAscii_correct [OF this] show ?thesis by (simp add: XmlNameMatchesAscii_def)
qed

lemma value_ascii: "list_all (\<lambda>x. value_char (uint x)) w \<Longrightarrow> ascii_bytes w \<and> 0 \<notin> set w"
  by (auto simp: list_all_iff value_char_def word_less_def)

lemma findEncoding_text:
  assumes "ascii_bytes w" "0 \<notin> set w" "drop p (take e b) = enc_text enc w" "p \<le> e" "e \<le> length b"
  shows "findEncoding ns enc b p e = Some (named_encoding ns enc w)"
proof -
  have len: "e - p = length w * MINBPC enc" using arg_cong [OF assms(3), of length] assms(5) by (simp add: min_absorb2)
  have conv: "XmlUtf8Convert enc (drop p (take e b)) 127 = Some (min (length w) 127 * MINBPC enc, take 127 w)"
    unfolding assms(3) by (rule convert_ascii [OF assms(1)])
  show ?thesis
  proof (cases "127 < length w")
    case True
    then have "p + min (length w) 127 * MINBPC enc \<noteq> e" using len assms(4) MINBPC_pos [of enc] by auto
    then show ?thesis using conv True by (simp add: findEncoding_def named_encoding_def del: XmlUtf8Convert.simps)
  next
    case False
    then have "p + min (length w) 127 * MINBPC enc = e" "take 127 w = w" using len assms(4) by auto
    moreover obtain i where "getEncodingIndex (Some (w @ [0])) = Some i"
        "(if i = UNKNOWN_ENC then None else Some (encodings ns ! nat i)) = map_of (named_encodings ns) (map upcase w)"
      using getEncodingIndex_correct [OF assms(2), of ns] by blast
    moreover have "streqci (w @ [0]) KW_UTF_16 = Some (map upcase w = ascii ''UTF-16'')"
      unfolding KW_UTF_16_def by (subst streqci_correct) (use assms(2) keyword_nonzero keyword_upcase in auto)
    ultimately show ?thesis using conv False
      by (simp add: findEncoding_def named_encoding_def del: XmlUtf8Convert.simps split: if_splits)
  qed
qed

lemma parse_standalone_total:
  assumes "pseudo_ok enc b (Attribute nm ne v nx)" "decl_ok b d"
  shows "\<exists>r. parse_standalone g enc b nm ne v nx d = Some r \<and> outcome_ok b r"
proof -
  have a: "aligned enc b nm" "aligned enc b ne" "nm \<le> ne" "aligned enc b v" "aligned enc b (nx - MINBPC enc)"
    "v \<le> nx - MINBPC enc" "aligned enc b nx" using assms(1) by simp_all
  obtain m1 m2 m3 where m: "XmlNameMatchesAscii enc (take ne b) nm KW_standalone = Some m1"
    "XmlNameMatchesAscii enc (take (nx - MINBPC enc) b) v KW_yes = Some m2"
    "XmlNameMatchesAscii enc (take (nx - MINBPC enc) b) v KW_no = Some m3"
    using matches_total [OF a(1-3)] matches_total [OF a(4-6)] by metis
  obtain p c where p: "skip_space enc b nx = Some (p, c)" "aligned enc b p" using skip_space_total [OF a(7)] by blast
  show ?thesis using m p a assms(2)
    by (auto simp: parse_standalone_def outcome_ok_def decl_ok_def aligned_def)
qed

lemma parse_encoding_total:
  assumes "pseudo_ok enc b (Attribute nm ne v nx)" "decl_ok b d"
  shows "\<exists>r. parse_encoding ns g enc b nm ne v nx d = Some r \<and> outcome_ok b r"
proof -
  have a: "aligned enc b nm" "aligned enc b ne" "nm \<le> ne" "aligned enc b v" "aligned enc b (nx - MINBPC enc)"
    "v \<le> nx - MINBPC enc" "aligned enc b nx" using assms(1) by simp_all
  obtain w where w: "ascii_bytes w \<and> 0 \<notin> set w" "drop v (take (nx - MINBPC enc) b) = enc_text enc w"
    using assms(1) value_ascii by auto
  have f: "findEncoding ns enc b v (nx - MINBPC enc) = Some (named_encoding ns enc w)"
    by (rule findEncoding_text) (use w a in \<open>auto simp: aligned_def\<close>)
  obtain m where m: "XmlNameMatchesAscii enc (take ne b) nm KW_encoding = Some m" using matches_total [OF a(1-3)] by blast
  obtain c where c: "toAscii enc b v = Some c" using read_aligned [OF a(4)] by blast
  obtain r where r: "parsePseudoAttribute enc b nx = Some r" "pseudo_ok enc b r"
    using parsePseudoAttribute_total [OF a(7)] by blast
  show ?thesis
  proof (cases "m \<and> ((0x61 \<le> c \<and> c \<le> 0x7A) \<or> (0x41 \<le> c \<and> c \<le> 0x5A))")
    case False
    then show ?thesis
      using m c a assms parse_standalone_total [OF assms] by (auto simp: parse_encoding_def outcome_ok_def aligned_def)
  next
    case True
    define d' where "d' = d\<lparr>encodingName := Some v, declEncoding := Some (named_encoding ns enc w)\<rparr>"
    have d': "decl_ok b d'" using assms(2) a(4) by (auto simp: d'_def decl_ok_def aligned_def)
    have "parse_encoding ns g enc b nm ne v nx d = (case r of Bad p \<Rightarrow> Some (Some p, d') | No_attribute \<Rightarrow> Some (None, d')
        | Attribute nm ne v nx \<Rightarrow> parse_standalone g enc b nm ne v nx d')"
      using m c True f r(1) by (cases r) (auto simp: parse_encoding_def Let_def d'_def)
    then show ?thesis using r(2) d' parse_standalone_total [OF _ d', of _ _ _ _ g]
      by (cases r) (simp_all add: outcome_ok_def)
  qed
qed

lemma doParseXmlDecl_total:
  assumes "aligned enc b ptr" "ptr + 7 * MINBPC enc \<le> length b"
  shows "\<exists>r. doParseXmlDecl ns g enc b ptr = Some r \<and> outcome_ok b r"
proof -
  define c where "c = take (length b - 2 * MINBPC enc) b"
  let ?p = "ptr + 5 * MINBPC enc"
  have len: "length c = length b - 2 * MINBPC enc" by (simp add: c_def)
  have "length c - ?p = (length b - ptr) - 7 * MINBPC enc" using len by simp
  moreover have "MINBPC enc dvd (length b - ptr) - 7 * MINBPC enc"
    by (rule dvd_diff_nat) (use assms(1) in \<open>simp_all add: aligned_def\<close>)
  ultimately have al: "aligned enc c ?p" using assms(2) len by (simp add: aligned_def)
  have mono: "outcome_ok c r \<Longrightarrow> outcome_ok b r" for r using len by (auto simp: outcome_ok_def decl_ok_def)
  have nd: "decl_ok c no_decl" by (simp add: decl_ok_def no_decl_def)
  obtain r where r: "parsePseudoAttribute enc c ?p = Some r" "pseudo_ok enc c r"
    using parsePseudoAttribute_total [OF al] by blast
  have "\<exists>q. doParseXmlDecl ns g enc b ptr = Some q \<and> outcome_ok c q"
  proof (cases r)
    case (Bad p)
    then show ?thesis using r nd by (simp add: doParseXmlDecl_def Let_def c_def [symmetric] outcome_ok_def)
  next
    case No_attribute
    then show ?thesis using r nd al
      by (simp add: doParseXmlDecl_def Let_def c_def [symmetric] outcome_ok_def aligned_def)
  next
    case (Attribute nm ne v nx)
    then have a: "pseudo_ok enc c (Attribute nm ne v nx)" using r(2) by simp
    then obtain m where m: "XmlNameMatchesAscii enc (take ne c) nm KW_version = Some m"
      using matches_total [of c nm ne] by auto
    define d where "d = no_decl\<lparr>versionPtr := Some v, versionEndPtr := Some nx\<rparr>"
    have d: "decl_ok c d" using a by (auto simp: d_def decl_ok_def aligned_def no_decl_def)
    obtain r2 where r2: "parsePseudoAttribute enc c nx = Some r2" "pseudo_ok enc c r2"
      using parsePseudoAttribute_total [of c nx] a by auto
    have eq: "doParseXmlDecl ns g enc b ptr =
        (if \<not> m then if \<not> g then Some (Some nm, no_decl) else parse_encoding ns g enc c nm ne v nx no_decl
         else case r2 of Bad p \<Rightarrow> Some (Some p, d) | No_attribute \<Rightarrow> Some (if g then Some nx else None, d)
           | Attribute nm ne v nx \<Rightarrow> parse_encoding ns g enc c nm ne v nx d)"
      using r(1) Attribute m r2(1) by (cases r2) (simp_all add: doParseXmlDecl_def Let_def c_def [symmetric] d_def)
    show ?thesis
    proof (cases m)
      case False
      then show ?thesis using eq parse_encoding_total [OF a nd, of ns g] a nd
        by (auto simp: outcome_ok_def aligned_def)
    next
      case True
      then show ?thesis using eq r2(2) d a parse_encoding_total [OF _ d, of _ _ _ _ ns g]
        by (cases r2) (auto simp: outcome_ok_def aligned_def)
    qed
  qed
  then show ?thesis using mono by blast
qed

end



end
