(* ===== verification/Xml_Detect.thy ===== *)
theory Xml_Detect
  imports Xml_Decl_Props
begin

text \<open>
  What \<open>initScan\<close> makes of the first bytes of a document: it always returns, it recognises the encodings
  it is meant to, and, but for one case, its choice does not depend on how much of the document it has
  been given.
\<close>

section \<open>The index of the initial encoding\<close>

lemma index_loop_range: "index_loop nam i es = Some j \<Longrightarrow> j = UNKNOWN_ENC \<or> i \<le> j \<and> j < i + int (length es)"
  by (induction nam i es rule: index_loop.induct) (force simp: bind_eq_Some_iff split: if_splits)+

lemma init_index_range:
  assumes "XmlInitEncoding nam = Some (Some i)"
  shows "0 \<le> i \<and> i \<le> 6"
proof -
  from assms have i: "getEncodingIndex nam = Some i" "i \<noteq> UNKNOWN_ENC"
    by (auto simp: XmlInitEncoding_def bind_eq_Some_iff split: if_splits)
  have "length encodingNames = 6" by (simp add: encodingNames_def)
  then show ?thesis
    using i index_loop_range [of _ 0 encodingNames i] by (cases nam) (force simp: getEncodingIndex_def)+
qed

lemma encodings_builtin:
  assumes "0 \<le> i" "i \<le> 6"
  shows "encodings ns ! nat i \<in> set (builtin_encodings ns)"
proof -
  have "encodings ns ! nat i \<in> set (encodings ns)" using assms by (intro nth_mem) (simp add: encodings_def)
  then show ?thesis by (auto simp: encodings_def builtin_encodings_def)
qed

lemma XmlTok_returns:
  assumes "enc \<in> set (builtin_encodings ns)" "ptr \<le> length b"
  shows "\<exists>t. XmlTok enc state b ptr = Some t"
proof -
  have "returns (tok_ok b ptr) (contentTok enc b ptr)"
    by (rule scanner_encoding.contentTok_safe [OF builtin_scanner_encoding [OF assms(1)] assms(2)])
  moreover note scanner_encoding.prologTok_safe [OF builtin_scanner_encoding [OF assms(1)] assms(2)]
  ultimately show ?thesis by (cases state) (auto simp: returns_def split: option.splits)
qed

lemma scan_as_returns:
  assumes "0 \<le> i" "i \<le> 6" "ptr \<le> length b"
  shows "\<exists>t. scan_as ns i state b ptr = Some (t, Some (encodings ns ! nat i))"
  using XmlTok_returns [OF encodings_builtin [OF assms(1,2)] assms(3)] by (auto simp: scan_as_def)

section \<open>The decision\<close>

text \<open>What \<open>initScan\<close> decides depends on the bytes alone; carrying it out comes after.\<close>

datatype decision = Scan_as int | Bom int nat | Need_more

definition decide_one :: "int \<Rightarrow> scan_state \<Rightarrow> byte \<Rightarrow> decision" where
  "decide_one i state b0 =
     (if i \<in> {3, 4, 5} then Need_more
      else if b0 \<in> {0xFE, 0xFF, 0xEF} then if i = 0 \<and> state = XML_CONTENT_STATE then Scan_as i else Need_more
      else if b0 \<in> {0x00, 0x3C} then Need_more else Scan_as i)"

definition decide_two :: "int \<Rightarrow> scan_state \<Rightarrow> byte \<Rightarrow> byte \<Rightarrow> byte option \<Rightarrow> decision" where
  "decide_two i state b0 b1 b2 =
     (let external = (state = XML_CONTENT_STATE)
      in if (b0, b1) = (0xFE, 0xFF) then if i = 0 \<and> external then Scan_as i else Bom 4 2
         else if (b0, b1) = (0x3C, 0) then if i \<in> {3, 4} \<and> external then Scan_as i else Scan_as 5
         else if (b0, b1) = (0xFF, 0xFE) then if i = 0 \<and> external then Scan_as i else Bom 5 2
         else if (b0, b1) = (0xEF, 0xBB) then
           if external \<and> i \<in> {0, 3, 4, 5} then Scan_as i
           else (case b2 of None \<Rightarrow> Need_more | Some c \<Rightarrow> if c = 0xBF then Bom 2 3 else Scan_as i)
         else if b0 = 0 then if external \<and> i = 5 then Scan_as i else Scan_as 4
         else if b1 = 0 then if external then Scan_as i else Scan_as 5
         else Scan_as i)"

fun carry_out :: "bool \<Rightarrow> scan_state \<Rightarrow> byte list \<Rightarrow> nat \<Rightarrow> decision \<Rightarrow> (scan \<times> encoding option) option" where
  "carry_out ns state b ptr (Scan_as i) = scan_as ns i state b ptr"
| "carry_out ns state b ptr (Bom i n) = found_bom ns i (ptr + n)"
| "carry_out ns state b ptr Need_more = partial_scan"

lemma initScan_one_decides:
  "initScan_one ns i state b ptr = carry_out ns state b ptr (decide_one i state (b ! ptr))"
  by (simp add: initScan_one_def decide_one_def)

lemma initScan_two_decides:
  "initScan_two ns i state b ptr = carry_out ns state b ptr
     (decide_two i state (b ! ptr) (b ! (ptr + 1)) (if ptr + 2 = length b then None else Some (b ! (ptr + 2))))"
  by (simp add: initScan_two_def decide_two_def Let_def)

fun index_ok :: "decision \<Rightarrow> bool" where
  "index_ok (Scan_as i) \<longleftrightarrow> 0 \<le> i \<and> i \<le> 6"
| "index_ok _ \<longleftrightarrow> True"

lemma decide_index_ok:
  "0 \<le> i \<Longrightarrow> i \<le> 6 \<Longrightarrow> index_ok (decide_one i state b0) \<and> index_ok (decide_two i state b0 b1 b2)"
  by (simp add: decide_one_def decide_two_def Let_def split: option.split)

lemma decide_two_third:
  "decide_two i state b0 b1 None \<noteq> Need_more \<Longrightarrow> decide_two i state b0 b1 b2 = decide_two i state b0 b1 None"
  by (auto simp: decide_two_def Let_def split: if_splits option.split)

lemma decide_one_second:
  assumes "decide_one i XML_CONTENT_STATE b0 \<noteq> Need_more"
  shows "decide_two i XML_CONTENT_STATE b0 b1 b2 = decide_one i XML_CONTENT_STATE b0"
  using assms by (auto simp: decide_one_def decide_two_def Let_def split: if_splits option.split)

text \<open>The encoding a decision selects does not depend on the text that is scanned with it.\<close>

lemma carry_out_encoding:
  assumes "index_ok x" "ptr \<le> length b" "carry_out ns state b' ptr x = Some (t, Some e)"
  shows "\<exists>t'. carry_out ns state b ptr x = Some (t', Some e)"
proof (cases x)
  case (Scan_as i)
  then show ?thesis using scan_as_returns [of i ptr b ns state] assms by (auto simp: scan_as_def bind_eq_Some_iff)
qed (use assms in \<open>auto simp: found_bom_def partial_scan_def\<close>)

lemma carry_out_returns: "index_ok x \<Longrightarrow> ptr \<le> length b \<Longrightarrow> carry_out ns state b ptr x \<noteq> None"
  using scan_as_returns [of _ ptr b ns state] by (cases x) (fastforce simp: found_bom_def partial_scan_def)+

lemma initScan_returns:
  assumes "0 \<le> i" "i \<le> 6" "ptr \<le> length b"
  shows "initScan ns i state b ptr \<noteq> None"
  using carry_out_returns decide_index_ok [OF assms(1,2)] assms(3)
  unfolding initScan_def initScan_one_decides initScan_two_decides by (simp del: not_None_eq)

section \<open>The encodings that are recognised\<close>

text \<open>The byte order marks.\<close>

definition bom :: "encoding \<Rightarrow> byte list" where
  "bom enc = (case prefix enc of Normal \<Rightarrow> [0xEF, 0xBB, 0xBF] | Little2 \<Rightarrow> [0xFF, 0xFE] | Big2 \<Rightarrow> [0xFE, 0xFF])"

text \<open>Detection: of a document whose encoding the client has not named, the first two bytes tell
  UTF-8, UTF-16LE and UTF-16BE apart, if it starts with \<open><\<close> and a character other than \<open>U+0000\<close>, which
  is how any document without leading white space starts; and a byte order mark wins over any encoding
  the client has named. The scanner of the encoding that was recognised has read the first token.\<close>

lemma encoding_detected:
  assumes "enc \<in> {utf8_encoding ns, little2_encoding ns, big2_encoding ns}" and "c \<noteq> 0"
  shows "initScan ns NO_ENC XML_PROLOG_STATE (enc_text enc [0x3C, c] @ r) 0 =
      map_option (\<lambda>t. (t, Some enc)) (prologTok enc (enc_text enc [0x3C, c] @ r) 0) \<and>
    initScan ns i XML_PROLOG_STATE (bom enc @ r) 0 = Some ((XML_TOK_BOM, Some (length (bom enc))), Some enc)"
proof -
  have p: "prefix (utf8_encoding ns) = Normal" "prefix (little2_encoding ns) = Little2" "prefix (big2_encoding ns) = Big2"
    by (simp_all add: utf8_encoding_def little2_encoding_def big2_encoding_def)
  from assms(1) consider "enc = utf8_encoding ns" | "enc = little2_encoding ns" | "enc = big2_encoding ns" by auto
  then show ?thesis
    by cases (use assms(2) in \<open>simp_all add: enc_char_def bom_def p initScan_def initScan_two_def Let_def scan_as_def
        found_bom_def encodings_def map_conv_bind_option comp_def\<close>)
qed

section \<open>Detection and chunks\<close>

text \<open>C24: detection does not depend on how the document is cut into buffers: whatever encoding the
  client has named, once \<open>initScan\<close> has settled on an encoding, for an external entity or with two bytes
  or more of a document, it settles on the same one when more bytes follow, and it returns.\<close>

theorem detection_stable:
  assumes "XmlInitEncoding nam = Some (Some i)" and "ptr \<le> length b"
    and "state = XML_CONTENT_STATE \<or> ptr + 2 \<le> length b"
    and "initScan ns i state b ptr = Some (t, Some e)"
  shows "\<exists>t'. initScan ns i state (b @ r) ptr = Some (t', Some e)"
proof -
  note rg = init_index_range [OF assms(1)]
  have le: "ptr \<le> length (b @ r)" using assms(2) by simp
  have ix: "index_ok (decide_one i state b0)" "index_ok (decide_two i state b0 b1 b2)" for b0 b1 b2
    using decide_index_ok rg by auto
  have lt: "ptr < length b" using assms(2,4) by (cases "ptr = length b") (auto simp: initScan_def)
  show ?thesis
  proof (cases "ptr + 2 \<le> length b")
    case True
    let ?d = "\<lambda>b. decide_two i state (b ! ptr) (b ! (ptr + 1)) (if ptr + 2 = length b then None else Some (b ! (ptr + 2)))"
    have eq: "initScan ns i state b ptr = carry_out ns state b ptr (?d b)"
        "initScan ns i state (b @ r) ptr = carry_out ns state (b @ r) ptr (?d (b @ r))"
      unfolding initScan_def initScan_two_decides using True by simp_all
    have "?d b \<noteq> Need_more" using eq(1) assms(4) by (auto simp: partial_scan_def)
    then have "?d (b @ r) = ?d b"
      using True decide_two_third [of i state "b ! ptr" "b ! (ptr + 1)"] by (auto simp: nth_append split: if_splits)
    then show ?thesis unfolding eq(2) by (simp only:) (rule carry_out_encoding [OF ix(2) le assms(4) [unfolded eq(1)]])
  next
    case False
    then have one: "ptr + 1 = length b" "state = XML_CONTENT_STATE" using lt assms(3) by auto
    show ?thesis
    proof (cases "r = []")
      case True
      then show ?thesis using assms(4) by simp
    next
      case False
      let ?c = "if ptr + 2 = length (b @ r) then None else Some ((b @ r) ! (ptr + 2))"
      have eq: "initScan ns i state b ptr = carry_out ns state b ptr (decide_one i state (b ! ptr))"
          "initScan ns i state (b @ r) ptr = carry_out ns state (b @ r) ptr (decide_two i state (b ! ptr) ((b @ r) ! (ptr + 1)) ?c)"
        unfolding initScan_def initScan_one_decides initScan_two_decides using one False by (simp_all add: nth_append)
      have "decide_one i state (b ! ptr) \<noteq> Need_more" using eq(1) assms(4) by (auto simp: partial_scan_def)
      then have "decide_two i state (b ! ptr) ((b @ r) ! (ptr + 1)) ?c = decide_one i state (b ! ptr)"
        using decide_one_second one(2) by simp
      then show ?thesis unfolding eq(2) by (simp only:) (rule carry_out_encoding [OF ix(1) le assms(4) [unfolded eq(1)]])
    qed
  qed
qed

theorem detection_stable_witness:
  "\<exists>t. initScan True NO_ENC XML_PROLOG_STATE ([0xFE, 0xFF] @ [0, 0x3C]) 0 = Some (t, Some (big2_encoding True))"
  by (rule detection_stable [of None NO_ENC 0 "[0xFE, 0xFF]" XML_PROLOG_STATE True "(XML_TOK_BOM, Some 2)"])
    (simp_all add: XmlInitEncoding_def getEncodingIndex_def initScan_def initScan_two_def found_bom_def encodings_def)

text \<open>The case left out: given the first byte of a document alone, \<open>initScan\<close> settles on UTF-8 although
  the next byte would have told it that the document is in UTF-16LE.\<close>

lemma detection_first_byte:
  "\<exists>t. initScan ns NO_ENC XML_PROLOG_STATE [0x20] 0 = Some (t, Some (utf8_encoding ns))"
  "\<exists>t. initScan ns NO_ENC XML_PROLOG_STATE ([0x20] @ 0 # r) 0 = Some (t, Some (little2_encoding ns))"
  using scan_as_returns [of 6 0 "[0x20]" ns XML_PROLOG_STATE] scan_as_returns [of 5 0 "0x20 # 0 # r" ns XML_PROLOG_STATE]
  by (simp_all add: initScan_def initScan_one_def initScan_two_def encodings_def)

end
