(* ===== verification/Xml_Unknown.thy ===== *)
theory Xml_Unknown
  imports Xml_Convert Xml_Tok
begin

text \<open>
  Encodings that the client describes (\<^verbatim>\<open>xmltok.c\<close>, \<open>struct unknown_encoding\<close>): a table with an entry for
  every byte, a character, \<open>-1\<close> for no character or \<open>-n\<close> for the first byte of a sequence of \<open>n\<close> bytes,
  and a function \<open>convert\<close> for such sequences. That function, with its \<open>userData\<close>, is a parameter; it is
  given the \<open>n\<close> bytes it may read. \<open>None\<close> stands for the null pointer.
\<close>

type_synonym CONVERTER = "byte list \<Rightarrow> int"

record unknown_entry =
  ue_type :: bt
  ue_utf16 :: "16 word"
  ue_utf8 :: "byte list"

record unknown_encoding =
  normal :: encoding
  convert :: "CONVERTER option"
  utf16 :: "16 word list"
  utf8 :: "byte list list"

section \<open>Character tests\<close>

definition unknown_isName :: "CONVERTER \<Rightarrow> byte list \<Rightarrow> bool" where
  "unknown_isName conv p =
     (let c = conv p
      in if c AND NOT 0xFFFF \<noteq> 0 then False
         else UCS2_GET_NAMING namePages (word_of_int (drop_bit 8 c)) (word_of_int (c AND 0xFF)))"

definition unknown_isNmstrt :: "CONVERTER \<Rightarrow> byte list \<Rightarrow> bool" where
  "unknown_isNmstrt conv p =
     (let c = conv p
      in if c AND NOT 0xFFFF \<noteq> 0 then False
         else UCS2_GET_NAMING nmstrtPages (word_of_int (drop_bit 8 c)) (word_of_int (c AND 0xFF)))"

definition unknown_isInvalid :: "CONVERTER \<Rightarrow> byte list \<Rightarrow> bool" where
  "unknown_isInvalid conv p = (let c = conv p in c AND NOT 0xFFFF \<noteq> 0 \<or> checkCharRefNumber c < 0)"

section \<open>Converters\<close>

text \<open>A sequence that \<open>fromLim\<close> cuts is a read past the end. The type of a byte whose entry in \<open>utf8\<close> has
  length \<open>0\<close> is a lead type, and \<open>type - (BT_LEAD2 - 2)\<close> its \<open>lead_len\<close>. A character that
  \<open>XmlUtf8Encode\<close> does not encode would let the copying loop count down from \<open>0\<close>.\<close>

function unknown_toUtf8 ::
  "bt list \<Rightarrow> byte list list \<Rightarrow> CONVERTER option \<Rightarrow> byte list \<Rightarrow> nat \<Rightarrow> (nat \<times> byte list) option" where
  "unknown_toUtf8 types tab conv src room =
     (case src of
        [] \<Rightarrow> Some (0, [])
      | c # rest \<Rightarrow>
          (case tab ! unat c of
             [] \<Rightarrow> None
           | n # u \<Rightarrow>
               if n = 0 then
                 let k = lead_len (types ! unat c)
                 in if k = 0 \<or> length src < k then None
                    else do {
                      f \<leftarrow> conv;
                      let out = XmlUtf8Encode (f (take k src));
                      if room < length out then Some (0, [])
                      else if out = [] then None
                      else do {
                        (m, more) \<leftarrow> unknown_toUtf8 types tab conv (drop k src) (room - length out);
                        Some (k + m, out @ more)
                      }
                    }
               else if room < unat n then Some (0, [])
               else do {
                 (m, more) \<leftarrow> unknown_toUtf8 types tab conv rest (room - unat n);
                 Some (1 + m, take (unat n) u @ more)
               }))"
  by pat_completeness auto
termination
  by (relation "measure (\<lambda>(types, tab, conv, src, room). length src)") auto

declare unknown_toUtf8.simps [simp del]

function unknown_toUtf16 ::
  "bt list \<Rightarrow> 16 word list \<Rightarrow> CONVERTER option \<Rightarrow> byte list \<Rightarrow> nat \<Rightarrow> (nat \<times> 16 word list) option" where
  "unknown_toUtf16 types tab conv src room =
     (case src of
        [] \<Rightarrow> Some (0, [])
      | c # rest \<Rightarrow>
          if room = 0 then Some (0, [])
          else if tab ! unat c = 0 then
            let k = lead_len (types ! unat c)
            in if k = 0 \<or> length src < k then None
               else do {
                 f \<leftarrow> conv;
                 (m, more) \<leftarrow> unknown_toUtf16 types tab conv (drop k src) (room - 1);
                 Some (k + m, word_of_int (f (take k src)) # more)
               }
          else do {
            (m, more) \<leftarrow> unknown_toUtf16 types tab conv rest (room - 1);
            Some (1 + m, (tab ! unat c) # more)
          })"
  by pat_completeness auto
termination
  by (relation "measure (\<lambda>(types, tab, conv, src, room). length src)") auto

declare unknown_toUtf16.simps [simp del]

section \<open>Initialisation\<close>

abbreviation latin1_type :: "nat \<Rightarrow> bt" where
  "latin1_type i \<equiv> type_tab (latin1_encoding False) ! i"

definition unknown_lead :: "int \<Rightarrow> bt" where
  "unknown_lead c = (if c = -2 then BT_LEAD2 else if c = -3 then BT_LEAD3 else BT_LEAD4)"

definition unknown_entry_of :: "int \<Rightarrow> nat \<Rightarrow> unknown_entry option" where
  "unknown_entry_of c i =
     (if c = -1 then Some \<lparr>ue_type = BT_MALFORM, ue_utf16 = 0xFFFF, ue_utf8 = [1, 0]\<rparr>
      else if c < 0 then
        if c < -4 then None else Some \<lparr>ue_type = unknown_lead c, ue_utf16 = 0, ue_utf8 = [0]\<rparr>
      else if c < 0x80 then
        if latin1_type (nat c) \<noteq> BT_OTHER \<and> latin1_type (nat c) \<noteq> BT_NONXML \<and> c \<noteq> int i then None
        else Some \<lparr>ue_type = latin1_type (nat c), ue_utf16 = (if c = 0 then 0xFFFF else word_of_int c),
                   ue_utf8 = [1, word_of_int c]\<rparr>
      else if checkCharRefNumber c < 0 then
        Some \<lparr>ue_type = BT_NONXML, ue_utf16 = 0xFFFF, ue_utf8 = [1, 0]\<rparr>
      else if c > 0xFFFF then None
      else
        let hi = word_of_int (drop_bit 8 c); lo = word_of_int (c AND 0xFF)
        in Some \<lparr>ue_type = (if UCS2_GET_NAMING nmstrtPages hi lo then BT_NMSTRT
                          else if UCS2_GET_NAMING namePages hi lo then BT_NAME else BT_OTHER),
                 ue_utf16 = word_of_int c,
                 ue_utf8 = word_of_nat (length (XmlUtf8Encode c)) # XmlUtf8Encode c\<rparr>)"

fun unknown_entries :: "nat \<Rightarrow> int list \<Rightarrow> unknown_entry list option" where
  "unknown_entries i [] = Some []"
| "unknown_entries i (c # cs) = do {
     e \<leftarrow> unknown_entry_of c i;
     es \<leftarrow> unknown_entries (i + 1) cs;
     Some (e # es)
   }"

text \<open>The first loop: the ASCII characters that mean something in XML have to stay in their places.\<close>

definition ascii_kept :: "int list \<Rightarrow> bool" where
  "ascii_kept table =
     list_all (\<lambda>i. \<not> (latin1_type i \<noteq> BT_OTHER \<and> latin1_type i \<noteq> BT_NONXML \<and> table ! i \<noteq> int i)) [0..<128]"

definition unknown_tests :: "(CONVERTER \<Rightarrow> byte list \<Rightarrow> bool) \<Rightarrow> CONVERTER option \<Rightarrow> nat \<Rightarrow> (byte list \<Rightarrow> bool) option" where
  "unknown_tests test conv n = (if n = 2 \<or> n = 3 \<or> n = 4 then map_option test conv else None)"

definition XmlInitUnknownEncoding :: "int list \<Rightarrow> CONVERTER option \<Rightarrow> unknown_encoding option" where
  "XmlInitUnknownEncoding table conv =
     (if \<not> ascii_kept table then None
      else do {
        es \<leftarrow> unknown_entries 0 table;
        let types = map ue_type es;
        let utf8 = map ue_utf8 es;
        Some \<lparr>normal = (latin1_encoding False)\<lparr>utf8Convert := Unknown_toUtf8 (unknown_toUtf8 types utf8 conv),
                type_tab := types, isName := unknown_tests unknown_isName conv,
                isNmstrt := unknown_tests unknown_isNmstrt conv, isInvalid := unknown_tests unknown_isInvalid conv\<rparr>,
              convert = conv, utf16 = map ue_utf16 es, utf8 = utf8\<rparr>
      })"

definition XmlInitUnknownEncodingNS :: "int list \<Rightarrow> CONVERTER option \<Rightarrow> unknown_encoding option" where
  "XmlInitUnknownEncodingNS table conv =
     map_option (\<lambda>e. e\<lparr>normal := normal e\<lparr>type_tab := (type_tab (normal e))[0x3A := BT_COLON]\<rparr>\<rparr>)
       (XmlInitUnknownEncoding table conv)"

text \<open>The choice the parser makes.\<close>

definition init_unknown :: "bool \<Rightarrow> int list \<Rightarrow> CONVERTER option \<Rightarrow> unknown_encoding option" where
  "init_unknown ns = (if ns then XmlInitUnknownEncodingNS else XmlInitUnknownEncoding)"

end
