(* ===== verification/Xml_Setup.thy ===== *)
theory Xml_Setup
  imports Xml_Decl Xml_Unknown Xml_Pool
begin

text \<open>
  How the parser comes to its encoding (\<^verbatim>\<open>xmlparse.c\<close>): \<open>initializeEncoding\<close> before the first byte,
  \<open>processXmlDecl\<close> for an XML or text declaration and \<open>handleUnknownEncoding\<close> for a name it does not know.
  The record has the fields of the parser these functions use. The client's handlers are parameters:
  the one for unknown encodings is a function of the name to its result and the structure it fills in,
  calls of the others are outputs. \<open>encoding\<close> is the initial encoding, given by its index, until the
  scanner has recognised one.
\<close>

datatype XML_ParamEntityParsing =
  XML_PARAM_ENTITY_PARSING_NEVER | XML_PARAM_ENTITY_PARSING_UNLESS_STANDALONE | XML_PARAM_ENTITY_PARSING_ALWAYS

text \<open>\<open>release\<close> says whether there is such a function; it is called with \<open>data\<close>, which belongs to
  \<open>convert\<close>.\<close>

record XML_Encoding =
  info_map :: "int list"
  info_convert :: "CONVERTER option"
  info_release :: bool

datatype setup_event =
    XmlDeclHandler (ev_version: "byte list option") (ev_encoding: "byte list option") (ev_standalone: int)
  | DefaultHandler (ev_data: "byte list") (ev_eventPtr: "nat option") (ev_eventEndPtr: "nat option")
  | ReleaseHandler

record 'm enc_parser =
  su_ns :: bool
  su_mem :: "'m XML_Memory_Handling_Suite"
  su_encoding :: "int + encoding"
  su_protocolEncodingName :: "byte list option"
  su_eventPtr :: "nat option"
  su_eventEndPtr :: "nat option"
  su_standalone :: bool
  su_paramEntityParsing :: XML_ParamEntityParsing
  su_temp2Pool :: "'m STRING_POOL"
  su_unknownEncodingMem :: "address option"
  su_unknownEncodingRelease :: bool
  su_unknownEncodingHandler :: "(byte list \<Rightarrow> bool \<times> XML_Encoding) option"
  su_xmlDeclHandler :: bool
  su_defaultHandler :: bool

section \<open>Encodings the client describes\<close>

text \<open>\<open>sizeof(struct unknown_encoding)\<close> with pointers of four bytes.\<close>

definition XmlSizeOfUnknownEncoding :: size_t where
  "XmlSizeOfUnknownEncoding = 1912"

definition release_info :: "XML_Encoding \<Rightarrow> setup_event list" where
  "release_info info = (if info_release info then [ReleaseHandler] else [])"

definition handleUnknownEncoding ::
  "byte list \<Rightarrow> 'm enc_parser \<Rightarrow> 'm \<Rightarrow> XML_Error \<times> 'm enc_parser \<times> setup_event list \<times> 'm" where
  "handleUnknownEncoding nam p m =
     (case su_unknownEncodingHandler p of
        None \<Rightarrow> (XML_ERROR_UNKNOWN_ENCODING, p, [], m)
      | Some unknownEncodingHandler \<Rightarrow>
          let (r, info) = unknownEncodingHandler nam
          in if r then
               (case malloc_fcn (su_mem p) XmlSizeOfUnknownEncoding m of
                  (None, m) \<Rightarrow> (XML_ERROR_NO_MEMORY, p\<lparr>su_unknownEncodingMem := None\<rparr>, release_info info, m)
                | (Some a, m) \<Rightarrow>
                    let p = p\<lparr>su_unknownEncodingMem := Some a\<rparr>
                    in (case init_unknown (su_ns p) (info_map info) (info_convert info) of
                          Some enc \<Rightarrow> (XML_ERROR_NONE,
                            p\<lparr>su_unknownEncodingRelease := info_release info, su_encoding := Inr (normal enc)\<rparr>, [], m)
                        | None \<Rightarrow> (XML_ERROR_UNKNOWN_ENCODING, p, release_info info, m)))
             else (XML_ERROR_UNKNOWN_ENCODING, p, release_info info, m))"

text \<open>\<open>protocolEncodingName\<close> is a C string; a missing name is never unknown.\<close>

definition initializeEncoding :: "'m enc_parser \<Rightarrow> 'm \<Rightarrow> (XML_Error \<times> 'm enc_parser \<times> setup_event list \<times> 'm) option" where
  "initializeEncoding p m = do {
     r \<leftarrow> XmlInitEncoding (su_protocolEncodingName p);
     case r of
       Some i \<Rightarrow> Some (XML_ERROR_NONE, p\<lparr>su_encoding := Inl i\<rparr>, [], m)
     | None \<Rightarrow> do {
         nam \<leftarrow> su_protocolEncodingName p;
         Some (handleUnknownEncoding (takeWhile (\<lambda>c. c \<noteq> 0) nam) p m)
       }
   }"

section \<open>The default handler\<close>

definition INIT_DATA_BUF_SIZE :: nat where
  "INIT_DATA_BUF_SIZE = 1024"

text \<open>The text from \<open>s\<close> to the end of \<open>b\<close> goes to the handler in pieces that fit into \<open>dataBuf\<close>. The event
  pointers are those at the time of each call; the result has their values afterwards.\<close>

partial_function (option) report_loop ::
  "encoding \<Rightarrow> byte list \<Rightarrow> nat \<Rightarrow> nat option \<Rightarrow> (setup_event list \<times> nat) option" where
  "report_loop enc b s eventPtr = do {
     (n, out) \<leftarrow> XmlUtf8Convert enc (drop s b) INIT_DATA_BUF_SIZE;
     let s = s + n;
     if s = length b then Some ([DefaultHandler out eventPtr (Some s)], s)
     else do {
       (evs, e) \<leftarrow> report_loop enc b s (Some s);
       Some (DefaultHandler out eventPtr (Some s) # evs, e)
     }
   }"

declare report_loop.simps [code]

definition reportDefault ::
  "encoding \<Rightarrow> byte list \<Rightarrow> nat \<Rightarrow> nat option \<Rightarrow> nat option \<Rightarrow> (setup_event list \<times> nat option \<times> nat option) option" where
  "reportDefault enc b s eventPtr eventEndPtr =
     (if \<not> isUtf8 enc then do {
        (evs, e) \<leftarrow> report_loop enc b s eventPtr;
        Some (evs, Some e, Some e)
      }
      else Some ([DefaultHandler (drop s b) eventPtr eventEndPtr], eventPtr, eventEndPtr))"

section \<open>Declarations\<close>

text \<open>The string a pointer into a pool points to.\<close>

definition c_string :: "(address \<Rightarrow> BLOCK option) \<Rightarrow> ptr \<Rightarrow> byte list option" where
  "c_string heap p = do {
     b \<leftarrow> heap (fst p);
     let cs = drop (snd p) (bl_s b);
     let s = takeWhile (\<lambda>c. c \<noteq> Some 0) cs;
     if length s < length cs \<and> None \<notin> set s then Some (map the s) else None
   }"

definition pool_string :: "'m enc_parser \<Rightarrow> ptr option \<Rightarrow> byte list option option" where
  "pool_string p r = (case r of None \<Rightarrow> Some None | Some q \<Rightarrow> map_option Some (c_string (sp_heap (su_temp2Pool p)) q))"

definition store_temp2 ::
  "encoding \<Rightarrow> byte list \<Rightarrow> 'm enc_parser \<Rightarrow> 'm \<Rightarrow> ('m enc_parser \<times> ptr option \<times> 'm) option" where
  "store_temp2 enc src p m = do {
     (pool, r, m) \<leftarrow> poolStoreString enc src (su_temp2Pool p) m;
     Some (p\<lparr>su_temp2Pool := pool\<rparr>, r, m)
   }"

definition store_name ::
  "encoding \<Rightarrow> byte list \<Rightarrow> nat \<Rightarrow> 'm enc_parser \<Rightarrow> 'm \<Rightarrow> ('m enc_parser \<times> ptr option \<times> 'm) option" where
  "store_name enc b q p m = do {
     n \<leftarrow> nameLength enc b q;
     store_temp2 enc (take n (drop q b)) p m
   }"

definition standalone_num :: "xml_decl \<Rightarrow> int" where
  "standalone_num d = (case standalone d of None \<Rightarrow> -1 | Some s \<Rightarrow> if s then 1 else 0)"

definition note_standalone :: "bool \<Rightarrow> xml_decl \<Rightarrow> 'm enc_parser \<Rightarrow> 'm enc_parser" where
  "note_standalone isGeneralTextEntity d p =
     (if \<not> isGeneralTextEntity \<and> standalone_num d = 1 then
        let p = p\<lparr>su_standalone := True\<rparr>
        in if su_paramEntityParsing p = XML_PARAM_ENTITY_PARSING_UNLESS_STANDALONE
           then p\<lparr>su_paramEntityParsing := XML_PARAM_ENTITY_PARSING_NEVER\<rparr> else p
      else p)"

text \<open>The strings for \<open>xmlDeclHandler\<close>; the boolean is whether there was memory for them.\<close>

definition store_encName ::
  "encoding \<Rightarrow> byte list \<Rightarrow> xml_decl \<Rightarrow> 'm enc_parser \<Rightarrow> 'm \<Rightarrow> ('m enc_parser \<times> bool \<times> ptr option \<times> 'm) option" where
  "store_encName enc b d p m =
     (case encodingName d of
        None \<Rightarrow> Some (p, True, None, m)
      | Some q \<Rightarrow> do {
          (p, r, m) \<leftarrow> store_name enc b q p m;
          if r = None then Some (p, False, None, m)
          else Some (p\<lparr>su_temp2Pool := poolFinish (su_temp2Pool p)\<rparr>, True, r, m)
        })"

definition store_version ::
  "encoding \<Rightarrow> byte list \<Rightarrow> xml_decl \<Rightarrow> 'm enc_parser \<Rightarrow> 'm \<Rightarrow> ('m enc_parser \<times> bool \<times> ptr option \<times> 'm) option" where
  "store_version enc b d p m =
     (case versionPtr d of
        None \<Rightarrow> Some (p, True, None, m)
      | Some q \<Rightarrow> do {
          e \<leftarrow> versionEndPtr d;
          (p, r, m) \<leftarrow> store_temp2 enc (drop q (take (e - minBytesPerChar enc) b)) p m;
          Some (p, r \<noteq> None, r, m)
        })"

text \<open>The call of \<open>xmlDeclHandler\<close>. The results are \<open>None\<close> if memory was refused, or
  \<open>storedEncName\<close> and \<open>storedversion\<close>.\<close>

definition announce_decl ::
  "encoding \<Rightarrow> byte list \<Rightarrow> xml_decl \<Rightarrow> 'm enc_parser \<Rightarrow> 'm \<Rightarrow>
    ('m enc_parser \<times> (ptr option \<times> ptr option) option \<times> setup_event list \<times> 'm) option" where
  "announce_decl enc b d p m = do {
     (p, ok, storedEncName, m) \<leftarrow> store_encName enc b d p m;
     if \<not> ok then Some (p, None, [], m)
     else do {
       (p, ok, storedversion, m) \<leftarrow> store_version enc b d p m;
       if \<not> ok then Some (p, None, [], m)
       else do {
         v \<leftarrow> pool_string p storedversion;
         e \<leftarrow> pool_string p storedEncName;
         Some (p, Some (storedEncName, storedversion), [XmlDeclHandler v e (standalone_num d)], m)
       }
     }
   }"

definition report_decl ::
  "encoding \<Rightarrow> byte list \<Rightarrow> nat \<Rightarrow> xml_decl \<Rightarrow> 'm enc_parser \<Rightarrow> 'm \<Rightarrow>
    ('m enc_parser \<times> (ptr option \<times> ptr option) option \<times> setup_event list \<times> 'm) option" where
  "report_decl enc b s d p m =
     (if su_xmlDeclHandler p then announce_decl enc b d p m
      else if su_defaultHandler p then do {
        (evs, ep, ee) \<leftarrow> reportDefault enc b s (su_eventPtr p) (su_eventEndPtr p);
        Some (p\<lparr>su_eventPtr := ep, su_eventEndPtr := ee\<rparr>, Some (None, None), evs, m)
      }
      else Some (p, Some (None, None), [], m))"

text \<open>The end of \<open>processXmlDecl\<close> for a name that is not known.\<close>

definition use_unknown ::
  "encoding \<Rightarrow> byte list \<Rightarrow> nat \<Rightarrow> ptr option \<Rightarrow> 'm enc_parser \<Rightarrow> 'm \<Rightarrow>
    (XML_Error \<times> 'm enc_parser \<times> setup_event list \<times> 'm) option" where
  "use_unknown enc b q storedEncName p m = do {
     (p, r, m) \<leftarrow> (if storedEncName = None then store_name enc b q p m else Some (p, storedEncName, m));
     if r = None then Some (XML_ERROR_NO_MEMORY, p, [], m)
     else do {
       nam \<leftarrow> pool_string p r;
       let (result, p, evs, m) = handleUnknownEncoding (the nam) p m;
       let p = p\<lparr>su_temp2Pool := poolClear (su_temp2Pool p)\<rparr>;
       Some (result, if result = XML_ERROR_UNKNOWN_ENCODING then p\<lparr>su_eventPtr := Some q\<rparr> else p, evs, m)
     }
   }"

definition use_encoding ::
  "encoding \<Rightarrow> byte list \<Rightarrow> xml_decl \<Rightarrow> ptr option \<Rightarrow> ptr option \<Rightarrow> 'm enc_parser \<Rightarrow> 'm \<Rightarrow>
    (XML_Error \<times> 'm enc_parser \<times> setup_event list \<times> 'm) option" where
  "use_encoding enc b d storedEncName storedversion p m =
     (let fin = (\<lambda>p. Some (XML_ERROR_NONE,
        if storedEncName \<noteq> None \<or> storedversion \<noteq> None then p\<lparr>su_temp2Pool := poolClear (su_temp2Pool p)\<rparr> else p, [], m))
      in if su_protocolEncodingName p = None then
           (case declEncoding d of
              Some (Some newEncoding) \<Rightarrow>
                if minBytesPerChar newEncoding \<noteq> minBytesPerChar enc
                then Some (XML_ERROR_INCORRECT_ENCODING, p\<lparr>su_eventPtr := encodingName d\<rparr>, [], m)
                else fin (p\<lparr>su_encoding := Inr newEncoding\<rparr>)
            | _ \<Rightarrow> (case encodingName d of
                  Some q \<Rightarrow> use_unknown enc b q storedEncName p m
                | None \<Rightarrow> fin p))
         else fin p)"

text \<open>The token from \<open>s\<close> to \<open>next\<close>; the text \<open>b\<close> ends where the token does. Before the scanner has settled
  on an encoding there is no declaration.\<close>

definition processXmlDecl ::
  "bool \<Rightarrow> byte list \<Rightarrow> nat \<Rightarrow> 'm enc_parser \<Rightarrow> 'm \<Rightarrow> (XML_Error \<times> 'm enc_parser \<times> setup_event list \<times> 'm) option" where
  "processXmlDecl isGeneralTextEntity b s p m =
     (case su_encoding p of
        Inl _ \<Rightarrow> None
      | Inr enc \<Rightarrow> do {
          (bad, d) \<leftarrow> XmlParseXmlDecl (su_ns p) isGeneralTextEntity enc b s;
          case bad of
            Some q \<Rightarrow> Some (if isGeneralTextEntity then XML_ERROR_TEXT_DECL else XML_ERROR_XML_DECL,
              p\<lparr>su_eventPtr := Some q\<rparr>, [], m)
          | None \<Rightarrow> do {
              (p, stored, evs, m) \<leftarrow> report_decl enc b s d (note_standalone isGeneralTextEntity d p) m;
              case stored of
                None \<Rightarrow> Some (XML_ERROR_NO_MEMORY, p, evs, m)
              | Some (storedEncName, storedversion) \<Rightarrow> do {
                  (result, p, evs', m) \<leftarrow> use_encoding enc b d storedEncName storedversion p m;
                  Some (result, p, evs @ evs', m)
                }
            }
        })"

end
