(* ===== verification/Xml_Value.thy ===== *)
theory Xml_Value
  imports Xml_Setup Xml_Hash Xml_Prolog_Tok
begin

text \<open>
  Attribute values (\<^verbatim>\<open>xmlparse.c\<close>, \<open>storeAttributeValue\<close> and \<open>appendAttributeValue\<close>): the text between the
  quotes is read token by token into a pool, white space becomes spaces, references are replaced, those
  to internal entities by the value of the entity's text. The record has the fields of the parser and
  the DTD these functions use; \<open>vp_entities\<close> are the objects the entries of the table of general
  entities stand for, \<open>vp_pool\<close> is the pool the caller passes and \<open>vp_prolog\<close> whether that is the
  DTD's. \<open>own\<close> is the test \<open>enc == encoding\<close>: the text is the document's own, and an error moves
  \<open>eventPtr\<close>, a position in it. The text of an entity is given by its characters, which a pool keeps in
  place.
\<close>

record ENTITY =
  en_textPtr :: "byte list option"
  en_processed :: int
  en_systemId :: "byte list option"
  en_base :: "byte list option"
  en_publicId :: "byte list option"
  en_notation :: "byte list option"
  en_open :: bool
  en_is_param :: bool
  en_is_internal :: bool

record 'm value_parser =
  vp_internalEncoding :: encoding
  vp_eventPtr :: "nat option"
  vp_documentEntity :: bool
  vp_standalone :: bool
  vp_hasParamEntityRefs :: bool
  vp_openInternalEntities :: bool
  vp_generalEntities :: "'m HASH_TABLE"
  vp_entities :: "address \<Rightarrow> ENTITY option"
  vp_temp2Pool :: "'m STRING_POOL"
  vp_pool :: "'m STRING_POOL"
  vp_prolog :: bool

section \<open>Single tokens\<close>

text \<open>What the loop does after a token: return, go on, or read the text of an entity first.\<close>

datatype value_step =
  Return XML_Error | Continue | Expand address "byte list"

definition value_event :: "bool \<Rightarrow> nat option \<Rightarrow> 'm value_parser \<Rightarrow> 'm value_parser" where
  "value_event own q p = (if own then p\<lparr>vp_eventPtr := q\<rparr> else p)"

text \<open>Whether a space would start the value or follow another one.\<close>

definition after_space :: "'m STRING_POOL \<Rightarrow> bool option" where
  "after_space pool = do {
     n \<leftarrow> poolLength pool;
     if n = 0 then Some True
     else do {
       c \<leftarrow> poolLastChar pool;
       Some (c = 0x20)
     }
   }"

fun append_chars :: "byte list \<Rightarrow> 'm STRING_POOL \<Rightarrow> 'm \<Rightarrow> ('m STRING_POOL \<times> bool \<times> 'm) option" where
  "append_chars [] pool m = Some (pool, True, m)"
| "append_chars (c # buf) pool m = do {
     (pool, ok, m) \<leftarrow> poolAppendChar pool c m;
     if \<not> ok then Some (pool, False, m) else append_chars buf pool m
   }"

definition value_chars ::
  "byte list \<Rightarrow> 'm value_parser \<Rightarrow> 'm \<Rightarrow> (value_step \<times> 'm value_parser \<times> 'm) option" where
  "value_chars buf p m = do {
     (pool, ok, m) \<leftarrow> append_chars buf (vp_pool p) m;
     Some (if ok then Continue else Return XML_ERROR_NO_MEMORY, p\<lparr>vp_pool := pool\<rparr>, m)
   }"

definition value_space :: "bool \<Rightarrow> 'm value_parser \<Rightarrow> 'm \<Rightarrow> (value_step \<times> 'm value_parser \<times> 'm) option" where
  "value_space isCdata p m =
     (if isCdata then value_chars [0x20] p m
      else do {
        s \<leftarrow> after_space (vp_pool p);
        if s then Some (Continue, p, m) else value_chars [0x20] p m
      })"

definition value_char_ref ::
  "bool \<Rightarrow> encoding \<Rightarrow> bool \<Rightarrow> byte list \<Rightarrow> nat \<Rightarrow> 'm value_parser \<Rightarrow> 'm \<Rightarrow>
    (value_step \<times> 'm value_parser \<times> 'm) option" where
  "value_char_ref isCdata enc own b ptr p m = do {
     n \<leftarrow> charRefNumber enc b ptr;
     if n < 0 then Some (Return XML_ERROR_BAD_CHAR_REF, value_event own (Some ptr) p, m)
     else do {
       s \<leftarrow> (if \<not> isCdata \<and> n = 0x20 then after_space (vp_pool p) else Some False);
       if s then Some (Continue, p, m)
       else if XmlUtf8Encode n = []
       then Some (Return XML_ERROR_BAD_CHAR_REF, value_event own (Some ptr) p, m)
       else value_chars (XmlUtf8Encode n) p m
     }
   }"

section \<open>References to entities\<close>

text \<open>Whether an entity has to have been declared, and internally.\<close>

definition check_entity_decl :: "'m value_parser \<Rightarrow> bool" where
  "check_entity_decl p =
     (if vp_prolog p
      then vp_documentEntity p \<and>
        (if vp_standalone p then \<not> vp_openInternalEntities p else \<not> vp_hasParamEntityRefs p)
      else \<not> vp_hasParamEntityRefs p \<or> vp_standalone p)"

definition use_entity ::
  "bool \<Rightarrow> nat \<Rightarrow> (address \<times> ENTITY) option \<Rightarrow> 'm value_parser \<Rightarrow> value_step \<times> 'm value_parser" where
  "use_entity own ptr entity p =
     (case entity of
        None \<Rightarrow> (if check_entity_decl p then Return XML_ERROR_UNDEFINED_ENTITY else Continue, p)
      | Some (a, e) \<Rightarrow>
          if check_entity_decl p \<and> \<not> en_is_internal e then (Return XML_ERROR_ENTITY_DECLARED_IN_PE, p)
          else if en_open e
          then (Return XML_ERROR_RECURSIVE_ENTITY_REF, value_event own (Some ptr) p)
          else if en_notation e \<noteq> None
          then (Return XML_ERROR_BINARY_ENTITY_REF, value_event own (Some ptr) p)
          else (case en_textPtr e of
              None \<Rightarrow> (Return XML_ERROR_ATTRIBUTE_EXTERNAL_ENTITY_REF, value_event own (Some ptr) p)
            | Some text \<Rightarrow> (Expand a text, p)))"

text \<open>The entry of a table with the object it stands for.\<close>

definition entity_object :: "(address \<Rightarrow> ENTITY option) \<Rightarrow> NAMED option \<Rightarrow> (address \<times> ENTITY) option option" where
  "entity_object objs r =
     (case r of
        None \<Rightarrow> Some None
      | Some e \<Rightarrow> do {
          x \<leftarrow> objs (nm_addr e);
          Some (Some (nm_addr e, x))
        })"

definition value_entity_ref ::
  "encoding \<Rightarrow> bool \<Rightarrow> byte list \<Rightarrow> nat \<Rightarrow> nat \<Rightarrow> 'm value_parser \<Rightarrow> 'm \<Rightarrow>
    (value_step \<times> 'm value_parser \<times> 'm) option" where
  "value_entity_ref enc own b ptr nx p m =
     (let s = ptr + minBytesPerChar enc; e = nx - minBytesPerChar enc
      in do {
        ch \<leftarrow> predefinedEntityName enc b s e;
        if ch \<noteq> 0 then value_chars [ch] p m
        else do {
          (pool, r, m) \<leftarrow> poolStoreString enc (take (e - s) (drop s b)) (vp_temp2Pool p) m;
          let p = p\<lparr>vp_temp2Pool := pool\<rparr>;
          case r of
            None \<Rightarrow> Some (Return XML_ERROR_NO_MEMORY, p, m)
          | Some q \<Rightarrow> do {
              nam \<leftarrow> c_string (sp_heap pool) q;
              (table, found, m) \<leftarrow> lookup (vp_generalEntities p) (nam @ [0]) 0 m;
              let p = p\<lparr>vp_generalEntities := table, vp_temp2Pool := poolDiscard pool\<rparr>;
              entity \<leftarrow> entity_object (vp_entities p) found;
              let (step, p) = use_entity own ptr entity p;
              Some (step, p, m)
            }
        }
      })"

section \<open>The loop\<close>

text \<open>The \<open>switch\<close> of the loop: the step to take, and where the next token starts.\<close>

definition value_switch ::
  "bool \<Rightarrow> encoding \<Rightarrow> bool \<Rightarrow> byte list \<Rightarrow> nat \<Rightarrow> int \<Rightarrow> nat option \<Rightarrow> 'm value_parser \<Rightarrow> 'm \<Rightarrow>
    (value_step \<times> nat \<times> 'm value_parser \<times> 'm) option" where
  "value_switch isCdata enc own b ptr tok nx p m =
     (let stop = (\<lambda>r p. Some (Return r, ptr, p, m))
      in if tok = XML_TOK_NONE then stop XML_ERROR_NONE p
         else if tok = XML_TOK_INVALID then stop XML_ERROR_INVALID_TOKEN (value_event own nx p)
         else if tok = XML_TOK_PARTIAL then stop XML_ERROR_INVALID_TOKEN (value_event own (Some ptr) p)
         else if tok = XML_TOK_CHAR_REF then do {
           e \<leftarrow> nx;
           (step, p, m) \<leftarrow> value_char_ref isCdata enc own b ptr p m;
           Some (step, e, p, m)
         }
         else if tok = XML_TOK_DATA_CHARS then do {
           e \<leftarrow> nx;
           (pool, r, m) \<leftarrow> poolAppend enc (take (e - ptr) (drop ptr b)) (vp_pool p) m;
           Some (if r = None then Return XML_ERROR_NO_MEMORY else Continue, e, p\<lparr>vp_pool := pool\<rparr>, m)
         }
         else if tok = XML_TOK_TRAILING_CR \<or> tok = XML_TOK_ATTRIBUTE_VALUE_S \<or> tok = XML_TOK_DATA_NEWLINE then do {
           e \<leftarrow> (if tok = XML_TOK_TRAILING_CR then Some (ptr + minBytesPerChar enc) else nx);
           (step, p, m) \<leftarrow> value_space isCdata p m;
           Some (step, e, p, m)
         }
         else if tok = XML_TOK_ENTITY_REF then do {
           e \<leftarrow> nx;
           (step, p, m) \<leftarrow> value_entity_ref enc own b ptr e p m;
           Some (step, e, p, m)
         }
         else stop XML_ERROR_UNEXPECTED_STATE (value_event own (Some ptr) p))"

definition set_open :: "bool \<Rightarrow> address \<Rightarrow> 'm value_parser \<Rightarrow> 'm value_parser option" where
  "set_open v a p = do {
     e \<leftarrow> vp_entities p a;
     Some (p\<lparr>vp_entities := (vp_entities p)(a \<mapsto> e\<lparr>en_open := v\<rparr>)\<rparr>)
   }"

partial_function (option) appendAttributeValue ::
  "bool \<Rightarrow> encoding \<Rightarrow> bool \<Rightarrow> byte list \<Rightarrow> nat \<Rightarrow> 'm value_parser \<Rightarrow> 'm \<Rightarrow>
    (XML_Error \<times> 'm value_parser \<times> 'm) option" where
  "appendAttributeValue isCdata enc own b ptr p m = do {
     (tok, nx) \<leftarrow> attributeValueTok enc b ptr;
     (step, e, p, m) \<leftarrow> value_switch isCdata enc own b ptr tok nx p m;
     case step of
       Return r \<Rightarrow> Some (r, p, m)
     | Continue \<Rightarrow> appendAttributeValue isCdata enc own b e p m
     | Expand a text \<Rightarrow> do {
         p \<leftarrow> set_open True a p;
         (r, p, m) \<leftarrow> appendAttributeValue isCdata (vp_internalEncoding p) False text 0 p m;
         p \<leftarrow> set_open False a p;
         if r \<noteq> XML_ERROR_NONE then Some (r, p, m)
         else appendAttributeValue isCdata enc own b e p m
       }
   }"

declare appendAttributeValue.simps [code]

definition storeAttributeValue ::
  "bool \<Rightarrow> encoding \<Rightarrow> bool \<Rightarrow> byte list \<Rightarrow> nat \<Rightarrow> 'm value_parser \<Rightarrow> 'm \<Rightarrow>
    (XML_Error \<times> 'm value_parser \<times> 'm) option" where
  "storeAttributeValue isCdata enc own b ptr p m = do {
     (r, p, m) \<leftarrow> appendAttributeValue isCdata enc own b ptr p m;
     if r \<noteq> XML_ERROR_NONE then Some (r, p, m)
     else do {
       pool \<leftarrow> (if isCdata then Some (vp_pool p) else trim_space (vp_pool p));
       (pool, ok, m) \<leftarrow> poolAppendChar pool 0 m;
       Some (if ok then XML_ERROR_NONE else XML_ERROR_NO_MEMORY, p\<lparr>vp_pool := pool\<rparr>, m)
     }
   }"

end
