(* ===== verification/Xml_Decl_Text.thy ===== *)
theory Xml_Decl_Text
  imports Xml_Decl_Props
begin

text \<open>
  XML declarations as the grammar writes them are read back, in every built-in encoding; and the
  encoding of a document is recognised from its first bytes.
\<close>

section \<open>Declarations as text\<close>

text \<open>A pseudo attribute without its name: the white space before the name and around \<open>=\<close>, the quote
  and the value.\<close>

record att =
  at_space :: "byte list"
  at_eq1 :: "byte list"
  at_eq2 :: "byte list"
  at_quote :: byte
  at_val :: "byte list"

definition space_byte :: "byte \<Rightarrow> bool" where
  "space_byte c \<longleftrightarrow> isSpace (uint c)"

definition value_byte :: "byte \<Rightarrow> bool" where
  "value_byte c \<longleftrightarrow> value_char (uint c)"

definition att_ok :: "att \<Rightarrow> bool" where
  "att_ok a \<longleftrightarrow> at_space a \<noteq> [] \<and> list_all space_byte (at_space a) \<and> list_all space_byte (at_eq1 a) \<and>
     list_all space_byte (at_eq2 a) \<and> (at_quote a = 0x22 \<or> at_quote a = 0x27) \<and> list_all value_byte (at_val a)"

definition att_start :: "byte list \<Rightarrow> att \<Rightarrow> byte list" where
  "att_start kw a = at_space a @ kw @ at_eq1 a @ 0x3D # at_eq2 a @ [at_quote a]"

definition att_text :: "byte list \<Rightarrow> att \<Rightarrow> byte list" where
  "att_text kw a = att_start kw a @ at_val a @ [at_quote a]"

definition opt_text :: "byte list \<Rightarrow> att option \<Rightarrow> byte list" where
  "opt_text kw a = (case a of None \<Rightarrow> [] | Some a \<Rightarrow> att_text kw a)"

definition decl_text :: "att option \<Rightarrow> att option \<Rightarrow> att option \<Rightarrow> byte list \<Rightarrow> byte list" where
  "decl_text v e s ws = ascii ''<?xml'' @ opt_text KW_version v @ opt_text KW_encoding e @
     opt_text KW_standalone s @ ws @ ascii ''?>''"

definition letter :: "byte \<Rightarrow> bool" where
  "letter c \<longleftrightarrow> 0x61 \<le> c \<and> c \<le> 0x7A \<or> 0x41 \<le> c \<and> c \<le> 0x5A"

text \<open>The grammar of \<open>XMLDecl\<close> and, if \<open>g\<close>, of \<open>TextDecl\<close>.\<close>

definition decl_spec :: "bool \<Rightarrow> att option \<Rightarrow> att option \<Rightarrow> att option \<Rightarrow> byte list \<Rightarrow> bool" where
  "decl_spec g v e s ws \<longleftrightarrow> (if g then e \<noteq> None \<and> s = None else v \<noteq> None) \<and>
     (case v of None \<Rightarrow> True | Some a \<Rightarrow> att_ok a) \<and>
     (case e of None \<Rightarrow> True | Some a \<Rightarrow> att_ok a \<and> at_val a \<noteq> [] \<and> letter (hd (at_val a))) \<and>
     (case s of None \<Rightarrow> True | Some a \<Rightarrow> att_ok a \<and> (at_val a = KW_yes \<or> at_val a = KW_no)) \<and>
     list_all space_byte ws"

text \<open>What is read off it: where the values start, and what they mean.\<close>

definition decl_val :: "encoding \<Rightarrow> byte list \<Rightarrow> byte list \<Rightarrow> att \<Rightarrow> nat" where
  "decl_val enc u kw a = length (u @ att_start kw a) * MINBPC enc"

definition decl_next :: "encoding \<Rightarrow> byte list \<Rightarrow> byte list \<Rightarrow> att \<Rightarrow> nat" where
  "decl_next enc u kw a = length (u @ att_text kw a) * MINBPC enc"

definition decl_vals ::
  "bool \<Rightarrow> encoding \<Rightarrow> byte list \<Rightarrow> att option \<Rightarrow> att option \<Rightarrow> nat option \<Rightarrow> nat option \<Rightarrow> xml_decl" where
  "decl_vals ns enc u e s vp ve =
     \<lparr>versionPtr = vp, versionEndPtr = ve,
      encodingName = map_option (decl_val enc u KW_encoding) e,
      declEncoding = map_option (\<lambda>a. named_encoding ns enc (at_val a)) e,
      standalone = map_option (\<lambda>a. at_val a = KW_yes) s\<rparr>"

definition decl_read :: "bool \<Rightarrow> encoding \<Rightarrow> att option \<Rightarrow> att option \<Rightarrow> att option \<Rightarrow> xml_decl" where
  "decl_read ns enc v e s =
     (let u = ascii ''<?xml''
      in decl_vals ns enc (u @ opt_text KW_version v) e s
           (map_option (decl_val enc u KW_version) v) (map_option (decl_next enc u KW_version) v))"

section \<open>Reading the text\<close>

definition code :: "byte list \<Rightarrow> int" where
  "code r = (case r of [] \<Rightarrow> -1 | c # _ \<Rightarrow> uint c)"

lemma space_ascii: "space_byte c \<Longrightarrow> c < 0x80"
  by (auto simp: space_byte_def isSpace_def word_less_def)

lemma value_byte_ascii: "value_byte c \<Longrightarrow> c < 0x80"
  by (auto simp: value_byte_def value_char_def word_less_def)

definition name_byte :: "byte \<Rightarrow> bool" where
  "name_byte c \<longleftrightarrow> c < 0x80 \<and> \<not> space_byte c \<and> c \<noteq> 0x3D"

lemma equals_byte [simp]: "\<not> space_byte 0x3D" "code (0x3D # r) = 0x3D"
  by (simp_all add: space_byte_def isSpace_def code_def)

lemma quote_byte: "q = 0x22 \<or> q = 0x27 \<Longrightarrow> q < 0x80 \<and> \<not> space_byte q \<and> (uint q = 0x22 \<or> uint q = 0x27)"
  by (auto simp: space_byte_def isSpace_def)

context text_reader
begin

abbreviation (input) pos :: "byte list \<Rightarrow> nat" where
  "pos u \<equiv> length u * MINBPC enc"

lemma pos_inj: "m * MINBPC enc = n * MINBPC enc \<longleftrightarrow> m = n"
  using MINBPC_pos [of enc] by simp

lemma read_text:
  assumes "r = [] \<or> hd r < 0x80"
  shows "toAscii enc (enc_text enc (u @ r)) (pos u) = Some (code r)"
proof (cases r)
  case Nil
  then show ?thesis using read_end [of "enc_text enc u"] by (simp add: code_def)
next
  case (Cons c r')
  have "enc_text enc (u @ r) = enc_text enc u @ enc_char enc c @ enc_text enc r'" by (simp add: Cons enc_text_def)
  then show ?thesis using read_char [of c "enc_text enc r'" "enc_text enc u"] assms Cons by (simp add: code_def)
qed

lemma skip_space_text:
  assumes "list_all space_byte sp" "r = [] \<or> hd r < 0x80 \<and> \<not> space_byte (hd r)"
  shows "skip_space enc (enc_text enc (u @ sp @ r)) (pos u) = Some (pos (u @ sp), code r)"
  using assms(1)
proof (induction sp arbitrary: u)
  case Nil
  have "\<not> isSpace (code r)" using assms(2) by (cases r) (auto simp: code_def space_byte_def isSpace_def)
  then show ?case using read_text [of r u] assms(2) by (subst skip_space.simps) auto
next
  case (Cons c sp)
  have "toAscii enc (enc_text enc (u @ c # sp @ r)) (pos u) = Some (uint c)"
    using read_text [of "c # sp @ r" u] Cons.prems space_ascii by (simp add: code_def)
  then show ?case using Cons.IH [of "u @ [c]"] Cons.prems
    by (subst skip_space.simps) (simp add: space_byte_def add.commute)
qed

lemma name_loop_text:
  assumes "list_all name_byte nm" "list_all space_byte sp"
  shows "name_loop enc (enc_text enc (u @ nm @ sp @ 0x3D # r)) (pos u) = Some (Inr (pos (u @ nm), pos (u @ nm @ sp)))"
  using assms(1)
proof (induction nm arbitrary: u)
  case Nil
  show ?case
  proof (cases sp)
    case Nil
    then show ?thesis using read_text [of "0x3D # r" u] by (subst name_loop.simps) (simp add: code_def)
  next
    case (Cons c sp')
    have c: "toAscii enc (enc_text enc (u @ c # sp' @ 0x3D # r)) (pos u) = Some (uint c)"
      using read_text [of "c # sp' @ 0x3D # r" u] assms(2) Cons space_ascii by (simp add: code_def)
    have h: "0x3D # r = [] \<or> hd (0x3D # r) < (0x80 :: byte) \<and> \<not> space_byte (hd (0x3D # r))" by simp
    have "skip_space enc (enc_text enc (u @ c # sp' @ 0x3D # r)) (pos u + MINBPC enc) = Some (pos (u @ sp), 0x3D)"
      using skip_space_text [OF _ h, of sp' "u @ [c]"] assms(2) Cons by (simp add: add.commute)
    then show ?thesis using c assms(2) Cons
      by (subst name_loop.simps) (auto simp: space_byte_def isSpace_def)
  qed
next
  case (Cons c nm)
  have c: "toAscii enc (enc_text enc (u @ c # nm @ sp @ 0x3D # r)) (pos u) = Some (uint c)"
    using read_text [of "c # nm @ sp @ 0x3D # r" u] Cons.prems by (simp add: code_def name_byte_def)
  have "uint c \<noteq> -1" using uint_ge_0 [of c] by linarith
  moreover have "uint c \<noteq> 0x3D" "\<not> isSpace (uint c)"
    using Cons.prems by (auto simp: name_byte_def space_byte_def word_uint_eq_iff)
  ultimately have ne: "uint c \<noteq> -1" "uint c \<noteq> 0x3D" "\<not> isSpace (uint c)" .
  then show ?case using c Cons.IH [of "u @ [c]"] Cons.prems
    by (subst name_loop.simps) (simp add: add.commute)
qed

lemma value_loop_text:
  assumes "list_all value_byte v" "q = 0x22 \<or> q = 0x27"
  shows "value_loop enc (enc_text enc (u @ v @ q # r)) (uint q) (pos u) = Some (Inr (pos (u @ v)))"
  using assms(1)
proof (induction v arbitrary: u)
  case Nil
  then show ?case using read_text [of "q # r" u] assms(2) by (subst value_loop.simps) (auto simp: code_def)
next
  case (Cons c v)
  have c: "toAscii enc (enc_text enc (u @ c # v @ q # r)) (pos u) = Some (uint c)"
    using read_text [of "c # v @ q # r" u] Cons.prems value_byte_ascii by (simp add: code_def)
  have "uint c \<noteq> uint q" "value_char (uint c)" using Cons.prems assms(2) by (auto simp: value_byte_def value_char_def)
  then show ?case using c Cons.IH [of "u @ [c]"] Cons.prems
    by (subst value_loop.simps) (simp add: add.commute)
qed

lemma attribute_text:
  assumes "att_ok a" "list_all name_byte kw" "kw \<noteq> []"
  shows "parsePseudoAttribute enc (enc_text enc (u @ att_text kw a @ r)) (pos u) = Some (Attribute
    (pos (u @ at_space a)) (pos (u @ at_space a @ kw)) (pos (u @ att_start kw a)) (pos (u @ att_text kw a)))"
proof -
  note a = assms(1) [unfolded att_ok_def]
  define b where "b = enc_text enc (u @ att_text kw a @ r)"
  obtain c sp where sp: "at_space a = c # sp" using a by (cases "at_space a") auto
  obtain k kw' where kw: "kw = k # kw'" using assms(3) by (cases kw) auto
  let ?q = "at_quote a"
  have q: "?q < 0x80" "\<not> space_byte ?q" "uint ?q = 0x22 \<or> uint ?q = 0x27" using quote_byte a by blast+
  define t1 where "t1 = at_eq1 a @ 0x3D # at_eq2 a @ ?q # at_val a @ ?q # r"
  have b: "b = enc_text enc (u @ c # sp @ kw @ t1)"
    by (simp add: b_def att_text_def att_start_def sp t1_def)
  have 1: "toAscii enc b (pos u) = Some (uint c)" "isSpace (uint c)"
    using read_text [of "c # sp @ kw @ t1" u] a sp space_ascii by (auto simp: b code_def space_byte_def)
  have 2: "skip_space enc b (pos u + MINBPC enc) = Some (pos (u @ at_space a), uint k)"
    using skip_space_text [of sp "kw @ t1" "u @ [c]"] a sp assms(2) kw
    by (simp add: b code_def name_byte_def add.commute)
  have 3: "name_loop enc b (pos (u @ at_space a)) = Some (Inr (pos (u @ at_space a @ kw), pos (u @ at_space a @ kw @ at_eq1 a)))"
    using name_loop_text [of kw "at_eq1 a" "u @ at_space a" "at_eq2 a @ ?q # at_val a @ ?q # r"] assms(2) a
    by (simp add: b sp t1_def)
  have 4: "skip_space enc b (pos (u @ at_space a @ kw @ at_eq1 a) + MINBPC enc) =
      Some (pos (u @ at_space a @ kw @ at_eq1 a @ 0x3D # at_eq2 a), uint ?q)"
    using skip_space_text [of "at_eq2 a" "?q # at_val a @ ?q # r" "u @ at_space a @ kw @ at_eq1 a @ [0x3D]"] a q
    by (simp add: b sp t1_def code_def add.commute)
  have 5: "value_loop enc b (uint ?q) (pos (u @ att_start kw a)) = Some (Inr (pos (u @ att_start kw a @ at_val a)))"
    using value_loop_text [of "at_val a" ?q "u @ att_start kw a" r] a by (simp add: b sp t1_def att_start_def)
  have p: "pos (u @ at_space a @ kw @ at_eq1 a @ 0x3D # at_eq2 a) + MINBPC enc = pos (u @ att_start kw a)"
    "pos (u @ att_start kw a @ at_val a) + MINBPC enc = pos (u @ att_text kw a)"
    by (simp_all add: att_start_def att_text_def algebra_simps)
  have ne: "pos u \<noteq> length b" "pos (u @ at_space a) \<noteq> length b"
      "pos (u @ at_space a @ kw @ at_eq1 a) \<noteq> pos (u @ at_space a)"
    using pos_inj [of "length u" "length (u @ c # sp @ kw @ t1)"] kw
      pos_inj [of "length (u @ at_space a)" "length (u @ c # sp @ kw @ t1)"]
      pos_inj [of "length (u @ at_space a @ kw @ at_eq1 a)" "length (u @ at_space a)"]
    unfolding b length_enc_text by (simp_all add: sp)
  show ?thesis
    unfolding b_def [symmetric] parsePseudoAttribute_def min_bytes'
    using 1 2 3 4 [unfolded p(1)] 5 q(3) ne p by (auto simp: Let_def simp del: length_append)
qed

lemma blank_text:
  assumes "list_all space_byte ws"
  shows "parsePseudoAttribute enc (enc_text enc (u @ ws)) (pos u) = Some No_attribute"
proof (cases ws)
  case Nil
  then show ?thesis by (simp add: parsePseudoAttribute_def)
next
  case (Cons c sp)
  have c: "toAscii enc (enc_text enc (u @ ws)) (pos u) = Some (uint c)" "isSpace (uint c)"
    using read_text [of ws u] assms Cons space_ascii by (auto simp: code_def space_byte_def)
  have "skip_space enc (enc_text enc (u @ ws)) (pos u + MINBPC enc) = Some (pos (u @ ws), -1)"
    using skip_space_text [of sp "[]" "u @ [c]"] assms Cons by (simp add: code_def add.commute)
  then show ?thesis using c pos_inj [of "length u" "length (u @ ws)"] Cons
    by (simp add: parsePseudoAttribute_def)
qed

lemma enc_text_append: "enc_text enc (x @ y) = enc_text enc x @ enc_text enc y"
  by (simp add: enc_text_def)

lemma enc_char_nonempty [simp]: "enc_char enc c \<noteq> []"
  using length_enc_char [of enc c] MINBPC_pos [of enc] by (metis length_0_conv less_irrefl)

lemma enc_text_inj: "enc_text enc x = enc_text enc y \<longleftrightarrow> x = y"
proof (induction x arbitrary: y)
  case Nil
  then show ?case by (cases y) auto
next
  case (Cons c x)
  then show ?case by (cases y) auto
qed

lemma take_text: "take (pos x) (enc_text enc (x @ z)) = enc_text enc x"
  unfolding enc_text_append by simp

lemma drop_text: "drop (pos x) (enc_text enc (x @ z)) = enc_text enc z"
  unfolding enc_text_append by simp

lemma matches_text:
  "XmlNameMatchesAscii enc (take (pos (x @ y)) (enc_text enc (x @ y @ z))) (pos x) kw = Some (y = kw)"
proof -
  have t: "take (pos (x @ y)) (enc_text enc (x @ y @ z)) = enc_text enc (x @ y)"
    using take_text [of "x @ y" z] by simp
  have "nameMatchesAscii enc (enc_text enc (x @ y)) (pos x) kw = Some (drop (pos x) (enc_text enc (x @ y)) = enc_text enc kw)"
    by (rule nameMatchesAscii_correct) (simp_all add: algebra_simps)
  then show ?thesis by (simp only: XmlNameMatchesAscii_def t drop_text enc_text_inj)
qed

lemma attribute_name:
  "XmlNameMatchesAscii enc (take (pos (u @ at_space a @ nm)) (enc_text enc (u @ att_text nm a @ t))) (pos (u @ at_space a)) kw =
     Some (nm = kw)"
  using matches_text [of "u @ at_space a" nm "at_eq1 a @ 0x3D # at_eq2 a @ at_quote a # at_val a @ at_quote a # t" kw]
  by (simp add: att_text_def att_start_def)

lemma standalone_text:
  assumes "att_ok a" "at_val a = KW_yes \<or> at_val a = KW_no" "list_all space_byte ws"
  shows "parse_standalone False enc (enc_text enc (u @ att_text KW_standalone a @ ws))
      (pos (u @ at_space a)) (pos (u @ at_space a @ KW_standalone)) (pos (u @ att_start KW_standalone a))
      (pos (u @ att_text KW_standalone a)) d = Some (None, d\<lparr>standalone := Some (at_val a = KW_yes)\<rparr>)"
proof -
  define b where "b = enc_text enc (u @ att_text KW_standalone a @ ws)"
  have 1: "XmlNameMatchesAscii enc (take (pos (u @ at_space a @ KW_standalone)) b) (pos (u @ at_space a)) kw = Some (KW_standalone = kw)" for kw
    unfolding b_def by (rule attribute_name)
  have e: "pos (u @ att_text KW_standalone a) - MINBPC enc = pos ((u @ att_start KW_standalone a) @ at_val a)"
    by (simp add: att_text_def algebra_simps)
  have 2: "XmlNameMatchesAscii enc (take (pos (u @ att_text KW_standalone a) - MINBPC enc) b) (pos (u @ att_start KW_standalone a)) kw
      = Some (at_val a = kw)" for kw
    using matches_text [of "u @ att_start KW_standalone a" "at_val a" "at_quote a # ws" kw] unfolding e
    by (simp add: b_def att_text_def)
  have 3: "skip_space enc b (pos (u @ att_text KW_standalone a)) = Some (length b, -1)"
    using skip_space_text [of ws "[]" "u @ att_text KW_standalone a"] assms(3) by (simp add: b_def code_def)
  show ?thesis
    unfolding b_def [symmetric] parse_standalone_def min_bytes' 1 2 3 using assms(2)
    by (auto simp: KW_yes_def KW_no_def ascii_def)
qed

lemma opt_standalone_text:
  assumes "case s of None \<Rightarrow> True | Some a \<Rightarrow> att_ok a \<and> (at_val a = KW_yes \<or> at_val a = KW_no)"
    and "list_all space_byte ws" "g \<longrightarrow> s = None"
  shows "(case s of None \<Rightarrow> parsePseudoAttribute enc (enc_text enc (u @ opt_text KW_standalone s @ ws)) (pos u) = Some No_attribute
    | Some a \<Rightarrow> \<exists>nm ne v nx.
        parsePseudoAttribute enc (enc_text enc (u @ opt_text KW_standalone s @ ws)) (pos u) = Some (Attribute nm ne v nx) \<and>
        XmlNameMatchesAscii enc (take ne (enc_text enc (u @ opt_text KW_standalone s @ ws))) nm KW_encoding = Some False \<and>
        (\<forall>d. parse_standalone g enc (enc_text enc (u @ opt_text KW_standalone s @ ws)) nm ne v nx d =
          Some (None, d\<lparr>standalone := Some (at_val a = KW_yes)\<rparr>)))"
proof (cases s)
  case None
  then show ?thesis using blank_text [OF assms(2), of u] by (simp add: opt_text_def)
next
  case (Some a)
  let ?b = "enc_text enc (u @ att_text KW_standalone a @ ws)"
  have a: "att_ok a" "at_val a = KW_yes \<or> at_val a = KW_no" "\<not> g" using assms Some by auto
  have kw: "list_all name_byte KW_standalone" "KW_standalone \<noteq> []" "KW_standalone \<noteq> KW_encoding"
    by (simp_all add: KW_standalone_def KW_encoding_def ascii_def name_byte_def space_byte_def isSpace_def)
  have "XmlNameMatchesAscii enc (take (pos ((u @ at_space a) @ KW_standalone)) ?b) (pos (u @ at_space a)) KW_encoding = Some False"
    using attribute_name [of u a KW_standalone ws KW_encoding] kw(3) by simp
  then show ?thesis using attribute_text [OF a(1) kw(1,2), of u ws] standalone_text [OF a(1,2) assms(2), of u] a(3)
    by (simp add: Some opt_text_def del: length_append)
qed

lemma encoding_text:
  assumes "att_ok a" "at_val a \<noteq> []" "letter (hd (at_val a))"
    and "case s of None \<Rightarrow> True | Some a \<Rightarrow> att_ok a \<and> (at_val a = KW_yes \<or> at_val a = KW_no)"
    and "list_all space_byte ws" "g \<longrightarrow> s = None"
  shows "parse_encoding ns g enc (enc_text enc (u @ att_text KW_encoding a @ opt_text KW_standalone s @ ws))
      (pos (u @ at_space a)) (pos (u @ at_space a @ KW_encoding)) (pos (u @ att_start KW_encoding a))
      (pos (u @ att_text KW_encoding a)) d =
    Some (None, case s of None \<Rightarrow> d\<lparr>encodingName := Some (decl_val enc u KW_encoding a), declEncoding := Some (named_encoding ns enc (at_val a))\<rparr>
      | Some c \<Rightarrow> d\<lparr>encodingName := Some (decl_val enc u KW_encoding a), declEncoding := Some (named_encoding ns enc (at_val a)),
          standalone := Some (at_val c = KW_yes)\<rparr>)"
proof -
  define t where "t = opt_text KW_standalone s @ ws"
  define b where "b = enc_text enc (u @ att_text KW_encoding a @ t)"
  have b1: "b = enc_text enc ((u @ att_start KW_encoding a) @ at_val a @ at_quote a # t)" by (simp add: b_def att_text_def)
  have v: "list_all value_byte (at_val a)" using assms(1) by (simp add: att_ok_def)
  have 1: "XmlNameMatchesAscii enc (take (pos (u @ at_space a @ KW_encoding)) b) (pos (u @ at_space a)) KW_encoding = Some True"
    unfolding b_def using attribute_name by simp
  obtain c w where w: "at_val a = c # w" using assms(2) by (cases "at_val a") auto
  have 2: "toAscii enc b (pos (u @ att_start KW_encoding a)) = Some (uint c)"
    using read_text [of "at_val a @ at_quote a # t" "u @ att_start KW_encoding a"] w v value_byte_ascii [of c]
    by (simp add: b1 code_def del: length_append)
  have l: "(0x61 \<le> uint c \<and> uint c \<le> 0x7A) \<or> (0x41 \<le> uint c \<and> uint c \<le> 0x5A)"
    using assms(3) w by (auto simp: letter_def word_le_def)
  have e: "pos (u @ att_text KW_encoding a) - MINBPC enc = pos ((u @ att_start KW_encoding a) @ at_val a)"
    by (simp add: att_text_def algebra_simps)
  have 3: "findEncoding ns enc b (pos (u @ att_start KW_encoding a)) (pos (u @ att_text KW_encoding a) - MINBPC enc)
      = Some (named_encoding ns enc (at_val a))"
  proof (rule findEncoding_text)
    have "list_all (\<lambda>x. value_char (uint x)) (at_val a)" using v by (simp add: value_byte_def [abs_def])
    then show "ascii_bytes (at_val a)" "0 \<notin> set (at_val a)" using value_ascii by blast+
    have "take (pos ((u @ att_start KW_encoding a) @ at_val a)) b = enc_text enc ((u @ att_start KW_encoding a) @ at_val a)"
      using take_text [of "(u @ att_start KW_encoding a) @ at_val a" "at_quote a # t"] by (simp add: b1)
    then show "drop (pos (u @ att_start KW_encoding a)) (take (pos (u @ att_text KW_encoding a) - MINBPC enc) b) = enc_text enc (at_val a)"
      using drop_text [of "u @ att_start KW_encoding a" "at_val a"] unfolding e by simp
    show "pos (u @ att_start KW_encoding a) \<le> pos (u @ att_text KW_encoding a) - MINBPC enc" unfolding e by simp
    show "pos (u @ att_text KW_encoding a) - MINBPC enc \<le> length b" unfolding e b1 by (simp add: algebra_simps)
  qed
  have 4: "case s of None \<Rightarrow> parsePseudoAttribute enc b (pos (u @ att_text KW_encoding a)) = Some No_attribute
    | Some a' \<Rightarrow> \<exists>nm ne v nx. parsePseudoAttribute enc b (pos (u @ att_text KW_encoding a)) = Some (Attribute nm ne v nx) \<and>
        XmlNameMatchesAscii enc (take ne b) nm KW_encoding = Some False \<and>
        (\<forall>d. parse_standalone g enc b nm ne v nx d = Some (None, d\<lparr>standalone := Some (at_val a' = KW_yes)\<rparr>))"
    using opt_standalone_text [OF assms(4-6), of "u @ att_text KW_encoding a"] by (simp only: b_def t_def append_assoc)
  show ?thesis
    unfolding t_def [symmetric] b_def [symmetric] parse_encoding_def min_bytes' 1 2 3 decl_val_def using l 4
    by (auto simp: Let_def split: option.splits)
qed

lemma rest_text:
  fixes u :: "byte list" and e s :: "att option" and ws :: "byte list"
  defines "b \<equiv> enc_text enc (u @ opt_text KW_encoding e @ opt_text KW_standalone s @ ws)"
  assumes "case e of None \<Rightarrow> True | Some a \<Rightarrow> att_ok a \<and> at_val a \<noteq> [] \<and> letter (hd (at_val a))"
    and "case s of None \<Rightarrow> True | Some a \<Rightarrow> att_ok a \<and> (at_val a = KW_yes \<or> at_val a = KW_no)"
    and "list_all space_byte ws" "g \<longrightarrow> s = None"
  shows "if e = None \<and> s = None then parsePseudoAttribute enc b (pos u) = Some No_attribute
    else \<exists>nm ne v nx. parsePseudoAttribute enc b (pos u) = Some (Attribute nm ne v nx) \<and>
      (e \<noteq> None \<longrightarrow> XmlNameMatchesAscii enc (take ne b) nm KW_version = Some False) \<and>
      (\<forall>vp ve. parse_encoding ns g enc b nm ne v nx (decl_vals ns enc u None None vp ve) =
        Some (None, decl_vals ns enc u e s vp ve))"
proof (cases e)
  case None
  then show ?thesis
    using opt_standalone_text [OF assms(3-5), of u]
    by (auto simp: b_def opt_text_def [of _ None] parse_encoding_def decl_vals_def split: option.splits)
next
  case (Some a)
  have kw: "list_all name_byte KW_encoding" "KW_encoding \<noteq> []" "KW_encoding \<noteq> KW_version"
    by (simp_all add: KW_version_def KW_encoding_def ascii_def name_byte_def space_byte_def isSpace_def)
  have a: "att_ok a" "at_val a \<noteq> []" "letter (hd (at_val a))" using assms(2) Some by auto
  define t where "t = opt_text KW_standalone s @ ws"
  have b: "b = enc_text enc (u @ att_text KW_encoding a @ t)" by (simp add: b_def Some opt_text_def t_def)
  have 1: "parsePseudoAttribute enc b (pos u) = Some (Attribute (pos (u @ at_space a)) (pos (u @ at_space a @ KW_encoding))
      (pos (u @ att_start KW_encoding a)) (pos (u @ att_text KW_encoding a)))"
    unfolding b by (rule attribute_text [OF a(1) kw(1,2)])
  have 2: "XmlNameMatchesAscii enc (take (pos (u @ at_space a @ KW_encoding)) b) (pos (u @ at_space a)) KW_version = Some False"
    unfolding b using attribute_name [of u a KW_encoding t] kw(3) by simp
  have 3: "parse_encoding ns g enc b (pos (u @ at_space a)) (pos (u @ at_space a @ KW_encoding))
      (pos (u @ att_start KW_encoding a)) (pos (u @ att_text KW_encoding a)) (decl_vals ns enc u None None vp ve) =
    Some (None, decl_vals ns enc u e s vp ve)" for vp ve
    using encoding_text [OF a assms(3-5), of ns u]
    by (simp add: b t_def Some decl_vals_def del: length_append split: option.splits)
  show ?thesis using 1 2 3 Some by (simp del: length_append)
qed

lemma body_text: "take (length (enc_text enc (x @ ascii ''?>'')) - 2 * MINBPC enc) (enc_text enc (x @ ascii ''?>'')) = enc_text enc x"
  using take_text [of x "ascii ''?>''"] by (simp add: ascii_def algebra_simps)

lemma start_text:
  fixes v e s :: "att option" and ws u :: "byte list"
  defines "u \<equiv> ascii ''<?xml''"
  defines "b \<equiv> enc_text enc (u @ opt_text KW_version v @ opt_text KW_encoding e @ opt_text KW_standalone s @ ws)"
  shows "take (length (enc_text enc (decl_text v e s ws)) - 2 * MINBPC enc) (enc_text enc (decl_text v e s ws)) = b"
    and "0 + 5 * MINBPC enc = pos u"
  using body_text [of "u @ opt_text KW_version v @ opt_text KW_encoding e @ opt_text KW_standalone s @ ws"]
  by (simp_all add: decl_text_def u_def b_def ascii_def)

lemma no_decl_vals: "no_decl = decl_vals ns enc u None None None None"
    "no_decl\<lparr>versionPtr := p, versionEndPtr := q\<rparr> = decl_vals ns enc u None None p q"
  by (simp_all add: no_decl_def decl_vals_def)

lemma no_version_text:
  assumes "decl_spec g None e s ws"
  shows "doParseXmlDecl ns g enc (enc_text enc (decl_text None e s ws)) 0 = Some (None, decl_read ns enc None e s)"
proof -
  define u where "u = ascii ''<?xml''"
  define b where "b = enc_text enc (u @ opt_text KW_encoding e @ opt_text KW_standalone s @ ws)"
  note sp = assms [unfolded decl_spec_def]
  have g: "g" "e \<noteq> None" "g \<longrightarrow> s = None" using sp by (auto split: if_splits)
  from rest_text [of e s ws g u ns] sp g obtain nm ne w nx where
    p: "parsePseudoAttribute enc b (pos u) = Some (Attribute nm ne w nx)"
      "XmlNameMatchesAscii enc (take ne b) nm KW_version = Some False"
      "\<And>vp ve. parse_encoding ns g enc b nm ne w nx (decl_vals ns enc u None None vp ve) = Some (None, decl_vals ns enc u e s vp ve)"
    by (auto simp: b_def)
  have st: "take (length (enc_text enc (decl_text None e s ws)) - 2 * MINBPC enc) (enc_text enc (decl_text None e s ws)) = b"
    using start_text(1) [of None e s ws] by (simp add: b_def u_def opt_text_def [of _ None])
  have "decl_read ns enc None e s = decl_vals ns enc u e s None None" by (simp add: decl_read_def u_def opt_text_def)
  then show ?thesis using p g(1)
    unfolding doParseXmlDecl_def Let_def min_bytes' st start_text(2) u_def [symmetric] no_decl_vals(1) [of ns u] by simp
qed

lemma version_text:
  assumes "decl_spec g (Some a) e s ws"
  shows "doParseXmlDecl ns g enc (enc_text enc (decl_text (Some a) e s ws)) 0 = Some (None, decl_read ns enc (Some a) e s)"
proof -
  define u where "u = ascii ''<?xml''"
  define t where "t = opt_text KW_encoding e @ opt_text KW_standalone s @ ws"
  define b where "b = enc_text enc (u @ att_text KW_version a @ t)"
  note sp = assms [unfolded decl_spec_def]
  have g: "g \<longrightarrow> s = None" using sp by auto
  have kw: "list_all name_byte KW_version" "KW_version \<noteq> []"
    by (simp_all add: KW_version_def ascii_def name_byte_def space_byte_def isSpace_def)
  have a: "att_ok a" using sp by auto
  have 1: "parsePseudoAttribute enc b (pos u) = Some (Attribute (pos (u @ at_space a)) (pos (u @ at_space a @ KW_version))
      (pos (u @ att_start KW_version a)) (pos (u @ att_text KW_version a)))"
    unfolding b_def by (rule attribute_text [OF a kw])
  have 2: "XmlNameMatchesAscii enc (take (pos (u @ at_space a @ KW_version)) b) (pos (u @ at_space a)) KW_version = Some True"
    unfolding b_def using attribute_name [of u a KW_version t] by simp
  define x where "x = u @ att_text KW_version a"
  have 3: "if e = None \<and> s = None then parsePseudoAttribute enc b (pos x) = Some No_attribute
    else \<exists>nm ne w nx. parsePseudoAttribute enc b (pos x) = Some (Attribute nm ne w nx) \<and>
      (\<forall>vp ve. parse_encoding ns g enc b nm ne w nx (decl_vals ns enc x None None vp ve) = Some (None, decl_vals ns enc x e s vp ve))"
    using rest_text [of e s ws g x ns] sp g by (auto simp: b_def t_def x_def simp del: length_append split: if_splits)
  have st: "take (length (enc_text enc (decl_text (Some a) e s ws)) - 2 * MINBPC enc) (enc_text enc (decl_text (Some a) e s ws)) = b"
    using start_text(1) [of "Some a" e s ws] by (simp add: b_def u_def t_def opt_text_def [of _ "Some a"])
  have r: "decl_read ns enc (Some a) e s = decl_vals ns enc x e s (Some (pos (u @ att_start KW_version a))) (Some (pos x))"
    by (simp add: decl_read_def u_def x_def decl_val_def decl_next_def opt_text_def)
  have eg: "\<not> (g \<and> e = None \<and> s = None)" using sp by auto
  show ?thesis
    unfolding doParseXmlDecl_def Let_def min_bytes' st start_text(2) u_def [symmetric] no_decl_vals(2) [of _ _ ns x]
      1 2 bind.simps pseudo.case r x_def [symmetric] using 3 eg
    by (cases "e = None \<and> s = None") (auto simp del: length_append)
qed

lemma declaration_text:
  assumes "decl_spec g v e s ws"
  shows "doParseXmlDecl ns g enc (enc_text enc (decl_text v e s ws)) 0 = Some (None, decl_read ns enc v e s)"
  using assms no_version_text [of g e s ws ns] version_text [of g _ e s ws ns] by (cases v) simp_all

end

text \<open>C16: declarations round-trip: an \<open>XMLDecl\<close> (or, for a text entity, a \<open>TextDecl\<close>) written according
  to the grammar in any built-in encoding, with any white space, quotes and values, is accepted by
  \<open>XmlParseXmlDecl\<close>, which finds exactly the version, the encoding's name, the encoding that name
  stands for and the standalone flag that were written.\<close>

theorem xml_decl_roundtrip:
  assumes "enc \<in> set (builtin_encodings ns')" and "decl_spec g v e s ws"
  shows "XmlParseXmlDecl ns g enc (enc_text enc (decl_text v e s ws)) 0 = Some (None, decl_read ns enc v e s)"
  unfolding XmlParseXmlDecl_def
  by (rule text_reader.declaration_text [OF builtin_text_reader [OF assms(1)] assms(2)])

theorem xml_decl_roundtrip_witness:
  "let v = \<lparr>at_space = [0x20], at_eq1 = [], at_eq2 = [], at_quote = 0x22, at_val = ascii ''1.0''\<rparr>;
       e = \<lparr>at_space = [0x20], at_eq1 = [], at_eq2 = [], at_quote = 0x27, at_val = ascii ''utf-8''\<rparr>;
       s = \<lparr>at_space = [0x0A], at_eq1 = [0x20], at_eq2 = [], at_quote = 0x22, at_val = ascii ''no''\<rparr>
   in XmlParseXmlDecl True False (utf8_encoding True)
        (ascii ''<?xml version=\"1.0\" encoding='' @ [0x27] @ ascii ''utf-8'' @ [0x27, 0x0A] @ ascii ''standalone =\"no\" ?>'') 0
      = Some (None, \<lparr>versionPtr = Some 15, versionEndPtr = Some 19, encodingName = Some 30,
          declEncoding = Some (Some (utf8_encoding True)), standalone = Some False\<rparr>)"
  using xml_decl_roundtrip [of "utf8_encoding True" True False
    "Some \<lparr>at_space = [0x20], at_eq1 = [], at_eq2 = [], at_quote = 0x22, at_val = ascii ''1.0''\<rparr>"
    "Some \<lparr>at_space = [0x20], at_eq1 = [], at_eq2 = [], at_quote = 0x27, at_val = ascii ''utf-8''\<rparr>"
    "Some \<lparr>at_space = [0x0A], at_eq1 = [0x20], at_eq2 = [], at_quote = 0x22, at_val = ascii ''no''\<rparr>" "[0x20]" True]
  by (simp add: builtin_encodings_def decl_spec_def att_ok_def space_byte_def isSpace_def value_byte_def value_char_def
      letter_def KW_yes_def KW_no_def ascii_def decl_text_def opt_text_def att_text_def att_start_def KW_version_def
      KW_encoding_def KW_standalone_def enc_text_def enc_char_def utf8_encoding_def decl_read_def decl_vals_def
      decl_val_def decl_next_def named_encoding_def named_encodings_def upcase_def MINBPC_def)

end
