(* ===== verification/Xml_Unknown_Props.thy ===== *)
theory Xml_Unknown_Props
  imports Xml_Unknown Xml_Pool_Props Xml_Tok_Safety
begin

text \<open>
  What holds of an encoding the client describes, whatever its table and its converter are: the scanners
  are as safe with it as with the built-in encodings, and its texts are converted character by character.
\<close>

section \<open>The entries\<close>

lemma unknown_entries_nth:
  "unknown_entries k table = Some es \<Longrightarrow> length es = length table \<and>
     (\<forall>i < length table. unknown_entry_of (table ! i) (k + i) = Some (es ! i))"
proof (induction k table arbitrary: es rule: unknown_entries.induct)
  case (2 k c cs)
  then obtain e es' where e: "unknown_entry_of c k = Some e" "unknown_entries (k + 1) cs = Some es'" "es = e # es'"
    by (auto simp: bind_eq_Some_iff)
  with 2(1) [OF e(1,2)] show ?case by (auto simp: nth_Cons split: nat.split)
qed simp

lemma latin1_type_no_lead: "i < 256 \<Longrightarrow> lead_len (latin1_type i) = 0"
  using ascii_tabs_no_lead(1,3) by (auto simp: latin1_encoding_def nth_append list_all_length)

lemma entry_lead:
  assumes "unknown_entry_of c i = Some e"
  shows "lead_len (ue_type e) = (if c < -1 then nat (- c) else 0)"
  using assms latin1_type_no_lead [of "nat c"]
  by (auto simp: unknown_entry_of_def Let_def unknown_lead_def lead_len_def split: if_splits)

lemma encode_length: "0 \<le> c \<Longrightarrow> c \<le> 0xFFFF \<Longrightarrow> 1 \<le> length (XmlUtf8Encode c) \<and> length (XmlUtf8Encode c) \<le> 3"
  by (simp add: XmlUtf8Encode_def)

lemma entry_char:
  assumes "unknown_entry_of c i = Some e" "0 \<le> c" "c < 0x80 \<or> 0 \<le> checkCharRefNumber c"
  shows "ue_utf8 e = word_of_nat (length (XmlUtf8Encode c)) # XmlUtf8Encode c \<and> c \<le> 0xFFFF"
  using assms by (auto simp: unknown_entry_of_def Let_def XmlUtf8Encode_def split: if_splits)

lemma entry_sequence:
  assumes "unknown_entry_of c i = Some e" "c < -1"
  shows "ue_utf8 e = [0]"
  using assms by (auto simp: unknown_entry_of_def split: if_splits)

section \<open>Scanners\<close>

text \<open>What the client has to keep to: a converter may be missing if no byte starts a sequence.\<close>

definition client_ok :: "int list \<Rightarrow> CONVERTER option \<Rightarrow> bool" where
  "client_ok table conv \<longleftrightarrow> conv \<noteq> None \<or> list_all (\<lambda>c. -1 \<le> c) table"

lemma init_unknown_Some:
  assumes "init_unknown ns table conv = Some e"
  obtains es where "unknown_entries 0 table = Some es" "ascii_kept table" "prefix (normal e) = Normal"
    "minBytesPerChar (normal e) = 1"
    "type_tab (normal e) = (if ns then (map ue_type es)[0x3A := BT_COLON] else map ue_type es)"
    "isName (normal e) = unknown_tests unknown_isName conv" "isNmstrt (normal e) = unknown_tests unknown_isNmstrt conv"
    "isInvalid (normal e) = unknown_tests unknown_isInvalid conv"
    "utf8Convert (normal e) = Unknown_toUtf8 (unknown_toUtf8 (map ue_type es) (map ue_utf8 es) conv)"
  using assms that by (auto simp: init_unknown_def XmlInitUnknownEncodingNS_def XmlInitUnknownEncoding_def Let_def
      bind_eq_Some_iff latin1_encoding_def split: if_splits)

lemma unknown_scanner_encoding:
  assumes "init_unknown ns table conv = Some e" "length table = 256" "client_ok table conv"
  shows "scanner_encoding (normal e)"
proof -
  from assms(1) obtain es where es: "unknown_entries 0 table = Some es" "prefix (normal e) = Normal"
    "type_tab (normal e) = (if ns then (map ue_type es)[0x3A := BT_COLON] else map ue_type es)"
    "isName (normal e) = unknown_tests unknown_isName conv" "isNmstrt (normal e) = unknown_tests unknown_isNmstrt conv"
    "isInvalid (normal e) = unknown_tests unknown_isInvalid conv" by (rule init_unknown_Some)
  note nth = unknown_entries_nth [OF es(1)]
  show ?thesis
  proof
    show "length (type_tab (normal e)) = 256" using nth assms(2) es(3) by simp
    fix t
    assume "t \<in> set (type_tab (normal e))"
    then have "t = BT_COLON \<or> t \<in> set (map ue_type es)" using es(3) set_update_subset_insert [of "map ue_type es" "0x3A" BT_COLON] by (cases ns) auto
    moreover assume lead: "lead_len t \<noteq> 0"
    ultimately obtain i where i: "i < length table" "t = ue_type (es ! i)"
      using nth by (auto simp: lead_len_def in_set_conv_nth)
    then have "table ! i < -1" "lead_len t = 2 \<or> lead_len t = 3 \<or> lead_len t = 4"
      using entry_lead [of "table ! i" i "es ! i"] nth lead by (auto simp: lead_len_def split: if_splits)
    moreover from this obtain f where "conv = Some f"
      using assms(3) i(1) by (auto simp: client_ok_def list_all_length)
    ultimately show "isName (normal e) (lead_len t) \<noteq> None \<and> isNmstrt (normal e) (lead_len t) \<noteq> None \<and>
        isInvalid (normal e) (lead_len t) \<noteq> None"
      using es(4-6) by (auto simp: unknown_tests_def)
  qed (simp add: es(2))
qed

section \<open>Conversion\<close>

text \<open>Texts in the encoding and the characters they stand for.\<close>

inductive unknown_text :: "int list \<Rightarrow> CONVERTER option \<Rightarrow> byte list \<Rightarrow> int list \<Rightarrow> bool" for table conv where
  Nil: "unknown_text table conv [] []"
| Single: "\<lbrakk>table ! unat c = x; 0 \<le> x; x < 0x80 \<or> 0 \<le> checkCharRefNumber x; unknown_text table conv src cs\<rbrakk> \<Longrightarrow>
    unknown_text table conv (c # src) (x # cs)"
| Sequence: "\<lbrakk>conv = Some f; table ! unat c = - int (length (c # p)); p \<noteq> []; \<not> unknown_isInvalid f (c # p);
    unknown_text table conv src cs\<rbrakk> \<Longrightarrow> unknown_text table conv (c # p @ src) (f (c # p) # cs)"

inductive_cases unknown_text_NilE: "unknown_text table conv [] cs"

lemma low_16: "c AND NOT 0xFFFF = (0 :: int) \<longleftrightarrow> 0 \<le> c \<and> c < 0x10000"
proof -
  have m: "(0xFFFF :: int) = mask 16" by (simp add: mask_eq_exp_minus_1)
  have "c AND NOT (mask 16) = push_bit 16 (drop_bit 16 c)"
    by (rule bit_eqI) (auto simp: bit_simps possible_bit_def)
  then have "c AND NOT (mask 16) = 0 \<longleftrightarrow> c div 65536 = 0"
    by (simp only: push_bit_eq_mult drop_bit_eq_div) simp
  moreover have "c div 65536 = 0 \<longleftrightarrow> 0 \<le> c \<and> c < 0x10000" by (auto simp: zdiv_eq_0_iff)
  ultimately show ?thesis unfolding m by (simp only:)
qed

lemma valid_range: "\<not> unknown_isInvalid f p \<Longrightarrow> 0 \<le> f p \<and> f p \<le> 0xFFFF"
  using low_16 [of "f p"] by (auto simp: unknown_isInvalid_def Let_def)

text \<open>The number of characters read, \<open>k\<close>, is as large as the room allows.\<close>

definition read_prefix ::
  "int list \<Rightarrow> CONVERTER option \<Rightarrow> byte list \<Rightarrow> int list \<Rightarrow> nat \<Rightarrow> nat \<times> byte list \<Rightarrow> nat \<Rightarrow> bool" where
  "read_prefix table conv src cs room r k \<longleftrightarrow> k \<le> length cs \<and> fst r \<le> length src \<and> snd r = utf8_of (take k cs) \<and>
     length (snd r) \<le> room \<and> length (snd r) \<le> 3 * fst r \<and> unknown_text table conv (drop (fst r) src) (drop k cs) \<and>
     (if k = length cs then fst r = length src else room < length (utf8_of (take (Suc k) cs)))"

lemma read_prefix_none:
  "unknown_text table conv src (x # cs) \<Longrightarrow> room < length (XmlUtf8Encode x) \<Longrightarrow>
     read_prefix table conv src (x # cs) room (0, []) 0"
  by (simp add: read_prefix_def)

lemma read_prefix_more:
  assumes "read_prefix table conv src cs (room - length (XmlUtf8Encode x)) (n, out) k"
    and "length (XmlUtf8Encode x) \<le> room" "length (XmlUtf8Encode x) \<le> 3 * length p"
  shows "read_prefix table conv (p @ src) (x # cs) room (length p + n, XmlUtf8Encode x @ out) (Suc k)"
  using assms by (auto simp: read_prefix_def split: if_splits)

lemma unknown_toUtf8_reads:
  assumes "unknown_entries 0 table = Some es" "length table = 256" "unknown_text table conv src cs"
  shows "\<exists>r k. unknown_toUtf8 (map ue_type es) (map ue_utf8 es) conv src room = Some r \<and>
    read_prefix table conv src cs room r k"
  using assms(3)
proof (induction arbitrary: room rule: unknown_text.induct)
  case Nil
  show ?case by (subst unknown_toUtf8.simps) (simp add: read_prefix_def unknown_text.Nil)
next
  case (Single c x src cs)
  have nth: "length es = 256" "unknown_entry_of x (unat c) = Some (es ! unat c)"
    using unknown_entries_nth [OF assms(1)] assms(2) byte_less_256 [of c] Single.hyps(1) by auto
  note e = entry_char [OF nth(2) Single.hyps(2,3)]
  note len = encode_length [OF Single.hyps(2)]
  have tab: "map ue_utf8 es ! unat c = word_of_nat (length (XmlUtf8Encode x)) # XmlUtf8Encode x"
    using nth(1) byte_less_256 [of c] e by simp
  have n: "unat (word_of_nat (length (XmlUtf8Encode x)) :: byte) = length (XmlUtf8Encode x)"
      "(word_of_nat (length (XmlUtf8Encode x)) :: byte) \<noteq> 0"
    using len e by (auto simp: unat_of_nat word_of_nat_eq_0_iff dest: dvd_imp_le)
  obtain r k where ih: "unknown_toUtf8 (map ue_type es) (map ue_utf8 es) conv src (room - length (XmlUtf8Encode x)) = Some r"
      "read_prefix table conv src cs (room - length (XmlUtf8Encode x)) r k" using Single.IH by blast
  show ?case
  proof (cases "room < length (XmlUtf8Encode x)")
    case True
    then have "unknown_toUtf8 (map ue_type es) (map ue_utf8 es) conv (c # src) room = Some (0, [])"
      using tab n by (subst unknown_toUtf8.simps) simp
    then show ?thesis using read_prefix_none [OF unknown_text.Single [OF Single.hyps] True] by blast
  next
    case False
    then have "unknown_toUtf8 (map ue_type es) (map ue_utf8 es) conv (c # src) room = Some (1 + fst r, XmlUtf8Encode x @ snd r)"
      using tab n ih(1) by (subst unknown_toUtf8.simps) (simp add: split_beta)
    moreover have "read_prefix table conv ([c] @ src) (x # cs) room (length [c] + fst r, XmlUtf8Encode x @ snd r) (Suc k)"
      by (rule read_prefix_more) (use ih(2) False len e in auto)
    ultimately show ?thesis by auto
  qed
next
  case (Sequence f c p src cs)
  have nth: "length es = 256" "unknown_entry_of (table ! unat c) (unat c) = Some (es ! unat c)"
    using unknown_entries_nth [OF assms(1)] assms(2) byte_less_256 [of c] by auto
  have neg: "table ! unat c < -1" using Sequence.hyps(2,3) by (cases p) auto
  let ?x = "f (c # p)"
  note len = encode_length [OF conjunct1 conjunct2, OF valid_range valid_range, OF Sequence.hyps(4) Sequence.hyps(4)]
  have tab: "map ue_utf8 es ! unat c = [0]" "lead_len (map ue_type es ! unat c) = length (c # p)"
    using nth byte_less_256 [of c] entry_sequence [OF nth(2) neg] entry_lead [OF nth(2)] neg Sequence.hyps(2) by auto
  have ne: "XmlUtf8Encode ?x \<noteq> []" using len by auto
  obtain r k where ih: "unknown_toUtf8 (map ue_type es) (map ue_utf8 es) conv src (room - length (XmlUtf8Encode ?x)) = Some r"
      "read_prefix table conv src cs (room - length (XmlUtf8Encode ?x)) r k" using Sequence.IH by blast
  show ?case
  proof (cases "room < length (XmlUtf8Encode ?x)")
    case True
    then have "unknown_toUtf8 (map ue_type es) (map ue_utf8 es) conv (c # p @ src) room = Some (0, [])"
      using tab Sequence.hyps(1) by (subst unknown_toUtf8.simps) (simp add: Let_def)
    then show ?thesis using read_prefix_none [OF unknown_text.Sequence [OF Sequence.hyps] True] by blast
  next
    case False
    then have "unknown_toUtf8 (map ue_type es) (map ue_utf8 es) conv (c # p @ src) room =
        Some (length (c # p) + fst r, XmlUtf8Encode ?x @ snd r)"
      using tab ne ih(1) Sequence.hyps(1) by (subst unknown_toUtf8.simps) (simp add: Let_def split_beta)
    moreover have "read_prefix table conv ((c # p) @ src) (?x # cs) room (length (c # p) + fst r, XmlUtf8Encode ?x @ snd r) (Suc k)"
      by (rule read_prefix_more) (use ih(2) False len in auto)
    ultimately show ?thesis by auto
  qed
qed

lemma XmlUtf8Convert_reads:
  assumes "init_unknown ns table conv = Some e" "length table = 256" "unknown_text table conv src cs"
  shows "\<exists>r k. XmlUtf8Convert (normal e) src room = Some r \<and> read_prefix table conv src cs room r k"
proof -
  from assms(1) obtain es where "unknown_entries 0 table = Some es"
    "utf8Convert (normal e) = Unknown_toUtf8 (unknown_toUtf8 (map ue_type es) (map ue_utf8 es) conv)"
    by (rule init_unknown_Some)
  then show ?thesis using unknown_toUtf8_reads [OF _ assms(2,3)] by simp
qed

lemma unknown_text_converter:
  assumes "init_unknown ns table conv = Some e" "length table = 256"
  shows "text_converter (normal e) (\<lambda>src t. \<exists>cs. unknown_text table conv src cs \<and> t = utf8_of cs)"
proof
  fix src t room
  assume "\<exists>cs. unknown_text table conv src cs \<and> t = utf8_of cs"
  then obtain cs where cs: "unknown_text table conv src cs" "t = utf8_of cs" by blast
  obtain n out k where c: "XmlUtf8Convert (normal e) src room = Some (n, out)" "read_prefix table conv src cs room (n, out) k"
    using XmlUtf8Convert_reads [OF assms cs(1), of room] by auto
  have split: "utf8_of cs = utf8_of (take k cs) @ utf8_of (drop k cs)"
    by (metis append_take_drop_id utf8_of_append)
  have "n = length src" if "3 * length src \<le> room"
  proof (rule ccontr)
    assume "n \<noteq> length src"
    then have k: "room < length (utf8_of (take (Suc k) cs))" using c(2) by (auto simp: read_prefix_def split: if_splits)
    have "length (utf8_of (take (Suc k) cs)) \<le> length (utf8_of cs)"
      by (metis append_take_drop_id utf8_of_append length_append le_add1)
    moreover have "length (utf8_of cs) \<le> 3 * length src"
      using cs(1)
    proof induction
      case (Single c x src cs)
      then show ?case using encode_length [of x] byte_less_256 [of c] assms
        by (auto elim!: init_unknown_Some dest!: unknown_entries_nth entry_char [rotated])
    next
      case (Sequence f c p src cs)
      then show ?case using encode_length [of "f (c # p)"] valid_range [of f "c # p"] by auto
    qed simp
    ultimately show False using k that by linarith
  qed
  then show "\<exists>n out t'. XmlUtf8Convert (normal e) src room = Some (n, out) \<and> n \<le> length src \<and> length out \<le> room \<and>
      length out \<le> 3 * n \<and> t = out @ t' \<and> (\<exists>cs. unknown_text table conv (drop n src) cs \<and> t' = utf8_of cs) \<and>
      (3 * length src \<le> room \<longrightarrow> n = length src)"
    using c cs(2) split by (auto simp: read_prefix_def simp del: XmlUtf8Convert.simps)
qed (auto elim: unknown_text_NilE)

text \<open>C18: an encoding the client describes is as safe as a built-in one: for every table of 256 entries that
  the parser accepts and every conversion function, which may be missing if no entry announces a
  sequence, \<open>contentTok\<close> and \<open>prologTok\<close> return on any buffer at any offset inside it, no byte at or after
  \<open>end\<close> is read and no missing test is called.\<close>

theorem unknown_scanners_total:
  assumes "init_unknown ns table conv = Some e" and "length table = 256" and "client_ok table conv" and "ptr \<le> length b"
  shows "(\<exists>r. contentTok (normal e) b ptr = Some r \<and> tok_ok b ptr r) \<and>
    (\<exists>r. prologTok (normal e) b ptr = Some r \<and> (tok_ok b ptr r \<or> r = (XML_TOK_INSTANCE_START, Some ptr) \<or>
       r = (- XML_TOK_PROLOG_S, Some (length (trim_end (normal e) b ptr)))))"
  using scanner_encoding.contentTok_safe [OF unknown_scanner_encoding [OF assms(1-3)] assms(4)]
    scanner_encoding.prologTok_safe [OF unknown_scanner_encoding [OF assms(1-3)] assms(4)]
  by (simp add: returns_def)

text \<open>A table for the witnesses: Latin-1 with sequences of two bytes that start with \<open>0x80\<close>.\<close>

definition some_table :: "int list" where
  "some_table = (map int [0..<256])[128 := -2]"

definition some_convert :: CONVERTER where
  "some_convert p = 0x100 + uint (p ! 1)"

lemma some_table_length: "length some_table = 256"
  by (simp add: some_table_def)

lemma some_table_accepted: "init_unknown True some_table (Some some_convert) \<noteq> None"
proof -
  have "init_unknown True some_table (Some (\<lambda>_. 0)) \<noteq> None" by code_simp
  then show ?thesis by (auto simp: init_unknown_def XmlInitUnknownEncodingNS_def XmlInitUnknownEncoding_def Let_def
      bind_eq_None_conv split: if_splits)
qed

theorem unknown_scanners_total_witness:
  "\<exists>e. init_unknown True some_table (Some some_convert) = Some e \<and>
     (\<exists>r. contentTok (normal e) [0x3C, 0x80] 0 = Some r \<and> tok_ok [0x3C, 0x80] 0 r)"
proof -
  obtain e where "init_unknown True some_table (Some some_convert) = Some e" using some_table_accepted by blast
  with unknown_scanners_total [OF this some_table_length, of 0 "[0x3C, 0x80]"] show ?thesis by (auto simp: client_ok_def)
qed

text \<open>C19: the text of an encoding the client describes is converted character by character: for an accepted
  table and any text made of its characters and of sequences that the conversion function takes for
  characters, \<open>XmlUtf8Convert\<close> writes the UTF-8 of the first \<open>k\<close> of them and stops after the last of their
  bytes, never writes more than there is room for, and \<open>k\<close> is as large as the room allows.\<close>

theorem unknown_toUtf8_correct:
  assumes "init_unknown ns table conv = Some e" and "length table = 256" and "unknown_text table conv src cs"
  shows "\<exists>k n. XmlUtf8Convert (normal e) src room = Some (n, utf8_of (take k cs)) \<and> k \<le> length cs \<and>
    n \<le> length src \<and> unknown_text table conv (drop n src) (drop k cs) \<and> length (utf8_of (take k cs)) \<le> room \<and>
    (if k = length cs then n = length src else room < length (utf8_of (take (Suc k) cs)))"
proof -
  obtain n out k where "XmlUtf8Convert (normal e) src room = Some (n, out)" "read_prefix table conv src cs room (n, out) k"
    using XmlUtf8Convert_reads [OF assms, of room] by (metis surj_pair)
  then show ?thesis
    by - (rule exI [of _ k], rule exI [of _ n], auto simp: read_prefix_def simp del: XmlUtf8Convert.simps)
qed

theorem unknown_toUtf8_correct_witness:
  "\<exists>e k n. init_unknown True some_table (Some some_convert) = Some e \<and>
     XmlUtf8Convert (normal e) [0x41, 0x80, 0x41] 3 = Some (n, utf8_of (take k [0x41, 0x141])) \<and> k \<le> 2"
proof -
  obtain e where e: "init_unknown True some_table (Some some_convert) = Some e" using some_table_accepted by blast
  have t: "some_table ! unat (0x41 :: byte) = 0x41" "some_table ! unat (0x80 :: byte) = -2" "some_table ! 65 = 65" "some_table ! 128 = -2"
    by (simp_all add: some_table_def)
  have "\<not> unknown_isInvalid some_convert (0x80 # [0x41])" by (simp add: unknown_isInvalid_def some_convert_def checkCharRefNumber_def Let_def)
  then have "unknown_text some_table (Some some_convert) (0x80 # [0x41] @ []) [some_convert (0x80 # [0x41])]"
    by (intro unknown_text.Sequence unknown_text.Nil) (simp_all add: t)
  then have "unknown_text some_table (Some some_convert) [0x80, 0x41] [0x141]" by (simp add: some_convert_def)
  then have "unknown_text some_table (Some some_convert) [0x41, 0x80, 0x41] [0x41, 0x141]"
    by (rule unknown_text.Single [rotated 3]) (simp_all add: t)
  from unknown_toUtf8_correct [OF e some_table_length this, of 3] e show ?thesis
    by (auto simp del: XmlUtf8Convert.simps)
qed

section \<open>Latin-1 as the client would describe it\<close>

abbreviation latin1_table :: "int list" where
  "latin1_table \<equiv> map int [0..<256]"

text \<open>The built-in table has three name characters, the ordinal indicators and the micro sign, that the
  grammar of names, and with it \<open>nmstrtPages\<close>, does not have.\<close>

abbreviation plain_latin1 :: "bool \<Rightarrow> bt list" where
  "plain_latin1 ns \<equiv> (type_tab (latin1_encoding ns))[0xAA := BT_OTHER, 0xB5 := BT_OTHER, 0xBA := BT_OTHER]"

lemma latin1_entries: "map_option (map ue_type) (unknown_entries 0 latin1_table) = Some (plain_latin1 False)"
  by code_simp

lemma latin1_colon: "(plain_latin1 False)[0x3A := BT_COLON] = plain_latin1 True"
  by code_simp

lemma latin1_check: "c < 0x80 \<or> 0 \<le> checkCharRefNumber (uint (c :: byte))"
proof (rule disjCI)
  assume a: "\<not> 0 \<le> checkCharRefNumber (uint c)"
  have "list_all (\<lambda>i. 0 \<le> checkCharRefNumber (int i)) [128..<256]" by code_simp
  then have "\<forall>i. 128 \<le> i \<and> i < 256 \<longrightarrow> 0 \<le> checkCharRefNumber (int i)" unfolding list_all_iff set_upt by auto
  then have "\<not> 128 \<le> unat c" using a byte_less_256 [of c] by (metis uint_nat)
  then show "c < 0x80" by (simp add: word_less_nat_alt)
qed

lemma latin1_entry_utf8:
  assumes "unknown_entries 0 latin1_table = Some es"
  shows "map ue_utf8 es ! unat c = word_of_nat (length (XmlUtf8Encode (uint c))) # XmlUtf8Encode (uint (c :: byte))"
proof -
  have c: "unat c < 256" by (rule byte_less_256)
  then have "length es = 256" "unknown_entry_of (uint c) (unat c) = Some (es ! unat c)"
    using unknown_entries_nth [OF assms] by auto
  then show ?thesis using entry_char [of "uint c"] latin1_check [of c] c by (auto simp: word_less_def)
qed

lemma latin1_convert:
  assumes "unknown_entries 0 latin1_table = Some es"
  shows "unknown_toUtf8 types (map ue_utf8 es) conv src room = Some (latin1_toUtf8 src room)"
proof (induction src arbitrary: room)
  case Nil
  show ?case by (subst unknown_toUtf8.simps) simp
next
  case (Cons c src)
  show ?case
    by (subst unknown_toUtf8.simps) (simp add: latin1_entry_utf8 [OF assms] latin1_char Cons split_beta)
qed

lemma init_unknown_latin1:
  "\<exists>e. init_unknown ns latin1_table conv = Some e \<and>
     (\<forall>src room. XmlUtf8Convert (normal e) src room = XmlUtf8Convert (latin1_encoding ns) src room) \<and>
     type_tab (normal e) = plain_latin1 ns"
proof -
  obtain es where es: "unknown_entries 0 latin1_table = Some es" "map ue_type es = plain_latin1 False"
    using latin1_entries by auto
  have "ascii_kept latin1_table" by (simp add: ascii_kept_def list_all_iff)
  then show ?thesis using es latin1_convert [OF es(1)] latin1_colon
    by (cases ns) (simp_all add: init_unknown_def XmlInitUnknownEncodingNS_def XmlInitUnknownEncoding_def Let_def
        latin1_encoding_def)
qed

text \<open>C21: the client's encodings agree with the built-in ones: an encoding whose table maps every byte to
  itself is accepted, and its converter gives the results of the built-in ISO-8859-1 on every text and
  with any room. The byte types are those of ISO-8859-1 too, but for three bytes: the built-in table takes
  \<open>AA\<close>, \<open>B5\<close> and \<open>BA\<close> for the start of a name, which they are not for an encoding of the client, nor in
  UTF-8.\<close>

theorem unknown_latin1:
  "\<exists>e. init_unknown ns latin1_table conv = Some e \<and>
     (\<forall>src room. XmlUtf8Convert (normal e) src room = XmlUtf8Convert (latin1_encoding ns) src room) \<and>
     type_tab (normal e) = (type_tab (latin1_encoding ns))[0xAA := BT_OTHER, 0xB5 := BT_OTHER, 0xBA := BT_OTHER] \<and>
     list_all (\<lambda>i. type_tab (latin1_encoding ns) ! i = BT_NMSTRT \<and>
       \<not> utf8_isNmstrt2 (XmlUtf8Encode (int i)) \<and> \<not> utf8_isName2 (XmlUtf8Encode (int i))) [0xAA, 0xB5, 0xBA]"
proof -
  have "list_all (\<lambda>i. type_tab (latin1_encoding ns) ! i = BT_NMSTRT \<and>
      \<not> utf8_isNmstrt2 (XmlUtf8Encode (int i)) \<and> \<not> utf8_isName2 (XmlUtf8Encode (int i))) [0xAA, 0xB5, 0xBA]"
    by (cases ns; simp only:) code_simp+
  then show ?thesis using init_unknown_latin1 [of ns conv] by (elim exE conjE) (intro exI conjI)
qed

end
