(* ===== verification/Xml_Setup_Props.thy ===== *)
theory Xml_Setup_Props
  imports Xml_Setup Xml_Decl_Text Xml_Unknown_Props Xml_Pool_Runs
begin

text \<open>
  A declaration has its effect: what \<open>processXmlDecl\<close> tells the client and which encoding the parser goes
  on with are what the declaration says; and the default handler gets the text of a token in pieces that
  add up.
\<close>

section \<open>Text in pieces\<close>

fun piece_ok :: "setup_event \<Rightarrow> bool" where
  "piece_ok (DefaultHandler out ep ee) \<longleftrightarrow> length out \<le> INIT_DATA_BUF_SIZE"
| "piece_ok _ \<longleftrightarrow> False"

text \<open>A converter that always gets on when there is room for a character.\<close>

locale progressing_converter = text_converter +
  assumes progress: "\<lbrakk>reads src t; src \<noteq> []; 4 \<le> room; XmlUtf8Convert enc src room = Some (n, out)\<rbrakk> \<Longrightarrow> 0 < n"
begin

lemma report_loop_text:
  assumes "reads (drop s b) t" "s \<le> length b"
  shows "\<exists>evs. report_loop enc b s ep = Some (evs, length b) \<and> concat (map ev_data evs) = t \<and> list_all piece_ok evs"
  using assms
proof (induction "length b - s" arbitrary: s t ep rule: less_induct)
  case less
  obtain n out t' where c: "XmlUtf8Convert enc (drop s b) INIT_DATA_BUF_SIZE = Some (n, out)"
      "n \<le> length (drop s b)" "length out \<le> INIT_DATA_BUF_SIZE" "t = out @ t'" "reads (drop n (drop s b)) t'"
    using conv_step [OF less.prems(1), of INIT_DATA_BUF_SIZE] by (elim exE conjE)
  show ?case
  proof (cases "s + n = length b")
    case True
    then have "t' = []" using c(5) reads_Nil [of t'] by simp
    then show ?thesis using c(1,3,4) True by (subst report_loop.simps) (simp add: Let_def del: XmlUtf8Convert.simps)
  next
    case False
    then have "drop s b \<noteq> []" using c(2) less.prems(2) by auto
    then have "0 < n" using progress [OF less.prems(1) _ _ c(1)] by (simp add: INIT_DATA_BUF_SIZE_def)
    then have "length b - (s + n) < length b - s" "s + n \<le> length b" using c(2) less.prems(2) False by auto
    from less.hyps [OF this(1) _ this(2), of t' "Some (s + n)"] c(5) obtain evs where
      "report_loop enc b (s + n) (Some (s + n)) = Some (evs, length b)" "concat (map ev_data evs) = t'" "list_all piece_ok evs"
      by (auto simp: add.commute)
    then show ?thesis using c(1,3,4) False by (subst report_loop.simps) (simp del: XmlUtf8Convert.simps)
  qed
qed

end

section \<open>Strings\<close>

text \<open>Reading ASCII text is converting it.\<close>

sublocale text_reader \<subseteq> ascii: progressing_converter enc "\<lambda>src t. ascii_bytes t \<and> src = enc_text enc t"
proof
  fix src t room
  assume "ascii_bytes t \<and> src = enc_text enc t"
  then have t: "ascii_bytes t" "src = enc_text enc t" by auto
  let ?n = "min (length t) room"
  have len: "length src = length t * MINBPC enc" by (simp add: t(2))
  have "ascii_bytes (drop room t)" using t(1) by (auto simp: list_all_iff dest: in_set_dropD)
  moreover have "drop (?n * MINBPC enc) src = enc_text enc (drop room t)"
    using drop_text [of "take room t" "drop room t"] t(2) by (simp add: min.commute)
  moreover have "length t \<le> room" if "3 * length src \<le> room"
    using that len MINBPC_pos [of enc] by (cases "MINBPC enc") auto
  moreover have "?n \<le> 3 * (?n * MINBPC enc)" using MINBPC_pos [of enc] by (cases "MINBPC enc") auto
  ultimately show "\<exists>n out t'. XmlUtf8Convert enc src room = Some (n, out) \<and> n \<le> length src \<and> length out \<le> room \<and>
      length out \<le> 3 * n \<and> t = out @ t' \<and> (ascii_bytes t' \<and> drop n src = enc_text enc t') \<and>
      (3 * length src \<le> room \<longrightarrow> n = length src)"
    using convert_ascii [OF t(1), of room] len
    by (intro exI [of _ "?n * MINBPC enc"] exI [of _ "take room t"] exI [of _ "drop room t"])
      (auto simp: t(2) min_def simp del: XmlUtf8Convert.simps)
next
  show "t = []" if "ascii_bytes t \<and> [] = enc_text enc t" for t using that by (cases t) auto
next
  fix src t room n out
  assume "ascii_bytes t \<and> src = enc_text enc t" "src \<noteq> []" "4 \<le> (room :: nat)" "XmlUtf8Convert enc src room = Some (n, out)"
  then show "0 < n" using convert_ascii [of t room] by (cases t) (auto simp del: XmlUtf8Convert.simps)
qed

lemma unknown_progressing_converter:
  assumes "init_unknown ns table conv = Some e" "length table = 256"
  shows "progressing_converter (normal e) (\<lambda>src t. \<exists>cs. unknown_text table conv src cs \<and> t = utf8_of cs)"
proof (rule progressing_converter.intro [OF unknown_text_converter [OF assms]], unfold_locales)
  fix src t room n out
  assume c: "\<exists>cs. unknown_text table conv src cs \<and> t = utf8_of cs" "src \<noteq> []" "4 \<le> (room :: nat)"
    "XmlUtf8Convert (normal e) src room = Some (n, out)"
  then obtain cs where cs: "unknown_text table conv src cs" by blast
  obtain k where k: "read_prefix table conv src cs room (n, out) k"
    using XmlUtf8Convert_reads [OF assms cs, of room] c(4) by auto
  show "0 < n"
  proof (rule ccontr)
    assume "\<not> 0 < n"
    then have "k < length cs" "out = []" using k c(2) by (auto simp: read_prefix_def split: if_splits)
    then have u: "room < length (utf8_of (take (Suc k) cs))" "utf8_of (take k cs) = []" using k by (auto simp: read_prefix_def)
    then have "room < length (XmlUtf8Encode (cs ! k))" using \<open>k < length cs\<close> by (simp add: take_Suc_conv_app_nth utf8_of_append)
    then show False using c(3) by (simp add: XmlUtf8Encode_def split: if_splits)
  qed
qed

lemma reads_c_string:
  assumes "reads heap q (w @ [0])" "0 \<notin> set w"
  shows "c_string heap q = Some w"
proof -
  obtain b where b: "heap (fst q) = Some b" "snd q + length (w @ [0]) \<le> length (bl_s b)"
      "take (length (w @ [0])) (drop (snd q) (bl_s b)) = map Some (w @ [0])"
    using assms(1) by (cases q) (auto simp: reads_iff)
  then have d: "drop (snd q) (bl_s b) = map Some w @ Some 0 # drop (length (w @ [0])) (drop (snd q) (bl_s b))"
    using append_take_drop_id [of "length (w @ [0])" "drop (snd q) (bl_s b)"] by simp
  moreover have "takeWhile (\<lambda>c. c \<noteq> Some 0) (map Some w @ Some 0 # x) = map Some w" for x
    using assms(2) by (subst takeWhile_append2) auto
  ultimately have "takeWhile (\<lambda>c. c \<noteq> Some 0) (drop (snd q) (bl_s b)) = map Some w" by simp
  then show ?thesis using b(1,2) by (auto simp: c_string_def Let_def o_def)
qed

section \<open>Names of encodings in the text\<close>

lemma byte_type_text:
  assumes "c < 0x80"
  shows "BYTE_TYPE enc (enc_text enc (u @ c # r)) (length u * MINBPC enc) = Some (type_tab enc ! unat c)"
proof -
  have "enc_text enc (u @ c # r) = enc_text enc u @ enc_char enc c @ enc_text enc r" by (simp add: enc_text_def)
  moreover have "BYTE_TYPE enc (pre @ enc_char enc c @ post) (length pre) = Some (type_tab enc ! unat c)" for pre post
    by (cases "prefix enc") (simp_all add: BYTE_TYPE_def MINBPC_def enc_char_def nth_append SB_BYTE_TYPE_def
        LITTLE2_BYTE_TYPE_def BIG2_BYTE_TYPE_def)
  ultimately show ?thesis by (metis length_enc_text)
qed

text \<open>The built-in tables on the bytes of a value and on quotes.\<close>

lemma list_all_enumerate: "list_all (\<lambda>(i, x). P i x) (enumerate 0 xs) \<longleftrightarrow> (\<forall>i<length xs. P i (xs ! i))"
  by (auto simp: list_all_iff in_set_enumerate_eq)

lemma builtin_ascii_types:
  assumes "enc \<in> set (builtin_encodings ns)"
  shows "value_byte c \<Longrightarrow> name_type (type_tab enc ! unat c) \<and> lead_len (type_tab enc ! unat c) = 0"
    and "c = 0x22 \<or> c = 0x27 \<Longrightarrow> \<not> name_type (type_tab enc ! unat c) \<and> lead_len (type_tab enc ! unat c) = 0"
proof -
  let ?fit = "\<lambda>i t. (value_char (int i) \<longrightarrow> name_type t \<and> lead_len t = 0) \<and>
      (i = 0x22 \<or> i = 0x27 \<longrightarrow> \<not> name_type t \<and> lead_len t = 0)"
  let ?ok = "\<lambda>t i. ?fit i (t ! i)"
  have "list_all (\<lambda>(i, t). ?fit i t) (enumerate 0 asciitab)" "list_all (\<lambda>(i, t). ?fit i t) (enumerate 0 iasciitab)"
    by code_simp+
  then have tabs: "\<forall>i<128. ?ok asciitab i" "\<forall>i<128. ?ok iasciitab i" unfolding list_all_enumerate by simp_all
  have colon: "lead_len (colon_tab ns tab ! i) = lead_len (tab ! i) \<and> name_type (colon_tab ns tab ! i) = name_type (tab ! i)"
    if "i < length tab" for i tab using that by (auto simp: colon_tab_def lead_len_def name_type_def)
  have "take 128 (type_tab enc) = colon_tab ns asciitab \<or> take 128 (type_tab enc) = colon_tab ns iasciitab"
    using assms by (auto simp: builtin_encodings_def encoding_defs)
  then obtain tab where tab: "tab = asciitab \<or> tab = iasciitab" "take 128 (type_tab enc) = colon_tab ns tab" by blast
  have ok: "?ok (type_tab enc) i" if "i < 128" for i
  proof -
    have "type_tab enc ! i = colon_tab ns tab ! i" using that tab(2) by (metis nth_take)
    moreover have "i < length tab" using that tab(1) by auto
    ultimately show ?thesis using colon [of i tab] tabs that tab(1) by metis
  qed
  show "name_type (type_tab enc ! unat c) \<and> lead_len (type_tab enc ! unat c) = 0" if "value_byte c"
    using ok [of "unat c"] value_byte_ascii [OF that] that by (simp add: value_byte_def word_less_nat_alt)
  show "\<not> name_type (type_tab enc ! unat c) \<and> lead_len (type_tab enc ! unat c) = 0" if "c = 0x22 \<or> c = 0x27"
    using ok [of "unat c"] that by auto
qed

lemma value_nameLength:
  assumes "enc \<in> set (builtin_encodings ns)" "list_all value_byte v" "q = 0x22 \<or> q = 0x27"
  shows "nameLength enc (enc_text enc (u @ v @ q # r)) (length u * MINBPC enc) = Some (length v * MINBPC enc)"
proof -
  have "nameLength_loop enc (enc_text enc (u @ v @ q # r)) (length u * MINBPC enc) = Some (length (u @ v) * MINBPC enc)"
    using assms(2)
  proof (induction v arbitrary: u)
    case Nil
    have "q < 0x80" using assms(3) by auto
    from byte_type_text [OF this, of enc u r] builtin_ascii_types(2) [OF assms(1,3)] show ?case
      by (subst nameLength_loop.simps) simp
  next
    case (Cons c v)
    have c: "value_byte c" "c < 0x80" using Cons.prems value_byte_ascii by auto
    from builtin_ascii_types(1) [OF assms(1) c(1)] have "char_len enc (type_tab enc ! unat c) = MINBPC enc"
      by (auto simp: char_len_def)
    then show ?case
      using byte_type_text [OF c(2), of enc u "v @ q # r"] builtin_ascii_types(1) [OF assms(1) c(1)]
        Cons.IH [of "u @ [c]"] Cons.prems
      by (subst nameLength_loop.simps) (simp add: add.commute)
  qed
  then show ?thesis by (simp add: nameLength_def algebra_simps)
qed

section \<open>What is reported to the client\<close>

definition pool_ready ::
  "('m \<Rightarrow> address set) \<Rightarrow> address set \<Rightarrow> 'm enc_parser \<Rightarrow> (ptr \<times> byte list) set \<Rightarrow> 'm \<Rightarrow> bool" where
  "pool_ready live rest p F m \<longleftrightarrow> pool_suite live (sp_mem (su_temp2Pool p)) \<and> pool_inv (su_temp2Pool p) [] F \<and>
     pool_holds live rest (su_temp2Pool p) m"

lemma pool_string_finished:
  assumes "pool_inv q u F" "(x, w @ [0]) \<in> F" "0 \<notin> set w"
  shows "pool_string (p\<lparr>su_temp2Pool := q\<rparr>) (Some x) = Some (Some w)"
  using reads_c_string [of "sp_heap q" x w] pool_inv_finished(2) [OF assms(1), of "fst x" "snd x"] assms(2,3)
  by (simp add: pool_string_def)

lemma pool_string_start:
  assumes "pool_inv q (w @ [0]) F" "sp_start q = Some x" "0 \<notin> set w"
  shows "pool_string (p\<lparr>su_temp2Pool := q\<rparr>) (Some x) = Some (Some w)"
proof -
  have "reads (sp_heap q) x (w @ [0])"
    using pool_inv_start [OF assms(1), of "fst x" "snd x"] assms(2) by (metis prod.collapse)
  then show ?thesis using reads_c_string assms(3) by (simp add: pool_string_def)
qed

text \<open>Nothing but the pool and the event pointers has changed.\<close>

definition same_setup :: "'m enc_parser \<Rightarrow> 'm enc_parser \<Rightarrow> bool" where
  "same_setup p q \<longleftrightarrow> su_ns q = su_ns p \<and> su_mem q = su_mem p \<and> su_encoding q = su_encoding p \<and>
     su_protocolEncodingName q = su_protocolEncodingName p \<and> su_standalone q = su_standalone p \<and>
     su_unknownEncodingHandler q = su_unknownEncodingHandler p"

text \<open>What the client is reported: the strings of the declaration, or its text \<open>w\<close>, or nothing.\<close>

definition reported ::
  "'m enc_parser \<Rightarrow> byte list option \<Rightarrow> byte list option \<Rightarrow> int \<Rightarrow> byte list \<Rightarrow> setup_event list \<Rightarrow> bool" where
  "reported p v e n w evs \<longleftrightarrow>
     (if su_xmlDeclHandler p then evs = [XmlDeclHandler v e n]
      else if su_defaultHandler p then list_all is_DefaultHandler evs \<and> concat (map ev_data evs) = w
      else evs = [])"

text \<open>What a name that is not known comes to, and what a declaration comes to: the result, and the new
  encoding if there is one.\<close>

definition unknown_outcome :: "'m enc_parser \<Rightarrow> byte list \<Rightarrow> XML_Error \<times> encoding option" where
  "unknown_outcome p w =
     (case su_unknownEncodingHandler p of
        None \<Rightarrow> (XML_ERROR_UNKNOWN_ENCODING, None)
      | Some h \<Rightarrow>
          (case (fst (h w), init_unknown (su_ns p) (info_map (snd (h w))) (info_convert (snd (h w)))) of
             (True, Some u) \<Rightarrow> (XML_ERROR_NONE, Some (normal u))
           | _ \<Rightarrow> (XML_ERROR_UNKNOWN_ENCODING, None)))"

definition decl_outcome :: "'m enc_parser \<Rightarrow> encoding \<Rightarrow> byte list option \<Rightarrow> XML_Error \<times> encoding option" where
  "decl_outcome p enc e =
     (case (su_protocolEncodingName p, e) of
        (None, Some w) \<Rightarrow>
          (case named_encoding (su_ns p) enc w of
             None \<Rightarrow> unknown_outcome p w
           | Some ne \<Rightarrow> if MINBPC ne = MINBPC enc then (XML_ERROR_NONE, Some ne) else (XML_ERROR_INCORRECT_ENCODING, None))
      | _ \<Rightarrow> (XML_ERROR_NONE, None))"

text \<open>The strings a declaration has in the text: \<open>v\<close> and \<open>e\<close>.\<close>

definition decl_strings :: "encoding \<Rightarrow> byte list \<Rightarrow> xml_decl \<Rightarrow> byte list option \<Rightarrow> byte list option \<Rightarrow> bool" where
  "decl_strings enc b d v e \<longleftrightarrow>
     (case encodingName d of None \<Rightarrow> e = None
      | Some q \<Rightarrow> \<exists>n w. e = Some w \<and> nameLength enc b q = Some n \<and> take n (drop q b) = enc_text enc w \<and>
          ascii_bytes w \<and> 0 \<notin> set w) \<and>
     (case versionPtr d of None \<Rightarrow> v = None
      | Some q \<Rightarrow> \<exists>x w. v = Some w \<and> versionEndPtr d = Some x \<and>
          drop q (take (x - minBytesPerChar enc) b) = enc_text enc w \<and> ascii_bytes w \<and> 0 \<notin> set w)"

context text_reader
begin

lemma store_temp2_text:
  assumes "pool_ready live rest p F m" "ascii_bytes w"
  shows "\<exists>q r m1. store_temp2 enc (enc_text enc w) p m = Some (p\<lparr>su_temp2Pool := q\<rparr>, r, m1) \<and>
    (\<forall>x. r = Some x \<longrightarrow> sp_start q = Some x \<and> pool_suite live (sp_mem q) \<and> pool_inv q (w @ [0]) F \<and> pool_holds live rest q m1)"
proof -
  obtain q r m1 where q: "poolStoreString enc (enc_text enc w) (su_temp2Pool p) m = Some (q, r, m1)"
      "r \<noteq> None \<longrightarrow> r = sp_start q" "appended live rest (su_temp2Pool p) F ([] @ w @ [0]) (q, r \<noteq> None, m1)"
    using ascii.store_ok [of w "enc_text enc w" live "su_temp2Pool p" "[]" F rest m] assms by (auto simp: pool_ready_def)
  then show ?thesis using assms(1) by (auto simp: store_temp2_def pool_ready_def appended_def safe_def kept_def)
qed

lemma store_name_text:
  assumes "pool_ready live rest p F m" "nameLength enc b k = Some n" "take n (drop k b) = enc_text enc w" "ascii_bytes w"
  shows "\<exists>q r m1. store_name enc b k p m = Some (p\<lparr>su_temp2Pool := q\<rparr>, r, m1) \<and>
    (\<forall>x. r = Some x \<longrightarrow> sp_start q = Some x \<and> pool_suite live (sp_mem q) \<and> pool_inv q (w @ [0]) F \<and> pool_holds live rest q m1)"
  using store_temp2_text [OF assms(1,4)] assms(2,3) by (simp add: store_name_def)

lemma finish_ready:
  assumes "sp_start q = Some x" "pool_suite live (sp_mem q)" "pool_inv q (w @ [0]) F" "pool_holds live rest q m1"
  shows "pool_ready live rest (p\<lparr>su_temp2Pool := poolFinish q\<rparr>) (insert (x, w @ [0]) F) m1"
  using pool_inv_Finish [OF assms(3)] assms(1,2,4) by (simp add: pool_ready_def finish_def poolFinish_def pool_holds_def)

lemma store_encName_text:
  assumes "pool_ready live rest p F m" "decl_strings enc b d v e"
  shows "\<exists>q ok r m1. store_encName enc b d p m = Some (p\<lparr>su_temp2Pool := q\<rparr>, ok, r, m1) \<and>
    (ok \<longrightarrow> (\<exists>F'. pool_ready live rest (p\<lparr>su_temp2Pool := q\<rparr>) F' m1 \<and>
      (case e of None \<Rightarrow> r = None | Some w \<Rightarrow> 0 \<notin> set w \<and> (\<exists>x. r = Some x \<and> (x, w @ [0]) \<in> F'))))"
proof (cases "encodingName d")
  case None
  then have "e = None" using assms(2) by (simp add: decl_strings_def)
  moreover have "p\<lparr>su_temp2Pool := su_temp2Pool p\<rparr> = p" by simp
  ultimately show ?thesis using None assms(1)
    by (intro exI [of _ "su_temp2Pool p"] exI [of _ True] exI [of _ None] exI [of _ m]) (auto simp: store_encName_def)
next
  case (Some k)
  then obtain n w where w: "e = Some w" "nameLength enc b k = Some n" "take n (drop k b) = enc_text enc w"
      "ascii_bytes w" "0 \<notin> set w" using assms(2) by (auto simp: decl_strings_def)
  obtain q r m1 where q: "store_name enc b k p m = Some (p\<lparr>su_temp2Pool := q\<rparr>, r, m1)"
      "\<forall>x. r = Some x \<longrightarrow> sp_start q = Some x \<and> pool_suite live (sp_mem q) \<and> pool_inv q (w @ [0]) F \<and> pool_holds live rest q m1"
    using store_name_text [OF assms(1) w(2-4)] by (elim exE conjE)
  show ?thesis
  proof (cases r)
    case None
    then show ?thesis using q(1) Some by (auto simp: store_encName_def)
  next
    case (Some y)
    then have "pool_ready live rest (p\<lparr>su_temp2Pool := poolFinish q\<rparr>) (insert (y, w @ [0]) F) m1"
      by (intro finish_ready) (use q(2) in auto)
    then show ?thesis using q(1) Some \<open>encodingName d = Some k\<close> w(1,5)
      by (intro exI [of _ "poolFinish q"] exI [of _ True] exI [of _ r] exI [of _ m1]) (auto simp: store_encName_def)
  qed
qed

lemma store_version_text:
  assumes "pool_ready live rest p F m" "decl_strings enc b d v e"
  shows "\<exists>q ok r m1. store_version enc b d p m = Some (p\<lparr>su_temp2Pool := q\<rparr>, ok, r, m1) \<and>
    (ok \<longrightarrow> (\<exists>u. pool_inv q u F) \<and> pool_string (p\<lparr>su_temp2Pool := q\<rparr>) r = Some v)"
proof (cases "versionPtr d")
  case None
  then have "v = None" using assms(2) by (simp add: decl_strings_def)
  moreover have "p\<lparr>su_temp2Pool := su_temp2Pool p\<rparr> = p" by simp
  ultimately show ?thesis using None assms(1)
    by (intro exI [of _ "su_temp2Pool p"] exI [of _ True] exI [of _ None] exI [of _ m])
      (auto simp: store_version_def pool_string_def pool_ready_def)
next
  case (Some k)
  then obtain x w where w: "v = Some w" "versionEndPtr d = Some x" "drop k (take (x - minBytesPerChar enc) b) = enc_text enc w"
      "ascii_bytes w" "0 \<notin> set w" using assms(2) by (auto simp: decl_strings_def)
  obtain q r m1 where q: "store_temp2 enc (enc_text enc w) p m = Some (p\<lparr>su_temp2Pool := q\<rparr>, r, m1)"
      "\<forall>x. r = Some x \<longrightarrow> sp_start q = Some x \<and> pool_suite live (sp_mem q) \<and> pool_inv q (w @ [0]) F \<and> pool_holds live rest q m1"
    using store_temp2_text [OF assms(1) w(4)] by (elim exE conjE)
  have "(\<exists>u. pool_inv q u F) \<and> pool_string (p\<lparr>su_temp2Pool := q\<rparr>) r = Some v" if "r \<noteq> None"
    using q(2) that pool_string_start [of q w F _ p] w(1,5) by auto
  then show ?thesis using w(2,3) q(1) Some
    by (intro exI [of _ q] exI [of _ "r \<noteq> None"] exI [of _ r] exI [of _ m1]) (simp add: store_version_def)
qed

lemma announce_text:
  assumes "pool_ready live rest p F m" "decl_strings enc b d v e"
  shows "\<exists>q out evs m1. announce_decl enc b d p m = Some (p\<lparr>su_temp2Pool := q\<rparr>, out, evs, m1) \<and>
    (case out of None \<Rightarrow> evs = []
     | Some (sE, sV) \<Rightarrow> evs = [XmlDeclHandler v e (standalone_num d)] \<and> pool_string (p\<lparr>su_temp2Pool := q\<rparr>) sE = Some e)"
proof -
  obtain q ok r m1 where q: "store_encName enc b d p m = Some (p\<lparr>su_temp2Pool := q\<rparr>, ok, r, m1)"
    "ok \<longrightarrow> (\<exists>F'. pool_ready live rest (p\<lparr>su_temp2Pool := q\<rparr>) F' m1 \<and>
      (case e of None \<Rightarrow> r = None | Some w \<Rightarrow> 0 \<notin> set w \<and> (\<exists>x. r = Some x \<and> (x, w @ [0]) \<in> F')))"
    using store_encName_text [OF assms] by (elim exE conjE)
  show ?thesis
  proof (cases ok)
    case False
    then show ?thesis using q(1) by (auto simp: announce_decl_def)
  next
    case True
    then obtain F' where F: "pool_ready live rest (p\<lparr>su_temp2Pool := q\<rparr>) F' m1"
      "case e of None \<Rightarrow> r = None | Some w \<Rightarrow> 0 \<notin> set w \<and> (\<exists>x. r = Some x \<and> (x, w @ [0]) \<in> F')" using q(2) by blast
    obtain q2 ok2 r2 m2 where v: "store_version enc b d (p\<lparr>su_temp2Pool := q\<rparr>) m1 = Some (p\<lparr>su_temp2Pool := q2\<rparr>, ok2, r2, m2)"
      "ok2 \<longrightarrow> (\<exists>u. pool_inv q2 u F') \<and> pool_string (p\<lparr>su_temp2Pool := q2\<rparr>) r2 = Some v"
      using store_version_text [OF F(1) assms(2)] by (elim exE conjE) simp
    have "pool_string (p\<lparr>su_temp2Pool := q2\<rparr>) r = Some e" if ok2
      using v(2) that F(2) pool_string_finished [of q2 _ F' _ _ p] by (cases e) (auto simp: pool_string_def [of _ None])
    then show ?thesis using q(1) v True
      by (intro exI [of _ q2]) (cases ok2; simp add: announce_decl_def)
  qed
qed

lemma report_decl_text:
  assumes "pool_ready live rest p F m" "decl_strings enc b d v e" "b = enc_text enc w" "ascii_bytes w"
    and "isUtf8 enc \<longrightarrow> b = w"
  shows "\<exists>q out evs m1. report_decl enc b 0 d p m = Some (q, out, evs, m1) \<and>
    same_setup p q \<and>
    (case out of None \<Rightarrow> True
     | Some (sE, sV) \<Rightarrow> reported p v e (standalone_num d) w evs \<and>
         (if sE = None then su_xmlDeclHandler p \<longrightarrow> e = None else pool_string q sE = Some e) \<and>
         (\<not> su_xmlDeclHandler p \<longrightarrow> pool_ready live rest q F m1))"
proof (cases "su_xmlDeclHandler p")
  case True
  obtain q out evs m1 where a: "announce_decl enc b d p m = Some (p\<lparr>su_temp2Pool := q\<rparr>, out, evs, m1)"
    "case out of None \<Rightarrow> evs = []
     | Some (sE, sV) \<Rightarrow> evs = [XmlDeclHandler v e (standalone_num d)] \<and> pool_string (p\<lparr>su_temp2Pool := q\<rparr>) sE = Some e"
    using announce_text [OF assms(1,2)] by (elim exE conjE)
  then show ?thesis using True
    by (cases out) (auto simp: report_decl_def reported_def same_setup_def pool_string_def [of _ None])
next
  case False
  obtain evs ep ee where r: "su_defaultHandler p \<longrightarrow>
      reportDefault enc b 0 (su_eventPtr p) (su_eventEndPtr p) = Some (evs, ep, ee) \<and> concat (map ev_data evs) = w \<and>
      list_all is_DefaultHandler evs"
  proof (cases "isUtf8 enc")
    case True
    show ?thesis by (rule that [of "[DefaultHandler b (su_eventPtr p) (su_eventEndPtr p)]" "su_eventPtr p" "su_eventEndPtr p"])
        (use True assms(5) in \<open>simp add: reportDefault_def\<close>)
  next
    case False
    obtain evs where evs: "report_loop enc b 0 (su_eventPtr p) = Some (evs, length b)" "concat (map ev_data evs) = w"
        "list_all piece_ok evs"
      using ascii.report_loop_text [where s = 0 and b = b and t = w and ep = "su_eventPtr p"] assms(3,4) by auto
    have "is_DefaultHandler x" if "piece_ok x" for x using that by (cases x) auto
    then have "list_all is_DefaultHandler evs" using evs(3) by (auto simp: list_all_iff)
    then show ?thesis by (intro that [of evs "Some (length b)" "Some (length b)"]) (use False evs in \<open>simp add: reportDefault_def\<close>)
  qed
  show ?thesis
  proof (cases "su_defaultHandler p")
    case True
    then show ?thesis using r False assms(1) by (auto simp: report_decl_def reported_def pool_ready_def same_setup_def)
  next
    case False
    note dflt = this \<open>\<not> su_xmlDeclHandler p\<close>
    show ?thesis using dflt assms(1) by (auto simp: report_decl_def reported_def same_setup_def)
  qed
qed

lemma use_unknown_text:
  assumes "if sE = None then pool_ready live rest p F m else pool_string p sE = Some (Some w)"
    and "nameLength enc b k = Some n" "take n (drop k b) = enc_text enc w" "ascii_bytes w" "0 \<notin> set w"
  shows "\<exists>r q evs m1. use_unknown enc b k sE p m = Some (r, q, evs, m1) \<and> su_standalone q = su_standalone p \<and>
    (r = XML_ERROR_NO_MEMORY \<or> (r, su_encoding q) = (case unknown_outcome p w of (r, ne) \<Rightarrow>
       (r, case ne of None \<Rightarrow> su_encoding p | Some ne \<Rightarrow> Inr ne)))"
proof -
  obtain p1 r1 m1 where s: "(if sE = None then store_name enc b k p m else Some (p, sE, m)) = Some (p1, r1, m1)"
      "same_setup p p1" "r1 \<noteq> None \<longrightarrow> pool_string p1 r1 = Some (Some w)"
  proof (cases sE)
    case None
    then have ready: "pool_ready live rest p F m" using assms(1) by simp
    obtain q r m1 where q: "store_name enc b k p m = Some (p\<lparr>su_temp2Pool := q\<rparr>, r, m1)"
      "\<forall>x. r = Some x \<longrightarrow> sp_start q = Some x \<and> pool_suite live (sp_mem q) \<and> pool_inv q (w @ [0]) F \<and> pool_holds live rest q m1"
      using store_name_text [OF ready assms(2-4)] by (elim exE conjE)
    have "r \<noteq> None \<longrightarrow> pool_string (p\<lparr>su_temp2Pool := q\<rparr>) r = Some (Some w)"
      using q(2) pool_string_start [of q w F _ p] assms(5) by auto
    then show ?thesis using that [of "p\<lparr>su_temp2Pool := q\<rparr>" r m1] q(1) None by (simp add: same_setup_def)
  next
    case (Some x)
    then show ?thesis using that [of p sE m] assms(1) by (simp add: same_setup_def)
  qed
  show ?thesis
  proof (cases r1)
    case None
    then show ?thesis using s by (simp add: use_unknown_def same_setup_def)
  next
    case (Some x)
    obtain r q evs m2 where h: "handleUnknownEncoding w p1 m1 = (r, q, evs, m2)" by (cases "handleUnknownEncoding w p1 m1") auto
    then have "su_standalone q = su_standalone p" "r = XML_ERROR_NO_MEMORY \<or> (r, su_encoding q) =
        (case unknown_outcome p w of (r, ne) \<Rightarrow> (r, case ne of None \<Rightarrow> su_encoding p | Some ne \<Rightarrow> Inr ne))"
      using s(2) by (auto simp: handleUnknownEncoding_def unknown_outcome_def same_setup_def Let_def
          split: option.splits prod.splits if_splits)
    then show ?thesis using s(1,3) h Some by (auto simp: use_unknown_def Let_def)
  qed
qed

lemma use_encoding_text:
  assumes "if sE = None then su_xmlDeclHandler p0 \<longrightarrow> e = None else pool_string p sE = Some e"
    and "\<not> su_xmlDeclHandler p0 \<longrightarrow> pool_ready live rest p F m" "decl_strings enc b d v e"
    and "declEncoding d = map_option (named_encoding (su_ns p) enc) e"
    and "\<forall>w ne. named_encoding (su_ns p) enc w = Some ne \<longrightarrow> minBytesPerChar ne = MINBPC ne"
  shows "\<exists>r q evs m1. use_encoding enc b d sE sV p m = Some (r, q, evs, m1) \<and> su_standalone q = su_standalone p \<and>
    (r = XML_ERROR_NO_MEMORY \<or> (r, su_encoding q) = (case decl_outcome p enc e of (r, ne) \<Rightarrow>
       (r, case ne of None \<Rightarrow> su_encoding p | Some ne \<Rightarrow> Inr ne)))"
proof (cases "su_protocolEncodingName p = None \<and> e \<noteq> None")
  case False
  then have "su_protocolEncodingName p \<noteq> None \<or> declEncoding d = None \<and> encodingName d = None"
    using assms(3,4) by (auto simp: decl_strings_def split: option.splits)
  then show ?thesis using False
    by (cases "su_protocolEncodingName p") (auto simp: use_encoding_def Let_def decl_outcome_def)
next
  case True
  then obtain w where w: "e = Some w" by auto
  then obtain k n where k: "encodingName d = Some k" "nameLength enc b k = Some n" "take n (drop k b) = enc_text enc w"
      "ascii_bytes w" "0 \<notin> set w" using assms(3) by (auto simp: decl_strings_def split: option.splits)
  show ?thesis
  proof (cases "named_encoding (su_ns p) enc w")
    case None
    have "if sE = None then pool_ready live rest p F m else pool_string p sE = Some (Some w)"
      using assms(1,2) w by (auto split: if_splits)
    from use_unknown_text [OF this k(2-5)] show ?thesis
      using True w k(1) None assms(4) by (simp add: use_encoding_def Let_def decl_outcome_def)
  next
    case (Some ne)
    then have "minBytesPerChar ne = MINBPC ne" using assms(5) by blast
    then show ?thesis using True w k(1) Some assms(4) min_bytes
      by (simp add: use_encoding_def Let_def decl_outcome_def)
  qed
qed

end

lemma builtin_min_bytes: "enc \<in> set (builtin_encodings ns) \<Longrightarrow> minBytesPerChar enc = MINBPC enc"
  by (rule text_reader.min_bytes [OF builtin_text_reader])

lemma named_encoding_min_bytes:
  assumes "minBytesPerChar enc = MINBPC enc" "named_encoding ns enc w = Some ne"
  shows "minBytesPerChar ne = MINBPC ne"
  using assms by (auto simp: named_encoding_def named_encodings_def encoding_defs MINBPC_def split: if_splits dest!: map_of_SomeD)

lemma value_no_zero: "list_all value_byte w \<Longrightarrow> ascii_bytes w \<and> 0 \<notin> set w"
  by (auto simp: list_all_iff value_byte_def value_char_def word_less_def)

section \<open>The declaration as text\<close>

lemma att_text_ascii:
  assumes "att_ok a" "ascii_bytes kw"
  shows "ascii_bytes (att_text kw a)"
proof -
  have "ascii_bytes x" if "list_all space_byte x" for x using that space_ascii by (auto simp: list_all_iff)
  moreover have "ascii_bytes (at_val a)" using assms(1) value_byte_ascii by (auto simp: att_ok_def list_all_iff)
  ultimately show ?thesis using assms by (auto simp: att_text_def att_start_def att_ok_def)
qed

lemma keywords_ascii: "ascii_bytes KW_version" "ascii_bytes KW_encoding" "ascii_bytes KW_standalone"
  by (simp_all add: KW_version_def KW_encoding_def KW_standalone_def ascii_def)

lemma decl_text_ascii:
  assumes "decl_spec g v e s ws"
  shows "ascii_bytes (decl_text v e s ws)"
proof -
  note sp = assms [unfolded decl_spec_def]
  have "ascii_bytes (opt_text kw a)" if "case a of None \<Rightarrow> True | Some a \<Rightarrow> att_ok a" "ascii_bytes kw" for kw a
    using that att_text_ascii by (auto simp: opt_text_def split: option.splits)
  then have "ascii_bytes (opt_text KW_version v)" "ascii_bytes (opt_text KW_encoding e)" "ascii_bytes (opt_text KW_standalone s)"
    using sp keywords_ascii by (auto split: option.splits)
  moreover have "ascii_bytes ws" using sp space_ascii by (auto simp: list_all_iff)
  ultimately show ?thesis by (simp add: decl_text_def ascii_def)
qed

lemma utf8_enc_text:
  assumes "enc \<in> set (builtin_encodings ns)" "isUtf8 enc"
  shows "enc_text enc w = w"
proof -
  have "prefix enc = Normal" using assms by (auto simp: builtin_encodings_def encoding_defs)
  then have "enc_char enc = (\<lambda>c. [c])" by (intro ext) (simp add: enc_char_def)
  then show ?thesis by (simp add: enc_text_def)
qed

context text_reader
begin

lemma decl_read_strings:
  assumes "enc \<in> set (builtin_encodings ns')" "decl_spec g v e s ws"
  shows "decl_strings enc (enc_text enc (decl_text v e s ws)) (decl_read ns enc v e s) (map_option at_val v) (map_option at_val e)"
proof -
  note sp = assms(2) [unfolded decl_spec_def]
  define u where "u = ascii ''<?xml''"
  have enc: "\<exists>n w. map_option at_val e = Some w \<and> nameLength enc (enc_text enc (decl_text v e s ws)) q = Some n \<and>
      take n (drop q (enc_text enc (decl_text v e s ws))) = enc_text enc w \<and> ascii_bytes w \<and> 0 \<notin> set w"
    if "encodingName (decl_read ns enc v e s) = Some q" for q
  proof -
    from that obtain a where a: "e = Some a" "q = pos (u @ opt_text KW_version v @ att_start KW_encoding a)"
      by (auto simp: decl_read_def decl_vals_def decl_val_def u_def Let_def)
    define t where "t = opt_text KW_standalone s @ ws @ ascii ''?>''"
    have b: "decl_text v e s ws = (u @ opt_text KW_version v @ att_start KW_encoding a) @ at_val a @ at_quote a # t"
      by (simp add: decl_text_def a(1) opt_text_def [of _ "Some a"] att_text_def u_def t_def)
    have ok: "list_all value_byte (at_val a)" "at_quote a = 0x22 \<or> at_quote a = 0x27" using sp a(1) by (auto simp: att_ok_def)
    show ?thesis
      using value_nameLength [OF assms(1) ok, of "u @ opt_text KW_version v @ att_start KW_encoding a" t]
        drop_text [of "u @ opt_text KW_version v @ att_start KW_encoding a" "at_val a @ at_quote a # t"]
        take_text [of "at_val a" "at_quote a # t"] value_no_zero [OF ok(1)]
      unfolding b a(2) by (simp add: a(1))
  qed
  have ver: "\<exists>x w. map_option at_val v = Some w \<and> versionEndPtr (decl_read ns enc v e s) = Some x \<and>
      drop q (take (x - minBytesPerChar enc) (enc_text enc (decl_text v e s ws))) = enc_text enc w \<and> ascii_bytes w \<and> 0 \<notin> set w"
    if "versionPtr (decl_read ns enc v e s) = Some q" for q
  proof -
    from that obtain a where a: "v = Some a" "q = pos (u @ att_start KW_version a)"
      by (auto simp: decl_read_def decl_vals_def decl_val_def u_def Let_def)
    define t where "t = opt_text KW_encoding e @ opt_text KW_standalone s @ ws @ ascii ''?>''"
    have b: "decl_text v e s ws = ((u @ att_start KW_version a) @ at_val a) @ at_quote a # t"
      by (simp add: decl_text_def a(1) opt_text_def [of _ "Some a"] att_text_def u_def t_def)
    have x: "versionEndPtr (decl_read ns enc v e s) = Some (pos (u @ att_text KW_version a))"
      by (simp add: decl_read_def decl_vals_def decl_next_def u_def a(1) Let_def)
    have e: "pos (u @ att_text KW_version a) - minBytesPerChar enc = pos ((u @ att_start KW_version a) @ at_val a)"
      by (simp add: att_text_def min_bytes algebra_simps)
    have "list_all value_byte (at_val a)" using sp a(1) by (auto simp: att_ok_def)
    moreover have "drop q (take (pos (u @ att_text KW_version a) - minBytesPerChar enc) (enc_text enc (decl_text v e s ws))) =
        enc_text enc (at_val a)"
      unfolding e b a(2) take_text drop_text ..
    ultimately show ?thesis using value_no_zero [of "at_val a"] x a(1) by simp
  qed
  show ?thesis unfolding decl_strings_def
    by (intro conjI; split option.split; intro conjI impI allI)
      (use enc ver in \<open>auto simp: decl_read_def decl_vals_def Let_def\<close>)
qed

end

section \<open>The effect of a declaration\<close>

definition says_standalone :: "bool \<Rightarrow> att option \<Rightarrow> bool" where
  "says_standalone g s \<longleftrightarrow> \<not> g \<and> (case s of None \<Rightarrow> False | Some a \<Rightarrow> at_val a = KW_yes)"

definition standalone_code :: "att option \<Rightarrow> int" where
  "standalone_code s = (case s of None \<Rightarrow> -1 | Some a \<Rightarrow> if at_val a = KW_yes then 1 else 0)"

lemma note_standalone_simps [simp]:
  "su_standalone (note_standalone g d p) = (su_standalone p \<or> \<not> g \<and> standalone_num d = 1)"
  "su_ns (note_standalone g d p) = su_ns p" "su_encoding (note_standalone g d p) = su_encoding p"
  "su_protocolEncodingName (note_standalone g d p) = su_protocolEncodingName p"
  "su_temp2Pool (note_standalone g d p) = su_temp2Pool p" "su_mem (note_standalone g d p) = su_mem p"
  "su_unknownEncodingHandler (note_standalone g d p) = su_unknownEncodingHandler p"
  "su_xmlDeclHandler (note_standalone g d p) = su_xmlDeclHandler p"
  "su_defaultHandler (note_standalone g d p) = su_defaultHandler p"
  by (auto simp: note_standalone_def Let_def)

lemma decl_read_codes:
  "standalone_num (decl_read ns enc v e s) = standalone_code s"
  "(\<not> g \<and> standalone_code s = 1) = says_standalone g s"
  "declEncoding (decl_read ns enc v e s) = map_option (named_encoding ns enc) (map_option at_val e)"
  by (auto simp: standalone_num_def standalone_code_def says_standalone_def decl_read_def decl_vals_def Let_def
      option.map_comp o_def split: option.splits)


text \<open>A parser for the witness: a document in UTF-8 that says it is in an encoding the client describes.\<close>

definition some_parser :: "arena enc_parser" where
  "some_parser = \<lparr>su_ns = False, su_mem = arena_suite, su_encoding = Inr (utf8_encoding False),
     su_protocolEncodingName = None, su_eventPtr = None, su_eventEndPtr = None, su_standalone = False,
     su_paramEntityParsing = XML_PARAM_ENTITY_PARSING_NEVER, su_temp2Pool = poolInit arena_suite,
     su_unknownEncodingMem = None, su_unknownEncodingRelease = False,
     su_unknownEncodingHandler = Some (\<lambda>w. (True, \<lparr>info_map = map int [0..<256], info_convert = None, info_release = False\<rparr>)),
     su_xmlDeclHandler = True, su_defaultHandler = False\<rparr>"

definition some_att :: "char list \<Rightarrow> att" where
  "some_att w = \<lparr>at_space = [0x20], at_eq1 = [], at_eq2 = [], at_quote = 0x22, at_val = ascii w\<rparr>"


text \<open>C20: the default handler gets a text whole: text in an encoding the client describes, of any length,
  reaches \<open>defaultHandler\<close> as UTF-8 in pieces that fit into the parser's buffer and add up to the text.\<close>

theorem default_text_whole:
  assumes "init_unknown ns table conv = Some e" and "length table = 256"
    and "unknown_text table conv (drop s b) cs" and "s \<le> length b"
  shows "\<exists>evs. reportDefault (normal e) b s ep ee = Some (evs, Some (length b), Some (length b)) \<and>
    concat (map ev_data evs) = utf8_of cs \<and> list_all (\<lambda>ev. is_DefaultHandler ev \<and> length (ev_data ev) \<le> INIT_DATA_BUF_SIZE) evs"
proof -
  note pc = unknown_progressing_converter [OF assms(1,2)]
  have n: "\<not> isUtf8 (normal e)"
    using assms(1) by (auto simp: init_unknown_def XmlInitUnknownEncodingNS_def XmlInitUnknownEncoding_def Let_def
        bind_eq_Some_iff latin1_encoding_def split: if_splits)
  have "\<exists>cs'. unknown_text table conv (drop s b) cs' \<and> utf8_of cs = utf8_of cs'" using assms(3) by blast
  from progressing_converter.report_loop_text [OF pc this assms(4), of ep] obtain evs where
    evs: "report_loop (normal e) b s ep = Some (evs, length b)" "concat (map ev_data evs) = utf8_of cs"
      "list_all piece_ok evs" by blast
  have "is_DefaultHandler ev \<and> length (ev_data ev) \<le> INIT_DATA_BUF_SIZE" if "piece_ok ev" for ev
    using that by (cases ev) simp_all
  then show ?thesis using evs n by (auto simp: reportDefault_def list_all_iff)
qed

theorem default_text_whole_witness:
  "\<exists>e evs. init_unknown False latin1_table None = Some e \<and>
     reportDefault (normal e) [0x3C, 0xE9, 0x3E] 1 None None = Some (evs, Some 3, Some 3) \<and>
     concat (map ev_data evs) = [0xC3, 0xA9, 0x3E]"
proof -
  obtain e where e: "init_unknown False latin1_table None = Some e" using init_unknown_latin1 by blast
  have "0 \<le> checkCharRefNumber 0xE9" using latin1_check [of "0xE9"] by (simp add: word_less_def)
  then have "unknown_text latin1_table None (drop 1 [0x3C, 0xE9, 0x3E]) [0xE9, 0x3E]"
    by (simp, intro unknown_text.Single unknown_text.Nil) simp_all
  from default_text_whole [OF e _ this, of None None] e show ?thesis by (auto simp: XmlUtf8Encode_def)
qed

end
