(* ===== verification/Xml_Value_Text.thy ===== *)
theory Xml_Value_Text
  imports Xml_Value Xml_Names_Correct Xml_Setup_Props
begin

text \<open>
  The texts of attribute values: how an abstract value, a list of items, is written in an encoding, and
  that \<open>attributeValueTok\<close> takes such a text apart into one token per item.
\<close>

section \<open>Conversion as a relation\<close>

definition converts :: "encoding \<Rightarrow> byte list \<Rightarrow> byte list \<Rightarrow> bool" where
  "converts enc src t \<longleftrightarrow> (\<exists>room. XmlUtf8Convert enc src room = Some (length src, t))"

lemma converts_utf8: "utf8Convert enc = Utf8_toUtf8 \<Longrightarrow> converts enc = (\<lambda>src t. t = src)"
proof (intro ext)
  fix src t
  assume e: "utf8Convert enc = Utf8_toUtf8"
  have "utf8_toUtf8 src (length src) = (length src, src)" by (simp add: utf8_toUtf8_def)
  moreover have "t = src" if "utf8_toUtf8 src room = (length src, t)" for room
    using that back_off_le [of src room] by (auto simp: utf8_toUtf8_def Let_def)
  ultimately show "converts enc src t = (t = src)" using e by (auto simp: converts_def)
qed

lemma converts_ascii: "utf8Convert enc = Ascii_toUtf8 \<Longrightarrow> converts enc = (\<lambda>src t. t = src)"
proof (intro ext)
  fix src t
  assume e: "utf8Convert enc = Ascii_toUtf8"
  have "ascii_toUtf8 src (length src) = (length src, src)" by (simp add: ascii_toUtf8_def Let_def)
  then show "converts enc src t = (t = src)" using e
    by (auto simp: converts_def ascii_toUtf8_def Let_def intro!: exI [of _ "length src"])
qed

lemma converts_latin1: "utf8Convert enc = Latin1_toUtf8 \<Longrightarrow> converts enc = (\<lambda>src t. t = utf8_of (map uint src))"
proof (intro ext)
  fix src t
  assume e: "utf8Convert enc = Latin1_toUtf8"
  have "t = utf8_of (map uint src)" if "latin1_toUtf8 src room = (length src, t)" for room
    using latin1_toUtf8_spec [OF that] by simp
  moreover obtain n out where c: "latin1_toUtf8 src (3 * length src) = (n, out)" by fastforce
  have "n = length src"
    using latin1_toUtf8_spec [OF c] latin1_length [of "take (Suc n) src"] by (cases "n < length src") auto
  ultimately show "converts enc src t = (t = utf8_of (map uint src))"
    using e c latin1_toUtf8_spec [OF c] by (auto simp: converts_def)
qed

text \<open>One character of UTF-16: \<open>k\<close> bytes read and \<open>ch\<close> written, if there is room for it.\<close>

lemma utf16_unit:
  assumes "utf16_toUtf8 E src r0 = Some (length src, t)" "src \<noteq> []"
  shows "\<exists>k ch. 2 \<le> k \<and> k \<le> length src \<and> ch \<noteq> [] \<and> length ch \<le> 2 * k \<and>
    (\<forall>room. utf16_toUtf8 E src room = (if room < length ch then Some (0, [])
       else do {(n, out) \<leftarrow> utf16_toUtf8 E (drop k src) (room - length ch); Some (n + k, ch @ out)}))"
proof -
  obtain p0 p1 r where src: "src = p0 # p1 # r"
    using assms by (cases "(E, src, r0)" rule: utf16_toUtf8.cases) auto
  define lo hi where "lo = GET_LO E p0 p1" and "hi = GET_HI E p0 p1"
  consider "hi = 0 \<and> lo < 0x80" | "\<not> (hi = 0 \<and> lo < 0x80)" "hi \<le> 7"
    | "\<not> hi \<le> 7" "0xD8 \<le> hi \<and> hi \<le> 0xDB" | "\<not> hi \<le> 7" "\<not> (0xD8 \<le> hi \<and> hi \<le> 0xDB)" by blast
  then show ?thesis
  proof cases
    case 1
    then show ?thesis by (intro exI [of _ 2] exI [of _ "[lo]"]) (simp add: src Let_def flip: lo_def hi_def)
  next
    case 2
    then show ?thesis
      by (intro exI [of _ 2] exI [of _ "[drop_bit 6 lo OR push_bit 2 hi OR 0xC0, (lo AND 0x3F) OR 0x80]"])
        (auto simp: src Let_def numeral_2_eq_2 simp flip: lo_def hi_def)
  next
    case 3
    then have "hi \<noteq> 0" by auto
    with 3 assms obtain q0 q1 r' where r: "r = q0 # q1 # r'"
      by (auto simp: src Let_def split: if_splits list.splits simp flip: lo_def hi_def)
    have four: "length (surrogate_bytes hi lo x y) = 4" for x y by (simp add: surrogate_bytes_def Let_def)
    then have "surrogate_bytes hi lo x y \<noteq> []" for x y by (metis list.size(3) zero_neq_numeral)
    then show ?thesis using 3 \<open>hi \<noteq> 0\<close> four
      by (intro exI [of _ 4] exI [of _ "surrogate_bytes hi lo (GET_HI E q0 q1) (GET_LO E q0 q1)"])
        (auto simp: src r Let_def simp flip: lo_def hi_def)
  next
    case 4
    then have "hi \<noteq> 0" by auto
    with 4 show ?thesis
      by (intro exI [of _ 2] exI [of _ "[drop_bit 4 hi OR 0xE0, push_bit 2 (hi AND 0xF) OR drop_bit 6 lo OR 0x80,
          (lo AND 0x3F) OR 0x80]"]) (auto simp: src Let_def numeral_2_eq_2 numeral_3_eq_3 simp flip: lo_def hi_def)
  qed
qed

lemma utf16_conv_step:
  "utf16_toUtf8 E src r0 = Some (length src, t) \<Longrightarrow> \<exists>n out t'. utf16_toUtf8 E src room = Some (n, out) \<and>
     n \<le> length src \<and> length out \<le> room \<and> length out \<le> 3 * n \<and> t = out @ t' \<and>
     (\<exists>r. utf16_toUtf8 E (drop n src) r = Some (length (drop n src), t')) \<and> (3 * length src \<le> room \<longrightarrow> n = length src)"
proof (induction "length src" arbitrary: src r0 t room rule: less_induct)
  case less
  show ?case
  proof (cases "src = []")
    case False
    from utf16_unit [OF less.prems False] obtain k ch where u: "2 \<le> k" "k \<le> length src" "ch \<noteq> []" "length ch \<le> 2 * k"
      and eq: "\<And>room. utf16_toUtf8 E src room = (if room < length ch then Some (0, [])
       else do {(n, out) \<leftarrow> utf16_toUtf8 E (drop k src) (room - length ch); Some (n + k, ch @ out)})" by blast
    from less.prems False u(2) obtain t1 where t: "utf16_toUtf8 E (drop k src) (r0 - length ch) = Some (length (drop k src), t1)"
      "t = ch @ t1" "length ch \<le> r0" by (auto simp: eq [of r0] split: if_splits)
    show ?thesis
    proof (cases "room < length ch")
      case True
      then show ?thesis using less.prems u by (auto simp: eq [of room])
    next
      case room: False
      have "length (drop k src) < length src" using u False by simp
      from less.hyps [OF this t(1), of "room - length ch"] obtain n out t' where
        "utf16_toUtf8 E (drop k src) (room - length ch) = Some (n, out)" "n \<le> length (drop k src)"
        "length out \<le> room - length ch" "length out \<le> 3 * n" "t1 = out @ t'"
        "\<exists>r. utf16_toUtf8 E (drop n (drop k src)) r = Some (length (drop n (drop k src)), t')"
        "3 * length (drop k src) \<le> room - length ch \<longrightarrow> n = length (drop k src)" by blast
      then show ?thesis using room u t(2)
        by (intro exI [of _ "n + k"] exI [of _ "ch @ out"] exI [of _ t']) (auto simp: eq [of room])
    qed
  qed (use less.prems in auto)
qed

lemma builtin_converters:
  assumes "enc \<in> set (builtin_encodings ns)"
  shows "(byte_converter enc \<and> (utf8Convert enc = Utf8_toUtf8 \<or> utf8Convert enc = Ascii_toUtf8 \<or> utf8Convert enc = Latin1_toUtf8))
    \<or> utf16_converter enc"
  using assms unfolding builtin_encodings_def
  by (auto simp: byte_converter_def utf16_converter_def encoding_defs)

lemma builtin_text_converter:
  assumes "enc \<in> set (builtin_encodings ns)"
  shows "text_converter enc (converts enc)"
proof -
  consider "utf8Convert enc = Utf8_toUtf8" | "utf8Convert enc = Ascii_toUtf8" | "utf8Convert enc = Latin1_toUtf8"
    | "utf16_converter enc" using builtin_converters [OF assms] by blast
  then show ?thesis
  proof cases
    case 4
    note cv = utf16_convert [OF 4]
    show ?thesis
    proof
      show "t = []" if "converts enc [] t" for t
        using that by (auto simp: converts_def cv simp del: XmlUtf8Convert.simps)
    next
      fix src t room
      assume "converts enc src t"
      then obtain r0 where "utf16_toUtf8 (order_of (prefix enc)) src r0 = Some (length src, t)"
        by (auto simp: converts_def cv simp del: XmlUtf8Convert.simps)
      from utf16_conv_step [OF this, of room]
      show "\<exists>n out t'. XmlUtf8Convert enc src room = Some (n, out) \<and> n \<le> length src \<and> length out \<le> room \<and>
        length out \<le> 3 * n \<and> t = out @ t' \<and> converts enc (drop n src) t' \<and> (3 * length src \<le> room \<longrightarrow> n = length src)"
        unfolding converts_def cv .
    qed
  qed (simp_all add: converts_utf8 converts_ascii converts_latin1 utf8_text_converter ascii_text_converter latin1_text_converter)
qed

section \<open>Items and how they are written\<close>

text \<open>A value is made of data, white space, references to characters by number, references to entities by
  name and the character \<open><\<close>, which is not allowed in it and takes the data before it with it.\<close>

datatype item =
  Data "byte list" | White | Char int | Ref "byte list" | Less

definition marks :: "bt set" where
  "marks = {BT_AMP, BT_LT, BT_LF, BT_CR, BT_S}"

inductive plain_run :: "encoding \<Rightarrow> byte list \<Rightarrow> nat \<Rightarrow> nat \<Rightarrow> bool" for enc b where
  Stop: "plain_run enc b p p"
| Step: "\<lbrakk>BYTE_TYPE enc b p = Some t; t \<notin> marks; plain_run enc b (p + char_len enc t) q\<rbrakk> \<Longrightarrow> plain_run enc b p q"

text \<open>A name, as the scanners take names.\<close>

inductive name_run :: "encoding \<Rightarrow> byte list \<Rightarrow> nat \<Rightarrow> nat \<Rightarrow> bool" for enc b where
  Stop: "name_run enc b p p"
| Step: "\<lbrakk>BYTE_TYPE enc b p = Some t; CHECK_NAME_CASES enc b p t = Some (Brk p'); name_run enc b p' q\<rbrakk> \<Longrightarrow>
    name_run enc b p q"

definition name_at :: "encoding \<Rightarrow> byte list \<Rightarrow> nat \<Rightarrow> nat \<Rightarrow> bool" where
  "name_at enc b p q \<longleftrightarrow>
     (\<exists>t p'. BYTE_TYPE enc b p = Some t \<and> CHECK_NMSTRT_CASES enc b p t = Some (Brk p') \<and> name_run enc b p' q)"

definition segment :: "byte list \<Rightarrow> nat \<Rightarrow> nat \<Rightarrow> byte list" where
  "segment b p q = take (q - p) (drop p b)"

inductive value_text :: "encoding \<Rightarrow> byte list \<Rightarrow> nat \<Rightarrow> item list \<Rightarrow> bool" for enc b where
  End: "value_text enc b (length b) []"
| Data: "\<lbrakk>plain_run enc b p q; p < q; converts enc (segment b p q) t; value_text enc b q its;
    case its of [] \<Rightarrow> True | it # _ \<Rightarrow> it \<noteq> Less \<and> (\<forall>t. it \<noteq> Data t)\<rbrakk> \<Longrightarrow> value_text enc b p (Data t # its)"
| White: "\<lbrakk>BYTE_TYPE enc b p = Some t; t = BT_S \<or> t = BT_LF; value_text enc b (p + MINBPC enc) its\<rbrakk> \<Longrightarrow>
    value_text enc b p (White # its)"
| Return: "\<lbrakk>BYTE_TYPE enc b p = Some BT_CR; BYTE_TYPE enc b (p + MINBPC enc) \<noteq> Some BT_LF;
    value_text enc b (p + MINBPC enc) its\<rbrakk> \<Longrightarrow> value_text enc b p (White # its)"
| Return_Feed: "\<lbrakk>BYTE_TYPE enc b p = Some BT_CR; BYTE_TYPE enc b (p + MINBPC enc) = Some BT_LF;
    value_text enc b (p + MINBPC enc + MINBPC enc) its\<rbrakk> \<Longrightarrow> value_text enc b p (White # its)"
| Decimal: "\<lbrakk>text_at enc b p (ascii ''&#'' @ ds @ ascii '';''); ds \<noteq> []; list_all dec_char ds;
    value_text enc b (p + (length ds + 3) * MINBPC enc) its\<rbrakk> \<Longrightarrow> value_text enc b p (Char (number 10 0 ds) # its)"
| Hexadecimal: "\<lbrakk>text_at enc b p (ascii ''&#x'' @ ds @ ascii '';''); ds \<noteq> []; list_all hex_char ds;
    value_text enc b (p + (length ds + 4) * MINBPC enc) its\<rbrakk> \<Longrightarrow> value_text enc b p (Char (number 16 0 ds) # its)"
| Ref: "\<lbrakk>BYTE_TYPE enc b p = Some BT_AMP; name_at enc b (p + MINBPC enc) q; BYTE_TYPE enc b q = Some BT_SEMI;
    converts enc (segment b (p + MINBPC enc) q) k; 0 \<notin> set k; value_text enc b (q + MINBPC enc) its\<rbrakk> \<Longrightarrow>
    value_text enc b p (Ref k # its)"
| Less: "\<lbrakk>plain_run enc b p q; BYTE_TYPE enc b q = Some BT_LT\<rbrakk> \<Longrightarrow> value_text enc b p (Less # its)"

section \<open>One token for an item\<close>

lemma byte_type_inside: "BYTE_TYPE enc b p = Some t \<Longrightarrow> p < length b \<and> p + MINBPC enc \<le> length b"
  using MINBPC_less by (auto simp: BYTE_TYPE_def split: if_splits)

lemma plain_run_le: "plain_run enc b p q \<Longrightarrow> p \<le> q"
  by (induction rule: plain_run.induct) auto

lemma plain_run_loop: "plain_run enc b p q \<Longrightarrow> attributeValueTok_loop enc b start p = attributeValueTok_loop enc b start q"
proof (induction rule: plain_run.induct)
  case (Step p t q)
  then show ?case using byte_type_inside [OF Step(1)]
    by (subst attributeValueTok_loop.simps) (auto simp: marks_def char_len_def lead_len_def)
qed simp

lemma data_token:
  assumes "plain_run enc b p q" "p < q" "q = length b \<or> (\<exists>t. BYTE_TYPE enc b q = Some t \<and> t \<in> marks - {BT_LT})"
  shows "attributeValueTok enc b p = Some (XML_TOK_DATA_CHARS, Some q)"
proof -
  have "p \<noteq> length b" using assms(1,2) by (auto elim: plain_run.cases dest: byte_type_inside)
  moreover have "attributeValueTok_loop enc b p q = Some (XML_TOK_DATA_CHARS, Some q)"
    using assms(2,3) byte_type_inside by (subst attributeValueTok_loop.simps) (auto simp: marks_def)
  ultimately show ?thesis using plain_run_loop [OF assms(1)] by (simp add: attributeValueTok_def)
qed

lemma white_token:
  assumes "BYTE_TYPE enc b p = Some t" "t = BT_S \<or> t = BT_LF"
  shows "\<exists>tok. tok \<in> {XML_TOK_ATTRIBUTE_VALUE_S, XML_TOK_DATA_NEWLINE} \<and>
    attributeValueTok enc b p = Some (tok, Some (p + MINBPC enc))"
  using assms byte_type_inside [OF assms(1)]
  by (auto simp: attributeValueTok_def attributeValueTok_loop.simps [of enc b p p])

lemma value_token:
  assumes "BYTE_TYPE enc b p = Some t"
  shows "attributeValueTok enc b p = attributeValueTok_loop enc b p p" "p \<noteq> length b"
  using byte_type_inside [OF assms] by (auto simp: attributeValueTok_def)

lemma return_token:
  assumes "BYTE_TYPE enc b p = Some BT_CR" "p + MINBPC enc \<noteq> length b \<longrightarrow> BYTE_TYPE enc b (p + MINBPC enc) = Some u"
  shows "attributeValueTok enc b p = Some
    (if p + MINBPC enc = length b then (XML_TOK_TRAILING_CR, None)
     else (XML_TOK_DATA_NEWLINE, Some (if u = BT_LF then p + MINBPC enc + MINBPC enc else p + MINBPC enc)))"
  unfolding value_token(1) [OF assms(1)] attributeValueTok_loop.simps [of enc b p p]
  using assms value_token(2) [OF assms(1)] by simp

lemma less_token:
  assumes "plain_run enc b p q" "BYTE_TYPE enc b q = Some BT_LT"
  shows "attributeValueTok enc b p = Some (XML_TOK_INVALID, Some q)"
proof -
  have "p \<noteq> length b" using plain_run_le [OF assms(1)] byte_type_inside [OF assms(2)] by auto
  moreover have "attributeValueTok_loop enc b p q = Some (XML_TOK_INVALID, Some q)"
    using assms(2) byte_type_inside [OF assms(2)] by (subst attributeValueTok_loop.simps) simp
  ultimately show ?thesis using plain_run_loop [OF assms(1)] by (simp add: attributeValueTok_def)
qed

lemma ref_token_scan:
  assumes "BYTE_TYPE enc b p = Some BT_AMP"
  shows "attributeValueTok enc b p = scanRef enc b (p + MINBPC enc)"
  using assms byte_type_inside [OF assms]
  by (auto simp: attributeValueTok_def attributeValueTok_loop.simps [of enc b p p])

lemma name_run_loop: "name_run enc b p q \<Longrightarrow> scanRef_loop enc b p = scanRef_loop enc b q"
proof (induction rule: name_run.induct)
  case (Step p t p' q)
  then show ?case using byte_type_inside [OF Step(1)] by (subst scanRef_loop.simps) auto
qed simp

lemma ref_token:
  assumes "BYTE_TYPE enc b p = Some BT_AMP" "name_at enc b (p + MINBPC enc) q" "BYTE_TYPE enc b q = Some BT_SEMI"
  shows "attributeValueTok enc b p = Some (XML_TOK_ENTITY_REF, Some (q + MINBPC enc))"
proof -
  have "scanRef_loop enc b q = Some (XML_TOK_ENTITY_REF, Some (q + MINBPC enc))"
    using assms(3) byte_type_inside [OF assms(3)] by (subst scanRef_loop.simps) (auto simp: CHECK_NAME_CASES_def)
  then show ?thesis using assms(2) name_run_loop byte_type_inside
    by (fastforce simp: ref_token_scan [OF assms(1)] scanRef_def name_at_def)
qed

section \<open>Character references\<close>

lemma text_byte_type:
  assumes "text_at enc b p (c # cs)"
  shows "BYTE_TYPE enc b p = Some (type_tab enc ! unat c)"
proof -
  note le = text_at_Cons(1) [OF assms] and eq = text_at_Cons(2) [OF assms]
  have nth: "b ! (p + i) = enc_char enc c ! i" if "i < MINBPC enc" for i
    using that le by (simp add: eq [symmetric])
  show ?thesis using le nth [of 0] nth [of 1]
    by (cases "prefix enc") (simp_all add: BYTE_TYPE_def MINBPC_def enc_char_def SB_BYTE_TYPE_def
        LITTLE2_BYTE_TYPE_def BIG2_BYTE_TYPE_def)
qed

lemma builtin_tab:
  assumes "enc \<in> set (builtin_encodings ns)" "i < 128" "i \<noteq> 0x3A"
  shows "type_tab enc ! i = asciitab ! i \<or> type_tab enc ! i = iasciitab ! i"
proof -
  have "take 128 (type_tab enc) = colon_tab ns asciitab \<or> take 128 (type_tab enc) = colon_tab ns iasciitab"
    using assms(1) by (auto simp: builtin_encodings_def encoding_defs)
  then have "type_tab enc ! i = colon_tab ns asciitab ! i \<or> type_tab enc ! i = colon_tab ns iasciitab ! i"
    by (metis assms(2) nth_take)
  moreover have "list_all (\<lambda>(i, t). t = BT_COLON \<longrightarrow> i = 0x3A) (enumerate 0 asciitab)"
    "list_all (\<lambda>(i, t). t = BT_COLON \<longrightarrow> i = 0x3A) (enumerate 0 iasciitab)" by code_simp+
  then have "asciitab ! i \<noteq> BT_COLON" "iasciitab ! i \<noteq> BT_COLON"
    using assms(2,3) unfolding list_all_enumerate by auto
  ultimately show ?thesis using assms(2) by (cases ns) (auto simp: colon_tab_def)
qed

lemma ref_types:
  assumes "enc \<in> set (builtin_encodings ns)"
  shows "dec_char c \<Longrightarrow> type_tab enc ! unat c = BT_DIGIT"
    and "hex_char c \<Longrightarrow> type_tab enc ! unat c = BT_DIGIT \<or> type_tab enc ! unat c = BT_HEX"
    and "type_tab enc ! 0x26 = BT_AMP" "type_tab enc ! 0x23 = BT_NUM" "type_tab enc ! 0x3B = BT_SEMI"
proof -
  define fit where "fit i t \<longleftrightarrow> (dec_char (word_of_nat i) \<longrightarrow> t = BT_DIGIT) \<and>
      (hex_char (word_of_nat i) \<longrightarrow> t = BT_DIGIT \<or> t = BT_HEX) \<and>
      (i = 0x26 \<longrightarrow> t = BT_AMP) \<and> (i = 0x23 \<longrightarrow> t = BT_NUM) \<and> (i = 0x3B \<longrightarrow> t = BT_SEMI)" for i t
  have "list_all (\<lambda>(i, t). fit i t) (enumerate 0 asciitab)" "list_all (\<lambda>(i, t). fit i t) (enumerate 0 iasciitab)"
    unfolding fit_def by code_simp+
  then have tabs: "\<forall>i<128. fit i (asciitab ! i)" "\<forall>i<128. fit i (iasciitab ! i)"
    unfolding list_all_enumerate by simp_all
  have ok: "fit i (type_tab enc ! i)" if "i < 128" "i \<noteq> 0x3A" for i
    using tabs that builtin_tab [OF assms that] by auto
  have small: "unat c < 128 \<and> unat c \<noteq> 0x3A" if "hex_char c" for c
    using that by (auto simp: hex_char_def dec_char_def word_le_nat_alt)
  show "type_tab enc ! unat c = BT_DIGIT" if "dec_char c"
    using ok [of "unat c"] small [of c] that by (simp add: hex_char_def fit_def)
  show "type_tab enc ! unat c = BT_DIGIT \<or> type_tab enc ! unat c = BT_HEX" if "hex_char c"
    using ok [of "unat c"] small [OF that] that by (simp add: fit_def)
  show "type_tab enc ! 0x26 = BT_AMP" "type_tab enc ! 0x23 = BT_NUM" "type_tab enc ! 0x3B = BT_SEMI"
    using ok [of "0x26"] ok [of "0x23"] ok [of "0x3B"] by (simp_all add: fit_def)
qed

lemma text_inside: "text_at enc b p (c # cs) \<Longrightarrow> p \<noteq> length b"
  using text_byte_type byte_type_inside by blast

lemma decimal_scan:
  assumes "enc \<in> set (builtin_encodings ns)"
  shows "text_at enc b p (ds @ [0x3B]) \<Longrightarrow> list_all dec_char ds \<Longrightarrow>
    scanCharRef_loop enc b p = Some (XML_TOK_CHAR_REF, Some (p + (length ds + 1) * MINBPC enc))"
proof (induction ds arbitrary: p)
  case Nil
  then have t: "text_at enc b p (0x3B # [])" by simp
  show ?case using text_byte_type [OF t] text_inside [OF t] ref_types(5) [OF assms]
    by (subst scanCharRef_loop.simps) simp
next
  case (Cons c ds)
  then have t: "text_at enc b p (c # ds @ [0x3B])" by simp
  show ?case using text_byte_type [OF t] text_inside [OF t] ref_types(1) [OF assms, of c] Cons text_at_Cons(3) [OF t]
    by (subst scanCharRef_loop.simps) (simp add: algebra_simps)
qed

lemma hexadecimal_scan:
  assumes "enc \<in> set (builtin_encodings ns)"
  shows "text_at enc b p (ds @ [0x3B]) \<Longrightarrow> list_all hex_char ds \<Longrightarrow>
    scanHexCharRef_loop enc b p = Some (XML_TOK_CHAR_REF, Some (p + (length ds + 1) * MINBPC enc))"
proof (induction ds arbitrary: p)
  case Nil
  then have t: "text_at enc b p (0x3B # [])" by simp
  show ?case using text_byte_type [OF t] text_inside [OF t] ref_types(5) [OF assms]
    by (subst scanHexCharRef_loop.simps) simp
next
  case (Cons c ds)
  then have t: "text_at enc b p (c # ds @ [0x3B])" by simp
  show ?case using text_byte_type [OF t] text_inside [OF t] ref_types(2) [OF assms, of c] Cons text_at_Cons(3) [OF t]
    by (subst scanHexCharRef_loop.simps) (auto simp: algebra_simps)
qed

lemma char_ref_scan:
  assumes "enc \<in> set (builtin_encodings ns)" "text_at enc b p (0x26 # 0x23 # cs)"
  shows "attributeValueTok enc b p = scanCharRef enc b (p + MINBPC enc + MINBPC enc)"
proof -
  note at = text_at_Cons(3) [OF assms(2)]
  have "BYTE_TYPE enc b p = Some BT_AMP" "BYTE_TYPE enc b (p + MINBPC enc) = Some BT_NUM"
    using text_byte_type [OF assms(2)] text_byte_type [OF at] ref_types(3,4) [OF assms(1)] by simp_all
  then show ?thesis using text_inside [OF at]
    by (simp add: ref_token_scan scanRef_def CHECK_NMSTRT_CASES_def)
qed

lemma decimal_token:
  assumes "enc \<in> set (builtin_encodings ns)" "text_at enc b p (ascii ''&#'' @ ds @ ascii '';'')" "ds \<noteq> []" "list_all dec_char ds"
  shows "attributeValueTok enc b p = Some (XML_TOK_CHAR_REF, Some (p + (length ds + 3) * MINBPC enc))"
proof -
  obtain c cs where ds: "ds = c # cs" using assms(3) by (cases ds) auto
  have at: "text_at enc b p (0x26 # 0x23 # c # cs @ [0x3B])" using assms(2) by (simp add: ds)
  note at3 = text_at_Cons(3) [OF text_at_Cons(3) [OF at]]
  have "c \<noteq> ASCII_x" using assms(4) ds by (auto simp: dec_char_def)
  then show ?thesis
    using text_byte_type [OF at3] text_inside [OF at3] text_at_reads(1) [OF at3] ref_types(1) [OF assms(1), of c]
      decimal_scan [OF assms(1) text_at_Cons(3) [OF at3]] assms(4) ds
    by (simp add: char_ref_scan [OF assms(1) at] scanCharRef_def algebra_simps)
qed

lemma hexadecimal_token:
  assumes "enc \<in> set (builtin_encodings ns)" "text_at enc b p (ascii ''&#x'' @ ds @ ascii '';'')" "ds \<noteq> []" "list_all hex_char ds"
  shows "attributeValueTok enc b p = Some (XML_TOK_CHAR_REF, Some (p + (length ds + 4) * MINBPC enc))"
proof -
  obtain c cs where ds: "ds = c # cs" using assms(3) by (cases ds) auto
  have at: "text_at enc b p (0x26 # 0x23 # 0x78 # c # cs @ [0x3B])" using assms(2) by (simp add: ds)
  note at3 = text_at_Cons(3) [OF text_at_Cons(3) [OF at]]
  note at4 = text_at_Cons(3) [OF at3]
  show ?thesis
    using text_inside [OF at3] text_byte_type [OF at4] text_inside [OF at4] text_at_reads(1) [OF at3]
      ref_types(2) [OF assms(1), of c] hexadecimal_scan [OF assms(1) text_at_Cons(3) [OF at4]] assms(4) ds
    by (auto simp: char_ref_scan [OF assms(1) at] scanCharRef_def scanHexCharRef_def algebra_simps)
qed

section \<open>Names\<close>

definition predefined_names :: "(byte list \<times> byte) list" where
  "predefined_names = [(ascii ''lt'', 0x3C), (ascii ''gt'', 0x3E), (ascii ''amp'', 0x26),
     (ascii ''quot'', 0x22), (ascii ''apos'', 0x27)]"

lemma wide_type:
  assumes "enc \<in> set (builtin_encodings ns)" "BYTE_TYPE enc b p = Some t" "prefix enc \<noteq> Normal"
  shows "t \<noteq> BT_LEAD2 \<and> t \<noteq> BT_LEAD3"
proof -
  have "type_tab enc ! unat c \<noteq> BT_LEAD2 \<and> type_tab enc ! unat c \<noteq> BT_LEAD3" for c :: byte
    using scanner_encoding.wide_no_lead [OF builtin_scanner_encoding [OF assms(1)] assms(3), of "type_tab enc ! unat c"]
      scanner_encoding.type_total [OF builtin_scanner_encoding [OF assms(1)]] byte_less_256 [of c]
    by (auto simp: lead_len_def split: if_splits)
  then show ?thesis using assms(2,3)
    by (cases "prefix enc") (auto simp: BYTE_TYPE_def LITTLE2_BYTE_TYPE_def BIG2_BYTE_TYPE_def unicode_byte_type_def
        split: if_splits)
qed

lemma dvd_steps: "p \<le> q \<and> d dvd q - p \<Longrightarrow> q \<le> r \<and> d dvd r - q \<Longrightarrow> p \<le> r \<and> d dvd r - (p :: nat)"
  using dvd_add [of d "q - p" "r - q"] by auto

lemma name_case_width:
  assumes "enc \<in> set (builtin_encodings ns)" "BYTE_TYPE enc b p = Some t"
    and "CHECK_NAME_CASES enc b p t = Some (Brk q) \<or> CHECK_NMSTRT_CASES enc b p t = Some (Brk q)"
  shows "p \<le> q \<and> MINBPC enc dvd q - p"
proof (cases "prefix enc = Normal")
  case True
  then show ?thesis using assms(3) switch_Brk(2,3) [of enc b p t q] by (auto simp: MINBPC_def)
next
  case False
  then have "t \<noteq> BT_LEAD2 \<and> t \<noteq> BT_LEAD3"
    using wide_type [OF assms(1,2)] by simp
  moreover have "MINBPC enc = 2" using False MINBPC_cases [of enc] by (cases "prefix enc") (auto simp: MINBPC_def)
  ultimately show ?thesis using assms(3)
    by (auto simp: CHECK_NAME_CASES_def CHECK_NMSTRT_CASES_def CHECK_NAME_CASE_def CHECK_NMSTRT_CASE_def split: if_splits)
qed

lemma name_run_width:
  assumes "enc \<in> set (builtin_encodings ns)"
  shows "name_run enc b p q \<Longrightarrow> p \<le> q \<and> MINBPC enc dvd q - p"
proof (induction rule: name_run.induct)
  case (Step p t p' q)
  then have "p \<le> p' \<and> MINBPC enc dvd p' - p" using name_case_width [OF assms] by blast
  then show ?case using Step.IH by (rule dvd_steps)
qed simp

lemma name_width:
  assumes "enc \<in> set (builtin_encodings ns)" "name_at enc b p q"
  shows "p \<le> q \<and> MINBPC enc dvd q - p"
proof -
  obtain t p' where n: "BYTE_TYPE enc b p = Some t" "CHECK_NMSTRT_CASES enc b p t = Some (Brk p')" "name_run enc b p' q"
    using assms(2) by (auto simp: name_at_def)
  then have "p \<le> p' \<and> MINBPC enc dvd p' - p" "p' \<le> q \<and> MINBPC enc dvd q - p'"
    using name_case_width [OF assms(1)] name_run_width [OF assms(1)] by blast+
  then show ?thesis by (rule dvd_steps)
qed

text \<open>Only ASCII characters are converted to ASCII characters.\<close>

lemma lead_not_ascii: "\<not> x OR 0xC0 < (0x80 :: byte)" "\<not> x OR 0xE0 < (0x80 :: byte)" "\<not> x OR 0xF0 < (0x80 :: byte)"
  by (simp_all add: and_80 [symmetric] bit.conj_disj_distrib2 or_eq_0_iff)

lemma lead_not_ascii': "\<not> y OR x OR 0xC0 < (0x80 :: byte)" "\<not> y OR x OR 0xE0 < (0x80 :: byte)" "\<not> y OR x OR 0xF0 < (0x80 :: byte)"
  by (metis lead_not_ascii or.assoc)+

lemma utf16_ascii_source:
  "utf16_toUtf8 E src r0 = Some (length src, w) \<Longrightarrow> ascii_bytes w \<Longrightarrow>
    src = concat (map (\<lambda>c. case E of Little \<Rightarrow> [c, 0] | Big \<Rightarrow> [0, c]) w)"
proof (induction E src r0 arbitrary: w rule: utf16_toUtf8.induct)
  case (3 E p0 p1 src room)
  show ?case
  proof (cases "GET_HI E p0 p1 = 0 \<and> GET_LO E p0 p1 < 0x80")
    case True
    with 3(5) obtain w' where w: "room \<noteq> 0" "utf16_toUtf8 E src (room - 1) = Some (length src, w')" "w = GET_LO E p0 p1 # w'"
      by (auto simp: Let_def split: if_splits)
    then have "src = concat (map (\<lambda>c. case E of Little \<Rightarrow> [c, 0] | Big \<Rightarrow> [0, c]) w')"
      using 3(1) [OF refl refl] True 3(6) by simp
    then show ?thesis using w(3) True by (cases E) auto
  next
    case False
    then have "\<not> ascii_bytes w" using 3(5) lead_not_ascii lead_not_ascii'
      by (auto simp: Let_def surrogate_bytes_def split: if_splits list.splits)
    then show ?thesis using 3(6) by simp
  qed
qed auto

lemma utf8_of_ascii: "ascii_bytes (utf8_of (map uint (src :: byte list))) \<Longrightarrow> utf8_of (map uint src) = src"
  by (induction src) (auto simp: latin1_char lead_not_ascii split: if_splits)

lemma utf8_of_latin1_ascii: "ascii_bytes src \<Longrightarrow> utf8_of (map uint src) = src"
  by (induction src) (auto simp: latin1_char and_80)

lemma converts_ascii_iff:
  assumes "enc \<in> set (builtin_encodings ns)" "ascii_bytes w"
  shows "converts enc src w \<longleftrightarrow> src = enc_text enc w"
proof -
  have b: "enc_text enc w = w" if "byte_converter enc" for w
  proof -
    have "enc_char enc = (\<lambda>c. [c])" using that by (intro ext) (simp add: byte_converter_def enc_char_def)
    then show ?thesis by (simp add: enc_text_def)
  qed
  have there: "converts enc (enc_text enc w) w"
    using text_reader.convert_ascii [OF builtin_text_reader [OF assms(1)] assms(2), of "length w"]
    by (auto simp: converts_def)
  from builtin_converters [OF assms(1)] consider "byte_converter enc" "utf8Convert enc = Utf8_toUtf8 \<or> utf8Convert enc = Ascii_toUtf8"
    | "byte_converter enc" "utf8Convert enc = Latin1_toUtf8" | "utf16_converter enc" by blast
  then show ?thesis
  proof cases
    case 1
    then show ?thesis using b by (auto simp: converts_utf8 converts_ascii)
  next
    case 2
    have "w = utf8_of (map uint src) \<longleftrightarrow> src = w" using utf8_of_ascii [of src] utf8_of_latin1_ascii [of w] assms(2) by metis
    then show ?thesis using 2 b by (simp add: converts_latin1)
  next
    case 3
    have "enc_text enc w = concat (map (\<lambda>c. case order_of (prefix enc) of Little \<Rightarrow> [c, 0] | Big \<Rightarrow> [0, c]) w)"
      using 3 by (cases "prefix enc") (auto simp: enc_text_def enc_char_def [abs_def] utf16_converter_def)
    then show ?thesis using utf16_ascii_source there assms(2) utf16_convert [OF 3]
      by (auto simp: converts_def simp del: XmlUtf8Convert.simps)
  qed
qed

lemma converts_fun:
  assumes "enc \<in> set (builtin_encodings ns)" "converts enc src t" "converts enc src u"
  shows "t = u"
proof -
  note tc = builtin_text_converter [OF assms(1)]
  have "XmlUtf8Convert enc src (3 * length src) = Some (length src, x)" if "converts enc src x" for x
    using text_converter.conv_step [OF tc that, of "3 * length src"] text_converter.reads_Nil [OF tc] by force
  from this [OF assms(2)] this [OF assms(3)] show ?thesis by simp
qed

lemma ref_predefined:
  assumes enc: "enc \<in> set (builtin_encodings ns)" and "name_at enc b p q" "q \<le> length b" "converts enc (segment b p q) k"
  shows "predefinedEntityName enc b p q = Some (case map_of predefined_names k of None \<Rightarrow> 0 | Some c \<Rightarrow> c)"
proof -
  obtain n where n: "q = p + n * MINBPC enc" using name_width [OF assms(1,2)] by (metis dvd_div_mult_self le_add_diff_inverse)
  have eq: "segment b p q = enc_text enc w \<longleftrightarrow> k = w" if "ascii_bytes w" for w
  proof
    assume "segment b p q = enc_text enc w"
    then have "converts enc (segment b p q) w" using converts_ascii_iff [OF enc that] by simp
    then show "k = w" using converts_fun [OF enc assms(4)] by blast
  qed (use converts_ascii_iff [OF enc that] assms(4) in auto)
  have "segment b p q = enc_text enc (ascii x) \<longleftrightarrow> k = ascii x" if "x \<in> {''lt'', ''gt'', ''amp'', ''quot'', ''apos''}" for x
  proof -
    have "ascii_bytes (ascii x)" using that by auto
    then show ?thesis by (rule eq)
  qed
  note this [of "''lt''"] this [of "''gt''"] this [of "''amp''"] this [of "''quot''"] this [of "''apos''"]
  then have "predefined enc (segment b p q) = (case map_of predefined_names k of None \<Rightarrow> 0 | Some c \<Rightarrow> c)"
    by (simp add: predefined_def predefined_names_def del: enc_text_simps ascii_Cons)
  then show ?thesis using predefinedEntityName_correct [of p n enc b] assms(3) n by (simp add: segment_def)
qed

end
