(* ===== verification/Xml_Value_Props.thy ===== *)
theory Xml_Value_Props
  imports Xml_Value_Text Xml_Hash_Props
begin

text \<open>
  What an attribute's value is: a reference definition on items and the declarations of the entities, and
  that \<open>appendAttributeValue\<close> and \<open>storeAttributeValue\<close> compute it, whatever memory is refused.
\<close>

section \<open>The value of a text\<close>

text \<open>A general entity: the items of its text, unless it is external, whether it is unparsed, and whether
  it was declared in the internal subset.\<close>

record edecl =
  ed_text :: "item list option"
  ed_unparsed :: bool
  ed_internal :: bool

datatype effect =
  Stop XML_Error | Go "byte list" | Enter "byte list" "item list"

definition spaced :: "bool \<Rightarrow> byte list \<Rightarrow> byte list" where
  "spaced cdata w = (if \<not> cdata \<and> (w = [] \<or> last w = 0x20) then w else w @ [0x20])"

fun item_effect :: "(byte list \<times> edecl) list \<Rightarrow> bool \<Rightarrow> bool \<Rightarrow> byte list list \<Rightarrow> byte list \<Rightarrow> item \<Rightarrow> effect" where
  "item_effect env check cdata opened w (Data t) = Go (w @ t)"
| "item_effect env check cdata opened w White = Go (spaced cdata w)"
| "item_effect env check cdata opened w (Char n) =
     (if \<not> xml_char n then Stop XML_ERROR_BAD_CHAR_REF
      else if n = 0x20 then Go (spaced cdata w) else Go (w @ XmlUtf8Encode n))"
| "item_effect env check cdata opened w (Ref k) =
     (case map_of predefined_names k of
        Some c \<Rightarrow> Go (w @ [c])
      | None \<Rightarrow>
          (case map_of env k of
             None \<Rightarrow> if check then Stop XML_ERROR_UNDEFINED_ENTITY else Go w
           | Some d \<Rightarrow>
               if check \<and> \<not> ed_internal d then Stop XML_ERROR_ENTITY_DECLARED_IN_PE
               else if k \<in> set opened then Stop XML_ERROR_RECURSIVE_ENTITY_REF
               else if ed_unparsed d then Stop XML_ERROR_BINARY_ENTITY_REF
               else (case ed_text d of
                   None \<Rightarrow> Stop XML_ERROR_ATTRIBUTE_EXTERNAL_ENTITY_REF
                 | Some its \<Rightarrow> Enter k its)))"
| "item_effect env check cdata opened w Less = Stop XML_ERROR_INVALID_TOKEN"

lemma item_effect_Enter:
  "item_effect env check cdata opened w it = Enter k its \<Longrightarrow> k \<in> set (map fst env) - set opened"
  by (cases it) (auto split: if_splits option.splits dest: map_of_SomeD intro: rev_image_eqI)

function attr_value ::
  "(byte list \<times> edecl) list \<Rightarrow> bool \<Rightarrow> bool \<Rightarrow> byte list list \<Rightarrow> item list \<Rightarrow> byte list \<Rightarrow> XML_Error \<times> byte list" where
  "attr_value env check cdata opened [] w = (XML_ERROR_NONE, w)"
| "attr_value env check cdata opened (it # its) w =
     (case item_effect env check cdata opened w it of
        Stop r \<Rightarrow> (r, w)
      | Go w \<Rightarrow> attr_value env check cdata opened its w
      | Enter k text \<Rightarrow>
          (case attr_value env check cdata (k # opened) text w of
             (r, w) \<Rightarrow> if r = XML_ERROR_NONE then attr_value env check cdata opened its w else (r, w)))"
  by pat_completeness auto
termination
proof (relation "measures [\<lambda>(env, check, cdata, opened, its, w). card (set (map fst env) - set opened),
    \<lambda>(env, check, cdata, opened, its, w). length its]")
  fix env check cdata opened it its w k body
  assume "item_effect env check cdata opened w it = Enter k body"
  then have "k \<in> set (map fst env) - set opened" by (rule item_effect_Enter)
  then have "card (set (map fst env) - set (k # opened)) < card (set (map fst env) - set opened)"
    by (intro psubset_card_mono) auto
  then show "((env, check, cdata, k # opened, body, w), env, check, cdata, opened, it # its, w) \<in>
      measures [\<lambda>(env, check, cdata, opened, its, w). card (set (map fst env) - set opened),
        \<lambda>(env, check, cdata, opened, its, w). length its]" by simp
qed auto

text \<open>The value as it is stored.\<close>

definition stored_value :: "bool \<Rightarrow> byte list \<Rightarrow> byte list" where
  "stored_value cdata w = (if \<not> cdata \<and> w \<noteq> [] \<and> last w = 0x20 then butlast w else w)"

section \<open>The parser's state\<close>

definition represents :: "bool \<Rightarrow> bool \<Rightarrow> ENTITY \<Rightarrow> edecl \<Rightarrow> bool" where
  "represents ns opn e d \<longleftrightarrow> en_open e = opn \<and> en_is_internal e = ed_internal d \<and> (en_notation e \<noteq> None) = ed_unparsed d \<and>
     rel_option (\<lambda>s its. value_text (internal_utf8_encoding ns) s 0 its) (en_textPtr e) (ed_text d)"

definition entities_rep :: "bool \<Rightarrow> 'm value_parser \<Rightarrow> (byte list \<times> edecl) list \<Rightarrow> byte list list \<Rightarrow> bool" where
  "entities_rep ns p env opened \<longleftrightarrow> table_ok (vp_generalEntities p) \<and>
     inj_on nm_addr (set (objects (ht_v (vp_generalEntities p)))) \<and>
     (\<forall>k. rel_option (\<lambda>e d. \<exists>x. vp_entities p (nm_addr e) = Some x \<and> represents ns (k \<in> set opened) x d)
        (contents (ht_v (vp_generalEntities p)) k) (map_of env k))"

definition value_state ::
  "('m \<Rightarrow> address set) \<Rightarrow> address set \<Rightarrow> (ptr \<times> byte list) set \<Rightarrow> (ptr \<times> byte list) set \<Rightarrow> byte list \<Rightarrow>
    'm value_parser \<Rightarrow> 'm \<Rightarrow> bool" where
  "value_state live rest F G w p m \<longleftrightarrow>
     pool_suite live (sp_mem (vp_pool p)) \<and> pool_suite live (sp_mem (vp_temp2Pool p)) \<and>
     pool_inv (vp_pool p) w F \<and> pool_inv (vp_temp2Pool p) [] G \<and>
     pool_holds live (dom (sp_heap (vp_temp2Pool p)) \<union> rest) (vp_pool p) m \<and>
     pool_holds live (dom (sp_heap (vp_pool p)) \<union> rest) (vp_temp2Pool p) m"

text \<open>What the loop leaves alone.\<close>

definition same_parser :: "'m value_parser \<Rightarrow> 'm value_parser \<Rightarrow> bool" where
  "same_parser p q \<longleftrightarrow> vp_internalEncoding q = vp_internalEncoding p \<and> vp_documentEntity q = vp_documentEntity p \<and>
     vp_standalone q = vp_standalone p \<and> vp_hasParamEntityRefs q = vp_hasParamEntityRefs p \<and>
     vp_openInternalEntities q = vp_openInternalEntities p \<and> vp_generalEntities q = vp_generalEntities p \<and>
     vp_entities q = vp_entities p \<and> vp_prolog q = vp_prolog p"

lemma same_parser_refl [simp]: "same_parser p p"
  by (simp add: same_parser_def)

lemma same_parser_trans: "same_parser p q \<Longrightarrow> same_parser q r \<Longrightarrow> same_parser p r"
  by (simp add: same_parser_def)

lemma same_parser_check: "same_parser p q \<Longrightarrow> check_entity_decl q = check_entity_decl p"
  by (simp add: same_parser_def check_entity_decl_def)

lemma same_parser_rep: "same_parser p q \<Longrightarrow> entities_rep ns q env opened = entities_rep ns p env opened"
  by (simp add: same_parser_def entities_rep_def)

lemma same_parser_upd [simp]:
  "same_parser p (q\<lparr>vp_pool := x\<rparr>) = same_parser p q" "same_parser p (q\<lparr>vp_temp2Pool := y\<rparr>) = same_parser p q"
  "same_parser p (value_event own e q) = same_parser p q"
  by (simp_all add: same_parser_def value_event_def)

lemma value_event_simps [simp]:
  "vp_pool (value_event own e p) = vp_pool p" "vp_temp2Pool (value_event own e p) = vp_temp2Pool p"
  by (simp_all add: value_event_def)

lemma value_state_cong:
  "vp_pool q = vp_pool p \<Longrightarrow> vp_temp2Pool q = vp_temp2Pool p \<Longrightarrow> value_state live rest F G w q m = value_state live rest F G w p m"
  by (simp add: value_state_def)

section \<open>Reading the value back\<close>

lemma after_space_ok: "pool_inv p w F \<Longrightarrow> after_space p = Some (w = [] \<or> last w = 0x20)"
  using pool_diffs(2) [of p w F] poolLastChar_ok [of p w F] by (cases "w = []") (auto simp: after_space_def poolLength_def)

section \<open>Two pools in one memory\<close>

lemma two_pools:
  assumes "pool_holds live (dom (sp_heap t) \<union> rest) p m" "pool_holds live (dom (sp_heap p) \<union> rest) t m"
    and "pool_holds live (dom (sp_heap t) \<union> rest) p' m'"
  shows "pool_holds live (dom (sp_heap p') \<union> rest) t m'"
  using assms by (auto simp: pool_holds_def)

lemma value_state_pool:
  assumes "value_state live rest F G w p m" "appended live (dom (sp_heap (vp_temp2Pool p)) \<union> rest) (vp_pool p) F w' (pool, True, m')"
  shows "value_state live rest F G w' (p\<lparr>vp_pool := pool\<rparr>) m'"
  using assms two_pools [of live "vp_temp2Pool p" rest "vp_pool p" m pool m']
  by (auto simp: value_state_def appended_def safe_def kept_def)

lemma value_state_temp2:
  assumes "value_state live rest F G w p m"
    and "appended live (dom (sp_heap (vp_pool p)) \<union> rest) (vp_temp2Pool p) G u (pool, True, m')"
  shows "value_state live rest F G w (p\<lparr>vp_temp2Pool := poolDiscard pool\<rparr>) m'"
proof -
  have "pool_inv (poolDiscard pool) [] G" "sp_heap (poolDiscard pool) = sp_heap pool" "sp_mem (poolDiscard pool) = sp_mem pool"
    using assms(2) pool_inv_Discard by (auto simp: appended_def safe_def kept_def poolDiscard_def)
  then show ?thesis using assms two_pools [of live "vp_pool p" rest "vp_temp2Pool p" m pool m']
    by (auto simp: value_state_def appended_def safe_def kept_def pool_holds_def)
qed

section \<open>Steps of the loop\<close>

text \<open>What a step of the loop leaves: the parser with the value \<open>w\<close>, or a refusal of memory.\<close>

definition went ::
  "('m \<Rightarrow> address set) \<Rightarrow> address set \<Rightarrow> (ptr \<times> byte list) set \<Rightarrow> (ptr \<times> byte list) set \<Rightarrow> 'm value_parser \<Rightarrow> byte list \<Rightarrow>
    value_step \<times> 'm value_parser \<times> 'm \<Rightarrow> bool" where
  "went live rest F G p w res \<longleftrightarrow> (case res of (step, q, m) \<Rightarrow> same_parser p q \<and>
     (step = Return XML_ERROR_NO_MEMORY \<or> step = Continue \<and> value_state live rest F G w q m))"

lemma append_chars_all: "append_chars cs pool m = append_all cs pool m"
  by (induction cs pool m rule: append_chars.induct) (auto split: Option.bind_split prod.split)

lemma value_chars_ok:
  assumes "value_state live rest F G w p m"
  shows "\<exists>res. value_chars cs p m = Some res \<and> went live rest F G p (w @ cs) res"
proof -
  from assms have "pool_suite live (sp_mem (vp_pool p))" "pool_inv (vp_pool p) w F"
    "pool_holds live (dom (sp_heap (vp_temp2Pool p)) \<union> rest) (vp_pool p) m" by (simp_all add: value_state_def)
  from append_all_ok [OF this, of cs] obtain pool ok m' where
    a: "append_all cs (vp_pool p) m = Some (pool, ok, m')"
    "appended live (dom (sp_heap (vp_temp2Pool p)) \<union> rest) (vp_pool p) F (w @ cs) (pool, ok, m')" by auto
  then show ?thesis using value_state_pool [OF assms] by (cases ok) (auto simp: value_chars_def append_chars_all went_def)
qed

lemma value_space_ok:
  assumes "value_state live rest F G w p m"
  shows "\<exists>res. value_space cdata p m = Some res \<and> went live rest F G p (spaced cdata w) res"
proof -
  have "pool_inv (vp_pool p) w F" using assms by (simp add: value_state_def)
  from after_space_ok [OF this] value_chars_ok [OF assms, of "[0x20]"] show ?thesis
    using assms by (auto simp: value_space_def spaced_def went_def)
qed

lemma encode_20: "XmlUtf8Encode 0x20 = [0x20]"
  by (simp add: XmlUtf8Encode_def)

lemma xml_char_range: "xml_char n \<Longrightarrow> 0 \<le> n \<and> XmlUtf8Encode n \<noteq> []"
  by (auto simp: xml_char_def XmlUtf8Encode_def)

lemma value_char_ref_ok:
  assumes "value_state live rest F G w p m" "charRefNumber enc b ptr = Some (if xml_char n then n else -1)"
  shows "\<exists>step q m'. value_char_ref cdata enc own b ptr p m = Some (step, q, m') \<and>
    (case item_effect env check cdata opened w (Char n) of
       Stop r \<Rightarrow> same_parser p q \<and> step = Return r \<and> value_state live rest F G w q m'
     | Go w' \<Rightarrow> went live rest F G p w' (step, q, m')
     | Enter k body \<Rightarrow> False)"
proof (cases "xml_char n")
  case True
  note n = xml_char_range [OF True]
  have "pool_inv (vp_pool p) w F" using assms(1) by (simp add: value_state_def)
  note sp = after_space_ok [OF this]
  show ?thesis
  proof (cases "n = 0x20")
    case t: True
    show ?thesis
    proof (cases "\<not> cdata \<and> (w = [] \<or> last w = 0x20)")
      case gone: True
      then have "value_char_ref cdata enc own b ptr p m = Some (Continue, p, m)"
        using sp assms True t by (auto simp: value_char_ref_def)
      then show ?thesis using gone assms True t by (simp add: went_def spaced_def)
    next
      case False
      then have "value_char_ref cdata enc own b ptr p m = value_chars [0x20] p m"
        using sp assms True t by (auto simp: value_char_ref_def encode_20)
      then show ?thesis using False value_chars_ok [OF assms(1), of "[0x20]"] True t by (auto simp: spaced_def)
    qed
  next
    case False
    then show ?thesis using value_chars_ok [OF assms(1), of "XmlUtf8Encode n"] assms True n
      by (auto simp: value_char_ref_def)
  qed
next
  case False
  then show ?thesis using assms value_state_cong [of "value_event own (Some ptr) p" p] by (auto simp: value_char_ref_def)
qed

section \<open>Entities\<close>

text \<open>The entry of the table for \<open>k\<close>, and its object.\<close>

definition entry_at :: "bool \<Rightarrow> 'm value_parser \<Rightarrow> byte list \<Rightarrow> address \<Rightarrow> ENTITY \<Rightarrow> bool" where
  "entry_at ns p k a x \<longleftrightarrow> (\<exists>e. contents (ht_v (vp_generalEntities p)) k = Some e \<and> nm_addr e = a) \<and> vp_entities p a = Some x"

definition fits ::
  "('m \<Rightarrow> address set) \<Rightarrow> address set \<Rightarrow> (ptr \<times> byte list) set \<Rightarrow> (ptr \<times> byte list) set \<Rightarrow> bool \<Rightarrow> effect \<Rightarrow>
    'm value_parser \<Rightarrow> byte list \<Rightarrow> value_step \<times> 'm value_parser \<times> 'm \<Rightarrow> bool" where
  "fits live rest F G ns ef p w res \<longleftrightarrow> (case res of (step, q, m) \<Rightarrow> same_parser p q \<and>
     (step = Return XML_ERROR_NO_MEMORY \<or>
      (case ef of
         Stop r \<Rightarrow> step = Return r \<and> value_state live rest F G w q m
       | Go w' \<Rightarrow> step = Continue \<and> value_state live rest F G w' q m
       | Enter k body \<Rightarrow> value_state live rest F G w q m \<and>
           (\<exists>a x s. step = Expand a s \<and> entry_at ns p k a x \<and> \<not> en_open x \<and>
             value_text (internal_utf8_encoding ns) s 0 body))))"

lemma went_fits: "went live rest F G p w' res \<Longrightarrow> fits live rest F G ns (Go w') p w res"
  by (simp add: went_def fits_def split: prod.splits)

lemma c_string_start:
  assumes "pool_inv p (k @ [0]) F" "sp_start p = Some x" "0 \<notin> set k"
  shows "c_string (sp_heap p) x = Some k"
proof -
  have "reads (sp_heap p) x (k @ [0])" using assms(1,2) by (cases x) (auto elim!: pool_inv_start)
  then show ?thesis using reads_c_string assms(3) by blast
qed

lemma cstr_name: "0 \<notin> set k \<Longrightarrow> cstr (k @ [0]) = k" "terminated (k @ [0])"
  by (induction k) (auto simp: cstr_def terminated_def)

lemma use_entity_fits:
  assumes rep: "entities_rep ns p env opened" and k: "map_of predefined_names k = None"
    and ent: "entity_object (vp_entities p) (contents (ht_v (vp_generalEntities p)) k) = Some ent"
    and st: "value_state live rest F G w q m" and q: "same_parser p q"
    and u: "use_entity own ptr ent q = (step, q')"
  shows "fits live rest F G ns (item_effect env (check_entity_decl p) cdata opened w (Ref k)) p w (step, q', m)"
proof -
  have ok: "value_state live rest F G w (value_event own e q) m" for e using st value_state_cong [of "value_event own e q" q] by simp
  have rel: "rel_option (\<lambda>e d. \<exists>x. vp_entities p (nm_addr e) = Some x \<and> represents ns (k \<in> set opened) x d)
        (contents (ht_v (vp_generalEntities p)) k) (map_of env k)" using rep by (simp add: entities_rep_def)
  note ck = same_parser_check [OF q]
  show ?thesis
  proof (cases "contents (ht_v (vp_generalEntities p)) k")
    case None
    then have "map_of env k = None" "ent = None" using rel ent by (auto simp: entity_object_def)
    then show ?thesis using k u ck q st by (auto simp: use_entity_def fits_def split: if_splits)
  next
    case (Some e)
    then obtain d x where d: "map_of env k = Some d" "vp_entities p (nm_addr e) = Some x" "represents ns (k \<in> set opened) x d"
      using rel by (auto simp: option_rel_Some1)
    then have ent: "ent = Some (nm_addr e, x)" using ent Some by (simp add: entity_object_def)
    have at: "entry_at ns p k (nm_addr e) x" using Some d(2) by (auto simp: entry_at_def)
    note r = d(3) [unfolded represents_def]
    show ?thesis
    proof (cases "ed_text d")
      case None
      then show ?thesis using k u ck q st ok d(1) ent r
        by (auto simp: use_entity_def fits_def split: if_splits option.splits)
    next
      case (Some body)
      then obtain s where s: "en_textPtr x = Some s" "value_text (internal_utf8_encoding ns) s 0 body"
        using r by (auto simp: option_rel_Some2)
      show ?thesis using k u ck q st ok d(1) ent r Some s at
        by (auto simp: use_entity_def fits_def split: if_splits)
    qed
  qed
qed

lemma value_entity_ref_ok:
  assumes enc: "enc \<in> set (builtin_encodings ns)" and st: "value_state live rest F G w p m"
    and rep: "entities_rep ns p env opened"
    and name: "name_at enc b (ptr + MINBPC enc) q" "q \<le> length b" "converts enc (segment b (ptr + MINBPC enc) q) k" "0 \<notin> set k"
  shows "\<exists>res. value_entity_ref enc own b ptr (q + MINBPC enc) p m = Some res \<and>
    fits live rest F G ns (item_effect env (check_entity_decl p) cdata opened w (Ref k)) p w res"
proof -
  note mb = builtin_min_bytes [OF enc]
  define c where "c = (case map_of predefined_names k of None \<Rightarrow> 0 | Some c \<Rightarrow> c)"
  have pre: "predefinedEntityName enc b (ptr + MINBPC enc) q = Some c"
    unfolding c_def by (rule ref_predefined [OF enc name(1-3)])
  show ?thesis
  proof (cases "map_of predefined_names k")
    case (Some x)
    then have "c = x" "x \<noteq> 0" by (auto simp: c_def predefined_names_def split: if_splits)
    then show ?thesis using value_chars_ok [OF st, of "[x]"] pre mb Some
      by (auto simp: value_entity_ref_def Let_def intro: went_fits)
  next
    case None
    from st have "pool_suite live (sp_mem (vp_temp2Pool p))" "pool_inv (vp_temp2Pool p) [] G"
      "pool_holds live (dom (sp_heap (vp_pool p)) \<union> rest) (vp_temp2Pool p) m" by (simp_all add: value_state_def)
    from text_converter.store_ok [OF builtin_text_converter [OF enc] name(3) this] obtain pool r m1 where
      s: "poolStoreString enc (segment b (ptr + MINBPC enc) q) (vp_temp2Pool p) m = Some (pool, r, m1)" "r \<noteq> None \<longrightarrow> r = sp_start pool"
      "appended live (dom (sp_heap (vp_pool p)) \<union> rest) (vp_temp2Pool p) G (k @ [0]) (pool, r \<noteq> None, m1)" by auto
    show ?thesis
    proof (cases r)
      case r: None
      then show ?thesis using pre None mb s(1)
        by (auto simp: value_entity_ref_def Let_def c_def segment_def fits_def)
    next
      case r: (Some y)
      have "(r \<noteq> None) = True" using r by simp
      moreover have "sp_start pool = Some y" using s(2) r by simp
      ultimately have ok: "(r \<noteq> None) = True" "sp_start pool = Some y" by simp_all
      note app = s(3) [unfolded ok(1)]
      then have "pool_inv pool (k @ [0]) G" "sp_start pool = Some y" using ok(2) by (auto simp: appended_def safe_def kept_def)
      from c_string_start [OF this name(4)] have cs: "c_string (sp_heap pool) y = Some k" .
      define p1 where "p1 = p\<lparr>vp_temp2Pool := poolDiscard pool\<rparr>"
      have st1: "value_state live rest F G w p1 m1"
        using value_state_temp2 [OF st, of "k @ [0]" pool m1] app by (simp add: p1_def)
      have "table_ok (vp_generalEntities p)" using rep by (simp add: entities_rep_def)
      from lookup_found [OF this cstr_name(2), of 0 k m1] have
        lk: "lookup (vp_generalEntities p) (k @ [0]) 0 m1 = Some (vp_generalEntities p, contents (ht_v (vp_generalEntities p)) k, m1)"
        by (simp add: cstr_name name(4))
      obtain ent where ent: "entity_object (vp_entities p) (contents (ht_v (vp_generalEntities p)) k) = Some ent"
        using rep [unfolded entities_rep_def] by (cases "contents (ht_v (vp_generalEntities p)) k")
          (auto simp: entity_object_def option_rel_Some1 dest!: spec [of _ k])
      obtain step q' where u: "use_entity own ptr ent p1 = (step, q')" by fastforce
      have "same_parser p p1" by (simp add: p1_def)
      from use_entity_fits [OF rep None ent st1 this u]
      show ?thesis using pre None mb s(1) r cs lk ent u
        by (auto simp: value_entity_ref_def Let_def c_def segment_def p1_def)
    qed
  qed
qed

section \<open>The value\<close>

lemma marked_next:
  assumes "value_text enc b q its" "case its of [] \<Rightarrow> True | it # _ \<Rightarrow> it \<noteq> Less \<and> (\<forall>t. it \<noteq> Data t)"
    and "enc \<in> set (builtin_encodings ns)"
  shows "q = length b \<or> (\<exists>t. BYTE_TYPE enc b q = Some t \<and> t \<in> marks - {BT_LT})"
  using assms(1)
proof cases
  case (Decimal ds its')
  then have "BYTE_TYPE enc b q = Some BT_AMP"
    using text_byte_type [of enc b q "0x26" "0x23 # ds @ [0x3B]"] ref_types(3) [OF assms(3)] by simp
  then show ?thesis by (simp add: marks_def)
next
  case (Hexadecimal ds its')
  then have "BYTE_TYPE enc b q = Some BT_AMP"
    using text_byte_type [of enc b q "0x26" "0x23 # 0x78 # ds @ [0x3B]"] ref_types(3) [OF assms(3)] by simp
  then show ?thesis by (simp add: marks_def)
qed (use assms(2) in \<open>auto simp: marks_def\<close>)

lemma value_text_inside: "value_text enc b q its \<Longrightarrow> q = length b \<or> (\<exists>u. BYTE_TYPE enc b q = Some u)"
  by (erule value_text.cases) (auto dest: text_byte_type elim: plain_run.cases simp: ascii_def)

lemma char_ref_step:
  assumes "value_state live rest F G w p m" "charRefNumber enc b ptr = Some (if xml_char n then n else -1)"
    and "attributeValueTok enc b ptr = Some (XML_TOK_CHAR_REF, Some e)"
  shows "\<exists>step q m'. attributeValueTok enc b ptr = Some (XML_TOK_CHAR_REF, Some e) \<and>
    value_switch cdata enc own b ptr XML_TOK_CHAR_REF (Some e) p m = Some (step, e, q, m') \<and>
    fits live rest F G ns (item_effect env check cdata opened w (Char n)) p w (step, q, m')"
proof -
  from value_char_ref_ok [OF assms(1,2), of cdata own env check opened] obtain step q m' where
    v: "value_char_ref cdata enc own b ptr p m = Some (step, q, m')"
    "case item_effect env check cdata opened w (Char n) of
       Stop r \<Rightarrow> same_parser p q \<and> step = Return r \<and> value_state live rest F G w q m'
     | Go w' \<Rightarrow> went live rest F G p w' (step, q, m')
     | Enter k body \<Rightarrow> False" by blast
  then have "fits live rest F G ns (item_effect env check cdata opened w (Char n)) p w (step, q, m')"
    by (cases "item_effect env check cdata opened w (Char n)") (auto simp: fits_def went_def)
  then show ?thesis using v(1) assms(3) by (simp add: value_switch_def)
qed

text \<open>A step of the loop on the text of an item.\<close>

lemma item_step:
  assumes enc: "enc \<in> set (builtin_encodings ns)" and st: "value_state live rest F G w p m"
    and rep: "entities_rep ns p env opened" and vt: "value_text enc b ptr (it # its)"
  shows "\<exists>tok nx step e q m'. attributeValueTok enc b ptr = Some (tok, nx) \<and>
    value_switch cdata enc own b ptr tok nx p m = Some (step, e, q, m') \<and>
    fits live rest F G ns (item_effect env (check_entity_decl p) cdata opened w it) p w (step, q, m') \<and>
    (it \<noteq> Less \<longrightarrow> value_text enc b e its)"
  using vt
proof cases
  case (Data q t)
  from st have "pool_suite live (sp_mem (vp_pool p))" "pool_inv (vp_pool p) w F"
    "pool_holds live (dom (sp_heap (vp_temp2Pool p)) \<union> rest) (vp_pool p) m" by (simp_all add: value_state_def)
  from text_converter.append_ok [OF builtin_text_converter [OF enc] Data(4) this] obtain pool r m1 where
    a: "poolAppend enc (segment b ptr q) (vp_pool p) m = Some (pool, r, m1)"
      "appended live (dom (sp_heap (vp_temp2Pool p)) \<union> rest) (vp_pool p) F (w @ t) (pool, r \<noteq> None, m1)" by blast
  have tok: "attributeValueTok enc b ptr = Some (XML_TOK_DATA_CHARS, Some q)"
    using data_token [OF Data(2,3) marked_next [OF Data(5,6) enc]] .
  have "r \<noteq> None \<Longrightarrow> value_state live rest F G (w @ t) (p\<lparr>vp_pool := pool\<rparr>) m1"
    using value_state_pool [OF st, of "w @ t" pool m1] a(2) by simp
  then show ?thesis using tok a(1) Data(1,5)
    by (cases "r = None") (auto simp: value_switch_def segment_def fits_def)
next
  case (White t)
  from white_token [OF White(2,3)] obtain tok where tok: "tok \<in> {XML_TOK_ATTRIBUTE_VALUE_S, XML_TOK_DATA_NEWLINE}"
    "attributeValueTok enc b ptr = Some (tok, Some (ptr + MINBPC enc))" by blast
  from value_space_ok [OF st, of cdata] obtain step q m1 where
    "value_space cdata p m = Some (step, q, m1)" "went live rest F G p (spaced cdata w) (step, q, m1)" by auto
  then show ?thesis using tok White(1,4) by (auto simp: value_switch_def intro: went_fits)
next
  case Return
  then obtain u where u: "ptr + MINBPC enc \<noteq> length b \<longrightarrow> BYTE_TYPE enc b (ptr + MINBPC enc) = Some u" "u \<noteq> BT_LF"
    using value_text_inside [OF Return(4)] by (cases "ptr + MINBPC enc = length b") fastforce+
  from value_space_ok [OF st, of cdata] obtain step q m1 where
    "value_space cdata p m = Some (step, q, m1)" "went live rest F G p (spaced cdata w) (step, q, m1)" by auto
  then show ?thesis using return_token [OF Return(2) u(1)] u(2) Return(1,4) builtin_min_bytes [OF enc]
    by (auto simp: value_switch_def intro: went_fits)
next
  case Return_Feed
  then have "ptr + MINBPC enc \<noteq> length b" using byte_type_inside [OF Return_Feed(3)] by auto
  moreover from value_space_ok [OF st, of cdata] obtain step q m1 where
    "value_space cdata p m = Some (step, q, m1)" "went live rest F G p (spaced cdata w) (step, q, m1)" by auto
  ultimately show ?thesis using return_token [OF Return_Feed(2), of BT_LF] Return_Feed
    by (auto simp: value_switch_def intro: went_fits)
next
  case (Decimal ds)
  show ?thesis
    using char_ref_step [OF st charRefNumber_decimal [OF Decimal(2,4)] decimal_token [OF enc Decimal(2-4)]] Decimal(1,5)
    by fastforce
next
  case (Hexadecimal ds)
  show ?thesis
    using char_ref_step [OF st charRefNumber_hexadecimal [OF Hexadecimal(2,4)] hexadecimal_token [OF enc Hexadecimal(2-4)]]
      Hexadecimal(1,5) by fastforce
next
  case (Ref q k)
  have "q \<le> length b" using byte_type_inside [OF Ref(4)] by simp
  from value_entity_ref_ok [OF enc st rep Ref(3) this Ref(5,6), of own cdata] obtain step q' m1 where
    "value_entity_ref enc own b ptr (q + MINBPC enc) p m = Some (step, q', m1)"
    "fits live rest F G ns (item_effect env (check_entity_decl p) cdata opened w (Ref k)) p w (step, q', m1)"
    by (auto simp del: item_effect.simps)
  then show ?thesis using ref_token [OF Ref(2-4)] Ref(1,7) by (auto simp: value_switch_def simp del: item_effect.simps)
next
  case (Less q)
  have "value_state live rest F G w (value_event own e p) m" for e using st value_state_cong [of "value_event own e p" p] by simp
  then show ?thesis using less_token [OF Less(2,3)] Less(1) by (auto simp: value_switch_def fits_def)
qed

lemma contents_key:
  assumes "table_ok t" "contents (ht_v t) k = Some e"
  shows "e \<in> set (objects (ht_v t)) \<and> key_of e = k"
proof -
  have "distinct (map key_of (objects (ht_v t)))"
    using assms(1) slots_ok_D(3) by (auto simp: table_ok_def unallocated_def sized_def)
  from contents_iff [OF this] assms(2) show ?thesis by (simp add: set_objects)
qed

lemma enter_entity:
  assumes "entities_rep ns p env opened" "entry_at ns p k a x" "\<not> en_open x"
  shows "entities_rep ns (p\<lparr>vp_entities := (vp_entities p)(a \<mapsto> x\<lparr>en_open := True\<rparr>)\<rparr>) env (k # opened)"
    "(vp_entities p)(a \<mapsto> x\<lparr>en_open := True\<rparr>, a \<mapsto> x\<lparr>en_open := True, en_open := False\<rparr>) = vp_entities p"
proof -
  let ?t = "vp_generalEntities p"
  obtain e where e: "contents (ht_v ?t) k = Some e" "nm_addr e = a" "vp_entities p a = Some x"
    using assms(2) by (auto simp: entry_at_def)
  have t: "table_ok ?t" "inj_on nm_addr (set (objects (ht_v ?t)))" using assms(1) by (simp_all add: entities_rep_def)
  have other: "nm_addr e' \<noteq> a" if "contents (ht_v ?t) k' = Some e'" "k' \<noteq> k" for k' e'
    using contents_key [OF t(1) e(1)] contents_key [OF t(1) that(1)] that(2) e(2) inj_onD [OF t(2)] by metis
  have "rel_option (\<lambda>e d. \<exists>x'. ((vp_entities p)(a \<mapsto> x\<lparr>en_open := True\<rparr>)) (nm_addr e) = Some x' \<and>
      represents ns (k' \<in> set (k # opened)) x' d) (contents (ht_v ?t) k') (map_of env k')" for k'
  proof -
    have rel: "rel_option (\<lambda>e d. \<exists>x. vp_entities p (nm_addr e) = Some x \<and> represents ns (k' \<in> set opened) x d)
        (contents (ht_v ?t) k') (map_of env k')" using assms(1) by (simp add: entities_rep_def)
    show ?thesis
    proof (cases "k' = k")
      case True
      then obtain d where "map_of env k = Some d" "represents ns (k \<in> set opened) x d"
        using rel e by (auto simp: option_rel_Some1)
      then show ?thesis using True e by (simp add: represents_def)
    next
      case False
      then show ?thesis using rel other
        by (cases "contents (ht_v ?t) k'") (auto simp: option_rel_Some1)
    qed
  qed
  then show "entities_rep ns (p\<lparr>vp_entities := (vp_entities p)(a \<mapsto> x\<lparr>en_open := True\<rparr>)\<rparr>) env (k # opened)"
    using t by (simp add: entities_rep_def)
  have "x\<lparr>en_open := False\<rparr> = x" using assms(3) by (cases x) simp
  then show "(vp_entities p)(a \<mapsto> x\<lparr>en_open := True\<rparr>, a \<mapsto> x\<lparr>en_open := True, en_open := False\<rparr>) = vp_entities p"
    using e(3) by (simp add: fun_upd_idem)
qed

definition evaluated ::
  "('m \<Rightarrow> address set) \<Rightarrow> address set \<Rightarrow> (ptr \<times> byte list) set \<Rightarrow> (ptr \<times> byte list) set \<Rightarrow> 'm value_parser \<Rightarrow>
    XML_Error \<times> byte list \<Rightarrow> XML_Error \<times> 'm value_parser \<times> 'm \<Rightarrow> bool" where
  "evaluated live rest F G p v res \<longleftrightarrow> (case res of (r, q, m) \<Rightarrow> same_parser p q \<and>
     (r = XML_ERROR_NO_MEMORY \<or> r = fst v \<and> value_state live rest F G (snd v) q m))"

lemma attr_value_ok:
  "enc \<in> set (builtin_encodings ns) \<Longrightarrow> value_state live rest F G w p m \<Longrightarrow> entities_rep ns p env opened \<Longrightarrow>
    value_text enc b ptr its \<Longrightarrow> vp_internalEncoding p = internal_utf8_encoding ns \<Longrightarrow> check_entity_decl p = check \<Longrightarrow>
    \<exists>res. appendAttributeValue cdata enc own b ptr p m = Some res \<and>
      evaluated live rest F G p (attr_value env check cdata opened its w) res"
proof (induction env check cdata opened its w arbitrary: enc own b ptr p m rule: attr_value.induct)
  case (1 env check cdata opened w)
  from 1(4) have "ptr = length b" by cases
  then have "appendAttributeValue cdata enc own b ptr p m = Some (XML_ERROR_NONE, p, m)"
    by (subst appendAttributeValue.simps) (simp add: attributeValueTok_def value_switch_def)
  then show ?case using 1(2) by (simp add: evaluated_def)
next
  case (2 env check cdata opened it its w)
  from item_step [OF "2.prems"(1-4), of cdata own, unfolded "2.prems"(6)] obtain tok nx step e q m1 where
    s: "attributeValueTok enc b ptr = Some (tok, nx)" "value_switch cdata enc own b ptr tok nx p m = Some (step, e, q, m1)"
      "it \<noteq> Less \<longrightarrow> value_text enc b e its"
    and f: "fits live rest F G ns (item_effect env check cdata opened w it) p w (step, q, m1)"
    by blast
  have run: "appendAttributeValue cdata enc own b ptr p m = (case step of
       Return r \<Rightarrow> Some (r, q, m1)
     | Continue \<Rightarrow> appendAttributeValue cdata enc own b e q m1
     | Expand a text \<Rightarrow> do {
         p \<leftarrow> set_open True a q;
         (r, p, m) \<leftarrow> appendAttributeValue cdata (vp_internalEncoding p) False text 0 p m1;
         p \<leftarrow> set_open False a p;
         if r \<noteq> XML_ERROR_NONE then Some (r, p, m)
         else appendAttributeValue cdata enc own b e p m
       })"
    by (subst appendAttributeValue.simps) (simp add: s(1,2))
  have same: "same_parser p q" using f by (simp add: fits_def)
  have q: "vp_internalEncoding q = internal_utf8_encoding ns" "check_entity_decl q = check" "entities_rep ns q env opened"
    using same "2.prems"(3,5,6) same_parser_check [OF same] same_parser_rep [OF same] by (simp_all add: same_parser_def)
  consider "step = Return XML_ERROR_NO_MEMORY"
    | r where "item_effect env check cdata opened w it = Stop r" "step = Return r" "value_state live rest F G w q m1"
    | w' where "item_effect env check cdata opened w it = Go w'" "step = Continue" "value_state live rest F G w' q m1"
    | k body a x t where "item_effect env check cdata opened w it = Enter k body" "value_state live rest F G w q m1"
        "step = Expand a t" "entry_at ns p k a x" "\<not> en_open x" "value_text (internal_utf8_encoding ns) t 0 body"
    using f by (cases "item_effect env check cdata opened w it") (auto simp: fits_def)
  then show ?case
  proof cases
    case (3 w')
    then have "value_text enc b e its" using s(3) by auto
    from "2.IH"(1) [OF 3(1) "2.prems"(1) 3(3) q(3) this q(1,2), of own] obtain res where
      "appendAttributeValue cdata enc own b e q m1 = Some res"
      "evaluated live rest F G q (attr_value env check cdata opened its w') res" by blast
    then show ?thesis using 3 run same same_parser_trans [OF same] by (auto simp: evaluated_def)
  next
    case (4 k body a x t)
    have vt: "value_text enc b e its" using s(3) 4(1) by auto
    define q1 where "q1 = q\<lparr>vp_entities := (vp_entities q)(a \<mapsto> x\<lparr>en_open := True\<rparr>)\<rparr>"
    have at: "entry_at ns q k a x" using 4(4) same by (simp add: entry_at_def same_parser_def)
    note en = enter_entity [OF q(3) at 4(5)]
    have o1: "set_open True a q = Some q1" using at by (simp add: set_open_def entry_at_def q1_def)
    have "check_entity_decl q1 = check_entity_decl q" by (simp add: q1_def check_entity_decl_def)
    then have q1: "entities_rep ns q1 env (k # opened)" "vp_internalEncoding q1 = internal_utf8_encoding ns"
      "check_entity_decl q1 = check" "value_state live rest F G w q1 m1"
      using en(1) q(1,2) 4(2) value_state_cong [of q1 q] by (simp_all add: q1_def)
    have int: "internal_utf8_encoding ns \<in> set (builtin_encodings ns)" by (simp add: builtin_encodings_def)
    from "2.IH"(2) [OF 4(1) int q1(4,1) 4(6) q1(2,3), of False] obtain r q2 m2 where
      r: "appendAttributeValue cdata (internal_utf8_encoding ns) False t 0 q1 m1 = Some (r, q2, m2)"
        "evaluated live rest F G q1 (attr_value env check cdata (k # opened) body w) (r, q2, m2)" by auto
    have s2: "same_parser q1 q2" using r(2) by (simp add: evaluated_def)
    define q3 where "q3 = q2\<lparr>vp_entities := (vp_entities q2)(a \<mapsto> x\<lparr>en_open := True, en_open := False\<rparr>)\<rparr>"
    have o2: "set_open False a q2 = Some q3" using s2 by (simp add: set_open_def same_parser_def q1_def q3_def)
    have s3: "same_parser q q3" using s2 en(2) by (simp add: same_parser_def q1_def q3_def)
    have run': "appendAttributeValue cdata enc own b ptr p m =
        (if r \<noteq> XML_ERROR_NONE then Some (r, q3, m2) else appendAttributeValue cdata enc own b e q3 m2)"
      unfolding run 4(3) by (simp add: o1 q1(2) r(1) o2)
    obtain r0 w0 where v: "attr_value env check cdata (k # opened) body w = (r0, w0)" by fastforce
    have st3: "r = XML_ERROR_NO_MEMORY \<or> r = r0 \<and> value_state live rest F G w0 q3 m2"
      using r(2) value_state_cong [of q3 q2] by (simp add: evaluated_def v q3_def)
    show ?thesis
    proof (cases "r = XML_ERROR_NONE")
      case True
      then have r0: "r0 = XML_ERROR_NONE" "value_state live rest F G w0 q3 m2" using st3 by simp_all
      have q3: "vp_internalEncoding q3 = internal_utf8_encoding ns" "check_entity_decl q3 = check" "entities_rep ns q3 env opened"
        using s3 q same_parser_check [OF s3] same_parser_rep [OF s3] by (simp_all add: same_parser_def)
      from "2.IH"(3) [OF 4(1) v [symmetric] r0(1) "2.prems"(1) r0(2) q3(3) vt q3(1,2), of own] obtain res where
        "appendAttributeValue cdata enc own b e q3 m2 = Some res"
        "evaluated live rest F G q3 (attr_value env check cdata opened its w0) res" by blast
      then show ?thesis using 4(1) v r0 run' True same_parser_trans [OF same same_parser_trans [OF s3]]
        by (auto simp: evaluated_def)
    next
      case False
      then show ?thesis using run' 4(1) v st3 same_parser_trans [OF same s3] by (auto simp: evaluated_def)
    qed
  qed (use run same in \<open>auto simp: evaluated_def\<close>)
qed

section \<open>Properties\<close>

lemma stored_value_ok:
  assumes "enc \<in> set (builtin_encodings ns)" and "vp_internalEncoding p = internal_utf8_encoding ns"
    and "value_state live rest F G [] p m" and "entities_rep ns p env opened" and "value_text enc b ptr its"
  shows "\<exists>r q m'. storeAttributeValue cdata enc own b ptr p m = Some (r, q, m') \<and> vp_entities q = vp_entities p \<and>
    (r = XML_ERROR_NO_MEMORY \<or>
     (case attr_value env (check_entity_decl p) cdata opened its [] of (s, w) \<Rightarrow>
        r = s \<and> (r = XML_ERROR_NONE \<longrightarrow> value_state live rest F G (stored_value cdata w @ [0]) q m')))"
proof -
  obtain s w where v: "attr_value env (check_entity_decl p) cdata opened its [] = (s, w)" by fastforce
  from attr_value_ok [OF assms(1,3,4,5,2) refl, of cdata own] obtain r q m1 where
    a: "appendAttributeValue cdata enc own b ptr p m = Some (r, q, m1)" "same_parser p q"
      "r = XML_ERROR_NO_MEMORY \<or> r = s \<and> value_state live rest F G w q m1"
    by (auto simp: evaluated_def v)
  show ?thesis
  proof (cases "r = XML_ERROR_NONE")
    case True
    then have st: "value_state live rest F G w q m1" and s: "s = XML_ERROR_NONE" using a(3) by auto
    then have pl: "pool_inv (vp_pool q) w F" "pool_holds live (dom (sp_heap (vp_temp2Pool q)) \<union> rest) (vp_pool q) m1"
      "pool_suite live (sp_mem (vp_pool q))" by (simp_all add: value_state_def)
    obtain pool where t: "(if cdata then Some (vp_pool q) else trim_space (vp_pool q)) = Some pool"
      "safe live (dom (sp_heap (vp_temp2Pool q)) \<union> rest) (vp_pool q) (stored_value cdata w) F pool m1"
    proof (cases cdata)
      case True
      then show ?thesis using that [of "vp_pool q"] safe_refl [OF pl(1,2)] by (simp add: stored_value_def)
    next
      case False
      then show ?thesis using that trim_space_ok [OF pl(1,2)] by (auto simp: stored_value_def split: if_splits)
    qed
    then have "pool_suite live (sp_mem pool)" "pool_inv pool (stored_value cdata w) F"
      "pool_holds live (dom (sp_heap (vp_temp2Pool q)) \<union> rest) pool m1" using pl(3) by (auto simp: safe_def kept_def)
    from appendChar_ok [OF this, of 0] obtain pool' ok m2 where
      e: "poolAppendChar pool 0 m1 = Some (pool', ok, m2)"
        "appended live (dom (sp_heap (vp_temp2Pool q)) \<union> rest) pool F (stored_value cdata w @ [0]) (pool', ok, m2)" by auto
    have st': "value_state live rest F G (stored_value cdata w @ [0]) (q\<lparr>vp_pool := pool'\<rparr>) m2" if ok
      using e(2) that t(2) st two_pools [of live "vp_temp2Pool q" rest "vp_pool q" m1 pool' m2]
      by (auto simp: value_state_def appended_def safe_def kept_def)
    have "storeAttributeValue cdata enc own b ptr p m =
        Some (if ok then XML_ERROR_NONE else XML_ERROR_NO_MEMORY, q\<lparr>vp_pool := pool'\<rparr>, m2)"
      using a(1) True t(1) e(1) by (simp add: storeAttributeValue_def)
    then show ?thesis using st' v s a(2) by (cases ok) (auto simp: same_parser_def)
  next
    case False
    then show ?thesis using a v by (auto simp: storeAttributeValue_def same_parser_def)
  qed
qed

text \<open>A table with one entity, for the witnesses.\<close>

definition some_entity :: "ENTITY" where
  "some_entity = \<lparr>en_textPtr = Some [0x9, 0x62], en_processed = 0, en_systemId = None, en_base = None, en_publicId = None,
     en_notation = None, en_open = False, en_is_param = False, en_is_internal = True\<rparr>"

definition some_env :: "(byte list \<times> edecl) list" where
  "some_env = [(ascii ''x'', \<lparr>ed_text = Some [White, Data [0x62]], ed_unparsed = False, ed_internal = True\<rparr>)]"

definition some_value_parser :: "arena HASH_TABLE \<Rightarrow> address \<Rightarrow> arena value_parser" where
  "some_value_parser t a = \<lparr>vp_internalEncoding = internal_utf8_encoding False, vp_eventPtr = None, vp_documentEntity = True,
     vp_standalone = False, vp_hasParamEntityRefs = False, vp_openInternalEntities = False, vp_generalEntities = t,
     vp_entities = [a \<mapsto> some_entity], vp_temp2Pool = poolInit arena_suite, vp_pool = poolInit arena_suite, vp_prolog = False\<rparr>"

lemma one_entry:
  obtains t e m where "lookup (hashTableInit arena_suite) (ascii ''x'' @ [0]) 40 (arena_init 9) = Some (t, Some e, m)"
    "table_ok t" "contents (ht_v t) = [ascii ''x'' \<mapsto> e]" "objects (ht_v t) = [e]"
proof -
  have w: "push_bit (unat INIT_POWER) (1 :: size_t) = 64" "(64 :: size_t) * sizeof_ptr = 256"
    by (simp_all add: INIT_POWER_def sizeof_ptr_def push_bit_eq_mult)
  have h: "hash (ascii ''x'' @ [0]) = Some 0x78" by code_simp
  let ?e = "\<lparr>nm_addr = Suc (Suc 0), nm_name = ascii ''x'' @ [0], nm_rest = replicate 36 0\<rparr>"
  let ?t = "\<lparr>ht_v = (replicate 64 None)[56 := Some ?e], ht_base = Some 1, ht_power = 6, ht_size = 64, ht_used = 1, ht_mem = arena_suite\<rparr>"
  obtain m where l: "lookup (hashTableInit arena_suite) (ascii ''x'' @ [0]) 40 (arena_init 9) = Some (?t, Some ?e, m)"
    using h by (simp add: lookup_def lookup_init_def lookup_create_def hashTableInit_def w Let_def arena_suite_def arena_malloc_def
        arena_init_def new_slots_def sizeof_ptr_def slot_at_def INIT_POWER_def)
  have "holds arena_live {} (hashTableInit arena_suite) (arena_init 9)"
    by (simp add: holds_def owned_def hashTableInit_def arena_live_def arena_init_def)
  moreover have "table_ok (hashTableInit arena_suite)" "lawful arena_live (ht_mem (hashTableInit arena_suite))"
    using lawful_arena by (simp_all add: table_ok_def unallocated_def hashTableInit_def)
  ultimately have "created arena_live {} (hashTableInit arena_suite) (ascii ''x'' @ [0]) 40 (?t, Some ?e, m)"
    using lookup_creates [of arena_live "hashTableInit arena_suite" "{}" "arena_init 9" "ascii ''x'' @ [0]" 40] l
      cstr_name [of "ascii ''x''"]
    by (auto simp: hashTableInit_def sizeof_ptr_def word_le_nat_alt)
  then have "table_ok ?t" "contents (ht_v ?t) = [ascii ''x'' \<mapsto> ?e]"
    using cstr_name [of "ascii ''x''"] by (simp_all add: created_def hashTableInit_def)
  moreover have "objects (ht_v ?t) = [?e]" using objects_insert [of 56 "replicate 64 None" ?e] by simp
  ultimately show thesis using that l by blast
qed

lemma some_rep:
  assumes "table_ok t" "contents (ht_v t) = [ascii ''x'' \<mapsto> e]" "objects (ht_v t) = [e]"
  shows "entities_rep False (some_value_parser t (nm_addr e)) some_env []"
proof -
  have "value_text (internal_utf8_encoding False) [0x9, 0x62] 0 [White, Data [0x62]]"
  proof (rule value_text.White)
    show "BYTE_TYPE (internal_utf8_encoding False) [0x9, 0x62] 0 = Some BT_S" by code_simp
    have "MINBPC (internal_utf8_encoding False) = 1" by code_simp
    moreover have "value_text (internal_utf8_encoding False) [0x9, 0x62] 1 [Data [0x62]]"
    proof (rule value_text.Data)
      have "BYTE_TYPE (internal_utf8_encoding False) [0x9, 0x62] 1 = Some BT_HEX" by code_simp
      moreover have "char_len (internal_utf8_encoding False) BT_HEX = 1" by code_simp
      ultimately show "plain_run (internal_utf8_encoding False) [0x9, 0x62] 1 2"
        by (intro plain_run.Step [of _ _ 1]) (auto simp: marks_def numeral_2_eq_2 intro: plain_run.Stop)
      show "converts (internal_utf8_encoding False) (segment [0x9, 0x62] 1 2) [0x62]"
        by (simp add: converts_utf8 internal_utf8_encoding_def segment_def)
      show "value_text (internal_utf8_encoding False) [0x9, 0x62] 2 []"
        using value_text.End [of "internal_utf8_encoding False" "[0x9, 0x62]"] by (simp add: numeral_2_eq_2)
    qed simp_all
    ultimately show "value_text (internal_utf8_encoding False) [0x9, 0x62] (0 + MINBPC (internal_utf8_encoding False)) [Data [0x62]]"
      by simp
  qed simp
  then show ?thesis using assms
    by (auto simp: entities_rep_def some_value_parser_def some_env_def represents_def some_entity_def)
qed

lemma some_state:
  "value_state arena_live (arena_live m) {} {} [] (some_value_parser t a) m"
  using lawful_arena modest_arena
  by (simp add: value_state_def some_value_parser_def pool_suite_def pool_inv_def poolInit_def heap_ok_def pool_holds_def)


definition some_text :: "byte list" where
  "some_text = [0x61, 0x9, 0x20, 0x26, 0x78, 0x3B, 0x26, 0x23, 0x36, 0x36, 0x3B]"

lemma some_items: "value_text (utf8_encoding False) some_text 0 [Data [0x61], White, White, Ref (ascii ''x''), Char 66]"
proof -
  let ?e = "utf8_encoding False"
  have m: "MINBPC ?e = 1" "minBytesPerChar ?e = 1" by code_simp+
  have c: "converts ?e = (\<lambda>src t. t = src)" by (simp add: converts_utf8 utf8_encoding_def)
  have "text_at ?e some_text 6 (ascii ''&#'' @ [0x36, 0x36] @ ascii '';'')" by code_simp
  moreover have "value_text ?e some_text (6 + (length [0x36, 0x36 :: byte] + 3) * MINBPC ?e) []"
  proof -
    have "6 + (length [0x36, 0x36 :: byte] + 3) * MINBPC ?e = length some_text" by (simp add: some_text_def m)
    then show ?thesis using value_text.End [of ?e some_text] by simp
  qed
  ultimately have "value_text ?e some_text 6 [Char (number 10 0 [0x36, 0x36])]"
    by (intro value_text.Decimal) (simp_all add: dec_char_def)
  moreover have "number 10 0 [0x36, 0x36] = 66" by code_simp
  ultimately have v6: "value_text ?e some_text 6 [Char 66]" by simp
  have t4: "BYTE_TYPE ?e some_text 4 = Some BT_NMSTRT" "CHECK_NMSTRT_CASES ?e some_text 4 BT_NMSTRT = Some (Brk 5)"
    by code_simp+
  have "name_at ?e some_text 4 5" unfolding name_at_def using t4 name_run.Stop by blast
  moreover have "BYTE_TYPE ?e some_text 3 = Some BT_AMP" "BYTE_TYPE ?e some_text 5 = Some BT_SEMI" by code_simp+
  moreover have "converts ?e (segment some_text 4 5) (ascii ''x'')" by (simp add: c segment_def some_text_def)
  ultimately have v3: "value_text ?e some_text 3 [Ref (ascii ''x''), Char 66]"
    using value_text.Ref [of ?e some_text 3 5 "ascii ''x''" "[Char 66]"] v6 m by simp
  have "BYTE_TYPE ?e some_text 1 = Some BT_S" "BYTE_TYPE ?e some_text 2 = Some BT_S" by code_simp+
  then have v1: "value_text ?e some_text 1 [White, White, Ref (ascii ''x''), Char 66]"
    using value_text.White [of ?e some_text 2] value_text.White [of ?e some_text 1] v3 m by (simp add: numeral_2_eq_2 numeral_3_eq_3)
  have "BYTE_TYPE ?e some_text 0 = Some BT_HEX" "char_len ?e BT_HEX = 1" by code_simp+
  then have "plain_run ?e some_text 0 1" by (intro plain_run.Step [of _ _ 0]) (auto simp: marks_def intro: plain_run.Stop)
  then show ?thesis using v1 by (intro value_text.Data [of _ _ 0 1]) (simp_all add: c segment_def some_text_def)
qed


section \<open>Values that are not CDATA\<close>

text \<open>No space at the start and none after another.\<close>

fun lean_rev :: "byte list \<Rightarrow> bool" where
  "lean_rev [] = True"
| "lean_rev (c # w) = ((c = 0x20 \<longrightarrow> w \<noteq> [] \<and> hd w \<noteq> 0x20) \<and> lean_rev w)"

definition lean :: "byte list \<Rightarrow> bool" where
  "lean w = lean_rev (rev w)"

definition tight :: "item list \<Rightarrow> bool" where
  "tight its \<longleftrightarrow> (\<forall>t. Data t \<in> set its \<longrightarrow> 0x20 \<notin> set t)"

lemma lean_Nil [simp]: "lean []"
  by (simp add: lean_def)

lemma lean_snoc: "lean (w @ [c]) \<longleftrightarrow> (c = 0x20 \<longrightarrow> w \<noteq> [] \<and> last w \<noteq> 0x20) \<and> lean w"
  by (cases "w = []") (auto simp: lean_def hd_rev)

lemma lean_append: "lean w \<Longrightarrow> 0x20 \<notin> set t \<Longrightarrow> lean (w @ t)"
  by (induction t rule: rev_induct) (auto simp: lean_snoc simp flip: append_assoc)

lemma lean_spaced: "lean w \<Longrightarrow> lean (spaced False w)"
  by (simp add: spaced_def lean_snoc)

lemma lean_stored:
  assumes "lean w"
  shows "lean (stored_value False w) \<and> (stored_value False w = [] \<or> last (stored_value False w) \<noteq> 0x20)"
proof (cases w rule: rev_cases)
  case (snoc v c)
  then show ?thesis using assms by (auto simp: stored_value_def lean_snoc)
qed (simp add: stored_value_def)

lemma encode_no_space: "xml_char n \<Longrightarrow> n \<noteq> 0x20 \<Longrightarrow> 0x20 \<notin> set (XmlUtf8Encode n)"
proof -
  assume n: "xml_char n" "n \<noteq> 0x20"
  have high: "word_of_int (x OR y) \<noteq> (0x20 :: byte)" if "bit y 7" for x y
  proof
    assume "word_of_int (x OR y) = (0x20 :: byte)"
    from arg_cong [OF this, of "\<lambda>w. bit w 7"] that show False by (simp add: bit_simps)
  qed
  have low: "word_of_int n \<noteq> (0x20 :: byte)" if "n < 0x80"
  proof
    assume "word_of_int n = (0x20 :: byte)"
    from arg_cong [OF this, of uint] n that show False by (auto simp: unsigned_of_int take_bit_int_eq_self xml_char_def)
  qed
  show ?thesis using low high [of "0x80"] high [of "0xC0"] high [of "0xE0"] high [of "0xF0"]
    by (auto simp: XmlUtf8Encode_def bit_simps dest!: sym [of "0x20"] split: if_splits)
qed

lemma attr_value_lean:
  "lean w \<Longrightarrow> tight its \<Longrightarrow> \<forall>(k, d) \<in> set env. pred_option tight (ed_text d) \<Longrightarrow>
    \<not> cdata \<Longrightarrow> lean (snd (attr_value env check cdata opened its w))"
proof (induction env check cdata opened its w rule: attr_value.induct)
  case (2 env check cdata opened it its w)
  have its: "tight its" using "2.prems"(2) by (auto simp: tight_def)
  show ?case
  proof (cases "item_effect env check cdata opened w it")
    case (Stop r)
    then show ?thesis using "2.prems"(1) by simp
  next
    case (Go w')
    then have "lean w'" using "2.prems"(1,2,4) lean_append lean_spaced encode_no_space
      by (cases it) (auto simp: tight_def predefined_names_def split: if_splits option.splits)
    then show ?thesis using "2.IH"(1) [OF Go _ its "2.prems"(3,4)] Go by simp
  next
    case (Enter k body)
    then have "tight body" using "2.prems"(3)
      by (cases it) (auto split: if_splits option.splits dest!: map_of_SomeD)
    from "2.IH"(2) [OF Enter "2.prems"(1) this "2.prems"(3,4)]
    show ?thesis using "2.IH"(3) [OF Enter _ _ _ its "2.prems"(3,4)] Enter
      by (cases "attr_value env check cdata (k # opened) body w") auto
  qed
qed simp

text \<open>C23: the value of an attribute that is not CDATA is a sequence of tokens: when \<open>storeAttributeValue\<close>
  returns without an error, the string in the pool neither begins nor ends with a space and has no two in a
  row, wherever its white space came from, the text, a character reference or the text of an entity. The characters
  of the items must not hold the byte 20 (\<open>tight\<close>): the encodings classify it as white space, but
  \<open>attributeValueTok\<close> skips what follows a lead byte of UTF-8 unread and leaves it to the scanners of tags
  and literals to have refused a text that is not well-formed.\<close>

theorem tokenized_value:
  assumes "enc \<in> set (builtin_encodings ns)" and "vp_internalEncoding p = internal_utf8_encoding ns"
    and "value_state live rest F G [] p m" and "entities_rep ns p env opened" and "value_text enc b ptr its"
    and "tight its" and "\<forall>(k, d) \<in> set env. pred_option tight (ed_text d)"
  shows "\<exists>r q m'. storeAttributeValue False enc own b ptr p m = Some (r, q, m') \<and>
    (r = XML_ERROR_NONE \<longrightarrow> (\<exists>v. value_state live rest F G (v @ [0]) q m' \<and> lean v \<and> (v = [] \<or> last v \<noteq> 0x20)))"
proof -
  obtain s w where v: "attr_value env (check_entity_decl p) False opened its [] = (s, w)" by fastforce
  have "lean w" using attr_value_lean [OF lean_Nil assms(6,7), of False "check_entity_decl p" opened] v by simp
  from lean_stored [OF this] stored_value_ok [OF assms(1-5), of False own] show ?thesis
    unfolding v prod.case by (elim exE conjE) (intro exI conjI, assumption, auto)
qed

theorem tokenized_value_witness:
  "\<exists>t e m r q m'. lookup (hashTableInit arena_suite) (ascii ''x'' @ [0]) 40 (arena_init 9) = Some (t, Some e, m) \<and>
    storeAttributeValue False (utf8_encoding False) True some_text 0 (some_value_parser t (nm_addr e)) m = Some (r, q, m') \<and>
    (r = XML_ERROR_NONE \<longrightarrow> (\<exists>v. value_state arena_live (arena_live m) {} {} (v @ [0]) q m' \<and> lean v \<and> (v = [] \<or> last v \<noteq> 0x20)))"
proof -
  obtain t e m where t: "lookup (hashTableInit arena_suite) (ascii ''x'' @ [0]) 40 (arena_init 9) = Some (t, Some e, m)"
    "table_ok t" "contents (ht_v t) = [ascii ''x'' \<mapsto> e]" "objects (ht_v t) = [e]" by (rule one_entry)
  let ?p = "some_value_parser t (nm_addr e)"
  have enc: "utf8_encoding False \<in> set (builtin_encodings False)" "vp_internalEncoding ?p = internal_utf8_encoding False"
    by (simp_all add: builtin_encodings_def some_value_parser_def)
  have "tight [Data [0x61], White, White, Ref (ascii ''x''), Char 66]" "\<forall>(k, d) \<in> set some_env. pred_option tight (ed_text d)"
    by (simp_all add: tight_def some_env_def)
  from tokenized_value [OF enc some_state some_rep [OF t(2-4)] some_items this, of True m] t(1) show ?thesis by blast
qed

end
