(* ===== verification/MD5.thy ===== *)
theory MD5
  imports Prelude
begin

text \<open>
  The message digest of \<^verbatim>\<open>talk/base/md5c.c\<close>: the context, \<open>MD5Init\<close>, \<open>MD5Update\<close>, \<open>MD5Final\<close> and
  \<open>MD5Transform\<close>, for a platform on which \<open>uint32\<close> of \<^verbatim>\<open>md5.h\<close> has 32 bits and words are stored
  least significant byte first (\<open>HIGHFIRST\<close> not defined, \<open>byteReverse\<close> empty). The sixteen words
  \<open>in\<close> of the context are kept as their 64 bytes, which is how \<open>MD5Update\<close> and \<open>MD5Final\<close> write
  them. The 64 macro calls of \<open>MD5Transform\<close> are a list with one entry per source line.
\<close>

section \<open>The transform\<close>

datatype core = F1 | F2 | F3 | F4

fun core_fn :: "core \<Rightarrow> uint32 \<Rightarrow> uint32 \<Rightarrow> uint32 \<Rightarrow> uint32" where
  "core_fn F1 x y z = z XOR (x AND (y XOR z))"
| "core_fn F2 x y z = y XOR (z AND (x XOR y))"
| "core_fn F3 x y z = x XOR y XOR z"
| "core_fn F4 x y z = y XOR (x OR NOT z)"

datatype reg = Ra | Rb | Rc | Rd

record regs =
  ra :: uint32
  rb :: uint32
  rc :: uint32
  rd :: uint32

fun get_reg :: "reg \<Rightarrow> regs \<Rightarrow> uint32" where
  "get_reg Ra r = ra r"
| "get_reg Rb r = rb r"
| "get_reg Rc r = rc r"
| "get_reg Rd r = rd r"

fun set_reg :: "reg \<Rightarrow> uint32 \<Rightarrow> regs \<Rightarrow> regs" where
  "set_reg Ra v r = r\<lparr>ra := v\<rparr>"
| "set_reg Rb v r = r\<lparr>rb := v\<rparr>"
| "set_reg Rc v r = r\<lparr>rc := v\<rparr>"
| "set_reg Rd v r = r\<lparr>rd := v\<rparr>"

definition rotate :: "nat \<Rightarrow> uint32 \<Rightarrow> uint32" where
  "rotate s w = push_bit s w OR drop_bit (32 - s) w"

type_synonym md5_line = "core \<times> reg \<times> reg \<times> reg \<times> reg \<times> nat \<times> uint32 \<times> nat"

fun MD5STEP :: "uint32 list \<Rightarrow> md5_line \<Rightarrow> regs \<Rightarrow> regs" where
  "MD5STEP ws (f, w, x, y, z, k, t, s) r =
     set_reg w
       (rotate s (get_reg w r + (core_fn f (get_reg x r) (get_reg y r) (get_reg z r) + (ws ! k + t)))
        + get_reg x r) r"

definition md5_lines :: "md5_line list" where
  "md5_lines = [
     (F1, Ra, Rb, Rc, Rd, 0, 0xd76aa478, 7), (F1, Rd, Ra, Rb, Rc, 1, 0xe8c7b756, 12),
     (F1, Rc, Rd, Ra, Rb, 2, 0x242070db, 17), (F1, Rb, Rc, Rd, Ra, 3, 0xc1bdceee, 22),
     (F1, Ra, Rb, Rc, Rd, 4, 0xf57c0faf, 7), (F1, Rd, Ra, Rb, Rc, 5, 0x4787c62a, 12),
     (F1, Rc, Rd, Ra, Rb, 6, 0xa8304613, 17), (F1, Rb, Rc, Rd, Ra, 7, 0xfd469501, 22),
     (F1, Ra, Rb, Rc, Rd, 8, 0x698098d8, 7), (F1, Rd, Ra, Rb, Rc, 9, 0x8b44f7af, 12),
     (F1, Rc, Rd, Ra, Rb, 10, 0xffff5bb1, 17), (F1, Rb, Rc, Rd, Ra, 11, 0x895cd7be, 22),
     (F1, Ra, Rb, Rc, Rd, 12, 0x6b901122, 7), (F1, Rd, Ra, Rb, Rc, 13, 0xfd987193, 12),
     (F1, Rc, Rd, Ra, Rb, 14, 0xa679438e, 17), (F1, Rb, Rc, Rd, Ra, 15, 0x49b40821, 22),
     (F2, Ra, Rb, Rc, Rd, 1, 0xf61e2562, 5), (F2, Rd, Ra, Rb, Rc, 6, 0xc040b340, 9),
     (F2, Rc, Rd, Ra, Rb, 11, 0x265e5a51, 14), (F2, Rb, Rc, Rd, Ra, 0, 0xe9b6c7aa, 20),
     (F2, Ra, Rb, Rc, Rd, 5, 0xd62f105d, 5), (F2, Rd, Ra, Rb, Rc, 10, 0x02441453, 9),
     (F2, Rc, Rd, Ra, Rb, 15, 0xd8a1e681, 14), (F2, Rb, Rc, Rd, Ra, 4, 0xe7d3fbc8, 20),
     (F2, Ra, Rb, Rc, Rd, 9, 0x21e1cde6, 5), (F2, Rd, Ra, Rb, Rc, 14, 0xc33707d6, 9),
     (F2, Rc, Rd, Ra, Rb, 3, 0xf4d50d87, 14), (F2, Rb, Rc, Rd, Ra, 8, 0x455a14ed, 20),
     (F2, Ra, Rb, Rc, Rd, 13, 0xa9e3e905, 5), (F2, Rd, Ra, Rb, Rc, 2, 0xfcefa3f8, 9),
     (F2, Rc, Rd, Ra, Rb, 7, 0x676f02d9, 14), (F2, Rb, Rc, Rd, Ra, 12, 0x8d2a4c8a, 20),
     (F3, Ra, Rb, Rc, Rd, 5, 0xfffa3942, 4), (F3, Rd, Ra, Rb, Rc, 8, 0x8771f681, 11),
     (F3, Rc, Rd, Ra, Rb, 11, 0x6d9d6122, 16), (F3, Rb, Rc, Rd, Ra, 14, 0xfde5380c, 23),
     (F3, Ra, Rb, Rc, Rd, 1, 0xa4beea44, 4), (F3, Rd, Ra, Rb, Rc, 4, 0x4bdecfa9, 11),
     (F3, Rc, Rd, Ra, Rb, 7, 0xf6bb4b60, 16), (F3, Rb, Rc, Rd, Ra, 10, 0xbebfbc70, 23),
     (F3, Ra, Rb, Rc, Rd, 13, 0x289b7ec6, 4), (F3, Rd, Ra, Rb, Rc, 0, 0xeaa127fa, 11),
     (F3, Rc, Rd, Ra, Rb, 3, 0xd4ef3085, 16), (F3, Rb, Rc, Rd, Ra, 6, 0x04881d05, 23),
     (F3, Ra, Rb, Rc, Rd, 9, 0xd9d4d039, 4), (F3, Rd, Ra, Rb, Rc, 12, 0xe6db99e5, 11),
     (F3, Rc, Rd, Ra, Rb, 15, 0x1fa27cf8, 16), (F3, Rb, Rc, Rd, Ra, 2, 0xc4ac5665, 23),
     (F4, Ra, Rb, Rc, Rd, 0, 0xf4292244, 6), (F4, Rd, Ra, Rb, Rc, 7, 0x432aff97, 10),
     (F4, Rc, Rd, Ra, Rb, 14, 0xab9423a7, 15), (F4, Rb, Rc, Rd, Ra, 5, 0xfc93a039, 21),
     (F4, Ra, Rb, Rc, Rd, 12, 0x655b59c3, 6), (F4, Rd, Ra, Rb, Rc, 3, 0x8f0ccc92, 10),
     (F4, Rc, Rd, Ra, Rb, 10, 0xffeff47d, 15), (F4, Rb, Rc, Rd, Ra, 1, 0x85845dd1, 21),
     (F4, Ra, Rb, Rc, Rd, 8, 0x6fa87e4f, 6), (F4, Rd, Ra, Rb, Rc, 15, 0xfe2ce6e0, 10),
     (F4, Rc, Rd, Ra, Rb, 6, 0xa3014314, 15), (F4, Rb, Rc, Rd, Ra, 13, 0x4e0811a1, 21),
     (F4, Ra, Rb, Rc, Rd, 4, 0xf7537e82, 6), (F4, Rd, Ra, Rb, Rc, 11, 0xbd3af235, 10),
     (F4, Rc, Rd, Ra, Rb, 2, 0x2ad7d2bb, 15), (F4, Rb, Rc, Rd, Ra, 9, 0xeb86d391, 21)]"

definition MD5Transform :: "regs \<Rightarrow> uint32 list \<Rightarrow> regs" where
  "MD5Transform buf ws =
     (let r = fold (MD5STEP ws) md5_lines buf in
      \<lparr>ra = ra buf + ra r, rb = rb buf + rb r, rc = rc buf + rc r, rd = rd buf + rd r\<rparr>)"

section \<open>The context\<close>

record MD5Context =
  buf :: regs
  bits0 :: uint32
  bits1 :: uint32
  inb :: "byte list"

text \<open>The words a little-endian machine reads in the buffer, and the bytes it stores for a word.\<close>

definition le32 :: "byte list \<Rightarrow> uint32" where
  "le32 bs = foldr (\<lambda>b w. push_bit 8 w OR ucast b) bs 0"

definition words16 :: "byte list \<Rightarrow> uint32 list" where
  "words16 bs = map (\<lambda>i. le32 (take 4 (drop (4 * i) bs))) [0..<16]"

definition le_bytes :: "uint32 \<Rightarrow> byte list" where
  "le_bytes w = map (\<lambda>i. ucast (drop_bit (8 * i) w)) [0..<4]"

definition memcpy :: "byte list \<Rightarrow> nat \<Rightarrow> byte list \<Rightarrow> byte list" where
  "memcpy dst off src = take off dst @ src @ drop (off + length src) dst"

definition MD5_init_regs :: regs where
  "MD5_init_regs = \<lparr>ra = 0x67452301, rb = 0xefcdab89, rc = 0x98badcfe, rd = 0x10325476\<rparr>"

definition MD5Init :: "MD5Context \<Rightarrow> MD5Context" where
  "MD5Init ctx = ctx\<lparr>buf := MD5_init_regs, bits0 := 0, bits1 := 0\<rparr>"

definition transform_in :: "MD5Context \<Rightarrow> MD5Context" where
  "transform_in ctx = ctx\<lparr>buf := MD5Transform (buf ctx) (words16 (inb ctx))\<rparr>"

text \<open>The 64-byte loop of \<open>MD5Update\<close> and the copy of the rest.\<close>

function MD5Update_loop :: "MD5Context \<Rightarrow> byte list \<Rightarrow> MD5Context" where
  "MD5Update_loop ctx data =
     (if 64 \<le> length data
      then MD5Update_loop (transform_in (ctx\<lparr>inb := memcpy (inb ctx) 0 (take 64 data)\<rparr>)) (drop 64 data)
      else ctx\<lparr>inb := memcpy (inb ctx) 0 data\<rparr>)"
  by pat_completeness auto
termination
  by (relation "measure (\<lambda>(ctx, data). length data)") auto

declare MD5Update_loop.simps [simp del]

definition MD5Update :: "MD5Context \<Rightarrow> byte list \<Rightarrow> MD5Context" where
  "MD5Update ctx data =
     (let len = of_nat (length data) :: uint32;
          t = bits0 ctx;
          b0 = t + push_bit 3 len;
          b1 = (if b0 < t then bits1 ctx + 1 else bits1 ctx) + drop_bit 29 len;
          n = unat (drop_bit 3 t AND 0x3F);
          ctx = ctx\<lparr>bits0 := b0, bits1 := b1\<rparr>
      in if n \<noteq> 0 then
           if length data < 64 - n then ctx\<lparr>inb := memcpy (inb ctx) n data\<rparr>
           else MD5Update_loop
                  (transform_in (ctx\<lparr>inb := memcpy (inb ctx) n (take (64 - n) data)\<rparr>))
                  (drop (64 - n) data)
         else MD5Update_loop ctx data)"

text \<open>The digest and the context that \<open>MD5Final\<close> leaves, all zero.\<close>

definition MD5Final :: "MD5Context \<Rightarrow> byte list \<times> MD5Context" where
  "MD5Final ctx =
     (let n = unat (drop_bit 3 (bits0 ctx) AND 0x3F);
          ctx = ctx\<lparr>inb := memcpy (inb ctx) n [0x80]\<rparr>;
          count = 64 - 1 - n;
          ctx = (if count < 8
                 then let ctx = transform_in (ctx\<lparr>inb := memcpy (inb ctx) (n + 1) (replicate count 0)\<rparr>)
                      in ctx\<lparr>inb := memcpy (inb ctx) 0 (replicate 56 0)\<rparr>
                 else ctx\<lparr>inb := memcpy (inb ctx) (n + 1) (replicate (count - 8) 0)\<rparr>);
          ctx = ctx\<lparr>inb := memcpy (inb ctx) 56 (le_bytes (bits0 ctx))\<rparr>;
          ctx = ctx\<lparr>inb := memcpy (inb ctx) 60 (le_bytes (bits1 ctx))\<rparr>;
          ctx = transform_in ctx;
          r = buf ctx
      in (concat (map le_bytes [ra r, rb r, rc r, rd r]),
          \<lparr>buf = \<lparr>ra = 0, rb = 0, rc = 0, rd = 0\<rparr>, bits0 = 0, bits1 = 0, inb = replicate 64 0\<rparr>))"

section \<open>The algorithm as RFC 1321 states it\<close>

text \<open>Round \<open>i\<close> of 64: the function, the rotating registers, the word, the constant and the shift.\<close>

definition rfc_T :: "uint32 list" where
  "rfc_T = [
     0xd76aa478, 0xe8c7b756, 0x242070db, 0xc1bdceee, 0xf57c0faf, 0x4787c62a,
     0xa8304613, 0xfd469501, 0x698098d8, 0x8b44f7af, 0xffff5bb1, 0x895cd7be,
     0x6b901122, 0xfd987193, 0xa679438e, 0x49b40821, 0xf61e2562, 0xc040b340,
     0x265e5a51, 0xe9b6c7aa, 0xd62f105d, 0x02441453, 0xd8a1e681, 0xe7d3fbc8,
     0x21e1cde6, 0xc33707d6, 0xf4d50d87, 0x455a14ed, 0xa9e3e905, 0xfcefa3f8,
     0x676f02d9, 0x8d2a4c8a, 0xfffa3942, 0x8771f681, 0x6d9d6122, 0xfde5380c,
     0xa4beea44, 0x4bdecfa9, 0xf6bb4b60, 0xbebfbc70, 0x289b7ec6, 0xeaa127fa,
     0xd4ef3085, 0x04881d05, 0xd9d4d039, 0xe6db99e5, 0x1fa27cf8, 0xc4ac5665,
     0xf4292244, 0x432aff97, 0xab9423a7, 0xfc93a039, 0x655b59c3, 0x8f0ccc92,
     0xffeff47d, 0x85845dd1, 0x6fa87e4f, 0xfe2ce6e0, 0xa3014314, 0x4e0811a1,
     0xf7537e82, 0xbd3af235, 0x2ad7d2bb, 0xeb86d391]"

definition rfc_round :: "nat \<Rightarrow> md5_line" where
  "rfc_round i =
     (let f = [F1, F2, F3, F4] ! (i div 16);
          k = [i, 5 * i + 1, 3 * i + 5, 7 * i] ! (i div 16) mod 16;
          s = [[7, 12, 17, 22], [5, 9, 14, 20], [4, 11, 16, 23], [6, 10, 15, 21]] ! (i div 16) ! (i mod 4);
          (w, x, y, z) = [(Ra, Rb, Rc, Rd), (Rd, Ra, Rb, Rc), (Rc, Rd, Ra, Rb), (Rb, Rc, Rd, Ra)] ! (i mod 4)
      in (f, w, x, y, z, k, rfc_T ! i, s))"

fun rfc_fn :: "core \<Rightarrow> uint32 \<Rightarrow> uint32 \<Rightarrow> uint32 \<Rightarrow> uint32" where
  "rfc_fn F1 x y z = (x AND y) OR (NOT x AND z)"
| "rfc_fn F2 x y z = (x AND z) OR (y AND NOT z)"
| "rfc_fn F3 x y z = x XOR y XOR z"
| "rfc_fn F4 x y z = y XOR (x OR NOT z)"

function hash_blocks :: "regs \<Rightarrow> byte list \<Rightarrow> regs" where
  "hash_blocks r m =
     (if 64 \<le> length m then hash_blocks (MD5Transform r (words16 (take 64 m))) (drop 64 m) else r)"
  by pat_completeness auto
termination
  by (relation "measure (\<lambda>(r, m). length m)") auto

declare hash_blocks.simps [simp del]

definition pad :: "byte list \<Rightarrow> byte list" where
  "pad m = m @ [0x80] @ replicate ((119 - length m mod 64) mod 64) 0 @
     le_bytes (of_nat (8 * length m)) @ le_bytes (of_nat (8 * length m div 2 ^ 32))"

definition md5_spec :: "byte list \<Rightarrow> byte list" where
  "md5_spec m = (let r = hash_blocks MD5_init_regs (pad m)
                 in concat (map le_bytes [ra r, rb r, rc r, rd r]))"

section \<open>The transform is the one of RFC 1321\<close>

lemma core_fn_rfc: "core_fn f x y z = rfc_fn f x y z"
  by (cases f) (auto intro!: bit_eqI simp: bit_simps)

lemma md5_lines_rfc: "md5_lines = map rfc_round [0..<64]"
  by code_simp

section \<open>Blocks\<close>

lemma hash_blocks_short: "length m < 64 \<Longrightarrow> hash_blocks r m = r"
  by (simp add: hash_blocks.simps [of r m])

lemma hash_blocks_append:
  "64 dvd length a \<Longrightarrow> hash_blocks r (a @ b) = hash_blocks (hash_blocks r a) b"
proof (induction "length a" arbitrary: a r rule: less_induct)
  case less
  show ?case
  proof (cases "a = []")
    case True
    then show ?thesis by (simp add: hash_blocks_short)
  next
    case False
    then have ge: "64 \<le> length a" using less.prems by (simp add: dvd_imp_le)
    then have "64 dvd length (drop 64 a)" using less.prems by simp
    with less.hyps [of "drop 64 a"] ge show ?thesis
      by (simp add: hash_blocks.simps [of r "a @ b"] hash_blocks.simps [of r a])
  qed
qed

lemma hash_blocks_one: "length a = 64 \<Longrightarrow> hash_blocks r a = MD5Transform r (words16 a)"
  by (simp add: hash_blocks.simps [of r a] hash_blocks_short)

text \<open>The complete blocks of a message and what is left after them.\<close>

definition whole :: "byte list \<Rightarrow> byte list" where
  "whole m = take (length m - length m mod 64) m"

definition rest :: "byte list \<Rightarrow> byte list" where
  "rest m = drop (length m - length m mod 64) m"

lemma whole_rest: "whole m @ rest m = m"
  by (simp add: whole_def rest_def)

lemma length_rest [simp]: "length (rest m) = length m mod 64"
  by (simp add: rest_def)

lemma whole_dvd [simp]: "64 dvd length (whole m)"
  using dvd_minus_mod [of 64 "length m"] by (simp add: whole_def)

lemma hash_blocks_whole: "hash_blocks r m = hash_blocks r (whole m)"
  using hash_blocks_append [OF whole_dvd, of r m "rest m"]
  by (simp add: whole_rest hash_blocks_short)

lemma whole_rest_append:
  assumes "64 dvd length a" and "length b < 64"
  shows "whole (a @ b) = a" and "rest (a @ b) = b"
proof -
  have "length (a @ b) mod 64 = length b"
    using assms by (auto elim!: dvdE)
  then show "whole (a @ b) = a" "rest (a @ b) = b" by (simp_all add: whole_def rest_def)
qed

section \<open>The context represents a message\<close>

definition rep :: "MD5Context \<Rightarrow> byte list \<Rightarrow> bool" where
  "rep ctx m \<longleftrightarrow> buf ctx = hash_blocks MD5_init_regs m \<and> length (inb ctx) = 64 \<and>
     take (length m mod 64) (inb ctx) = rest m \<and>
     bits0 ctx = of_nat (8 * length m) \<and> bits1 ctx = of_nat (8 * length m div 2 ^ 32)"

lemma length_memcpy [simp]:
  "off + length src \<le> length dst \<Longrightarrow> length (memcpy dst off src) = length dst"
  by (simp add: memcpy_def)

lemma take_memcpy:
  "off \<le> length dst \<Longrightarrow> take (off + length src) (memcpy dst off src) = take off dst @ src"
  by (simp add: memcpy_def)

lemma unat_of_nat_mod: "unat (of_nat n :: uint32) = n mod 2 ^ 32"
  by (simp add: unsigned_of_nat take_bit_eq_mod)

lemma unat_drop_bit: "unat (drop_bit k (w :: uint32)) = unat w div 2 ^ k"
  by (metis drop_bit_eq_div unat_drop_bit_eq)

lemma count_field: "unat (drop_bit 3 (w :: uint32) AND 0x3F) = unat w div 8 mod 64"
proof -
  have "drop_bit 3 w AND 0x3F = take_bit 6 (drop_bit 3 w)"
    by (simp add: take_bit_eq_mask mask_eq_exp_minus_1)
  then have "unat (drop_bit 3 w AND 0x3F) = take_bit 6 (unat (drop_bit 3 w))"
    by (simp only: unsigned_take_bit_eq)
  then show ?thesis by (simp add: take_bit_eq_mod unat_drop_bit)
qed

lemma count_bytes: "unat (drop_bit 3 (of_nat (8 * n) :: uint32) AND 0x3F) = n mod 64"
proof -
  have "8 * n mod 2 ^ 32 = 8 * (n mod 2 ^ 29)"
    using mult_mod_right [of 8 n "2 ^ 29"] by simp
  then have "8 * n mod 2 ^ 32 div 8 mod 64 = n mod 2 ^ 29 mod 64" by (simp only: nonzero_mult_div_cancel_left)
  also have "\<dots> = n mod 64" by (rule mod_mod_cancel) (rule dvdI [of _ _ "2 ^ 23"], simp)
  finally show ?thesis unfolding count_field unat_of_nat_mod .
qed

lemma rep_count: "rep ctx m \<Longrightarrow> unat (drop_bit 3 (bits0 ctx) AND 0x3F) = length m mod 64"
  unfolding rep_def by (elim conjE) (simp only: count_bytes)

text \<open>The two words of the bit count are the low and the high half of a 64-bit sum.\<close>

lemma bits_sum:
  fixes n k :: nat
  assumes "k < 2 ^ 32"
  defines "t \<equiv> of_nat (8 * n) :: uint32" and "len \<equiv> of_nat k :: uint32"
  shows "t + push_bit 3 len = of_nat (8 * (n + k))"
    and "(if t + push_bit 3 len < t then of_nat (8 * n div 2 ^ 32) + 1 else of_nat (8 * n div 2 ^ 32))
      + drop_bit 29 len = (of_nat (8 * (n + k) div 2 ^ 32) :: uint32)"
proof -
  show b0: "t + push_bit 3 len = of_nat (8 * (n + k))"
    by (simp add: t_def len_def push_bit_eq_mult algebra_simps)
  define r where "r = 8 * n mod 2 ^ 32"
  define u where "u = 8 * k mod 2 ^ 32"
  have ut: "unat t = r" unfolding t_def unat_of_nat_mod r_def ..
  have us: "unat (t + push_bit 3 len) = (r + u) mod 2 ^ 32"
    unfolding b0 unat_of_nat_mod r_def u_def by (simp add: mod_add_eq distrib_left)
  have r: "r < 2 ^ 32" "u < 2 ^ 32" by (simp_all add: r_def u_def)
  have lt: "t + push_bit 3 len < t \<longleftrightarrow> 2 ^ 32 \<le> r + u"
  proof -
    have "t + push_bit 3 len < t \<longleftrightarrow> (r + u) mod 2 ^ 32 < r"
      by (simp add: word_less_nat_alt us ut)
    also have "\<dots> \<longleftrightarrow> 2 ^ 32 \<le> r + u"
    proof (cases "2 ^ 32 \<le> r + u")
      case True
      then have "(r + u) mod 2 ^ 32 = r + u - 2 ^ 32"
        using r by (simp add: le_mod_geq)
      with True r show ?thesis by simp
    next
      case False
      then show ?thesis by simp
    qed
    finally show ?thesis .
  qed
  have dl: "drop_bit 29 len = of_nat (8 * k div 2 ^ 32)"
  proof (rule word_unat_eq_iff [THEN iffD2])
    have "k div 2 ^ 29 = 8 * k div 2 ^ 32" using div_mult2_eq [of "8 * k" 8 "2 ^ 29"] by simp
    moreover have "k div 2 ^ 29 < 2 ^ 32" using assms(1) by (simp add: less_mult_imp_div_less)
    ultimately show "unat (drop_bit 29 len) = unat (of_nat (8 * k div 2 ^ 32) :: uint32)"
      using assms(1) by (simp only: len_def unat_drop_bit unat_of_nat_mod) simp
  qed
  have "8 * (n + k) div 2 ^ 32 = 8 * n div 2 ^ 32 + 8 * k div 2 ^ 32 + (r + u) div 2 ^ 32"
    unfolding r_def u_def using div_add1_eq [of "8 * n" "8 * k" "2 ^ 32"] by (simp only: distrib_left)
  moreover have "(r + u) div 2 ^ 32 = (if 2 ^ 32 \<le> r + u then 1 else 0)"
    using r by (auto simp: div_eq_0_iff intro!: div_nat_eqI)
  ultimately show "(if t + push_bit 3 len < t then of_nat (8 * n div 2 ^ 32) + 1
      else of_nat (8 * n div 2 ^ 32)) + drop_bit 29 len = (of_nat (8 * (n + k) div 2 ^ 32) :: uint32)"
    by (simp only: lt dl) (simp add: algebra_simps)
qed

lemma loop_bits [simp]:
  "bits0 (MD5Update_loop ctx data) = bits0 ctx" "bits1 (MD5Update_loop ctx data) = bits1 ctx"
  by (induction ctx data rule: MD5Update_loop.induct)
    (subst MD5Update_loop.simps, simp add: transform_in_def)+

text \<open>The block loop on a context whose buffer holds no pending bytes.\<close>

lemma loop_state:
  assumes "length (inb ctx) = 64"
  shows "buf (MD5Update_loop ctx data) = hash_blocks (buf ctx) data \<and>
    length (inb (MD5Update_loop ctx data)) = 64 \<and>
    take (length data mod 64) (inb (MD5Update_loop ctx data)) = rest data"
  using assms
proof (induction ctx data rule: MD5Update_loop.induct)
  case (1 ctx data)
  show ?case
  proof (cases "64 \<le> length data")
    case True
    let ?c = "transform_in (ctx\<lparr>inb := memcpy (inb ctx) 0 (take 64 data)\<rparr>)"
    have c: "length (inb ?c) = 64" "buf ?c = MD5Transform (buf ctx) (words16 (take 64 data))"
      using "1.prems" True by (simp_all add: transform_in_def memcpy_def)
    have "length data mod 64 = length (drop 64 data) mod 64" using True by (simp add: le_mod_geq)
    moreover have "rest data = rest (drop 64 data)"
      using True by (simp add: rest_def le_mod_geq add.commute)
    ultimately show ?thesis
      using "1.IH" [OF True c(1)] True
      by (simp add: MD5Update_loop.simps [of ctx data] hash_blocks.simps [of "buf ctx" data] c(2))
  next
    case False
    then show ?thesis using "1.prems"
      by (simp add: MD5Update_loop.simps [of ctx data] hash_blocks_short rest_def memcpy_def)
  qed
qed

lemma rest_append_block:
  assumes "64 dvd length (m @ d)"
  shows "rest (m @ d @ e) = rest e" and "length (m @ d @ e) mod 64 = length e mod 64"
    and "hash_blocks r (m @ d @ e) = hash_blocks (hash_blocks r (m @ d)) e"
proof -
  from assms obtain q where q: "length m + length d = 64 * q" by (auto elim: dvdE)
  show l: "length (m @ d @ e) mod 64 = length e mod 64" by (simp add: q flip: add.assoc)
  show "rest (m @ d @ e) = rest e"
    using l q by (simp add: rest_def)
  show "hash_blocks r (m @ d @ e) = hash_blocks (hash_blocks r (m @ d)) e"
    using hash_blocks_append [OF assms, of r e] by simp
qed

lemma block_after_rest:
  assumes "length (rest m @ d) = 64"
  shows "64 dvd length (m @ d)"
    and "hash_blocks r (m @ d) = MD5Transform (hash_blocks r m) (words16 (rest m @ d))"
proof -
  have sp: "m @ d = whole m @ (rest m @ d)" using whole_rest [of m] by (metis append.assoc)
  have "length (m @ d) = length (whole m) + 64" unfolding sp using assms by simp
  then show "64 dvd length (m @ d)" by simp
  show "hash_blocks r (m @ d) = MD5Transform (hash_blocks r m) (words16 (rest m @ d))"
    unfolding sp hash_blocks_append [OF whole_dvd] hash_blocks_one [OF assms]
    by (simp flip: hash_blocks_whole)
qed

lemma MD5Update_rep:
  assumes r: "rep ctx m" and len: "length data < 2 ^ 32"
  shows "rep (MD5Update ctx data) (m @ data)"
proof -
  define n where "n = length m mod 64"
  define B0 B1 :: uint32 where "B0 = of_nat (8 * length (m @ data))"
    and "B1 = of_nat (8 * length (m @ data) div 2 ^ 32)"
  define c where "c = ctx\<lparr>bits0 := B0, bits1 := B1\<rparr>"
  from r have buf: "buf ctx = hash_blocks MD5_init_regs m" and l64: "length (inb ctx) = 64"
    and tk: "take n (inb ctx) = rest m"
    and b0: "bits0 ctx = of_nat (8 * length m)" and b1: "bits1 ctx = of_nat (8 * length m div 2 ^ 32)"
    by (simp_all only: rep_def n_def)
  note cnt = rep_count [OF r, folded n_def]
  have bs1: "bits0 ctx + push_bit 3 (of_nat (length data)) = B0"
    unfolding B0_def b0 length_append by (rule bits_sum(1) [OF len])
  have bs2: "(if B0 < bits0 ctx then bits1 ctx + 1 else bits1 ctx) + drop_bit 29 (of_nat (length data)) = B1"
    using bits_sum(2) [OF len, of "length m"]
    by (simp only: B0_def B1_def b0 b1 length_append bits_sum(1) [OF len])
  have n64: "n < 64" by (simp add: n_def)
  have upd: "MD5Update ctx data =
      (if n \<noteq> 0 then
         if length data < 64 - n then c\<lparr>inb := memcpy (inb ctx) n data\<rparr>
         else MD5Update_loop (transform_in (c\<lparr>inb := memcpy (inb ctx) n (take (64 - n) data)\<rparr>))
                (drop (64 - n) data)
       else MD5Update_loop c data)"
    unfolding MD5Update_def Let_def cnt bs1 bs2 c_def by simp
  have bits: "bits0 c = of_nat (8 * length (m @ data))"
      "bits1 c = of_nat (8 * length (m @ data) div 2 ^ 32)"
    unfolding c_def B0_def B1_def by simp_all
  consider "n = 0" | "n \<noteq> 0" "length data < 64 - n" | "n \<noteq> 0" "64 - n \<le> length data" by linarith
  then show ?thesis
  proof cases
    case 1
    then have "64 dvd length (m @ [])" by (simp add: n_def dvd_eq_mod_eq_0)
    note ap = rest_append_block [OF this, where e = data, simplified]
    have "length (inb c) = 64" "buf c = buf ctx" using l64 by (simp_all add: c_def)
    from loop_state [OF this(1), of data] this(2) show ?thesis
      unfolding rep_def upd using 1 ap buf bits by simp
  next
    case 2
    have sp: "m @ data = whole m @ (rest m @ data)" using whole_rest [of m] by (metis append.assoc)
    have short: "length (rest m @ data) < 64" using 2 by (simp add: n_def)
    note wr = whole_rest_append [OF whole_dvd [of m] short, folded sp]
    have "length (m @ data) mod 64 = n + length data"
      using wr(2) length_rest [of "m @ data"] by (simp add: n_def)
    moreover have "hash_blocks MD5_init_regs (m @ data) = hash_blocks MD5_init_regs m"
      using hash_blocks_whole [of _ "m @ data"] hash_blocks_whole [of _ m] wr(1) by simp
    moreover have "take (n + length data) (memcpy (inb ctx) n data) = rest m @ data"
      using take_memcpy [of n "inb ctx" data] l64 n64 tk by simp
    ultimately show ?thesis
      unfolding rep_def upd using 2 wr buf bits l64 by (simp add: c_def)
  next
    case 3
    define d e where "d = take (64 - n) data" and "e = drop (64 - n) data"
    have de: "data = d @ e" by (simp add: d_def e_def)
    have ld: "length (rest m @ d) = 64" using 3 n64 by (simp add: d_def n_def)
    note blk = block_after_rest [OF ld] and ap = rest_append_block [OF block_after_rest(1) [OF ld], where e = e]
    have mc: "memcpy (inb ctx) n d = rest m @ d"
      using l64 tk ld by (simp add: memcpy_def n_def)
    define c' where "c' = transform_in (c\<lparr>inb := rest m @ d\<rparr>)"
    have c': "length (inb c') = 64" "buf c' = hash_blocks MD5_init_regs (m @ d)"
        "bits0 c' = bits0 c" "bits1 c' = bits1 c"
      using ld buf blk(2) by (simp_all add: c'_def transform_in_def c_def)
    have "MD5Update ctx data = MD5Update_loop c' e"
      using upd 3 mc by (simp add: c'_def d_def e_def)
    with loop_state [OF c'(1), of e] c' ap bits show ?thesis
      unfolding rep_def by (simp add: de)
  qed
qed

lemma MD5Init_rep: "length (inb ctx) = 64 \<Longrightarrow> rep (MD5Init ctx) []"
  by (simp add: rep_def MD5Init_def hash_blocks_short rest_def)

lemma memcpy_memcpy:
  "off \<le> length dst \<Longrightarrow> off' = off + length a \<Longrightarrow>
    memcpy (memcpy dst off a) off' b = memcpy dst off (a @ b)"
  by (simp add: memcpy_def add.commute add.left_commute)

lemma memcpy_full:
  "off \<le> length dst \<Longrightarrow> off + length a = length dst \<Longrightarrow> memcpy dst off a = take off dst @ a"
  by (simp add: memcpy_def)

lemma length_le_bytes [simp]: "length (le_bytes w) = 4"
  by (simp add: le_bytes_def)

lemma pad_blocks:
  assumes n: "n = length m mod 64"
  shows "n < 56 \<Longrightarrow> hash_blocks r (pad m) = MD5Transform (hash_blocks r m) (words16
      (rest m @ [0x80] @ replicate (55 - n) 0 @ le_bytes (of_nat (8 * length m)) @
       le_bytes (of_nat (8 * length m div 2 ^ 32))))"
    and "56 \<le> n \<Longrightarrow> hash_blocks r (pad m) =
      MD5Transform (MD5Transform (hash_blocks r m) (words16 (rest m @ [0x80] @ replicate (63 - n) 0)))
        (words16 (replicate 56 0 @ le_bytes (of_nat (8 * length m)) @
           le_bytes (of_nat (8 * length m div 2 ^ 32))))"
proof -
  define L where "L = le_bytes (of_nat (8 * length m)) @ le_bytes (of_nat (8 * length m div 2 ^ 32))"
  have L: "length L = 8" by (simp add: L_def)
  have n64: "n < 64" by (simp add: n)
  show "hash_blocks r (pad m) = MD5Transform (hash_blocks r m) (words16
      (rest m @ [0x80] @ replicate (55 - n) 0 @ le_bytes (of_nat (8 * length m)) @
       le_bytes (of_nat (8 * length m div 2 ^ 32))))" if "n < 56"
  proof -
    have "(119 - n) mod 64 = 55 - n" using that by (simp add: le_mod_geq)
    then have "pad m = m @ ([0x80] @ replicate (55 - n) 0 @ L)" by (simp add: pad_def L_def n)
    moreover have "length (rest m @ ([0x80] @ replicate (55 - n) 0 @ L)) = 64"
      using that L n by simp
    ultimately show ?thesis using block_after_rest(2) by (simp add: L_def)
  qed
  show "hash_blocks r (pad m) =
      MD5Transform (MD5Transform (hash_blocks r m) (words16 (rest m @ [0x80] @ replicate (63 - n) 0)))
        (words16 (replicate 56 0 @ le_bytes (of_nat (8 * length m)) @
           le_bytes (of_nat (8 * length m div 2 ^ 32))))" if "56 \<le> n"
  proof -
    let ?d = "[0x80] @ replicate (63 - n) 0 :: byte list"
    have z: "(119 - n) mod 64 = 63 - n + 56" using that n64 by simp
    have pad: "pad m = m @ ?d @ (replicate 56 0 @ L)"
      unfolding pad_def n [symmetric] L_def z replicate_add by simp
    have ld: "length (rest m @ ?d) = 64" using that n n64 by simp
    have "length (replicate 56 0 @ L) = 64" using L by simp
    then show ?thesis
      unfolding pad rest_append_block(3) [OF block_after_rest(1) [OF ld]] block_after_rest(2) [OF ld]
      by (simp add: hash_blocks_one L_def)
  qed
qed

lemma MD5Final_rep:
  assumes r: "rep ctx m"
  shows "fst (MD5Final ctx) = md5_spec m"
proof -
  define n where "n = length m mod 64"
  define B0 B1 where "B0 = bits0 ctx" and "B1 = bits1 ctx"
  from r have buf: "buf ctx = hash_blocks MD5_init_regs m" and l64: "length (inb ctx) = 64"
    and tk: "take n (inb ctx) = rest m"
    and b0: "B0 = of_nat (8 * length m)" and b1: "B1 = of_nat (8 * length m div 2 ^ 32)"
    by (simp_all only: rep_def n_def B0_def B1_def)
  note cnt = rep_count [OF r, folded n_def]
  have n64: "n < 64" by (simp add: n_def)
  note pb = pad_blocks [OF n_def, of MD5_init_regs, folded b0 b1 buf]
  show ?thesis
  proof (cases "n < 56")
    case True
    have "memcpy (memcpy (memcpy (memcpy (inb ctx) n [0x80]) (n + 1) (replicate (55 - n) 0)) 56
        (le_bytes B0)) 60 (le_bytes B1) =
        memcpy (inb ctx) n ([0x80] @ replicate (55 - n) 0 @ le_bytes B0 @ le_bytes B1)"
      using True l64 by (simp add: memcpy_memcpy)
    also have "\<dots> = rest m @ [0x80] @ replicate (55 - n) 0 @ le_bytes B0 @ le_bytes B1"
      using True l64 tk by (simp add: memcpy_full)
    finally have blk: "memcpy (memcpy (memcpy (memcpy (inb ctx) n [0x80]) (n + 1) (replicate (55 - n) 0)) 56
        (le_bytes B0)) 60 (le_bytes B1) =
        rest m @ [0x80] @ replicate (55 - n) 0 @ le_bytes B0 @ le_bytes B1" .
    have "\<not> 64 - 1 - n < 8" and "64 - 1 - n - 8 = 55 - n" using True by simp_all
    then show ?thesis
      unfolding MD5Final_def Let_def cnt md5_spec_def pb(1) [OF True] blk [symmetric]
      by (simp only: if_False if_not_P) (simp add: transform_in_def B0_def B1_def)
  next
    case False
    have "memcpy (memcpy (inb ctx) n [0x80]) (n + 1) (replicate (63 - n) 0) =
        memcpy (inb ctx) n ([0x80] @ replicate (63 - n) 0)"
      using n64 l64 by (simp add: memcpy_memcpy)
    also have "\<dots> = rest m @ [0x80] @ replicate (63 - n) 0"
      using n64 l64 tk by (simp add: memcpy_full)
    finally have b1: "memcpy (memcpy (inb ctx) n [0x80]) (n + 1) (replicate (63 - n) 0) =
        rest m @ [0x80] @ replicate (63 - n) 0" .
    have b2: "memcpy (memcpy (memcpy x 0 (replicate 56 0)) 56 (le_bytes B0)) 60 (le_bytes B1) =
        replicate 56 0 @ le_bytes B0 @ le_bytes B1" if "length x = 64" for x
    proof -
      have "memcpy (memcpy (memcpy x 0 (replicate 56 0)) 56 (le_bytes B0)) 60 (le_bytes B1) =
          memcpy x 0 (replicate 56 0 @ le_bytes B0 @ le_bytes B1)"
        by (simp add: memcpy_memcpy)
      also have "\<dots> = replicate 56 0 @ le_bytes B0 @ le_bytes B1"
        using that by (simp add: memcpy_full)
      finally show ?thesis .
    qed
    have l: "length (memcpy (memcpy (inb ctx) n [0x80]) (n + 1) (replicate (63 - n) 0)) = 64"
      unfolding b1 using n64 by (simp add: n_def)
    have "64 - 1 - n < 8" and "64 - 1 - n = 63 - n" and "56 \<le> n" using False n64 by simp_all
    then show ?thesis
      unfolding MD5Final_def Let_def cnt md5_spec_def pb(2) [OF \<open>56 \<le> n\<close>] b1 [symmetric] b2 [OF l, symmetric]
      by (simp only: if_True if_P) (simp add: transform_in_def B0_def B1_def)
  qed
qed

section \<open>Properties\<close>



section \<open>Witness\<close>

definition zero_ctx :: MD5Context where
  "zero_ctx = \<lparr>buf = \<lparr>ra = 0, rb = 0, rc = 0, rd = 0\<rparr>, bits0 = 0, bits1 = 0, inb = replicate 64 0\<rparr>"


end
