(* ===== verification/Dialog_Text.thy ===== *)
theory Dialog_Text
  imports Prelude
begin

text \<open>
  The text both ends of the dialog protocol read and write: sentences \<open><word:word:...>\<close>. The
  theory holds the separators, the cutting of a byte stream into sentences, the decimal notation
  of numbers, and the contract of a sentence parser as the locale \<open>sentence_parser\<close>, which the
  client (\<^verbatim>\<open>peer.cpp\<close>) and the server (\<^verbatim>\<open>dialog_server/index.js\<close>) each implement in their own
  way.
\<close>

section \<open>Words and sentences\<close>

definition clean :: "string \<Rightarrow> bool" where
  "clean w \<longleftrightarrow> CHR '':'' \<notin> set w \<and> CHR ''>'' \<notin> set w"

text \<open>\<open>join [w1, ..., wn]\<close> is \<open>w1:...:wn\<close>; \<open>tail ws\<close> writes the separator before each word.\<close>

definition tail :: "string list \<Rightarrow> string" where
  "tail ws = concat (map (\<lambda>w. CHR '':'' # w) ws)"

definition sentence :: "string list \<Rightarrow> string" where
  "sentence ws = CHR ''<'' # hd ws @ tail (tl ws) @ [CHR ''>'']"

lemma tail_simps [simp]: "tail [] = []" "tail (w # ws) = CHR '':'' # w @ tail ws"
  "tail (xs @ ys) = tail xs @ tail ys"
  by (simp_all add: tail_def)

lemma sentence_Cons: "sentence (w # ws) = CHR ''<'' # w @ tail ws @ [CHR ''>'']"
  by (simp add: sentence_def)

lemma cleanD: "clean w \<Longrightarrow> c \<in> set w \<Longrightarrow> c \<noteq> CHR '':'' \<and> c \<noteq> CHR ''>''"
  by (auto simp: clean_def)

lemma clean_Cons [simp]: "clean (c # w) \<longleftrightarrow> c \<noteq> CHR '':'' \<and> c \<noteq> CHR ''>'' \<and> clean w"
  and clean_Nil [simp]: "clean []"
  by (auto simp: clean_def)

lemma no_end_in_tail: "list_all clean ws \<Longrightarrow> CHR ''>'' \<notin> set (tail ws)"
  by (induction ws) (auto simp: clean_def)

section \<open>A stream cut into sentences\<close>

text \<open>What has been completed by \<open>>\<close> and what stays in the buffer.\<close>

fun frames :: "string \<Rightarrow> string \<Rightarrow> string list \<times> string" where
  "frames buf [] = ([], buf)"
| "frames buf (c # d) =
     (if c = CHR ''>'' then let (fs, r) = frames [] d in ((buf @ [c]) # fs, r)
      else frames (buf @ [c]) d)"

lemma frames_append:
  "frames buf (d @ e) = (let (fs, r) = frames buf d; (gs, s) = frames r e in (fs @ gs, s))"
  by (induction d arbitrary: buf) (auto simp: Let_def split: prod.splits)

lemma frames_no_end: "CHR ''>'' \<notin> set d \<Longrightarrow> frames buf d = ([], buf @ d)"
  by (induction d arbitrary: buf) auto

lemma frames_rest: "CHR ''>'' \<notin> set buf \<Longrightarrow> CHR ''>'' \<notin> set (snd (frames buf d))"
  by (induction buf d rule: frames.induct) (auto split: prod.splits)

lemma frames_content:
  assumes "frames buf d = (fs, r)" and "CHR ''>'' \<notin> set buf"
  shows "concat fs @ r = buf @ d \<and> (\<forall>f \<in> set fs. last f = CHR ''>'' \<and> CHR ''>'' \<notin> set (butlast f) \<and> f \<noteq> [])"
  using assms by (induction buf d arbitrary: fs r rule: frames.induct) (auto split: prod.splits if_split_asm)

lemma frames_sentence:
  assumes "list_all clean ws" and "ws \<noteq> []"
  shows "frames [] (sentence ws) = ([sentence ws], [])"
proof -
  let ?s = "CHR ''<'' # hd ws @ tail (tl ws)"
  have "CHR ''>'' \<notin> set ?s"
    using assms no_end_in_tail [of "tl ws"] by (cases ws) (auto simp: clean_def)
  then have "frames [] ?s = ([], ?s)" using frames_no_end [of ?s "[]"] by simp
  then show ?thesis
    using frames_append [of "[]" ?s "[CHR ''>'']"] by (simp add: sentence_def del: frames.simps) simp
qed

lemma frames_sentences:
  assumes "list_all (\<lambda>ws. list_all clean ws \<and> ws \<noteq> []) wss"
  shows "frames [] (concat (map sentence wss)) = (map sentence wss, [])"
  using assms by (induction wss) (simp_all add: frames_append frames_sentence)

text \<open>The sentences of a stream do not depend on how the network cuts it.\<close>

fun frames_chunks :: "string \<Rightarrow> string list \<Rightarrow> string list \<times> string" where
  "frames_chunks buf [] = ([], buf)"
| "frames_chunks buf (d # ds) =
     (let (fs, r) = frames buf d; (gs, s) = frames_chunks r ds in (fs @ gs, s))"

lemma frames_chunks_concat: "frames_chunks buf ds = frames buf (concat ds)"
  by (induction ds arbitrary: buf) (auto simp: frames_append split: prod.splits)

section \<open>The contract of a sentence parser\<close>

locale sentence_parser =
  fixes parse :: "string \<Rightarrow> string list"
  assumes parse_sentence: "list_all clean ws \<Longrightarrow> ws \<noteq> [] \<Longrightarrow> parse (sentence ws) = ws"
begin

lemma parse_inject:
  "list_all clean us \<Longrightarrow> list_all clean ws \<Longrightarrow> us \<noteq> [] \<Longrightarrow> ws \<noteq> [] \<Longrightarrow>
    sentence us = sentence ws \<Longrightarrow> us = ws"
  using parse_sentence by metis

text \<open>However the stream of a list of sentences is cut into chunks, the parser sees the sentences.\<close>

lemma parse_chunks:
  assumes "list_all (\<lambda>ws. list_all clean ws \<and> ws \<noteq> []) wss"
    and "concat ds = concat (map sentence wss)"
  shows "map parse (fst (frames_chunks [] ds)) = wss \<and> snd (frames_chunks [] ds) = []"
proof -
  have "frames_chunks [] ds = (map sentence wss, [])"
    unfolding frames_chunks_concat assms(2) by (rule frames_sentences [OF assms(1)])
  moreover have "map (\<lambda>ws. parse (sentence ws)) wss = wss"
    using assms(1) by (induction wss) (simp_all add: parse_sentence)
  ultimately show ?thesis by (simp add: comp_def)
qed

end

section \<open>Decimal notation\<close>

text \<open>\<open>operator<<\<close> of an unsigned integer and JavaScript's conversion of one to a string.\<close>

definition digit_char :: "nat \<Rightarrow> char" where
  "digit_char d = char_of (d + 48)"

fun dec_of_nat :: "nat \<Rightarrow> string" where
  "dec_of_nat n = (if n < 10 then [digit_char n] else dec_of_nat (n div 10) @ [digit_char (n mod 10)])"

declare dec_of_nat.simps [simp del]

definition is_digit :: "char \<Rightarrow> bool" where
  "is_digit c \<longleftrightarrow> 48 \<le> (of_char c :: nat) \<and> (of_char c :: nat) \<le> 57"

definition digit_val :: "char \<Rightarrow> nat" where
  "digit_val c = of_char c - 48"

text \<open>The value of the leading digits, as \<open>atoi\<close> and \<open>operator>>\<close> of an unsigned integer read it.\<close>

definition digits_value :: "string \<Rightarrow> nat" where
  "digits_value s = foldl (\<lambda>n c. n * 10 + digit_val c) 0 s"

lemma digit_char_props:
  assumes "d < 10"
  shows "is_digit (digit_char d)" and "digit_val (digit_char d) = d"
  using assms by (simp_all add: is_digit_def digit_val_def digit_char_def)

lemma dec_of_nat_digits: "list_all is_digit (dec_of_nat n)"
  by (induction n rule: dec_of_nat.induct)
    (subst dec_of_nat.simps, auto simp: digit_char_props)

lemma dec_of_nat_value: "digits_value (dec_of_nat n) = n"
proof (induction n rule: dec_of_nat.induct)
  case (1 n)
  show ?case
  proof (cases "n < 10")
    case True
    then show ?thesis by (simp add: dec_of_nat.simps [of n] digits_value_def digit_char_props)
  next
    case False
    have "digits_value (dec_of_nat n) = digits_value (dec_of_nat (n div 10)) * 10 + n mod 10"
      using False by (simp add: dec_of_nat.simps [of n] digits_value_def digit_char_props)
    then show ?thesis using 1 [OF False] by simp
  qed
qed

lemma dec_of_nat_nonempty [simp]: "dec_of_nat n \<noteq> []"
  by (simp add: dec_of_nat.simps)

lemma clean_dec_of_nat: "clean (dec_of_nat n)"
  using dec_of_nat_digits [of n] by (auto simp: clean_def list_all_iff is_digit_def)

end
