(* ===== verification/Socket_Address.thy ===== *)
theory Socket_Address
  imports Dialog_Text "HOL-Library.List_Lexorder" "HOL-Library.Char_ord"
begin

text \<open>
  \<open>IPAddress\<close> and \<open>SocketAddress\<close> of \<^verbatim>\<open>talk/base/ipaddress.cc\<close> and \<^verbatim>\<open>talk/base/socketaddress.cc\<close>,
  as far as candidates use them. What the operating system answers is an argument: \<open>inet_pton\<close>
  for the two address families, \<open>inet_ntop\<close>, the host name and the local addresses.
\<close>

section \<open>IP addresses\<close>

datatype IPAddress = AF_UNSPEC | AF_INET uint32 | AF_INET6 "byte list"

abbreviation (input) INADDR_ANY :: uint32 where "INADDR_ANY \<equiv> 0"
abbreviation (input) INADDR_LOOPBACK :: uint32 where "INADDR_LOOPBACK \<equiv> 0x7F000001"

definition in6addr_any :: "byte list" where
  "in6addr_any = replicate 16 0"

definition in6addr_loopback :: "byte list" where
  "in6addr_loopback = replicate 15 0 @ [1]"

definition kMappedPrefix :: "byte list" where
  "kMappedPrefix = replicate 10 0 @ [0xFF, 0xFF]"

fun v4AddressAsHostOrderInteger :: "IPAddress \<Rightarrow> uint32" where
  "v4AddressAsHostOrderInteger (AF_INET a) = a"
| "v4AddressAsHostOrderInteger _ = 0"

text \<open>\<open>memcmp(a, b, n) < 0\<close> on arrays of the same length.\<close>

fun memcmp_less :: "byte list \<Rightarrow> byte list \<Rightarrow> bool" where
  "memcmp_less (x # xs) (y # ys) = (x < y \<or> (x = y \<and> memcmp_less xs ys))"
| "memcmp_less _ _ = False"

fun IP_less :: "IPAddress \<Rightarrow> IPAddress \<Rightarrow> bool" where
  "IP_less AF_UNSPEC AF_UNSPEC = False"
| "IP_less AF_UNSPEC _ = True"
| "IP_less (AF_INET a) (AF_INET b) = (a < b)"
| "IP_less (AF_INET a) (AF_INET6 b) = True"
| "IP_less (AF_INET6 a) (AF_INET6 b) = memcmp_less a b"
| "IP_less _ _ = False"

text \<open>The four bytes of an IPv4 address in network order.\<close>

definition network_bytes :: "uint32 \<Rightarrow> byte list" where
  "network_bytes a = map (\<lambda>i. ucast (drop_bit (24 - 8 * i) a)) [0..<4]"

definition from_network :: "byte list \<Rightarrow> uint32" where
  "from_network bs = foldl (\<lambda>a b. push_bit 8 a OR ucast b) 0 bs"

definition IsMappedAddress :: "byte list \<Rightarrow> bool" where
  "IsMappedAddress a \<longleftrightarrow> take 12 a = kMappedPrefix"

definition ExtractMappedAddress :: "byte list \<Rightarrow> uint32" where
  "ExtractMappedAddress a = from_network (drop 12 a)"

fun Normalized :: "IPAddress \<Rightarrow> IPAddress" where
  "Normalized (AF_INET6 a) = (if IsMappedAddress a then AF_INET (ExtractMappedAddress a) else AF_INET6 a)"
| "Normalized ip = ip"

fun AsIPv6Address :: "IPAddress \<Rightarrow> IPAddress" where
  "AsIPv6Address (AF_INET a) = AF_INET6 (kMappedPrefix @ network_bytes a)"
| "AsIPv6Address ip = ip"

definition IsPrivateV4 :: "uint32 \<Rightarrow> bool" where
  "IsPrivateV4 ip \<longleftrightarrow> drop_bit 24 ip = 127 \<or> drop_bit 24 ip = 10 \<or>
     drop_bit 20 ip = (push_bit 4 172 OR 1) \<or> drop_bit 16 ip = (push_bit 8 192 OR 168) \<or>
     drop_bit 16 ip = (push_bit 8 169 OR 254)"

fun IPIsAny :: "IPAddress \<Rightarrow> bool" where
  "IPIsAny (AF_INET a) = (a = INADDR_ANY)"
| "IPIsAny (AF_INET6 a) = (a = in6addr_any)"
| "IPIsAny AF_UNSPEC = False"

fun IPIsLoopback :: "IPAddress \<Rightarrow> bool" where
  "IPIsLoopback (AF_INET a) = (a = INADDR_LOOPBACK)"
| "IPIsLoopback (AF_INET6 a) = (a = in6addr_loopback)"
| "IPIsLoopback AF_UNSPEC = False"

fun IPIsPrivate :: "IPAddress \<Rightarrow> bool" where
  "IPIsPrivate (AF_INET a) = IsPrivateV4 a"
| "IPIsPrivate (AF_INET6 a) = ((a ! 0 = 0xFE \<and> a ! 1 = 0x80) \<or> IPIsLoopback (AF_INET6 a))"
| "IPIsPrivate AF_UNSPEC = False"

text \<open>The operating system's conversions.\<close>

record net_lib =
  inet_pton4 :: "string \<Rightarrow> uint32 option"
  inet_pton6 :: "string \<Rightarrow> byte list option"
  inet_ntop :: "IPAddress \<Rightarrow> string option"

fun IP_ToString :: "net_lib \<Rightarrow> IPAddress \<Rightarrow> string" where
  "IP_ToString os AF_UNSPEC = []"
| "IP_ToString os ip = (case inet_ntop os ip of None \<Rightarrow> [] | Some s \<Rightarrow> s)"

definition IPFromString :: "net_lib \<Rightarrow> string \<Rightarrow> bool \<times> IPAddress" where
  "IPFromString os str =
     (case inet_pton4 os str of
        Some a \<Rightarrow> (True, AF_INET a)
      | None \<Rightarrow> (case inet_pton6 os str of
                   Some a \<Rightarrow> (True, AF_INET6 a)
                 | None \<Rightarrow> (False, AF_UNSPEC)))"

section \<open>Socket addresses\<close>

record SocketAddress =
  hostname :: string
  ip :: IPAddress
  port :: "16 word"
  literal :: bool

definition SocketAddress_Clear :: SocketAddress where
  "SocketAddress_Clear = \<lparr>hostname = [], ip = AF_INET INADDR_ANY, port = 0, literal = False\<rparr>"

definition SetIP_addr :: "IPAddress \<Rightarrow> SocketAddress \<Rightarrow> SocketAddress" where
  "SetIP_addr a sa = sa\<lparr>hostname := [], literal := False, ip := a\<rparr>"

definition SetIP :: "net_lib \<Rightarrow> string \<Rightarrow> SocketAddress \<Rightarrow> SocketAddress" where
  "SetIP os h sa =
     (let (lit, a) = IPFromString os h
      in sa\<lparr>hostname := h, literal := lit, ip := (if lit then a else AF_INET INADDR_ANY)\<rparr>)"

definition SetPort :: "int \<Rightarrow> SocketAddress \<Rightarrow> SocketAddress" where
  "SetPort p sa = sa\<lparr>port := word_of_int p\<rparr>"

definition new_SocketAddress :: "net_lib \<Rightarrow> string \<Rightarrow> int \<Rightarrow> SocketAddress" where
  "new_SocketAddress os h p = SetPort p (SetIP os h SocketAddress_Clear)"

definition ip_SocketAddress :: "IPAddress \<Rightarrow> int \<Rightarrow> SocketAddress" where
  "ip_SocketAddress a p = SetPort p (SetIP_addr a SocketAddress_Clear)"

definition IsNil :: "SocketAddress \<Rightarrow> bool" where
  "IsNil sa \<longleftrightarrow> hostname sa = [] \<and> IPIsAny (ip sa) \<and> port sa = 0"

definition IsComplete :: "SocketAddress \<Rightarrow> bool" where
  "IsComplete sa \<longleftrightarrow> \<not> IPIsAny (ip sa) \<and> port sa \<noteq> 0"

definition IPAsString :: "net_lib \<Rightarrow> SocketAddress \<Rightarrow> string" where
  "IPAsString os sa =
     (if \<not> literal sa \<and> hostname sa \<noteq> [] then hostname sa
      else (case ip sa of AF_INET6 a \<Rightarrow> ''['' @ IP_ToString os (ip sa) @ '']''
            | _ \<Rightarrow> IP_ToString os (ip sa)))"

definition PortAsString :: "SocketAddress \<Rightarrow> string" where
  "PortAsString sa = dec_of_nat (unat (port sa))"

definition SocketAddress_ToString :: "net_lib \<Rightarrow> SocketAddress \<Rightarrow> string" where
  "SocketAddress_ToString os sa = IPAsString os sa @ '':'' @ dec_of_nat (unat (port sa))"

definition IsAnyIP :: "SocketAddress \<Rightarrow> bool" where
  "IsAnyIP sa = IPIsAny (ip sa)"

definition IsLoopbackIP :: "SocketAddress \<Rightarrow> bool" where
  "IsLoopbackIP sa \<longleftrightarrow> IPIsLoopback (ip sa) \<or> (IPIsAny (ip sa) \<and> hostname sa = ''localhost'')"

definition lower :: "char \<Rightarrow> char" where
  "lower c = (if 65 \<le> (of_char c :: nat) \<and> (of_char c :: nat) \<le> 90 then char_of ((of_char c :: nat) + 32) else c)"

text \<open>\<open>host\<close> is \<open>GetHostname()\<close>, \<open>local_ips\<close> what \<open>GetLocalIPs\<close> stores, if it succeeds.\<close>

definition IsLocalIP :: "string \<Rightarrow> IPAddress list option \<Rightarrow> SocketAddress \<Rightarrow> bool" where
  "IsLocalIP host local_ips sa =
     (if IsLoopbackIP sa then True
      else if IPIsAny (ip sa) then hostname sa \<noteq> [] \<and> map lower (hostname sa) = map lower host
      else (case local_ips of None \<Rightarrow> False | Some ips \<Rightarrow> ip sa \<in> set ips))"

definition IsPrivateIP :: "SocketAddress \<Rightarrow> bool" where
  "IsPrivateIP sa = IPIsPrivate (ip sa)"

definition IsUnresolvedIP :: "SocketAddress \<Rightarrow> bool" where
  "IsUnresolvedIP sa \<longleftrightarrow> IsAnyIP sa \<and> \<not> literal sa \<and> hostname sa \<noteq> []"

text \<open>\<open>strtoul\<close> with base 10, used for ports, on the digits it stops after.\<close>

definition strtoul :: "string \<Rightarrow> nat" where
  "strtoul s = digits_value (takeWhile is_digit s)"

text \<open>The text up to the first occurrence of a character and what follows it.\<close>

fun find_char :: "char \<Rightarrow> string \<Rightarrow> (string \<times> string) option" where
  "find_char c [] = None"
| "find_char c (d # s) = (if d = c then Some ([], s) else map_option (\<lambda>(a, b). (d # a, b)) (find_char c s))"

definition rfind_char :: "char \<Rightarrow> string \<Rightarrow> (string \<times> string) option" where
  "rfind_char c s = map_option (\<lambda>(a, b). (rev b, rev a)) (find_char c (rev s))"

text \<open>\<open>FromString\<close>: the result and the object, \<open>None\<close> when \<open>at(0)\<close> throws.\<close>

definition FromString :: "net_lib \<Rightarrow> string \<Rightarrow> SocketAddress \<Rightarrow> (bool \<times> SocketAddress) option" where
  "FromString os str sa =
     (if str = [] then None
      else if hd str = CHR ''['' then
        (case rfind_char CHR '']'' str of
           Some (before, after) \<Rightarrow>
             (case find_char CHR '':'' after of
                Some (_, digits) \<Rightarrow> Some (True, SetIP os (tl before) (SetPort (int (strtoul digits)) sa))
              | None \<Rightarrow> Some (False, sa))
         | None \<Rightarrow> Some (True, sa))
      else
        (case find_char CHR '':'' str of
           None \<Rightarrow> Some (False, sa)
         | Some (before, digits) \<Rightarrow> Some (True, SetIP os before (SetPort (int (strtoul digits)) sa))))"

section \<open>Comparison\<close>

definition EqualIPs :: "SocketAddress \<Rightarrow> SocketAddress \<Rightarrow> bool" where
  "EqualIPs a b \<longleftrightarrow> ip a = ip b \<and> (\<not> IPIsAny (ip a) \<or> hostname a = hostname b)"

definition EqualPorts :: "SocketAddress \<Rightarrow> SocketAddress \<Rightarrow> bool" where
  "EqualPorts a b \<longleftrightarrow> port a = port b"

definition SocketAddress_eq :: "SocketAddress \<Rightarrow> SocketAddress \<Rightarrow> bool" where
  "SocketAddress_eq a b \<longleftrightarrow> EqualIPs a b \<and> EqualPorts a b"

definition SocketAddress_less :: "SocketAddress \<Rightarrow> SocketAddress \<Rightarrow> bool" where
  "SocketAddress_less a b =
     (if IP_less (ip a) (ip b) then True
      else if IP_less (ip b) (ip a) then False
      else if IsAnyIP b \<and> hostname a < hostname b then True
      else if IsAnyIP b \<and> hostname b < hostname a then False
      else port a < port b)"

section \<open>Numbers read from text\<close>

definition is_space :: "char \<Rightarrow> bool" where
  "is_space c \<longleftrightarrow> c = CHR '' '' \<or> (9 \<le> (of_char c :: nat) \<and> (of_char c :: nat) \<le> 13)"

fun signed_digits :: "string \<Rightarrow> int" where
  "signed_digits (c # s) =
     (if c = CHR ''-'' then - int (strtoul s)
      else if c = CHR ''+'' then int (strtoul s) else int (strtoul (c # s)))"
| "signed_digits [] = 0"

text \<open>\<open>atoi\<close>; a value that is not an \<open>int\<close> is undefined behaviour.\<close>

definition atoi :: "string \<Rightarrow> int option" where
  "atoi s = (let v = signed_digits (dropWhile is_space s)
             in if - (2 ^ 31) \<le> v \<and> v < 2 ^ 31 then Some v else None)"

text \<open>\<open>operator>>\<close> of a \<open>uint32\<close>: 0 when there is no number, the largest value when it is too large,
  a negative number modulo \<open>2 ^ 32\<close>.\<close>

definition read_uint32 :: "string \<Rightarrow> uint32" where
  "read_uint32 s = (let v = signed_digits (dropWhile is_space s)
             in if \<bar>v\<bar> < 2 ^ 32 then word_of_int v else 0xFFFFFFFF)"

section \<open>Lemmas\<close>

lemma takeWhile_digits: "takeWhile is_digit (dec_of_nat n) = dec_of_nat n"
  using dec_of_nat_digits [of n] by (simp add: takeWhile_eq_all_conv list_all_iff)

lemma strtoul_dec [simp]: "strtoul (dec_of_nat n) = n"
  by (simp add: strtoul_def takeWhile_digits dec_of_nat_value)

lemma signed_digits_dec [simp]: "signed_digits (dec_of_nat n) = int n"
proof (cases "dec_of_nat n")
  case (Cons c s)
  have "is_digit c" using dec_of_nat_digits [of n] by (simp add: Cons)
  then have "c \<noteq> CHR ''-''" "c \<noteq> CHR ''+''" by (auto simp: is_digit_def)
  then show ?thesis using strtoul_dec [of n] by (simp add: Cons)
qed simp

lemma dropWhile_space_dec [simp]: "dropWhile is_space (dec_of_nat n) = dec_of_nat n"
proof (cases "dec_of_nat n")
  case (Cons c s)
  have "is_digit c" using dec_of_nat_digits [of n] by (simp add: Cons)
  then have "\<not> is_space c" by (auto simp: is_digit_def is_space_def)
  then show ?thesis by (simp add: Cons)
qed simp

lemma atoi_dec: "n < 2 ^ 31 \<Longrightarrow> atoi (dec_of_nat n) = Some (int n)"
  by (simp add: atoi_def Let_def)

lemma read_uint32_dec: "read_uint32 (dec_of_nat (unat x)) = x"
proof -
  have "int (unat x) < 2 ^ 32" using unsigned_less [of x, where 'a = int] by simp
  then show ?thesis by (simp add: read_uint32_def Let_def)
qed

lemma from_network_bytes: "from_network (network_bytes a) = a"
proof -
  have "[0..<4] = [0, 1, 2, 3 :: nat]" by (simp add: upt_rec)
  then have e: "from_network (network_bytes a) =
      push_bit 8 (push_bit 8 (push_bit 8 (ucast (ucast (drop_bit 24 a) :: byte)) OR ucast (ucast (drop_bit 16 a) :: byte))
        OR ucast (ucast (drop_bit 8 a) :: byte)) OR ucast (ucast a :: byte)"
    by (simp add: from_network_def network_bytes_def push_bit_or)
  show ?thesis
  proof (rule bit_word_eqI)
    fix n assume "n < LENGTH(32)"
    then consider "n < 8" | "8 \<le> n" "n < 16" | "16 \<le> n" "n < 24" | "24 \<le> n" "n < 32" by force
    then show "bit (from_network (network_bytes a)) n = bit a n"
      by cases (auto simp: e bit_simps)
  qed
qed

lemma Normalized_AsIPv6: "Normalized (AsIPv6Address (AF_INET a)) = AF_INET a"
  by (simp add: IsMappedAddress_def ExtractMappedAddress_def kMappedPrefix_def from_network_bytes)

section \<open>The text of an address\<close>

lemma find_char_append: "c \<notin> set a \<Longrightarrow> find_char c (a @ c # b) = Some (a, b)"
  by (induction a) auto

lemma rfind_char_append: "c \<notin> set b \<Longrightarrow> rfind_char c (a @ c # b) = Some (a, b)"
  using find_char_append [of c "rev b" "rev a"] by (simp add: rfind_char_def)

lemma SetPort_unat: "word_of_int (int (unat p)) = (p :: 16 word)"
  by simp

lemma from_text_v4:
  assumes "ip sa = AF_INET a" and "literal sa \<or> hostname sa = []"
    and "inet_ntop os (AF_INET a) = Some t" and "inet_pton4 os t = Some a"
    and "CHR '':'' \<notin> set t" and "t \<noteq> []" and "hd t \<noteq> CHR ''[''"
  shows "\<exists>sb. FromString os (SocketAddress_ToString os sa) z = Some (True, sb) \<and> ip sb = ip sa \<and> port sb = port sa \<and> literal sb"
proof -
  have x: "SocketAddress_ToString os sa = t @ CHR '':'' # dec_of_nat (unat (port sa))"
    using assms(1-3) by (auto simp: SocketAddress_ToString_def IPAsString_def)
  show ?thesis
    unfolding x FromString_def find_char_append [OF assms(5)]
    using assms by (auto simp: SetIP_def SetPort_def IPFromString_def)
qed

lemma from_text_v6:
  assumes "ip sa = AF_INET6 a" and "literal sa \<or> hostname sa = []"
    and "inet_ntop os (AF_INET6 a) = Some t" and "inet_pton4 os t = None" and "inet_pton6 os t = Some a"
  shows "\<exists>sb. FromString os (SocketAddress_ToString os sa) z = Some (True, sb) \<and> ip sb = ip sa \<and> port sb = port sa \<and> literal sb"
proof -
  let ?d = "dec_of_nat (unat (port sa))"
  have x: "SocketAddress_ToString os sa = (CHR ''['' # t) @ CHR '']'' # CHR '':'' # ?d"
    using assms(1-3) by (auto simp: SocketAddress_ToString_def IPAsString_def)
  have "CHR '']'' \<notin> set (CHR '':'' # ?d)"
    using dec_of_nat_digits [of "unat (port sa)"] by (auto simp: list_all_iff is_digit_def)
  from rfind_char_append [OF this, of "CHR ''['' # t"] show ?thesis
    unfolding x FromString_def using assms by (auto simp: SetIP_def SetPort_def IPFromString_def)
qed

section \<open>Properties\<close>

text \<open>C36: \<open>FromString\<close> reads back what \<open>ToString\<close> writes: for an address that is resolved or was
  given as a literal, of either family, the IP address and the port are the same. It relies on the
  system's \<open>inet_pton\<close> reading back what \<open>inet_ntop\<close> writes for this address.\<close>

theorem address_text_roundtrip:
  assumes "literal sa \<or> hostname sa = []" and "inet_ntop os (ip sa) = Some t"
    and "(\<exists>a. ip sa = AF_INET a \<and> inet_pton4 os t = Some a \<and> CHR '':'' \<notin> set t \<and> t \<noteq> [] \<and> hd t \<noteq> CHR ''['') \<or>
         (\<exists>a. ip sa = AF_INET6 a \<and> inet_pton4 os t = None \<and> inet_pton6 os t = Some a)"
  shows "\<exists>sb. FromString os (SocketAddress_ToString os sa) z = Some (True, sb) \<and>
    ip sb = ip sa \<and> port sb = port sa \<and> literal sb"
  using assms(3)
proof (elim disjE exE conjE)
  fix a assume a: "ip sa = AF_INET a" "inet_pton4 os t = Some a" "CHR '':'' \<notin> set t" "t \<noteq> []" "hd t \<noteq> CHR ''[''"
  show ?thesis by (rule from_text_v4 [OF a(1) assms(1)]) (use a assms(2) in simp_all)
next
  fix a assume a: "ip sa = AF_INET6 a" "inet_pton4 os t = None" "inet_pton6 os t = Some a"
  show ?thesis by (rule from_text_v6 [OF a(1) assms(1)]) (use a assms(2) in simp_all)
qed

definition some_lib :: net_lib where
  "some_lib = \<lparr>inet_pton4 = (\<lambda>s. if s = ''10.0.0.1'' then Some 0x0A000001 else None),
     inet_pton6 = (\<lambda>s. if s = ''::1'' then Some in6addr_loopback else None),
     inet_ntop = (\<lambda>a. if a = AF_INET 0x0A000001 then Some ''10.0.0.1''
                      else if a = AF_INET6 in6addr_loopback then Some ''::1'' else None)\<rparr>"

theorem address_text_roundtrip_witness:
  "\<exists>sb. FromString some_lib (SocketAddress_ToString some_lib (ip_SocketAddress (AF_INET6 in6addr_loopback) 5000)) SocketAddress_Clear =
      Some (True, sb) \<and> ip sb = AF_INET6 in6addr_loopback \<and> port sb = 5000 \<and> literal sb"
  using address_text_roundtrip [of "ip_SocketAddress (AF_INET6 in6addr_loopback) 5000" some_lib "''::1''" SocketAddress_Clear]
  by (simp add: ip_SocketAddress_def SetPort_def SetIP_addr_def SocketAddress_Clear_def some_lib_def)

lemma memcmp_less_trichotomy:
  "length a = length b \<Longrightarrow> memcmp_less a b \<or> memcmp_less b a \<or> a = b"
proof (induction a arbitrary: b)
  case (Cons x a)
  obtain y b' where b: "b = y # b'" using Cons.prems by (cases b) auto
  show ?case using Cons.IH [of b'] Cons.prems by (cases x y rule: linorder_cases) (auto simp: b)
qed simp

lemma memcmp_less_asym: "memcmp_less a b \<Longrightarrow> \<not> memcmp_less b a"
  by (induction a b rule: memcmp_less.induct) auto

lemma memcmp_less_trans: "memcmp_less a b \<Longrightarrow> memcmp_less b c \<Longrightarrow> memcmp_less a c"
proof (induction a b arbitrary: c rule: memcmp_less.induct)
  case (1 x xs y ys)
  show ?case
  proof (cases c)
    case (Cons z zs)
    then show ?thesis using "1.prems" "1.IH" [of zs] less_trans [of x y z] by auto
  qed (use "1.prems" in simp)
qed simp_all

text \<open>An IPv6 address is an array of sixteen bytes.\<close>

fun wf_ip :: "IPAddress \<Rightarrow> bool" where
  "wf_ip (AF_INET6 a) = (length a = 16)"
| "wf_ip _ = True"

lemma IP_less_trichotomy: "wf_ip a \<Longrightarrow> wf_ip b \<Longrightarrow> IP_less a b \<or> IP_less b a \<or> a = b"
  by (cases a; cases b) (simp_all add: memcmp_less_trichotomy, metis neq_iff)

lemma IP_less_asym: "IP_less a b \<Longrightarrow> \<not> IP_less b a"
  using memcmp_less_asym by (cases a; cases b) simp_all

lemma IP_less_trans: "IP_less a b \<Longrightarrow> IP_less b c \<Longrightarrow> IP_less a c"
  by (cases a; cases b; cases c) (simp_all, rule memcmp_less_trans)

lemma IP_less_irrefl: "\<not> IP_less a a"
  using IP_less_asym by blast

lemma SocketAddress_less_lex:
  assumes "wf_ip (ip a)" and "wf_ip (ip b)"
  shows "SocketAddress_less a b \<longleftrightarrow> IP_less (ip a) (ip b) \<or> (ip a = ip b \<and>
    (if IPIsAny (ip a) then hostname a < hostname b \<or> (hostname a = hostname b \<and> port a < port b)
     else port a < port b))"
proof (cases "ip a = ip b")
  case True
  then show ?thesis
    using less_asym [of "hostname a" "hostname b"] neq_iff [of "hostname a" "hostname b"]
    by (auto simp: SocketAddress_less_def IsAnyIP_def IP_less_irrefl)
next
  case False
  then show ?thesis
    using IP_less_trichotomy [OF assms] IP_less_asym [of "ip b" "ip a"] by (auto simp: SocketAddress_less_def)
qed

text \<open>C37: \<open>operator<\<close> of socket addresses is the strict ordering \<open>std::map\<close> needs, and it agrees with
  \<open>operator==\<close>: of two addresses exactly one is smaller or the two are equal, and the ordering is
  transitive, also across unresolved addresses, which are compared by host name.\<close>

theorem address_order:
  assumes "wf_ip (ip a)" and "wf_ip (ip b)" and "wf_ip (ip c)"
  shows "(SocketAddress_eq a b \<longleftrightarrow> \<not> SocketAddress_less a b \<and> \<not> SocketAddress_less b a) \<and>
    \<not> (SocketAddress_less a b \<and> SocketAddress_less b a) \<and>
    (SocketAddress_less a b \<longrightarrow> SocketAddress_less b c \<longrightarrow> SocketAddress_less a c)"
proof -
  note less = SocketAddress_less_lex [OF assms(1,2)] SocketAddress_less_lex [OF assms(2,1)]
    SocketAddress_less_lex [OF assms(2,3)] SocketAddress_less_lex [OF assms(1,3)]
  have "SocketAddress_eq a b \<longleftrightarrow> \<not> SocketAddress_less a b \<and> \<not> SocketAddress_less b a"
  proof (cases "ip a = ip b")
    case True
    then show ?thesis
      using neq_iff [of "hostname a" "hostname b"] neq_iff [of "port a" "port b"]
      by (auto simp: less SocketAddress_eq_def EqualIPs_def EqualPorts_def IP_less_irrefl)
  next
    case False
    then show ?thesis
      using IP_less_trichotomy [OF assms(1,2)] by (auto simp: less SocketAddress_eq_def EqualIPs_def)
  qed
  moreover have "\<not> (SocketAddress_less a b \<and> SocketAddress_less b a)"
  proof (cases "ip a = ip b")
    case True
    then show ?thesis
      by (cases "IPIsAny (ip b)") (auto simp: less(1,2) IP_less_irrefl not_less_iff_gr_or_eq)
  next
    case False
    then show ?thesis using IP_less_asym by (auto simp: less)
  qed
  moreover have "SocketAddress_less a b \<longrightarrow> SocketAddress_less b c \<longrightarrow> SocketAddress_less a c"
  proof (intro impI)
    assume ab: "SocketAddress_less a b" and bc: "SocketAddress_less b c"
    show "SocketAddress_less a c"
    proof (cases "ip a = ip b \<and> ip b = ip c")
      case True
      then show ?thesis using ab bc
        by (cases "IPIsAny (ip c)") (auto simp: less IP_less_irrefl intro: order.strict_trans)
    next
      case False
      then show ?thesis using ab bc IP_less_trans [of "ip a" "ip b" "ip c"] by (auto simp: less)
    qed
  qed
  ultimately show ?thesis by blast
qed

theorem address_order_witness:
  "\<not> SocketAddress_less (ip_SocketAddress (AF_INET 1) 80) (ip_SocketAddress (AF_INET 1) 80)"
  using address_order [of "ip_SocketAddress (AF_INET 1) 80" "ip_SocketAddress (AF_INET 1) 80" "ip_SocketAddress (AF_INET 1) 80"]
  by (simp add: ip_SocketAddress_def SetPort_def SetIP_addr_def)

end
