(* ===== verification/Candidate.thy ===== *)
theory Candidate
  imports Socket_Address
begin

text \<open>
  ICE candidates (\<^verbatim>\<open>talk/p2p/base/candidate.h\<close>), their ten-field form in a transport-info message
  (\<^verbatim>\<open>ppsession.cpp\<close>), and the test a received candidate has to pass
  (\<^verbatim>\<open>talk/p2p/base/transport.cc\<close>). The preference is a \<open>float\<close>; printing and reading it is the
  C++ library's business and an argument here.
\<close>

section \<open>Candidates\<close>

record 'f Candidate =
  cand_name :: string
  protocol :: string
  address :: SocketAddress
  preference :: 'f
  username :: string
  password :: string
  cand_type :: string
  network_name :: string
  generation :: uint32

record 'f float_lib =
  show_float :: "'f \<Rightarrow> string"
  read_float :: "string \<Rightarrow> 'f"

definition preference_str :: "'f float_lib \<Rightarrow> 'f Candidate \<Rightarrow> string" where
  "preference_str fl c = show_float fl (preference c)"

definition set_preference_str :: "'f float_lib \<Rightarrow> string \<Rightarrow> 'f Candidate \<Rightarrow> 'f Candidate" where
  "set_preference_str fl s c = c\<lparr>preference := read_float fl s\<rparr>"

definition generation_str :: "'f Candidate \<Rightarrow> string" where
  "generation_str c = dec_of_nat (unat (generation c))"

definition set_generation_str :: "string \<Rightarrow> 'f Candidate \<Rightarrow> 'f Candidate" where
  "set_generation_str s c = c\<lparr>generation := read_uint32 s\<rparr>"

definition IsEquivalent :: "'f Candidate \<Rightarrow> 'f Candidate \<Rightarrow> bool" where
  "IsEquivalent a c \<longleftrightarrow> cand_name a = cand_name c \<and> protocol a = protocol c \<and>
     SocketAddress_eq (address a) (address c) \<and> username a = username c \<and> password a = password c \<and>
     cand_type a = cand_type c \<and> generation a = generation c"

section \<open>The ten fields of a candidate\<close>

definition candidate_fields :: "net_lib \<Rightarrow> 'f float_lib \<Rightarrow> 'f Candidate \<Rightarrow> string list" where
  "candidate_fields os fl c =
     [cand_name c, protocol c, preference_str fl c, IPAsString os (address c), PortAsString (address c),
      username c, password c, cand_type c, network_name c, generation_str c]"

definition transport_info_argvs :: "net_lib \<Rightarrow> 'f float_lib \<Rightarrow> string \<Rightarrow> 'f Candidate list \<Rightarrow> string list" where
  "transport_info_argvs os fl content cs = content # concat (map (candidate_fields os fl) cs)"

text \<open>Reading the \<open>i\<close>-th candidate: an \<open>atoi\<close> out of range is undefined.\<close>

definition read_candidate ::
    "net_lib \<Rightarrow> 'f float_lib \<Rightarrow> 'f Candidate \<Rightarrow> string list \<Rightarrow> nat \<Rightarrow> 'f Candidate option" where
  "read_candidate os fl blank argvs i = do {
     p \<leftarrow> atoi (argvs ! (i * 10 + 1 + 4));
     let addr = new_SocketAddress os (argvs ! (i * 10 + 1 + 3)) p;
         cand = blank\<lparr>cand_name := argvs ! (i * 10 + 1 + 0), protocol := argvs ! (i * 10 + 1 + 1)\<rparr>;
         cand = set_preference_str fl (argvs ! (i * 10 + 1 + 2)) cand;
         cand = cand\<lparr>address := addr, username := argvs ! (i * 10 + 1 + 5),
                  password := argvs ! (i * 10 + 1 + 6), cand_type := argvs ! (i * 10 + 1 + 7),
                  network_name := argvs ! (i * 10 + 1 + 8)\<rparr>;
         cand = set_generation_str (argvs ! (i * 10 + 1 + 9)) cand
     in Some cand
   }"

definition read_candidates ::
    "net_lib \<Rightarrow> 'f float_lib \<Rightarrow> 'f Candidate \<Rightarrow> string list \<Rightarrow> 'f Candidate list option" where
  "read_candidates os fl blank argvs =
     (let nCandidates = (length argvs - 1) div 10
      in those (map (read_candidate os fl blank argvs) [0..<nCandidates]))"

section \<open>The test on received candidates\<close>

definition VerifyCandidate :: "string \<Rightarrow> IPAddress list option \<Rightarrow> bool \<Rightarrow> 'f Candidate \<Rightarrow> bool" where
  "VerifyCandidate host local_ips allow_local_ips cand =
     (if IsLocalIP host local_ips (address cand) \<and> \<not> allow_local_ips then False
      else if IsAnyIP (address cand) then False
      else
        let p = unat (port (address cand)) in
        if p < 1024 then
          if p \<noteq> 80 \<and> p \<noteq> 443 then False
          else if IsPrivateIP (address cand) then False
          else True
        else True)"

section \<open>Lemmas\<close>

lemma length_candidate_fields [simp]: "length (candidate_fields os fl c) = 10"
  by (simp add: candidate_fields_def)

lemma length_fields [simp]: "length (concat (map (candidate_fields os fl) cs)) = 10 * length cs"
  by (induction cs) simp_all

lemma fields_nth:
  "i < length cs \<Longrightarrow> j < 10 \<Longrightarrow>
    concat (map (candidate_fields os fl) cs) ! (i * 10 + j) = candidate_fields os fl (cs ! i) ! j"
proof (induction cs arbitrary: i)
  case (Cons c cs)
  show ?case
  proof (cases i)
    case 0
    then show ?thesis using Cons.prems by (simp add: nth_append)
  next
    case (Suc k)
    have "Suc k * 10 + j = 10 + (k * 10 + j)" by simp
    then show ?thesis using Cons by (simp add: Suc nth_append)
  qed
qed simp

lemma argvs_nth:
  assumes "i < length cs" and "j < 10"
  shows "transport_info_argvs os fl content cs ! (i * 10 + 1 + j) = candidate_fields os fl (cs ! i) ! j"
  using fields_nth [OF assms] by (simp add: transport_info_argvs_def)

text \<open>What a candidate becomes on the way: its address is read from the text of the IP address.\<close>

definition received :: "net_lib \<Rightarrow> 'f float_lib \<Rightarrow> 'f Candidate \<Rightarrow> 'f Candidate" where
  "received os fl c = c\<lparr>address := new_SocketAddress os (IPAsString os (address c)) (uint (port (address c))),
     preference := read_float fl (show_float fl (preference c))\<rparr>"

lemma atoi_port: "atoi (PortAsString sa) = Some (uint (port sa))"
proof -
  have "unat (port sa) < 2 ^ 16" using unsigned_less [of "port sa", where 'a = nat] by simp
  then show ?thesis unfolding PortAsString_def using atoi_dec [of "unat (port sa)"] by simp
qed

lemma read_candidate_fields:
  assumes "i < length cs"
  shows "read_candidate os fl blank (transport_info_argvs os fl content cs) i = Some (received os fl (cs ! i))"
proof -
  note nth = argvs_nth [OF assms, of _ os fl content]
  have f: "candidate_fields os fl c ! 0 = cand_name c" "candidate_fields os fl c ! 1 = protocol c"
    "candidate_fields os fl c ! 2 = preference_str fl c" "candidate_fields os fl c ! 3 = IPAsString os (address c)"
    "candidate_fields os fl c ! 4 = PortAsString (address c)" "candidate_fields os fl c ! 5 = username c"
    "candidate_fields os fl c ! 6 = password c" "candidate_fields os fl c ! 7 = cand_type c"
    "candidate_fields os fl c ! 8 = network_name c" "candidate_fields os fl c ! 9 = generation_str c" for c
    by (simp_all add: candidate_fields_def)
  have "transport_info_argvs os fl content cs ! (i * 10 + 1 + j) = candidate_fields os fl (cs ! i) ! j"
    if "j \<in> {0, 1, 2, 3, 4, 5, 6, 7, 8, 9}" for j
    using nth [of j] that by auto
  then show ?thesis
    unfolding read_candidate_def
    by (simp only: insert_iff simp_thms f atoi_port Option.bind.simps Let_def)
      (simp add: received_def set_preference_str_def set_generation_str_def preference_str_def
        generation_str_def read_uint32_dec)
qed

lemma those_map_Some: "(\<And>x. x \<in> set xs \<Longrightarrow> f x = Some (g x)) \<Longrightarrow> those (map f xs) = Some (map g xs)"
  by (induction xs) auto

lemma read_candidates_received:
  "read_candidates os fl blank (transport_info_argvs os fl content cs) = Some (map (received os fl) cs)"
proof -
  have "length (transport_info_argvs os fl content cs) - 1 = 10 * length cs"
    by (simp add: transport_info_argvs_def)
  moreover have "those (map (read_candidate os fl blank (transport_info_argvs os fl content cs)) [0..<length cs]) =
      Some (map (\<lambda>i. received os fl (cs ! i)) [0..<length cs])"
    by (rule those_map_Some) (simp add: read_candidate_fields)
  moreover have "map (\<lambda>i. received os fl (cs ! i)) [0..<length cs] = map (received os fl) cs"
    by (rule nth_equalityI) simp_all
  ultimately show ?thesis by (simp add: read_candidates_def)
qed

text \<open>An IPv4 address the system can print and read back.\<close>

definition printable_v4 :: "net_lib \<Rightarrow> SocketAddress \<Rightarrow> bool" where
  "printable_v4 os sa \<longleftrightarrow> (literal sa \<or> hostname sa = []) \<and> \<not> IPIsAny (ip sa) \<and>
     (case ip sa of AF_INET a \<Rightarrow> (case inet_ntop os (ip sa) of None \<Rightarrow> False | Some t \<Rightarrow> inet_pton4 os t = Some a)
      | _ \<Rightarrow> False)"

lemma received_address:
  assumes "printable_v4 os sa"
  shows "SocketAddress_eq (new_SocketAddress os (IPAsString os sa) (uint (port sa))) sa"
  using assms by (auto simp: printable_v4_def new_SocketAddress_def SetPort_def SetIP_def IPFromString_def
      SocketAddress_eq_def EqualIPs_def EqualPorts_def IPAsString_def
      split: IPAddress.split_asm option.split_asm)

section \<open>Properties\<close>

text \<open>C12: the candidates of a transport-info message survive the trip: what the receiver reads from
  the fields the sender wrote is, candidate by candidate, equivalent to what was sent, with the
  same preference and network name. The addresses are IPv4 addresses that the system's \<open>inet_pton\<close>
  reads back from \<open>inet_ntop\<close>, the preferences such as the six digits of the stream determine.\<close>

theorem candidates_roundtrip:
  assumes "list_all (\<lambda>c. printable_v4 os (address c) \<and> read_float fl (show_float fl (preference c)) = preference c) cs"
  shows "\<exists>ds. read_candidates os fl blank (transport_info_argvs os fl content cs) = Some ds \<and>
    list_all2 (\<lambda>d c. IsEquivalent d c \<and> preference d = preference c \<and> network_name d = network_name c) ds cs"
proof -
  have "list_all2 (\<lambda>d c. IsEquivalent d c \<and> preference d = preference c \<and> network_name d = network_name c)
      (map (received os fl) cs) cs"
    using assms by (auto simp: list_all2_conv_all_nth list_all_length received_def IsEquivalent_def
        received_address)
  then show ?thesis by (simp add: read_candidates_received)
qed

definition some_float :: "int float_lib" where
  "some_float = \<lparr>show_float = (\<lambda>x. dec_of_nat (nat x)), read_float = (\<lambda>s. int (strtoul s))\<rparr>"

definition some_candidate :: "int Candidate" where
  "some_candidate = \<lparr>cand_name = ''rtp'', protocol = ''udp'', address = ip_SocketAddress (AF_INET 0x0A000001) 5000,
     preference = 1, username = ''u'', password = ''p'', cand_type = ''local'', network_name = ''eth0'', generation = 0\<rparr>"

theorem candidates_roundtrip_witness:
  "\<exists>ds. read_candidates some_lib some_float some_candidate
        (transport_info_argvs some_lib some_float ''data'' [some_candidate, some_candidate]) = Some ds \<and>
    list_all2 (\<lambda>d c. IsEquivalent d c \<and> preference d = preference c \<and> network_name d = network_name c)
      ds [some_candidate, some_candidate]"
  by (rule candidates_roundtrip)
    (simp add: printable_v4_def some_candidate_def some_float_def some_lib_def ip_SocketAddress_def
      SetPort_def SetIP_addr_def SocketAddress_Clear_def)



end
