(* ===== verification/Stores.thy ===== *)
theory Stores
  imports Prelude "HOL-Library.List_Lexorder" "HOL-Library.Char_ord"
begin

text \<open>
  The two keyed containers the program is written with, as lists of entries in iteration order:
  \<open>std::map\<close>, ordered by key, and the own properties of a JavaScript object, in order of
  insertion. The locale \<open>keyed_store\<close> is what their users rely on.
\<close>

locale keyed_store =
  fixes wf :: "('k \<times> 'v) list \<Rightarrow> bool"
    and put :: "'k \<Rightarrow> 'v \<Rightarrow> ('k \<times> 'v) list \<Rightarrow> ('k \<times> 'v) list"
    and remove :: "'k \<Rightarrow> ('k \<times> 'v) list \<Rightarrow> ('k \<times> 'v) list"
  assumes wf_empty: "wf []"
    and wf_distinct: "wf m \<Longrightarrow> distinct (map fst m)"
    and wf_put: "wf m \<Longrightarrow> wf (put k v m)"
    and wf_remove: "wf m \<Longrightarrow> wf (remove k m)"
    and map_of_put: "wf m \<Longrightarrow> map_of (put k v m) = (map_of m)(k \<mapsto> v)"
    and map_of_remove: "wf m \<Longrightarrow> map_of (remove k m) = (map_of m)(k := None)"
begin

lemma entry_iff: "wf m \<Longrightarrow> (k, v) \<in> set m \<longleftrightarrow> map_of m k = Some v"
  using wf_distinct map_of_eq_Some_iff [of m k v] by auto

lemma set_put: "wf m \<Longrightarrow> set (put k v m) = insert (k, v) {e \<in> set m. fst e \<noteq> k}"
  by (auto simp: entry_iff wf_put map_of_put split: if_split_asm)

lemma set_remove: "wf m \<Longrightarrow> set (remove k m) = {e \<in> set m. fst e \<noteq> k}"
  by (auto simp: entry_iff wf_remove map_of_remove split: if_split_asm)

lemma keys_put: "wf m \<Longrightarrow> fst ` set (put k v m) = insert k (fst ` set m)"
  by (auto simp: set_put image_iff)

lemma keys_remove: "wf m \<Longrightarrow> fst ` set (remove k m) = fst ` set m - {k}"
  by (auto simp: set_remove image_iff)

end

section \<open>\<open>std::map\<close>\<close>

fun map_put :: "'k :: linorder \<Rightarrow> 'v \<Rightarrow> ('k \<times> 'v) list \<Rightarrow> ('k \<times> 'v) list" where
  "map_put k v [] = [(k, v)]"
| "map_put k v ((k', v') # m) =
     (if k < k' then (k, v) # (k', v') # m else if k = k' then (k, v) # m
      else (k', v') # map_put k v m)"

definition map_erase :: "'k \<Rightarrow> ('k \<times> 'v) list \<Rightarrow> ('k \<times> 'v) list" where
  "map_erase k m = filter (\<lambda>e. fst e \<noteq> k) m"

definition map_wf :: "('k :: linorder \<times> 'v) list \<Rightarrow> bool" where
  "map_wf m = sorted_wrt (<) (map fst m)"

lemma map_put_keys: "fst ` set (map_put k v m) = insert k (fst ` set m)"
  by (induction m) (force split: if_split_asm)+

lemma map_of_filter_key: "map_of (filter (\<lambda>e. fst e \<noteq> k) m) = (map_of m)(k := None)"
  by (induction m) auto

interpretation std_map: keyed_store map_wf map_put map_erase
proof
  fix m :: "('k :: linorder \<times> 'v) list" and k v
  assume wf: "map_wf m"
  show "map_wf (map_put k v m)" using wf
  proof (induction m)
    case (Cons e m)
    obtain k' v' where e: "e = (k', v')" by (cases e)
    have "map_wf m" using Cons.prems by (simp add: map_wf_def)
    moreover have "x \<in> fst ` set (map_put k v m) \<Longrightarrow> k' < k \<Longrightarrow> k' < x" for x
      using Cons.prems by (auto simp: e map_put_keys map_wf_def)
    ultimately show ?case using Cons.prems Cons.IH by (auto simp: e map_wf_def)
  qed (simp add: map_wf_def)
  show "map_of (map_put k v m) = (map_of m)(k \<mapsto> v)" using wf
    by (induction m) (auto simp: map_wf_def)
  show "map_wf (map_erase k m)" using wf
    by (auto simp: map_wf_def map_erase_def sorted_wrt_map intro: sorted_wrt_filter)
  show "map_of (map_erase k m) = (map_of m)(k := None)"
    by (simp add: map_erase_def map_of_filter_key)
  show "distinct (map fst m)" using wf by (simp add: map_wf_def strict_sorted_iff)
qed (simp add: map_wf_def)

section \<open>Own properties of a JavaScript object\<close>

fun js_put :: "'k \<Rightarrow> 'v \<Rightarrow> ('k \<times> 'v) list \<Rightarrow> ('k \<times> 'v) list" where
  "js_put k v [] = [(k, v)]"
| "js_put k v ((k', v') # m) = (if k = k' then (k, v) # m else (k', v') # js_put k v m)"

definition js_delete :: "'k \<Rightarrow> ('k \<times> 'v) list \<Rightarrow> ('k \<times> 'v) list" where
  "js_delete k m = filter (\<lambda>e. fst e \<noteq> k) m"

definition js_wf :: "('k \<times> 'v) list \<Rightarrow> bool" where
  "js_wf m = distinct (map fst m)"

lemma js_put_keys: "fst ` set (js_put k v m) = insert k (fst ` set m)"
  by (induction m) (force split: if_split_asm)+

interpretation js_object: keyed_store js_wf js_put js_delete
proof
  fix m :: "('k \<times> 'v) list" and k v
  assume wf: "js_wf m"
  have "distinct (map fst (js_put k v m))" using wf
  proof (induction m)
    case (Cons e m)
    then show ?case using js_put_keys [of k v m] by (cases e) (auto simp: js_wf_def)
  qed simp
  then show "js_wf (js_put k v m)" by (simp add: js_wf_def)
  show "map_of (js_put k v m) = (map_of m)(k \<mapsto> v)" by (induction m) auto
  show "js_wf (js_delete k m)" using wf by (simp add: js_wf_def js_delete_def distinct_map_filter)
  show "map_of (js_delete k m) = (map_of m)(k := None)"
    by (simp add: js_delete_def map_of_filter_key)
  show "distinct (map fst m)" using wf by (simp add: js_wf_def)
qed (simp add: js_wf_def)

lemma js_put_new: "k \<notin> fst ` set m \<Longrightarrow> js_put k v m = m @ [(k, v)]"
  by (induction m) auto

end
