(* ===== verification/Transport.thy ===== *)
theory Transport
  imports Candidate Stores
begin

text \<open>
  The transport of a content, \<^verbatim>\<open>talk/p2p/base/transport.cc\<close>: the reference-counted channels, the
  request to connect, and the candidates that wait for the signaling thread. The work is split
  between a worker and a signaling thread; a synchronous \<open>Send\<close> is a call, a \<open>Post\<close> is an output,
  and the handler of the posted message is a definition of its own. The channel implementations
  below the transport are outside this model; what the transport calls on them is an output.
\<close>

section \<open>State and outputs\<close>

record 'f Transport =
  channels :: "(string \<times> int) list"
  connect_requested :: bool
  allow_local_ips :: bool
  destroyed :: bool
  readable :: bool
  writable :: bool
  ready_candidates :: "'f Candidate list"

datatype 'f t_out =
    Channel_Create string string
  | Channel_Connect string
  | Channel_SetSessionId string string
  | Channel_Reset string
  | Channel_Destroy string
  | Channel_OnSignalingReady string
  | Channel_OnCandidate string "'f Candidate"
  | Post_READSTATE
  | Post_WRITESTATE
  | Post_REQUESTSIGNALING
  | Post_CANDIDATEREADY
  | Post_ROUTECHANGE "'f Candidate"
  | Post_CONNECTING
  | Post_ONSIGNALINGREADY
  | Post_ONREMOTECANDIDATE "'f Candidate"
  | Clear_Posts
  | SignalConnecting
  | SignalReadableState
  | SignalWritableState
  | SignalRequestSignaling
  | SignalCandidatesReady "'f Candidate list"
  | SignalRouteChange string "'f Candidate"

definition new_Transport :: "'f Transport" where
  "new_Transport = \<lparr>channels = [], connect_requested = False, allow_local_ips = False, destroyed = False,
     readable = False, writable = False, ready_candidates = []\<rparr>"

section \<open>Channels\<close>

definition GetChannel :: "'f Transport \<Rightarrow> string \<Rightarrow> bool" where
  "GetChannel t n \<longleftrightarrow> map_of (channels t) n \<noteq> None"

definition HasChannels :: "'f Transport \<Rightarrow> bool" where
  "HasChannels t \<longleftrightarrow> channels t \<noteq> []"

definition CreateChannel_w :: "string \<Rightarrow> string \<Rightarrow> 'f Transport \<Rightarrow> 'f Transport \<times> 'f t_out list" where
  "CreateChannel_w n content_type t =
     (let (chans, created) = (case map_of (channels t) n of
            None \<Rightarrow> (map_put n 0 (channels t), [Channel_Create n content_type])
          | Some r \<Rightarrow> (channels t, []));
          t = t\<lparr>channels := map_put n (the (map_of chans n) + 1) chans, destroyed := False\<rparr>
      in if connect_requested t
         then (t, created @ [Channel_Connect n] @ (if length (channels t) = 1 then [Post_CONNECTING] else []))
         else (t, created))"

definition DestroyChannel_w :: "string \<Rightarrow> 'f Transport \<Rightarrow> 'f Transport \<times> 'f t_out list" where
  "DestroyChannel_w n t =
     (case map_of (channels t) n of
        None \<Rightarrow> (t, [])
      | Some r \<Rightarrow>
          let gone = (r - 1 = 0);
              t = t\<lparr>channels := (if gone then map_erase n (channels t) else map_put n (r - 1) (channels t))\<rparr>
          in (t, (if connect_requested t \<and> channels t = [] then [Post_CONNECTING] else []) @
                 (if gone then [Post_WRITESTATE, Channel_Destroy n] else [])))"

definition CallChannels_w :: "(string \<Rightarrow> 'f t_out) \<Rightarrow> 'f Transport \<Rightarrow> 'f t_out list" where
  "CallChannels_w f t = map (\<lambda>e. f (fst e)) (channels t)"

definition ConnectChannels_w :: "'f Transport \<Rightarrow> 'f Transport \<times> 'f t_out list" where
  "ConnectChannels_w t =
     (if connect_requested t \<or> channels t = [] then (t, [])
      else
        let t = t\<lparr>connect_requested := True\<rparr>
        in (t, [Post_CANDIDATEREADY] @ CallChannels_w Channel_Connect t @
               (if channels t \<noteq> [] then [Post_CONNECTING] else [])))"

definition OnConnecting_s :: "'f t_out list" where
  "OnConnecting_s = [SignalConnecting]"

definition DestroyAllChannels_w :: "'f Transport \<Rightarrow> 'f Transport \<times> 'f t_out list" where
  "DestroyAllChannels_w t =
     (t\<lparr>channels := []\<rparr>,
      map (\<lambda>e. Channel_Destroy (fst e)) (filter (\<lambda>e. snd e - 1 = 0) (channels t)))"

definition DestroyAllChannels :: "'f Transport \<Rightarrow> 'f Transport \<times> 'f t_out list" where
  "DestroyAllChannels t =
     (let (t, out) = DestroyAllChannels_w t in (t\<lparr>destroyed := True\<rparr>, out @ [Clear_Posts]))"

definition ResetChannels_w :: "'f Transport \<Rightarrow> 'f Transport \<times> 'f t_out list" where
  "ResetChannels_w t =
     (let t = t\<lparr>connect_requested := False, ready_candidates := []\<rparr>
      in (t, CallChannels_w Channel_Reset t))"

definition OnSignalingReady :: "'f Transport \<Rightarrow> 'f t_out list" where
  "OnSignalingReady t = (if destroyed t then [] else [Post_ONSIGNALINGREADY])"

section \<open>Candidates\<close>

definition OnRemoteCandidate :: "'f Transport \<Rightarrow> 'f Candidate \<Rightarrow> 'f t_out list" where
  "OnRemoteCandidate t c =
     (if destroyed t then []
      else if \<not> GetChannel t (cand_name c) then []
      else [Post_ONREMOTECANDIDATE c])"

definition OnRemoteCandidates :: "'f Transport \<Rightarrow> 'f Candidate list \<Rightarrow> 'f t_out list" where
  "OnRemoteCandidates t cs = concat (map (OnRemoteCandidate t) cs)"

definition OnRemoteCandidate_w :: "'f Transport \<Rightarrow> 'f Candidate \<Rightarrow> 'f t_out list" where
  "OnRemoteCandidate_w t c =
     (if GetChannel t (cand_name c) then [Channel_OnCandidate (cand_name c) c] else [])"

definition OnChannelCandidateReady :: "'f Candidate \<Rightarrow> 'f Transport \<Rightarrow> 'f Transport \<times> 'f t_out list" where
  "OnChannelCandidateReady c t =
     (let t = t\<lparr>ready_candidates := ready_candidates t @ [c]\<rparr>
      in (t, if connect_requested t then [Post_CANDIDATEREADY] else []))"

definition OnChannelCandidateReady_s :: "'f Transport \<Rightarrow> 'f Transport \<times> 'f t_out list" where
  "OnChannelCandidateReady_s t =
     (let candidates = ready_candidates t; t = t\<lparr>ready_candidates := []\<rparr>
      in (t, if candidates \<noteq> [] then [SignalCandidatesReady candidates] else []))"

section \<open>Readability and writability\<close>

text \<open>\<open>b\<close> answers \<open>readable()\<close> or \<open>writable()\<close> of a channel.\<close>

definition GetTransportState_s :: "(string \<Rightarrow> bool) \<Rightarrow> 'f Transport \<Rightarrow> bool" where
  "GetTransportState_s b t = foldl (\<lambda>result e. result \<or> b (fst e)) False (channels t)"

definition OnChannelReadableState_s :: "(string \<Rightarrow> bool) \<Rightarrow> 'f Transport \<Rightarrow> 'f Transport \<times> 'f t_out list" where
  "OnChannelReadableState_s b t =
     (let r = GetTransportState_s b t
      in if readable t \<noteq> r then (t\<lparr>readable := r\<rparr>, [SignalReadableState]) else (t, []))"

definition OnChannelWritableState_s :: "(string \<Rightarrow> bool) \<Rightarrow> 'f Transport \<Rightarrow> 'f Transport \<times> 'f t_out list" where
  "OnChannelWritableState_s b t =
     (let w = GetTransportState_s b t
      in if writable t \<noteq> w then (t\<lparr>writable := w\<rparr>, [SignalWritableState]) else (t, []))"

section \<open>Posts of the channels, and the dispatch of the messages\<close>

definition OnChannelReadableState :: "'f t_out list" where
  "OnChannelReadableState = [Post_READSTATE]"

definition OnChannelWritableState :: "'f t_out list" where
  "OnChannelWritableState = [Post_WRITESTATE]"

definition OnChannelRequestSignaling :: "'f t_out list" where
  "OnChannelRequestSignaling = [Post_REQUESTSIGNALING]"

definition OnChannelRequestSignaling_s :: "'f t_out list" where
  "OnChannelRequestSignaling_s = [SignalRequestSignaling]"

definition OnChannelRouteChange :: "'f Candidate \<Rightarrow> 'f t_out list" where
  "OnChannelRouteChange c = [Post_ROUTECHANGE c]"

definition OnChannelRouteChange_s :: "string \<Rightarrow> 'f Candidate \<Rightarrow> 'f t_out list" where
  "OnChannelRouteChange_s n c = [SignalRouteChange n c]"

text \<open>The parameters of a message with a candidate carry the candidate's name.\<close>

datatype 'f t_msg =
    MSG_CREATECHANNEL string string
  | MSG_DESTROYCHANNEL string
  | MSG_DESTROYALLCHANNELS
  | MSG_CONNECTCHANNELS
  | MSG_RESETCHANNELS
  | MSG_ONSIGNALINGREADY
  | MSG_ONREMOTECANDIDATE "'f Candidate"
  | MSG_READSTATE
  | MSG_WRITESTATE
  | MSG_REQUESTSIGNALING
  | MSG_CANDIDATEREADY
  | MSG_ROUTECHANGE "'f Candidate"
  | MSG_CONNECTING

fun Transport_OnMessage :: "(string \<Rightarrow> bool) \<Rightarrow> (string \<Rightarrow> bool) \<Rightarrow> 'f t_msg \<Rightarrow> 'f Transport \<Rightarrow> 'f Transport \<times> 'f t_out list" where
  "Transport_OnMessage r w (MSG_CREATECHANNEL n ct) t = CreateChannel_w n ct t"
| "Transport_OnMessage r w (MSG_DESTROYCHANNEL n) t = DestroyChannel_w n t"
| "Transport_OnMessage r w MSG_CONNECTCHANNELS t = ConnectChannels_w t"
| "Transport_OnMessage r w MSG_RESETCHANNELS t = ResetChannels_w t"
| "Transport_OnMessage r w MSG_DESTROYALLCHANNELS t = DestroyAllChannels_w t"
| "Transport_OnMessage r w MSG_ONSIGNALINGREADY t = (t, CallChannels_w Channel_OnSignalingReady t)"
| "Transport_OnMessage r w (MSG_ONREMOTECANDIDATE c) t = (t, OnRemoteCandidate_w t c)"
| "Transport_OnMessage r w MSG_CONNECTING t = (t, OnConnecting_s)"
| "Transport_OnMessage r w MSG_READSTATE t = OnChannelReadableState_s r t"
| "Transport_OnMessage r w MSG_WRITESTATE t = OnChannelWritableState_s w t"
| "Transport_OnMessage r w MSG_REQUESTSIGNALING t = (t, OnChannelRequestSignaling_s)"
| "Transport_OnMessage r w MSG_CANDIDATEREADY t = OnChannelCandidateReady_s t"
| "Transport_OnMessage r w (MSG_ROUTECHANGE c) t = (t, OnChannelRouteChange_s (cand_name c) c)"

section \<open>Invariants\<close>

definition transport_wf :: "'f Transport \<Rightarrow> bool" where
  "transport_wf t \<longleftrightarrow> map_wf (channels t) \<and> (\<forall>e \<in> set (channels t). 0 < snd e)"

lemma wf_new: "transport_wf new_Transport"
  by (simp add: transport_wf_def new_Transport_def map_wf_def)

lemma wf_create: "transport_wf t \<Longrightarrow> transport_wf (fst (CreateChannel_w n ct t))"
proof -
  assume wf: "transport_wf t"
  then have m: "map_wf (channels t)" and p: "\<forall>e \<in> set (channels t). 0 < snd e" by (auto simp: transport_wf_def)
  have "\<forall>r. map_of (channels t) n = Some r \<longrightarrow> 0 < r" using p by (auto dest!: map_of_SomeD)
  then show ?thesis
    using m p by (auto simp: CreateChannel_w_def transport_wf_def Let_def std_map.wf_put std_map.set_put
        std_map.map_of_put split: option.split)
qed

lemma create_channels:
  "transport_wf t \<Longrightarrow> map_of (channels (fst (CreateChannel_w n ct t))) =
    (map_of (channels t))(n \<mapsto> (case map_of (channels t) n of None \<Rightarrow> 1 | Some r \<Rightarrow> r + 1))"
  by (auto simp: transport_wf_def CreateChannel_w_def Let_def std_map.wf_put std_map.map_of_put split: option.split)

lemma wf_destroy: "transport_wf t \<Longrightarrow> transport_wf (fst (DestroyChannel_w n t))"
proof -
  assume wf: "transport_wf t"
  then have m: "map_wf (channels t)" and p: "\<forall>e \<in> set (channels t). 0 < snd e" by (auto simp: transport_wf_def)
  have "\<forall>r. map_of (channels t) n = Some r \<longrightarrow> 0 < r" using p by (auto dest!: map_of_SomeD)
  then show ?thesis
    using m p by (auto simp: DestroyChannel_w_def transport_wf_def Let_def std_map.wf_put std_map.set_put
        std_map.wf_remove std_map.set_remove split: option.split)
qed

lemma destroy_channels:
  "transport_wf t \<Longrightarrow> map_of (channels (fst (DestroyChannel_w n t))) =
    (map_of (channels t))(n := (case map_of (channels t) n of None \<Rightarrow> None
       | Some r \<Rightarrow> if r = 1 then None else Some (r - 1)))"
  by (auto simp: transport_wf_def DestroyChannel_w_def Let_def std_map.wf_put std_map.map_of_put std_map.map_of_remove
      split: option.split)

section \<open>The way of the local candidates\<close>

text \<open>
  Runs of a transport: \<open>posts\<close> counts the \<open>MSG_CANDIDATEREADY\<close> messages in the queue of the
  signaling thread, \<open>found\<close> are the candidates the channels have reported, \<open>given\<close> those signaled.
\<close>

definition posts_of :: "'f t_out list \<Rightarrow> nat" where
  "posts_of out = length (filter (\<lambda>x. x = Post_CANDIDATEREADY) out)"

definition given_of :: "'f t_out list \<Rightarrow> 'f Candidate list" where
  "given_of out = concat (map (\<lambda>x. case x of SignalCandidatesReady cs \<Rightarrow> cs | _ \<Rightarrow> []) out)"

inductive transport_run :: "'f Transport \<Rightarrow> nat \<Rightarrow> 'f Candidate list \<Rightarrow> 'f Candidate list \<Rightarrow> bool" where
  start: "transport_run new_Transport 0 [] []"
| create: "transport_run t n f g \<Longrightarrow> CreateChannel_w x ct t = (t', out) \<Longrightarrow>
    transport_run t' (n + posts_of out) f (g @ given_of out)"
| destroy: "transport_run t n f g \<Longrightarrow> DestroyChannel_w x t = (t', out) \<Longrightarrow>
    transport_run t' (n + posts_of out) f (g @ given_of out)"
| connect: "transport_run t n f g \<Longrightarrow> ConnectChannels_w t = (t', out) \<Longrightarrow>
    transport_run t' (n + posts_of out) f (g @ given_of out)"
| ready: "transport_run t n f g \<Longrightarrow> OnChannelCandidateReady c t = (t', out) \<Longrightarrow>
    transport_run t' (n + posts_of out) (f @ [c]) (g @ given_of out)"
| handle: "transport_run t (Suc n) f g \<Longrightarrow> OnChannelCandidateReady_s t = (t', out) \<Longrightarrow>
    transport_run t' (n + posts_of out) f (g @ given_of out)"

definition transport_inv :: "'f Transport \<Rightarrow> nat \<Rightarrow> 'f Candidate list \<Rightarrow> 'f Candidate list \<Rightarrow> bool" where
  "transport_inv t n f g \<longleftrightarrow> transport_wf t \<and> g @ ready_candidates t = f \<and>
     (0 < n \<longrightarrow> connect_requested t) \<and> (connect_requested t \<and> ready_candidates t \<noteq> [] \<longrightarrow> 0 < n)"

lemma channel_ops_keep:
  "CreateChannel_w x ct t = (t', out) \<Longrightarrow>
    connect_requested t' = connect_requested t \<and> ready_candidates t' = ready_candidates t \<and> posts_of out = 0 \<and> given_of out = []"
  "DestroyChannel_w x t = (t', out) \<Longrightarrow>
    connect_requested t' = connect_requested t \<and> ready_candidates t' = ready_candidates t \<and> posts_of out = 0 \<and> given_of out = []"
  by (auto simp: CreateChannel_w_def DestroyChannel_w_def Let_def posts_of_def given_of_def
      split: option.split_asm if_split_asm)

lemma connect_posts: "posts_of (CallChannels_w Channel_Connect t) = 0" "given_of (CallChannels_w Channel_Connect t) = []"
  by (simp_all add: CallChannels_w_def posts_of_def given_of_def filter_empty_conv comp_def)

lemma posts_append [simp]: "posts_of (a @ b) = posts_of a + posts_of b" "given_of (a @ b) = given_of a @ given_of b"
  by (simp_all add: posts_of_def given_of_def)

lemma transport_invariant: "transport_run t n f g \<Longrightarrow> transport_inv t n f g"
proof (induction rule: transport_run.induct)
  case start
  then show ?case by (simp add: transport_inv_def wf_new) (simp add: new_Transport_def)
next
  case (create t n f g x ct t' out)
  then show ?case using wf_create [of t x ct] channel_ops_keep(1) [of x ct t t' out] by (simp add: transport_inv_def)
next
  case (destroy t n f g x t' out)
  then show ?case using wf_destroy [of t x] channel_ops_keep(2) [of x t t' out] by (simp add: transport_inv_def)
next
  case (connect t n f g t' out)
  have "posts_of [Post_CANDIDATEREADY] = 1" "given_of [Post_CANDIDATEREADY] = []"
    "posts_of [Post_CONNECTING] = 0" "given_of [Post_CONNECTING] = []"
    by (simp_all add: posts_of_def given_of_def)
  then show ?case using connect
    by (auto simp: transport_inv_def ConnectChannels_w_def connect_posts transport_wf_def Let_def
        split: if_split_asm simp del: append_Cons) (simp_all add: posts_of_def given_of_def)
next
  case (ready t n f g c t' out)
  then show ?case
    by (auto simp: transport_inv_def OnChannelCandidateReady_def Let_def posts_of_def given_of_def transport_wf_def
        split: if_split_asm)
next
  case (handle t n f g t' out)
  then show ?case
    by (auto simp: transport_inv_def OnChannelCandidateReady_s_def Let_def posts_of_def given_of_def transport_wf_def
        split: if_split_asm)
qed

section \<open>Properties\<close>



text \<open>Channels are reference counted: a channel exists exactly as long as it has been created
  more often than destroyed, and it is destroyed with the last reference.\<close>

lemma channel_refcount:
  assumes "transport_wf t"
  shows "map_of (channels (fst (DestroyChannel_w n (fst (CreateChannel_w n ct t))))) = map_of (channels t) \<and>
    (Channel_Destroy n \<in> set (snd (DestroyChannel_w n t)) \<longleftrightarrow> map_of (channels t) n = Some 1) \<and>
    GetChannel (fst (CreateChannel_w n ct t)) n"
proof -
  have "0 < r" if "map_of (channels t) n = Some r" for r
    using assms that by (auto simp: transport_wf_def dest!: map_of_SomeD)
  then have "map_of (channels (fst (DestroyChannel_w n (fst (CreateChannel_w n ct t))))) = map_of (channels t)"
    by (auto simp: destroy_channels [OF wf_create [OF assms]] create_channels [OF assms] fun_eq_iff split: option.split)
  moreover have "Channel_Destroy n \<in> set (snd (DestroyChannel_w n t)) \<longleftrightarrow> map_of (channels t) n = Some 1"
    by (auto simp: DestroyChannel_w_def Let_def split: option.split)
  ultimately show ?thesis by (simp add: GetChannel_def create_channels [OF assms])
qed

end
