(* ===== verification/PP_Session.thy ===== *)
theory PP_Session
  imports Transport
begin

text \<open>
  The session: \<open>TransportProxy\<close> and \<open>BaseSession\<close> of \<^verbatim>\<open>talk/p2p/base/session.cc\<close> and \<open>PPSession\<close>
  of \<^verbatim>\<open>ppsession.cpp\<close>. Everything runs on the signaling thread; assertions are compiled out, as in
  a release build. An operation returns the session, its outputs in order, and \<open>None\<close> where the
  behaviour is undefined: \<open>argvs[0]\<close> of an empty vector, an \<open>atoi\<close> out of range, or a channel
  implementation used after it was destroyed.
\<close>

section \<open>Messages and states\<close>

text \<open>The \<open>id\<close> of a message is 0 in every message and read by nobody; it is left out.\<close>

datatype pp_type = PPMSG_SESSION_INITIATE | PPMSG_SESSION_ACCEPT | PPMSG_SESSION_REJECT
  | PPMSG_SESSION_TERMINATE | PPMSG_SESSION_INFO | PPMSG_TRANSPORT_INFO

record PPMessage =
  msg_type :: pp_type
  argvs :: "string list"

datatype session_state = STATE_INIT | STATE_SENTINITIATE | STATE_RECEIVEDINITIATE | STATE_SENTACCEPT
  | STATE_RECEIVEDACCEPT | STATE_SENTMODIFY | STATE_RECEIVEDMODIFY | STATE_SENTREJECT
  | STATE_RECEIVEDREJECT | STATE_SENTREDIRECT | STATE_SENTTERMINATE | STATE_RECEIVEDTERMINATE
  | STATE_INPROGRESS | STATE_DEINIT

datatype session_error = ERROR_NONE | ERROR_TIME | ERROR_RESPONSE | ERROR_NETWORK | ERROR_CONTENT

datatype tp_state = TP_INIT | TP_CONNECTING | TP_NEGOTIATED

text \<open>A channel proxy is present in \<open>proxies\<close>; the value says whether its \<open>impl_\<close> is set.\<close>

record 'f TransportProxy =
  tp_state :: tp_state
  proxies :: "(string \<times> bool) list"
  impl :: "'f Transport"
  sent_candidates :: "'f Candidate list"
  unsent_candidates :: "'f Candidate list"

text \<open>The descriptions are lists of group names.\<close>

record 'f PPSession =
  state :: session_state
  error :: session_error
  sess_sid :: string
  content_name :: string
  pending_candidates :: bool
  sess_allow_local_ips :: bool
  local_description :: "string list option"
  remote_description :: "string list option"
  transports :: "(string \<times> 'f TransportProxy) list"

datatype 'f s_out =
    On_Transport string "'f t_out"
  | SignalOutgoingMessage PPMessage
  | SignalStateChanged session_state
  | SignalError session_error
  | SignalReceivedTerminateReason string
  | SignalInfoMessage string
  | SignalErrorMessage PPMessage
  | SignalChannelGone string
  | SignalTimeout
  | SignalSessionRequestSignaling
  | Post_STATE
  | Clear_TIMEOUT
  | Post_TIMEOUT nat

text \<open>The environment: the libraries, a default-constructed candidate, \<open>GetHostname\<close> and
  \<open>GetLocalIPs\<close>.\<close>

record 'f env =
  os_lib :: net_lib
  fl_lib :: "'f float_lib"
  blank_candidate :: "'f Candidate"
  host_name :: string
  host_ips :: "IPAddress list option"

abbreviation (input) NS_PPSESSION :: string where "NS_PPSESSION \<equiv> ''ppsession''"

section \<open>Transport proxies\<close>

definition GetOrCreateImpl :: "string \<Rightarrow> string \<Rightarrow> 'f Transport \<Rightarrow> 'f Transport \<times> 'f t_out list" where
  "GetOrCreateImpl s n t =
     (if GetChannel t n then (t, [])
      else let (t, out) = CreateChannel_w n NS_PPSESSION t in (t, out @ [Channel_SetSessionId n s]))"

text \<open>\<open>SetImplementation\<close> of a channel proxy drops the reference of an implementation it already
  has, and then uses the new one: a fault when they are the same channel and it is gone.\<close>

definition SetImplementation :: "string \<Rightarrow> bool \<Rightarrow> 'f Transport \<Rightarrow> ('f Transport \<times> 'f t_out list) option" where
  "SetImplementation n has_impl t =
     (let (t, out) = (if has_impl then DestroyChannel_w n t else (t, []))
      in if GetChannel t n then Some (t, out) else None)"

definition SetProxyImpl :: "string \<Rightarrow> string \<Rightarrow> 'f TransportProxy \<Rightarrow> ('f TransportProxy \<times> 'f t_out list) option" where
  "SetProxyImpl s n tp =
     (let (t, out) = GetOrCreateImpl s n (impl tp) in do {
        (t, out') \<leftarrow> SetImplementation n (map_of (proxies tp) n = Some True) t;
        Some (tp\<lparr>impl := t, proxies := map_put n True (proxies tp)\<rparr>, out @ out')
      })"

definition new_TransportProxy :: "'f Transport \<Rightarrow> 'f TransportProxy" where
  "new_TransportProxy t = \<lparr>tp_state = TP_INIT, proxies = [], impl = t, sent_candidates = [], unsent_candidates = []\<rparr>"

definition tp_CreateChannel :: "string \<Rightarrow> string \<Rightarrow> 'f TransportProxy \<Rightarrow> ('f TransportProxy \<times> 'f t_out list) option" where
  "tp_CreateChannel s n tp =
     (let tp = tp\<lparr>proxies := map_put n False (proxies tp)\<rparr> in
      if tp_state tp = TP_NEGOTIATED then SetProxyImpl s n tp
      else if tp_state tp = TP_CONNECTING then
        let (t, out) = GetOrCreateImpl s n (impl tp) in Some (tp\<lparr>impl := t\<rparr>, out)
      else Some (tp, []))"

definition tp_DestroyChannel :: "string \<Rightarrow> 'f TransportProxy \<Rightarrow> 'f TransportProxy \<times> 'f t_out list" where
  "tp_DestroyChannel n tp =
     (case map_of (proxies tp) n of
        None \<Rightarrow> (tp, [])
      | Some has_impl \<Rightarrow>
          let (t, out) = (if has_impl then DestroyChannel_w n (impl tp) else (impl tp, []))
          in (tp\<lparr>proxies := map_erase n (proxies tp), impl := t\<rparr>, out))"

fun create_impls :: "string \<Rightarrow> string list \<Rightarrow> 'f Transport \<Rightarrow> 'f Transport \<times> 'f t_out list" where
  "create_impls s [] t = (t, [])"
| "create_impls s (n # ns) t =
     (let (t, out) = GetOrCreateImpl s n t; (t, outs) = create_impls s ns t in (t, out @ outs))"

definition SpeculativelyConnectChannels :: "string \<Rightarrow> 'f TransportProxy \<Rightarrow> 'f TransportProxy \<times> 'f t_out list" where
  "SpeculativelyConnectChannels s tp =
     (let (t, out) = create_impls s (map fst (proxies tp)) (impl tp);
          (t, out') = ConnectChannels_w t
      in (tp\<lparr>tp_state := TP_CONNECTING, impl := t\<rparr>, out @ out'))"

fun set_proxy_impls :: "string \<Rightarrow> string list \<Rightarrow> 'f TransportProxy \<Rightarrow> ('f TransportProxy \<times> 'f t_out list) option" where
  "set_proxy_impls s [] tp = Some (tp, [])"
| "set_proxy_impls s (n # ns) tp = do {
     (tp, out) \<leftarrow> SetProxyImpl s n tp;
     (tp, outs) \<leftarrow> set_proxy_impls s ns tp;
     Some (tp, out @ outs)
   }"

definition CompleteNegotiation :: "string \<Rightarrow> 'f TransportProxy \<Rightarrow> ('f TransportProxy \<times> 'f t_out list) option" where
  "CompleteNegotiation s tp =
     (if tp_state tp \<noteq> TP_NEGOTIATED then do {
        (tp, out) \<leftarrow> set_proxy_impls s (map fst (proxies tp)) (tp\<lparr>tp_state := TP_NEGOTIATED\<rparr>);
        let (t, out') = ConnectChannels_w (impl tp) in Some (tp\<lparr>impl := t\<rparr>, out @ out')
      }
      else Some (tp, []))"

definition AddSentCandidates :: "'f Candidate list \<Rightarrow> 'f TransportProxy \<Rightarrow> 'f TransportProxy" where
  "AddSentCandidates cs tp = tp\<lparr>sent_candidates := sent_candidates tp @ cs\<rparr>"

definition AddUnsentCandidates :: "'f Candidate list \<Rightarrow> 'f TransportProxy \<Rightarrow> 'f TransportProxy" where
  "AddUnsentCandidates cs tp = tp\<lparr>unsent_candidates := unsent_candidates tp @ cs\<rparr>"

definition ClearUnsentCandidates :: "'f TransportProxy \<Rightarrow> 'f TransportProxy" where
  "ClearUnsentCandidates tp = tp\<lparr>unsent_candidates := []\<rparr>"

section \<open>The base session\<close>

definition set_proxy :: "string \<Rightarrow> 'f TransportProxy \<Rightarrow> 'f PPSession \<Rightarrow> 'f PPSession" where
  "set_proxy c tp s = s\<lparr>transports := map_put c tp (transports s)\<rparr>"

definition GetTransportProxy :: "'f PPSession \<Rightarrow> string \<Rightarrow> 'f TransportProxy option" where
  "GetTransportProxy s c = map_of (transports s) c"

definition GetOrCreateTransportProxy :: "string \<Rightarrow> 'f PPSession \<Rightarrow> 'f PPSession" where
  "GetOrCreateTransportProxy c s =
     (case GetTransportProxy s c of
        Some tp \<Rightarrow> s
      | None \<Rightarrow> set_proxy c (new_TransportProxy (new_Transport\<lparr>allow_local_ips := sess_allow_local_ips s\<rparr>)) s)"

definition CreateChannel :: "string \<Rightarrow> string \<Rightarrow> 'f PPSession \<Rightarrow> ('f PPSession \<times> 'f s_out list) option" where
  "CreateChannel c n s =
     (let s = GetOrCreateTransportProxy c s in do {
        tp \<leftarrow> GetTransportProxy s c;
        (tp, out) \<leftarrow> tp_CreateChannel (sess_sid s) n tp;
        Some (set_proxy c tp s, map (On_Transport c) out)
      })"

definition set_allow_local_ips :: "bool \<Rightarrow> 'f PPSession \<Rightarrow> 'f PPSession" where
  "set_allow_local_ips allow s = s\<lparr>sess_allow_local_ips := allow,
     transports := map (\<lambda>(c, tp). (c, tp\<lparr>impl := (impl tp)\<lparr>allow_local_ips := allow\<rparr>\<rparr>)) (transports s)\<rparr>"

definition SetState :: "session_state \<Rightarrow> 'f PPSession \<Rightarrow> 'f PPSession \<times> 'f s_out list" where
  "SetState st s = (if st \<noteq> state s then (s\<lparr>state := st\<rparr>, [SignalStateChanged st, Post_STATE]) else (s, []))"

definition SetError :: "session_error \<Rightarrow> 'f PPSession \<Rightarrow> 'f PPSession \<times> 'f s_out list" where
  "SetError e s = (if e \<noteq> error s then (s\<lparr>error := e\<rparr>, [SignalError e]) else (s, []))"

definition sess_OnSignalingReady :: "'f PPSession \<Rightarrow> 'f s_out list" where
  "sess_OnSignalingReady s =
     concat (map (\<lambda>(c, tp). map (On_Transport c) (OnSignalingReady (impl tp))) (transports s))"

fun connect_all :: "string \<Rightarrow> (string \<times> 'f TransportProxy) list \<Rightarrow> (string \<times> 'f TransportProxy) list \<times> 'f s_out list" where
  "connect_all sid [] = ([], [])"
| "connect_all sid ((c, tp) # m) =
     (let (tp, out) = SpeculativelyConnectChannels sid tp; (m, outs) = connect_all sid m
      in ((c, tp) # m, map (On_Transport c) out @ outs))"

definition SpeculativelyConnectAllTransportChannels :: "'f PPSession \<Rightarrow> 'f PPSession \<times> 'f s_out list" where
  "SpeculativelyConnectAllTransportChannels s =
     (let (m, out) = connect_all (sess_sid s) (transports s) in (s\<lparr>transports := m\<rparr>, out))"

abbreviation (input) GROUP_TYPE_BUNDLE :: string where "GROUP_TYPE_BUNDLE \<equiv> ''BUNDLE''"

text \<open>A null description is a fault.\<close>

definition ContentsGrouped :: "'f PPSession \<Rightarrow> bool option" where
  "ContentsGrouped s = do {
     l \<leftarrow> local_description s;
     r \<leftarrow> remote_description s;
     Some (GROUP_TYPE_BUNDLE \<in> set l \<and> GROUP_TYPE_BUNDLE \<in> set r)
   }"

definition session_OnMessage_STATE :: "'f PPSession \<Rightarrow> 'f PPSession \<times> 'f s_out list" where
  "session_OnMessage_STATE s =
     (if state s = STATE_SENTACCEPT \<or> state s = STATE_RECEIVEDACCEPT then SetState STATE_INPROGRESS s
      else (s, []))"

definition session_OnMessage_TIMEOUT :: "'f PPSession \<Rightarrow> 'f PPSession \<times> 'f s_out list" where
  "session_OnMessage_TIMEOUT s =
     (let (s, out) = SetError ERROR_TIME s in (s, out @ [SignalTimeout]))"

section \<open>The session of the prober\<close>

definition new_PPSession :: "string \<Rightarrow> bool \<Rightarrow> 'f PPSession" where
  "new_PPSession sid allow = \<lparr>state = STATE_INIT, error = ERROR_NONE, sess_sid = sid, content_name = [],
     pending_candidates = False, sess_allow_local_ips = allow, local_description = None,
     remote_description = None, transports = []\<rparr>"

definition CreateTransportProxies :: "string \<Rightarrow> 'f PPSession \<Rightarrow> 'f PPSession" where
  "CreateTransportProxies c s = GetOrCreateTransportProxy c (s\<lparr>pending_candidates := True\<rparr>)"

definition SendTransportInfoMessage :: "'f env \<Rightarrow> string \<Rightarrow> 'f Candidate list \<Rightarrow> 'f s_out list" where
  "SendTransportInfoMessage e c cs =
     [SignalOutgoingMessage \<lparr>msg_type = PPMSG_TRANSPORT_INFO,
        argvs = transport_info_argvs (os_lib e) (fl_lib e) c cs\<rparr>]"

fun send_unsent :: "'f env \<Rightarrow> (string \<times> 'f TransportProxy) list \<Rightarrow> (string \<times> 'f TransportProxy) list \<times> 'f s_out list" where
  "send_unsent e [] = ([], [])"
| "send_unsent e ((c, tp) # m) =
     (let (m, outs) = send_unsent e m in
      if unsent_candidates tp \<noteq> []
      then ((c, ClearUnsentCandidates tp) # m, SendTransportInfoMessage e c (unsent_candidates tp) @ outs)
      else ((c, tp) # m, outs))"

definition SendAllUnsentTransportInfoMessages :: "'f env \<Rightarrow> 'f PPSession \<Rightarrow> 'f PPSession \<times> 'f s_out list" where
  "SendAllUnsentTransportInfoMessages e s =
     (let (m, out) = send_unsent e (transports s) in (s\<lparr>pending_candidates := False, transports := m\<rparr>, out))"

definition OnTransportCandidatesReady :: "'f env \<Rightarrow> string \<Rightarrow> 'f Candidate list \<Rightarrow> 'f PPSession \<Rightarrow> 'f PPSession \<times> 'f s_out list" where
  "OnTransportCandidatesReady e c cs s =
     (case GetTransportProxy s c of
        None \<Rightarrow> (s, [])
      | Some tp \<Rightarrow>
          if pending_candidates s then (set_proxy c (AddUnsentCandidates cs tp) s, [])
          else (s, SendTransportInfoMessage e c cs))"

text \<open>\<open>OnRemoteCandidates\<close> returns false at the first candidate that is refused or has no channel;
  only when all pass are they handed to the transport.\<close>

definition candidate_ok :: "'f env \<Rightarrow> 'f Transport \<Rightarrow> 'f Candidate \<Rightarrow> bool" where
  "candidate_ok e t c \<longleftrightarrow>
     VerifyCandidate (host_name e) (host_ips e) (allow_local_ips t) c \<and> GetChannel t (cand_name c)"

definition sess_OnRemoteCandidates :: "'f env \<Rightarrow> string \<Rightarrow> 'f Candidate list \<Rightarrow> 'f PPSession \<Rightarrow> ('f PPSession \<times> 'f s_out list \<times> bool) option" where
  "sess_OnRemoteCandidates e c cs s =
     (case GetTransportProxy s c of
        None \<Rightarrow> Some (s, [], False)
      | Some tp \<Rightarrow> do {
          (tp, out) \<leftarrow> CompleteNegotiation (sess_sid s) tp;
          let s = set_proxy c tp s; out = map (On_Transport c) out in
          if list_all (candidate_ok e (impl tp)) cs
          then Some (s, out @ map (On_Transport c) (OnRemoteCandidates (impl tp) cs), True)
          else Some (s, out, False)
        })"

definition Initiate :: "string \<Rightarrow> 'f PPSession \<Rightarrow> 'f PPSession \<times> 'f s_out list \<times> bool" where
  "Initiate content s =
     (if state s \<noteq> STATE_INIT then (s, [], False)
      else
        let s = s\<lparr>content_name := content, local_description := Some []\<rparr>;
            s = CreateTransportProxies content s;
            msg = \<lparr>msg_type = PPMSG_SESSION_INITIATE, argvs = [content]\<rparr>;
            (s, out) = SetState STATE_SENTINITIATE s;
            (s, out') = SpeculativelyConnectAllTransportChannels s
        in (s, [SignalOutgoingMessage msg] @ out @ out', True))"

definition Accept :: "'f env \<Rightarrow> 'f PPSession \<Rightarrow> 'f PPSession \<times> 'f s_out list \<times> bool" where
  "Accept e s =
     (if state s \<noteq> STATE_RECEIVEDINITIATE then (s, [], False)
      else
        let s = s\<lparr>local_description := Some []\<rparr>;
            msg = \<lparr>msg_type = PPMSG_SESSION_ACCEPT, argvs = [content_name s]\<rparr>;
            (s, out) = SetState STATE_SENTACCEPT s;
            (s, out') = SendAllUnsentTransportInfoMessages e s
        in (s, [SignalOutgoingMessage msg] @ out @ out', True))"

definition Reject :: "'f PPSession \<Rightarrow> 'f PPSession \<times> 'f s_out list \<times> bool" where
  "Reject s =
     (if state s \<noteq> STATE_RECEIVEDINITIATE \<and> state s \<noteq> STATE_RECEIVEDMODIFY then (s, [], False)
      else let (s, out) = SetState STATE_SENTREJECT s
           in (s, [SignalOutgoingMessage \<lparr>msg_type = PPMSG_SESSION_REJECT, argvs = []\<rparr>] @ out, True))"

definition TerminateWithReason :: "'f PPSession \<Rightarrow> 'f PPSession \<times> 'f s_out list \<times> bool" where
  "TerminateWithReason s =
     (if state s = STATE_SENTTERMINATE \<or> state s = STATE_RECEIVEDTERMINATE then (s, [], False)
      else
        let sent = (if state s = STATE_SENTREJECT \<or> state s = STATE_RECEIVEDREJECT then []
                    else [SignalOutgoingMessage \<lparr>msg_type = PPMSG_SESSION_TERMINATE, argvs = []\<rparr>]);
            (s, out) = SetState STATE_SENTTERMINATE s
        in (s, sent @ out, True))"

definition CheckState :: "session_state \<Rightarrow> 'f PPSession \<Rightarrow> bool" where
  "CheckState expected s \<longleftrightarrow> state s = expected"

definition argv0 :: "PPMessage \<Rightarrow> string option" where
  "argv0 m = (case argvs m of [] \<Rightarrow> None | a # _ \<Rightarrow> Some a)"

definition OnInitiateMessage :: "'f env \<Rightarrow> PPMessage \<Rightarrow> 'f PPSession \<Rightarrow> ('f PPSession \<times> 'f s_out list \<times> bool) option" where
  "OnInitiateMessage e m s =
     (if \<not> CheckState STATE_INIT s then Some (s, [], False)
      else do {
        c \<leftarrow> argv0 m;
        let s = s\<lparr>content_name := c, remote_description := Some []\<rparr>;
            s = CreateTransportProxies c s;
            (s, out) = SetState STATE_RECEIVEDINITIATE s
        in if state s \<noteq> STATE_SENTREJECT then do {
             (s, out', ok) \<leftarrow> sess_OnRemoteCandidates e c [] s;
             Some (s, out @ out', ok)
           }
           else Some (s, out, True)
      })"

definition OnAcceptMessage :: "'f env \<Rightarrow> PPMessage \<Rightarrow> 'f PPSession \<Rightarrow> ('f PPSession \<times> 'f s_out list \<times> bool) option" where
  "OnAcceptMessage e m s =
     (if \<not> CheckState STATE_SENTINITIATE s then Some (s, [], False)
      else do {
        c \<leftarrow> argv0 m;
        let (s, sent) = SendAllUnsentTransportInfoMessages e s;
            s = s\<lparr>remote_description := Some []\<rparr>
        in do {
          grouped \<leftarrow> ContentsGrouped s;
          let (s, out) = SetState STATE_RECEIVEDACCEPT s in
          if state s \<noteq> STATE_SENTREJECT then do {
            (s, out', ok) \<leftarrow> sess_OnRemoteCandidates e c [] s;
            Some (s, sent @ out @ out', ok)
          }
          else Some (s, sent @ out, True)
        }
      })"

definition OnRejectMessage :: "PPMessage \<Rightarrow> 'f PPSession \<Rightarrow> 'f PPSession \<times> 'f s_out list \<times> bool" where
  "OnRejectMessage m s =
     (if \<not> CheckState STATE_SENTINITIATE s then (s, [], False)
      else let (s, out) = SetState STATE_RECEIVEDREJECT s in (s, out, True))"

definition OnInfoMessage :: "PPMessage \<Rightarrow> 'f PPSession \<Rightarrow> ('f PPSession \<times> 'f s_out list \<times> bool) option" where
  "OnInfoMessage m s = do { a \<leftarrow> argv0 m; Some (s, [SignalInfoMessage a], True) }"

definition OnTerminateMessage :: "PPMessage \<Rightarrow> 'f PPSession \<Rightarrow> ('f PPSession \<times> 'f s_out list \<times> bool) option" where
  "OnTerminateMessage m s = do {
     a \<leftarrow> argv0 m;
     let (s, out) = SetState STATE_RECEIVEDTERMINATE s in Some (s, SignalReceivedTerminateReason a # out, True)
   }"

definition OnTransportInfoMessage :: "'f env \<Rightarrow> PPMessage \<Rightarrow> 'f PPSession \<Rightarrow> ('f PPSession \<times> 'f s_out list \<times> bool) option" where
  "OnTransportInfoMessage e m s = do {
     c \<leftarrow> argv0 m;
     cs \<leftarrow> read_candidates (os_lib e) (fl_lib e) (blank_candidate e) (argvs m);
     sess_OnRemoteCandidates e c cs s
   }"

definition OnIncomingMessage :: "'f env \<Rightarrow> PPMessage \<Rightarrow> 'f PPSession \<Rightarrow> ('f PPSession \<times> 'f s_out list) option" where
  "OnIncomingMessage e m s = do {
     (s, out, valid) \<leftarrow>
       (case msg_type m of
          PPMSG_SESSION_INITIATE \<Rightarrow> OnInitiateMessage e m s
        | PPMSG_SESSION_INFO \<Rightarrow> OnInfoMessage m s
        | PPMSG_SESSION_ACCEPT \<Rightarrow> OnAcceptMessage e m s
        | PPMSG_SESSION_REJECT \<Rightarrow> Some (OnRejectMessage m s)
        | PPMSG_SESSION_TERMINATE \<Rightarrow> OnTerminateMessage m s
        | PPMSG_TRANSPORT_INFO \<Rightarrow> OnTransportInfoMessage e m s);
     Some (s, if valid then out else out @ [SignalErrorMessage m])
   }"

text \<open>Callbacks of the transport.\<close>

definition OnTransportWritable :: "'f Transport \<Rightarrow> 'f s_out list" where
  "OnTransportWritable t =
     Clear_TIMEOUT # (if HasChannels t \<and> \<not> writable t then [Post_TIMEOUT (50 * 1000)] else [])"

definition OnTransportConnecting :: "'f Transport \<Rightarrow> 'f s_out list" where
  "OnTransportConnecting t = OnTransportWritable t"

definition OnTransportRequestSignaling :: "'f s_out list" where
  "OnTransportRequestSignaling = [SignalSessionRequestSignaling]"

definition OnTransportChannelGone :: "string \<Rightarrow> 'f s_out list" where
  "OnTransportChannelGone n = [SignalChannelGone n]"

end
