(* ===== verification/PP_Session_Props.thy ===== *)
theory PP_Session_Props
  imports PP_Session Runs
begin

text \<open>
  Properties of the session over whole sequences of calls: it follows the signaling state machine,
  it loses no candidate, and it never uses a destroyed channel when the messages come in the order
  the protocol sends them.
\<close>

section \<open>Calls\<close>

text \<open>Everything that changes a session: the operations of its owner, a message of the remote
  session, a posted message, and candidates of a transport.\<close>

datatype 'f call =
    Call_CreateChannel string string
  | Call_set_allow_local_ips bool
  | Call_Initiate string
  | Call_Accept
  | Call_Reject
  | Call_Terminate
  | Call_Incoming PPMessage
  | Call_STATE
  | Call_TIMEOUT
  | Call_CandidatesReady string "'f Candidate list"

definition result :: "'f PPSession \<times> 'f s_out list \<times> bool \<Rightarrow> ('f PPSession \<times> 'f s_out list) option" where
  "result r = (case r of (s, out, ok) \<Rightarrow> Some (s, out))"

fun session_step :: "'f env \<Rightarrow> 'f call \<Rightarrow> 'f PPSession \<Rightarrow> ('f PPSession \<times> 'f s_out list) option" where
  "session_step e (Call_CreateChannel c n) s = CreateChannel c n s"
| "session_step e (Call_set_allow_local_ips b) s = Some (set_allow_local_ips b s, [])"
| "session_step e (Call_Initiate c) s = result (Initiate c s)"
| "session_step e Call_Accept s = result (Accept e s)"
| "session_step e Call_Reject s = result (Reject s)"
| "session_step e Call_Terminate s = result (TerminateWithReason s)"
| "session_step e (Call_Incoming m) s = OnIncomingMessage e m s"
| "session_step e Call_STATE s = Some (session_OnMessage_STATE s)"
| "session_step e Call_TIMEOUT s = Some (session_OnMessage_TIMEOUT s)"
| "session_step e (Call_CandidatesReady c cs) s = Some (OnTransportCandidatesReady e c cs s)"

section \<open>The signaling state machine\<close>

text \<open>The abstract machine knows the state and the content name only.\<close>

type_synonym signaling = "session_state \<times> string"

definition enter :: "session_state \<Rightarrow> signaling \<Rightarrow> signaling \<times> 'f s_out list" where
  "enter st a = ((st, snd a), [SignalStateChanged st, Post_STATE])"

definition say :: "pp_type \<Rightarrow> string list \<Rightarrow> 'f s_out" where
  "say ty args = SignalOutgoingMessage \<lparr>msg_type = ty, argvs = args\<rparr>"

fun hear :: "pp_type \<Rightarrow> string list \<Rightarrow> signaling \<Rightarrow> signaling \<times> 'f s_out list" where
  "hear PPMSG_SESSION_INITIATE args (st, c) =
     (if st = STATE_INIT then enter STATE_RECEIVEDINITIATE (st, hd args) else ((st, c), []))"
| "hear PPMSG_SESSION_ACCEPT args (st, c) =
     (if st = STATE_SENTINITIATE then enter STATE_RECEIVEDACCEPT (st, c) else ((st, c), []))"
| "hear PPMSG_SESSION_REJECT args (st, c) =
     (if st = STATE_SENTINITIATE then enter STATE_RECEIVEDREJECT (st, c) else ((st, c), []))"
| "hear PPMSG_SESSION_TERMINATE args (st, c) =
     (if st \<noteq> STATE_RECEIVEDTERMINATE then enter STATE_RECEIVEDTERMINATE (st, c) else ((st, c), []))"
| "hear _ args a = (a, [])"

fun signaling_step :: "'f call \<Rightarrow> signaling \<Rightarrow> signaling \<times> 'f s_out list" where
  "signaling_step (Call_Initiate d) (st, c) =
     (if st = STATE_INIT
      then ((STATE_SENTINITIATE, d), [say PPMSG_SESSION_INITIATE [d], SignalStateChanged STATE_SENTINITIATE, Post_STATE])
      else ((st, c), []))"
| "signaling_step Call_Accept (st, c) =
     (if st = STATE_RECEIVEDINITIATE
      then ((STATE_SENTACCEPT, c), [say PPMSG_SESSION_ACCEPT [c], SignalStateChanged STATE_SENTACCEPT, Post_STATE])
      else ((st, c), []))"
| "signaling_step Call_Reject (st, c) =
     (if st = STATE_RECEIVEDINITIATE \<or> st = STATE_RECEIVEDMODIFY
      then ((STATE_SENTREJECT, c), [say PPMSG_SESSION_REJECT [], SignalStateChanged STATE_SENTREJECT, Post_STATE])
      else ((st, c), []))"
| "signaling_step Call_Terminate (st, c) =
     (if st \<in> {STATE_SENTTERMINATE, STATE_RECEIVEDTERMINATE} then ((st, c), [])
      else ((STATE_SENTTERMINATE, c),
            (if st \<in> {STATE_SENTREJECT, STATE_RECEIVEDREJECT} then [] else [say PPMSG_SESSION_TERMINATE []]) @
            [SignalStateChanged STATE_SENTTERMINATE, Post_STATE]))"
| "signaling_step (Call_Incoming m) a = hear (msg_type m) (argvs m) a"
| "signaling_step Call_STATE (st, c) =
     (if st \<in> {STATE_SENTACCEPT, STATE_RECEIVEDACCEPT} then enter STATE_INPROGRESS (st, c) else ((st, c), []))"
| "signaling_step _ a = (a, [])"

text \<open>What the abstract machine shows: the changes of state, the message posted at each, and the
  messages other than candidates.\<close>

fun is_signaling :: "'f s_out \<Rightarrow> bool" where
  "is_signaling (SignalOutgoingMessage m) = (msg_type m \<noteq> PPMSG_TRANSPORT_INFO)"
| "is_signaling (SignalStateChanged st) = True"
| "is_signaling Post_STATE = True"
| "is_signaling _ = False"

definition signaling_of :: "'f PPSession \<Rightarrow> signaling" where
  "signaling_of s = (state s, content_name s)"

lemma set_proxy_simps [simp]:
  "state (set_proxy c tp s) = state s" "content_name (set_proxy c tp s) = content_name s"
  "pending_candidates (set_proxy c tp s) = pending_candidates s" "sess_sid (set_proxy c tp s) = sess_sid s"
  "local_description (set_proxy c tp s) = local_description s"
  "transports (set_proxy c tp s) = map_put c tp (transports s)"
  by (simp_all add: set_proxy_def)

lemma GetOrCreate_simps [simp]:
  "state (GetOrCreateTransportProxy c s) = state s" "content_name (GetOrCreateTransportProxy c s) = content_name s"
  "pending_candidates (GetOrCreateTransportProxy c s) = pending_candidates s"
  "sess_sid (GetOrCreateTransportProxy c s) = sess_sid s"
  "local_description (GetOrCreateTransportProxy c s) = local_description s"
  by (simp_all add: GetOrCreateTransportProxy_def split: option.split)

lemma CreateTransportProxies_simps [simp]:
  "state (CreateTransportProxies c s) = state s" "content_name (CreateTransportProxies c s) = content_name s"
  "pending_candidates (CreateTransportProxies c s)" "sess_sid (CreateTransportProxies c s) = sess_sid s"
  "local_description (CreateTransportProxies c s) = local_description s"
  by (simp_all add: CreateTransportProxies_def)

lemma filter_transport [simp]: "filter is_signaling (map (On_Transport c) out) = []"
  by (induction out) simp_all

lemma connect_all_quiet: "connect_all sid m = (m', out) \<Longrightarrow> filter is_signaling out = []"
  by (induction m arbitrary: m' out) (auto split: prod.split_asm)

lemma send_unsent_quiet: "send_unsent e m = (m', out) \<Longrightarrow> filter is_signaling out = []"
  by (induction m arbitrary: m' out)
    (auto simp: SendTransportInfoMessage_def split: prod.split_asm if_split_asm)

lemma SendAll_quiet:
  "SendAllUnsentTransportInfoMessages e s = (s', out) \<Longrightarrow>
    signaling_of s' = signaling_of s \<and> filter is_signaling out = [] \<and> local_description s' = local_description s"
  using send_unsent_quiet [of e "transports s"]
  by (auto simp: SendAllUnsentTransportInfoMessages_def signaling_of_def split: prod.split_asm)

lemma remote_candidates_quiet:
  "sess_OnRemoteCandidates e c cs s = Some (s', out, ok) \<Longrightarrow>
    signaling_of s' = signaling_of s \<and> filter is_signaling out = []"
  by (auto simp: sess_OnRemoteCandidates_def signaling_of_def bind_eq_Some_iff Let_def
      split: option.split_asm if_split_asm)

lemma SpeculativelyConnect_quiet:
  "SpeculativelyConnectAllTransportChannels s = (s', out) \<Longrightarrow>
    signaling_of s' = signaling_of s \<and> filter is_signaling out = []"
  by (auto simp: SpeculativelyConnectAllTransportChannels_def signaling_of_def connect_all_quiet split: prod.split_asm)

lemmas quiet_facts = SendAll_quiet remote_candidates_quiet SpeculativelyConnect_quiet

lemma incoming_refines:
  assumes "OnIncomingMessage e m s = Some (s', out)"
  shows "hear (msg_type m) (argvs m) (signaling_of s) = (signaling_of s', filter is_signaling out)"
proof (cases "msg_type m")
  case PPMSG_SESSION_INITIATE
  then show ?thesis using assms
    by (auto simp: OnIncomingMessage_def OnInitiateMessage_def CheckState_def argv0_def SetState_def Let_def
        bind_eq_Some_iff signaling_of_def enter_def split: list.split_asm if_split_asm
        dest!: remote_candidates_quiet)
next
  case PPMSG_SESSION_ACCEPT
  then show ?thesis using assms
    by (auto simp: OnIncomingMessage_def OnAcceptMessage_def CheckState_def argv0_def SetState_def Let_def
        bind_eq_Some_iff signaling_of_def enter_def split: list.split_asm if_split_asm prod.split_asm
        dest!: quiet_facts)
qed (use assms in \<open>auto simp: OnIncomingMessage_def OnRejectMessage_def OnInfoMessage_def
      OnTerminateMessage_def OnTransportInfoMessage_def CheckState_def argv0_def SetState_def
      bind_eq_Some_iff signaling_of_def enter_def split: list.split_asm if_split_asm
      dest!: remote_candidates_quiet\<close>)

lemma session_step_refines:
  "session_step e c s = Some (s', out) \<Longrightarrow>
    signaling_step c (signaling_of s) = (signaling_of s', filter is_signaling out)"
proof (cases c)
  case (Call_Incoming m)
  then show "session_step e c s = Some (s', out) \<Longrightarrow> ?thesis" using incoming_refines [of e m s s' out] by simp
qed (auto simp: result_def CreateChannel_def set_allow_local_ips_def Initiate_def Accept_def Reject_def
      TerminateWithReason_def session_OnMessage_STATE_def session_OnMessage_TIMEOUT_def SetError_def
      OnTransportCandidatesReady_def SendTransportInfoMessage_def SetState_def say_def enter_def Let_def
      bind_eq_Some_iff signaling_of_def split: if_split_asm prod.split_asm option.split_asm
      dest!: quiet_facts)

interpretation signaling: simulation "session_step e" signaling_step signaling_of is_signaling for e
  by unfold_locales (rule session_step_refines)

text \<open>The trace the abstract machine has shown when it is in a given state.\<close>

fun trace_ok :: "session_state \<Rightarrow> string \<Rightarrow> 'f s_out list \<Rightarrow> bool" where
  "trace_ok STATE_INIT c t = (t = [])"
| "trace_ok STATE_SENTINITIATE c t = (t = [say PPMSG_SESSION_INITIATE [c], SignalStateChanged STATE_SENTINITIATE, Post_STATE])"
| "trace_ok STATE_RECEIVEDINITIATE c t = (t = [SignalStateChanged STATE_RECEIVEDINITIATE, Post_STATE])"
| "trace_ok STATE_RECEIVEDACCEPT c t =
     (t = [say PPMSG_SESSION_INITIATE [c], SignalStateChanged STATE_SENTINITIATE, Post_STATE, SignalStateChanged STATE_RECEIVEDACCEPT, Post_STATE])"
| "trace_ok STATE_SENTACCEPT c t =
     (t = [SignalStateChanged STATE_RECEIVEDINITIATE, Post_STATE, say PPMSG_SESSION_ACCEPT [c], SignalStateChanged STATE_SENTACCEPT, Post_STATE])"
| "trace_ok STATE_INPROGRESS c t =
     (t = [say PPMSG_SESSION_INITIATE [c], SignalStateChanged STATE_SENTINITIATE, Post_STATE,
           SignalStateChanged STATE_RECEIVEDACCEPT, Post_STATE, SignalStateChanged STATE_INPROGRESS, Post_STATE] \<or>
      t = [SignalStateChanged STATE_RECEIVEDINITIATE, Post_STATE, say PPMSG_SESSION_ACCEPT [c],
           SignalStateChanged STATE_SENTACCEPT, Post_STATE, SignalStateChanged STATE_INPROGRESS, Post_STATE])"
| "trace_ok _ c t = True"

lemma trace_ok_step:
  assumes "trace_ok st c t" and "signaling_step x (st, c) = ((st', c'), t')"
  shows "trace_ok st' c' (t @ t')"
proof (cases x)
  case (Call_Incoming m)
  then show ?thesis using assms
    by (cases "msg_type m") (auto simp: enter_def split: if_split_asm)
qed (use assms in \<open>auto simp: enter_def split: if_split_asm\<close>)

lemma spec_trace:
  "spec_run signaling_step calls (STATE_INIT, c0) = ((st, c), t) \<Longrightarrow> trace_ok st c t"
proof (induction calls arbitrary: st c t rule: rev_induct)
  case (snoc x calls)
  obtain st1 c1 t1 t2 where "spec_run signaling_step calls (STATE_INIT, c0) = ((st1, c1), t1)"
    and "signaling_step x (st1, c1) = ((st, c), t2)" and "t = t1 @ t2"
    using snoc.prems by (auto simp: spec_run_append Let_def split: prod.split_asm)
  then show ?case using snoc.IH trace_ok_step by blast
qed simp

section \<open>Candidates\<close>

definition unsent_of :: "'f PPSession \<Rightarrow> string \<Rightarrow> 'f Candidate list" where
  "unsent_of s c = (case GetTransportProxy s c of None \<Rightarrow> [] | Some tp \<Rightarrow> unsent_candidates tp)"

definition texts :: "'f env \<Rightarrow> 'f Candidate list \<Rightarrow> string list" where
  "texts e cs = concat (map (candidate_fields (os_lib e) (fl_lib e)) cs)"

fun ready_of :: "string \<Rightarrow> 'f call list \<Rightarrow> 'f Candidate list" where
  "ready_of c [] = []"
| "ready_of c (Call_CandidatesReady d cs # calls) = (if d = c then cs else []) @ ready_of c calls"
| "ready_of c (_ # calls) = ready_of c calls"

fun sent_texts :: "string \<Rightarrow> 'f s_out list \<Rightarrow> string list" where
  "sent_texts c [] = []"
| "sent_texts c (SignalOutgoingMessage m # out) =
     (if msg_type m = PPMSG_TRANSPORT_INFO \<and> argv0 m = Some c then tl (argvs m) else []) @ sent_texts c out"
| "sent_texts c (_ # out) = sent_texts c out"

text \<open>A change of the session that leaves the unsent candidates alone.\<close>

definition keeps :: "'f PPSession \<Rightarrow> 'f PPSession \<Rightarrow> bool" where
  "keeps s s' \<longleftrightarrow> map_wf (transports s) \<longrightarrow>
     map_wf (transports s') \<and> dom (map_of (transports s)) \<subseteq> dom (map_of (transports s')) \<and>
     (\<forall>d. unsent_of s' d = unsent_of s d)"

lemma texts_append [simp]: "texts e (a @ b) = texts e a @ texts e b" "texts e [] = []"
  by (simp_all add: texts_def)

lemma ready_append [simp]: "ready_of c (a @ b) = ready_of c a @ ready_of c b"
  by (induction c a rule: ready_of.induct) simp_all

lemma sent_append [simp]: "sent_texts c (a @ b) = sent_texts c a @ sent_texts c b"
  by (induction c a rule: sent_texts.induct) simp_all

lemma sent_transport [simp]: "sent_texts c (map (On_Transport d) out) = []"
  by (induction out) simp_all

lemma sent_info [simp]: "sent_texts c (SendTransportInfoMessage e d cs) = (if d = c then texts e cs else [])"
  by (simp add: SendTransportInfoMessage_def texts_def transport_info_argvs_def argv0_def)

lemma keeps_refl [simp]: "keeps s s"
  by (simp add: keeps_def)

lemma keeps_trans: "keeps s t \<Longrightarrow> keeps t u \<Longrightarrow> keeps s u"
  unfolding keeps_def by (metis (no_types, lifting) subset_trans)

lemma keeps_eq: "transports t = transports s \<Longrightarrow> keeps s t"
  by (simp add: keeps_def unsent_of_def GetTransportProxy_def)

lemma keeps_set_proxy:
  "unsent_candidates tp = unsent_of s c \<Longrightarrow> keeps s (set_proxy c tp s)"
  by (auto simp: keeps_def unsent_of_def GetTransportProxy_def std_map.wf_put std_map.map_of_put)

lemma keeps_GetOrCreate: "keeps s (GetOrCreateTransportProxy c s)"
  by (auto simp: GetOrCreateTransportProxy_def new_TransportProxy_def unsent_of_def
      intro!: keeps_set_proxy split: option.split)

lemma SetProxyImpl_unsent: "SetProxyImpl sid n tp = Some (tp', out) \<Longrightarrow> unsent_candidates tp' = unsent_candidates tp"
  by (auto simp: SetProxyImpl_def bind_eq_Some_iff Let_def split: prod.split_asm)

lemma set_proxy_impls_unsent:
  "set_proxy_impls sid ns tp = Some (tp', out) \<Longrightarrow> unsent_candidates tp' = unsent_candidates tp"
  by (induction ns arbitrary: tp tp' out) (auto simp: bind_eq_Some_iff dest: SetProxyImpl_unsent)

lemma CompleteNegotiation_unsent:
  "CompleteNegotiation sid tp = Some (tp', out) \<Longrightarrow> unsent_candidates tp' = unsent_candidates tp"
  by (auto simp: CompleteNegotiation_def bind_eq_Some_iff split_beta split: if_split_asm
      dest!: set_proxy_impls_unsent)

lemma tp_CreateChannel_unsent:
  "tp_CreateChannel sid n tp = Some (tp', out) \<Longrightarrow> unsent_candidates tp' = unsent_candidates tp"
  by (auto simp: tp_CreateChannel_def Let_def split: if_split_asm prod.split_asm dest!: SetProxyImpl_unsent)

lemma CreateChannel_keeps: "CreateChannel c n s = Some (s', out) \<Longrightarrow> keeps s s'"
proof -
  assume "CreateChannel c n s = Some (s', out)"
  then obtain tp tp' o' where "GetTransportProxy (GetOrCreateTransportProxy c s) c = Some tp"
    and "tp_CreateChannel (sess_sid s) n tp = Some (tp', o')"
    and s': "s' = set_proxy c tp' (GetOrCreateTransportProxy c s)"
    by (auto simp: CreateChannel_def Let_def bind_eq_Some_iff)
  then have "unsent_candidates tp' = unsent_of (GetOrCreateTransportProxy c s) c"
    by (auto simp: unsent_of_def dest: tp_CreateChannel_unsent)
  then show ?thesis using s' keeps_GetOrCreate keeps_set_proxy keeps_trans by blast
qed

lemma remote_keeps: "sess_OnRemoteCandidates e c cs s = Some (s', out, ok) \<Longrightarrow>
    keeps s s' \<and> pending_candidates s' = pending_candidates s \<and> sent_texts d out = []"
  by (auto simp: sess_OnRemoteCandidates_def bind_eq_Some_iff Let_def unsent_of_def
      split: option.split_asm if_split_asm intro!: keeps_set_proxy dest: CompleteNegotiation_unsent)

lemma connect_all_map:
  "map fst (fst (connect_all sid m)) = map fst m"
  "map_of (fst (connect_all sid m)) d = map_option (\<lambda>tp. fst (SpeculativelyConnectChannels sid tp)) (map_of m d)"
  "sent_texts c (snd (connect_all sid m)) = []"
  by (induction m) (auto split: prod.split)

lemma connect_keeps:
  "SpeculativelyConnectAllTransportChannels s = (s', out) \<Longrightarrow>
    keeps s s' \<and> pending_candidates s' = pending_candidates s \<and> sent_texts d out = []"
proof -
  assume "SpeculativelyConnectAllTransportChannels s = (s', out)"
  then have t: "transports s' = fst (connect_all (sess_sid s) (transports s))"
    and "out = snd (connect_all (sess_sid s) (transports s))" and "pending_candidates s' = pending_candidates s"
    by (auto simp: SpeculativelyConnectAllTransportChannels_def split: prod.split_asm)
  moreover have "keeps s s'"
    by (auto simp: keeps_def t map_wf_def connect_all_map unsent_of_def GetTransportProxy_def
        SpeculativelyConnectChannels_def Let_def split: option.split prod.split)
  ultimately show ?thesis by (simp add: connect_all_map)
qed

lemma send_unsent_map:
  "map fst (fst (send_unsent e m)) = map fst m"
  "map_of (fst (send_unsent e m)) d = map_option ClearUnsentCandidates (map_of m d)"
  by (induction m) (auto simp: ClearUnsentCandidates_def split: prod.split)

lemma send_unsent_texts:
  "map_wf m \<Longrightarrow> sent_texts c (snd (send_unsent e m)) =
    (case map_of m c of None \<Rightarrow> [] | Some tp \<Rightarrow> texts e (unsent_candidates tp))"
proof (induction m)
  case (Cons x m)
  have "map_of m (fst x) = None"
    using std_map.wf_distinct [OF Cons.prems] by (simp add: map_of_eq_None_iff)
  moreover have "map_wf m" using Cons.prems by (simp add: map_wf_def)
  ultimately show ?case using Cons.IH by (cases x) (auto split: prod.split option.split)
qed simp

lemma SendAll_effect:
  assumes "SendAllUnsentTransportInfoMessages e s = (s', out)" and "map_wf (transports s)"
  shows "map_wf (transports s')" "dom (map_of (transports s')) = dom (map_of (transports s))"
    "unsent_of s' d = []" "\<not> pending_candidates s'" "sent_texts d out = texts e (unsent_of s d)"
proof -
  have t: "transports s' = fst (send_unsent e (transports s))" "out = snd (send_unsent e (transports s))"
    "\<not> pending_candidates s'"
    using assms(1) by (auto simp: SendAllUnsentTransportInfoMessages_def split: prod.split_asm)
  then show "map_wf (transports s')" "\<not> pending_candidates s'" using assms(2)
    by (simp_all add: map_wf_def send_unsent_map)
  show "dom (map_of (transports s')) = dom (map_of (transports s))" "unsent_of s' d = []"
    by (auto simp: t send_unsent_map dom_def unsent_of_def GetTransportProxy_def ClearUnsentCandidates_def
        split: option.split)
  show "sent_texts d out = texts e (unsent_of s d)" using assms(2)
    by (simp add: t send_unsent_texts unsent_of_def GetTransportProxy_def split: option.split)
qed

text \<open>The invariant: for a content with a proxy, the texts sent and the candidates unsent are those
  reported; nothing is held back once the session is accepted.\<close>

definition conserved :: "'f env \<Rightarrow> string \<Rightarrow> 'f call list \<Rightarrow> 'f s_out list \<Rightarrow> 'f PPSession \<Rightarrow> bool" where
  "conserved e c cs out s \<longleftrightarrow>
     map_wf (transports s) \<and> c \<in> dom (map_of (transports s)) \<and>
     sent_texts c out @ texts e (unsent_of s c) = texts e (ready_of c cs) \<and>
     (\<not> pending_candidates s \<longrightarrow> unsent_of s c = []) \<and>
     (state s \<in> {STATE_SENTACCEPT, STATE_RECEIVEDACCEPT, STATE_INPROGRESS} \<longrightarrow> \<not> pending_candidates s)"

lemma conserved_keeps:
  assumes "conserved e c cs out s" and "keeps s s'" and "sent_texts c new = []" and "ready_of c [x] = []"
    and "pending_candidates s' = pending_candidates s \<or> pending_candidates s'"
    and "state s' \<in> {STATE_SENTACCEPT, STATE_RECEIVEDACCEPT, STATE_INPROGRESS} \<Longrightarrow> \<not> pending_candidates s'"
  shows "conserved e c (cs @ [x]) (out @ new) s'"
  using assms unfolding conserved_def keeps_def by auto

lemma conserved_sends:
  assumes "conserved e c cs out s" and "SendAllUnsentTransportInfoMessages e s1 = (s2, new1)"
    and "keeps s s1" and "keeps s2 s'" and "sent_texts c new = sent_texts c new1" and "ready_of c [x] = []"
    and "pending_candidates s' = pending_candidates s2"
  shows "conserved e c (cs @ [x]) (out @ new) s'"
proof -
  have w: "map_wf (transports s1)" "unsent_of s1 c = unsent_of s c" "c \<in> dom (map_of (transports s1))"
    using assms(1,3) by (auto simp: conserved_def keeps_def)
  note eff = SendAll_effect [OF assms(2) w(1)]
  show ?thesis using assms eff(1,2,4) eff(3,5) [of c] w unfolding conserved_def keeps_def by auto
qed

lemma SetState_transports: "SetState st s = (s', out) \<Longrightarrow>
    transports s' = transports s \<and> pending_candidates s' = pending_candidates s \<and> state s' = st \<and> sent_texts c out = []"
  by (auto simp: SetState_def split: if_split_asm)

lemma CreateTransportProxies_keeps: "keeps s (CreateTransportProxies c s)"
  unfolding CreateTransportProxies_def by (rule keeps_trans [OF keeps_eq keeps_GetOrCreate]) simp

lemma conserved_same:
  assumes "conserved e c cs out s" and "transports s' = transports s" and "pending_candidates s' = pending_candidates s"
    and "sent_texts c new = []" and "ready_of c [x] = []"
    and "state s' \<in> {STATE_SENTACCEPT, STATE_RECEIVEDACCEPT, STATE_INPROGRESS} \<Longrightarrow>
      state s \<in> {STATE_SENTACCEPT, STATE_RECEIVEDACCEPT, STATE_INPROGRESS}"
  shows "conserved e c (cs @ [x]) (out @ new) s'"
  using conserved_keeps [OF assms(1) keeps_eq [OF assms(2)] assms(4,5)] assms(1,3,6)
  by (auto simp: conserved_def)

lemma conserved_idle: "conserved e c cs out s \<Longrightarrow> ready_of c [x] = [] \<Longrightarrow> conserved e c (cs @ [x]) out s"
  by (simp add: conserved_def)

lemma conserved_error: "conserved e c cs (out @ new) s \<Longrightarrow> conserved e c cs (out @ new @ [SignalErrorMessage m]) s"
  by (simp add: conserved_def)

lemma conserved_Initiate:
  assumes "conserved e c cs out s" and "Initiate d s = (s', new, ok)"
  shows "conserved e c (cs @ [Call_Initiate d]) (out @ new) s'"
proof (cases "state s = STATE_INIT")
  case False
  then show ?thesis using assms by (auto simp: Initiate_def intro!: conserved_idle)
next
  case True
  define s1 where "s1 = CreateTransportProxies d (s\<lparr>content_name := d, local_description := Some []\<rparr>)"
  obtain s2 o1 where 2: "SetState STATE_SENTINITIATE s1 = (s2, o1)" by fastforce
  obtain o2 where 3: "SpeculativelyConnectAllTransportChannels s2 = (s', o2)"
    and new: "new = SignalOutgoingMessage \<lparr>msg_type = PPMSG_SESSION_INITIATE, argvs = [d]\<rparr> # o1 @ o2"
    using assms(2) True 2 by (auto simp: Initiate_def Let_def s1_def split: prod.split_asm)
  have "keeps s s1" unfolding s1_def by (rule keeps_trans [OF keeps_eq CreateTransportProxies_keeps]) simp
  moreover have "keeps s1 s2" using SetState_transports [OF 2] by (simp add: keeps_eq)
  moreover note connect_keeps [OF 3, of c]
  moreover have "state s' = STATE_SENTINITIATE"
    using SetState_transports [OF 2] SpeculativelyConnect_quiet [OF 3] by (simp add: signaling_of_def)
  ultimately show ?thesis using SetState_transports [OF 2, of c]
    by (intro conserved_keeps [OF assms(1)]) (auto simp: new s1_def intro: keeps_trans)
qed

lemma conserved_Accept:
  assumes "conserved e c cs out s" and "Accept e s = (s', new, ok)"
  shows "conserved e c (cs @ [Call_Accept]) (out @ new) s'"
proof (cases "state s = STATE_RECEIVEDINITIATE")
  case False
  then show ?thesis using assms by (auto simp: Accept_def intro!: conserved_idle)
next
  case True
  define s1 where "s1 = s\<lparr>local_description := Some []\<rparr>"
  obtain s2 o1 where 2: "SetState STATE_SENTACCEPT s1 = (s2, o1)" by fastforce
  obtain o2 where 3: "SendAllUnsentTransportInfoMessages e s2 = (s', o2)"
    and new: "new = SignalOutgoingMessage \<lparr>msg_type = PPMSG_SESSION_ACCEPT, argvs = [content_name s1]\<rparr> # o1 @ o2"
    using assms(2) True 2 by (auto simp: Accept_def Let_def s1_def split: prod.split_asm)
  have "keeps s s2" using SetState_transports [OF 2] by (intro keeps_eq) (simp add: s1_def)
  then show ?thesis using SetState_transports [OF 2, of c]
    by (intro conserved_sends [OF assms(1) 3]) (auto simp: new)
qed

lemma conserved_InitiateMessage:
  assumes "conserved e c cs out s" and "OnInitiateMessage e m s = Some (s', new, ok)"
  shows "conserved e c (cs @ [Call_Incoming m]) (out @ new) s'"
proof (cases "state s = STATE_INIT")
  case False
  then show ?thesis using assms by (auto simp: OnInitiateMessage_def CheckState_def intro!: conserved_idle)
next
  case True
  obtain d where d: "argv0 m = Some d" using assms(2) True by (auto simp: OnInitiateMessage_def CheckState_def bind_eq_Some_iff)
  define s1 where "s1 = CreateTransportProxies d (s\<lparr>content_name := d, remote_description := Some []\<rparr>)"
  obtain s2 o1 where 2: "SetState STATE_RECEIVEDINITIATE s1 = (s2, o1)" by fastforce
  obtain o2 where 3: "sess_OnRemoteCandidates e d [] s2 = Some (s', o2, ok)" and new: "new = o1 @ o2"
    using assms(2) True 2 d SetState_transports [OF 2]
    by (auto simp: OnInitiateMessage_def CheckState_def Let_def s1_def bind_eq_Some_iff split: prod.split_asm)
  have "keeps s s1" unfolding s1_def by (rule keeps_trans [OF keeps_eq CreateTransportProxies_keeps]) simp
  moreover have "keeps s1 s2" using SetState_transports [OF 2] by (simp add: keeps_eq)
  moreover note remote_keeps [OF 3, of c]
  moreover have "state s' = STATE_RECEIVEDINITIATE"
    using SetState_transports [OF 2] remote_candidates_quiet [OF 3] by (simp add: signaling_of_def)
  ultimately show ?thesis using SetState_transports [OF 2, of c]
    by (intro conserved_keeps [OF assms(1)]) (auto simp: new s1_def intro: keeps_trans)
qed

lemma conserved_AcceptMessage:
  assumes "conserved e c cs out s" and "OnAcceptMessage e m s = Some (s', new, ok)"
  shows "conserved e c (cs @ [Call_Incoming m]) (out @ new) s'"
proof (cases "state s = STATE_SENTINITIATE")
  case False
  then show ?thesis using assms by (auto simp: OnAcceptMessage_def CheckState_def intro!: conserved_idle)
next
  case True
  obtain s1 o1 where 1: "SendAllUnsentTransportInfoMessages e s = (s1, o1)" by fastforce
  obtain s2 o2 where 2: "SetState STATE_RECEIVEDACCEPT (s1\<lparr>remote_description := Some []\<rparr>) = (s2, o2)" by fastforce
  obtain d o3 where 3: "sess_OnRemoteCandidates e d [] s2 = Some (s', o3, ok)" and new: "new = o1 @ o2 @ o3"
    using assms(2) True 1 2 SetState_transports [OF 2]
    by (auto simp: OnAcceptMessage_def CheckState_def Let_def bind_eq_Some_iff split: prod.split_asm)
  have "keeps s1 s2" using SetState_transports [OF 2] by (simp add: keeps_eq)
  then show ?thesis using SetState_transports [OF 2, of c] remote_keeps [OF 3, of c]
    by (intro conserved_sends [OF assms(1) 1]) (auto simp: new intro: keeps_trans)
qed

lemma conserved_Incoming:
  assumes c: "conserved e c cs out s" and "OnIncomingMessage e m s = Some (s', new)"
  shows "conserved e c (cs @ [Call_Incoming m]) (out @ new) s'"
proof -
  obtain new1 ok where r: "(case msg_type m of
          PPMSG_SESSION_INITIATE \<Rightarrow> OnInitiateMessage e m s
        | PPMSG_SESSION_INFO \<Rightarrow> OnInfoMessage m s
        | PPMSG_SESSION_ACCEPT \<Rightarrow> OnAcceptMessage e m s
        | PPMSG_SESSION_REJECT \<Rightarrow> Some (OnRejectMessage m s)
        | PPMSG_SESSION_TERMINATE \<Rightarrow> OnTerminateMessage m s
        | PPMSG_TRANSPORT_INFO \<Rightarrow> OnTransportInfoMessage e m s) = Some (s', new1, ok)"
    and new: "new = (if ok then new1 else new1 @ [SignalErrorMessage m])"
    using assms(2) by (auto simp: OnIncomingMessage_def bind_eq_Some_iff)
  have "conserved e c (cs @ [Call_Incoming m]) (out @ new1) s'"
  proof (cases "msg_type m")
    case PPMSG_SESSION_INITIATE
    then show ?thesis using r conserved_InitiateMessage [OF c] by auto
  next
    case PPMSG_SESSION_ACCEPT
    then show ?thesis using r conserved_AcceptMessage [OF c] by auto
  next
    case PPMSG_TRANSPORT_INFO
    then show ?thesis using r remote_keeps [of e _ _ s s' new1 ok c] remote_candidates_quiet [of e _ _ s s' new1 ok] c
      by (intro conserved_keeps [OF c])
        (auto simp: OnTransportInfoMessage_def bind_eq_Some_iff signaling_of_def conserved_def)
  qed (use r c in \<open>auto simp: OnRejectMessage_def OnInfoMessage_def OnTerminateMessage_def SetState_def
        bind_eq_Some_iff Let_def CheckState_def split: if_split_asm intro: conserved_idle conserved_same\<close>)
  then show ?thesis by (simp add: new conserved_error)
qed

lemma conserved_CandidatesReady:
  assumes "conserved e c cs out s" and "OnTransportCandidatesReady e d ds s = (s', new)"
  shows "conserved e c (cs @ [Call_CandidatesReady d ds]) (out @ new) s'"
proof -
  obtain tp where "d = c \<Longrightarrow> GetTransportProxy s d = Some tp" and "map_wf (transports s)"
    using assms(1) by (auto simp: conserved_def GetTransportProxy_def)
  then show ?thesis using assms
    by (auto simp: OnTransportCandidatesReady_def conserved_def GetTransportProxy_def unsent_of_def
        AddUnsentCandidates_def std_map.wf_put std_map.map_of_put split: option.split_asm if_split_asm)
qed

lemma set_allow_simps [simp]:
  "state (set_allow_local_ips b s) = state s" "pending_candidates (set_allow_local_ips b s) = pending_candidates s"
  by (simp_all add: set_allow_local_ips_def)

lemma set_allow_keeps: "keeps s (set_allow_local_ips b s)"
proof -
  let ?f = "\<lambda>tp. tp\<lparr>impl := (impl tp)\<lparr>allow_local_ips := b\<rparr>\<rparr>"
  have m: "map_of (map (\<lambda>(c, tp). (c, ?f tp)) m) d = map_option ?f (map_of m d)" for m :: "(string \<times> 'f TransportProxy) list" and d
    by (induction m) auto
  have k: "map (fst \<circ> (\<lambda>(c, tp). (c, ?f tp))) m = map fst m" for m :: "(string \<times> 'f TransportProxy) list"
    by (induction m) auto
  show ?thesis
    by (auto simp: keeps_def set_allow_local_ips_def map_wf_def unsent_of_def GetTransportProxy_def m k split: option.split)
qed

lemma conserved_step:
  assumes c: "conserved e c cs out s" and "session_step e x s = Some (s', new)"
  shows "conserved e c (cs @ [x]) (out @ new) s'"
proof (cases x)
  case (Call_CreateChannel d n)
  have k: "keeps s s'" using assms(2) Call_CreateChannel by (auto intro: CreateChannel_keeps)
  show ?thesis using assms(2) Call_CreateChannel c
    by (intro conserved_keeps [OF c k]) (auto simp: CreateChannel_def Let_def bind_eq_Some_iff conserved_def)
next
  case (Call_set_allow_local_ips b)
  then show ?thesis using assms(2) c
    by (intro conserved_keeps [OF c]) (auto simp: set_allow_keeps conserved_def)
next
  case (Call_Initiate d)
  then show ?thesis using assms(2) conserved_Initiate [OF c] by (auto simp: result_def split: prod.split_asm)
next
  case Call_Accept
  then show ?thesis using assms(2) conserved_Accept [OF c] by (auto simp: result_def split: prod.split_asm)
next
  case (Call_Incoming m)
  then show ?thesis using assms(2) conserved_Incoming [OF c] by simp
next
  case (Call_CandidatesReady d ds)
  then show ?thesis using assms(2) conserved_CandidatesReady [OF c] by simp
qed (use assms in \<open>auto simp: result_def Reject_def TerminateWithReason_def session_OnMessage_STATE_def
      session_OnMessage_TIMEOUT_def SetError_def SetState_def Let_def split: if_split_asm
      intro: conserved_same conserved_idle\<close>)

interpretation conserved: history_invariant "session_step e" "conserved e c" for e c
  by unfold_locales (rule conserved_step)

section \<open>Faults\<close>

text \<open>
  A channel proxy has an implementation only when its transport is negotiated, and no transport is
  connected or negotiated before the session has left \<open>STATE_INIT\<close>.
\<close>

definition tp_sound :: "'f TransportProxy \<Rightarrow> bool" where
  "tp_sound tp \<longleftrightarrow> map_wf (proxies tp) \<and> transport_wf (impl tp) \<and>
     (tp_state tp \<noteq> TP_NEGOTIATED \<longrightarrow> True \<notin> snd ` set (proxies tp))"

definition sound :: "'f PPSession \<Rightarrow> bool" where
  "sound s \<longleftrightarrow> map_wf (transports s) \<and>
     (\<forall>c tp. GetTransportProxy s c = Some tp \<longrightarrow> tp_sound tp \<and> (state s = STATE_INIT \<longrightarrow> tp_state tp = TP_INIT)) \<and>
     (state s = STATE_SENTINITIATE \<longrightarrow> local_description s \<noteq> None)"

text \<open>The order of the protocol: every message has its arguments, and candidates for a content of
  the session do not come before the session is initiated.\<close>

fun orderly :: "'f env \<Rightarrow> 'f call \<Rightarrow> 'f PPSession \<Rightarrow> bool" where
  "orderly e (Call_Incoming m) s \<longleftrightarrow> argvs m \<noteq> [] \<and>
     (msg_type m = PPMSG_TRANSPORT_INFO \<longrightarrow>
        read_candidates (os_lib e) (fl_lib e) (blank_candidate e) (argvs m) \<noteq> None \<and>
        (state s = STATE_INIT \<longrightarrow> GetTransportProxy s (hd (argvs m)) = None))"
| "orderly e _ s \<longleftrightarrow> True"

lemma GetChannel_create: "transport_wf t \<Longrightarrow> CreateChannel_w n ct t = (t', out) \<Longrightarrow> GetChannel t' n"
  using create_channels [of t n ct] by (simp add: GetChannel_def)

lemma GetOrCreateImpl_channel:
  "transport_wf t \<Longrightarrow> GetOrCreateImpl sid n t = (t', out) \<Longrightarrow> transport_wf t' \<and> GetChannel t' n"
  using wf_create [of t n NS_PPSESSION] GetChannel_create [of t n NS_PPSESSION]
  by (auto simp: GetOrCreateImpl_def split: if_split_asm prod.split_asm)

lemma wf_connect: "transport_wf t \<Longrightarrow> ConnectChannels_w t = (t', out) \<Longrightarrow> transport_wf t'"
  by (auto simp: ConnectChannels_w_def transport_wf_def Let_def split: if_split_asm)

text \<open>Setting the implementation of a proxy that has none succeeds.\<close>

lemma SetProxyImpl_sound:
  assumes "map_wf (proxies tp)" and "transport_wf (impl tp)" and "map_of (proxies tp) n \<noteq> Some True"
  shows "\<exists>t out. SetProxyImpl sid n tp = Some (tp\<lparr>impl := t, proxies := map_put n True (proxies tp)\<rparr>, out) \<and> transport_wf t"
proof -
  obtain t out where "GetOrCreateImpl sid n (impl tp) = (t, out)" by fastforce
  then show ?thesis using assms GetOrCreateImpl_channel [of "impl tp" sid n t out]
    by (intro exI [of _ t] exI [of _ out]) (simp add: SetProxyImpl_def SetImplementation_def)
qed

lemma set_proxy_impls_sound:
  assumes "distinct ns" and "map_wf (proxies tp)" and "transport_wf (impl tp)"
    and "\<forall>n \<in> set ns. map_of (proxies tp) n \<noteq> Some True"
  shows "\<exists>tp' out. set_proxy_impls sid ns tp = Some (tp', out) \<and> map_wf (proxies tp') \<and> transport_wf (impl tp') \<and>
    tp_state tp' = tp_state tp"
  using assms
proof (induction ns arbitrary: tp)
  case (Cons n ns)
  obtain t out where 1: "SetProxyImpl sid n tp = Some (tp\<lparr>impl := t, proxies := map_put n True (proxies tp)\<rparr>, out)"
    and t: "transport_wf t"
    using SetProxyImpl_sound [OF Cons.prems(2,3), of n sid] Cons.prems(4) by auto
  have "\<forall>k \<in> set ns. map_of (map_put n True (proxies tp)) k \<noteq> Some True"
    using Cons.prems by (auto simp: std_map.map_of_put)
  then obtain tp' out' where "set_proxy_impls sid ns (tp\<lparr>impl := t, proxies := map_put n True (proxies tp)\<rparr>) = Some (tp', out')"
    "map_wf (proxies tp')" "transport_wf (impl tp')" "tp_state tp' = tp_state tp"
    using Cons.IH [of "tp\<lparr>impl := t, proxies := map_put n True (proxies tp)\<rparr>"] Cons.prems t
    by (auto simp: std_map.wf_put)
  then show ?case using 1 by simp
qed simp

lemma CompleteNegotiation_sound:
  assumes "tp_sound tp"
  shows "\<exists>tp' out. CompleteNegotiation sid tp = Some (tp', out) \<and> tp_sound tp' \<and> tp_state tp' = TP_NEGOTIATED"
proof (cases "tp_state tp = TP_NEGOTIATED")
  case True
  then show ?thesis using assms by (simp add: CompleteNegotiation_def)
next
  case False
  define tp0 where "tp0 = tp\<lparr>tp_state := TP_NEGOTIATED\<rparr>"
  have "\<forall>n \<in> set (map fst (proxies tp)). map_of (proxies tp0) n \<noteq> Some True"
    using assms False by (auto simp: tp_sound_def tp0_def dest!: map_of_SomeD)
  moreover have "distinct (map fst (proxies tp))" "map_wf (proxies tp0)" "transport_wf (impl tp0)"
    using assms std_map.wf_distinct by (auto simp: tp_sound_def tp0_def)
  moreover have "tp_state tp0 = TP_NEGOTIATED" by (simp add: tp0_def)
  ultimately obtain tp1 o1 where "set_proxy_impls sid (map fst (proxies tp)) tp0 = Some (tp1, o1)"
    and 1: "map_wf (proxies tp1)" "transport_wf (impl tp1)" "tp_state tp1 = TP_NEGOTIATED"
    using set_proxy_impls_sound [of "map fst (proxies tp)" tp0 sid] by metis
  then show ?thesis using wf_connect [OF 1(2)] False
    by (cases "ConnectChannels_w (impl tp1)") (auto simp: CompleteNegotiation_def tp0_def tp_sound_def)
qed

lemma tp_CreateChannel_sound:
  assumes "tp_sound tp"
  shows "\<exists>tp' out. tp_CreateChannel sid n tp = Some (tp', out) \<and> tp_sound tp' \<and> tp_state tp' = tp_state tp"
proof -
  define tp0 where "tp0 = tp\<lparr>proxies := map_put n False (proxies tp)\<rparr>"
  have 0: "map_wf (proxies tp0)" "transport_wf (impl tp0)" "map_of (proxies tp0) n \<noteq> Some True"
    using assms by (simp_all add: tp0_def tp_sound_def std_map.wf_put std_map.map_of_put)
  show ?thesis
  proof (cases "tp_state tp = TP_NEGOTIATED")
    case True
    then show ?thesis using SetProxyImpl_sound [OF 0, of sid] 0
      by (auto simp: tp_CreateChannel_def tp0_def [symmetric] Let_def tp_sound_def std_map.wf_put)
        (simp_all add: tp0_def)
  next
    case False
    obtain t out where "GetOrCreateImpl sid n (impl tp) = (t, out)" by fastforce
    then show ?thesis using False assms GetOrCreateImpl_channel [of "impl tp" sid n t out]
      by (auto simp: tp_CreateChannel_def Let_def tp_sound_def std_map.wf_put std_map.set_put)
  qed
qed

lemma create_impls_wf: "transport_wf t \<Longrightarrow> create_impls sid ns t = (t', out) \<Longrightarrow> transport_wf t'"
  by (induction ns arbitrary: t t' out) (auto split: prod.split_asm dest: GetOrCreateImpl_channel)

lemma SpeculativelyConnectChannels_sound:
  "tp_sound tp \<Longrightarrow> tp_state tp = TP_INIT \<Longrightarrow> tp_sound (fst (SpeculativelyConnectChannels sid tp))"
  by (auto simp: SpeculativelyConnectChannels_def tp_sound_def dest: create_impls_wf wf_connect split: prod.split)

lemma soundD: "sound s \<Longrightarrow> GetTransportProxy s c = Some tp \<Longrightarrow>
    tp_sound tp \<and> (state s = STATE_INIT \<longrightarrow> tp_state tp = TP_INIT)"
  by (simp add: sound_def)

lemma sound_eq:
  "sound s \<Longrightarrow> transports s' = transports s \<Longrightarrow> (state s' = STATE_INIT \<Longrightarrow> state s = STATE_INIT) \<Longrightarrow>
    (state s' = STATE_SENTINITIATE \<Longrightarrow> local_description s' \<noteq> None) \<Longrightarrow> sound s'"
  by (auto simp: sound_def GetTransportProxy_def)

lemma sound_error [simp]: "sound (s\<lparr>error := x\<rparr>) = sound s"
  by (simp add: sound_def GetTransportProxy_def)

lemma sound_set_proxy:
  "sound s \<Longrightarrow> tp_sound tp \<Longrightarrow> (state s = STATE_INIT \<Longrightarrow> tp_state tp = TP_INIT) \<Longrightarrow> sound (set_proxy c tp s)"
  by (auto simp: sound_def GetTransportProxy_def std_map.wf_put std_map.map_of_put split: if_split_asm)

lemma new_proxy_sound: "tp_sound (new_TransportProxy (new_Transport\<lparr>allow_local_ips := b\<rparr>))"
  by (simp add: tp_sound_def new_TransportProxy_def transport_wf_def new_Transport_def map_wf_def)

lemma GetOrCreate_sound:
  assumes "sound s"
  shows "sound (GetOrCreateTransportProxy c s)"
    and "\<exists>tp. GetTransportProxy (GetOrCreateTransportProxy c s) c = Some tp"
proof -
  show "sound (GetOrCreateTransportProxy c s)"
    using assms new_proxy_sound by (auto simp: GetOrCreateTransportProxy_def new_TransportProxy_def
        intro!: sound_set_proxy split: option.split)
  show "\<exists>tp. GetTransportProxy (GetOrCreateTransportProxy c s) c = Some tp"
    using assms by (auto simp: GetOrCreateTransportProxy_def GetTransportProxy_def sound_def std_map.map_of_put
        split: option.split)
qed

lemma CreateTransportProxies_sound: "sound s \<Longrightarrow> sound (CreateTransportProxies c s)"
  unfolding CreateTransportProxies_def by (rule GetOrCreate_sound(1), rule sound_eq [of s]) (simp_all add: sound_def)

lemma remote_sound:
  assumes "sound s" and "state s = STATE_INIT \<Longrightarrow> GetTransportProxy s c = None"
  shows "\<exists>s' out ok. sess_OnRemoteCandidates e c cs s = Some (s', out, ok) \<and> sound s'"
proof (cases "GetTransportProxy s c")
  case None
  then show ?thesis using assms by (auto simp: sess_OnRemoteCandidates_def)
next
  case (Some tp)
  obtain tp' out where "CompleteNegotiation (sess_sid s) tp = Some (tp', out)" and "tp_sound tp'"
    using CompleteNegotiation_sound [of tp "sess_sid s"] soundD [OF assms(1) Some] by auto
  then show ?thesis using assms Some
    by (auto simp: sess_OnRemoteCandidates_def Let_def intro!: sound_set_proxy)
qed

lemma connect_sound:
  assumes "sound s" and "\<And>c tp. GetTransportProxy s c = Some tp \<Longrightarrow> tp_state tp = TP_INIT" and "state s \<noteq> STATE_INIT"
    and "SpeculativelyConnectAllTransportChannels s = (s', out)"
  shows "sound s'"
proof -
  have s': "s' = s\<lparr>transports := fst (connect_all (sess_sid s) (transports s))\<rparr>"
    using assms(4) by (simp add: SpeculativelyConnectAllTransportChannels_def split_beta Let_def prod_eq_iff)
  have "tp_sound (fst (SpeculativelyConnectChannels sid tp))" if "GetTransportProxy s c = Some tp" for sid c tp
    using that assms(2) [OF that] soundD [OF assms(1) that] SpeculativelyConnectChannels_sound by blast
  then show ?thesis using assms(1,3)
    by (auto simp: s' sound_def map_wf_def connect_all_map GetTransportProxy_def)
qed

lemma send_sound:
  assumes "sound s" and "SendAllUnsentTransportInfoMessages e s = (s', out)"
  shows "sound s'"
proof -
  have s': "s' = s\<lparr>pending_candidates := False, transports := fst (send_unsent e (transports s))\<rparr>"
    using assms(2) by (simp add: SendAllUnsentTransportInfoMessages_def split_beta Let_def prod_eq_iff)
  have "tp_sound (ClearUnsentCandidates tp) = tp_sound tp" "tp_state (ClearUnsentCandidates tp) = tp_state tp"
    for tp :: "'a TransportProxy"
    by (simp_all add: ClearUnsentCandidates_def tp_sound_def)
  then show ?thesis using assms(1)
    by (auto simp: s' sound_def map_wf_def send_unsent_map GetTransportProxy_def)
qed

lemma Initiate_sound: "sound s \<Longrightarrow> Initiate d s = (s', out, ok) \<Longrightarrow> sound s'"
proof (cases "state s = STATE_INIT")
  case True
  assume s: "sound s" and i: "Initiate d s = (s', out, ok)"
  define s0 where "s0 = s\<lparr>content_name := d, local_description := Some []\<rparr>"
  define s1 where "s1 = CreateTransportProxies d s0"
  define s2 where "s2 = s1\<lparr>state := STATE_SENTINITIATE\<rparr>"
  have "sound s0" using s by (rule sound_eq) (simp_all add: s0_def)
  then have 1: "sound s1" unfolding s1_def by (rule CreateTransportProxies_sound)
  have st: "state s1 = STATE_INIT" "local_description s1 \<noteq> None" using True by (simp_all add: s1_def s0_def)
  have 2: "sound s2" using 1 by (rule sound_eq) (use st in \<open>simp_all add: s2_def\<close>)
  have "tp_state tp = TP_INIT" if "GetTransportProxy s2 c = Some tp" for c tp
    using that soundD [OF 1, of c tp] st by (simp add: s2_def GetTransportProxy_def)
  moreover obtain o2 where "SpeculativelyConnectAllTransportChannels s2 = (s', o2)"
    using i True st by (auto simp: Initiate_def SetState_def Let_def s0_def s1_def s2_def split: prod.split_asm)
  ultimately show ?thesis using connect_sound [OF 2] by (auto simp: s2_def)
qed (simp add: Initiate_def)

lemma Incoming_sound:
  assumes "sound s" and "orderly e (Call_Incoming m) s"
  shows "\<exists>s' out. OnIncomingMessage e m s = Some (s', out) \<and> sound s'"
proof -
  obtain a where a: "argv0 m = Some a" "hd (argvs m) = a" using assms(2) by (cases "argvs m") (auto simp: argv0_def)
  have "\<exists>s' out ok. (case msg_type m of
          PPMSG_SESSION_INITIATE \<Rightarrow> OnInitiateMessage e m s
        | PPMSG_SESSION_INFO \<Rightarrow> OnInfoMessage m s
        | PPMSG_SESSION_ACCEPT \<Rightarrow> OnAcceptMessage e m s
        | PPMSG_SESSION_REJECT \<Rightarrow> Some (OnRejectMessage m s)
        | PPMSG_SESSION_TERMINATE \<Rightarrow> OnTerminateMessage m s
        | PPMSG_TRANSPORT_INFO \<Rightarrow> OnTransportInfoMessage e m s) = Some (s', out, ok) \<and> sound s'"
  proof (cases "msg_type m")
    case PPMSG_SESSION_INITIATE
    define s1 where "s1 = (CreateTransportProxies a (s\<lparr>content_name := a, remote_description := Some []\<rparr>))
      \<lparr>state := STATE_RECEIVEDINITIATE\<rparr>"
    have "sound (s\<lparr>content_name := a, remote_description := Some []\<rparr>)" using assms(1)
      by (rule sound_eq) (use assms(1) in \<open>auto simp: sound_def\<close>)
    from CreateTransportProxies_sound [OF this, of a] have "sound s1"
      by (rule sound_eq) (simp_all add: s1_def)
    then have "\<exists>s' out ok. sess_OnRemoteCandidates e a [] s1 = Some (s', out, ok) \<and> sound s'"
      by (rule remote_sound) (simp add: s1_def)
    then show ?thesis using PPMSG_SESSION_INITIATE assms(1) a
      by (auto simp: OnInitiateMessage_def CheckState_def SetState_def s1_def Let_def)
  next
    case PPMSG_SESSION_ACCEPT
    show ?thesis
    proof (cases "state s = STATE_SENTINITIATE")
      case True
      obtain s1 o1 where 1: "SendAllUnsentTransportInfoMessages e s = (s1, o1)" by fastforce
      have st: "state s1 = STATE_SENTINITIATE" "local_description s1 \<noteq> None"
        using SendAll_quiet [OF 1] True assms(1) by (auto simp: signaling_of_def sound_def)
      define s2 where "s2 = s1\<lparr>remote_description := Some [], state := STATE_RECEIVEDACCEPT\<rparr>"
      have "sound s2" using send_sound [OF assms(1) 1] by (rule sound_eq) (simp_all add: s2_def)
      then have "\<exists>s' out ok. sess_OnRemoteCandidates e a [] s2 = Some (s', out, ok) \<and> sound s'"
        by (rule remote_sound) (simp add: s2_def)
      then show ?thesis using PPMSG_SESSION_ACCEPT True a 1 st
        by (auto simp: OnAcceptMessage_def CheckState_def SetState_def ContentsGrouped_def s2_def Let_def)
    qed (use PPMSG_SESSION_ACCEPT assms(1) in \<open>auto simp: OnAcceptMessage_def CheckState_def\<close>)
  next
    case PPMSG_TRANSPORT_INFO
    obtain cs where "read_candidates (os_lib e) (fl_lib e) (blank_candidate e) (argvs m) = Some cs"
      using assms(2) PPMSG_TRANSPORT_INFO by auto
    then show ?thesis using remote_sound [OF assms(1), of a e cs] assms(2) PPMSG_TRANSPORT_INFO a
      by (simp add: OnTransportInfoMessage_def)
  qed (use assms(1) a in \<open>auto simp: OnInfoMessage_def OnRejectMessage_def OnTerminateMessage_def CheckState_def
        SetState_def intro: sound_eq [OF assms(1)]\<close>)
  then show ?thesis by (fastforce simp: OnIncomingMessage_def)
qed

lemma sound_step:
  assumes s: "sound s" and "orderly e x s"
  shows "\<exists>s' out. session_step e x s = Some (s', out) \<and> sound s'"
proof (cases x)
  case (Call_CreateChannel c n)
  define s1 where "s1 = GetOrCreateTransportProxy c s"
  obtain tp where tp: "GetTransportProxy s1 c = Some tp" and 1: "sound s1" unfolding s1_def using GetOrCreate_sound [OF s] by blast
  obtain tp' out where "tp_CreateChannel (sess_sid s1) n tp = Some (tp', out)" and "tp_sound tp'" "tp_state tp' = tp_state tp"
    using tp_CreateChannel_sound [of tp] soundD [OF 1 tp] by blast
  then show ?thesis using Call_CreateChannel tp soundD [OF 1 tp] sound_set_proxy [OF 1, of tp' c]
    by (simp add: CreateChannel_def Let_def s1_def)
next
  case (Call_set_allow_local_ips b)
  have "tp_sound (tp\<lparr>impl := (impl tp)\<lparr>allow_local_ips := b\<rparr>\<rparr>) = tp_sound tp" for tp :: "'a TransportProxy"
    by (simp add: tp_sound_def transport_wf_def)
  then show ?thesis using s Call_set_allow_local_ips
    by (auto simp: set_allow_local_ips_def sound_def GetTransportProxy_def map_of_map map_wf_def comp_def split_beta)
next
  case (Call_Initiate d)
  then show ?thesis using Initiate_sound [OF s, of d] by (cases "Initiate d s") (auto simp: result_def)
next
  case Call_Accept
  have "sound (s\<lparr>local_description := Some [], state := STATE_SENTACCEPT\<rparr>)" using s by (rule sound_eq) simp_all
  then have "sound s'" if "Accept e s = (s', out, ok)" for s' out ok
    using that s by (auto simp: Accept_def SetState_def Let_def split: if_split_asm prod.split_asm dest: send_sound)
  then show ?thesis using Call_Accept by (cases "Accept e s") (auto simp: result_def)
next
  case (Call_Incoming m)
  then show ?thesis using Incoming_sound [OF s] assms(2) by simp
next
  case (Call_CandidatesReady c cs)
  have "tp_sound (AddUnsentCandidates cs tp) = tp_sound tp" "tp_state (AddUnsentCandidates cs tp) = tp_state tp" for tp :: "'a TransportProxy"
    by (simp_all add: tp_sound_def AddUnsentCandidates_def)
  then show ?thesis using s Call_CandidatesReady
    by (auto simp: OnTransportCandidatesReady_def intro!: sound_set_proxy dest: soundD split: option.split)
qed (use s in \<open>auto simp: result_def Reject_def TerminateWithReason_def session_OnMessage_STATE_def
      session_OnMessage_TIMEOUT_def SetState_def SetError_def Let_def intro: sound_eq [OF s]\<close>)

fun orderly_run :: "'f env \<Rightarrow> 'f call list \<Rightarrow> 'f PPSession \<Rightarrow> bool" where
  "orderly_run e [] s = True"
| "orderly_run e (x # xs) s =
     (orderly e x s \<and> (case session_step e x s of None \<Rightarrow> True | Some (s', _) \<Rightarrow> orderly_run e xs s'))"

lemma orderly_run_sound:
  "sound s \<Longrightarrow> orderly_run e calls s \<Longrightarrow> \<exists>s' out. run (session_step e) calls s = Some (s', out) \<and> sound s'"
proof (induction calls arbitrary: s)
  case (Cons x xs)
  obtain s1 o1 where 1: "session_step e x s = Some (s1, o1)" "sound s1"
    using sound_step [OF Cons.prems(1), of e x] Cons.prems(2) by auto
  then show ?case using Cons.IH [OF 1(2)] Cons.prems(2) by fastforce
qed simp

lemma new_session_sound: "sound (new_PPSession sid b)"
  by (simp add: sound_def new_PPSession_def GetTransportProxy_def map_wf_def)

text \<open>The definitions a closed sequence of calls is evaluated with.\<close>

lemmas session_eval = CreateChannel_def GetOrCreateTransportProxy_def GetTransportProxy_def new_PPSession_def
  new_TransportProxy_def tp_CreateChannel_def set_proxy_def OnIncomingMessage_def OnTransportInfoMessage_def
  argv0_def read_candidates_def sess_OnRemoteCandidates_def CompleteNegotiation_def SetProxyImpl_def
  GetOrCreateImpl_def GetChannel_def new_Transport_def CreateChannel_w_def SetImplementation_def
  ConnectChannels_w_def CallChannels_w_def OnRemoteCandidates_def Initiate_def CreateTransportProxies_def
  SetState_def SpeculativelyConnectAllTransportChannels_def SpeculativelyConnectChannels_def result_def
  OnAcceptMessage_def CheckState_def SendAllUnsentTransportInfoMessages_def ContentsGrouped_def
  DestroyChannel_w_def map_erase_def Let_def OnTransportCandidatesReady_def session_OnMessage_STATE_def
  AddUnsentCandidates_def ClearUnsentCandidates_def

definition some_env :: "int env" where
  "some_env = \<lparr>os_lib = some_lib, fl_lib = some_float, blank_candidate = some_candidate, host_name = ''host'', host_ips = None\<rparr>"

definition some_calls :: "int call list" where
  "some_calls = [Call_Initiate ''data'', Call_CandidatesReady ''data'' [some_candidate],
     Call_Incoming \<lparr>msg_type = PPMSG_SESSION_ACCEPT, argvs = [''data'']\<rparr>, Call_STATE,
     Call_CandidatesReady ''data'' [some_candidate]]"

lemma some_orderly: "orderly_run some_env (Call_CreateChannel ''data'' ''prober'' # some_calls) (new_PPSession ''s'' True)"
  by (simp add: some_calls_def session_eval)

lemma some_spec: "spec_run signaling_step (Call_CreateChannel ''data'' ''prober'' # some_calls) (STATE_INIT, []) =
    ((STATE_INPROGRESS, ''data''), [say PPMSG_SESSION_INITIATE [''data''], SignalStateChanged STATE_SENTINITIATE, Post_STATE,
       SignalStateChanged STATE_RECEIVEDACCEPT, Post_STATE, SignalStateChanged STATE_INPROGRESS, Post_STATE])"
  by (simp add: some_calls_def enter_def)

lemma some_run: "\<exists>s out. run (session_step some_env) (Call_CreateChannel ''data'' ''prober'' # some_calls) (new_PPSession ''s'' True) =
    Some (s, out) \<and> state s = STATE_INPROGRESS"
proof -
  obtain s out where r: "run (session_step some_env) (Call_CreateChannel ''data'' ''prober'' # some_calls) (new_PPSession ''s'' True) =
      Some (s, out)"
    using orderly_run_sound [OF new_session_sound some_orderly] by blast
  moreover have "state s = STATE_INPROGRESS"
    using signaling.run_refines [OF r] some_spec by (simp add: signaling_of_def new_PPSession_def)
  ultimately show ?thesis by blast
qed

section \<open>The properties\<close>

text \<open>C6: whatever calls a new session gets, its states, its content name, and the messages,
  state changes and posts it shows are those of the signaling state machine: the transports and their
  candidates never influence the signaling.\<close>

theorem session_follows_signaling:
  assumes "run (session_step e) calls (new_PPSession sid b) = Some (s, out)"
  shows "spec_run signaling_step calls (STATE_INIT, []) = ((state s, content_name s), filter is_signaling out)"
  using signaling.run_refines [OF assms] by (simp add: signaling_of_def new_PPSession_def)


text \<open>C2: for a content whose channel was created first, the texts of the candidates the session
  has sent, followed by those of the candidates it still holds, are the texts of the candidates its
  transport has reported, in order, none lost and none twice; once the session is accepted it holds
  none.\<close>

theorem candidates_conserved:
  assumes "run (session_step e) (Call_CreateChannel c n # calls) (new_PPSession sid b) = Some (s, out)"
  shows "sent_texts c out @ texts e (unsent_of s c) = texts e (ready_of c calls) \<and>
    (state s \<in> {STATE_SENTACCEPT, STATE_RECEIVEDACCEPT, STATE_INPROGRESS} \<longrightarrow> unsent_of s c = [])"
proof -
  obtain s1 o1 o2 where 1: "session_step e (Call_CreateChannel c n) (new_PPSession sid b) = Some (s1, o1)"
    and 2: "run (session_step e) calls s1 = Some (s, o2)" and out: "out = o1 @ o2"
    using assms by (auto simp only: run_Cons_iff)
  have "conserved e c [Call_CreateChannel c n] o1 s1" using 1
    by (auto simp: CreateChannel_def GetOrCreateTransportProxy_def GetTransportProxy_def new_PPSession_def conserved_def
        unsent_of_def new_TransportProxy_def tp_CreateChannel_def set_proxy_def map_wf_def bind_eq_Some_iff Let_def)
  from conserved.run_inv [OF this 2] show ?thesis by (auto simp: conserved_def out)
qed



section \<open>Instances\<close>

theorem session_follows_signaling_witness:
  "\<exists>s out. run (session_step some_env) (Call_CreateChannel ''data'' ''prober'' # some_calls) (new_PPSession ''s'' True) = Some (s, out) \<and>
    spec_run signaling_step (Call_CreateChannel ''data'' ''prober'' # some_calls) (STATE_INIT, []) =
      ((state s, content_name s), filter is_signaling out)"
  using some_run session_follows_signaling by blast


theorem candidates_conserved_witness:
  "\<exists>s out. run (session_step some_env) (Call_CreateChannel ''data'' ''prober'' # some_calls) (new_PPSession ''s'' True) = Some (s, out) \<and>
    sent_texts ''data'' out = texts some_env [some_candidate, some_candidate]"
proof -
  obtain s out where r: "run (session_step some_env) (Call_CreateChannel ''data'' ''prober'' # some_calls) (new_PPSession ''s'' True) = Some (s, out)"
    and p: "state s = STATE_INPROGRESS" using some_run by blast
  have "sent_texts ''data'' out = texts some_env [some_candidate, some_candidate]"
    using candidates_conserved [OF r] p by (auto simp: some_calls_def)
  then show ?thesis using r by blast
qed


end
