(* ===== verification/Peer.thy ===== *)
theory Peer
  imports Dialog_Text
begin

text \<open>
  The client side of the dialog protocol, \<^verbatim>\<open>peer.cpp\<close>: the connection to the dialog server, the
  sentences it sends, and the reading loop that cuts what arrives into sentences and signals them.
  An operation returns the new object and what it does to the outside in order: calls on the
  socket and emitted signals. \<open>None\<close> is undefined behaviour: a call through the null \<open>sock\<close> or
  a \<open>words[1]\<close> past the end of the vector.
\<close>

section \<open>The object\<close>

record peer =
  peer_id :: string
  sock :: bool
  isOnline :: bool
  server_address :: string
  server_port :: "16 word"
  xmlBuffer :: string

datatype peer_out =
    Sock_Connect string "16 word"
  | Sock_Send string
  | Sock_Close
  | SignalOnline bool
  | SignalOffline
  | SignalRemoteOnline string
  | SignalRemoteLogin string
  | SignalRemoteOffline string
  | SignalRemoteMessage string "string list"
  | SignalPrintString string

definition Peer :: "string \<Rightarrow> 16 word \<Rightarrow> string \<Rightarrow> peer" where
  "Peer server port i = \<lparr>peer_id = i, sock = False, isOnline = True, server_address = server,
     server_port = port, xmlBuffer = []\<rparr>"

section \<open>Sending\<close>

fun append_words :: "string \<Rightarrow> string list \<Rightarrow> string" where
  "append_words payload [] = payload"
| "append_words payload (w # msg) = append_words (payload @ '':'' @ w) msg"

definition SendMessage :: "peer \<Rightarrow> string \<Rightarrow> string list \<Rightarrow> (int \<times> peer_out list) option" where
  "SendMessage p to msg =
     (if \<not> isOnline p then Some (-1, [])
      else if \<not> sock p then None
      else
        let msgPayload = append_words (''<send:'' @ to) msg @ ''>'' in
        Some (0, [Sock_Send msgPayload,
                  SignalPrintString (CHR 0x09 # ''===>: '' @ msgPayload)]))"

section \<open>The connection\<close>

text \<open>\<open>connected\<close> is the value of \<open>Connect\<close>, \<open>blocking\<close> that of \<open>IsBlocking\<close>.\<close>

definition onStart_w :: "int \<Rightarrow> bool \<Rightarrow> peer \<Rightarrow> peer \<times> peer_out list" where
  "onStart_w connected blocking p =
     (let p = p\<lparr>sock := True, xmlBuffer := []\<rparr>;
          out = [Sock_Connect (server_address p) (server_port p)]
      in if connected < 0 \<and> \<not> blocking
         then (p\<lparr>sock := False\<rparr>, out @ [Sock_Close, SignalOnline False])
         else (p, out))"

definition onConnectEvent :: "bool \<Rightarrow> peer \<Rightarrow> (peer \<times> peer_out list) option" where
  "onConnectEvent cs_connected p =
     (if \<not> sock p then None
      else if cs_connected
      then Some (p\<lparr>isOnline := True\<rparr>,
             [Sock_Send (''<login:'' @ peer_id p @ ''>''), SignalOnline True])
      else Some (p, []))"

definition onCloseEvent :: "peer \<Rightarrow> (peer \<times> peer_out list) option" where
  "onCloseEvent p =
     (if \<not> sock p then None
      else
        let q = p\<lparr>sock := False\<rparr> in
        if isOnline q then Some (q\<lparr>isOnline := False\<rparr>, [Sock_Close, SignalOffline])
        else Some (q, [Sock_Close, SignalOnline False]))"

section \<open>Reading\<close>

fun split_words :: "string \<Rightarrow> string \<Rightarrow> string list" where
  "split_words currentWord [] = []"
| "split_words currentWord (c # cs) =
     (if c = CHR '':'' \<or> c = CHR ''>'' then currentWord # split_words [] cs
      else split_words (currentWord @ [c]) cs)"

definition words_of :: "string \<Rightarrow> string list" where
  "words_of buffer = split_words [] (drop 1 buffer)"

definition processXML :: "peer \<Rightarrow> peer_out list option" where
  "processXML p =
     (let words = words_of (xmlBuffer p) in
      if words \<noteq> [] then
        if words ! 0 = ''online'' then
          (if 1 < length words then Some [SignalRemoteOnline (words ! 1)] else None)
        else if words ! 0 = ''offline'' then
          (if 1 < length words then Some [SignalRemoteOffline (words ! 1)] else None)
        else if words ! 0 = ''login'' then
          (if 1 < length words then Some [SignalRemoteLogin (words ! 1)] else None)
        else if words ! 0 = ''message'' then
          (if 1 < length words then Some [SignalRemoteMessage (words ! 1) (drop 2 words)] else None)
        else Some []
      else Some [])"

fun onReadEvent_loop :: "peer \<Rightarrow> string \<Rightarrow> (peer \<times> peer_out list) option" where
  "onReadEvent_loop p [] = Some (p, [])"
| "onReadEvent_loop p (c # temp) =
     (let p = p\<lparr>xmlBuffer := xmlBuffer p @ [c]\<rparr> in
      if c = CHR ''>'' then do {
        out \<leftarrow> processXML p;
        (p, outs) \<leftarrow> onReadEvent_loop (p\<lparr>xmlBuffer := []\<rparr>) temp;
        Some (p, out @ outs)
      }
      else onReadEvent_loop p temp)"

text \<open>\<open>temp\<close> is what \<open>Recv\<close> stored, empty when it returned 0 or an error. The printed copy is a C
  string, which ends at the first zero byte.\<close>

definition onReadEvent :: "peer \<Rightarrow> string \<Rightarrow> (peer \<times> peer_out list) option" where
  "onReadEvent p temp =
     (if \<not> sock p then None
      else if temp = [] then Some (p, [])
      else do {
        (p, outs) \<leftarrow> onReadEvent_loop p temp;
        Some (p, SignalPrintString (CHR 0x09 # ''<===: '' @ takeWhile (\<lambda>c. c \<noteq> CHR 0x00) temp) # outs)
      })"

section \<open>What the parser and the loop compute\<close>

lemma split_words_word:
  "clean w \<Longrightarrow> split_words v (w @ s) = split_words (v @ w) s"
  by (induction w arbitrary: v) auto

lemma split_words_tail:
  "list_all clean ws \<Longrightarrow> split_words v (tail ws @ ''>'') = v # ws"
  by (induction ws arbitrary: v) (simp_all add: split_words_word)

interpretation peer_words: sentence_parser words_of
proof
  fix ws :: "string list"
  assume "list_all clean ws" and "ws \<noteq> []"
  then show "words_of (sentence ws) = ws"
    by (cases ws) (simp_all add: words_of_def sentence_Cons split_words_word split_words_tail)
qed

lemma append_words_tail: "append_words s ws = s @ tail ws"
  by (induction ws arbitrary: s) simp_all

lemma SendMessage_sentence:
  assumes "isOnline p" and "sock p"
  shows "SendMessage p to msg = Some (0, [Sock_Send (sentence (''send'' # to # msg)),
    SignalPrintString (CHR 0x09 # ''===>: '' @ sentence (''send'' # to # msg))])"
  using assms by (simp add: SendMessage_def append_words_tail sentence_Cons Let_def)

text \<open>The signals of a list of complete sentences.\<close>

definition signals_of :: "string \<Rightarrow> peer_out list option" where
  "signals_of f = processXML (Peer [] 0 [] \<lparr>xmlBuffer := f\<rparr>)"

fun signals_of_all :: "string list \<Rightarrow> peer_out list option" where
  "signals_of_all [] = Some []"
| "signals_of_all (f # fs) = do { out \<leftarrow> signals_of f; outs \<leftarrow> signals_of_all fs; Some (out @ outs) }"

lemma processXML_buffer: "processXML p = signals_of (xmlBuffer p)"
  by (simp add: processXML_def signals_of_def)

lemma signals_of_all_append:
  "signals_of_all (fs @ gs) = do { a \<leftarrow> signals_of_all fs; b \<leftarrow> signals_of_all gs; Some (a @ b) }"
  by (induction fs) (auto simp: Option.bind_assoc)

lemma onReadEvent_loop_frames:
  "onReadEvent_loop p d = map_option (Pair (p\<lparr>xmlBuffer := snd (frames (xmlBuffer p) d)\<rparr>))
     (signals_of_all (fst (frames (xmlBuffer p) d)))"
proof (induction d arbitrary: p)
  case (Cons c d)
  show ?case
    by (cases "signals_of (xmlBuffer p @ ''>'')")
      (auto simp: Cons.IH processXML_buffer Let_def map_option_case
        split: option.splits prod.splits)
qed simp

text \<open>Several reads in a row, with the printed copies left out of what is observed.\<close>

fun is_print :: "peer_out \<Rightarrow> bool" where
  "is_print (SignalPrintString s) = True"
| "is_print _ = False"

fun read_all :: "peer \<Rightarrow> string list \<Rightarrow> (peer \<times> peer_out list) option" where
  "read_all p [] = Some (p, [])"
| "read_all p (d # ds) = do {
     (q, out) \<leftarrow> onReadEvent p d;
     (r, outs) \<leftarrow> read_all q ds;
     Some (r, filter (\<lambda>x. \<not> is_print x) out @ outs)
   }"

lemma signals_of_no_print: "signals_of f = Some out \<Longrightarrow> filter (\<lambda>x. \<not> is_print x) out = out"
  by (auto simp: signals_of_def processXML_def Let_def split: if_split_asm)

lemma signals_of_all_no_print:
  "signals_of_all fs = Some out \<Longrightarrow> filter (\<lambda>x. \<not> is_print x) out = out"
  by (induction fs arbitrary: out) (auto dest: signals_of_no_print)

lemma read_all_frames:
  assumes "sock p"
  shows "read_all p ds = map_option (Pair (p\<lparr>xmlBuffer := snd (frames (xmlBuffer p) (concat ds))\<rparr>))
     (signals_of_all (fst (frames (xmlBuffer p) (concat ds))))"
  using assms
proof (induction ds arbitrary: p)
  case (Cons d ds)
  let ?p = "p\<lparr>xmlBuffer := snd (frames (xmlBuffer p) d)\<rparr>"
  have IH: "read_all ?p ds = map_option (Pair (?p\<lparr>xmlBuffer := snd (frames (xmlBuffer ?p) (concat ds))\<rparr>))
     (signals_of_all (fst (frames (xmlBuffer ?p) (concat ds))))"
    by (rule Cons.IH) (simp add: Cons.prems)
  show ?case
  proof (cases "d = []")
    case True
    then show ?thesis using Cons by (simp add: onReadEvent_def map_option_case split: option.splits)
  next
    case False
    then show ?thesis using Cons.prems IH
      by (auto simp: onReadEvent_def onReadEvent_loop_frames frames_append signals_of_all_append
          map_option_case Let_def signals_of_all_no_print
          split: option.splits prod.splits)
  qed
qed simp

lemma signals_of_sentence:
  assumes "list_all clean (k # w # ws)"
  shows "signals_of (sentence (k # w # ws)) = Some
    (if k = ''online'' then [SignalRemoteOnline w] else if k = ''offline'' then [SignalRemoteOffline w]
     else if k = ''login'' then [SignalRemoteLogin w]
     else if k = ''message'' then [SignalRemoteMessage w ws] else [])"
  using peer_words.parse_sentence [OF assms] by (simp add: signals_of_def processXML_def Let_def)

lemma signals_of_messages:
  assumes "list_all (\<lambda>(w, ws). list_all clean (w # ws)) ms"
  shows "signals_of_all (map (\<lambda>(w, ws). sentence (''message'' # w # ws)) ms) =
    Some (map (\<lambda>(w, ws). SignalRemoteMessage w ws) ms)"
proof -
  have "clean ''message''" by (simp add: clean_def)
  then show ?thesis using assms by (induction ms) (auto simp: signals_of_sentence)
qed

section \<open>Properties\<close>

text \<open>Whatever messages the server relays, in fields without \<open>:\<close> and \<open>>\<close>, and however the
  network cuts the stream, the reading loop signals exactly those messages, in order, with their
  senders and their fields, and is left with an empty buffer.\<close>

lemma peer_reads_messages:
  assumes "sock p" and "xmlBuffer p = []" and "list_all (\<lambda>(from, body). list_all clean (from # body)) ms"
    and "concat ds = concat (map (\<lambda>(from, body). sentence (''message'' # from # body)) ms)"
  shows "read_all p ds = Some (p, map (\<lambda>(from, body). SignalRemoteMessage from body) ms)"
proof -
  have m: "clean ''message''" by (simp add: clean_def)
  have "list_all (\<lambda>ws. list_all clean ws \<and> ws \<noteq> []) (map (\<lambda>(w, ws). ''message'' # w # ws) ms)"
    using assms(3) m by (auto simp: list_all_iff)
  from frames_sentences [OF this]
  have "frames [] (concat ds) = (map (\<lambda>(w, ws). sentence (''message'' # w # ws)) ms, [])"
    unfolding assms(4) by (simp add: comp_def case_prod_unfold)
  then show ?thesis
    using assms(1,2) signals_of_messages [OF assms(3)] by (simp add: read_all_frames)
qed

definition connected_peer :: peer where
  "connected_peer = Peer ''host'' 1979 ''b'' \<lparr>sock := True\<rparr>"

text \<open>The reading loop is undefined exactly on the four sentences that consist of a known
  keyword and nothing else, where \<open>words[1]\<close> is read past the end of the vector; on every other
  buffer it signals at most one event.\<close>

lemma processXML_defined:
  "(processXML p = None \<longleftrightarrow>
     words_of (xmlBuffer p) \<in> {[''online''], [''offline''], [''login''], [''message'']}) \<and>
   (\<forall>out. processXML p = Some out \<longrightarrow> length out \<le> 1)"
proof (cases "words_of (xmlBuffer p)")
  case Nil
  then show ?thesis by (simp add: processXML_def)
next
  case (Cons k ws)
  then show ?thesis by (cases ws) (simp_all add: processXML_def Let_def)
qed

text \<open>Once the connection has been closed, sending is refused with \<open>-1\<close> and the socket is not
  touched, whether or not the peer had been online.\<close>

lemma no_send_after_close:
  assumes "onCloseEvent p = Some (q, out)"
  shows "SendMessage q to msg = Some (-1, []) \<and> \<not> sock q \<and>
    (out = [Sock_Close, SignalOffline] \<or> out = [Sock_Close, SignalOnline False])"
  using assms by (auto simp: onCloseEvent_def SendMessage_def Let_def split: if_split_asm)

end
