(* ===== verification/Prober.thy ===== *)
theory Prober
  imports PP_Session_Props Peer
begin

text \<open>
  \<open>IceProber\<close> (\<^verbatim>\<open>prober.cpp\<close>): the object that owns a \<open>Peer\<close> and a \<open>PPSession\<close> and connects the
  signals of the one to the operations of the other. All its handlers run on the signaling thread;
  a message posted to that thread is an output. A handler is \<open>None\<close> where the behaviour is undefined:
  a null session, transport or channel, the first word of an empty message, a packet that does not
  fit the buffer.
\<close>

section \<open>The object\<close>

abbreviation (input) content :: string where "content \<equiv> ''data''"
abbreviation (input) channel_name :: string where "channel_name \<equiv> ''prober''"

abbreviation (input) PP_STR_INITIATE :: string where "PP_STR_INITIATE \<equiv> ''pp_initiate''"
abbreviation (input) PP_STR_ACCEPT :: string where "PP_STR_ACCEPT \<equiv> ''pp_accept''"
abbreviation (input) PP_STR_TRANSPORT :: string where "PP_STR_TRANSPORT \<equiv> ''pp_transport''"

record 'f IceProber =
  session :: "'f PPSession option"
  prober_peer :: peer
  targetChannel :: bool
  output_open :: bool
  remote_online :: bool
  my_name :: string
  remote_name :: string

datatype 'f p_out =
    From_Peer peer_out
  | From_Session "'f s_out"
  | Print string
  | Exit int
  | Post_START
  | Post_CREATE_SESSION
  | Post_DO_INITIATE
  | Post_DO_ACCEPT
  | Post_DO_DATA nat
  | Channel_SendPacket string
  | Monitor_Start nat

text \<open>\<open>Login\<close>, with the result of opening the log file; the port of the server is not the argument
  but 1979.\<close>

definition Login :: "bool \<Rightarrow> string \<Rightarrow> 16 word \<Rightarrow> string \<Rightarrow> string \<Rightarrow> 'f IceProber \<times> 'f p_out list" where
  "Login opened server port' myName remoteName =
     (\<lparr>session = None, prober_peer = Peer server 1979 myName, targetChannel = False, output_open = opened,
       remote_online = False, my_name = myName, remote_name = remoteName\<rparr>,
      [Post_START, Post_CREATE_SESSION])"

section \<open>Signals of the session\<close>

definition onOutgoingMessage :: "PPMessage \<Rightarrow> 'f IceProber \<Rightarrow> ('f IceProber \<times> 'f p_out list) option" where
  "onOutgoingMessage msg p =
     (let send = (\<lambda>msgType. do {
          (ret, out) \<leftarrow> SendMessage (prober_peer p) (remote_name p) (msgType # argvs msg);
          Some (p, map (\<lambda>x. case x of SignalPrintString s \<Rightarrow> Print s | _ \<Rightarrow> From_Peer x) out)
        }) in
      case msg_type msg of
        PPMSG_SESSION_INITIATE \<Rightarrow> send PP_STR_INITIATE
      | PPMSG_SESSION_ACCEPT \<Rightarrow> send PP_STR_ACCEPT
      | PPMSG_TRANSPORT_INFO \<Rightarrow> send PP_STR_TRANSPORT
      | _ \<Rightarrow> Some (p, []))"

text \<open>The handler reads the state it is signaled with: the session signals a state right after it
  has entered it.\<close>

definition onStateChanged :: "session_state \<Rightarrow> 'f IceProber \<Rightarrow> ('f IceProber \<times> 'f p_out list) option" where
  "onStateChanged st p =
     (case st of
        STATE_RECEIVEDINITIATE \<Rightarrow> do {
          s \<leftarrow> session p;
          Some (p, if content_name s = content then [Post_DO_ACCEPT] else [])
        }
      | STATE_INPROGRESS \<Rightarrow> Some (p, [Print ''Session is established!''])
      | _ \<Rightarrow> Some (p, []))"

definition onSessionTimeout :: "'f IceProber \<Rightarrow> 'f IceProber \<times> 'f p_out list" where
  "onSessionTimeout p = (p, [Print ''* Exception * Building p2p timeout ...'', Exit (-1)])"

definition onSignalRequest :: "'f IceProber \<Rightarrow> ('f IceProber \<times> 'f p_out list) option" where
  "onSignalRequest p = do {
     s \<leftarrow> session p;
     Some (p, map From_Session (sess_OnSignalingReady s))
   }"

fun session_signal :: "'f s_out \<Rightarrow> 'f IceProber \<Rightarrow> ('f IceProber \<times> 'f p_out list) option" where
  "session_signal (SignalOutgoingMessage m) p = onOutgoingMessage m p"
| "session_signal (SignalStateChanged st) p = onStateChanged st p"
| "session_signal SignalTimeout p = Some (onSessionTimeout p)"
| "session_signal SignalSessionRequestSignaling p = onSignalRequest p"
| "session_signal x p = Some (p, [From_Session x])"

definition session_call :: "'f env \<Rightarrow> 'f call \<Rightarrow> 'f IceProber \<Rightarrow> ('f IceProber \<times> 'f p_out list) option" where
  "session_call e x p = do {
     s \<leftarrow> session p;
     (s', out) \<leftarrow> session_step e x s;
     run session_signal out (p\<lparr>session := Some s'\<rparr>)
   }"

section \<open>Posted messages\<close>

definition createSession_s :: "'f env \<Rightarrow> bool \<Rightarrow> 'f IceProber \<Rightarrow> ('f IceProber \<times> 'f p_out list) option" where
  "createSession_s e uninit p = do {
     (p, out) \<leftarrow> session_call e (Call_set_allow_local_ips True) (p\<lparr>session := Some (new_PPSession ''iceprober'' uninit)\<rparr>);
     (p, out') \<leftarrow> session_call e (Call_CreateChannel content channel_name) p;
     Some (p, out @ out')
   }"

definition setupTarget :: "'f IceProber \<Rightarrow> ('f IceProber \<times> 'f p_out list) option" where
  "setupTarget p = do {
     s \<leftarrow> session p;
     tp \<leftarrow> GetTransportProxy s content;
     if GetChannel (impl tp) channel_name
     then Some (p\<lparr>targetChannel := True\<rparr>, if output_open p then [Monitor_Start 500] else [])
     else Some (p, [])
   }"

definition doInitiate_s :: "'f env \<Rightarrow> 'f IceProber \<Rightarrow> ('f IceProber \<times> 'f p_out list) option" where
  "doInitiate_s e p = do {
     (p, out) \<leftarrow> session_call e (Call_Initiate content) p;
     (p, out') \<leftarrow> setupTarget p;
     Some (p, out @ out')
   }"

definition doAccept_s :: "'f env \<Rightarrow> 'f IceProber \<Rightarrow> ('f IceProber \<times> 'f p_out list) option" where
  "doAccept_s e p = do {
     (p, out) \<leftarrow> session_call e Call_Accept p;
     (p, out') \<leftarrow> setupTarget p;
     Some (p, out @ out')
   }"

section \<open>The channel\<close>

definition onChannelWriteable :: "'f IceProber \<Rightarrow> ('f IceProber \<times> 'f p_out list) option" where
  "onChannelWriteable p =
     (if targetChannel p then Some (p, [Channel_SendPacket ''ABCD'', Post_DO_DATA 1000]) else None)"

definition doData_s :: "'f IceProber \<Rightarrow> ('f IceProber \<times> 'f p_out list) option" where
  "doData_s p = onChannelWriteable p"

definition onChannelReadPacket :: "string \<Rightarrow> 'f IceProber \<Rightarrow> ('f IceProber \<times> 'f p_out list) option" where
  "onChannelReadPacket data p =
     (if length data < 128 then Some (p, [Print (''Get packet:'' @ takeWhile (\<lambda>c. c \<noteq> CHR 0x00) data)]) else None)"

datatype p_msg = MSG_CREATE_SESSION | MSG_DO_INITIATE | MSG_DO_ACCEPT | MSG_DO_DATA

fun Prober_OnMessage :: "'f env \<Rightarrow> bool \<Rightarrow> p_msg \<Rightarrow> 'f IceProber \<Rightarrow> ('f IceProber \<times> 'f p_out list) option" where
  "Prober_OnMessage e uninit MSG_CREATE_SESSION p = createSession_s e uninit p"
| "Prober_OnMessage e uninit MSG_DO_INITIATE p = doInitiate_s e p"
| "Prober_OnMessage e uninit MSG_DO_ACCEPT p = doAccept_s e p"
| "Prober_OnMessage e uninit MSG_DO_DATA p = doData_s p"

section \<open>Signals of the peer\<close>

definition onOnLine :: "bool \<Rightarrow> 'f IceProber \<Rightarrow> 'f IceProber \<times> 'f p_out list" where
  "onOnLine isOk p =
     (if isOk then (p, [Print ''Connected to server is OK, wait remote...''])
      else (p, [Print ''Can't connect to server, please start the session server.'', Exit 0]))"

definition onOffline :: "'f IceProber \<Rightarrow> 'f IceProber \<times> 'f p_out list" where
  "onOffline p = (p, [Print ''* Exception * Disconnected from server!'', Exit 0])"

definition onRemoteLogin :: "string \<Rightarrow> 'f IceProber \<Rightarrow> 'f IceProber \<times> 'f p_out list" where
  "onRemoteLogin remote p =
     (if remote = remote_name p \<and> \<not> remote_online p
      then (p\<lparr>remote_online := True\<rparr>, [Post_DO_INITIATE]) else (p, []))"

definition onRemoteOffline :: "string \<Rightarrow> 'f IceProber \<Rightarrow> 'f IceProber \<times> 'f p_out list" where
  "onRemoteOffline remote p = (p, [Print ''* Exception * Remote is disconnected from server!'', Exit (-1)])"

definition onRemoteMessage :: "'f env \<Rightarrow> string \<Rightarrow> string list \<Rightarrow> 'f IceProber \<Rightarrow> ('f IceProber \<times> 'f p_out list) option" where
  "onRemoteMessage e remote msgBody p =
     (let incoming = (\<lambda>ty. session_call e (Call_Incoming \<lparr>msg_type = ty, argvs = drop 1 msgBody\<rparr>) p) in
      if msgBody = [] then None
      else if hd msgBody = PP_STR_INITIATE then incoming PPMSG_SESSION_INITIATE
      else if hd msgBody = PP_STR_ACCEPT then incoming PPMSG_SESSION_ACCEPT
      else if hd msgBody = PP_STR_TRANSPORT then incoming PPMSG_TRANSPORT_INFO
      else Some (p, []))"

fun peer_signal :: "'f env \<Rightarrow> peer_out \<Rightarrow> 'f IceProber \<Rightarrow> ('f IceProber \<times> 'f p_out list) option" where
  "peer_signal e (SignalOnline isOk) p = Some (onOnLine isOk p)"
| "peer_signal e SignalOffline p = Some (onOffline p)"
| "peer_signal e (SignalRemoteLogin remote) p = Some (onRemoteLogin remote p)"
| "peer_signal e (SignalRemoteOnline remote) p = Some (p, [])"
| "peer_signal e (SignalRemoteOffline remote) p = Some (onRemoteOffline remote p)"
| "peer_signal e (SignalRemoteMessage remote msgBody) p = onRemoteMessage e remote msgBody p"
| "peer_signal e (SignalPrintString s) p = Some (p, [Print s])"
| "peer_signal e x p = Some (p, [From_Peer x])"

text \<open>Bytes from the server.\<close>

definition prober_read :: "'f env \<Rightarrow> string \<Rightarrow> 'f IceProber \<Rightarrow> ('f IceProber \<times> 'f p_out list) option" where
  "prober_read e temp p = do {
     (q, out) \<leftarrow> onReadEvent (prober_peer p) temp;
     run (peer_signal e) out (p\<lparr>prober_peer := q\<rparr>)
   }"

end
