(* ===== verification/Dialog_Server.thy ===== *)
theory Dialog_Server
  imports Dialog_Text Stores
begin

text \<open>
  The dialog server, \<^verbatim>\<open>dialog_server/index.js\<close>. A connection is a number; the state has the
  \<open>PeerClass\<close> object of each connection and the global object \<open>peerObjects\<close>. What JavaScript does
  implicitly is written out: the order of \<open>for in\<close>, the conversion of \<open>null\<close> and \<open>undefined\<close> to
  strings, the special property \<open>__proto__\<close>, and the \<open>TypeError\<close> of a call of something that is
  not a function. A handler yields the state and the calls on sockets it makes; an uncaught
  exception ends the process, which is the state \<open>None\<close> after the calls made so far. Text is ASCII,
  where the \<open>utf8\<close> decoder and encoder of the socket are the identity.
\<close>

section \<open>The state\<close>

text \<open>The values \<open>peer.pid\<close> takes.\<close>

datatype js_id = Null | Undefined | Str string

fun js_str :: "js_id \<Rightarrow> string" where
  "js_str Null = ''null''"
| "js_str Undefined = ''undefined''"
| "js_str (Str s) = s"

record PeerClass =
  pid :: js_id
  xmlWord :: string
  sid :: string

text \<open>\<open>proto\<close> is the prototype an assignment to \<open>peerObjects["__proto__"]\<close> has set.\<close>

record server =
  peers :: "nat \<Rightarrow> PeerClass"
  peerObjects :: "(string \<times> nat) list"
  proto :: "nat option"

datatype wire = Write nat string | End nat

type_synonym 's run = "'s option \<times> wire list"

definition then_run :: "'s run \<Rightarrow> ('s \<Rightarrow> 't run) \<Rightarrow> 't run" where
  "then_run r f = (case fst r of None \<Rightarrow> (None, snd r)
     | Some s \<Rightarrow> (let (t, out) = f s in (t, snd r @ out)))"

definition set_peer :: "nat \<Rightarrow> PeerClass \<Rightarrow> server \<Rightarrow> server" where
  "set_peer c q s = s\<lparr>peers := (peers s)(c := q)\<rparr>"

section \<open>JavaScript objects\<close>

text \<open>A key that is an array index comes first, in numerical order, in \<open>for in\<close>.\<close>

definition array_index :: "string \<Rightarrow> bool" where
  "array_index k \<longleftrightarrow> k \<noteq> [] \<and> list_all is_digit k \<and> (hd k \<noteq> CHR ''0'' \<or> k = ''0'') \<and>
     digits_value k < 4294967295"

definition own_keys :: "(string \<times> 'v) list \<Rightarrow> string list" where
  "own_keys m = sort_key digits_value (filter array_index (map fst m)) @
     filter (\<lambda>k. \<not> array_index k) (map fst m)"

text \<open>A step of \<open>for in\<close>: an own property, with the connection of its peer object, or one inherited
  from the prototype, whose value is not a peer object.\<close>

datatype js_prop = Own nat | Inherited string

definition for_in :: "server \<Rightarrow> js_prop list" where
  "for_in s = map (\<lambda>k. Own (the (map_of (peerObjects s) k))) (own_keys (peerObjects s)) @
     (case proto s of None \<Rightarrow> []
      | Some c \<Rightarrow> map Inherited (filter (\<lambda>k. k \<notin> fst ` set (peerObjects s))
                    [''pid'', ''xmlWord'', ''sid'', ''sock'']))"

text \<open>\<open>peerObjects.hasOwnProperty(key)\<close>; \<open>None\<close> when an own property hides the function.\<close>

definition hasOwnProperty :: "server \<Rightarrow> string \<Rightarrow> bool option" where
  "hasOwnProperty s key =
     (if map_of (peerObjects s) ''hasOwnProperty'' \<noteq> None then None
      else Some (map_of (peerObjects s) key \<noteq> None))"

definition assign :: "string \<Rightarrow> nat \<Rightarrow> server \<Rightarrow> server" where
  "assign key c s =
     (if key = ''__proto__'' then s\<lparr>proto := Some c\<rparr>
      else s\<lparr>peerObjects := js_put key c (peerObjects s)\<rparr>)"

text \<open>\<open>indexOf\<close> of a character, \<open>substring\<close> and \<open>split(":")\<close>.\<close>

fun indexOf :: "char \<Rightarrow> string \<Rightarrow> int" where
  "indexOf c [] = -1"
| "indexOf c (d # s) = (if c = d then 0 else let i = indexOf c s in if i < 0 then -1 else i + 1)"

definition js_substring :: "int \<Rightarrow> int \<Rightarrow> string \<Rightarrow> string" where
  "js_substring a b s =
     (let a = min (max a 0) (int (length s)); b = min (max b 0) (int (length s))
      in take (nat (max a b - min a b)) (drop (nat (min a b)) s))"

fun js_split :: "string \<Rightarrow> string list" where
  "js_split [] = [[]]"
| "js_split (c # s) =
     (if c = CHR '':'' then [] # js_split s
      else (case js_split s of w # ws \<Rightarrow> (c # w) # ws | [] \<Rightarrow> [[c]]))"

definition js_word :: "string list \<Rightarrow> nat \<Rightarrow> js_id" where
  "js_word words i = (if i < length words then Str (words ! i) else Undefined)"

section \<open>Handlers\<close>

text \<open>The loop that sends the online list to the new peer.\<close>

fun online_list :: "server \<Rightarrow> nat \<Rightarrow> js_prop list \<Rightarrow> unit run" where
  "online_list s c [] = (Some (), [])"
| "online_list s c (Own d # ps) =
     then_run (Some (), [Write c (''<online:'' @ js_str (pid (peers s d)) @ ''>'')])
       (\<lambda>_. online_list s c ps)"
| "online_list s c (Inherited k # ps) =
     (if k = ''pid'' \<and> (case proto s of Some d \<Rightarrow> pid (peers s d) \<in> {Null, Undefined} | None \<Rightarrow> False)
      then (None, [])
      else then_run (Some (), [Write c ''<online:undefined>'']) (\<lambda>_. online_list s c ps))"

text \<open>The loops that tell all the others.\<close>

fun tell_all :: "string \<Rightarrow> js_prop list \<Rightarrow> unit run" where
  "tell_all xml [] = (Some (), [])"
| "tell_all xml (Own d # ps) = then_run (Some (), [Write d xml]) (\<lambda>_. tell_all xml ps)"
| "tell_all xml (Inherited k # ps) = (None, [])"

definition dialog_login :: "server \<Rightarrow> nat \<Rightarrow> string list \<Rightarrow> server run" where
  "dialog_login s c words =
     (let id' = js_word words 1;
          s = set_peer c ((peers s c)\<lparr>pid := id'\<rparr>) s
      in case hasOwnProperty s (js_str id') of
           None \<Rightarrow> (None, [])
         | Some True \<Rightarrow> (Some s, [End c])
         | Some False \<Rightarrow>
             then_run (online_list s c (for_in s)) (\<lambda>_.
             then_run (tell_all (''<login:'' @ js_str id' @ ''>'') (for_in s)) (\<lambda>_.
             (Some (assign (js_str id') c s), []))))"

definition dialog_send :: "server \<Rightarrow> nat \<Rightarrow> string list \<Rightarrow> server run" where
  "dialog_send s c words =
     (if pid (peers s c) \<in> {Null, Undefined} then (Some s, [])
      else
        let remote = js_str (js_word words 1) in
        case hasOwnProperty s remote of
          None \<Rightarrow> (None, [])
        | Some True \<Rightarrow>
            (Some s, [Write (the (map_of (peerObjects s) remote))
               (''<message:'' @ js_str (pid (peers s c)) @ concat (map (\<lambda>w. '':'' @ w) (drop 2 words)) @ ''>'')])
        | Some False \<Rightarrow> (Some s, []))"

definition dialog_words :: "string \<Rightarrow> string list" where
  "dialog_words w =
     (let wordBegin = indexOf CHR ''<'' w; wordEnd = indexOf CHR ''>'' w
      in js_split (js_substring (wordBegin + 1) wordEnd w))"

definition processDialog :: "server \<Rightarrow> nat \<Rightarrow> server run" where
  "processDialog s c =
     (let words = dialog_words (xmlWord (peers s c)) in
      if words ! 0 = ''login'' then dialog_login s c words
      else if words ! 0 = ''send'' then dialog_send s c words
      else (Some s, []))"

definition onAccept :: "server \<Rightarrow> nat \<Rightarrow> string \<Rightarrow> nat \<Rightarrow> server" where
  "onAccept s c remoteAddress remotePort =
     set_peer c \<lparr>pid = Null, xmlWord = [], sid = remoteAddress @ dec_of_nat remotePort\<rparr> s"

definition onClose :: "server \<Rightarrow> nat \<Rightarrow> server run" where
  "onClose s c =
     (let key = js_str (pid (peers s c)) in
      case hasOwnProperty s key of
        None \<Rightarrow> (None, [])
      | Some False \<Rightarrow> (Some s, [])
      | Some True \<Rightarrow>
          if sid (peers s c) \<noteq> sid (peers s (the (map_of (peerObjects s) key))) then (Some s, [])
          else
            let s = s\<lparr>peerObjects := js_delete key (peerObjects s)\<rparr> in
            then_run (tell_all (''<offline:'' @ key @ ''>'') (for_in s)) (\<lambda>_. (Some s, [])))"

definition set_word :: "nat \<Rightarrow> string \<Rightarrow> server \<Rightarrow> server" where
  "set_word c w s = set_peer c ((peers s c)\<lparr>xmlWord := w\<rparr>) s"

fun onData :: "server \<Rightarrow> nat \<Rightarrow> string \<Rightarrow> server run" where
  "onData s c [] = (Some s, [])"
| "onData s c (x # d) =
     (let s = set_word c (xmlWord (peers s c) @ [x]) s in
      if x = CHR ''>''
      then then_run (processDialog s c) (\<lambda>s. onData (set_word c [] s) c d)
      else onData s c d)"

end
