(* ===== verification/Dialog_Server_Props.thy ===== *)
theory Dialog_Server_Props
  imports Dialog_Server Peer
begin

text \<open>
  Properties of the dialog server: the parser it shares with the client through
  \<open>sentence_parser\<close>, its reading loop, what a login, a message and a disconnection do, and the
  invariants of its runs.
\<close>

section \<open>Parsing\<close>

lemma js_split_nonempty [simp]: "js_split s \<noteq> []"
  by (cases s) (auto split: list.split)

lemma js_split_word: "CHR '':'' \<notin> set w \<Longrightarrow> js_split (w @ s) = (w @ hd (js_split s)) # tl (js_split s)"
proof (induction w)
  case Nil
  then show ?case by simp
next
  case (Cons c w)
  then show ?case by (auto split: list.split)
qed

lemma js_split_tail: "list_all clean ws \<Longrightarrow> js_split (tail ws) = [] # ws"
  by (induction ws) (auto simp: js_split_word clean_def)

lemma js_split_join:
  "clean w \<Longrightarrow> list_all clean ws \<Longrightarrow> js_split (w @ tail ws) = w # ws"
  by (simp add: js_split_word js_split_tail clean_def)

lemma indexOf_append: "c \<notin> set s \<Longrightarrow> indexOf c (s @ c # t) = int (length s)"
  by (induction s) (auto simp: Let_def)

lemma js_substring_inner: "js_substring 1 (int (Suc (length s))) (x # s @ t) = s"
  by (simp add: js_substring_def Let_def min_def)

interpretation server_words: sentence_parser dialog_words
proof
  fix ws :: "string list"
  assume c: "list_all clean ws" and ne: "ws \<noteq> []"
  obtain w us where ws: "ws = w # us" using ne by (cases ws) auto
  let ?s = "w @ tail us"
  have "CHR ''>'' \<notin> set ?s" using c no_end_in_tail [of us] by (auto simp: ws clean_def)
  then have "indexOf CHR ''>'' (sentence ws) = int (Suc (length ?s))"
    using indexOf_append [of "CHR ''>''" "CHR ''<'' # ?s" "[]"] by (simp add: ws sentence_Cons)
  moreover have "indexOf CHR ''<'' (sentence ws) = 0" by (simp add: ws sentence_Cons)
  moreover have "sentence ws = CHR ''<'' # ?s @ [CHR ''>'']" by (simp add: ws sentence_Cons)
  ultimately have "dialog_words (sentence ws) = js_split ?s"
    using js_substring_inner [of ?s "CHR ''<''" "[CHR ''>'']"] by (simp add: dialog_words_def Let_def)
  then show "dialog_words (sentence ws) = ws" using c by (simp add: ws js_split_join)
qed

section \<open>The reading loop\<close>

lemma then_run_simps [simp]:
  "then_run (None, out) f = (None, out)"
  "then_run (Some s, out) f = (fst (f s), out @ snd (f s))"
  by (simp_all add: then_run_def case_prod_unfold Let_def)

lemma then_run_assoc: "then_run (then_run r f) g = then_run r (\<lambda>s. then_run (f s) g)"
  by (cases r; cases "fst r"; cases "fst (f (the (fst r)))")
    (auto simp: then_run_def Let_def split: prod.splits option.splits)

lemma onData_append: "onData s c (d @ e) = then_run (onData s c d) (\<lambda>s. onData s c e)"
proof (induction d arbitrary: s)
  case Nil
  then show ?case by (simp add: prod_eq_iff)
next
  case (Cons x d)
  then show ?case by (simp add: Let_def then_run_assoc)
qed

fun onData_all :: "server \<Rightarrow> nat \<Rightarrow> string list \<Rightarrow> server run" where
  "onData_all s c [] = (Some s, [])"
| "onData_all s c (d # ds) = then_run (onData s c d) (\<lambda>s. onData_all s c ds)"

lemma onData_all_concat: "onData_all s c ds = onData s c (concat ds)"
  by (induction ds arbitrary: s) (simp_all add: onData_append)

lemma set_word_simps [simp]:
  "xmlWord (peers (set_word c w s) c) = w"
  "pid (peers (set_word c w s) d) = pid (peers s d)"
  "sid (peers (set_word c w s) d) = sid (peers s d)"
  "peerObjects (set_word c w s) = peerObjects s"
  "proto (set_word c w s) = proto s"
  "set_word c v (set_word c w s) = set_word c v s"
  "d \<noteq> c \<Longrightarrow> xmlWord (peers (set_word c w s) d) = xmlWord (peers s d)"
  by (simp_all add: set_word_def set_peer_def)

lemma set_word_objects: "set_word c w (s\<lparr>peerObjects := m\<rparr>) = (set_word c w s)\<lparr>peerObjects := m\<rparr>"
  by (simp add: set_word_def set_peer_def)

lemma onData_buffer:
  "CHR ''>'' \<notin> set d \<Longrightarrow> d \<noteq> [] \<Longrightarrow> onData s c d = (Some (set_word c (xmlWord (peers s c) @ d) s), [])"
proof (induction d arbitrary: s)
  case (Cons x d)
  then show ?case by (cases "d = []") (auto simp: Let_def)
qed simp

text \<open>A whole sentence arriving on an empty buffer.\<close>

lemma onData_sentence:
  assumes "list_all clean ws" and "ws \<noteq> []" and "xmlWord (peers s c) = []"
  shows "onData s c (sentence ws) =
    then_run (processDialog (set_word c (sentence ws) s) c) (\<lambda>s. (Some (set_word c [] s), []))"
proof -
  let ?b = "CHR ''<'' # hd ws @ tail (tl ws)"
  have b: "CHR ''>'' \<notin> set ?b"
    using assms no_end_in_tail [of "tl ws"] by (cases ws) (auto simp: clean_def)
  have s: "sentence ws = ?b @ ''>''" by (simp add: sentence_def)
  show ?thesis
    unfolding s onData_append
    using onData_buffer [OF b, of s c] assms(3) by (simp add: Let_def)
qed

section \<open>States without a hidden function or a replaced prototype\<close>

definition plain :: "server \<Rightarrow> bool" where
  "plain s \<longleftrightarrow> proto s = None \<and> map_of (peerObjects s) ''hasOwnProperty'' = None \<and> js_wf (peerObjects s)"

lemma set_own_keys: "set (own_keys m) = fst ` set m"
  by (auto simp: own_keys_def)

lemma distinct_own_keys: "js_wf m \<Longrightarrow> distinct (own_keys m)"
  by (auto simp: own_keys_def js_wf_def distinct_map_filter)

lemma own_keys_values:
  assumes "js_wf m"
  shows "(\<lambda>k. the (map_of m k)) ` set (own_keys m) = snd ` set m"
proof -
  have "the (map_of m (fst e)) = snd e" if "e \<in> set m" for e
    using that js_object.entry_iff [OF assms, of "fst e" "snd e"] by simp
  then show ?thesis unfolding set_own_keys image_image by (auto intro!: image_cong)
qed

definition others :: "server \<Rightarrow> nat list" where
  "others s = map (\<lambda>k. the (map_of (peerObjects s) k)) (own_keys (peerObjects s))"

lemma set_others: "plain s \<Longrightarrow> set (others s) = snd ` set (peerObjects s)"
  by (simp add: others_def own_keys_values plain_def)

lemma for_in_plain: "plain s \<Longrightarrow> for_in s = map Own (others s)"
  by (simp add: for_in_def others_def plain_def)

lemma tell_all_own [simp]: "tell_all xml (map Own ds) = (Some (), map (\<lambda>d. Write d xml) ds)"
  by (induction ds) simp_all

lemma online_list_own [simp]:
  "online_list s c (map Own ds) =
     (Some (), map (\<lambda>d. Write c (''<online:'' @ js_str (pid (peers s d)) @ ''>'')) ds)"
  by (induction ds) simp_all

lemma plain_set_peer [simp]: "plain (set_peer c q s) = plain s"
  by (simp add: plain_def set_peer_def)

lemma plain_set_word [simp]: "plain (set_word c w s) = plain s"
  by (simp add: plain_def)

lemma others_set_peer [simp]: "others (set_peer c q s) = others s"
  by (simp add: others_def set_peer_def)

lemma hasOwnProperty_plain:
  "plain s \<Longrightarrow> hasOwnProperty s k = Some (k \<in> fst ` set (peerObjects s))"
proof -
  have "map_of m k \<noteq> None \<longleftrightarrow> k \<in> fst ` set m" for m :: "(string \<times> nat) list"
    by (metis map_of_eq_None_iff)
  then show "plain s \<Longrightarrow> ?thesis" by (simp add: hasOwnProperty_def plain_def)
qed

section \<open>Logins, messages and disconnections\<close>

lemma clean_keywords: "clean ''login''" "clean ''send''" "clean ''message''" "clean ''online''" "clean ''offline''"
  by (simp_all add: clean_def)

lemma concat_tail [simp]: "concat (map ((@) '':'') ws) = tail ws"
  by (induction ws) auto

lemma processDialog_sentence:
  assumes "list_all clean ws" and "ws \<noteq> []"
  shows "processDialog (set_word c (sentence ws) s) c =
    (if ws ! 0 = ''login'' then dialog_login (set_word c (sentence ws) s) c ws
     else if ws ! 0 = ''send'' then dialog_send (set_word c (sentence ws) s) c ws
     else (Some (set_word c (sentence ws) s), []))"
  using server_words.parse_sentence [OF assms] by (simp add: processDialog_def Let_def)

lemma onData_login:
  assumes "clean i" and "xmlWord (peers s c) = []"
  shows "onData s c (sentence [''login'', i]) = then_run
    (dialog_login (set_word c (sentence [''login'', i]) s) c [''login'', i])
    (\<lambda>s. (Some (set_word c [] s), []))"
  using assms onData_sentence [of "[''login'', i]" s c] processDialog_sentence [of "[''login'', i]" c s]
  by (simp add: clean_keywords)

definition logged_in :: "nat \<Rightarrow> js_id \<Rightarrow> server \<Rightarrow> server" where
  "logged_in c i s = set_peer c ((peers s c)\<lparr>pid := i, xmlWord := []\<rparr>) s"

lemma logged_in_simps [simp]:
  "peerObjects (logged_in c i s) = peerObjects s" "proto (logged_in c i s) = proto s"
  "pid (peers (logged_in c i s) d) = (if d = c then i else pid (peers s d))"
  "xmlWord (peers (logged_in c i s) d) = (if d = c then [] else xmlWord (peers s d))"
  "sid (peers (logged_in c i s) d) = sid (peers s d)"
  "plain (logged_in c i s) = plain s"
  by (simp_all add: logged_in_def set_peer_def plain_def)

lemma login_result:
  assumes "plain s" and "clean i" and "xmlWord (peers s c) = []" and "c \<notin> snd ` set (peerObjects s)"
    and "i \<noteq> ''__proto__''"
  shows "onData s c (sentence [''login'', i]) =
    (if i \<in> fst ` set (peerObjects s) then (Some (logged_in c (Str i) s), [End c])
     else (Some ((logged_in c (Str i) s)\<lparr>peerObjects := peerObjects s @ [(i, c)]\<rparr>),
       map (\<lambda>d. Write c (sentence [''online'', js_str (pid (peers s d))])) (others s) @
       map (\<lambda>d. Write d (sentence [''login'', i])) (others s)))"
proof -
  define r where "r = set_word c (sentence [''login'', i]) s"
  define t where "t = set_peer c ((peers r c)\<lparr>pid := Str i\<rparr>) r"
  have t: "plain t" "peerObjects t = peerObjects s" "others t = others s" "set_word c [] t = logged_in c (Str i) s"
    using assms(1) by (simp_all add: t_def r_def others_def set_peer_def set_word_def logged_in_def plain_def)
  have d: "pid (peers t d) = pid (peers s d)" if "d \<in> set (others s)" for d
    using that assms(1,4) by (auto simp: t_def r_def set_peer_def set_others)
  have "dialog_login r c [''login'', i] =
    (if i \<in> fst ` set (peerObjects s) then (Some t, [End c])
     else (Some (assign i c t), map (\<lambda>d. Write c (sentence [''online'', js_str (pid (peers s d))])) (others s) @
       map (\<lambda>d. Write d (sentence [''login'', i])) (others s)))"
    using d by (auto simp: dialog_login_def js_word_def Let_def t_def [symmetric] for_in_plain [OF t(1)]
        hasOwnProperty_plain [OF t(1)] t(2,3) sentence_def)
  then show ?thesis
    using onData_login [OF assms(2,3), folded r_def] assms(5) t
    by (auto simp: assign_def js_put_new set_word_objects)
qed

lemma send_result:
  assumes "plain s" and "list_all clean (b # msg)" and "xmlWord (peers s c) = []"
  shows "onData s c (sentence (''send'' # b # msg)) = (Some s,
    (case pid (peers s c) of
       Str a \<Rightarrow> (case map_of (peerObjects s) b of
                   Some d \<Rightarrow> [Write d (sentence (''message'' # a # msg))] | None \<Rightarrow> [])
     | _ \<Rightarrow> []))"
proof -
  define ws t where "ws = ''send'' # b # msg" and "t = set_word c (sentence ws) s"
  have c: "list_all clean ws" "ws \<noteq> []" using assms(2) by (simp_all add: ws_def clean_keywords)
  have t: "plain t" "peerObjects t = peerObjects s" "pid (peers t c) = pid (peers s c)" "set_word c [] t = s"
    using assms(1,3) by (simp_all add: t_def) (simp add: set_word_def set_peer_def fun_upd_idem)
  have "onData s c (sentence ws) = then_run (dialog_send t c ws) (\<lambda>s. (Some (set_word c [] s), []))"
    using onData_sentence [OF c assms(3)] processDialog_sentence [OF c, of c s] by (simp add: ws_def t_def)
  moreover have "dialog_send t c ws = (Some t,
    (case pid (peers s c) of
       Str a \<Rightarrow> (case map_of (peerObjects s) b of
                   Some d \<Rightarrow> [Write d (sentence (''message'' # a # msg))] | None \<Rightarrow> [])
     | _ \<Rightarrow> []))"
  proof (cases "pid (peers s c)")
    case (Str a)
    have "hasOwnProperty t b = Some (map_of (peerObjects s) b \<noteq> None)"
      using t(1,2) by (simp add: hasOwnProperty_def plain_def)
    then show ?thesis
      using Str by (auto simp: dialog_send_def js_word_def Let_def ws_def t sentence_def split: option.split)
  qed (simp_all add: dialog_send_def t)
  ultimately show ?thesis by (simp add: ws_def t)
qed

text \<open>A login with an id nobody holds registers the connection under it, sends the newcomer
  one \<open>online\<close> sentence for every registered peer, in the order of \<open>for in\<close>, and then tells each
  of them of the login; nothing else is sent and no other entry changes.\<close>

lemma login_announces:
  assumes "plain s" and "clean i" and "xmlWord (peers s c) = []" and "c \<notin> snd ` set (peerObjects s)"
    and "i \<noteq> ''__proto__''" and "i \<notin> fst ` set (peerObjects s)"
  shows "\<exists>s'. onData s c (sentence [''login'', i]) = (Some s',
      map (\<lambda>d. Write c (sentence [''online'', js_str (pid (peers s d))])) (others s) @
      map (\<lambda>d. Write d (sentence [''login'', i])) (others s)) \<and>
    peerObjects s' = peerObjects s @ [(i, c)] \<and> pid (peers s' c) = Str i \<and>
    (\<forall>d. d \<noteq> c \<longrightarrow> peers s' d = peers s d)"
  using login_result [OF assms(1-5)] assms(6) by (simp add: logged_in_def set_peer_def)

definition some_server :: server where
  "some_server = \<lparr>peers = (\<lambda>c. if c = 1 then \<lparr>pid = Str ''bob'', xmlWord = [], sid = ''10.0.0.14000''\<rparr>
     else \<lparr>pid = Null, xmlWord = [], sid = []\<rparr>), peerObjects = [(''bob'', 1)], proto = None\<rparr>"

text \<open>A login with an id that is taken ends the newcomer's socket and leaves the table as it
  is. The newcomer's object nevertheless keeps the id, so that a message it still sends is relayed
  under the name of the peer that holds the id.\<close>

lemma login_taken:
  assumes "plain s" and "clean i" and "xmlWord (peers s c) = []" and "c \<notin> snd ` set (peerObjects s)"
    and "i \<noteq> ''__proto__''" and "i \<in> fst ` set (peerObjects s)"
    and "map_of (peerObjects s) b = Some d" and "list_all clean (b # msg)"
  shows "\<exists>s'. onData s c (sentence [''login'', i]) = (Some s', [End c]) \<and>
    peerObjects s' = peerObjects s \<and>
    onData s' c (sentence (''send'' # b # msg)) = (Some s', [Write d (sentence (''message'' # i # msg))])"
  using login_result [OF assms(1-5)] assms(6,7)
    send_result [of "logged_in c (Str i) s" b msg c] assms(1,8) by simp



end
