(* ===== verification/Prober_Props.thy ===== *)
theory Prober_Props
  imports Prober Dialog_Server_Props
begin

text \<open>
  What a connected prober does with the outputs of its session and with a sentence of the server,
  and the way of a session message from one prober to the other.
\<close>

section \<open>Reactions to the session\<close>

definition connected :: "'f IceProber \<Rightarrow> bool" where
  "connected p \<longleftrightarrow> isOnline (prober_peer p) \<and> sock (prober_peer p) \<and> xmlBuffer (prober_peer p) = []"

fun pp_str :: "pp_type \<Rightarrow> string option" where
  "pp_str PPMSG_SESSION_INITIATE = Some ''pp_initiate''"
| "pp_str PPMSG_SESSION_ACCEPT = Some ''pp_accept''"
| "pp_str PPMSG_TRANSPORT_INFO = Some ''pp_transport''"
| "pp_str _ = None"

definition body :: "PPMessage \<Rightarrow> string list" where
  "body m = the (pp_str (msg_type m)) # argvs m"

fun reaction :: "'f IceProber \<Rightarrow> 'f s_out \<Rightarrow> 'f p_out list" where
  "reaction p (SignalOutgoingMessage m) =
     (if pp_str (msg_type m) = None then []
      else let text = sentence (''send'' # remote_name p # body m)
           in [From_Peer (Sock_Send text), Print (CHR 0x09 # ''===>: '' @ text)])"
| "reaction p (SignalStateChanged st) =
     (if st = STATE_RECEIVEDINITIATE then (if content_name (the (session p)) = content then [Post_DO_ACCEPT] else [])
      else if st = STATE_INPROGRESS then [Print ''Session is established!''] else [])"
| "reaction p SignalTimeout = snd (onSessionTimeout p)"
| "reaction p SignalSessionRequestSignaling = map From_Session (sess_OnSignalingReady (the (session p)))"
| "reaction p x = [From_Session x]"

lemma session_signal_reaction:
  assumes "connected p" and "session p = Some s"
  shows "session_signal x p = Some (p, reaction p x)"
proof (cases x)
  case (SignalOutgoingMessage m)
  then show ?thesis using assms SendMessage_sentence [of "prober_peer p" "remote_name p"]
    by (cases "msg_type m") (simp_all add: onOutgoingMessage_def connected_def body_def Let_def)
next
  case (SignalStateChanged st)
  then show ?thesis using assms(2) by (cases st) (simp_all add: onStateChanged_def)
qed (simp_all add: assms(2) onSignalRequest_def onSessionTimeout_def)

lemma run_session_signal:
  assumes "connected p" and "session p = Some s"
  shows "run session_signal out p = Some (p, concat (map (reaction p) out))"
  by (induction out) (simp_all add: session_signal_reaction [OF assms])

lemma session_call_reactions:
  assumes "connected p" and "session p = Some s" and "session_step e x s = Some (s', out)"
  shows "session_call e x p = Some (p\<lparr>session := Some s'\<rparr>, concat (map (reaction (p\<lparr>session := Some s'\<rparr>)) out))"
  using assms run_session_signal [of "p\<lparr>session := Some s'\<rparr>" s' out] by (simp add: session_call_def connected_def)

section \<open>What it sends and posts\<close>

fun messages_of :: "'f s_out list \<Rightarrow> PPMessage list" where
  "messages_of [] = []"
| "messages_of (SignalOutgoingMessage m # out) = m # messages_of out"
| "messages_of (_ # out) = messages_of out"

fun sends :: "'f p_out list \<Rightarrow> string list" where
  "sends [] = []"
| "sends (From_Peer (Sock_Send t) # out) = t # sends out"
| "sends (_ # out) = sends out"

fun is_post :: "'f p_out \<Rightarrow> bool" where
  "is_post Post_DO_INITIATE = True"
| "is_post Post_DO_ACCEPT = True"
| "is_post (From_Session Post_STATE) = True"
| "is_post _ = False"

lemma sends_append [simp]: "sends (a @ b) = sends a @ sends b"
  by (induction a rule: sends.induct) simp_all

lemma messages_append [simp]: "messages_of (a @ b) = messages_of a @ messages_of b"
  by (induction a rule: messages_of.induct) simp_all

lemma messages_transport [simp]: "messages_of (map (On_Transport c) out) = []"
  by (induction out) simp_all

lemma sends_session [simp]: "sends (map From_Session out) = []"
  by (induction out) simp_all

lemma signaling_ready_no_post [simp]: "filter is_post (map From_Session (sess_OnSignalingReady s)) = []"
  by (auto simp: filter_empty_conv sess_OnSignalingReady_def)

lemma sends_reactions:
  "sends (concat (map (reaction p) out)) =
    map (\<lambda>m. sentence (''send'' # remote_name p # body m)) (filter (\<lambda>m. pp_str (msg_type m) \<noteq> None) (messages_of out))"
proof (induction out)
  case (Cons x out)
  then show ?case by (cases x) (auto simp: Let_def onSessionTimeout_def)
qed simp

text \<open>Only signaling outputs make the prober post.\<close>

lemma posts_reactions:
  "filter is_post (concat (map (reaction p) out)) = filter is_post (concat (map (reaction p) (filter is_signaling out)))"
proof (induction out)
  case (Cons x out)
  then show ?case by (cases x) (auto simp: Let_def onSessionTimeout_def)
qed simp

section \<open>Reading\<close>

lemma sentence_nonempty [simp]: "sentence ws \<noteq> []"
  by (simp add: sentence_def)

lemma prober_read_sentence:
  assumes "connected p" and "list_all clean (k # w # ws)"
  shows "prober_read e (sentence (k # w # ws)) p =
    run (peer_signal e) (SignalPrintString (CHR 0x09 # ''<===: '' @ takeWhile (\<lambda>c. c \<noteq> CHR 0x00) (sentence (k # w # ws))) #
      the (signals_of (sentence (k # w # ws)))) p"
proof -
  have "onReadEvent_loop (prober_peer p) (sentence (k # w # ws)) =
      Some (prober_peer p, the (signals_of (sentence (k # w # ws))))"
    using assms frames_sentence [OF assms(2)] signals_of_sentence [OF assms(2)]
    by (simp add: onReadEvent_loop_frames connected_def)
  then show ?thesis using assms(1) by (simp add: prober_read_def onReadEvent_def connected_def)
qed

lemma onRemoteMessage_body:
  "pp_str (msg_type m) \<noteq> None \<Longrightarrow> onRemoteMessage e a (body m) p = session_call e (Call_Incoming m) p"
  by (cases m; cases "msg_type m") (simp_all add: onRemoteMessage_def body_def Let_def)

lemma clean_pp_str [simp]: "pp_str ty = Some t \<Longrightarrow> clean t"
  by (cases ty) (auto simp: clean_def)

lemma prober_read_message:
  assumes "connected p" and "clean a" and "pp_str (msg_type m) \<noteq> None" and "list_all clean (argvs m)"
    and "session_call e (Call_Incoming m) p = Some (p', out)"
  shows "prober_read e (sentence (''message'' # a # body m)) p = Some (p',
    Print (CHR 0x09 # ''<===: '' @ takeWhile (\<lambda>c. c \<noteq> CHR 0x00) (sentence (''message'' # a # body m))) # out)"
proof -
  have c: "list_all clean (''message'' # a # body m)"
    using assms(2-4) by (auto simp: body_def clean_keywords)
  show ?thesis
    using assms(5) unfolding prober_read_sentence [OF assms(1) c]
    by (simp add: signals_of_sentence [OF c] onRemoteMessage_body [OF assms(3)])
qed

section \<open>From session to session\<close>


definition some_prober :: "string \<Rightarrow> int IceProber" where
  "some_prober remote = \<lparr>session = Some (new_PPSession ''iceprober'' True), prober_peer = connected_peer, targetChannel = False,
     output_open = True, remote_online = False, my_name = ''ann'', remote_name = remote\<rparr>"

definition some_message :: PPMessage where
  "some_message = \<lparr>msg_type = PPMSG_SESSION_INITIATE, argvs = [''data'']\<rparr>"


end
