(* ===== verification/Dialog_Presence.thy ===== *)
theory Dialog_Presence
  imports Dialog_Server_Props
begin

text \<open>
  What the clients can know from the server's sentences: in a run in which every connection logs
  in at most once, the set of ids a client computes from the \<open>online\<close>, \<open>login\<close> and \<open>offline\<close>
  signals of its \<open>Peer\<close> is, at every moment, the set of the other registered ids. The run is an
  inductive relation between the set of open connections, the server and the clients' views.
\<close>

section \<open>Views\<close>

fun see :: "peer_out \<Rightarrow> string set \<Rightarrow> string set" where
  "see (SignalRemoteOnline x) V = insert x V"
| "see (SignalRemoteLogin x) V = insert x V"
| "see (SignalRemoteOffline x) V = V - {x}"
| "see _ V = V"

fun watch :: "wire list \<Rightarrow> nat \<Rightarrow> string set \<Rightarrow> string set" where
  "watch [] d V = V"
| "watch (Write e xml # out) d V =
     watch out d (if e = d then fold see (the (signals_of xml)) V else V)"
| "watch (End e # out) d V = watch out d V"

lemma watch_append [simp]: "watch (xs @ ys) d V = watch ys d (watch xs d V)"
  by (induction xs d V rule: watch.induct) simp_all

lemma signals_of_presence [simp]:
  assumes "clean k"
  shows "signals_of (sentence [''online'', k]) = Some [SignalRemoteOnline k]"
    and "signals_of (sentence [''login'', k]) = Some [SignalRemoteLogin k]"
    and "signals_of (sentence [''offline'', k]) = Some [SignalRemoteOffline k]"
  using assms signals_of_sentence [of "''online''" k "[]"] signals_of_sentence [of "''login''" k "[]"]
    signals_of_sentence [of "''offline''" k "[]"] by (simp_all add: clean_keywords)

lemma see_idem: "see x (see x V) = see x V"
  by (cases x) auto

lemma watch_broadcast:
  "signals_of xml = Some [x] \<Longrightarrow>
    watch (map (\<lambda>d. Write d xml) ds) e V = (if e \<in> set ds then see x V else V)"
  by (induction ds arbitrary: V) (auto simp: see_idem)

lemma watch_list:
  "list_all clean ks \<Longrightarrow>
    watch (map (\<lambda>k. Write c (sentence [''online'', k])) ks) d V = (if d = c then set ks \<union> V else V)"
  by (induction ks arbitrary: V) auto

section \<open>Runs\<close>

definition start_server :: server where
  "start_server = \<lparr>peers = (\<lambda>_. \<lparr>pid = Null, xmlWord = [], sid = []\<rparr>), peerObjects = [], proto = None\<rparr>"

inductive dialog :: "nat set \<Rightarrow> server \<Rightarrow> (nat \<Rightarrow> string set) \<Rightarrow> bool" where
  start: "dialog {} start_server (\<lambda>_. {})"
| accept: "dialog A s V \<Longrightarrow> c \<notin> A \<Longrightarrow>
    (\<And>d. d \<in> A \<Longrightarrow> sid (peers s d) \<noteq> address @ dec_of_nat port) \<Longrightarrow>
    dialog (insert c A) (onAccept s c address port) (V(c := {}))"
| login: "dialog A s V \<Longrightarrow> c \<in> A \<Longrightarrow> pid (peers s c) = Null \<Longrightarrow> clean i \<Longrightarrow>
    i \<noteq> ''__proto__'' \<Longrightarrow> i \<noteq> ''hasOwnProperty'' \<Longrightarrow>
    onData s c (sentence [''login'', i]) = (Some s', out) \<Longrightarrow> dialog A s' (\<lambda>d. watch out d (V d))"
| send: "dialog A s V \<Longrightarrow> c \<in> A \<Longrightarrow> list_all clean (b # msg) \<Longrightarrow>
    onData s c (sentence (''send'' # b # msg)) = (Some s', out) \<Longrightarrow> dialog A s' (\<lambda>d. watch out d (V d))"
| close: "dialog A s V \<Longrightarrow> c \<in> A \<Longrightarrow> onClose s c = (Some s', out) \<Longrightarrow>
    dialog (A - {c}) s' (\<lambda>d. watch out d (V d))"

section \<open>The invariant\<close>

definition entry_ok :: "nat set \<Rightarrow> server \<Rightarrow> (nat \<Rightarrow> string set) \<Rightarrow> bool" where
  "entry_ok A s V \<longleftrightarrow> (\<forall>(k, c) \<in> set (peerObjects s).
     c \<in> A \<and> pid (peers s c) = Str k \<and> V c = fst ` set (peerObjects s) - {k})"

definition conn_ok :: "nat set \<Rightarrow> server \<Rightarrow> (nat \<Rightarrow> string set) \<Rightarrow> bool" where
  "conn_ok A s V \<longleftrightarrow> (\<forall>c \<in> A. xmlWord (peers s c) = [] \<and>
     (case pid (peers s c) of Null \<Rightarrow> V c = {} | Undefined \<Rightarrow> False | Str k \<Rightarrow> clean k))"

definition dialog_inv :: "nat set \<Rightarrow> server \<Rightarrow> (nat \<Rightarrow> string set) \<Rightarrow> bool" where
  "dialog_inv A s V \<longleftrightarrow> plain s \<and> entry_ok A s V \<and> conn_ok A s V \<and> inj_on (\<lambda>c. sid (peers s c)) A"

lemma entryD:
  assumes "entry_ok A s V" and "(k, c) \<in> set (peerObjects s)"
  shows "c \<in> A" and "pid (peers s c) = Str k" and "V c = fst ` set (peerObjects s) - {k}"
proof -
  have "case (k, c) of (k, c) \<Rightarrow> c \<in> A \<and> pid (peers s c) = Str k \<and> V c = fst ` set (peerObjects s) - {k}"
    using assms unfolding entry_ok_def by (rule bspec)
  then show "c \<in> A" and "pid (peers s c) = Str k" and "V c = fst ` set (peerObjects s) - {k}"
    by simp_all
qed

lemma entry_okI:
  assumes "\<And>k c. (k, c) \<in> set (peerObjects s) \<Longrightarrow>
    c \<in> A \<and> pid (peers s c) = Str k \<and> V c = fst ` set (peerObjects s) - {k}"
  shows "entry_ok A s V"
  unfolding entry_ok_def using assms by (intro ballI) (auto simp only: split_paired_all prod.case)

lemma entry_ok_transfer:
  assumes "entry_ok A s V" and "peerObjects s' = peerObjects s"
    and "\<And>k c. (k, c) \<in> set (peerObjects s) \<Longrightarrow> c \<in> A \<Longrightarrow>
      c \<in> A' \<and> pid (peers s' c) = pid (peers s c) \<and> V' c = V c"
  shows "entry_ok A' s' V'"
proof (rule entry_okI)
  fix k c assume "(k, c) \<in> set (peerObjects s')"
  then have e: "(k, c) \<in> set (peerObjects s)" by (simp add: assms(2))
  show "c \<in> A' \<and> pid (peers s' c) = Str k \<and> V' c = fst ` set (peerObjects s') - {k}"
    using entryD [OF assms(1) e] assms(3) [OF e] by (simp add: assms(2))
qed

lemma connD:
  assumes "conn_ok A s V" and "c \<in> A"
  shows "xmlWord (peers s c) = []" and "pid (peers s c) = Null \<Longrightarrow> V c = {}"
    and "pid (peers s c) \<noteq> Undefined" and "pid (peers s c) = Str k \<Longrightarrow> clean k"
  using assms by (auto simp: conn_ok_def split: js_id.splits)

lemma null_not_registered:
  "entry_ok A s V \<Longrightarrow> pid (peers s c) = Null \<Longrightarrow> c \<notin> snd ` set (peerObjects s)"
  by (auto dest: entryD)

lemma registered_keys:
  assumes "plain s" and "entry_ok A s V"
  shows "map (\<lambda>d. js_str (pid (peers s d))) (others s) = own_keys (peerObjects s)"
proof -
  have "js_str (pid (peers s (the (map_of (peerObjects s) k)))) = k" if "k \<in> fst ` set (peerObjects s)" for k
  proof -
    from that obtain d where e: "(k, d) \<in> set (peerObjects s)" by auto
    then have "map_of (peerObjects s) k = Some d"
      using assms(1) by (simp add: plain_def js_object.entry_iff)
    then show ?thesis using entryD(2) [OF assms(2) e] by simp
  qed
  then show ?thesis by (auto simp: others_def set_own_keys intro!: map_idI)
qed

lemma keys_clean:
  assumes "entry_ok A s V" and "conn_ok A s V"
  shows "list_all clean (own_keys (peerObjects s))"
  using assms by (auto simp: list_all_iff set_own_keys dest: entryD connD(4))

lemma inv_accept:
  assumes "dialog_inv A s V" and "c \<notin> A"
    and "\<And>d. d \<in> A \<Longrightarrow> sid (peers s d) \<noteq> address @ dec_of_nat port"
  shows "dialog_inv (insert c A) (onAccept s c address port) (V(c := {}))"
proof -
  let ?s = "onAccept s c address port"
  have I: "plain s" "entry_ok A s V" "conn_ok A s V" "inj_on (\<lambda>c. sid (peers s c)) A"
    using assms(1) by (auto simp: dialog_inv_def)
  have o: "peers ?s d = (if d = c then \<lparr>pid = Null, xmlWord = [], sid = address @ dec_of_nat port\<rparr> else peers s d)"
    "peerObjects ?s = peerObjects s" for d
    by (simp_all add: onAccept_def set_peer_def)
  have ne: "d \<noteq> c" if "d \<in> A" for d using that assms(2) by blast
  have "entry_ok (insert c A) ?s (V(c := {}))"
    by (rule entry_ok_transfer [OF I(2)]) (auto simp: o dest: ne)
  moreover have "conn_ok (insert c A) ?s (V(c := {}))"
    using I(3) by (auto simp: conn_ok_def o split: js_id.splits)
  moreover have "inj_on (\<lambda>d. sid (peers ?s d)) (insert c A)"
  proof (rule inj_onI)
    fix x y assume "x \<in> insert c A" "y \<in> insert c A" "sid (peers ?s x) = sid (peers ?s y)"
    then show "x = y"
      using inj_onD [OF I(4), of x y] assms(3) [of x] assms(3) [of y]
      by (cases "x = c"; cases "y = c") (auto simp: o)
  qed
  moreover have "plain ?s" using I(1) by (simp add: onAccept_def)
  ultimately show ?thesis by (simp add: dialog_inv_def)
qed

lemma inv_send:
  assumes "dialog_inv A s V" and "c \<in> A" and "list_all clean (b # msg)"
    and "onData s c (sentence (''send'' # b # msg)) = (Some s', out)"
  shows "dialog_inv A s' (\<lambda>d. watch out d (V d))"
proof -
  have x: "xmlWord (peers s c) = []" and p: "plain s" and cl: "pid (peers s c) = Str a \<Longrightarrow> clean a" for a
    using assms(1,2) by (auto simp: dialog_inv_def dest: connD)
  note r = send_result [OF p assms(3) x]
  have s': "s' = s" using r assms(4) by simp
  have out: "out = [] \<or> (\<exists>d a. out = [Write d (sentence (''message'' # a # msg))] \<and> clean a)"
    using r assms(4) cl by (auto split: js_id.splits option.splits)
  have "signals_of (sentence (''message'' # a # msg)) = Some [SignalRemoteMessage a msg]" if "clean a" for a
    using that assms(3) signals_of_sentence [of "''message''" a msg] by (simp add: clean_keywords)
  then have "watch out d W = W" for d W
    using out by (elim disjE exE conjE) simp_all
  then show ?thesis using assms(1) by (simp add: s')
qed

lemma inv_login:
  assumes "dialog_inv A s V" and "c \<in> A" and "pid (peers s c) = Null" and "clean i"
    and "i \<noteq> ''__proto__''" and "i \<noteq> ''hasOwnProperty''"
    and "onData s c (sentence [''login'', i]) = (Some s', out)"
  shows "dialog_inv A s' (\<lambda>d. watch out d (V d))"
proof -
  have I: "plain s" "entry_ok A s V" "conn_ok A s V" "inj_on (\<lambda>c. sid (peers s c)) A"
    using assms(1) by (auto simp: dialog_inv_def)
  have n: "c \<notin> snd ` set (peerObjects s)" by (rule null_not_registered [OF I(2) assms(3)])
  have Vc: "V c = {}" by (rule connD(2) [OF I(3) assms(2,3)])
  note r = login_result [OF I(1) assms(4) connD(1) [OF I(3) assms(2)] n assms(5)]
  show ?thesis
  proof (cases "i \<in> fst ` set (peerObjects s)")
    case True
    then have s': "s' = logged_in c (Str i) s" and out: "out = [End c]" using r assms(7) by auto
    have "d \<noteq> c" if "(k, d) \<in> set (peerObjects s)" for k d using that n by force
    then have "entry_ok A s' V" by (intro entry_ok_transfer [OF I(2)]) (auto simp: s')
    moreover have "conn_ok A s' V" using I(3) assms(4) by (auto simp: conn_ok_def s' split: js_id.splits)
    ultimately show ?thesis using I(1,4) by (simp add: dialog_inv_def out s')
  next
    case False
    define m where "m = peerObjects s @ [(i, c)]"
    have s': "s' = (logged_in c (Str i) s)\<lparr>peerObjects := m\<rparr>"
      and o: "out = map (\<lambda>k. Write c (sentence [''online'', k])) (own_keys (peerObjects s)) @
        map (\<lambda>d. Write d (sentence [''login'', i])) (others s)"
      using False r assms(7) registered_keys [OF I(1,2), symmetric] by (auto simp: m_def comp_def)
    have so: "set (others s) = snd ` set (peerObjects s)" by (rule set_others [OF I(1)])
    have w: "watch out d (V d) = (if d = c then fst ` set (peerObjects s)
        else if d \<in> snd ` set (peerObjects s) then insert i (V d) else V d)" for d
      using n Vc assms(4) unfolding o
      by (simp add: watch_list [OF keys_clean [OF I(2,3)]] watch_broadcast so set_own_keys)
    have "plain s'"
      using I(1) False assms(6) by (auto simp: plain_def s' m_def js_wf_def map_of_eq_None_iff)
    moreover have "entry_ok A s' (\<lambda>d. watch out d (V d))"
    proof (rule entry_okI)
      fix k d assume e: "(k, d) \<in> set (peerObjects s')"
      have "d \<in> A" and "pid (peers s' d) = Str k"
        using e n assms(2) entryD(1,2) [OF I(2)] by (force simp: s' m_def)+
      moreover have "watch out d (V d) = fst ` set (peerObjects s') - {k}"
      proof (cases "(k, d) \<in> set (peerObjects s)")
        case True
        then have "d \<noteq> c" "d \<in> snd ` set (peerObjects s)" "k \<noteq> i" using n False by force+
        then have "watch out d (V d) = insert i (V d)" using w [of d] by simp
        also have "\<dots> = insert i (fst ` set (peerObjects s) - {k})"
          by (simp only: entryD(3) [OF I(2) True])
        finally show ?thesis using \<open>k \<noteq> i\<close> by (auto simp: s' m_def)
      next
        case old: False
        then show ?thesis using e False by (auto simp: w s' m_def)
      qed
      ultimately show "d \<in> A \<and> pid (peers s' d) = Str k \<and> watch out d (V d) = fst ` set (peerObjects s') - {k}"
        by blast
    qed
    moreover have "conn_ok A s' (\<lambda>d. watch out d (V d))"
      using I(3) assms(4) null_not_registered [OF I(2)]
      by (auto simp: conn_ok_def w s' split: js_id.splits)
    moreover have "inj_on (\<lambda>c. sid (peers s' c)) A" using I(4) by (simp add: s')
    ultimately show ?thesis by (simp add: dialog_inv_def)
  qed
qed

lemma onClose_plain:
  assumes "plain s"
  shows "onClose s c = (let key = js_str (pid (peers s c)) in
    if key \<in> fst ` set (peerObjects s) \<and> sid (peers s c) = sid (peers s (the (map_of (peerObjects s) key)))
    then (Some (s\<lparr>peerObjects := js_delete key (peerObjects s)\<rparr>),
      map (\<lambda>d. Write d (sentence [''offline'', key])) (others (s\<lparr>peerObjects := js_delete key (peerObjects s)\<rparr>)))
    else (Some s, []))"
proof -
  have "plain (s\<lparr>peerObjects := js_delete k (peerObjects s)\<rparr>)" for k
    using assms js_object.wf_remove [of "peerObjects s" k] js_object.map_of_remove [of "peerObjects s" k]
    by (simp add: plain_def)
  then show ?thesis
    using assms by (auto simp: onClose_def hasOwnProperty_plain Let_def for_in_plain sentence_def
        split: bool.split)
qed

lemma inv_close:
  assumes "dialog_inv A s V" and "c \<in> A" and "onClose s c = (Some s', out)"
  shows "dialog_inv (A - {c}) s' (\<lambda>d. watch out d (V d))"
proof -
  have I: "plain s" "entry_ok A s V" "conn_ok A s V" "inj_on (\<lambda>c. sid (peers s c)) A"
    using assms(1) by (auto simp: dialog_inv_def)
  define k where "k = js_str (pid (peers s c))"
  show ?thesis
  proof (cases "(k, c) \<in> set (peerObjects s)")
    case True
    have lk: "map_of (peerObjects s) k = Some c"
      using True I(1) by (simp add: plain_def js_object.entry_iff)
    have p: "pid (peers s c) = Str k" by (rule entryD(2) [OF I(2) True])
    have ck: "clean k" by (rule connD(4) [OF I(3) assms(2) p])
    have wf: "js_wf (peerObjects s)" using I(1) by (simp add: plain_def)
    have s': "s' = s\<lparr>peerObjects := js_delete k (peerObjects s)\<rparr>"
      and out: "out = map (\<lambda>d. Write d (sentence [''offline'', k])) (others s')"
      using assms(3) lk p onClose_plain [OF I(1), of c] rev_image_eqI [OF True, of k fst] by auto
    have e': "set (peerObjects s') = {e \<in> set (peerObjects s). fst e \<noteq> k}"
      by (simp add: s' js_object.set_remove [OF wf])
    have pl: "plain s'"
      using I(1) wf js_object.wf_remove js_object.map_of_remove [OF wf] by (simp add: plain_def s')
    have nc: "d \<noteq> c" if "(x, d) \<in> set (peerObjects s')" for x d
      using that entryD(2) [OF I(2)] p by (auto simp: e')
    have w: "watch out d (V d) = (if d \<in> snd ` set (peerObjects s') then V d - {k} else V d)" for d
      unfolding out by (simp add: watch_broadcast ck set_others [OF pl])
    have "entry_ok (A - {c}) s' (\<lambda>d. watch out d (V d))"
    proof (rule entry_okI)
      fix x d assume e: "(x, d) \<in> set (peerObjects s')"
      then have o: "(x, d) \<in> set (peerObjects s)" "x \<noteq> k" by (auto simp: e')
      have "d \<in> A - {c}" "pid (peers s' d) = Str x"
        using entryD(1,2) [OF I(2) o(1)] nc [OF e] by (simp_all add: s')
      moreover have "fst ` set (peerObjects s') = fst ` set (peerObjects s) - {k}"
        by (simp add: s' js_object.keys_remove [OF wf])
      then have "watch out d (V d) = fst ` set (peerObjects s') - {x}"
        using w [of d] rev_image_eqI [OF e, of d snd] by (simp only: entryD(3) [OF I(2) o(1)]) auto
      ultimately show "d \<in> A - {c} \<and> pid (peers s' d) = Str x \<and>
          watch out d (V d) = fst ` set (peerObjects s') - {x}"
        by blast
    qed
    moreover have "conn_ok (A - {c}) s' (\<lambda>d. watch out d (V d))"
      using I(3) by (auto simp: conn_ok_def w s' split: js_id.splits)
    ultimately show ?thesis using pl I(4) by (auto simp: dialog_inv_def s' inj_on_def)
  next
    case False
    have "k \<in> fst ` set (peerObjects s) \<Longrightarrow> sid (peers s c) \<noteq> sid (peers s (the (map_of (peerObjects s) k)))"
    proof -
      assume "k \<in> fst ` set (peerObjects s)"
      then obtain d where d: "(k, d) \<in> set (peerObjects s)" by auto
      then have "map_of (peerObjects s) k = Some d"
        using I(1) by (simp add: plain_def js_object.entry_iff)
      moreover have "d \<in> A" "d \<noteq> c" using d False entryD(1) [OF I(2) d] by auto
      ultimately show ?thesis using I(4) assms(2) by (auto simp: inj_on_def)
    qed
    then have s': "s' = s" "out = []"
      using assms(3) onClose_plain [OF I(1), of c] by (auto simp: k_def Let_def split: if_split_asm)
    have "d \<noteq> c" if "(x, d) \<in> set (peerObjects s)" for x d
      using that entryD(2) [OF I(2) that] False by (auto simp: k_def)
    then have "entry_ok (A - {c}) s V" by (intro entry_ok_transfer [OF I(2)]) auto
    moreover have "conn_ok (A - {c}) s V" using I(3) by (auto simp: conn_ok_def)
    ultimately show ?thesis using I(1,4) by (auto simp: dialog_inv_def s' intro: inj_on_subset)
  qed
qed

lemma dialog_invariant: "dialog A s V \<Longrightarrow> dialog_inv A s V"
proof (induction rule: dialog.induct)
  case start
  then show ?case
    by (simp add: dialog_inv_def start_server_def plain_def entry_ok_def conn_ok_def js_wf_def)
qed (blast intro: inv_accept inv_login inv_send inv_close)+

text \<open>C5: in every run in which connections log in at most once, with ids that are words and are
  not the two names JavaScript treats specially, and with distinct session ids for the open
  connections, each registered client's view, computed by its \<open>Peer\<close> from the presence sentences
  written to it, is exactly the set of the other registered ids; the ids are registered at most
  once each, to open connections.\<close>

theorem presence_views:
  assumes "dialog A s V" and "(k, c) \<in> set (peerObjects s)"
  shows "V c = fst ` set (peerObjects s) - {k} \<and> c \<in> A \<and> distinct (map fst (peerObjects s))"
proof -
  have "plain s" and e: "entry_ok A s V" using dialog_invariant [OF assms(1)] by (simp_all add: dialog_inv_def)
  then show ?thesis using entryD [OF e assms(2)] js_object.wf_distinct [of "peerObjects s"]
    by (simp add: plain_def)
qed

theorem presence_views_witness:
  "\<exists>s V. dialog {3, 2} s V \<and> V 2 = fst ` set (peerObjects s) - {''ann''} \<and> ''bob'' \<in> V 2"
proof -
  define s2 where "s2 = onAccept (onAccept start_server 2 ''10.0.0.1'' 4000) 3 ''10.0.0.2'' 4000"
  define V2 :: "nat \<Rightarrow> string set" where "V2 = (\<lambda>_. {})(2 := {}, 3 := {})"
  have d2: "dialog {3, 2} s2 V2"
    unfolding s2_def V2_def by (intro dialog.accept dialog.start) (simp_all add: onAccept_def set_peer_def)
  have c: "clean ''ann''" "clean ''bob''" by (simp_all add: clean_def)
  have p2: "plain s2" "peerObjects s2 = []" "pid (peers s2 d) = Null" "xmlWord (peers s2 d) = []"
    "others s2 = []" for d
    by (auto simp: s2_def onAccept_def set_peer_def start_server_def plain_def js_wf_def others_def own_keys_def)
  define s3 where "s3 = (logged_in 2 (Str ''ann'') s2)\<lparr>peerObjects := [(''ann'', 2)]\<rparr>"
  have r3: "onData s2 2 (sentence [''login'', ''ann'']) = (Some s3, [])"
    using login_result [OF p2(1) c(1) p2(4), of 2] by (simp add: p2(2,5) s3_def)
  have d3: "dialog {3, 2} s3 (\<lambda>d. watch [] d (V2 d))"
    by (rule dialog.login [OF d2 _ _ c(1) _ _ r3]) (simp_all add: p2)
  have p3: "plain s3" "pid (peers s3 3) = Null" "xmlWord (peers s3 3) = []" "peerObjects s3 = [(''ann'', 2)]"
    using p2 by (simp_all add: s3_def plain_def js_wf_def)
  obtain s4 out where r4: "onData s3 3 (sentence [''login'', ''bob'']) = (Some s4, out)"
    and k4: "peerObjects s4 = [(''ann'', 2), (''bob'', 3)]"
    using login_result [OF p3(1) c(2) p3(3)] by (simp add: p3(4))
  have d4: "dialog {3, 2} s4 (\<lambda>d. watch out d (watch [] d (V2 d)))"
    by (rule dialog.login [OF d3 _ _ c(2) _ _ r4]) (simp_all add: p3)
  have "(''ann'', 2) \<in> set (peerObjects s4)" by (simp add: k4)
  from presence_views [OF d4 this] have v: "watch out 2 (watch [] 2 (V2 2)) = fst ` set (peerObjects s4) - {''ann''}"
    by blast
  have "''bob'' \<in> fst ` set (peerObjects s4) - {''ann''}" by (simp add: k4)
  with d4 v show ?thesis by (intro exI [of _ s4] exI [of _ "\<lambda>d. watch out d (watch [] d (V2 d))"]) simp
qed

text \<open>C25: in those runs the server process does not die: whichever open connection logs in for
  the first time, sends or disconnects next, the handler ends without an uncaught exception.\<close>

theorem server_survives:
  assumes "dialog A s V" and "c \<in> A" and "clean i" and "i \<noteq> ''__proto__''" and "list_all clean (b # msg)"
  shows "(pid (peers s c) = Null \<longrightarrow> fst (onData s c (sentence [''login'', i])) \<noteq> None) \<and>
    fst (onData s c (sentence (''send'' # b # msg))) \<noteq> None \<and> fst (onClose s c) \<noteq> None"
proof -
  have I: "plain s" "entry_ok A s V" "conn_ok A s V"
    using dialog_invariant [OF assms(1)] by (auto simp: dialog_inv_def)
  have x: "xmlWord (peers s c) = []" by (rule connD(1) [OF I(3) assms(2)])
  have "pid (peers s c) = Null \<Longrightarrow> fst (onData s c (sentence [''login'', i])) \<noteq> None"
    using login_result [OF I(1) assms(3) x null_not_registered [OF I(2)] assms(4)] by simp
  moreover have "fst (onData s c (sentence (''send'' # b # msg))) \<noteq> None"
    using send_result [OF I(1) assms(5) x] by simp
  moreover have "fst (onClose s c) \<noteq> None"
    using onClose_plain [OF I(1), of c] by (simp add: Let_def)
  ultimately show ?thesis by blast
qed

theorem server_survives_witness:
  "fst (onClose (onAccept start_server 2 ''10.0.0.1'' 4000) 2) \<noteq> None"
proof -
  have "dialog {2} (onAccept start_server 2 ''10.0.0.1'' 4000) ((\<lambda>_. {})(2 := {}))"
    by (intro dialog.accept dialog.start) simp_all
  from server_survives [OF this, of 2 "''ann''" "''bob''" "[]"] show ?thesis
    by (simp add: clean_def)
qed

text \<open>A client can end the server: once a login with the id \<open>hasOwnProperty\<close> has been
  accepted, the next login or disconnection of anybody else, and the next message of anybody who has
  logged in, is an uncaught \<open>TypeError\<close>, because the entry hides the function of that name.\<close>

lemma hasOwnProperty_login_fatal:
  assumes "plain s" and "xmlWord (peers s c) = []" and "c \<notin> snd ` set (peerObjects s)"
    and "xmlWord (peers s d) = []" and "c \<noteq> d" and "clean i" and "list_all clean (b # msg)"
  shows "\<exists>s' out. onData s c (sentence [''login'', ''hasOwnProperty'']) = (Some s', out) \<and>
    onData s' d (sentence [''login'', i]) = (None, []) \<and> onClose s' d = (None, []) \<and>
    (pid (peers s d) = Str a \<longrightarrow> onData s' d (sentence (''send'' # b # msg)) = (None, []))"
proof -
  have k: "clean ''hasOwnProperty''" by (simp add: clean_def)
  have "''hasOwnProperty'' \<notin> fst ` set (peerObjects s)"
    using assms(1) by (simp add: plain_def map_of_eq_None_iff)
  then obtain s' out where r: "onData s c (sentence [''login'', ''hasOwnProperty'']) = (Some s', out)"
    and s': "s' = (logged_in c (Str ''hasOwnProperty'') s)\<lparr>peerObjects := peerObjects s @ [(''hasOwnProperty'', c)]\<rparr>"
    using login_result [OF assms(1) k assms(2,3)] by simp
  have h: "map_of (peerObjects s') ''hasOwnProperty'' \<noteq> None"
    by (simp add: s' map_of_eq_None_iff)
  have n: "hasOwnProperty t x = None" if "peerObjects t = peerObjects s'" for t x
    using h that by (simp add: hasOwnProperty_def)
  have e: "xmlWord (peers s' d) = []" using assms(4,5) by (simp add: s')
  have "dialog_login (set_word d w s') d ws = (None, [])" for w ws
    by (simp add: dialog_login_def Let_def n set_peer_def)
  then have "onData s' d (sentence [''login'', i]) = (None, [])"
    using onData_login [OF assms(6) e] by simp
  moreover have "onClose s' d = (None, [])" by (simp add: onClose_def n Let_def)
  moreover have "pid (peers s d) = Str a \<longrightarrow> onData s' d (sentence (''send'' # b # msg)) = (None, [])"
  proof
    assume a: "pid (peers s d) = Str a"
    have c: "list_all clean (''send'' # b # msg)" using assms(7) by (simp add: clean_keywords)
    have "pid (peers s' d) = Str a" using a assms(5) by (simp add: s')
    then have "dialog_send (set_word d w s') d ws = (None, [])" for w ws
      by (simp add: dialog_send_def Let_def n)
    then show "onData s' d (sentence (''send'' # b # msg)) = (None, [])"
      using onData_sentence [OF c _ e] processDialog_sentence [OF c, of d s'] by simp
  qed
  ultimately show ?thesis using r by blast
qed

end
