(* ===== verification/Ice_System.thy ===== *)
theory Ice_System
  imports Prober_Props Dialog_Presence
begin

text \<open>
  Two probers and the dialog server. Each prober has the queue of messages posted to its signaling
  thread and the texts the server has written to its connection; the steps are the handling of the
  first post, the reading of the first text, and candidates of a connected transport, in any order
  on either side. The run starts after both logins, the prober \<open>True\<close> having logged in first.
\<close>

section \<open>One side\<close>

definition good_candidate :: "'f env \<Rightarrow> 'f Candidate \<Rightarrow> bool" where
  "good_candidate e c \<longleftrightarrow> list_all clean (candidate_fields (os_lib e) (fl_lib e) c)"

definition good :: "'f env \<Rightarrow> 'f PPSession \<Rightarrow> bool" where
  "good e s \<longleftrightarrow> sound s \<and>
     (\<exists>tp. transports s = [(content, tp)] \<and> list_all (good_candidate e) (unsent_candidates tp)) \<and>
     (state s \<in> {STATE_SENTINITIATE, STATE_RECEIVEDINITIATE} \<longrightarrow> pending_candidates s)"

definition initiate :: PPMessage where
  "initiate = \<lparr>msg_type = PPMSG_SESSION_INITIATE, argvs = [content]\<rparr>"

definition accept :: PPMessage where
  "accept = \<lparr>msg_type = PPMSG_SESSION_ACCEPT, argvs = [content]\<rparr>"

definition info :: "'f env \<Rightarrow> PPMessage \<Rightarrow> bool" where
  "info e m \<longleftrightarrow> (\<exists>cs. m = \<lparr>msg_type = PPMSG_TRANSPORT_INFO,
     argvs = transport_info_argvs (os_lib e) (fl_lib e) content cs\<rparr> \<and> list_all (good_candidate e) cs)"

lemma goodE:
  assumes "good e s"
  obtains tp where "transports s = [(content, tp)]" "GetTransportProxy s content = Some tp"
    "list_all (good_candidate e) (unsent_candidates tp)" "sound s"
  using assms by (auto simp: good_def GetTransportProxy_def)

lemma infoI: "list_all (good_candidate e) cs \<Longrightarrow> info e \<lparr>msg_type = PPMSG_TRANSPORT_INFO,
     argvs = transport_info_argvs (os_lib e) (fl_lib e) content cs\<rparr>"
  by (auto simp: info_def)

lemma send_infos:
  assumes "good e s" and "SendAllUnsentTransportInfoMessages e s = (s', out)"
  shows "list_all (info e) (messages_of out) \<and> length (messages_of out) < 2"
    and "\<exists>tp. transports s' = [(content, tp)] \<and> unsent_candidates tp = []"
  using assms by (auto simp: SendAllUnsentTransportInfoMessages_def SendTransportInfoMessage_def
      ClearUnsentCandidates_def intro!: infoI elim!: goodE split: if_split_asm)

lemma remote_one:
  assumes "transports s = [(content, tp)]" and "sess_OnRemoteCandidates e c cs s = Some (s', out, ok)"
  shows "messages_of out = [] \<and> (\<exists>tp'. transports s' = [(content, tp')] \<and> unsent_candidates tp' = unsent_candidates tp) \<and>
    pending_candidates s' = pending_candidates s"
  using assms by (auto simp: sess_OnRemoteCandidates_def GetTransportProxy_def bind_eq_Some_iff Let_def
      dest: CompleteNegotiation_unsent split: option.split_asm if_split_asm)

lemma CreateTransportProxies_one:
  "transports s = [(content, tp)] \<Longrightarrow> CreateTransportProxies content s = s\<lparr>pending_candidates := True\<rparr>"
  by (simp add: CreateTransportProxies_def GetOrCreateTransportProxy_def GetTransportProxy_def)

lemma goodI:
  "sound s \<Longrightarrow> transports s = [(content, tp)] \<Longrightarrow> list_all (good_candidate e) (unsent_candidates tp) \<Longrightarrow>
    (state s \<in> {STATE_SENTINITIATE, STATE_RECEIVEDINITIATE} \<Longrightarrow> pending_candidates s) \<Longrightarrow> good e s"
  by (auto simp: good_def)

lemma Initiate_good:
  assumes "good e s" and "state s = STATE_INIT" and "session_step e (Call_Initiate content) s = Some (s', out)"
  shows "good e s'" and "messages_of out = [initiate]"
proof -
  obtain tp where tp: "transports s = [(content, tp)]" "list_all (good_candidate e) (unsent_candidates tp)" "sound s"
    using assms(1) by (rule goodE)
  have "sound s'" using sound_step [OF tp(3), of e "Call_Initiate content"] assms(3) by auto
  then show "good e s'" using assms tp
    by (auto simp: result_def Initiate_def SetState_def CreateTransportProxies_one Let_def
        SpeculativelyConnectAllTransportChannels_def SpeculativelyConnectChannels_def split_beta intro!: goodI)
  show "messages_of out = [initiate]" using assms tp
    by (auto simp: result_def Initiate_def SetState_def CreateTransportProxies_one Let_def initiate_def
        SpeculativelyConnectAllTransportChannels_def SpeculativelyConnectChannels_def split_beta)
qed

lemma Accept_good:
  assumes "good e s" and "state s = STATE_RECEIVEDINITIATE" and "content_name s = content"
    and "session_step e Call_Accept s = Some (s', out)"
  shows "good e s'" and "\<exists>ms. messages_of out = accept # ms \<and> list_all (info e) ms \<and> length ms < 2"
proof -
  obtain tp where tp: "transports s = [(content, tp)]" "list_all (good_candidate e) (unsent_candidates tp)" "sound s"
    using assms(1) by (rule goodE)
  define s1 where "s1 = s\<lparr>local_description := Some [], state := STATE_SENTACCEPT\<rparr>"
  have "sound s1" using tp(3) by (rule sound_eq) (simp_all add: s1_def)
  then have 1: "good e s1" using tp by (intro goodI) (simp_all add: s1_def)
  obtain o2 where 2: "SendAllUnsentTransportInfoMessages e s1 = (s', o2)"
    and out: "out = SignalOutgoingMessage accept # SignalStateChanged STATE_SENTACCEPT # Post_STATE # o2"
    using assms(2-4) by (auto simp: result_def Accept_def SetState_def Let_def s1_def accept_def split: prod.split_asm)
  have "state s' = STATE_SENTACCEPT" using SendAll_quiet [OF 2] by (simp add: signaling_of_def s1_def)
  then show "good e s'"
    using send_infos(2) [OF 1 2] send_sound [OF \<open>sound s1\<close> 2] by (auto intro!: goodI)
  show "\<exists>ms. messages_of out = accept # ms \<and> list_all (info e) ms \<and> length ms < 2"
    using send_infos(1) [OF 1 2] by (simp add: out)
qed

lemma InitiateMessage_good:
  assumes "good e s" and "state s = STATE_INIT" and "session_step e (Call_Incoming initiate) s = Some (s', out)"
  shows "good e s'" and "messages_of out = []"
proof -
  obtain tp where tp: "transports s = [(content, tp)]" "list_all (good_candidate e) (unsent_candidates tp)" "sound s"
    using assms(1) by (rule goodE)
  have "sound s'" using Incoming_sound [OF tp(3), of e initiate] assms(3) by (auto simp: initiate_def)
  moreover define s1 where "s1 = s\<lparr>content_name := content, remote_description := Some [], pending_candidates := True,
      state := STATE_RECEIVEDINITIATE\<rparr>"
  obtain o2 ok where 2: "sess_OnRemoteCandidates e content [] s1 = Some (s', o2, ok)"
    and out: "out = SignalStateChanged STATE_RECEIVEDINITIATE # Post_STATE # o2 @ (if ok then [] else [SignalErrorMessage initiate])"
    using assms(2,3) tp(1)
    by (auto simp: OnIncomingMessage_def OnInitiateMessage_def initiate_def CheckState_def argv0_def SetState_def
        CreateTransportProxies_one Let_def bind_eq_Some_iff s1_def)
  note remote_one [OF _ 2, of tp]
  ultimately show "good e s'" using tp by (auto simp: s1_def intro!: goodI)
  show "messages_of out = []" using remote_one [OF _ 2, of tp] tp by (auto simp: out s1_def)
qed

lemma AcceptMessage_good:
  assumes "good e s" and "state s = STATE_SENTINITIATE" and "session_step e (Call_Incoming accept) s = Some (s', out)"
  shows "good e s'" and "list_all (info e) (messages_of out)" and "length (messages_of out) < 2"
proof -
  obtain tp where tp: "transports s = [(content, tp)]" "list_all (good_candidate e) (unsent_candidates tp)" "sound s"
    using assms(1) by (rule goodE)
  have s: "sound s'" using Incoming_sound [OF tp(3), of e accept] assms(3) by (auto simp: accept_def)
  obtain s1 o1 where 1: "SendAllUnsentTransportInfoMessages e s = (s1, o1)" by fastforce
  have st: "state s1 = STATE_SENTINITIATE" using SendAll_quiet [OF 1] assms(2) by (simp add: signaling_of_def)
  define s2 where "s2 = s1\<lparr>remote_description := Some [], state := STATE_RECEIVEDACCEPT\<rparr>"
  obtain o2 ok where 2: "sess_OnRemoteCandidates e content [] s2 = Some (s', o2, ok)"
    and out: "out = o1 @ SignalStateChanged STATE_RECEIVEDACCEPT # Post_STATE # o2 @ (if ok then [] else [SignalErrorMessage accept])"
    using assms(2,3) 1 st
    by (auto simp: OnIncomingMessage_def OnAcceptMessage_def accept_def CheckState_def argv0_def SetState_def
        Let_def bind_eq_Some_iff s2_def)
  obtain tp1 where tp1: "transports s1 = [(content, tp1)]" "unsent_candidates tp1 = []" using send_infos(2) [OF assms(1) 1] by blast
  note r = remote_one [OF _ 2, of tp1]
  have "state s' = STATE_RECEIVEDACCEPT" using remote_candidates_quiet [OF 2] by (simp add: signaling_of_def s2_def)
  then show "good e s'" using s r tp1 by (auto simp: s2_def intro!: goodI)
  show "list_all (info e) (messages_of out)" "length (messages_of out) < 2"
    using send_infos(1) [OF assms(1) 1] r tp1 by (auto simp: out s2_def)
qed

lemma info_good:
  assumes "good e s" and "state s \<noteq> STATE_INIT" and "info e m" and "session_step e (Call_Incoming m) s = Some (s', out)"
  shows "good e s'" and "messages_of out = []" and "state s' = state s"
proof -
  obtain tp where tp: "transports s = [(content, tp)]" "list_all (good_candidate e) (unsent_candidates tp)" "sound s"
    using assms(1) by (rule goodE)
  obtain cs where m: "m = \<lparr>msg_type = PPMSG_TRANSPORT_INFO, argvs = transport_info_argvs (os_lib e) (fl_lib e) content cs\<rparr>"
    using assms(3) by (auto simp: info_def)
  have ty: "msg_type m = PPMSG_TRANSPORT_INFO" "argv0 m = Some content"
    "read_candidates (os_lib e) (fl_lib e) (blank_candidate e) (argvs m) = Some (map (received (os_lib e) (fl_lib e)) cs)"
    by (simp_all add: m read_candidates_received) (simp add: argv0_def transport_info_argvs_def)
  obtain o1 ok where 1: "sess_OnRemoteCandidates e content (map (received (os_lib e) (fl_lib e)) cs) s = Some (s', o1, ok)"
    and out: "out = o1 @ (if ok then [] else [SignalErrorMessage m])"
    using assms(4) by (auto simp: OnIncomingMessage_def OnTransportInfoMessage_def ty bind_eq_Some_iff)
  note r = remote_one [OF tp(1) 1] and q = remote_candidates_quiet [OF 1]
  show st: "state s' = state s" using q by (simp add: signaling_of_def)
  have "sound s'" using remote_sound [OF tp(3), of content e "map (received (os_lib e) (fl_lib e)) cs"] 1 assms(2) by auto
  then show "good e s'" using r tp(2) assms(1) st by (auto simp: good_def)
  show "messages_of out = []" using r by (simp add: out)
qed

lemma STATE_good:
  assumes "good e s" and "session_step e Call_STATE s = Some (s', out)"
  shows "good e s'" and "messages_of out = []"
proof -
  have "sound s'" using sound_step [of s e Call_STATE] assms by (auto elim!: goodE)
  then show "good e s'" using assms
    by (auto simp: session_OnMessage_STATE_def SetState_def good_def split: if_split_asm)
  show "messages_of out = []" using assms(2) by (auto simp: session_OnMessage_STATE_def SetState_def split: if_split_asm)
qed

lemma Ready_good:
  assumes "good e s" and "list_all (good_candidate e) cs" and "session_step e (Call_CandidatesReady content cs) s = Some (s', out)"
  shows "good e s'" and "list_all (info e) (messages_of out)" and "state s' = state s"
    and "state s \<in> {STATE_SENTINITIATE, STATE_RECEIVEDINITIATE} \<Longrightarrow> messages_of out = []"
proof -
  have "sound s'" using sound_step [of s e "Call_CandidatesReady content cs"] assms by (auto elim!: goodE)
  then show "good e s'" "list_all (info e) (messages_of out)" "state s' = state s"
    "state s \<in> {STATE_SENTINITIATE, STATE_RECEIVEDINITIATE} \<Longrightarrow> messages_of out = []"
    using assms by (auto simp: good_def OnTransportCandidatesReady_def GetTransportProxy_def AddUnsentCandidates_def
        SendTransportInfoMessage_def intro!: infoI split: if_split_asm)
qed

section \<open>What one side does\<close>

definition side :: "'f env \<Rightarrow> string \<Rightarrow> 'f IceProber \<Rightarrow> 'f PPSession \<Rightarrow> bool" where
  "side e remote p s \<longleftrightarrow> connected p \<and> remote_name p = remote \<and> session p = Some s \<and> good e s \<and>
     (state s \<noteq> STATE_INIT \<longrightarrow> content_name s = content)"

abbreviation (input) Post_S :: "'f p_out" where "Post_S \<equiv> From_Session Post_STATE"

text \<open>The state before and after, the messages sent and the posts made.\<close>

inductive does :: "'f env \<Rightarrow> session_state \<Rightarrow> 'f call \<Rightarrow> session_state \<Rightarrow> PPMessage list \<Rightarrow> 'f p_out list \<Rightarrow> bool" for e where
  Initiate: "does e STATE_INIT (Call_Initiate content) STATE_SENTINITIATE [initiate] [Post_S]"
| Accept: "list_all (info e) ms \<Longrightarrow> length ms < 2 \<Longrightarrow> does e STATE_RECEIVEDINITIATE Call_Accept STATE_SENTACCEPT (accept # ms) [Post_S]"
| Initiated: "does e STATE_INIT (Call_Incoming initiate) STATE_RECEIVEDINITIATE [] [Post_DO_ACCEPT, Post_S]"
| Accepted: "list_all (info e) ms \<Longrightarrow> length ms < 2 \<Longrightarrow> does e STATE_SENTINITIATE (Call_Incoming accept) STATE_RECEIVEDACCEPT ms [Post_S]"
| Infos: "info e m \<Longrightarrow> st \<noteq> STATE_INIT \<Longrightarrow> does e st (Call_Incoming m) st [] []"
| Established: "st \<in> {STATE_SENTACCEPT, STATE_RECEIVEDACCEPT} \<Longrightarrow> does e st Call_STATE STATE_INPROGRESS [] [Post_S]"
| Idle: "st \<notin> {STATE_SENTACCEPT, STATE_RECEIVEDACCEPT} \<Longrightarrow> does e st Call_STATE st [] []"
| Late_initiate: "st \<noteq> STATE_INIT \<Longrightarrow> does e st (Call_Initiate content) st [] []"
| Late_accept: "st \<noteq> STATE_RECEIVEDINITIATE \<Longrightarrow> does e st Call_Accept st [] []"
| Ready: "st \<noteq> STATE_INIT \<Longrightarrow> list_all (good_candidate e) cs \<Longrightarrow> list_all (info e) ms \<Longrightarrow>
    (st \<in> {STATE_SENTINITIATE, STATE_RECEIVEDINITIATE} \<Longrightarrow> ms = []) \<Longrightarrow> does e st (Call_CandidatesReady content cs) st ms []"

text \<open>The calls a side may get in a state.\<close>

fun proper :: "'f env \<Rightarrow> session_state \<Rightarrow> 'f call \<Rightarrow> bool" where
  "proper e st (Call_Initiate c) = (c = content)"
| "proper e st Call_Accept = True"
| "proper e st Call_STATE = True"
| "proper e st (Call_Incoming m) =
     ((m = initiate \<and> st = STATE_INIT) \<or> (m = accept \<and> st = STATE_SENTINITIATE) \<or> (info e m \<and> st \<noteq> STATE_INIT))"
| "proper e st (Call_CandidatesReady c cs) = (c = content \<and> st \<noteq> STATE_INIT \<and> list_all (good_candidate e) cs)"
| "proper e st _ = False"

lemma proper_orderly: "proper e (state s) x \<Longrightarrow> orderly e x s"
  by (cases x) (auto simp: initiate_def accept_def info_def read_candidates_received transport_info_argvs_def
      read_candidates_received [unfolded transport_info_argvs_def])

lemma call_refines:
  assumes "session_step e x s = Some (s', out)"
  shows "(state s', content_name s') = fst (signaling_step x (state s, content_name s))"
    and "filter is_signaling out = snd (signaling_step x (state s, content_name s))"
  using session_step_refines [OF assms] by (simp_all add: signaling_of_def)

text \<open>The outcome of a call, whatever the prober that owns the session.\<close>

definition outcome :: "'f env \<Rightarrow> 'f PPSession \<Rightarrow> 'f call \<Rightarrow> 'f PPSession \<Rightarrow> 'f s_out list \<Rightarrow> bool" where
  "outcome e s x s' out \<longleftrightarrow> good e s' \<and> (\<forall>p. session p = Some s' \<longrightarrow>
     does e (state s) x (state s') (messages_of out) (filter is_post (concat (map (reaction p) out))))"

lemma outcome_Initiate:
  assumes g: "good e s" and st: "session_step e (Call_Initiate content) s = Some (s', out)"
  shows "outcome e s (Call_Initiate content) s' out"
proof (cases "state s = STATE_INIT")
  case True
  then show ?thesis using Initiate_good [OF g True st] call_refines [OF st] does.Initiate [of e]
    by (simp add: outcome_def posts_reactions say_def Let_def)
next
  case False
  then show ?thesis using st g by (auto simp: outcome_def result_def Initiate_def intro: does.Late_initiate)
qed

lemma outcome_Accept:
  assumes g: "good e s" and c: "state s \<noteq> STATE_INIT \<longrightarrow> content_name s = content"
    and st: "session_step e Call_Accept s = Some (s', out)"
  shows "outcome e s Call_Accept s' out"
proof (cases "state s = STATE_RECEIVEDINITIATE")
  case True
  then show ?thesis using Accept_good [OF g True _ st] c call_refines [OF st]
    by (auto simp: outcome_def posts_reactions say_def Let_def intro: does.Accept)
next
  case False
  then show ?thesis using st g by (auto simp: outcome_def result_def Accept_def intro: does.Late_accept)
qed

lemma outcome_Incoming:
  assumes g: "good e s" and x: "proper e (state s) (Call_Incoming m)"
    and st: "session_step e (Call_Incoming m) s = Some (s', out)"
  shows "outcome e s (Call_Incoming m) s' out"
proof -
  note r = call_refines [OF st]
  consider "m = initiate" "state s = STATE_INIT" | "m = accept" "state s = STATE_SENTINITIATE" | "info e m" "state s \<noteq> STATE_INIT"
    using x by auto
  then show ?thesis
  proof cases
    case 1
    have "state s' = STATE_RECEIVEDINITIATE" "content_name s' = content"
      "filter is_signaling out = [SignalStateChanged STATE_RECEIVEDINITIATE, Post_STATE]"
      using r 1 by (simp_all add: initiate_def enter_def)
    then show ?thesis using 1 InitiateMessage_good [OF g 1(2)] st does.Initiated [of e]
      by (simp add: outcome_def posts_reactions)
  next
    case 2
    have "state s' = STATE_RECEIVEDACCEPT"
      "filter is_signaling out = [SignalStateChanged STATE_RECEIVEDACCEPT, Post_STATE]"
      using r 2 by (simp_all add: accept_def enter_def)
    then show ?thesis using 2 AcceptMessage_good [OF g 2(2)] st does.Accepted [of e]
      by (simp add: outcome_def posts_reactions)
  next
    case 3
    have "filter is_signaling out = []" using r 3 by (auto simp: info_def)
    then show ?thesis using info_good [OF g 3(2,1) st] does.Infos [OF 3]
      by (simp add: outcome_def posts_reactions)
  qed
qed

lemma outcome_STATE:
  assumes g: "good e s" and st: "session_step e Call_STATE s = Some (s', out)"
  shows "outcome e s Call_STATE s' out"
proof (cases "state s \<in> {STATE_SENTACCEPT, STATE_RECEIVEDACCEPT}")
  case True
  then have "state s' = STATE_INPROGRESS" "filter is_signaling out = [SignalStateChanged STATE_INPROGRESS, Post_STATE]"
    using call_refines [OF st] by (auto simp: enter_def)
  then show ?thesis using STATE_good [OF g st] does.Established [OF True, of e] by (simp add: outcome_def posts_reactions)
next
  case False
  then have "state s' = state s" "filter is_signaling out = []" using call_refines [OF st] by auto
  then show ?thesis using STATE_good [OF g st] does.Idle [OF False, of e] by (simp add: outcome_def posts_reactions)
qed

lemma outcome_Ready:
  assumes g: "good e s" and x: "proper e (state s) (Call_CandidatesReady c cs)"
    and st: "session_step e (Call_CandidatesReady c cs) s = Some (s', out)"
  shows "outcome e s (Call_CandidatesReady c cs) s' out"
  using Ready_good [OF g, of cs s' out] x st call_refines [OF st]
  by (auto simp: outcome_def posts_reactions intro!: does.Ready)

lemma step_outcome:
  assumes "good e s" and "state s \<noteq> STATE_INIT \<longrightarrow> content_name s = content" and x: "proper e (state s) x"
  shows "\<exists>s' out. session_step e x s = Some (s', out) \<and> outcome e s x s' out \<and>
    (state s' \<noteq> STATE_INIT \<longrightarrow> content_name s' = content)"
proof -
  have "sound s" using assms(1) by (rule goodE)
  then obtain s' out where st: "session_step e x s = Some (s', out)"
    using sound_step proper_orderly [OF x] by blast
  have "state s' \<noteq> STATE_INIT \<longrightarrow> content_name s' = content" using call_refines(1) [OF st] assms(2) x
    by (cases x) (auto simp: enter_def initiate_def accept_def info_def split: if_split_asm)
  moreover have "outcome e s x s' out" using assms st
    by (cases x) (simp_all add: outcome_Initiate outcome_Accept outcome_Incoming outcome_STATE outcome_Ready del: session_step.simps)
  ultimately show ?thesis using st by blast
qed

lemma clean_info: "info e m \<Longrightarrow> list_all clean (argvs m)"
proof -
  have "list_all (good_candidate e) cs \<Longrightarrow> list_all clean (concat (map (candidate_fields (os_lib e) (fl_lib e)) cs))" for cs
    by (induction cs) (simp_all add: good_candidate_def)
  then show "info e m \<Longrightarrow> ?thesis" by (auto simp: info_def transport_info_argvs_def clean_def)
qed

definition spoken :: "'f env \<Rightarrow> PPMessage \<Rightarrow> bool" where
  "spoken e m \<longleftrightarrow> m = initiate \<or> m = accept \<or> info e m"

lemma spoken_clean: "spoken e m \<Longrightarrow> pp_str (msg_type m) \<noteq> None \<and> list_all clean (argvs m)"
  using clean_info [of e m] by (auto simp: spoken_def initiate_def accept_def clean_def info_def)

lemma does_spoken: "does e st x st' ms ps \<Longrightarrow> list_all (spoken e) ms"
  by (induction rule: does.induct) (auto simp: spoken_def list.pred_set)

lemma side_call:
  assumes "side e remote p s" and "proper e (state s) x"
  shows "\<exists>s' outs ms. session_call e x p = Some (p\<lparr>session := Some s'\<rparr>, outs) \<and> side e remote (p\<lparr>session := Some s'\<rparr>) s' \<and>
    does e (state s) x (state s') ms (filter is_post outs) \<and> sends outs = map (\<lambda>m. sentence (''send'' # remote # body m)) ms"
proof -
  obtain s' out where st: "session_step e x s = Some (s', out)" and o: "outcome e s x s' out"
    and n: "state s' \<noteq> STATE_INIT \<longrightarrow> content_name s' = content"
    using step_outcome [of e s x] assms by (auto simp: side_def)
  define p' where "p' = p\<lparr>session := Some s'\<rparr>"
  define outs where "outs = concat (map (reaction p') out)"
  have d: "does e (state s) x (state s') (messages_of out) (filter is_post outs)"
    using o by (auto simp: outcome_def outs_def p'_def)
  have "filter (\<lambda>m. pp_str (msg_type m) \<noteq> None) (messages_of out) = messages_of out"
    using does_spoken [OF d] by (auto simp: filter_id_conv list.pred_set dest: spoken_clean)
  then have "sends outs = map (\<lambda>m. sentence (''send'' # remote # body m)) (messages_of out)"
    using assms(1) by (simp add: outs_def sends_reactions p'_def side_def)
  moreover have "session_call e x p = Some (p', outs)"
    using session_call_reactions [of p s e x s' out] assms(1) st by (simp add: side_def outs_def p'_def)
  moreover have "side e remote p' s'" using assms(1) o n by (simp add: side_def outcome_def p'_def connected_def)
  ultimately show ?thesis using d unfolding p'_def by blast
qed

section \<open>The system\<close>

record 'f system =
  srv :: server
  prob :: "bool \<Rightarrow> 'f IceProber"
  posts :: "bool \<Rightarrow> 'f p_out list"
  inbox :: "bool \<Rightarrow> string list"

definition conn :: "bool \<Rightarrow> nat" where
  "conn w = (if w then 2 else 3)"

text \<open>A text sent on connection \<open>c\<close>, and what the server writes to connection \<open>d\<close> for it.\<close>

definition relay :: "nat \<Rightarrow> nat \<Rightarrow> string \<Rightarrow> server \<Rightarrow> (server \<times> string list) option" where
  "relay c d t s =
     (case onData s c t of
        (None, _) \<Rightarrow> None
      | (Some s', ws) \<Rightarrow> Some (s', concat (map (\<lambda>x. case x of Write d' xml \<Rightarrow> if d' = d then [xml] else [] | End _ \<Rightarrow> []) ws)))"

definition commit :: "bool \<Rightarrow> 'f IceProber \<times> 'f p_out list \<Rightarrow> 'f system \<Rightarrow> 'f system option" where
  "commit w r sys = do {
     (srv', texts) \<leftarrow> run (relay (conn w) (conn (\<not> w))) (sends (snd r)) (srv sys);
     Some (sys\<lparr>srv := srv', prob := (prob sys)(w := fst r),
       posts := (posts sys)(w := posts sys w @ filter is_post (snd r)),
       inbox := (inbox sys)((\<not> w) := inbox sys (\<not> w) @ texts)\<rparr>)
   }"

fun handle :: "'f env \<Rightarrow> 'f p_out \<Rightarrow> 'f IceProber \<Rightarrow> ('f IceProber \<times> 'f p_out list) option" where
  "handle e Post_DO_INITIATE p = Prober_OnMessage e True MSG_DO_INITIATE p"
| "handle e Post_DO_ACCEPT p = Prober_OnMessage e True MSG_DO_ACCEPT p"
| "handle e (From_Session Post_STATE) p = session_call e Call_STATE p"
| "handle e _ p = Some (p, [])"

datatype 'f act = Act_Post bool | Act_Read bool | Act_Ready bool "'f Candidate list"

fun system_step :: "'f env \<Rightarrow> 'f act \<Rightarrow> 'f system \<Rightarrow> 'f system option" where
  "system_step e (Act_Post w) sys =
     (case posts sys w of
        [] \<Rightarrow> Some sys
      | x # xs \<Rightarrow> do { r \<leftarrow> handle e x (prob sys w); commit w r (sys\<lparr>posts := (posts sys)(w := xs)\<rparr>) })"
| "system_step e (Act_Read w) sys =
     (case inbox sys w of
        [] \<Rightarrow> Some sys
      | t # ts \<Rightarrow> do { r \<leftarrow> prober_read e t (prob sys w); commit w r (sys\<lparr>inbox := (inbox sys)(w := ts)\<rparr>) })"
| "system_step e (Act_Ready w cs) sys = do {
     r \<leftarrow> session_call e (Call_CandidatesReady content cs) (prob sys w);
     commit w r sys
   }"

definition session_of :: "'f system \<Rightarrow> bool \<Rightarrow> 'f PPSession" where
  "session_of sys w = the (session (prob sys w))"

text \<open>A transport reports candidates once it is connected; their fields are words.\<close>

fun may :: "'f env \<Rightarrow> 'f act \<Rightarrow> 'f system \<Rightarrow> bool" where
  "may e (Act_Ready w cs) sys \<longleftrightarrow> list_all (good_candidate e) cs \<and>
     (\<exists>tp. GetTransportProxy (session_of sys w) content = Some tp \<and> tp_state tp \<noteq> TP_INIT)"
| "may e _ sys \<longleftrightarrow> True"

text \<open>The start: the prober of \<open>a\<close> logs in, then that of \<open>b\<close>; both have created their session, and
  the texts the server wrote at the logins are on their way.\<close>

definition start_prober :: "'f env \<Rightarrow> string \<Rightarrow> string \<Rightarrow> 'f IceProber" where
  "start_prober e me remote =
     (let p = fst (Login True ''server'' 1979 me remote :: 'f IceProber \<times> 'f p_out list);
          q = fst (the (onConnectEvent True (fst (onStart_w 0 False (prober_peer p)))))
      in fst (the (createSession_s e True (p\<lparr>prober_peer := q\<rparr>))))"

definition start :: "'f env \<Rightarrow> string \<Rightarrow> string \<Rightarrow> 'f system option" where
  "start e a b =
     (let s0 = onAccept (onAccept start_server (conn True) ''10.0.0.1'' 4000) (conn False) ''10.0.0.2'' 4000 in do {
        (s1, _) \<leftarrow> relay (conn True) (conn False) (sentence [''login'', a]) s0;
        (s2, toA) \<leftarrow> relay (conn False) (conn True) (sentence [''login'', b]) s1;
        (_, toB) \<leftarrow> relay (conn False) (conn False) (sentence [''login'', b]) s1;
        Some \<lparr>srv = s2, prob = (\<lambda>w. if w then start_prober e a b else start_prober e b a),
          posts = (\<lambda>_. []), inbox = (\<lambda>w. if w then toA else toB)\<rparr>
      })"

inductive reachable :: "'f env \<Rightarrow> string \<Rightarrow> string \<Rightarrow> 'f system \<Rightarrow> bool" for e a b where
  start: "start e a b = Some sys \<Longrightarrow> reachable e a b sys"
| step: "reachable e a b sys \<Longrightarrow> may e act sys \<Longrightarrow> system_step e act sys = Some sys' \<Longrightarrow> reachable e a b sys'"

end
