(* ===== verification/Ice_System_Props.thy ===== *)
theory Ice_System_Props
  imports Ice_System
begin

text \<open>
  The handshake of two probers: an invariant that names the phases of the run, a weight that every
  step but the report of candidates decreases, and the state in which nothing is left to do.
\<close>

section \<open>The server between the probers\<close>

datatype notice = Note_Login | Note_Online | Note PPMessage

fun note_text :: "string \<Rightarrow> notice \<Rightarrow> string" where
  "note_text from Note_Login = sentence [''login'', from]"
| "note_text from Note_Online = sentence [''online'', from]"
| "note_text from (Note m) = sentence (''message'' # from # body m)"

definition served :: "(bool \<Rightarrow> string) \<Rightarrow> server \<Rightarrow> bool" where
  "served nm s \<longleftrightarrow> plain s \<and> (\<forall>w. xmlWord (peers s (conn w)) = [] \<and> pid (peers s (conn w)) = Str (nm w) \<and>
     map_of (peerObjects s) (nm w) = Some (conn w) \<and> clean (nm w))"

lemma relay_spoken:
  assumes "served nm s" and "spoken e m"
  shows "relay (conn w) (conn (\<not> w)) (sentence (''send'' # nm (\<not> w) # body m)) s = Some (s, [note_text (nm w) (Note m)])"
proof -
  have "list_all clean (nm (\<not> w) # body m)"
    using spoken_clean [OF assms(2)] assms(1) by (auto simp: served_def body_def)
  then show ?thesis
    using send_result [of s "nm (\<not> w)" "body m" "conn w"] assms(1) by (simp add: served_def relay_def)
qed

lemma relays_spoken:
  assumes "served nm s" and "list_all (spoken e) ms"
  shows "run (relay (conn w) (conn (\<not> w))) (map (\<lambda>m. sentence (''send'' # nm (\<not> w) # body m)) ms) s =
    Some (s, map (\<lambda>m. note_text (nm w) (Note m)) ms)"
  using assms(2) by (induction ms) (simp_all del: note_text.simps add: relay_spoken [OF assms(1), of e])

section \<open>Phases\<close>

definition told :: "notice list \<Rightarrow> notice list" where
  "told ns = filter (\<lambda>n. n \<noteq> Note_Online) ns"

inductive phase :: "'f env \<Rightarrow> bool \<Rightarrow> (bool \<Rightarrow> session_state) \<Rightarrow> (bool \<Rightarrow> notice list) \<Rightarrow> (bool \<Rightarrow> 'f p_out list) \<Rightarrow> bool" for e where
  waiting: "st True = STATE_INIT \<Longrightarrow> st False = STATE_INIT \<Longrightarrow> N True = [Note_Login] \<Longrightarrow> told (N False) = [] \<Longrightarrow>
    P True = [] \<Longrightarrow> P False = [] \<Longrightarrow> phase e False st N P"
| starting: "st True = STATE_INIT \<Longrightarrow> st False = STATE_INIT \<Longrightarrow> N True = [] \<Longrightarrow> told (N False) = [] \<Longrightarrow>
    P True = [Post_DO_INITIATE] \<Longrightarrow> P False = [] \<Longrightarrow> phase e True st N P"
| offered: "st True = STATE_SENTINITIATE \<Longrightarrow> st False = STATE_INIT \<Longrightarrow> N True = [] \<Longrightarrow> told (N False) = [Note initiate] \<Longrightarrow>
    set (P True) \<subseteq> {Post_S} \<Longrightarrow> P False = [] \<Longrightarrow> phase e True st N P"
| answering: "st True = STATE_SENTINITIATE \<Longrightarrow> st False = STATE_RECEIVEDINITIATE \<Longrightarrow> N True = [] \<Longrightarrow> told (N False) = [] \<Longrightarrow>
    set (P True) \<subseteq> {Post_S} \<Longrightarrow> set (P False) \<subseteq> {Post_DO_ACCEPT, Post_S} \<Longrightarrow> Post_DO_ACCEPT \<in> set (P False) \<Longrightarrow> phase e True st N P"
| accepted: "st True = STATE_SENTINITIATE \<Longrightarrow> st False \<in> {STATE_SENTACCEPT, STATE_INPROGRESS} \<Longrightarrow>
    N True = Note accept # map Note ms \<Longrightarrow> list_all (info e) ms \<Longrightarrow> told (N False) = [] \<Longrightarrow>
    set (P True) \<subseteq> {Post_S} \<Longrightarrow> set (P False) \<subseteq> {Post_DO_ACCEPT, Post_S} \<Longrightarrow>
    (st False = STATE_SENTACCEPT \<Longrightarrow> Post_S \<in> set (P False)) \<Longrightarrow> phase e True st N P"
| running: "st True \<in> {STATE_RECEIVEDACCEPT, STATE_INPROGRESS} \<Longrightarrow> st False \<in> {STATE_SENTACCEPT, STATE_INPROGRESS} \<Longrightarrow>
    N True = map Note ms \<Longrightarrow> list_all (info e) ms \<Longrightarrow> told (N False) = map Note ms' \<Longrightarrow> list_all (info e) ms' \<Longrightarrow>
    set (P True) \<subseteq> {Post_S} \<Longrightarrow> set (P False) \<subseteq> {Post_DO_ACCEPT, Post_S} \<Longrightarrow>
    (st True = STATE_RECEIVEDACCEPT \<Longrightarrow> Post_S \<in> set (P True)) \<Longrightarrow>
    (st False = STATE_SENTACCEPT \<Longrightarrow> Post_S \<in> set (P False)) \<Longrightarrow> phase e True st N P"

text \<open>The call a post leads to.\<close>

fun call_of :: "'f p_out \<Rightarrow> 'f call option" where
  "call_of Post_DO_INITIATE = Some (Call_Initiate content)"
| "call_of Post_DO_ACCEPT = Some Call_Accept"
| "call_of (From_Session Post_STATE) = Some Call_STATE"
| "call_of _ = None"

inductive_simps does_Initiate: "does e st (Call_Initiate content) st' ms ps"
inductive_simps does_Accept: "does e st Call_Accept st' ms ps"
inductive_simps does_Incoming: "does e st (Call_Incoming m) st' ms ps"
inductive_simps does_STATE: "does e st Call_STATE st' ms ps"
inductive_simps does_Ready: "does e st (Call_CandidatesReady content cs) st' ms ps"

lemmas does_simps = does_Initiate does_Accept does_Incoming does_STATE does_Ready

lemma told_simps [simp]: "told [] = []" "told (Note_Online # ns) = told ns" "told (Note m # ns) = Note m # told ns"
  "told (Note_Login # ns) = Note_Login # told ns"
  "told (ns @ ns') = told ns @ told ns'" "told (map Note ms) = map Note ms"
  by (simp_all add: told_def filter_map comp_def)

lemma message_kinds [simp]: "initiate \<noteq> accept" "accept \<noteq> initiate" "\<not> info e initiate" "\<not> info e accept"
  by (simp_all add: initiate_def accept_def info_def)

lemma phase_post:
  assumes "phase e ro st N P" and "P w = y # ys"
  shows "\<exists>x. call_of y = Some x \<and> proper e (st w) x"
  using assms by (cases rule: phase.cases; cases w) auto

lemma phase_step_post:
  assumes "phase e ro st N P" and "P w = y # ys" and "call_of y = Some x" and "does e (st w) x st' ms ps"
  shows "phase e ro (st(w := st')) (N((\<not> w) := N (\<not> w) @ map Note ms)) (P(w := ys @ ps))"
  using assms(1)
proof (cases rule: phase.cases)
  case waiting
  then show ?thesis using assms(2) by (cases w) auto
next
  case starting
  then show ?thesis using assms(2-4) by (cases w) (auto simp: does_simps intro!: phase.offered)
next
  case offered
  then show ?thesis using assms(2-4) by (cases w) (auto simp: does_simps intro!: phase.offered)
next
  case answering
  then show ?thesis
  proof (cases "y = Post_DO_ACCEPT")
    case True
    then show ?thesis using answering assms(2-4)
      by (cases w) (auto simp: does_simps intro!: phase.accepted [where ms = "tl ms"])
  next
    case False
    then show ?thesis using answering assms(2-4) by (cases w) (auto simp: does_simps intro!: phase.answering)
  qed
next
  case (accepted ns)
  then show ?thesis using assms(2-4)
    by (cases w) (auto simp: does_simps intro!: phase.accepted [where ms = ns])
next
  case (running ns ns')
  then show ?thesis using assms(2-4)
    by (cases w) (auto simp: does_simps intro!: phase.running [where ms = ns and ms' = ns'])
qed

lemma phase_notice:
  assumes "phase e ro st N P" and "N w = Note m # ns"
  shows "proper e (st w) (Call_Incoming m)"
  using assms by (cases rule: phase.cases; cases w) (auto simp: map_eq_Cons_conv)

lemma phase_step_notice:
  assumes "phase e ro st N P" and "N w = Note m # ns" and "does e (st w) (Call_Incoming m) st' ms ps"
  shows "phase e ro (st(w := st')) (N(w := ns, (\<not> w) := N (\<not> w) @ map Note ms)) (P(w := P w @ ps))"
  using assms(1)
proof (cases rule: phase.cases)
  case offered
  then show ?thesis using assms(2,3) by (cases w) (auto simp: does_simps intro!: phase.answering)
next
  case (accepted ns0)
  then show ?thesis using assms(2,3)
    by (cases w) (auto simp: does_simps intro!: phase.running [where ms = ns0 and ms' = ms])
next
  case (running ns1 ns2)
  show ?thesis
  proof (cases w)
    case True
    then obtain ns3 where "ns1 = m # ns3" "ns = map Note ns3" using running assms(2) by (auto simp: map_eq_Cons_conv)
    then show ?thesis using running assms(2,3) True
      by (auto simp: does_simps intro!: phase.running [where ms = ns3 and ms' = ns2])
  next
    case False
    then obtain ns3 where "ns2 = m # ns3" "told ns = map Note ns3" using running assms(2) by (auto simp: map_eq_Cons_conv)
    then show ?thesis using running assms(2,3) False
      by (auto simp: does_simps intro!: phase.running [where ms = ns1 and ms' = ns3])
  qed
qed (use assms(2) in \<open>cases w; auto\<close>)+

lemma phase_step_login:
  assumes "phase e ro st N P" and "N w = Note_Login # ns"
  shows "\<not> ro \<and> w \<and> phase e True st (N(w := ns)) (P(w := P w @ [Post_DO_INITIATE]))"
  using assms by (cases rule: phase.cases; cases w) (auto simp: map_eq_Cons_conv intro!: phase.starting)

lemma phase_step_online:
  assumes "phase e ro st N P" and "N w = Note_Online # ns"
  shows "phase e ro st (N(w := ns)) P"
proof -
  have "\<not> w" using assms by (cases rule: phase.cases) auto
  then have f: "N False = Note_Online # ns" "N(w := ns) = N(False := ns)" using assms(2) by auto
  have "phase e ro st (N(False := ns)) P" using assms(1)
  proof (cases rule: phase.cases)
    case waiting
    then show ?thesis using f(1) by (auto intro!: phase.waiting)
  next
    case starting
    then show ?thesis using f(1) by (auto intro!: phase.starting)
  next
    case offered
    then show ?thesis using f(1) by (auto intro!: phase.offered)
  next
    case answering
    then show ?thesis using f(1) by (auto intro!: phase.answering)
  next
    case (accepted ms)
    then show ?thesis using f(1) by (auto intro!: phase.accepted [where ms = ms])
  next
    case (running ms ms')
    then show ?thesis using f(1) by (auto intro!: phase.running [where ms = ms and ms' = ms'])
  qed
  then show ?thesis by (simp only: f(2))
qed

lemma phase_step_ready:
  assumes "phase e ro st N P" and "does e (st w) (Call_CandidatesReady content cs) st' ms ps"
  shows "phase e ro (st(w := st')) (N((\<not> w) := N (\<not> w) @ map Note ms)) (P(w := P w @ ps))"
  using assms(1)
proof (cases rule: phase.cases)
  case offered
  then show ?thesis using assms(2) by (cases w) (auto simp: does_simps intro!: phase.offered)
next
  case answering
  then show ?thesis using assms(2) by (cases w) (auto simp: does_simps intro!: phase.answering)
next
  case (accepted ns)
  then show ?thesis using assms(2)
    by (cases w) (auto simp: does_simps intro!: phase.accepted [where ms = "if w then ns else ns @ ms"])
next
  case (running ns ns')
  then show ?thesis using assms(2)
    by (cases w) (auto simp: does_simps
        intro!: phase.running [where ms = "if w then ns else ns @ ms" and ms' = "if w then ns' @ ms else ns'"])
qed (use assms(2) in \<open>cases w; auto simp: does_simps\<close>)+

section \<open>The invariant and the weight\<close>

definition ice_inv :: "'f env \<Rightarrow> (bool \<Rightarrow> string) \<Rightarrow> 'f system \<Rightarrow> (bool \<Rightarrow> 'f PPSession) \<Rightarrow> (bool \<Rightarrow> notice list) \<Rightarrow> bool" where
  "ice_inv e nm sys S N \<longleftrightarrow> served nm (srv sys) \<and>
     (\<forall>w. side e (nm (\<not> w)) (prob sys w) (S w) \<and> inbox sys w = map (note_text (nm (\<not> w))) (N w)) \<and>
     phase e (remote_online (prob sys True)) (\<lambda>w. state (S w)) N (posts sys)"

fun rank :: "session_state \<Rightarrow> nat" where
  "rank STATE_INIT = 3"
| "rank STATE_SENTINITIATE = 2"
| "rank STATE_RECEIVEDINITIATE = 2"
| "rank STATE_SENTACCEPT = 1"
| "rank STATE_RECEIVEDACCEPT = 1"
| "rank _ = 0"

definition weight_at :: "'f system \<Rightarrow> bool \<Rightarrow> nat" where
  "weight_at sys w = 8 * rank (state (session_of sys w)) + length (posts sys w) + 2 * length (inbox sys w)"

definition weight :: "'f system \<Rightarrow> nat" where
  "weight sys = weight_at sys True + weight_at sys False"

lemma weight_both: "weight sys = weight_at sys w + weight_at sys (\<not> w)"
  by (cases w) (simp_all add: weight_def)

lemma does_weight:
  "does e st x st' ms ps \<Longrightarrow> \<forall>c cs. x \<noteq> Call_CandidatesReady c cs \<Longrightarrow>
    8 * rank st' + length ps + 2 * length ms \<le> 8 * rank st"
  by (induction rule: does.induct) auto

text \<open>One side has handled something: the effects on the whole system.\<close>

lemma advance:
  assumes sv: "served nm (srv sys)"
    and sides: "\<And>v. side e (nm (\<not> v)) (prob sys v) (S v) \<and> inbox sys v = map (note_text (nm (\<not> v))) (N v)"
    and p': "side e (nm (\<not> w)) p' s'"
    and out: "sends outs = map (\<lambda>m. sentence (''send'' # nm (\<not> w) # body m)) ms" and ms: "list_all (spoken e) ms"
    and ph: "phase e (remote_online (if w then p' else prob sys True)) ((\<lambda>v. state (S v))(w := state s'))
      (N((\<not> w) := N (\<not> w) @ map Note ms)) ((posts sys)(w := posts sys w @ filter is_post outs))"
  shows "\<exists>sys'. commit w (p', outs) sys = Some sys' \<and>
    ice_inv e nm sys' (S(w := s')) (N((\<not> w) := N (\<not> w) @ map Note ms)) \<and>
    weight sys' + 8 * rank (state (S w)) = weight sys + 8 * rank (state s') + length (filter is_post outs) + 2 * length ms"
proof -
  define sys' where "sys' = sys\<lparr>prob := (prob sys)(w := p'), posts := (posts sys)(w := posts sys w @ filter is_post outs),
      inbox := (inbox sys)((\<not> w) := inbox sys (\<not> w) @ map (\<lambda>m. note_text (nm w) (Note m)) ms)\<rparr>"
  have "commit w (p', outs) sys = Some sys'"
    using relays_spoken [OF sv ms, of w] by (simp add: commit_def out sys'_def)
  moreover have "ice_inv e nm sys' (S(w := s')) (N((\<not> w) := N (\<not> w) @ map Note ms))"
  proof -
    have "(\<lambda>v. state ((S(w := s')) v)) = (\<lambda>v. state (S v))(w := state s')" by auto
    then show ?thesis using sv sides sides [of "\<not> w"] p' ph by (auto simp: ice_inv_def sys'_def comp_def)
  qed
  moreover have "weight_at sys' w + 8 * rank (state (S w)) = weight_at sys w + 8 * rank (state s') + length (filter is_post outs)"
    using p' sides [of w] by (simp add: weight_at_def session_of_def sys'_def side_def)
  moreover have "weight_at sys' (\<not> w) = weight_at sys (\<not> w) + 2 * length ms"
    by (simp add: weight_at_def session_of_def sys'_def)
  ultimately show ?thesis using weight_both [of sys' w] weight_both [of sys w] by (intro exI [of _ sys']) simp
qed

text \<open>Handling a post.\<close>

lemma setupTarget_side:
  assumes "side e remote p s"
  shows "\<exists>p' outs. setupTarget p = Some (p', outs) \<and> side e remote p' s \<and> remote_online p' = remote_online p \<and>
    sends outs = [] \<and> filter is_post outs = []"
proof -
  have g: "good e s" and p: "session p = Some s" using assms by (simp_all add: side_def)
  obtain tp where "GetTransportProxy s content = Some tp" using g by (rule goodE)
  then show ?thesis using assms p by (simp add: setupTarget_def side_def connected_def)
qed

lemma handle_side:
  assumes "side e remote p s" and "call_of y = Some x" and "proper e (state s) x"
  shows "\<exists>p' outs s' ms. handle e y p = Some (p', outs) \<and> side e remote p' s' \<and> remote_online p' = remote_online p \<and>
    does e (state s) x (state s') ms (filter is_post outs) \<and> sends outs = map (\<lambda>m. sentence (''send'' # remote # body m)) ms"
proof -
  obtain s' o1 ms where 1: "session_call e x p = Some (p\<lparr>session := Some s'\<rparr>, o1)" "side e remote (p\<lparr>session := Some s'\<rparr>) s'"
    "does e (state s) x (state s') ms (filter is_post o1)" "sends o1 = map (\<lambda>m. sentence (''send'' # remote # body m)) ms"
    using side_call [OF assms(1,3)] by blast
  obtain p2 o2 where 2: "setupTarget (p\<lparr>session := Some s'\<rparr>) = Some (p2, o2)" "side e remote p2 s'" "remote_online p2 = remote_online p"
    "sends o2 = []" "filter is_post o2 = []"
    using setupTarget_side [OF 1(2)] by auto
  show ?thesis
  proof (cases "y = Post_DO_INITIATE \<or> y = Post_DO_ACCEPT")
    case True
    then have "handle e y p = Some (p2, o1 @ o2)" using assms(2) 1(1) 2(1) by (auto simp: doInitiate_s_def doAccept_s_def)
    then show ?thesis using 1 2 by fastforce
  next
    case False
    then have "y = Post_S" "x = Call_STATE" using assms(2) by (auto elim!: call_of.elims)
    then show ?thesis using 1 by fastforce
  qed
qed

lemma inv_post:
  assumes "ice_inv e nm sys S N" and "posts sys w = y # ys"
  shows "\<exists>sys' S' N'. system_step e (Act_Post w) sys = Some sys' \<and> ice_inv e nm sys' S' N' \<and> weight sys' < weight sys"
proof -
  have sv: "served nm (srv sys)" and ph: "phase e (remote_online (prob sys True)) (\<lambda>w. state (S w)) N (posts sys)"
    and sides: "\<And>v. side e (nm (\<not> v)) (prob sys v) (S v) \<and> inbox sys v = map (note_text (nm (\<not> v))) (N v)"
    using assms(1) by (auto simp: ice_inv_def)
  obtain x where x: "call_of y = Some x" "proper e (state (S w)) x" using phase_post [OF ph assms(2)] by blast
  obtain p' outs s' ms where h: "handle e y (prob sys w) = Some (p', outs)" "side e (nm (\<not> w)) p' s'"
      "remote_online p' = remote_online (prob sys w)" and d: "does e (state (S w)) x (state s') ms (filter is_post outs)"
      and o: "sends outs = map (\<lambda>m. sentence (''send'' # nm (\<not> w) # body m)) ms"
    using handle_side [of e "nm (\<not> w)" "prob sys w" "S w" y x] sides x by blast
  define sys0 where "sys0 = sys\<lparr>posts := (posts sys)(w := ys)\<rparr>"
  have ro: "remote_online (if w then p' else prob sys0 True) = remote_online (prob sys True)"
    using h(3) by (cases w) (simp_all add: sys0_def)
  have ph': "phase e (remote_online (if w then p' else prob sys0 True)) ((\<lambda>v. state (S v))(w := state s'))
      (N((\<not> w) := N (\<not> w) @ map Note ms)) ((posts sys0)(w := posts sys0 w @ filter is_post outs))"
    using phase_step_post [OF ph assms(2) x(1) d] unfolding ro by (simp add: sys0_def)
  have sys0: "served nm (srv sys0)"
    "\<And>v. side e (nm (\<not> v)) (prob sys0 v) (S v) \<and> inbox sys0 v = map (note_text (nm (\<not> v))) (N v)"
    using sv sides by (simp_all add: sys0_def)
  obtain sys' where c: "commit w (p', outs) sys0 = Some sys'"
    and i: "ice_inv e nm sys' (S(w := s')) (N((\<not> w) := N (\<not> w) @ map Note ms))"
    and wt: "weight sys' + 8 * rank (state (S w)) = weight sys0 + 8 * rank (state s') + length (filter is_post outs) + 2 * length ms"
    using advance [of nm sys0 e S N w p' s' outs ms, OF sys0 h(2) o does_spoken [OF d] ph'] by blast
  have "weight sys = weight sys0 + 1"
    unfolding weight_both [of sys w] weight_both [of sys0 w] using assms(2) by (simp add: weight_at_def session_of_def sys0_def)
  moreover have "8 * rank (state s') + length (filter is_post outs) + 2 * length ms \<le> 8 * rank (state (S w))"
    using does_weight [OF d] x(1) by (auto elim!: call_of.elims)
  ultimately have "weight sys' < weight sys" using wt by simp
  moreover have "system_step e (Act_Post w) sys = Some sys'" using assms(2) h(1) c by (simp add: sys0_def)
  ultimately show ?thesis using i by blast
qed

text \<open>Reading a text.\<close>

lemma read_message:
  assumes "side e remote p s" and "clean from" and "proper e (state s) (Call_Incoming m)"
  shows "\<exists>p' outs s' ms. prober_read e (note_text from (Note m)) p = Some (p', outs) \<and> side e remote p' s' \<and>
    remote_online p' = remote_online p \<and> does e (state s) (Call_Incoming m) (state s') ms (filter is_post outs) \<and>
    sends outs = map (\<lambda>m. sentence (''send'' # remote # body m)) ms"
proof -
  have m: "spoken e m" using assms(3) by (auto simp: spoken_def)
  have c: "connected p" using assms(1) by (simp add: side_def)
  obtain s' outs ms where 1: "session_call e (Call_Incoming m) p = Some (p\<lparr>session := Some s'\<rparr>, outs)"
    "side e remote (p\<lparr>session := Some s'\<rparr>) s'" "does e (state s) (Call_Incoming m) (state s') ms (filter is_post outs)"
    "sends outs = map (\<lambda>m. sentence (''send'' # remote # body m)) ms"
    using side_call [OF assms(1,3)] by blast
  show ?thesis using prober_read_message [OF c assms(2) _ _ 1(1)] spoken_clean [OF m] 1(2-4) by fastforce
qed

lemma read_presence:
  assumes "connected p" and "clean from"
  shows "\<exists>shown. prober_read e (note_text from Note_Online) p = Some (p, [Print shown])"
    and "\<not> remote_online p \<Longrightarrow> remote_name p = from \<Longrightarrow>
      \<exists>shown. prober_read e (note_text from Note_Login) p = Some (p\<lparr>remote_online := True\<rparr>, [Print shown, Post_DO_INITIATE])"
proof -
  have c: "list_all clean [''online'', from]" "list_all clean [''login'', from]" using assms(2) by (simp_all add: clean_keywords)
  show "\<exists>shown. prober_read e (note_text from Note_Online) p = Some (p, [Print shown])"
    using prober_read_sentence [OF assms(1) c(1)] signals_of_sentence [OF c(1)] by simp
  show "\<exists>shown. prober_read e (note_text from Note_Login) p = Some (p\<lparr>remote_online := True\<rparr>, [Print shown, Post_DO_INITIATE])"
    if "\<not> remote_online p" "remote_name p = from"
    using prober_read_sentence [OF assms(1) c(2)] signals_of_sentence [OF c(2)] that by (simp add: onRemoteLogin_def)
qed

lemma read_advance:
  assumes inv: "ice_inv e nm sys S N" and t: "inbox sys w = t # ts" "N w = n # ns"
    and r: "prober_read e t (prob sys w) = Some (p', outs)" and p': "side e (nm (\<not> w)) p' s'"
    and out: "sends outs = map (\<lambda>m. sentence (''send'' # nm (\<not> w) # body m)) ms" and ms: "list_all (spoken e) ms"
    and ph: "phase e (remote_online (if w then p' else prob sys True)) ((\<lambda>v. state (S v))(w := state s'))
      (N(w := ns, (\<not> w) := N (\<not> w) @ map Note ms)) ((posts sys)(w := posts sys w @ filter is_post outs))"
    and le: "8 * rank (state s') + length (filter is_post outs) + 2 * length ms \<le> 8 * rank (state (S w)) + 1"
  shows "\<exists>sys' S' N'. system_step e (Act_Read w) sys = Some sys' \<and> ice_inv e nm sys' S' N' \<and> weight sys' < weight sys"
proof -
  define sys0 where "sys0 = sys\<lparr>inbox := (inbox sys)(w := ts)\<rparr>"
  have sys0: "served nm (srv sys0)"
    "\<And>v. side e (nm (\<not> v)) (prob sys0 v) (S v) \<and> inbox sys0 v = map (note_text (nm (\<not> v))) ((N(w := ns)) v)"
    using inv t by (auto simp: ice_inv_def sys0_def)
  have ph0: "phase e (remote_online (if w then p' else prob sys0 True)) ((\<lambda>v. state (S v))(w := state s'))
      ((N(w := ns))((\<not> w) := (N(w := ns)) (\<not> w) @ map Note ms)) ((posts sys0)(w := posts sys0 w @ filter is_post outs))"
    using ph by (cases w) (simp_all add: sys0_def)
  obtain sys' where c: "commit w (p', outs) sys0 = Some sys'"
    and i: "ice_inv e nm sys' (S(w := s')) ((N(w := ns))((\<not> w) := (N(w := ns)) (\<not> w) @ map Note ms))"
    and wt: "weight sys' + 8 * rank (state (S w)) = weight sys0 + 8 * rank (state s') + length (filter is_post outs) + 2 * length ms"
    using advance [of nm sys0 e S "N(w := ns)" w p' s' outs ms, OF sys0 p' out ms ph0] by blast
  have "weight sys = weight sys0 + 2"
    unfolding weight_both [of sys w] weight_both [of sys0 w] using t(1) by (simp add: weight_at_def session_of_def sys0_def)
  then have "weight sys' < weight sys" using wt le by simp
  moreover have "system_step e (Act_Read w) sys = Some sys'" using t(1) r c by (simp add: sys0_def)
  ultimately show ?thesis using i by blast
qed

lemma inv_read:
  assumes inv: "ice_inv e nm sys S N" and t: "inbox sys w = t # ts"
  shows "\<exists>sys' S' N'. system_step e (Act_Read w) sys = Some sys' \<and> ice_inv e nm sys' S' N' \<and> weight sys' < weight sys"
proof -
  have ph: "phase e (remote_online (prob sys True)) (\<lambda>w. state (S w)) N (posts sys)"
    and sd: "side e (nm (\<not> w)) (prob sys w) (S w)" and cl: "clean (nm (\<not> w))"
    using inv by (auto simp: ice_inv_def served_def)
  have c: "connected (prob sys w)" "remote_name (prob sys w) = nm (\<not> w)" using sd by (simp_all add: side_def)
  obtain n ns where n: "N w = n # ns" and tn: "t = note_text (nm (\<not> w)) n" using inv t by (auto simp: ice_inv_def)
  show ?thesis
  proof (cases n)
    case Note_Login
    note pl = phase_step_login [OF ph n [unfolded Note_Login]]
    then have w: "w = True" "\<not> remote_online (prob sys w)" by auto
    obtain shown where "prober_read e t (prob sys w) = Some ((prob sys w)\<lparr>remote_online := True\<rparr>, [Print shown, Post_DO_INITIATE])"
      using read_presence(2) [OF c(1) cl w(2) c(2)] unfolding tn Note_Login by blast
    moreover have "side e (nm (\<not> w)) ((prob sys w)\<lparr>remote_online := True\<rparr>) (S w)" using sd by (simp add: side_def connected_def)
    ultimately show ?thesis
      by (rule read_advance [OF inv t n, where ms = "[]"]) (use pl w in \<open>simp_all add: fun_upd_idem fun_upd_twist\<close>)
  next
    case Note_Online
    obtain shown where "prober_read e t (prob sys w) = Some (prob sys w, [Print shown])"
      using read_presence(1) [OF c(1) cl] unfolding tn Note_Online by blast
    then show ?thesis using sd
      by (rule read_advance [OF inv t n, where ms = "[]"])
        (use phase_step_online [OF ph n [unfolded Note_Online]] in \<open>cases w; simp add: fun_upd_idem fun_upd_twist\<close>)+
  next
    case (Note m)
    have pr: "proper e (state (S w)) (Call_Incoming m)" using phase_notice [OF ph n [unfolded Note]] .
    obtain p' outs s' ms where r: "prober_read e t (prob sys w) = Some (p', outs)" "side e (nm (\<not> w)) p' s'"
      "remote_online p' = remote_online (prob sys w)" and d: "does e (state (S w)) (Call_Incoming m) (state s') ms (filter is_post outs)"
      and o: "sends outs = map (\<lambda>m. sentence (''send'' # nm (\<not> w) # body m)) ms"
      using read_message [OF sd cl pr] unfolding tn Note by blast
    have ro: "remote_online (if w then p' else prob sys True) = remote_online (prob sys True)" using r(3) by (cases w) simp_all
    show ?thesis
      by (rule read_advance [OF inv t n r(1,2) o does_spoken [OF d]])
        (use phase_step_notice [OF ph n [unfolded Note] d] ro does_weight [OF d] in \<open>simp_all\<close>)
  qed
qed

lemma inv_ready:
  assumes inv: "ice_inv e nm sys S N" and m: "may e (Act_Ready w cs) sys"
  shows "\<exists>sys' S' N'. system_step e (Act_Ready w cs) sys = Some sys' \<and> ice_inv e nm sys' S' N'"
proof -
  have sv: "served nm (srv sys)" and ph: "phase e (remote_online (prob sys True)) (\<lambda>w. state (S w)) N (posts sys)"
    and sides: "\<And>v. side e (nm (\<not> v)) (prob sys v) (S v) \<and> inbox sys v = map (note_text (nm (\<not> v))) (N v)"
    using inv by (auto simp: ice_inv_def)
  have sd: "side e (nm (\<not> w)) (prob sys w) (S w)" using sides by blast
  then have "good e (S w)" "session_of sys w = S w" by (simp_all add: side_def session_of_def)
  then have pr: "proper e (state (S w)) (Call_CandidatesReady content cs)"
    using m by (auto simp: good_def dest: soundD)
  obtain s' outs ms where 1: "session_call e (Call_CandidatesReady content cs) (prob sys w) = Some ((prob sys w)\<lparr>session := Some s'\<rparr>, outs)"
      "side e (nm (\<not> w)) ((prob sys w)\<lparr>session := Some s'\<rparr>) s'"
    and d: "does e (state (S w)) (Call_CandidatesReady content cs) (state s') ms (filter is_post outs)"
    and o: "sends outs = map (\<lambda>m. sentence (''send'' # nm (\<not> w) # body m)) ms"
    using side_call [OF sd pr] by blast
  have "remote_online (if w then (prob sys w)\<lparr>session := Some s'\<rparr> else prob sys True) = remote_online (prob sys True)"
    by (cases w) simp_all
  then have ph': "phase e (remote_online (if w then (prob sys w)\<lparr>session := Some s'\<rparr> else prob sys True)) ((\<lambda>v. state (S v))(w := state s'))
      (N((\<not> w) := N (\<not> w) @ map Note ms)) ((posts sys)(w := posts sys w @ filter is_post outs))"
    using phase_step_ready [OF ph d] by simp
  show ?thesis
    using advance [of nm sys e S N w "(prob sys w)\<lparr>session := Some s'\<rparr>" s' outs ms, OF sv sides 1(2) o does_spoken [OF d] ph'] 1(1)
    by auto
qed

section \<open>The start\<close>

lemma start_prober_side:
  "\<exists>s. side e remote (start_prober e me remote) s \<and> state s = STATE_INIT \<and> \<not> remote_online (start_prober e me remote)"
proof -
  define p :: "'a IceProber" where "p = (fst (Login True ''server'' 1979 me remote))
    \<lparr>prober_peer := fst (the (onConnectEvent True (fst (onStart_w 0 False (Peer ''server'' 1979 me)))))\<rparr>"
  have p: "connected p" "remote_name p = remote" "\<not> remote_online p"
    by (simp_all add: p_def Login_def connected_def onConnectEvent_def onStart_w_def Peer_def Let_def)
  define s0 :: "'a PPSession" where "s0 = new_PPSession ''iceprober'' True"
  define p0 where "p0 = p\<lparr>session := Some s0\<rparr>"
  obtain s1 o1 where 1: "session_step e (Call_set_allow_local_ips True) s0 = Some (s1, o1)" and "sound s1"
    using sound_step [OF new_session_sound, of e "Call_set_allow_local_ips True"] by (auto simp: s0_def)
  then obtain s2 o2 where 2: "session_step e (Call_CreateChannel content channel_name) s1 = Some (s2, o2)" and s2: "sound s2"
    using sound_step [of s1 e "Call_CreateChannel content channel_name"] by auto
  have "state s2 = STATE_INIT"
    using call_refines(1) [OF 1] call_refines(1) [OF 2] by (simp add: s0_def new_PPSession_def)
  moreover have "good e s2" using 1 2 s2 \<open>state s2 = STATE_INIT\<close>
    by (auto simp: s0_def set_allow_local_ips_def new_PPSession_def CreateChannel_def GetOrCreateTransportProxy_def
        GetTransportProxy_def new_TransportProxy_def tp_CreateChannel_def bind_eq_Some_iff Let_def intro!: goodI)
  moreover have "start_prober e me remote = p0\<lparr>session := Some s2\<rparr>"
    using session_call_reactions [of p0 s0 e _ s1 o1, OF _ _ 1]
      session_call_reactions [of "p0\<lparr>session := Some s1\<rparr>" s1 e _ s2 o2, OF _ _ 2] p(1)
    by (simp add: start_prober_def createSession_s_def p_def p0_def s0_def connected_def Login_def Let_def)
  ultimately show ?thesis using p by (intro exI [of _ s2]) (simp add: side_def p0_def connected_def)
qed

lemma start_inv:
  assumes "clean a" and "clean b" and "a \<noteq> b" and "{a, b} \<inter> {''__proto__'', ''hasOwnProperty''} = {}"
  shows "\<exists>sys S N. start e a b = Some sys \<and> ice_inv e (\<lambda>w. if w then a else b) sys S N"
proof -
  define s0 where "s0 = onAccept (onAccept start_server 2 ''10.0.0.1'' 4000) 3 ''10.0.0.2'' 4000"
  have 0: "plain s0" "peerObjects s0 = []" "xmlWord (peers s0 d) = []" "others s0 = []" for d
    by (auto simp: s0_def onAccept_def set_peer_def start_server_def plain_def js_wf_def others_def own_keys_def)
  define s1 where "s1 = (logged_in 2 (Str a) s0)\<lparr>peerObjects := [(a, 2)]\<rparr>"
  have r1: "onData s0 2 (sentence [''login'', a]) = (Some s1, [])"
    using login_result [OF 0(1) assms(1) 0(3), of 2] assms(4) by (auto simp: 0 s1_def)
  have 1: "plain s1" "peerObjects s1 = [(a, 2)]" "xmlWord (peers s1 d) = []" "others s1 = [2]" "pid (peers s1 2) = Str a" for d
    using assms(4) 0 by (auto simp: s1_def plain_def js_wf_def others_def own_keys_def)
  define s2 where "s2 = (logged_in 3 (Str b) s1)\<lparr>peerObjects := [(a, 2), (b, 3)]\<rparr>"
  have r2: "onData s1 3 (sentence [''login'', b]) =
      (Some s2, [Write 3 (sentence [''online'', a]), Write 2 (sentence [''login'', b])])"
    using login_result [OF 1(1) assms(2) 1(3), of 3] assms(3,4) by (auto simp: 1 s2_def)
  have sv: "served (\<lambda>w. if w then a else b) s2"
    using 1 assms by (auto simp: served_def s2_def conn_def plain_def js_wf_def)
  obtain sa where sa: "side e b (start_prober e a b) sa" "state sa = STATE_INIT" "\<not> remote_online (start_prober e a b)"
    using start_prober_side by blast
  obtain sb where sb: "side e a (start_prober e b a) sb" "state sb = STATE_INIT" using start_prober_side by blast
  define sys where "sys = \<lparr>srv = s2, prob = (\<lambda>w. if w then start_prober e a b else start_prober e b a), posts = (\<lambda>_. []),
    inbox = (\<lambda>w. if w then [sentence [''login'', b]] else [sentence [''online'', a]])\<rparr>"
  have "start e a b = Some sys" using r1 r2 by (simp add: start_def relay_def conn_def s0_def sys_def)
  moreover have "ice_inv e (\<lambda>w. if w then a else b) sys (\<lambda>w. if w then sa else sb) (\<lambda>w. if w then [Note_Login] else [Note_Online])"
    using sv sa sb by (auto simp: ice_inv_def sys_def intro!: phase.waiting)
  ultimately show ?thesis by blast
qed

lemma reachable_inv:
  assumes "reachable e a b sys" and "clean a" and "clean b" and "a \<noteq> b" and "{a, b} \<inter> {''__proto__'', ''hasOwnProperty''} = {}"
  shows "\<exists>S N. ice_inv e (\<lambda>w. if w then a else b) sys S N"
  using assms(1)
proof (induction rule: reachable.induct)
  case (start sys)
  then show ?case using start_inv [OF assms(2-5), of e] by auto
next
  case (step sys act sys')
  then obtain S N where i: "ice_inv e (\<lambda>w. if w then a else b) sys S N" by blast
  show ?case
  proof (cases act)
    case (Act_Post w)
    then show ?thesis
    proof (cases "posts sys w")
      case (Cons y ys)
      then show ?thesis using inv_post [OF i Cons] step.hyps(3) Act_Post by (metis option.inject)
    qed (use step.hyps(3) i in auto)
  next
    case (Act_Read w)
    then show ?thesis
    proof (cases "inbox sys w")
      case (Cons t ts)
      then show ?thesis using inv_read [OF i Cons] step.hyps(3) Act_Read by (metis option.inject)
    qed (use step.hyps(3) i in auto)
  next
    case (Act_Ready w cs)
    then show ?thesis using inv_ready [OF i, of w cs] step.hyps(2,3) by (metis option.inject)
  qed
qed

section \<open>The properties\<close>

text \<open>A step of the signaling: a post is handled or a text is read.\<close>

definition work :: "'f env \<Rightarrow> 'f system \<Rightarrow> 'f system \<Rightarrow> bool" where
  "work e sys sys' \<longleftrightarrow> (\<exists>w. (posts sys w \<noteq> [] \<and> system_step e (Act_Post w) sys = Some sys') \<or>
     (inbox sys w \<noteq> [] \<and> system_step e (Act_Read w) sys = Some sys'))"

definition quiet :: "'f system \<Rightarrow> bool" where
  "quiet sys \<longleftrightarrow> (\<forall>w. posts sys w = [] \<and> inbox sys w = [])"

lemma inv_work:
  assumes "ice_inv e nm sys S N"
  shows "work e sys sys' \<Longrightarrow> weight sys' < weight sys" and "\<not> quiet sys \<Longrightarrow> \<exists>sys'. work e sys sys'"
proof -
  show "weight sys' < weight sys" if "work e sys sys'"
    using that inv_post [OF assms] inv_read [OF assms] unfolding work_def by (metis neq_Nil_conv option.inject)
  show "\<exists>sys'. work e sys sys'" if "\<not> quiet sys"
    using that inv_post [OF assms] inv_read [OF assms] unfolding work_def quiet_def by (metis neq_Nil_conv)
qed

lemma inv_quiet:
  assumes "ice_inv e nm sys S N" and "quiet sys"
  shows "state (session_of sys w) = STATE_INPROGRESS \<and> content_name (session_of sys w) = content"
proof -
  have n: "N v = []" "posts sys v = []" for v using assms by (auto simp: ice_inv_def quiet_def)
  have "phase e (remote_online (prob sys True)) (\<lambda>w. state (S w)) N (posts sys)" using assms(1) by (simp add: ice_inv_def)
  then have "state (S v) = STATE_INPROGRESS" for v by (cases rule: phase.cases) (cases v; auto simp: n)+
  moreover have "side e (nm (\<not> w)) (prob sys w) (S w)" using assms(1) by (auto simp: ice_inv_def)
  ultimately show ?thesis by (simp add: side_def session_of_def)
qed



section \<open>An instance\<close>

lemma work_reachable: "reachable e a b sys \<Longrightarrow> work e sys sys' \<Longrightarrow> reachable e a b sys'"
  unfolding work_def using reachable.step [of e a b sys] may.simps(2,3) by blast

lemma reaches_quiet:
  assumes "clean a" and "clean b" and "a \<noteq> b" and "{a, b} \<inter> {''__proto__'', ''hasOwnProperty''} = {}"
  shows "reachable e a b sys \<Longrightarrow> \<exists>sys'. reachable e a b sys' \<and> quiet sys'"
proof (induction "weight sys" arbitrary: sys rule: less_induct)
  case less
  obtain S N where i: "ice_inv e (\<lambda>w. if w then a else b) sys S N" using reachable_inv [OF less.prems assms] by blast
  show ?case using less inv_work [OF i] work_reachable by blast
qed

lemma some_names: "clean ''ann''" "clean ''bob''" "''ann'' \<noteq> ''bob''" "{''ann'', ''bob''} \<inter> {''__proto__'', ''hasOwnProperty''} = {}"
  by (simp_all add: clean_def)

lemma some_start: "\<exists>sys. reachable some_env ''ann'' ''bob'' sys"
  using start_inv [OF some_names, of some_env] reachable.start by blast



end
